(* ===== verification/Prelude.thy ===== *)
theory Prelude
  imports Main "HOL-Library.AList"
begin

text \<open>
  Shared vocabulary of the development.

  Go maps are association lists with distinct keys: \<open>get\<close>, \<open>put\<close> and \<open>del\<close>
  are the map read, the map write and \<open>delete\<close>. Iteration over a Go map visits the
  entries in an unspecified order; operations whose outcome could depend on that order
  take the order as an argument, the others are proved on every list.
  \<open>ledger\<close> is the contract of a component that keeps a running counter next to a
  map (bytes retained, content reserved): the counter is the sum of the entries' charges.
  \<open>last_n\<close> is the slice \<open>xs[len(xs)-n:]\<close> with which bounded histories are trimmed.
\<close>

named_theorems op_defs \<open>definitions of a component's operations\<close>
named_theorems inv_defs \<open>definitions of the well-formedness invariants\<close>
named_theorems frame_simps \<open>what an operation leaves unchanged\<close>

section \<open>Go maps\<close>

abbreviation get :: "('k \<times> 'v) list \<Rightarrow> 'k \<Rightarrow> 'v option" where
  "get m k \<equiv> map_of m k"

abbreviation put :: "'k \<Rightarrow> 'v \<Rightarrow> ('k \<times> 'v) list \<Rightarrow> ('k \<times> 'v) list" where
  "put k v m \<equiv> AList.update k v m"

abbreviation del :: "'k \<Rightarrow> ('k \<times> 'v) list \<Rightarrow> ('k \<times> 'v) list" where
  "del k m \<equiv> AList.delete k m"

abbreviation keys :: "('k \<times> 'v) list \<Rightarrow> 'k set" where
  "keys m \<equiv> fst ` set m"

definition unique_keys :: "('k \<times> 'v) list \<Rightarrow> bool" where
  "unique_keys m \<longleftrightarrow> distinct (map fst m)"

lemma unique_keys_Nil [simp]: "unique_keys []"
  by (simp add: unique_keys_def)

lemma unique_keys_put [simp]: "unique_keys m \<Longrightarrow> unique_keys (put k v m)"
  by (simp add: unique_keys_def distinct_update)

lemma unique_keys_del [simp]: "unique_keys m \<Longrightarrow> unique_keys (del k m)"
  by (simp add: unique_keys_def distinct_delete)

lemma unique_keys_filter [simp]: "unique_keys m \<Longrightarrow> unique_keys (filter P m)"
  by (induction m) (auto simp: unique_keys_def)

lemma get_put [simp]: "get (put k v m) k' = (if k' = k then Some v else get m k')"
  by (simp add: update_conv)

lemma get_del [simp]: "get (del k m) k' = (if k' = k then None else get m k')"
  by (simp add: delete_conv')

lemma get_in_set: "unique_keys m \<Longrightarrow> (k, v) \<in> set m \<longleftrightarrow> get m k = Some v"
  by (auto simp: unique_keys_def dest: map_of_SomeD)

lemma keys_put [simp]: "keys (put k v m) = insert k (keys m)"
  by (simp add: dom_update)

lemma keys_del [simp]: "keys (del k m) = keys m - {k}"
  by (auto simp: AList.delete_eq)

lemma get_None_iff: "get m k = None \<longleftrightarrow> k \<notin> keys m"
  by (simp add: map_of_eq_None_iff)

lemma get_Some_key: "get m k = Some v \<Longrightarrow> k \<in> keys m"
  by (metis get_None_iff not_None_eq)

lemma get_filter_key: "get (filter (\<lambda>(k, v). P k) m) k = (if P k then get m k else None)"
  by (induction m) auto

lemma get_filter:
  "unique_keys m \<Longrightarrow>
     get (filter (\<lambda>(k, v). P k v) m) k =
       (case get m k of None \<Rightarrow> None | Some v \<Rightarrow> if P k v then Some v else None)"
proof (induction m)
  case (Cons e m)
  obtain k' v' where [simp]: "e = (k', v')" by (cases e)
  from Cons.prems have "k' \<notin> keys m" "unique_keys m"
    by (auto simp: unique_keys_def)
  with Cons.IH show ?case by (auto simp: get_None_iff split: option.splits)
qed simp

lemma set_put_fresh: "k \<notin> keys m \<Longrightarrow> put k v m = m @ [(k, v)]"
  by (induction m) auto

lemma set_del: "set (del k m) = {(k', v) \<in> set m. k' \<noteq> k}"
  by (auto simp: AList.delete_eq)

lemma set_put_subset: "set (put k v m) \<subseteq> insert (k, v) (set m)"
  by (induction m) auto

lemma length_put_fresh [simp]: "k \<notin> keys m \<Longrightarrow> length (put k v m) = Suc (length m)"
  by (simp add: set_put_fresh)

lemma length_put_old [simp]: "k \<in> keys m \<Longrightarrow> length (put k v m) = length m"
  by (induction m) auto

lemma length_del_le [simp]: "length (del k m) \<le> length m"
  by (simp add: length_delete_le)

lemma put_same [simp]: "get m k = Some v \<Longrightarrow> put k v m = m"
  by (induction m) auto

lemma put_put [simp]: "put k v (put k u m) = put k v m"
  by (induction m) auto

lemma del_fresh [simp]: "get m k = None \<Longrightarrow> del k m = m"
  by (induction m) (auto split: if_splits)

lemma del_put [simp]: "del k (put k v m) = del k m"
  by (induction m) auto

lemma length_del_unique: "unique_keys m \<Longrightarrow> get m k = Some v \<Longrightarrow> length (del k m) = length m - 1"
proof (induction m)
  case (Cons e m)
  obtain k' v' where [simp]: "e = (k', v')" by (cases e)
  from Cons.prems have "k' \<notin> keys m" "unique_keys m" by (auto simp: unique_keys_def)
  moreover have "m \<noteq> []" if "k' \<noteq> k" using Cons.prems(2) that by auto
  ultimately show ?case using Cons by (cases "k' = k") (auto simp: get_None_iff [symmetric])
qed simp

lemma length_del_Some: "get m k = Some v \<Longrightarrow> length (del k m) < length m"
  by (induction m) (auto simp: le_imp_less_Suc length_delete_le split: if_splits)

section \<open>Sums of charges\<close>

definition total :: "('v \<Rightarrow> int) \<Rightarrow> ('k \<times> 'v) list \<Rightarrow> int" where
  "total w m = (\<Sum>(k, v)\<leftarrow>m. w v)"

lemma total_simps [simp]:
  "total w [] = 0"
  "total w ((k, v) # m) = w v + total w m"
  "total w (m @ m') = total w m + total w m'"
  by (simp_all add: total_def)

lemma total_put_fresh: "get m k = None \<Longrightarrow> total w (put k v m) = total w m + w v"
  by (simp add: get_None_iff set_put_fresh)

lemma total_put_old:
  "get m k = Some u \<Longrightarrow> total w (put k v m) = total w m - w u + w v"
  by (induction m) (auto split: if_splits)

lemma total_del_None: "get m k = None \<Longrightarrow> total w (del k m) = total w m"
  by (induction m) (auto split: if_splits)

lemma total_del:
  "unique_keys m \<Longrightarrow> get m k = Some u \<Longrightarrow> total w (del k m) = total w m - w u"
  by (induction m)
     (auto simp: unique_keys_def get_None_iff[symmetric] total_del_None split: if_splits)

lemma total_filter:
  "total w (filter P m) = total w m - total w (filter (\<lambda>e. \<not> P e) m)"
  by (induction m) auto

section \<open>The contract of a map with a running counter\<close>

locale ledger =
  fixes entries :: "'s \<Rightarrow> ('k \<times> 'v) list"
    and counter :: "'s \<Rightarrow> int"
    and charge :: "'v \<Rightarrow> int"
  assumes charge_nonneg: "0 \<le> charge v"
begin

definition balanced :: "'s \<Rightarrow> bool" where
  "balanced s \<longleftrightarrow> unique_keys (entries s) \<and> counter s = total charge (entries s)"

lemma total_nonneg: "0 \<le> total charge m"
  by (induction m) (auto simp: charge_nonneg)

lemma balanced_counter_nonneg: "balanced s \<Longrightarrow> 0 \<le> counter s"
  by (simp add: balanced_def total_nonneg)

lemma charge_le_total: "(k, v) \<in> set m \<Longrightarrow> charge v \<le> total charge m"
proof (induction m)
  case (Cons e m)
  then show ?case
    using charge_nonneg [of "snd e"] total_nonneg [of m] by (cases e) auto
qed simp

lemma balanced_charge_le: "balanced s \<Longrightarrow> get (entries s) k = Some v \<Longrightarrow> charge v \<le> counter s"
  by (auto simp: balanced_def intro: charge_le_total dest: map_of_SomeD)

lemma balanced_insert:
  assumes "balanced s" "get (entries s) k = None"
    and "entries s' = put k v (entries s)" "counter s' = counter s + charge v"
  shows "balanced s'"
  using assms by (simp add: balanced_def total_put_fresh)

lemma balanced_replace:
  assumes "balanced s" "get (entries s) k = Some u"
    and "entries s' = put k v (entries s)" "counter s' = counter s - charge u + charge v"
  shows "balanced s'"
  using assms by (simp add: balanced_def total_put_old)

lemma balanced_remove:
  assumes "balanced s" "get (entries s) k = Some u"
    and "entries s' = del k (entries s)" "counter s' = counter s - charge u"
  shows "balanced s'"
  using assms by (simp add: balanced_def total_del)

lemma balanced_filter:
  assumes "balanced s" "entries s' = filter P (entries s)"
    and "counter s' = counter s - total charge (filter (\<lambda>e. \<not> P e) (entries s))"
  shows "balanced s'"
  using assms total_filter [of charge P "entries s"] by (simp add: balanced_def)

end

section \<open>Slices\<close>

definition last_n :: "nat \<Rightarrow> 'a list \<Rightarrow> 'a list" where
  "last_n n xs = drop (length xs - n) xs"

lemma length_last_n [simp]: "length (last_n n xs) = min n (length xs)"
  by (simp add: last_n_def)

lemma last_n_short [simp]: "length xs \<le> n \<Longrightarrow> last_n n xs = xs"
  by (simp add: last_n_def)

lemma set_last_n: "set (last_n n xs) \<subseteq> set xs"
  by (simp add: last_n_def set_drop_subset)

lemma last_n_snoc: "0 < n \<Longrightarrow> x \<in> set (last_n n (xs @ [x]))"
  by (cases n) (simp_all add: last_n_def)

definition remove_nth :: "nat \<Rightarrow> 'a list \<Rightarrow> 'a list" where
  "remove_nth i xs = take i xs @ drop (Suc i) xs"

lemma length_remove_nth [simp]: "i < length xs \<Longrightarrow> length (remove_nth i xs) = length xs - 1"
  by (simp add: remove_nth_def)

lemma remove_nth_0 [simp]: "remove_nth 0 xs = tl xs"
  by (simp add: remove_nth_def drop_Suc)

lemma remove_nth_Cons [simp]: "remove_nth (Suc i) (x # xs) = x # remove_nth i xs"
  by (simp add: remove_nth_def)

lemma map_remove_nth: "map f (remove_nth i xs) = remove_nth i (map f xs)"
  by (simp add: remove_nth_def take_map drop_map)

lemma set_remove_nth: "set (remove_nth i xs) \<subseteq> set xs"
  by (auto simp: remove_nth_def dest: in_set_takeD in_set_dropD)

lemma distinct_remove_nth: "distinct xs \<Longrightarrow> distinct (remove_nth i xs)"
  by (auto simp: remove_nth_def dest: set_take_disj_set_drop_if_distinct [of xs i "Suc i"])

end
