(* ===== verification/GoText.thy ===== *)
theory GoText
  imports Prelude "HOL-Library.Char_ord" "HOL-Library.List_Lexorder"
begin

text \<open>
  Go strings are byte sequences, here \<open>string\<close> (one \<open>char\<close> per byte). This theory models the
  part of \<open>unicode/utf8\<close>, \<open>unicode/utf16\<close> and \<open>strings\<close> the program uses: decoding a
  string into runes as \<open>for range\<close> does (an undecodable byte is the replacement rune, one byte
  wide), validity, the UTF-16 length that bounds user text (\<open>utf16Length\<close> in
  \<open>internal/controller/session_state.go\<close>), \<open>TrimSpace\<close>, \<open>Fields\<close>, and the NUL test
  \<open>containsNUL\<close> of \<open>internal/controller/types.go\<close>.
\<close>

section \<open>UTF-8 decoding\<close>

definition rune_error :: nat where "rune_error = 0xFFFD"

definition cont_byte :: "nat \<Rightarrow> bool" where
  "cont_byte b \<longleftrightarrow> 0x80 \<le> b \<and> b \<le> 0xBF"

text \<open>The admitted range of the second byte, by the first (overlong and surrogate forms excluded).\<close>

definition second_ok :: "nat \<Rightarrow> nat \<Rightarrow> bool" where
  "second_ok b0 b1 \<longleftrightarrow>
     (if b0 = 0xE0 then 0xA0 \<le> b1 \<and> b1 \<le> 0xBF
      else if b0 = 0xED then 0x80 \<le> b1 \<and> b1 \<le> 0x9F
      else if b0 = 0xF0 then 0x90 \<le> b1 \<and> b1 \<le> 0xBF
      else if b0 = 0xF4 then 0x80 \<le> b1 \<and> b1 \<le> 0x8F
      else cont_byte b1)"

fun decode_rune :: "nat list \<Rightarrow> nat \<times> nat" where
  "decode_rune [] = (rune_error, 0)"
| "decode_rune (b0 # r) =
     (if b0 < 0x80 then (b0, 1)
      else if 0xC2 \<le> b0 \<and> b0 \<le> 0xDF then
        (case r of
           b1 # _ \<Rightarrow> if second_ok b0 b1 then ((b0 - 0xC0) * 64 + (b1 - 0x80), 2) else (rune_error, 1)
         | [] \<Rightarrow> (rune_error, 1))
      else if 0xE0 \<le> b0 \<and> b0 \<le> 0xEF then
        (case r of
           b1 # b2 # _ \<Rightarrow>
             if second_ok b0 b1 \<and> cont_byte b2
             then ((b0 - 0xE0) * 4096 + (b1 - 0x80) * 64 + (b2 - 0x80), 3) else (rune_error, 1)
         | _ \<Rightarrow> (rune_error, 1))
      else if 0xF0 \<le> b0 \<and> b0 \<le> 0xF4 then
        (case r of
           b1 # b2 # b3 # _ \<Rightarrow>
             if second_ok b0 b1 \<and> cont_byte b2 \<and> cont_byte b3
             then ((b0 - 0xF0) * 262144 + (b1 - 0x80) * 4096 + (b2 - 0x80) * 64 + (b3 - 0x80), 4)
             else (rune_error, 1)
         | _ \<Rightarrow> (rune_error, 1))
      else (rune_error, 1))"

lemma decode_rune_size: "bs \<noteq> [] \<Longrightarrow> 1 \<le> snd (decode_rune bs) \<and> snd (decode_rune bs) \<le> length bs"
  by (cases bs) (auto split: list.splits)

lemma decode_rune_ascii: "b < 0x80 \<Longrightarrow> decode_rune (b # r) = (b, 1)"
  by simp

lemma decode_rune_zero:
  "bs \<noteq> [] \<Longrightarrow> fst (decode_rune bs) = 0 \<longleftrightarrow> hd bs = 0"
  by (cases bs) (auto simp: rune_error_def second_ok_def cont_byte_def split: list.splits if_splits)

definition bytes_of :: "string \<Rightarrow> nat list" where
  "bytes_of s = map of_char s"

text \<open>The runes of a string with the bytes each was decoded from.\<close>

function runes :: "string \<Rightarrow> (nat \<times> string) list" where
  "runes s = (if s = [] then []
     else (let (r, n) = decode_rune (bytes_of s) in (r, take n s) # runes (drop n s)))"
  by pat_completeness auto
termination
proof (relation "measure length", simp)
  fix s :: string and p r n
  assume "s \<noteq> []" "p = decode_rune (bytes_of s)" "(r, n) = p"
  then show "(drop n s, s) \<in> measure length"
    using decode_rune_size [of "bytes_of s"] by (auto simp: bytes_of_def dest: sym)
qed

declare runes.simps [simp del]

lemma runes_Nil [simp]: "runes [] = []"
  by (simp add: runes.simps)

lemma runes_Cons:
  "runes (c # s) =
     (let (r, n) = decode_rune (bytes_of (c # s)) in (r, take n (c # s)) # runes (drop n (c # s)))"
  by (subst runes.simps) simp

lemma runes_ascii [simp]:
  "(of_char c :: nat) < 0x80 \<Longrightarrow> runes (c # s) = (of_char c, [c]) # runes s"
  by (simp add: runes_Cons bytes_of_def)

lemma concat_runes: "concat (map snd (runes s)) = s"
proof (induction s rule: runes.induct)
  case (1 s)
  show ?case
  proof (cases "s = []")
    case False
    obtain r n where d: "decode_rune (bytes_of s) = (r, n)" by force
    with "1.IH" [OF False] have "concat (map snd (runes (drop n s))) = drop n s" by simp
    with False d show ?thesis by (subst runes.simps) simp
  qed simp
qed

definition valid_utf8 :: "string \<Rightarrow> bool" where
  "valid_utf8 s \<longleftrightarrow> (\<forall>(r, b) \<in> set (runes s). \<not> (r = rune_error \<and> length b = 1))"

definition ascii :: "string \<Rightarrow> bool" where
  "ascii s \<longleftrightarrow> (\<forall>c \<in> set s. (of_char c :: nat) < 0x80)"

lemma runes_of_ascii: "ascii s \<Longrightarrow> runes s = map (\<lambda>c. (of_char c, [c])) s"
  by (induction s) (auto simp: ascii_def)

lemma ascii_valid_utf8: "ascii s \<Longrightarrow> valid_utf8 s"
  by (auto simp: valid_utf8_def runes_of_ascii ascii_def rune_error_def)

section \<open>NUL, UTF-16 length\<close>

definition containsNUL :: "string \<Rightarrow> bool" where
  "containsNUL value = list_ex (\<lambda>(r, b). r = 0) (runes value)"

lemma of_char_0_iff [simp]: "(of_char c :: nat) = 0 \<longleftrightarrow> c = CHR 0x00"
proof -
  have "(of_char c :: nat) = of_char (CHR 0x00) \<longleftrightarrow> c = CHR 0x00"
    by (rule of_char_eq_iff)
  then show ?thesis by simp
qed

lemma second_ok_ge: "second_ok b0 b1 \<Longrightarrow> 0x80 \<le> b1"
  by (simp add: second_ok_def cont_byte_def split: if_splits)

lemma cont_byte_ge: "cont_byte b \<Longrightarrow> 0x80 \<le> b"
  by (simp add: cont_byte_def)

lemma decode_shapes:
  assumes "decode_rune (b0 # r) = (x, n)"
  shows "n = 1
    \<or> (\<exists>b1 t. n = 2 \<and> r = b1 # t \<and> 0x80 \<le> b1)
    \<or> (\<exists>b1 b2 t. n = 3 \<and> r = b1 # b2 # t \<and> 0x80 \<le> b1 \<and> 0x80 \<le> b2)
    \<or> (\<exists>b1 b2 b3 t. n = 4 \<and> r = b1 # b2 # b3 # t \<and> 0x80 \<le> b1 \<and> 0x80 \<le> b2 \<and> 0x80 \<le> b3)"
  using assms
  by (simp split: list.splits if_splits) (auto dest: second_ok_ge cont_byte_ge)

lemma decode_tail_nonzero:
  assumes "decode_rune bs = (r, n)" "0 < i" "i < n"
  shows "bs ! i \<noteq> 0"
proof (cases bs)
  case Nil
  with assms show ?thesis by simp
next
  case (Cons b0 t)
  from assms(2,3) have "n = 2 \<Longrightarrow> i = 1" "n = 3 \<Longrightarrow> i = 1 \<or> i = 2" "n = 4 \<Longrightarrow> i = 1 \<or> i = 2 \<or> i = 3"
    by linarith+
  with decode_shapes [of b0 t r n] assms Cons show ?thesis by (auto simp: numeral_eq_Suc)
qed

lemma decode_NUL_bytes:
  assumes "s \<noteq> []" "decode_rune (bytes_of s) = (r, n)"
  shows "r = 0 \<longleftrightarrow> CHR 0x00 \<in> set (take n s)"
proof -
  from assms(1) have ne: "bytes_of s \<noteq> []" by (simp add: bytes_of_def)
  from decode_rune_size [OF ne] assms(2) have n: "1 \<le> n" "n \<le> length s"
    by (simp_all add: bytes_of_def)
  have "CHR 0x00 \<in> set (take n s) \<longleftrightarrow> (\<exists>i<n. s ! i = CHR 0x00)"
    using n by (auto simp: in_set_conv_nth)
  also have "\<dots> \<longleftrightarrow> (\<exists>i<n. bytes_of s ! i = 0)"
    using n by (auto simp: bytes_of_def)
  also have "\<dots> \<longleftrightarrow> bytes_of s ! 0 = 0"
    using decode_tail_nonzero [OF assms(2)] n by (metis gr0I less_le_trans zero_less_one)
  also have "\<dots> \<longleftrightarrow> r = 0"
    using decode_rune_zero [OF ne] assms(2) ne by (simp add: hd_conv_nth)
  finally show ?thesis by simp
qed

lemma containsNUL_iff: "containsNUL s \<longleftrightarrow> CHR 0x00 \<in> set s"
proof (induction s rule: runes.induct)
  case (1 s)
  show ?case
  proof (cases "s = []")
    case False
    obtain r n where d: "decode_rune (bytes_of s) = (r, n)" by force
    have "runes s = (r, take n s) # runes (drop n s)"
      using False d by (subst runes.simps) simp
    then have "containsNUL s \<longleftrightarrow> r = 0 \<or> containsNUL (drop n s)"
      by (simp add: containsNUL_def)
    also have "\<dots> \<longleftrightarrow> CHR 0x00 \<in> set (take n s) \<union> set (drop n s)"
      using decode_NUL_bytes [OF False d] "1.IH" [OF False] d by simp
    also have "set (take n s) \<union> set (drop n s) = set s"
      by (metis append_take_drop_id set_append)
    finally show ?thesis .
  qed (simp add: containsNUL_def)
qed

text \<open>An ASCII byte of a string is a rune of its own.\<close>

lemma decode_high_bytes:
  assumes "decode_rune bs = (r, n)" "i < n" "bs \<noteq> []" "bs ! i < 0x80"
  shows "n = 1 \<and> i = 0 \<and> r = bs ! 0"
proof -
  obtain b0 t where bs: "bs = b0 # t" using assms(3) by (cases bs) auto
  show ?thesis
  proof (cases "b0 < 0x80")
    case True
    with assms bs show ?thesis by auto
  next
    case False
    have "decode_rune (b0 # t) = (r, n)" using assms(1) bs by simp
    from decode_shapes [OF this] have "\<forall>x \<in> set (take n bs). 128 \<le> x"
      using bs False by (elim disjE exE conjE) auto
    moreover have "bs ! i \<in> set (take n bs)"
      using assms(2) decode_rune_size [OF assms(3)] assms(1) by (auto simp: in_set_conv_nth)
    ultimately show ?thesis using assms(4) by force
  qed
qed

lemma ascii_byte_rune:
  "c \<in> set s \<Longrightarrow> (of_char c :: nat) < 0x80 \<Longrightarrow> of_char c \<in> fst ` set (runes s)"
proof (induction s rule: runes.induct)
  case (1 s)
  then have ne: "s \<noteq> []" by auto
  obtain r n where d: "decode_rune (bytes_of s) = (r, n)" by force
  have rs: "runes s = (r, take n s) # runes (drop n s)"
    using ne d by (subst runes.simps) simp
  have "c \<in> set (take n s) \<or> c \<in> set (drop n s)"
    using "1.prems"(1) by (metis Un_iff append_take_drop_id set_append)
  then show ?case
  proof
    assume "c \<in> set (take n s)"
    then obtain i where i: "i < length s" "i < n" "s ! i = c" by (auto simp: in_set_conv_nth)
    then have "bytes_of s ! i = of_char c" by (simp add: bytes_of_def)
    with decode_high_bytes [OF d i(2)] "1.prems"(2) ne i show ?thesis
      by (simp add: rs bytes_of_def)
  next
    assume "c \<in> set (drop n s)"
    with "1.IH" [OF ne d [symmetric]] "1.prems"(2) show ?thesis by (simp add: rs)
  qed
qed

lemma decode_ascii_rune:
  "decode_rune (b # t) = (r, n) \<Longrightarrow> r < 0x80 \<Longrightarrow> b = r \<and> n = 1"
  by (auto simp: rune_error_def second_ok_def cont_byte_def split: if_splits list.splits)

lemma runes_all_ascii:
  "list_all (\<lambda>r. r < 0x80) (map fst (runes s)) \<Longrightarrow> map fst (runes s) = map of_char s"
proof (induction s rule: runes.induct)
  case (1 s)
  show ?case
  proof (cases s)
    case (Cons c t)
    obtain r n where d: "decode_rune (bytes_of s) = (r, n)" by force
    have rs: "runes s = (r, take n s) # runes (drop n s)"
      using Cons d by (subst runes.simps) simp
    with "1.prems" have "r < 0x80" by simp
    with decode_ascii_rune [of "of_char c" "bytes_of t" r n] d Cons
    have "of_char c = r" "n = 1" by (simp_all add: bytes_of_def)
    with "1.IH" [OF _ d [symmetric]] "1.prems" Cons rs show ?thesis by simp
  qed simp
qed

lemma runes_hd: "s \<noteq> [] \<Longrightarrow> (of_char (hd s) :: nat) < 0x80 \<Longrightarrow> fst (hd (runes s)) = of_char (hd s)"
  by (cases s) simp_all

definition utf16Length :: "string \<Rightarrow> nat" where
  "utf16Length value = (\<Sum>(r, b)\<leftarrow>runes value. if r > 0xFFFF then 2 else 1)"

lemma utf16Length_ascii: "ascii s \<Longrightarrow> utf16Length s = length s"
proof -
  assume a: "ascii s"
  have "(\<Sum>c\<leftarrow>s. if (of_char c :: nat) > 0xFFFF then 2 else 1) = length s"
    using a by (induction s) (auto simp: ascii_def)
  then show ?thesis using a by (simp add: utf16Length_def runes_of_ascii o_def)
qed

section \<open>White space, trimming, fields\<close>

definition is_space :: "nat \<Rightarrow> bool" where
  "is_space r \<longleftrightarrow>
     r \<in> {0x09, 0x0A, 0x0B, 0x0C, 0x0D, 0x20, 0x85, 0xA0, 0x1680, 0x2028, 0x2029, 0x202F, 0x205F, 0x3000}
     \<or> 0x2000 \<le> r \<and> r \<le> 0x200A"

definition space_seg :: "nat \<times> string \<Rightarrow> bool" where
  "space_seg p \<longleftrightarrow> is_space (fst p)"

text \<open>
  \<open>strings.TrimSpace\<close>: white-space runes are removed at both ends. UTF-8 is
  self-synchronising, so the last rune read backwards is the last one read forwards.
\<close>

definition TrimSpace :: "string \<Rightarrow> string" where
  "TrimSpace s =
     concat (map snd (rev (dropWhile space_seg (rev (dropWhile space_seg (runes s))))))"

lemma TrimSpace_Nil [simp]: "TrimSpace [] = []"
  by (simp add: TrimSpace_def)

lemma set_TrimSpace: "set (TrimSpace s) \<subseteq> set s"
proof -
  have "set (TrimSpace s) \<subseteq> set (concat (map snd (runes s)))"
    by (force simp: TrimSpace_def dest: set_dropWhileD)
  then show ?thesis by (simp add: concat_runes)
qed

lemma containsNUL_TrimSpace: "containsNUL (TrimSpace s) \<Longrightarrow> containsNUL s"
  using set_TrimSpace by (auto simp: containsNUL_iff)

text \<open>Trimming is idempotent: the runes of a trimmed string are the runes kept.\<close>

lemma decode_rune_take: "decode_rune bs = (r, n) \<Longrightarrow> n \<le> k \<Longrightarrow> 0 < k \<Longrightarrow> decode_rune (take k bs) = (r, n)"
  by (cases bs) (auto simp: take_Cons' split: list.splits if_splits)

lemma runes_split:
  assumes "s \<noteq> []"
  obtains r n where "decode_rune (bytes_of s) = (r, n)" "0 < n" "n \<le> length s"
    "runes s = (r, take n s) # runes (drop n s)"
proof -
  obtain r n where d: "decode_rune (bytes_of s) = (r, n)" by force
  have "bytes_of s \<noteq> []" using assms by (simp add: bytes_of_def)
  from decode_rune_size [OF this] d have "0 < n" "n \<le> length s" by (simp_all add: bytes_of_def)
  moreover have "runes s = (r, take n s) # runes (drop n s)" using assms d by (subst runes.simps) simp
  ultimately show thesis using that d by blast
qed

lemma runes_suffix: "runes s = xs @ ys \<Longrightarrow> runes (concat (map snd ys)) = ys"
proof (induction xs arbitrary: s)
  case Nil
  then show ?case using concat_runes [of s] by simp
next
  case (Cons x xs)
  then have "s \<noteq> []" by auto
  then obtain r n where "runes s = (r, take n s) # runes (drop n s)" by (rule runes_split)
  with Cons.prems have "runes (drop n s) = xs @ ys" by simp
  then show ?case by (rule Cons.IH)
qed

lemma runes_prefix: "runes s = xs @ ys \<Longrightarrow> runes (concat (map snd xs)) = xs"
proof (induction xs arbitrary: s)
  case (Cons x xs)
  then have "s \<noteq> []" by auto
  then obtain r n where d: "decode_rune (bytes_of s) = (r, n)" "0 < n" "n \<le> length s"
    "runes s = (r, take n s) # runes (drop n s)" by (rule runes_split)
  with Cons.prems have x: "x = (r, take n s)" "runes (drop n s) = xs @ ys" by simp_all
  from Cons.IH [OF x(2)] have IH: "runes (concat (map snd xs)) = xs" .
  let ?t = "take n s @ concat (map snd xs)"
  have "concat (map snd xs) @ concat (map snd ys) = drop n s"
    using concat_runes [of "drop n s"] x(2) by simp
  then have "?t @ concat (map snd ys) = s" by (metis append.assoc append_take_drop_id)
  then have "?t = take (length ?t) s" by (metis append_eq_conv_conj)
  then have "bytes_of ?t = take (length ?t) (bytes_of s)" by (metis bytes_of_def take_map)
  with decode_rune_take [OF d(1), of "length ?t"] d(2,3) have dt: "decode_rune (bytes_of ?t) = (r, n)" by simp
  have "?t \<noteq> []" using d(2) \<open>s \<noteq> []\<close> by simp
  then have "runes ?t = (r, take n ?t) # runes (drop n ?t)" using dt by (subst runes.simps) simp
  with IH d(3) x(1) show ?case by simp
qed simp

lemma dropWhile_suffix: "xs = takeWhile P xs @ dropWhile P xs"
  by simp

lemma runes_TrimSpace:
  "runes (TrimSpace s) = rev (dropWhile space_seg (rev (dropWhile space_seg (runes s))))"
proof -
  let ?d = "dropWhile space_seg (runes s)"
  have "runes (concat (map snd ?d)) = ?d"
    using runes_suffix [of s "takeWhile space_seg (runes s)" ?d] by simp
  moreover have "?d = rev (dropWhile space_seg (rev ?d)) @ rev (takeWhile space_seg (rev ?d))"
    by (metis dropWhile_suffix rev_append rev_rev_ident)
  ultimately show ?thesis unfolding TrimSpace_def by (metis runes_prefix)
qed

lemma dropWhile_dropWhile [simp]: "dropWhile P (dropWhile P xs) = dropWhile P xs"
  by (induction xs) auto

lemma dropWhile_idem: "dropWhile P (rev (dropWhile P (rev (dropWhile P xs)))) = rev (dropWhile P (rev (dropWhile P xs)))"
proof (cases "rev (dropWhile P (rev (dropWhile P xs)))")
  case Nil
  show ?thesis unfolding Nil by simp
next
  case (Cons y ys)
  have "dropWhile P xs = (y # ys) @ rev (takeWhile P (rev (dropWhile P xs)))"
    unfolding Cons [symmetric] by (metis dropWhile_suffix rev_append rev_rev_ident)
  then have "dropWhile P xs \<noteq> []" "hd (dropWhile P xs) = y" by (metis append_Cons list.discI, metis append_Cons list.sel(1))
  then have "\<not> P y" using hd_dropWhile by metis
  then show ?thesis unfolding Cons by simp
qed

lemma TrimSpace_idem [simp]: "TrimSpace (TrimSpace s) = TrimSpace s"
  by (simp add: TrimSpace_def [of "TrimSpace s"] runes_TrimSpace dropWhile_idem) (simp add: TrimSpace_def)

text \<open>\<open>strings.Fields\<close>: the maximal runs of runes that are not white space.\<close>

function (sequential) split_fields :: "(nat \<times> string) list \<Rightarrow> string list" where
  "split_fields [] = []"
| "split_fields (p # ps) =
     (if space_seg p then split_fields ps
      else concat (map snd (p # takeWhile (\<lambda>q. \<not> space_seg q) ps))
           # split_fields (dropWhile (\<lambda>q. \<not> space_seg q) ps))"
  by pat_completeness auto
termination
  by (relation "measure length") (auto simp: le_imp_less_Suc length_dropWhile_le)

definition Fields :: "string \<Rightarrow> string list" where
  "Fields s = split_fields (runes s)"

section \<open>Prefixes, suffixes, splitting, ASCII classes\<close>

definition HasPrefix :: "string \<Rightarrow> string \<Rightarrow> bool" where
  "HasPrefix s p \<longleftrightarrow> take (length p) s = p"

lemma HasPrefix_append [simp]: "HasPrefix (p @ s) p"
  by (simp add: HasPrefix_def)

lemma HasPrefix_iff: "HasPrefix s p \<longleftrightarrow> (\<exists>t. s = p @ t)"
  by (metis HasPrefix_def append_eq_conv_conj append_take_drop_id)

definition ContainsAny :: "string \<Rightarrow> char list \<Rightarrow> bool" where
  "ContainsAny s cs \<longleftrightarrow> list_ex (\<lambda>c. c \<in> set cs) s"

fun Split :: "char \<Rightarrow> string \<Rightarrow> string list" where
  "Split sep [] = [[]]"
| "Split sep (c # s) =
     (if c = sep then [] # Split sep s
      else (case Split sep s of [] \<Rightarrow> [[c]] | w # ws \<Rightarrow> (c # w) # ws))"

lemma Split_nonempty [simp]: "Split sep s \<noteq> []"
  by (induction s) (auto split: list.splits)

lemma Split_no_sep: "sep \<notin> set s \<Longrightarrow> Split sep s = [s]"
  by (induction s) auto

lemma Split_append: "sep \<notin> set w \<Longrightarrow> Split sep (w @ sep # s) = w # Split sep s"
  by (induction w) auto

lemma Split_parts_no_sep: "w \<in> set (Split sep s) \<Longrightarrow> sep \<notin> set w"
  by (induction s arbitrary: w) (auto split: list.splits if_splits)

definition is_digit :: "char \<Rightarrow> bool" where
  "is_digit c \<longleftrightarrow> CHR ''0'' \<le> c \<and> c \<le> CHR ''9''"

definition is_lower :: "char \<Rightarrow> bool" where
  "is_lower c \<longleftrightarrow> CHR ''a'' \<le> c \<and> c \<le> CHR ''z''"

definition is_upper :: "char \<Rightarrow> bool" where
  "is_upper c \<longleftrightarrow> CHR ''A'' \<le> c \<and> c \<le> CHR ''Z''"

definition is_alnum :: "char \<Rightarrow> bool" where
  "is_alnum c \<longleftrightarrow> is_digit c \<or> is_lower c \<or> is_upper c"

lemma char_class_codes:
  "is_digit c \<longleftrightarrow> (48 :: nat) \<le> of_char c \<and> of_char c \<le> (57 :: nat)"
  "is_lower c \<longleftrightarrow> (97 :: nat) \<le> of_char c \<and> of_char c \<le> (122 :: nat)"
  "is_upper c \<longleftrightarrow> (65 :: nat) \<le> of_char c \<and> of_char c \<le> (90 :: nat)"
  by (simp_all add: is_digit_def is_lower_def is_upper_def less_eq_char_def)

lemma of_char_lt_256: "(of_char c :: nat) < 256"
proof -
  have "(of_char c :: nat) = of_char c mod 256" by simp
  then show ?thesis by (metis mod_less_divisor zero_less_numeral)
qed

text \<open>The class \<open>[a-f0-9]\<close> of the program's identifier patterns.\<close>

definition is_hex :: "char \<Rightarrow> bool" where
  "is_hex c \<longleftrightarrow> is_digit c \<or> CHR ''a'' \<le> c \<and> c \<le> CHR ''f''"

definition hex_string :: "nat \<Rightarrow> string \<Rightarrow> bool" where
  "hex_string n s \<longleftrightarrow> length s = n \<and> list_all is_hex s"

section \<open>Joining, decimal numbers\<close>

text \<open>\<open>strings.Join\<close>.\<close>

fun join_with :: "string \<Rightarrow> string list \<Rightarrow> string" where
  "join_with sep [] = []"
| "join_with sep [w] = w"
| "join_with sep (w # ws) = w @ sep @ join_with sep ws"

lemma Split_join: "ws \<noteq> [] \<Longrightarrow> \<forall>w \<in> set ws. d \<notin> set w \<Longrightarrow> Split d (join_with [d] ws) = ws"
  by (induction "[d]" ws rule: join_with.induct) (simp_all add: Split_no_sep Split_append)

text \<open>Whole numbers as \<open>%d\<close> prints them.\<close>

fun decimal :: "nat \<Rightarrow> string" where
  "decimal n = (if n < 10 then [char_of (48 + n)] else decimal (n div 10) @ [char_of (48 + n mod 10)])"

declare decimal.simps [simp del]

lemma digit_char: "k < 10 \<Longrightarrow> is_digit (char_of (48 + k))" for k :: nat
  by (simp add: is_digit_def less_eq_char_def)

lemma decimal_digits: "list_all is_digit (decimal n) \<and> decimal n \<noteq> []"
proof (induction n rule: decimal.induct)
  case (1 n)
  then show ?case by (subst (1 2) decimal.simps) (auto simp: digit_char)
qed

lemma decimal_length: "n < 10 ^ k \<Longrightarrow> 0 < k \<Longrightarrow> length (decimal n) \<le> k"
proof (induction n arbitrary: k rule: decimal.induct)
  case (1 n)
  show ?case
  proof (cases "n < 10")
    case False
    obtain j where k: "k = Suc j" using 1 by (cases k) auto
    with False "1.prems" have "n div 10 < 10 ^ j" "0 < j" by (auto simp: less_mult_imp_div_less, cases j, auto)
    from "1.IH" [OF False this] k False show ?thesis by (subst decimal.simps) simp
  qed (use 1 in \<open>simp add: decimal.simps\<close>)
qed

lemma decimal_head: "0 < n \<Longrightarrow> hd (decimal n) \<noteq> CHR ''0''"
proof (induction n rule: decimal.induct)
  case (1 n)
  show ?case
  proof (cases "n < 10")
    case True
    then have "(of_char (char_of (48 + n) :: char) :: nat) = 48 + n" by simp
    moreover have "(of_char (CHR ''0'') :: nat) = 48" by simp
    ultimately have "char_of (48 + n) \<noteq> CHR ''0''" using "1.prems" by (metis add_cancel_right_right less_irrefl)
    then show ?thesis using True by (subst decimal.simps) simp
  next
    case False
    with 1 decimal_digits [of "n div 10"] show ?thesis by (subst decimal.simps) simp
  qed
qed

lemma decimal_value: "foldl (\<lambda>n c. 10 * n + (of_char c - 48)) 0 (decimal n) = n"
proof (induction n rule: decimal.induct)
  case (1 n)
  then show ?case by (subst decimal.simps) auto
qed

lemma decimal_ascii: "ascii (decimal n)"
  using decimal_digits [of n] by (auto simp: ascii_def list_all_iff is_digit_def less_eq_char_def)

end
