(* ===== verification/Identity.thy ===== *)
theory Identity
  imports GoText "HOL-Library.Word"
begin

unbundle bit_operations_syntax

text \<open>
  Identifiers and the validation of names and texts: \<open>internal/identifier/identifier.go\<close> and the
  validators of \<open>internal/controller/session_state.go\<close>, \<open>session_actions.go\<close> (\<open>queuedText\<close>) and
  \<open>internal/browser/panel_leases.go\<close> (\<open>panelSessionPattern\<close>). A validator is the Boolean
  "returns no error"; a normaliser returns the text or \<open>None\<close>. Random bytes are an argument.
\<close>

section \<open>UUIDs\<close>

definition hex_digit :: "nat \<Rightarrow> char" where
  "hex_digit n = (if n < 10 then char_of (48 + n) else char_of (87 + n))"

definition hex_byte :: "8 word \<Rightarrow> string" where
  "hex_byte b = [hex_digit (unat b div 16), hex_digit (unat b mod 16)]"

definition EncodeToString :: "8 word list \<Rightarrow> string" where
  "EncodeToString bs = concat (map hex_byte bs)"

text \<open>\<open>New\<close> on the 16 random bytes it reads (it panics only when the random source is unavailable).\<close>

definition New :: "8 word list \<Rightarrow> string" where
  "New bytes =
     (let value = bytes[6 := (bytes ! 6 AND 0x0f) OR 0x40];
          value = value[8 := (value ! 8 AND 0x3f) OR 0x80];
          hexID = EncodeToString value
      in take 8 hexID @ ''-'' @ take 4 (drop 8 hexID) @ ''-'' @ take 4 (drop 12 hexID) @ ''-''
         @ take 4 (drop 16 hexID) @ ''-'' @ drop 20 hexID)"

lemma hex_digits: "list_all (\<lambda>n. is_hex (hex_digit n)) [0..<16]"
  by code_simp

lemma hex_digit_hex: "n < 16 \<Longrightarrow> is_hex (hex_digit n)"
  using hex_digits by (simp add: list_all_iff del: upt_rec_numeral)

lemma hex_digit_evals:
  "hex_digit 4 = CHR ''4''" "hex_digit 8 = CHR ''8''" "hex_digit 9 = CHR ''9''"
  "hex_digit 10 = CHR ''a''" "hex_digit 11 = CHR ''b''"
  by code_simp+

lemma hex_byte_hex: "list_all is_hex (hex_byte b)" "length (hex_byte b) = 2"
proof -
  have "unat b < 256" using unsigned_less [of b] by simp
  then show "list_all is_hex (hex_byte b)" by (auto simp: hex_byte_def intro!: hex_digit_hex)
qed (simp add: hex_byte_def)

lemma Encode_hex: "hex_string (2 * length bs) (EncodeToString bs)"
  by (induction bs) (auto simp: hex_string_def EncodeToString_def hex_byte_hex)

section \<open>Validators\<close>

definition validateIdentity :: "string \<Rightarrow> bool" where
  "validateIdentity value \<longleftrightarrow>
     \<not> (value = [] \<or> utf16Length value > 256 \<or> ContainsAny value [CHR 0x00, CHR ''/'', CHR 0x5C])"

definition validatePiSessionID :: "string \<Rightarrow> bool" where
  "validatePiSessionID value \<longleftrightarrow> \<not> (value = [] \<or> containsNUL value)"

definition validateDurableSessionTarget :: "string \<Rightarrow> string \<Rightarrow> bool" where
  "validateDurableSessionTarget projectID sessionID \<longleftrightarrow>
     validateIdentity projectID \<and> validatePiSessionID sessionID"

definition normalizeGoal :: "string \<Rightarrow> string option" where
  "normalizeGoal value =
     (let value = TrimSpace value in
      if value = [] \<or> utf16Length value > 2000 \<or> containsNUL value then None else Some value)"

definition queuedText :: "string \<Rightarrow> string option" where
  "queuedText value =
     (let value = TrimSpace value in
      if value = [] \<or> containsNUL value \<or> \<not> valid_utf8 value then None else Some value)"

text \<open>\<open>^b-[a-f0-9]{18}$\<close>\<close>

definition panelSessionPattern :: "string \<Rightarrow> bool" where
  "panelSessionPattern s \<longleftrightarrow> take 2 s = ''b-'' \<and> hex_string 18 (drop 2 s)"

section \<open>Facts\<close>

lemma queuedText_Some:
  "queuedText v = Some t \<Longrightarrow> t = TrimSpace v \<and> t \<noteq> [] \<and> \<not> containsNUL t \<and> valid_utf8 t"
  by (auto simp: queuedText_def Let_def split: if_splits)

lemma validateIdentity_no_NUL: "validateIdentity v \<Longrightarrow> CHR 0x00 \<notin> set v"
  by (auto simp: validateIdentity_def ContainsAny_def list_ex_iff)

lemma validatePiSessionID_no_NUL: "validatePiSessionID v \<Longrightarrow> CHR 0x00 \<notin> set v"
  by (simp add: validatePiSessionID_def containsNUL_iff)

lemma high_nibble: "unat (x :: 8 word) div 16 = unat (drop_bit 4 x)"
  by (simp add: drop_bit_eq_div unat_div_distrib)

lemma high_nibble_version: "unat ((b AND 0x0f) OR 0x40 :: 8 word) div 16 = 4"
proof -
  have "drop_bit 4 ((b AND 0x0f) OR 0x40 :: 8 word) = 4"
    by simp
  then show ?thesis unfolding high_nibble by simp
qed

lemma high_nibble_variant: "unat ((b AND 0x3f) OR 0x80 :: 8 word) div 16 \<in> {8, 9, 10, 11}"
proof -
  have "unat ((b AND 0x3f OR 0x80 :: 8 word) div 16) = unat (drop_bit 4 b AND 3 OR 8)"
    by (simp flip: drop_bit_eq_div [of 4, simplified])
  moreover have "drop_bit 4 b AND 3 \<in> {0, 1, 2, 3 :: 8 word}"
  proof -
    have "drop_bit 4 b AND 3 = take_bit 2 (drop_bit 4 b)" by (simp add: take_bit_eq_mask mask_eq_exp_minus_1)
    moreover have "unat (take_bit 2 (drop_bit 4 b)) < 4"
      by (simp add: take_bit_eq_mod unat_mod_distrib)
    ultimately have "unat (drop_bit 4 b AND 3) \<in> {0, 1, 2, 3}" by auto
    then show ?thesis by (auto simp: unat_arith_simps)
  qed
  ultimately show ?thesis by (auto simp: unat_div_distrib)
qed

lemma length_Encode: "length (EncodeToString bs) = 2 * length bs"
  using Encode_hex [of bs] by (simp add: hex_string_def)

lemma Encode_nth_even:
  "i < length bs \<Longrightarrow> EncodeToString bs ! (2 * i) = hex_digit (unat (bs ! i) div 16)"
proof (induction bs arbitrary: i)
  case (Cons b bs)
  then show ?case by (cases i) (auto simp: EncodeToString_def hex_byte_def)
qed simp

text \<open>The patched bytes: version and variant are set, the others are the random ones.\<close>

definition uuid_bytes :: "8 word list \<Rightarrow> 8 word list" where
  "uuid_bytes bytes = (bytes[6 := (bytes ! 6 AND 0x0f) OR 0x40])
     [8 := (bytes[6 := (bytes ! 6 AND 0x0f) OR 0x40] ! 8 AND 0x3f) OR 0x80]"

lemma split3: "s = take n s @ take m (drop n s) @ drop (n + m) s"
  by (metis add.commute append_take_drop_id drop_drop)

lemma New_groups:
  assumes "length bytes = 16"
  obtains a b c d e where "EncodeToString (uuid_bytes bytes) = a @ b @ c @ d @ e"
    "New bytes = a @ ''-'' @ b @ ''-'' @ c @ ''-'' @ d @ ''-'' @ e"
    "length a = 8" "length b = 4" "length c = 4" "length d = 4" "length e = 12"
proof
  let ?h = "EncodeToString (uuid_bytes bytes)"
  have len: "length ?h = 32" using assms by (simp add: length_Encode uuid_bytes_def)
  show "?h = take 8 ?h @ take 4 (drop 8 ?h) @ take 4 (drop 12 ?h) @ take 4 (drop 16 ?h) @ drop 20 ?h"
    using split3 [of ?h 8 4] split3 [of "drop 12 ?h" 4 4] by simp
  show "New bytes = take 8 ?h @ ''-'' @ take 4 (drop 8 ?h) @ ''-'' @ take 4 (drop 12 ?h) @ ''-''
     @ take 4 (drop 16 ?h) @ ''-'' @ drop 20 ?h"
    by (simp add: New_def Let_def uuid_bytes_def)
qed (use assms in \<open>simp_all add: length_Encode uuid_bytes_def\<close>)

lemma uuid_bytes_6: "length bytes = 16 \<Longrightarrow> uuid_bytes bytes ! 6 = (bytes ! 6 AND 0x0f) OR 0x40"
  by (simp add: uuid_bytes_def)

lemma uuid_bytes_8: "length bytes = 16 \<Longrightarrow> uuid_bytes bytes ! 8 = (bytes ! 8 AND 0x3f) OR 0x80"
  by (simp add: uuid_bytes_def)

lemma hyphen_not_hex: "is_hex c \<Longrightarrow> c \<noteq> CHR ''-''"
  by (auto simp: is_hex_def is_digit_def less_eq_char_def)

lemma hex_no_hyphen: "list_all is_hex s \<Longrightarrow> filter (\<lambda>c. c \<noteq> CHR ''-'') s = s"
  by (induction s) (auto dest: hyphen_not_hex)

lemma New_without_hyphens:
  assumes "length bytes = 16"
  shows "filter (\<lambda>c. c \<noteq> CHR ''-'') (New bytes) = EncodeToString (uuid_bytes bytes)"
proof -
  obtain a b c d e where e: "EncodeToString (uuid_bytes bytes) = a @ b @ c @ d @ e"
    "New bytes = a @ ''-'' @ b @ ''-'' @ c @ ''-'' @ d @ ''-'' @ e"
    using New_groups [OF assms] by metis
  have "list_all is_hex (a @ b @ c @ d @ e)"
    using Encode_hex [of "uuid_bytes bytes"] by (simp add: hex_string_def e(1))
  then show ?thesis by (simp add: e hex_no_hyphen)
qed

text \<open>An identifier is a UUID of version 4: 36 characters, hyphens at 8, 13, 18 and 23, the version
  digit 4, a variant digit of 8, 9, a or b, and hexadecimal digits elsewhere, whatever the random bytes.\<close>

theorem New_is_uuid4:
  assumes "length bytes = 16"
  shows "length (New bytes) = 36 \<and> (\<forall>i \<in> {8, 13, 18, 23}. New bytes ! i = CHR ''-'')
    \<and> New bytes ! 14 = CHR ''4'' \<and> New bytes ! 19 \<in> {CHR ''8'', CHR ''9'', CHR ''a'', CHR ''b''}
    \<and> (\<forall>i < 36. i \<notin> {8, 13, 18, 23} \<longrightarrow> is_hex (New bytes ! i))"
proof -
  obtain a b c d e where e: "EncodeToString (uuid_bytes bytes) = a @ b @ c @ d @ e"
    "New bytes = a @ ''-'' @ b @ ''-'' @ c @ ''-'' @ d @ ''-'' @ e"
    "length a = 8" "length b = 4" "length c = 4" "length d = 4" "length e = 12"
    using New_groups [OF assms] by metis
  have hex: "list_all is_hex (a @ b @ c @ d @ e)"
    using Encode_hex [of "uuid_bytes bytes"] by (simp add: hex_string_def e(1))
  have "c ! 0 = EncodeToString (uuid_bytes bytes) ! (2 * 6)"
    unfolding e(1) using e(3-7) by (simp add: nth_append)
  also have "\<dots> = hex_digit 4"
    using assms by (subst Encode_nth_even)
      (simp_all add: uuid_bytes_6 high_nibble_version, simp add: uuid_bytes_def)
  finally have c0: "c ! 0 = CHR ''4''" by (simp add: hex_digit_evals)
  have "d ! 0 = EncodeToString (uuid_bytes bytes) ! (2 * 8)"
    unfolding e(1) using e(3-7) by (simp add: nth_append)
  also have "\<dots> = hex_digit (unat (uuid_bytes bytes ! 8) div 16)"
    using assms by (subst Encode_nth_even) (simp_all add: uuid_bytes_def)
  also have "\<dots> \<in> hex_digit ` {8, 9, 10, 11}"
    unfolding uuid_bytes_8 [OF assms] by (rule imageI [OF high_nibble_variant])
  finally have d0: "d ! 0 \<in> {CHR ''8'', CHR ''9'', CHR ''a'', CHR ''b''}"
    by (auto simp: hex_digit_evals)
  have "list_all is_hex a" "list_all is_hex b" "list_all is_hex c" "list_all is_hex d" "list_all is_hex e"
    using hex by simp_all
  then have "is_hex (New bytes ! i)" if "i < 36" "i \<notin> {8, 13, 18, 23}" for i
    using that e(3-7) by (auto simp: e(2) nth_append nth_Cons' list_all_length)
  moreover have "New bytes ! 14 = c ! 0" "New bytes ! 19 = d ! 0" "length (New bytes) = 36"
    "\<forall>i \<in> {8, 13, 18, 23}. New bytes ! i = CHR ''-''"
    using e(3-7) by (auto simp: e(2) nth_append)
  ultimately show ?thesis using c0 d0 by simp
qed

theorem New_is_uuid4_witness: "New (replicate 16 255) ! 14 = CHR ''4'' \<and> length (New (replicate 16 0)) = 36"
  using New_is_uuid4 [of "replicate 16 255"] New_is_uuid4 [of "replicate 16 0"] by simp

end
