(* ===== verification/Persist.thy ===== *)
theory Persist
  imports Prelude
begin

text \<open>
  Durable JSON state, \<open>internal/persist/store.go\<close>. A path is a directory and a base name; the file
  system maps paths to files. Every system call may fail: the coming outcomes are the list
  \<open>faults\<close> of the world (exhausted: all succeed), and every file system a run passes through is
  kept in \<open>trail\<close>, so that a statement about the trail is a statement about a crash at any point.

  \<open>encoding/json\<close> for the stored type is a \<open>codec\<close>: what \<open>MarshalIndent\<close> writes for a value, what
  \<open>Unmarshal\<close> reads from bytes. \<open>exact c v\<close> says that \<open>v\<close> survives the trip; encoding replaces
  invalid UTF-8, so this is not so for every value.
\<close>

section \<open>Files and system calls\<close>

type_synonym path = "string \<times> string"

record fnode =
  content :: string
  fmode :: nat
  regular :: bool

type_synonym filesys = "(path \<times> fnode) list"

record world =
  files :: filesys
  faults :: "bool list"
  trail :: "filesys list"

definition syscall :: "world \<Rightarrow> bool \<times> world" where
  "syscall w = (case faults w of [] \<Rightarrow> (True, w) | b # bs \<Rightarrow> (b, w\<lparr>faults := bs\<rparr>))"

definition set_files :: "filesys \<Rightarrow> world \<Rightarrow> world" where
  "set_files fs w = w\<lparr>files := fs, trail := fs # trail w\<rparr>"

text \<open>A system call that changes the file system when it succeeds.\<close>

definition change :: "(filesys \<Rightarrow> filesys) \<Rightarrow> world \<Rightarrow> bool \<times> world" where
  "change f w = (let (ok, w) = syscall w in if ok then (True, set_files (f (files w)) w) else (False, w))"

definition maxJSONBytes :: nat where "maxJSONBytes = 16 * 1024 * 1024"

definition backup_path :: "path \<Rightarrow> path" where
  "backup_path p = (fst p, snd p @ ''.bak'')"

text \<open>\<open>os.CreateTemp(dir, "." + base + ".*.tmp")\<close> with the random part \<open>r\<close>.\<close>

definition temp_path :: "path \<Rightarrow> string \<Rightarrow> path" where
  "temp_path p r = (fst p, ''.'' @ snd p @ ''.'' @ r @ ''.tmp'')"

section \<open>Reading\<close>

datatype read_result = NotExist | ReadFailed | ReadBytes string nat

text \<open>
  \<open>OpenRegularFile\<close> and \<open>ReadBoundedFile\<close>: stat, open, stat of the descriptor, read. Between the
  two stats the file may be replaced; the world changes only in the modelled process, so the second
  check can only repeat the first and the failures of the four calls are the faults.
\<close>

definition ReadBoundedFile :: "path \<Rightarrow> nat \<Rightarrow> world \<Rightarrow> read_result \<times> world" where
  "ReadBoundedFile p limit w =
     (case get (files w) p of
        None \<Rightarrow> (NotExist, w)
      | Some n \<Rightarrow>
          (let (stat_ok, w) = syscall w in
           if \<not> stat_ok then (ReadFailed, w)
           else if \<not> regular n then (ReadFailed, w)
           else if length (content n) > limit then (ReadFailed, w)
           else
             (let (open_ok, w) = syscall w in
              if \<not> open_ok then (ReadFailed, w)
              else
                (let (fstat_ok, w) = syscall w in
                 if \<not> fstat_ok then (ReadFailed, w)
                 else
                   (let (read_ok, w) = syscall w in
                    if \<not> read_ok then (ReadFailed, w)
                    else (ReadBytes (content n) (fmode n), w))))))"

definition ReadFile :: "path \<Rightarrow> world \<Rightarrow> read_result \<times> world" where
  "ReadFile p w = ReadBoundedFile p maxJSONBytes w"

record 'a codec =
  marshal :: "'a \<Rightarrow> string option"
  unmarshal :: "string \<Rightarrow> 'a option"

definition newline :: char where "newline = CHR 0x0A"

definition exact :: "'a codec \<Rightarrow> 'a \<Rightarrow> bool" where
  "exact c v \<longleftrightarrow> (case marshal c v of None \<Rightarrow> True | Some s \<Rightarrow> unmarshal c (s @ [newline]) = Some v)"

definition Decode :: "'a codec \<Rightarrow> ('a \<Rightarrow> bool) \<Rightarrow> string \<Rightarrow> 'a option" where
  "Decode c validate raw =
     (case unmarshal c raw of None \<Rightarrow> None | Some v \<Rightarrow> if validate v then Some v else None)"

text \<open>
  \<open>Read\<close>: the primary, then the backup. The value read; whether an error is reported; a missing
  file is no error.
\<close>

datatype 'a loaded = Loaded 'a | Absent | Unreadable

definition Read :: "'a codec \<Rightarrow> ('a \<Rightarrow> bool) \<Rightarrow> path \<Rightarrow> world \<Rightarrow> 'a loaded \<times> world" where
  "Read c validate p w =
     (let (r1, w) = ReadFile p w;
          d1 = (case r1 of ReadBytes raw m \<Rightarrow> Decode c validate raw | _ \<Rightarrow> None)
      in case d1 of
           Some v \<Rightarrow> (Loaded v, w)
         | None \<Rightarrow>
             (let (r2, w) = ReadFile (backup_path p) w;
                  d2 = (case r2 of ReadBytes raw m \<Rightarrow> Decode c validate raw | _ \<Rightarrow> None)
              in case d2 of
                   Some v \<Rightarrow> (Loaded v, w)
                 | None \<Rightarrow> (if r1 = NotExist \<and> r2 = NotExist then Absent else Unreadable, w)))"

section \<open>Writing\<close>

text \<open>\<open>AtomicReplace\<close>: a new (mode 0600, which is 384) temporary file, filled and synced, then renamed over the target; the
  deferred \<open>os.Remove\<close> clears the temporary on every path (its failure is ignored).\<close>

definition remove_temp :: "path \<Rightarrow> world \<Rightarrow> world" where
  "remove_temp t w = (case get (files w) t of None \<Rightarrow> w | Some n \<Rightarrow> snd (change (del t) w))"

definition AtomicReplace :: "path \<Rightarrow> string \<Rightarrow> nat \<Rightarrow> string \<Rightarrow> world \<Rightarrow> bool \<times> world" where
  "AtomicReplace target data mode r w =
     (let t = temp_path target r;
          (created, w) = change (put t \<lparr>content = [], fmode = 384, regular = True\<rparr>) w
      in if \<not> created then (False, w)
         else
           (let (moded, w) = change (put t \<lparr>content = [], fmode = mode, regular = True\<rparr>) w in
            if \<not> moded then (False, remove_temp t w)
            else
              (let (written, w) = change (put t \<lparr>content = data, fmode = mode, regular = True\<rparr>) w in
               if \<not> written then (False, remove_temp t w)
               else
                 (let (synced, w) = syscall w in
                  if \<not> synced then (False, remove_temp t w)
                  else
                    (let (closed, w) = syscall w in
                     if \<not> closed then (False, remove_temp t w)
                     else
                       (let (renamed, w) =
                          change (\<lambda>fs. put target \<lparr>content = data, fmode = mode, regular = True\<rparr> (del t fs)) w
                        in (renamed, remove_temp t w)))))))"

text \<open>
  \<open>Write\<close>; \<open>r1\<close> and \<open>r2\<close> are the random parts of the two temporary names. \<open>backup_old\<close> is its
  middle part: a readable, valid current file is first copied over the backup, and its mode is kept.
\<close>

definition backup_old ::
  "'a codec \<Rightarrow> ('a \<Rightarrow> bool) \<Rightarrow> path \<Rightarrow> string \<Rightarrow> read_result \<Rightarrow> world \<Rightarrow> bool \<times> nat \<times> world" where
  "backup_old c validate target r1 old w =
     (case old of
        ReadBytes raw m \<Rightarrow>
          if Decode c validate raw \<noteq> None
          then (let (ok, w) = AtomicReplace (backup_path target) raw m r1 w in (ok, m, w))
          else (True, 384, w)
      | _ \<Rightarrow> (True, 384, w))"

definition Write ::
  "'a codec \<Rightarrow> ('a \<Rightarrow> bool) \<Rightarrow> path \<Rightarrow> string \<Rightarrow> string \<Rightarrow> 'a \<Rightarrow> world \<Rightarrow> bool \<times> world" where
  "Write c validate target r1 r2 value w =
     (case marshal c value of
        None \<Rightarrow> (False, w)
      | Some s \<Rightarrow>
          (let serialized = s @ [newline] in
           if length serialized > maxJSONBytes then (False, w)
           else if Decode c validate serialized = None then (False, w)
           else
             (let (made, w) = syscall w in
              if \<not> made then (False, w)
              else
                (let (old, w) = ReadFile target w;
                     (backed, mode, w) = backup_old c validate target r1 old w
                 in if \<not> backed then (False, w)
                    else
                      (let (replaced, w) = AtomicReplace target serialized mode r2 w in
                       if \<not> replaced then (False, w)
                       else
                         (let (opened, w) = syscall w in
                          if \<not> opened then (False, w) else syscall w))))))"

lemmas persist_ops [op_defs] =
  syscall_def set_files_def change_def ReadBoundedFile_def ReadFile_def Decode_def Read_def
  remove_temp_def AtomicReplace_def backup_old_def Write_def

section \<open>Runs and the file systems they pass through\<close>

definition passes :: "(filesys \<Rightarrow> bool) \<Rightarrow> world \<Rightarrow> world \<Rightarrow> bool" where
  "passes P w w' \<longleftrightarrow> (\<exists>T. trail w' = T @ trail w \<and> (\<forall>fs \<in> set T. P fs)) \<and> P (files w')"

lemma passes_refl: "P (files w) \<Longrightarrow> passes P w w"
  by (simp add: passes_def)

lemma passes_trans [trans]: "passes P w w1 \<Longrightarrow> passes P w1 w2 \<Longrightarrow> passes P w w2"
  by (force simp: passes_def)

lemma passes_mono: "passes P w w' \<Longrightarrow> (\<And>fs. P fs \<Longrightarrow> Q fs) \<Longrightarrow> passes Q w w'"
  unfolding passes_def by blast

lemma passes_final: "passes P w w' \<Longrightarrow> P (files w')"
  by (simp add: passes_def)

lemma passes_trail: "passes P w w' \<Longrightarrow> trail w = [] \<Longrightarrow> fs \<in> set (trail w') \<Longrightarrow> P fs"
  by (auto simp: passes_def)

lemma syscall_frame: "syscall w = (ok, w') \<Longrightarrow> files w' = files w \<and> trail w' = trail w"
  by (auto simp: syscall_def split: list.splits)

lemma passes_syscall: "syscall w = (ok, w') \<Longrightarrow> P (files w) \<Longrightarrow> passes P w w'"
  using syscall_frame [of w ok w'] by (simp add: passes_def)

lemma change_cases:
  assumes "change f w = (ok, w')"
  obtains "ok" "files w' = f (files w)" "trail w' = f (files w) # trail w"
  | "\<not> ok" "files w' = files w" "trail w' = trail w"
  using assms syscall_frame [of w] by (auto simp: change_def set_files_def split: prod.splits if_splits)

lemma passes_change:
  assumes "change f w = (ok, w')" "P (files w)" "P (f (files w))"
  shows "passes P w w'"
  using assms(1) by (cases rule: change_cases) (use assms in \<open>auto simp: passes_def\<close>)

lemma syscall_files [simp]: "files (snd (syscall w)) = files w" "trail (snd (syscall w)) = trail w"
  by (simp_all add: syscall_def split: list.splits)

lemma ReadBoundedFile_files:
  "files (snd (ReadBoundedFile p n w)) = files w" "trail (snd (ReadBoundedFile p n w)) = trail w"
  by (simp_all add: ReadBoundedFile_def case_prod_beta Let_def split: option.splits)

lemma ReadFile_frame: "ReadFile p w = (r, w') \<Longrightarrow> files w' = files w \<and> trail w' = trail w"
  using ReadBoundedFile_files [of p maxJSONBytes w] by (simp add: ReadFile_def)

lemma ReadFile_bytes:
  "ReadFile p w = (ReadBytes raw m, w') \<Longrightarrow>
     \<exists>n. get (files w) p = Some n \<and> regular n \<and> content n = raw \<and> fmode n = m \<and> length raw \<le> maxJSONBytes"
  by (simp add: ReadFile_def ReadBoundedFile_def case_prod_beta Let_def split: option.splits if_splits)

section \<open>Atomic replacement\<close>

text \<open>Every file but the temporary one and the target is as in \<open>fs0\<close>, and the target is old or new.\<close>

definition near :: "filesys \<Rightarrow> path \<Rightarrow> fnode \<Rightarrow> path \<Rightarrow> filesys \<Rightarrow> bool" where
  "near fs0 target new t fs \<longleftrightarrow>
     (\<forall>p. p \<noteq> t \<longrightarrow> get fs p = get fs0 p \<or> p = target \<and> get fs p = Some new)"

lemma near_other: "near fs0 target new t fs \<Longrightarrow> p \<noteq> t \<Longrightarrow> p \<noteq> target \<Longrightarrow> get fs p = get fs0 p"
  unfolding near_def by metis

lemma near_target:
  "near fs0 target new t fs \<Longrightarrow> target \<noteq> t \<Longrightarrow> get fs target = get fs0 target \<or> get fs target = Some new"
  unfolding near_def by metis

lemma near_self [simp]: "near fs target new t fs"
  by (simp add: near_def)

lemma near_put_temp [simp]: "near fs0 target new t fs \<Longrightarrow> near fs0 target new t (put t n fs)"
  by (auto simp: near_def)

lemma near_del_temp [simp]: "near fs0 target new t fs \<Longrightarrow> near fs0 target new t (del t fs)"
  by (auto simp: near_def)

lemma near_put_target [simp]: "near fs0 target new t fs \<Longrightarrow> near fs0 target new t (put target new fs)"
  by (auto simp: near_def)

lemma temp_path_neq [simp]: "temp_path p r \<noteq> p" "p \<noteq> temp_path p r"
proof -
  have "length (snd (temp_path p r)) > length (snd p)" by (simp add: temp_path_def)
  then show "temp_path p r \<noteq> p" "p \<noteq> temp_path p r" by auto
qed

lemma backup_path_neq [simp]: "backup_path p \<noteq> p" "p \<noteq> backup_path p"
  by (auto simp: backup_path_def prod_eq_iff)

lemma temp_not_backup: "temp_path p r \<noteq> (d, b @ ''.bak'')"
proof
  assume "temp_path p r = (d, b @ ''.bak'')"
  then have "rev (snd (temp_path p r)) = rev (b @ ''.bak'')" by simp
  then show False by (simp add: temp_path_def)
qed

lemma temp_neq_backup [simp]: "temp_path p r \<noteq> backup_path q" "backup_path q \<noteq> temp_path p r"
  using temp_not_backup [of p r] by (metis backup_path_def)+

lemma remove_temp_passes:
  "near fs0 target new t (files w) \<Longrightarrow> passes (near fs0 target new t) w (remove_temp t w)"
  by (cases "change (del t) w")
     (auto simp: remove_temp_def passes_refl split: option.splits intro: passes_change)

lemma remove_temp_other: "p \<noteq> t \<Longrightarrow> get (files (remove_temp t w)) p = get (files w) p"
  by (cases "change (del t) w")
     (auto simp: remove_temp_def split: option.splits elim!: change_cases)

lemma AtomicReplace_spec:
  assumes "AtomicReplace target data mode r w = (ok, w')"
  shows "passes (near (files w) target \<lparr>content = data, fmode = mode, regular = True\<rparr> (temp_path target r)) w w'
    \<and> get (files w') target =
        (if ok then Some \<lparr>content = data, fmode = mode, regular = True\<rparr> else get (files w) target)"
proof -
  let ?t = "temp_path target r" and ?new = "\<lparr>content = data, fmode = mode, regular = True\<rparr>"
  let ?P = "near (files w) target ?new ?t"
  let ?fill = "\<lambda>d m. put ?t \<lparr>content = d, fmode = m, regular = True\<rparr>"
  obtain b1 w1 where s1: "change (?fill [] 384) w = (b1, w1)" by force
  obtain b2 w2 where s2: "change (?fill [] mode) w1 = (b2, w2)" by force
  obtain b3 w3 where s3: "change (?fill data mode) w2 = (b3, w3)" by force
  obtain b4 w4 where s4: "syscall w3 = (b4, w4)" by force
  obtain b5 w5 where s5: "syscall w4 = (b5, w5)" by force
  obtain b6 w6 where s6: "change (\<lambda>fs. put target ?new (del ?t fs)) w5 = (b6, w6)" by force
  have p1: "passes ?P w w1" by (rule passes_change [OF s1]) simp_all
  have p2: "passes ?P w w2"
    by (rule passes_trans [OF p1 passes_change [OF s2]]) (simp_all add: passes_final [OF p1])
  have p3: "passes ?P w w3"
    by (rule passes_trans [OF p2 passes_change [OF s3]]) (simp_all add: passes_final [OF p2])
  have p4: "passes ?P w w4"
    by (rule passes_trans [OF p3 passes_syscall [OF s4]]) (rule passes_final [OF p3])
  have p5: "passes ?P w w5"
    by (rule passes_trans [OF p4 passes_syscall [OF s5]]) (rule passes_final [OF p4])
  have p6: "passes ?P w w6"
    by (rule passes_trans [OF p5 passes_change [OF s6]]) (simp_all add: passes_final [OF p5])
  have rem: "passes ?P w (remove_temp ?t v)" if "passes ?P w v" for v
    by (rule passes_trans [OF that remove_temp_passes]) (rule passes_final [OF that])
  have t1: "get (files w1) target = get (files w) target" using s1 by (auto elim!: change_cases)
  have t2: "get (files w2) target = get (files w) target" using s2 t1 by (auto elim!: change_cases)
  have t3: "get (files w3) target = get (files w) target" using s3 t2 by (auto elim!: change_cases)
  have t5: "get (files w5) target = get (files w) target"
    using syscall_frame [OF s4] syscall_frame [OF s5] t3 by simp
  have t6: "get (files w6) target = (if b6 then Some ?new else get (files w) target)"
    using s6 t5 by (auto elim!: change_cases)
  have eq: "AtomicReplace target data mode r w =
      (if \<not> b1 then (False, w1) else if \<not> b2 then (False, remove_temp ?t w2)
       else if \<not> b3 then (False, remove_temp ?t w3) else if \<not> b4 then (False, remove_temp ?t w4)
       else if \<not> b5 then (False, remove_temp ?t w5) else (b6, remove_temp ?t w6))"
    by (simp add: AtomicReplace_def s1 s2 s3 s4 s5 s6)
  show ?thesis
    using assms p1 rem [OF p2] rem [OF p3] rem [OF p4] rem [OF p5] rem [OF p6] t1 t2 t3 t5 t6
      syscall_frame [OF s4]
    unfolding eq by (auto simp: remove_temp_other split: if_splits)
qed

section \<open>What a store holds\<close>

text \<open>An undisturbed read of a path, and of a stored value, in a given file system.\<close>

definition read_now :: "path \<Rightarrow> filesys \<Rightarrow> read_result" where
  "read_now p fs =
     (case get fs p of
        None \<Rightarrow> NotExist
      | Some n \<Rightarrow> if regular n \<and> length (content n) \<le> maxJSONBytes
                  then ReadBytes (content n) (fmode n) else ReadFailed)"

definition decode_read :: "'a codec \<Rightarrow> ('a \<Rightarrow> bool) \<Rightarrow> read_result \<Rightarrow> 'a option" where
  "decode_read c validate r = (case r of ReadBytes raw m \<Rightarrow> Decode c validate raw | _ \<Rightarrow> None)"

definition load_now :: "'a codec \<Rightarrow> ('a \<Rightarrow> bool) \<Rightarrow> path \<Rightarrow> filesys \<Rightarrow> 'a loaded" where
  "load_now c validate p fs =
     (case decode_read c validate (read_now p fs) of
        Some v \<Rightarrow> Loaded v
      | None \<Rightarrow>
          (case decode_read c validate (read_now (backup_path p) fs) of
             Some v \<Rightarrow> Loaded v
           | None \<Rightarrow> if read_now p fs = NotExist \<and> read_now (backup_path p) fs = NotExist
                     then Absent else Unreadable))"

lemma ReadFile_no_faults: "faults w = [] \<Longrightarrow> ReadFile p w = (read_now p (files w), w)"
  by (auto simp: ReadFile_def ReadBoundedFile_def read_now_def syscall_def split: option.splits)

lemma Read_no_faults: "faults w = [] \<Longrightarrow> Read c validate p w = (load_now c validate p (files w), w)"
  by (simp add: Read_def ReadFile_no_faults load_now_def decode_read_def Let_def
      split: option.splits read_result.splits)

lemma ReadFile_now:
  "ReadFile p w = (ReadBytes raw m, w') \<Longrightarrow> read_now p (files w) = ReadBytes raw m"
  by (auto simp: read_now_def dest!: ReadFile_bytes)

lemma read_now_cong: "get fs' p = get fs p \<Longrightarrow> read_now p fs' = read_now p fs"
  by (simp add: read_now_def)

lemma load_now_cong:
  assumes "get fs' p = get fs p" "get fs' (backup_path p) = get fs (backup_path p)"
  shows "load_now c validate p fs' = load_now c validate p fs"
  unfolding load_now_def read_now_cong [OF assms(1)] read_now_cong [OF assms(2)] ..

lemma ReadFile_missing: "ReadFile p w = (NotExist, w') \<Longrightarrow> read_now p (files w) = NotExist"
  by (auto simp: ReadFile_def ReadBoundedFile_def read_now_def Let_def case_prod_beta split: option.splits if_splits)

lemma load_now_primary:
  "decode_read c validate (read_now p fs) = Some v \<Longrightarrow> load_now c validate p fs = Loaded v"
  by (simp add: load_now_def)

lemma load_now_written:
  assumes "get fs p = Some \<lparr>content = raw, fmode = m, regular = True\<rparr>"
    and "length raw \<le> maxJSONBytes" "Decode c validate raw = Some v"
  shows "load_now c validate p fs = Loaded v"
  using assms by (simp add: load_now_def read_now_def decode_read_def)

text \<open>The stages of a successful encoding, and the run of \<open>Write\<close> as a chain.\<close>

lemma Write_run:
  assumes "Write c validate target r1 r2 value w = (ok, w')"
  obtains (refused) "\<not> ok" "files w' = files w" "trail w' = trail w"
  | (backup) s raw m w1 w2 where "marshal c value = Some s" "length (s @ [newline]) \<le> maxJSONBytes"
      "Decode c validate (s @ [newline]) \<noteq> None"
      "files w1 = files w" "trail w1 = trail w" "read_now target (files w) = ReadBytes raw m"
      "Decode c validate raw \<noteq> None" "AtomicReplace (backup_path target) raw m r1 w1 = (False, w2)"
      "\<not> ok" "w' = w2"
  | (replace) s w1 w2 m rep where "marshal c value = Some s" "length (s @ [newline]) \<le> maxJSONBytes"
      "Decode c validate (s @ [newline]) \<noteq> None"
      "files w1 = files w \<and> trail w1 = trail w
        \<or> (\<exists>raw m' w0. files w0 = files w \<and> trail w0 = trail w \<and> read_now target (files w) = ReadBytes raw m'
             \<and> Decode c validate raw \<noteq> None \<and> AtomicReplace (backup_path target) raw m' r1 w0 = (True, w1))"
      "AtomicReplace target (s @ [newline]) m r2 w1 = (rep, w2)"
      "files w' = files w2" "trail w' = trail w2" "ok \<Longrightarrow> rep"
proof (cases "marshal c value")
  case None
  with assms refused show ?thesis by (auto simp: Write_def)
next
  case (Some s)
  show ?thesis
  proof (cases "length (s @ [newline]) > maxJSONBytes \<or> Decode c validate (s @ [newline]) = None")
    case True
    with Some have "Write c validate target r1 r2 value w = (False, w)"
      by (cases "length (s @ [newline]) > maxJSONBytes") (simp_all add: Write_def Let_def)
    with assms refused show ?thesis by simp
  next
    case False
    then obtain v where dv: "Decode c validate (s @ [newline]) = Some v" by auto
    obtain mk wa where sa: "syscall w = (mk, wa)" by force
    obtain old wb where sb: "ReadFile target wa = (old, wb)" by force
    have fb: "files wb = files w" "trail wb = trail w"
      using syscall_frame [OF sa] ReadFile_frame [OF sb] by simp_all
    show ?thesis
    proof (cases mk)
      case mkF: False
      with Some False dv assms sa refused syscall_frame [OF sa] show ?thesis
        by (simp add: Write_def Let_def)
    next
      case mkT: True
      obtain bok m wc where bk: "backup_old c validate target r1 old wb = (bok, m, wc)"
        by (cases "backup_old c validate target r1 old wb")
      obtain rep wd where sd: "AtomicReplace target (s @ [newline]) m r2 wc = (rep, wd)" by force
      obtain op we where se: "syscall wd = (op, we)" by force
      obtain sy wf where sf: "syscall we = (sy, wf)" by force
      have res: "(ok, w') = (if \<not> bok then (False, wc) else if \<not> rep then (False, wd)
          else if \<not> op then (False, we) else (sy, wf))"
        using assms Some False dv sa sb mkT bk se sf sd
        by (cases bok; cases rep; cases op) (simp_all add: Write_def Let_def)
      have stage: "bok \<and> files wc = files w \<and> trail wc = trail w
        \<or> (\<exists>raw. read_now target (files w) = ReadBytes raw m \<and> Decode c validate raw \<noteq> None
             \<and> AtomicReplace (backup_path target) raw m r1 wb = (bok, wc))"
        using bk fb ReadFile_now [of target wa] sb syscall_frame [OF sa]
        by (auto simp: backup_old_def split: read_result.splits if_splits prod.splits)
      show ?thesis
      proof (cases bok)
        case False
        with stage res fb Some \<open>\<not> (length (s @ [newline]) > maxJSONBytes \<or> Decode c validate (s @ [newline]) = None)\<close>
        show ?thesis by (auto intro: backup)
      next
        case True
        have "files w' = files wd" "trail w' = trail wd" "ok \<Longrightarrow> rep"
          using res True syscall_frame [OF se] syscall_frame [OF sf] by (auto split: if_splits)
        moreover have "files wc = files w \<and> trail wc = trail w
          \<or> (\<exists>raw m' w0. files w0 = files w \<and> trail w0 = trail w \<and> read_now target (files w) = ReadBytes raw m'
             \<and> Decode c validate raw \<noteq> None \<and> AtomicReplace (backup_path target) raw m' r1 w0 = (True, wc))"
          using stage True fb by auto
        ultimately show ?thesis
          using replace [OF Some _ _ _ sd] False by fastforce
      qed
    qed
  qed
qed

definition near_write :: "'a codec \<Rightarrow> ('a \<Rightarrow> bool) \<Rightarrow> path \<Rightarrow> filesys \<Rightarrow> fnode \<Rightarrow> filesys \<Rightarrow> bool" where
  "near_write c validate p fs0 new fs \<longleftrightarrow>
     (get fs p = get fs0 p \<or> get fs p = Some new)
     \<and> (get fs (backup_path p) = get fs0 (backup_path p)
        \<or> (\<exists>raw m m'. read_now p fs0 = ReadBytes raw m \<and> Decode c validate raw \<noteq> None
             \<and> get fs (backup_path p) = Some \<lparr>content = raw, fmode = m', regular = True\<rparr>))"

lemma passes_start: "files w1 = files w \<Longrightarrow> trail w1 = trail w \<Longrightarrow> passes P w1 w2 \<Longrightarrow> passes P w w2"
  by (simp add: passes_def)

lemma passes_end: "files w1 = files w \<Longrightarrow> trail w1 = trail w \<Longrightarrow> passes P v w \<Longrightarrow> passes P v w1"
  by (simp add: passes_def)

lemma backup_stage:
  assumes "files w0 = files w" "trail w0 = trail w" "read_now p (files w) = ReadBytes raw m"
    and "Decode c validate raw \<noteq> None" "AtomicReplace (backup_path p) raw m' r w0 = (b, w1)"
  shows "passes (near_write c validate p (files w) new) w w1" "get (files w1) p = get (files w) p"
proof -
  from AtomicReplace_spec [OF assms(5)]
  have ps: "passes (near (files w0) (backup_path p) \<lparr>content = raw, fmode = m', regular = True\<rparr>
      (temp_path (backup_path p) r)) w0 w1" by blast
  have ne: "p \<noteq> temp_path (backup_path p) r"
  proof
    assume "p = temp_path (backup_path p) r"
    then have "length (snd p) = length (snd (temp_path (backup_path p) r))" by simp
    then show False by (simp add: temp_path_def backup_path_def)
  qed
  have imp: "near_write c validate p (files w) new fs \<and> get fs p = get (files w) p"
    if "near (files w0) (backup_path p) \<lparr>content = raw, fmode = m', regular = True\<rparr>
      (temp_path (backup_path p) r) fs" for fs
    using near_other [OF that ne] near_target [OF that] assms(1,3,4)
    by (auto simp: near_write_def)
  show "passes (near_write c validate p (files w) new) w w1"
    by (rule passes_start [OF assms(1,2) passes_mono [OF ps]]) (simp add: imp)
  show "get (files w1) p = get (files w) p" using imp [OF passes_final [OF ps]] by blast
qed

lemma replace_stage:
  assumes "near_write c validate p fs0 new (files w1)" "get (files w1) p = get fs0 p"
    and "AtomicReplace p data m r w1 = (b, w2)" "new = \<lparr>content = data, fmode = m, regular = True\<rparr>"
  shows "passes (near_write c validate p fs0 new) w1 w2" "b \<Longrightarrow> get (files w2) p = Some new"
proof -
  from AtomicReplace_spec [OF assms(3)] assms(4)
  have ps: "passes (near (files w1) p new (temp_path p r)) w1 w2"
    and res: "b \<Longrightarrow> get (files w2) p = Some new" by simp_all
  have "near_write c validate p fs0 new fs" if "near (files w1) p new (temp_path p r) fs" for fs
    using near_other [OF that, of "backup_path p"] near_target [OF that] assms(1,2)
    by (auto simp: near_write_def)
  then show "passes (near_write c validate p fs0 new) w1 w2" by (rule passes_mono [OF ps])
  show "b \<Longrightarrow> get (files w2) p = Some new" by (rule res)
qed

lemma Write_nodes:
  assumes "Write c validate p r1 r2 value w = (ok, w')"
  shows "\<not> ok \<and> files w' = files w \<and> trail w' = trail w
    \<or> (\<exists>s m. marshal c value = Some s \<and> length (s @ [newline]) \<le> maxJSONBytes
         \<and> Decode c validate (s @ [newline]) \<noteq> None
         \<and> passes (near_write c validate p (files w) \<lparr>content = s @ [newline], fmode = m, regular = True\<rparr>) w w'
         \<and> (ok \<longrightarrow> get (files w') p = Some \<lparr>content = s @ [newline], fmode = m, regular = True\<rparr>))"
  using assms
proof (cases rule: Write_run)
  case refused
  then show ?thesis by blast
next
  case (backup s raw m w1 w2)
  from backup_stage(1) [OF backup(4-8)] backup show ?thesis by blast
next
  case (replace s w1 w2 m b)
  let ?new = "\<lparr>content = s @ [newline], fmode = m, regular = True\<rparr>"
  let ?P = "near_write c validate p (files w) ?new"
  have "passes ?P w w1 \<and> get (files w1) p = get (files w) p"
    using replace(4)
  proof
    assume same: "files w1 = files w \<and> trail w1 = trail w"
    then show ?thesis by (simp add: passes_def near_write_def)
  next
    assume "\<exists>raw m' w0. files w0 = files w \<and> trail w0 = trail w \<and> read_now p (files w) = ReadBytes raw m'
      \<and> Decode c validate raw \<noteq> None \<and> AtomicReplace (backup_path p) raw m' r1 w0 = (True, w1)"
    then show ?thesis using backup_stage by metis
  qed
  then have p1: "passes ?P w w1" and t1: "get (files w1) p = get (files w) p" by blast+
  note st = replace_stage [OF passes_final [OF p1] t1 replace(5) refl]
  have "passes ?P w w'" by (rule passes_end [OF replace(6,7) passes_trans [OF p1 st(1)]])
  moreover have "ok \<longrightarrow> get (files w') p = Some ?new" using replace(6,8) st(2) by simp
  ultimately show ?thesis using replace(1-3) by blast
qed

text \<open>Every file system of a write reads as the old value or as the new one.\<close>

lemma near_write_load:
  assumes nw: "near_write c validate p fs0 \<lparr>content = raw', fmode = m, regular = True\<rparr> fs"
    and "length raw' \<le> maxJSONBytes" "Decode c validate raw' = Some v"
  shows "load_now c validate p fs = load_now c validate p fs0 \<or> load_now c validate p fs = Loaded v"
proof (cases "get fs p = Some \<lparr>content = raw', fmode = m, regular = True\<rparr>")
  case True
  from load_now_written [OF this assms(2,3)] show ?thesis ..
next
  case False
  with nw have same: "get fs p = get fs0 p" by (simp add: near_write_def)
  show ?thesis
  proof (cases "decode_read c validate (read_now p fs0)")
    case (Some u)
    with read_now_cong [OF same] show ?thesis by (simp add: load_now_def)
  next
    case None
    with nw have "get fs (backup_path p) = get fs0 (backup_path p)"
      by (auto simp: near_write_def decode_read_def)
    from load_now_cong [OF same this] show ?thesis ..
  qed
qed

section \<open>The contract of a durable store\<close>

text \<open>
  What the components that keep their state in a file rely on: an accepted value is read back after
  a successful save, and at every moment of a save the store reads as before or as the new value.
\<close>

locale durable_store =
  fixes load :: "filesys \<Rightarrow> 'r"
    and save :: "'v \<Rightarrow> world \<Rightarrow> bool \<times> world"
    and stored :: "'v \<Rightarrow> 'r"
    and storable :: "'v \<Rightarrow> bool"
  assumes save_ok: "storable v \<Longrightarrow> save v w = (True, w') \<Longrightarrow> load (files w') = stored v"
    and save_atomic: "storable v \<Longrightarrow> save v w = (ok, w') \<Longrightarrow>
      passes (\<lambda>fs. load fs = load (files w) \<or> load fs = stored v) w w'"
begin

lemma save_final: "storable v \<Longrightarrow> save v w = (ok, w') \<Longrightarrow> load (files w') = load (files w) \<or> load (files w') = stored v"
  by (rule passes_final [OF save_atomic])

lemma save_crash:
  "storable v \<Longrightarrow> save v w = (ok, w') \<Longrightarrow> trail w = [] \<Longrightarrow> fs \<in> set (trail w') \<Longrightarrow>
     load fs = load (files w) \<or> load fs = stored v"
  by (rule passes_trail [OF save_atomic])

lemma save_keeps:
  assumes "storable v" "save v w = (ok, w')" "P (load (files w))" "P (stored v)"
  shows "P (load (files w'))"
  using save_final [OF assms(1,2)] assms(3,4) by auto

text \<open>Saving the same value twice: the deletion of a record from a store that keeps a backup.\<close>

lemma save_again:
  assumes "storable v" "save v w = (True, w1)" "save v w1 = (ok, w2)"
  shows "load (files w2) = stored v"
  using save_ok [OF assms(1,2)] save_final [OF assms(1,3)] by auto

end

lemma durable_store_view:
  assumes "durable_store load save stored storable"
  shows "durable_store (\<lambda>fs. f (load fs)) (\<lambda>v. save (g v)) (\<lambda>v. f (stored (g v))) (\<lambda>v. storable (g v))"
proof -
  from assms have ok: "\<And>v w w'. storable v \<Longrightarrow> save v w = (True, w') \<Longrightarrow> load (files w') = stored v"
    and atomic: "\<And>v w ok w'. storable v \<Longrightarrow> save v w = (ok, w') \<Longrightarrow>
      passes (\<lambda>fs. load fs = load (files w) \<or> load fs = stored v) w w'"
    by (simp_all add: durable_store_def)
  show ?thesis
  proof (rule durable_store.intro)
    fix v w w' assume "storable (g v)" "save (g v) w = (True, w')"
    then show "f (load (files w')) = f (stored (g v))" by (simp add: ok)
  next
    fix v w ok w' assume "storable (g v)" "save (g v) w = (ok, w')"
    from atomic [OF this] show "passes (\<lambda>fs. f (load fs) = f (load (files w)) \<or> f (load fs) = f (stored (g v))) w w'"
      by (rule passes_mono) auto
  qed
qed

definition journal_now :: "'a codec \<Rightarrow> ('a \<Rightarrow> bool) \<Rightarrow> path \<Rightarrow> 'a \<Rightarrow> filesys \<Rightarrow> 'a option" where
  "journal_now c validate p new_journal fs =
     (case read_now p fs of
        NotExist \<Rightarrow> if read_now (backup_path p) fs = NotExist then Some new_journal else None
      | ReadFailed \<Rightarrow> None
      | ReadBytes raw m \<Rightarrow> Decode c validate raw)"

lemma exact_Decode:
  "exact c v \<Longrightarrow> marshal c v = Some s \<Longrightarrow> Decode c validate (s @ [newline]) \<noteq> None \<Longrightarrow>
     Decode c validate (s @ [newline]) = Some v"
  by (simp add: exact_def Decode_def split: if_splits)

lemma near_write_journal:
  assumes nw: "near_write c validate p fs0 \<lparr>content = raw', fmode = m, regular = True\<rparr> fs"
    and "length raw' \<le> maxJSONBytes" "Decode c validate raw' = Some v"
  shows "journal_now c validate p e fs = journal_now c validate p e fs0 \<or> journal_now c validate p e fs = Some v"
proof (cases "get fs p = Some \<lparr>content = raw', fmode = m, regular = True\<rparr>")
  case True
  with assms(2,3) show ?thesis by (simp add: journal_now_def read_now_def)
next
  case False
  with nw have same: "read_now p fs = read_now p fs0" by (simp add: near_write_def read_now_def)
  show ?thesis
  proof (cases "read_now p fs0")
    case NotExist
    with nw have "get fs (backup_path p) = get fs0 (backup_path p)" by (simp add: near_write_def)
    from read_now_cong [OF this] same show ?thesis by (simp add: journal_now_def)
  qed (simp_all add: journal_now_def same)
qed

interpretation guarded: durable_store "load_now c validate p" "\<lambda>v w. Write c validate p r1 r2 v w"
  Loaded "exact c" for c :: "'a codec" and validate p r1 r2
proof unfold_locales
  fix v :: 'a and w w' assume ex: "exact c v" and wr: "Write c validate p r1 r2 v w = (True, w')"
  from Write_nodes [OF wr] obtain s m where "marshal c v = Some s" "length (s @ [newline]) \<le> maxJSONBytes"
    "Decode c validate (s @ [newline]) \<noteq> None"
    "get (files w') p = Some \<lparr>content = s @ [newline], fmode = m, regular = True\<rparr>" by blast
  with exact_Decode [OF ex] show "load_now c validate p (files w') = Loaded v"
    by (intro load_now_written) auto
next
  fix v :: 'a and w ok w' assume ex: "exact c v" and wr: "Write c validate p r1 r2 v w = (ok, w')"
  from Write_nodes [OF wr] show "passes (\<lambda>fs. load_now c validate p fs = load_now c validate p (files w)
      \<or> load_now c validate p fs = Loaded v) w w'"
  proof (elim disjE exE conjE)
    fix s m assume "marshal c v = Some s" "length (s @ [newline]) \<le> maxJSONBytes"
      "Decode c validate (s @ [newline]) \<noteq> None" and
      ps: "passes (near_write c validate p (files w) \<lparr>content = s @ [newline], fmode = m, regular = True\<rparr>) w w'"
    with exact_Decode [OF ex] show ?thesis
      by (intro passes_mono [OF ps] near_write_load) auto
  qed (simp add: passes_def)
qed

interpretation journal: durable_store "journal_now c validate p e" "\<lambda>v w. Write c validate p r1 r2 v w"
  Some "exact c" for c :: "'a codec" and validate p e r1 r2
proof unfold_locales
  fix v :: 'a and w w' assume ex: "exact c v" and wr: "Write c validate p r1 r2 v w = (True, w')"
  from Write_nodes [OF wr] obtain s m where "marshal c v = Some s" "length (s @ [newline]) \<le> maxJSONBytes"
    "Decode c validate (s @ [newline]) \<noteq> None"
    "get (files w') p = Some \<lparr>content = s @ [newline], fmode = m, regular = True\<rparr>" by blast
  with exact_Decode [OF ex] show "journal_now c validate p e (files w') = Some v"
    by (auto simp: journal_now_def read_now_def)
next
  fix v :: 'a and w ok w' assume ex: "exact c v" and wr: "Write c validate p r1 r2 v w = (ok, w')"
  from Write_nodes [OF wr] show "passes (\<lambda>fs. journal_now c validate p e fs = journal_now c validate p e (files w)
      \<or> journal_now c validate p e fs = Some v) w w'"
  proof (elim disjE exE conjE)
    fix s m assume "marshal c v = Some s" "length (s @ [newline]) \<le> maxJSONBytes"
      "Decode c validate (s @ [newline]) \<noteq> None" and
      ps: "passes (near_write c validate p (files w) \<lparr>content = s @ [newline], fmode = m, regular = True\<rparr>) w w'"
    with exact_Decode [OF ex] show ?thesis
      by (intro passes_mono [OF ps] near_write_journal) auto
  qed (simp add: passes_def)
qed

section \<open>An undisturbed write succeeds\<close>

text \<open>
  The load the journals of the controller share: the primary file is the only authority, and a
  backup without a primary is an error. The result is an error (missing or unreadable), the empty
  journal, or the decoded value.
\<close>

datatype 'a journal_read = JournalGone | JournalBad | JournalNew | JournalValue 'a

definition journal_load :: "'a codec \<Rightarrow> ('a \<Rightarrow> bool) \<Rightarrow> path \<Rightarrow> world \<Rightarrow> 'a journal_read \<times> world" where
  "journal_load c validate name w =
     (let (raw, w) = ReadFile name w in
      case raw of
        NotExist \<Rightarrow>
          (let (backup, w) = ReadFile (backup_path name) w in
           (if backup = NotExist then JournalNew else JournalGone, w))
      | ReadFailed \<Rightarrow> (JournalBad, w)
      | ReadBytes bytes m \<Rightarrow>
          (case Decode c validate bytes of None \<Rightarrow> (JournalBad, w) | Some value \<Rightarrow> (JournalValue value, w)))"

lemma journal_load_frame: "journal_load c validate name w = (r, w') \<Longrightarrow> files w' = files w \<and> trail w' = trail w"
  by (auto simp: journal_load_def split: prod.splits read_result.splits option.splits if_splits
      dest!: ReadFile_frame)

lemma journal_load_now:
  assumes "journal_load c validate name w = (r, w')"
  shows "r = JournalNew \<Longrightarrow> journal_now c validate name e (files w) = Some e"
    and "r = JournalValue v \<Longrightarrow> journal_now c validate name e (files w) = Some v"
proof -
  obtain raw w1 where r1: "ReadFile name w = (raw, w1)" by force
  obtain bak w2 where r2: "ReadFile (backup_path name) w1 = (bak, w2)" by force
  note fr = ReadFile_frame [OF r1] ReadFile_frame [OF r2]
  show "journal_now c validate name e (files w) = Some e" if "r = JournalNew"
  proof -
    have "raw = NotExist" "bak = NotExist"
      using assms r1 r2 that by (auto simp: journal_load_def split: read_result.splits option.splits if_splits)
    with r1 r2 ReadFile_missing [of name w w1] ReadFile_missing [of "backup_path name" w1 w2] fr
    show ?thesis by (simp add: journal_now_def)
  qed
  show "journal_now c validate name e (files w) = Some v" if val: "r = JournalValue v"
  proof -
    obtain bytes m where "raw = ReadBytes bytes m" "Decode c validate bytes = Some v"
      using assms r1 r2 val by (auto simp: journal_load_def split: read_result.splits option.splits if_splits)
    with r1 ReadFile_now [of name w bytes m w1] show ?thesis by (simp add: journal_now_def)
  qed
qed

lemma journal_load_calm:
  assumes "faults w = []" "journal_now c validate name e (files w) = Some v"
  shows "\<exists>r. journal_load c validate name w = (r, w) \<and> (r = JournalNew \<and> v = e \<or> r = JournalValue v)"
  using assms(2)
  by (auto simp: journal_load_def ReadFile_no_faults [OF assms(1)] journal_now_def
      split: read_result.splits if_splits)

lemma syscall_calm: "faults w = [] \<Longrightarrow> syscall w = (True, w)"
  by (simp add: syscall_def)

lemma change_calm: "faults w = [] \<Longrightarrow> change f w = (True, set_files (f (files w)) w)"
  by (simp add: change_def syscall_calm)

lemma set_files_simps [simp]:
  "files (set_files fs w) = fs" "faults (set_files fs w) = faults w" "trail (set_files fs w) = fs # trail w"
  by (simp_all add: set_files_def)

lemma faults_remove_temp: "faults w = [] \<Longrightarrow> faults (remove_temp t w) = []"
  by (simp add: remove_temp_def change_calm split: option.splits)

lemma AtomicReplace_calm:
  assumes "faults w = []"
  shows "\<exists>w'. AtomicReplace p d m r w = (True, w') \<and> faults w' = []"
  using assms by (simp add: AtomicReplace_def change_calm syscall_calm faults_remove_temp Let_def)

lemma Write_calm:
  assumes calm: "faults w = []" and enc: "marshal c value = Some s" "length (s @ [newline]) \<le> maxJSONBytes"
    and dec: "Decode c validate (s @ [newline]) \<noteq> None"
  shows "\<exists>w'. Write c validate p r1 r2 value w = (True, w') \<and> faults w' = []
    \<and> (\<forall>raw m. read_now p (files w) = ReadBytes raw m \<longrightarrow> Decode c validate raw \<noteq> None \<longrightarrow>
         read_now (backup_path p) (files w') = ReadBytes raw m)"
proof -
  obtain v where v: "Decode c validate (s @ [newline]) = Some v" using dec by auto
  obtain ok m w1 where bk: "backup_old c validate p r1 (read_now p (files w)) w = (ok, m, w1)"
    by (cases "backup_old c validate p r1 (read_now p (files w)) w")
  have ok: "ok \<and> faults w1 = [] \<and> (\<forall>raw m. read_now p (files w) = ReadBytes raw m \<longrightarrow>
      Decode c validate raw \<noteq> None \<longrightarrow>
      get (files w1) (backup_path p) = Some \<lparr>content = raw, fmode = m, regular = True\<rparr>)"
  proof (cases "\<exists>raw m. read_now p (files w) = ReadBytes raw m \<and> Decode c validate raw \<noteq> None")
    case True
    then obtain raw m' where r: "read_now p (files w) = ReadBytes raw m'" "Decode c validate raw \<noteq> None"
      by blast
    obtain w2 where w2: "AtomicReplace (backup_path p) raw m' r1 w = (True, w2)" "faults w2 = []"
      using AtomicReplace_calm [OF calm] by blast
    from AtomicReplace_spec [OF w2(1)] bk r w2 show ?thesis by (simp add: backup_old_def)
  next
    case False
    with bk calm show ?thesis
      by (auto simp: backup_old_def split: read_result.splits if_splits)
  qed
  obtain w2 where w2: "AtomicReplace p (s @ [newline]) m r2 w1 = (True, w2)" "faults w2 = []"
    using AtomicReplace_calm ok by blast
  have "get (files w2) (backup_path p) = get (files w1) (backup_path p)"
    using AtomicReplace_spec [OF w2(1)] by (auto dest!: passes_final elim!: near_other)
  moreover have "length raw \<le> maxJSONBytes" if "read_now p (files w) = ReadBytes raw m'" for raw m'
    using that by (auto simp: read_now_def split: option.splits if_splits)
  moreover have "Write c validate p r1 r2 value w = (True, w2)"
    using enc v ok bk w2 by (simp add: Write_def syscall_calm [OF calm] syscall_calm ReadFile_no_faults [OF calm])
  ultimately show ?thesis using ok w2(2) by (auto simp: read_now_def)
qed

text \<open>Files of other directories are not touched.\<close>

lemma AtomicReplace_other_dir:
  assumes "AtomicReplace p d m r w = (ok, w')" "fst q \<noteq> fst p"
  shows "get (files w') q = get (files w) q"
proof -
  have "near (files w) p \<lparr>content = d, fmode = m, regular = True\<rparr> (temp_path p r) (files w')"
    using AtomicReplace_spec [OF assms(1)] by (blast dest: passes_final)
  then show ?thesis by (rule near_other) (use assms(2) in \<open>auto simp: temp_path_def\<close>)
qed

lemma Write_other_dir:
  assumes "Write c validate p r1 r2 v w = (ok, w')" "fst q \<noteq> fst p"
  shows "get (files w') q = get (files w) q"
  using assms(1)
proof (cases rule: Write_run)
  case (backup s raw m w1 w2)
  with AtomicReplace_other_dir [of "backup_path p" raw m r1 w1 False w2 q] assms(2) show ?thesis
    by (simp add: backup_path_def)
next
  case (replace s w1 w2 m b)
  have "get (files w1) q = get (files w) q"
    using replace(4) AtomicReplace_other_dir [of "backup_path p" _ _ r1 _ True w1 q] assms(2)
    by (auto simp: backup_path_def)
  with AtomicReplace_other_dir [OF replace(5), of q] replace(6) assms(2) show ?thesis by simp
qed simp

section \<open>Properties\<close>

text \<open>A store of strings with the identity as its encoding, to exhibit the properties.\<close>

definition demo_codec :: "string codec" where
  "demo_codec = \<lparr>marshal = Some, unmarshal = (\<lambda>s. Some (butlast s))\<rparr>"

definition demo_path :: path where "demo_path = (''state'', ''s.json'')"

definition demo_world :: world where
  "demo_world = \<lparr>files = [(demo_path, \<lparr>content = ''old'' @ [newline], fmode = 420, regular = True\<rparr>)],
     faults = [], trail = []\<rparr>"

lemma demo_exact: "exact demo_codec v"
  by (simp add: exact_def demo_codec_def)

text \<open>C7: A crash at any point of \<open>Write\<close>, with any system calls failing, leaves a store that reads
  as the previous value or as the new one: every file system the run passes through does.\<close>

theorem Write_crash_safe:
  assumes "exact c value" "Write c validate p r1 r2 value w = (ok, w')" "trail w = []"
    and "fs \<in> insert (files w') (set (trail w'))"
  shows "load_now c validate p fs = load_now c validate p (files w)
    \<or> load_now c validate p fs = Loaded value"
  using assms(4) guarded.save_crash [OF assms(1-3)] guarded.save_final [OF assms(1,2)] by blast

theorem Write_crash_safe_witness:
  "load_now demo_codec (\<lambda>_. True) demo_path
     ` set (trail (snd (Write demo_codec (\<lambda>_. True) demo_path ''1'' ''2'' ''new'' demo_world)))
   \<subseteq> {Loaded ''old'', Loaded ''new''}"
proof -
  have old: "load_now demo_codec (\<lambda>_. True) demo_path (files demo_world) = Loaded ''old''"
    by (simp add: load_now_def read_now_def decode_read_def Decode_def demo_codec_def demo_world_def maxJSONBytes_def)
  obtain ok w' where w: "Write demo_codec (\<lambda>_. True) demo_path ''1'' ''2'' ''new'' demo_world = (ok, w')" by force
  have "trail demo_world = []" by (simp add: demo_world_def)
  from Write_crash_safe [OF demo_exact w this] old w show ?thesis by auto
qed

text \<open>A write that reports success is read back, and one that no system call disturbs does
  succeed, with the previous valid contents kept as the backup.\<close>

theorem Write_read_back:
  assumes "exact c value" "marshal c value = Some s" "length s < maxJSONBytes" "validate value" "faults w = []"
  shows "\<exists>w'. Write c validate p r1 r2 value w = (True, w')
    \<and> Read c validate p w' = (Loaded value, w')
    \<and> (\<forall>raw m. read_now p (files w) = ReadBytes raw m \<longrightarrow> Decode c validate raw \<noteq> None \<longrightarrow>
         read_now (backup_path p) (files w') = ReadBytes raw m)"
proof -
  from assms(1,2,4) have dec: "Decode c validate (s @ [newline]) \<noteq> None"
    by (simp add: exact_def Decode_def)
  have "length (s @ [newline]) \<le> maxJSONBytes" using assms(3) by simp
  from Write_calm [OF assms(5,2) this dec] obtain w' where
    w': "Write c validate p r1 r2 value w = (True, w')" "faults w' = []"
    "\<forall>raw m. read_now p (files w) = ReadBytes raw m \<longrightarrow> Decode c validate raw \<noteq> None \<longrightarrow>
         read_now (backup_path p) (files w') = ReadBytes raw m" by blast
  with guarded.save_ok [OF assms(1) w'(1)] show ?thesis by (auto simp: Read_no_faults)
qed

theorem Write_read_back_witness:
  "\<exists>w'. Write demo_codec (\<lambda>_. True) demo_path ''1'' ''2'' ''new'' demo_world = (True, w')
     \<and> Read demo_codec (\<lambda>_. True) demo_path w' = (Loaded ''new'', w')
     \<and> read_now (backup_path demo_path) (files w') = ReadBytes (''old'' @ [newline]) 420"
proof -
  have now: "read_now demo_path (files demo_world) = ReadBytes (''old'' @ [newline]) 420"
    by (simp add: read_now_def demo_world_def maxJSONBytes_def)
  have dec: "Decode demo_codec (\<lambda>_. True) (''old'' @ [newline]) \<noteq> None"
    by (simp add: Decode_def demo_codec_def)
  have args: "marshal demo_codec ''new'' = Some ''new''" "length ''new'' < maxJSONBytes" "True" "faults demo_world = []"
    by (simp_all add: demo_codec_def maxJSONBytes_def demo_world_def)
  from Write_read_back [OF demo_exact args(1,2) _ args(4), of "\<lambda>_. True" demo_path "''1''" "''2''"] now dec
  show ?thesis by (metis (full_types))
qed

end
