(* ===== verification/SessionQueues.thy ===== *)
theory SessionQueues
  imports Identity Persist
begin

text \<open>
  The queue of follow-up messages of a chat and its durable store,
  \<open>internal/controller/session_queues.go\<close>. A queue has steering messages (never stored), waiting
  follow-ups, at most one follow-up being dispatched or one blocked, and the identities of the
  operations already handled. Copying (\<open>clone\<close>) is the identity on values. The store keeps one record
  per project and session and, like the deletion journal, never falls back to its backup.
\<close>

record queuedFollowUp =
  item_id :: string
  item_text :: string

record queuedDispatch =
  dispatch_id :: string
  dispatch_text :: string
  previousUserMessages :: int
  attempted :: bool

record queueOperation =
  op_key :: string
  op_fingerprint :: string

record sessionQueueState =
  Revision :: string
  Steering :: "string list"
  FollowUp :: "queuedFollowUp list"
  Dispatch :: "queuedDispatch option"
  Blocked :: "queuedFollowUp option"
  Handled :: "queueOperation list"

text \<open>The stored forms; a \<open>nil\<close> slice is \<open>None\<close>.\<close>

record storedSessionQueue =
  sq_projectID :: string
  sq_sessionID :: string
  sq_revision :: string
  sq_followUp :: "queuedFollowUp list option"
  sq_dispatch :: "queuedDispatch option"
  sq_blocked :: "queuedFollowUp option"
  sq_handled :: "queueOperation list option"

record storedSessionQueues =
  sqs_version :: int
  sqs_engine :: string
  sqs_records :: "storedSessionQueue list option"

record SessionQueue =
  wire_revision :: string
  wire_steering :: "string list"
  wire_followUp :: "string list"
  wire_blocked :: bool

definition maxQueueOperations :: nat where "maxQueueOperations = 512"
definition maxQueuedMessages :: nat where "maxQueuedMessages = 20"

section \<open>Queue states\<close>

definition newSessionQueueState :: "string \<Rightarrow> sessionQueueState" where
  "newSessionQueueState fresh =
     \<lparr>Revision = fresh, Steering = [], FollowUp = [], Dispatch = None, Blocked = None, Handled = []\<rparr>"

definition dispatch_item :: "queuedDispatch \<Rightarrow> queuedFollowUp" where
  "dispatch_item d = \<lparr>item_id = dispatch_id d, item_text = dispatch_text d\<rparr>"

text \<open>\<open>wire\<close>: what clients see. A block is always at index 0 with the one reason, so it is a flag.\<close>

definition wire :: "sessionQueueState \<Rightarrow> bool \<Rightarrow> SessionQueue" where
  "wire state includeDispatch =
     (let (shown, blocked) =
        (case Dispatch state of
           Some d \<Rightarrow> if includeDispatch then ([dispatch_text d], attempted d) else ([], False)
         | None \<Rightarrow> ([], False));
      (shown, blocked) =
        (case Blocked state of
           Some b \<Rightarrow> (shown @ [item_text b], True)
         | None \<Rightarrow> (shown, blocked))
      in \<lparr>wire_revision = Revision state, wire_steering = Steering state,
          wire_followUp = shown @ map item_text (FollowUp state), wire_blocked = blocked\<rparr>)"

datatype queue_error =
    RequestReused | QueueFull | InvalidMessage | ReloadRequired | QueueChanged | NotFound | UnknownLane
  | NotBlocked | StoreMissing | StoreUnreadable | StoreSaveFailed
  | Busy | DispatchChanged | AttachError | AgentIdentityChanged | WorkRefused | MalformedPrompt

fun operation_in :: "queueOperation list \<Rightarrow> queueOperation \<Rightarrow> queue_error + bool" where
  "operation_in [] identity = Inr False"
| "operation_in (h # hs) identity =
     (if op_key h \<noteq> op_key identity then operation_in hs identity
      else if op_fingerprint h \<noteq> op_fingerprint identity then Inl RequestReused
      else Inr True)"

definition operation :: "sessionQueueState \<Rightarrow> queueOperation \<Rightarrow> queue_error + bool" where
  "operation state identity =
     (if op_key identity = [] then Inr False else operation_in (Handled state) identity)"

definition remember :: "queueOperation \<Rightarrow> sessionQueueState \<Rightarrow> sessionQueueState" where
  "remember identity state =
     (if op_key identity = [] then state
      else state\<lparr>Handled := last_n maxQueueOperations (Handled state @ [identity])\<rparr>)"

definition queuedFollowUpCount :: "sessionQueueState \<Rightarrow> nat" where
  "queuedFollowUpCount queue =
     length (FollowUp queue) + (if Dispatch queue = None then 0 else 1) + (if Blocked queue = None then 0 else 1)"

section \<open>Validation\<close>

definition queueDigestPattern :: "string \<Rightarrow> bool" where
  "queueDigestPattern s \<longleftrightarrow> hex_string 64 s"

text \<open>The set of item ids seen so far, grown by the item, or \<open>None\<close>.\<close>

definition validateQueuedFollowUp :: "queuedFollowUp \<Rightarrow> string set \<Rightarrow> string set option" where
  "validateQueuedFollowUp item seen =
     (if queuedText (item_text item) \<noteq> Some (item_text item) \<or> \<not> validateIdentity (item_id item)
         \<or> item_id item \<in> seen
      then None else Some (insert (item_id item) seen))"

fun validate_items :: "queuedFollowUp list \<Rightarrow> string set \<Rightarrow> string set option" where
  "validate_items [] seen = Some seen"
| "validate_items (i # is) seen =
     (case validateQueuedFollowUp i seen of None \<Rightarrow> None | Some seen \<Rightarrow> validate_items is seen)"

definition queueRecordKey :: "string \<Rightarrow> string \<Rightarrow> string" where
  "queueRecordKey project session = project @ [CHR 0x00] @ session"

definition record_key :: "storedSessionQueue \<Rightarrow> string" where
  "record_key r = queueRecordKey (sq_projectID r) (sq_sessionID r)"

definition validate_queue_items :: "storedSessionQueue \<Rightarrow> string set option" where
  "validate_queue_items r =
     (case validate_items (the (sq_followUp r)) {} of
        None \<Rightarrow> None
      | Some ids \<Rightarrow>
          (case (case sq_dispatch r of
                   None \<Rightarrow> Some ids
                 | Some d \<Rightarrow> if previousUserMessages d < 0 then None
                             else validateQueuedFollowUp (dispatch_item d) ids) of
             None \<Rightarrow> None
           | Some ids \<Rightarrow>
               (case sq_blocked r of None \<Rightarrow> Some ids | Some b \<Rightarrow> validateQueuedFollowUp b ids)))"

definition validate_queue_record :: "storedSessionQueue \<Rightarrow> bool" where
  "validate_queue_record r \<longleftrightarrow>
     validateIdentity (sq_projectID r) \<and> validatePiSessionID (sq_sessionID r)
     \<and> \<not> (sq_followUp r = None \<or> sq_handled r = None \<or> sq_revision r = []
          \<or> length (the (sq_handled r)) > maxQueueOperations
          \<or> sq_dispatch r \<noteq> None \<and> sq_blocked r \<noteq> None)
     \<and> (case validate_queue_items r of None \<Rightarrow> False | Some ids \<Rightarrow> \<not> card ids > maxQueuedMessages)
     \<and> list_all (\<lambda>h. queueDigestPattern (op_key h) \<and> queueDigestPattern (op_fingerprint h)) (the (sq_handled r))"

fun validate_queue_records :: "string set \<Rightarrow> storedSessionQueue list \<Rightarrow> bool" where
  "validate_queue_records seen [] = True"
| "validate_queue_records seen (r # rs) =
     (if \<not> validate_queue_record r \<or> record_key r \<in> seen then False
      else validate_queue_records (insert (record_key r) seen) rs)"

definition validateStoredQueues :: "storedSessionQueues \<Rightarrow> bool" where
  "validateStoredQueues value =
     (if sqs_version value \<noteq> 1 \<or> sqs_engine value \<noteq> ''pi'' then False
      else (case sqs_records value of None \<Rightarrow> False | Some rs \<Rightarrow> validate_queue_records {} rs))"

section \<open>Records and the store\<close>

definition queueRecord :: "string \<Rightarrow> string \<Rightarrow> sessionQueueState \<Rightarrow> storedSessionQueue" where
  "queueRecord project session state =
     \<lparr>sq_projectID = project, sq_sessionID = session, sq_revision = Revision state,
      sq_followUp = Some (FollowUp state), sq_dispatch = Dispatch state, sq_blocked = Blocked state,
      sq_handled = Some (Handled state)\<rparr>"

definition slice :: "'a list option \<Rightarrow> 'a list" where
  "slice s = (case s of None \<Rightarrow> [] | Some xs \<Rightarrow> xs)"

definition queueStateFromRecord :: "storedSessionQueue \<Rightarrow> sessionQueueState" where
  "queueStateFromRecord r =
     \<lparr>Revision = sq_revision r, Steering = [], FollowUp = slice (sq_followUp r), Dispatch = sq_dispatch r,
      Blocked = sq_blocked r, Handled = slice (sq_handled r)\<rparr>"

text \<open>A store: its codec, its file, and the random parts of the temporary names of its writes.\<close>

record queue_store =
  qs_codec :: "storedSessionQueues codec"
  qs_file :: path
  qs_temp :: "string \<times> string"

definition queues_load :: "queue_store \<Rightarrow> world \<Rightarrow> (queue_error + storedSessionQueue list) \<times> world" where
  "queues_load st w =
     (let (raw, w) = ReadFile (qs_file st) w in
      case raw of
        NotExist \<Rightarrow>
          (let (backup, w) = ReadFile (backup_path (qs_file st)) w in
           (if backup = NotExist then Inr [] else Inl StoreMissing, w))
      | ReadFailed \<Rightarrow> (Inl StoreUnreadable, w)
      | ReadBytes bytes m \<Rightarrow>
          (case Decode (qs_codec st) validateStoredQueues bytes of
             None \<Rightarrow> (Inl StoreUnreadable, w)
           | Some value \<Rightarrow> (Inr (slice (sqs_records value)), w)))"

definition stored_queues :: "storedSessionQueue list \<Rightarrow> storedSessionQueues" where
  "stored_queues rs = \<lparr>sqs_version = 1, sqs_engine = ''pi'', sqs_records = Some rs\<rparr>"

definition queues_save :: "queue_store \<Rightarrow> storedSessionQueue list \<Rightarrow> world \<Rightarrow> bool \<times> world" where
  "queues_save st rs w =
     Write (qs_codec st) validateStoredQueues (qs_file st) (fst (qs_temp st)) (snd (qs_temp st)) (stored_queues rs) w"

definition List_queues :: "queue_store \<Rightarrow> world \<Rightarrow> (queue_error + storedSessionQueue list) \<times> world" where
  "List_queues st w = queues_load st w"

definition owns :: "string \<Rightarrow> string \<Rightarrow> storedSessionQueue \<Rightarrow> bool" where
  "owns project session r \<longleftrightarrow> sq_projectID r = project \<and> sq_sessionID r = session"

definition Get_queue ::
  "queue_store \<Rightarrow> string \<Rightarrow> string \<Rightarrow> world \<Rightarrow> (queue_error + sessionQueueState option) \<times> world" where
  "Get_queue st project session w =
     (case queues_load st w of
        (Inl e, w) \<Rightarrow> (Inl e, w)
      | (Inr rs, w) \<Rightarrow> (Inr (map_option queueStateFromRecord (find (owns project session) rs)), w))"

text \<open>The first record of the chat is replaced, or the record appended.\<close>

fun replace_record :: "string \<Rightarrow> string \<Rightarrow> storedSessionQueue \<Rightarrow> storedSessionQueue list \<Rightarrow> storedSessionQueue list" where
  "replace_record project session new [] = [new]"
| "replace_record project session new (r # rs) =
     (if owns project session r then new # rs else r # replace_record project session new rs)"

definition Save_queue ::
  "queue_store \<Rightarrow> string \<Rightarrow> string \<Rightarrow> sessionQueueState \<Rightarrow> world \<Rightarrow> queue_error option \<times> world" where
  "Save_queue st project session state w =
     (case queues_load st w of
        (Inl e, w) \<Rightarrow> (Some e, w)
      | (Inr rs, w) \<Rightarrow>
          (let (ok, w) = queues_save st (replace_record project session (queueRecord project session state) rs) w in
           (if ok then None else Some StoreSaveFailed, w)))"

text \<open>Forgetting saves twice, so that the backup holds no copy either.\<close>

definition Forget_queue :: "queue_store \<Rightarrow> string \<Rightarrow> string \<Rightarrow> world \<Rightarrow> queue_error option \<times> world" where
  "Forget_queue st project session w =
     (case queues_load st w of
        (Inl e, w) \<Rightarrow> (Some e, w)
      | (Inr rs, w) \<Rightarrow>
          (let filtered = filter (\<lambda>r. \<not> owns project session r) rs;
               (ok, w) = queues_save st filtered w
           in if \<not> ok then (Some StoreSaveFailed, w)
              else (let (ok, w) = queues_save st filtered w in
                    (if ok then None else Some StoreSaveFailed, w))))"

section \<open>What the store holds\<close>

lemma queues_load_eq:
  "queues_load st w =
     (let (r, w') = journal_load (qs_codec st) validateStoredQueues (qs_file st) w in
      ((case r of JournalGone \<Rightarrow> Inl StoreMissing | JournalBad \<Rightarrow> Inl StoreUnreadable
        | JournalNew \<Rightarrow> Inr [] | JournalValue v \<Rightarrow> Inr (slice (sqs_records v))), w'))"
  by (simp add: queues_load_def journal_load_def case_prod_beta Let_def split: read_result.splits option.splits)

definition queues_now :: "queue_store \<Rightarrow> filesys \<Rightarrow> storedSessionQueue list option" where
  "queues_now st fs =
     map_option (slice \<circ> sqs_records) (journal_now (qs_codec st) validateStoredQueues (qs_file st) (stored_queues []) fs)"

lemma slice_Some [simp]: "slice (Some xs) = xs" "slice None = []"
  by (simp_all add: slice_def)

interpretation queue_journal: durable_store "queues_now st" "queues_save st" Some "\<lambda>rs. exact (qs_codec st) (stored_queues rs)" for st
  using durable_store_view [OF journal.durable_store_axioms,
      of "map_option (slice \<circ> sqs_records)" "qs_codec st" validateStoredQueues "qs_file st" "stored_queues []"
         "fst (qs_temp st)" "snd (qs_temp st)" stored_queues]
  by (simp add: queues_now_def [abs_def] queues_save_def [abs_def] stored_queues_def)

lemma queues_load_now:
  assumes "queues_load st w = (res, w')"
  shows "files w' = files w" "trail w' = trail w" "res = Inr rs \<Longrightarrow> queues_now st (files w) = Some rs"
proof -
  obtain r where r: "journal_load (qs_codec st) validateStoredQueues (qs_file st) w = (r, w')"
    using assms by (auto simp: queues_load_eq split: prod.splits)
  show "files w' = files w" "trail w' = trail w" using journal_load_frame [OF r] by simp_all
  assume "res = Inr rs"
  with assms r have "r = JournalNew \<and> rs = [] \<or> (\<exists>v. r = JournalValue v \<and> rs = slice (sqs_records v))"
    by (auto simp: queues_load_eq split: journal_read.splits)
  then show "queues_now st (files w) = Some rs"
  proof
    assume "r = JournalNew \<and> rs = []"
    with journal_load_now(1) [OF r, of "stored_queues []"] show ?thesis
      by (simp add: queues_now_def stored_queues_def)
  next
    assume "\<exists>v. r = JournalValue v \<and> rs = slice (sqs_records v)"
    with journal_load_now(2) [OF r] show ?thesis by (auto simp: queues_now_def)
  qed
qed

lemma queues_load_calm:
  assumes "faults w = []" "queues_now st (files w) = Some rs"
  shows "queues_load st w = (Inr rs, w)"
proof -
  obtain v where v: "journal_now (qs_codec st) validateStoredQueues (qs_file st) (stored_queues []) (files w) = Some v"
    "rs = slice (sqs_records v)"
    using assms(2) by (auto simp: queues_now_def)
  from journal_load_calm [OF assms(1) v(1)] v(2) show ?thesis
    by (auto simp: queues_load_eq stored_queues_def)
qed

text \<open>The queue of each chat.\<close>

definition chat_queues :: "storedSessionQueue list \<Rightarrow> string \<times> string \<Rightarrow> sessionQueueState option" where
  "chat_queues rs = (\<lambda>(project, session). map_option queueStateFromRecord (find (owns project session) rs))"

lemma queueStateFromRecord_queueRecord [simp]:
  "queueStateFromRecord (queueRecord project session state) = state\<lparr>Steering := []\<rparr>"
  by (simp add: queueStateFromRecord_def queueRecord_def)

lemma owns_queueRecord [simp]: "owns p s (queueRecord project session state) \<longleftrightarrow> p = project \<and> s = session"
  by (auto simp: owns_def queueRecord_def)

lemma owns_unique: "owns p s r \<Longrightarrow> owns p' s' r \<Longrightarrow> p' = p \<and> s' = s"
  by (simp add: owns_def)

lemma chat_queues_replace:
  "chat_queues (replace_record project session (queueRecord project session state) rs)
   = (chat_queues rs)((project, session) \<mapsto> state\<lparr>Steering := []\<rparr>)"
  by (induction rs) (auto simp: chat_queues_def fun_eq_iff dest: owns_unique)

lemma chat_queues_filter:
  "chat_queues (filter (\<lambda>r. \<not> owns project session r) rs) = (chat_queues rs)((project, session) := None)"
  by (induction rs) (auto simp: chat_queues_def fun_eq_iff dest: owns_unique)

lemma Get_queue_calm:
  assumes "faults w = []" "queues_now st (files w) = Some rs"
  shows "Get_queue st p s w = (Inr (chat_queues rs (p, s)), w)"
  by (simp add: Get_queue_def queues_load_calm [OF assms] chat_queues_def)

text \<open>A save fails before writing, leaving the files as they are, or writes the updated records.\<close>

lemma Save_queue_run:
  assumes "Save_queue st p s state w = (err, w')" "queues_now st (files w) = Some rs"
  obtains "err \<noteq> None" "files w' = files w" "trail w' = trail w"
  | w1 ok where "files w1 = files w" "trail w1 = trail w" "err = (if ok then None else Some StoreSaveFailed)"
    "queues_save st (replace_record p s (queueRecord p s state) rs) w1 = (ok, w')"
proof -
  obtain res w1 where ld: "queues_load st w = (res, w1)" by force
  note l = queues_load_now [OF ld]
  show thesis
  proof (cases res)
    case (Inl e)
    with assms(1) ld have "err = Some e" "w' = w1" by (simp_all add: Save_queue_def)
    with l that(1) show thesis by simp
  next
    case (Inr rs')
    with l(3) assms(2) have "rs' = rs" by simp
    with assms(1) ld Inr that(2) [of w1] l(1,2) show thesis
      by (auto simp: Save_queue_def split: prod.splits)
  qed
qed

lemma Save_queue_ok:
  assumes "Save_queue st p s state w = (None, w')" "queues_now st (files w) = Some rs"
    and "exact (qs_codec st) (stored_queues (replace_record p s (queueRecord p s state) rs))"
  shows "queues_now st (files w') = Some (replace_record p s (queueRecord p s state) rs)"
  using Save_queue_run [OF assms(1,2)]
proof cases
  case (2 w1 ok)
  then show ?thesis using queue_journal.save_ok [OF assms(3)] by (auto split: if_splits)
qed simp

section \<open>Well-formed queues\<close>

text \<open>The messages a queue holds, in the order a client that sees the dispatch sees them.\<close>

definition queue_items :: "sessionQueueState \<Rightarrow> queuedFollowUp list" where
  "queue_items q =
     (case Dispatch q of None \<Rightarrow> [] | Some d \<Rightarrow> [dispatch_item d])
     @ (case Blocked q of None \<Rightarrow> [] | Some b \<Rightarrow> [b]) @ FollowUp q"

definition item_ok :: "queuedFollowUp \<Rightarrow> bool" where
  "item_ok i \<longleftrightarrow> queuedText (item_text i) = Some (item_text i) \<and> validateIdentity (item_id i)"

definition queue_ok :: "sessionQueueState \<Rightarrow> bool" where
  "queue_ok q \<longleftrightarrow>
     distinct (map item_id (queue_items q)) \<and> list_all item_ok (queue_items q)
     \<and> length (queue_items q) \<le> 20 \<and> (Dispatch q = None \<or> Blocked q = None)
     \<and> length (Handled q) \<le> 512 \<and> Revision q \<noteq> []"

lemma length_queue_items: "length (queue_items q) = queuedFollowUpCount q"
  by (simp add: queue_items_def queuedFollowUpCount_def split: option.splits)

lemma wire_items: "wire_followUp (wire q True) = map item_text (queue_items q)"
  by (simp add: wire_def queue_items_def dispatch_item_def split: option.splits)

lemma validateQueuedFollowUp_Some:
  "validateQueuedFollowUp i seen = Some seen' \<longleftrightarrow> item_ok i \<and> item_id i \<notin> seen \<and> seen' = insert (item_id i) seen"
  by (auto simp: validateQueuedFollowUp_def item_ok_def)

lemma validate_items_Some:
  "validate_items is seen = Some seen' \<Longrightarrow>
     list_all item_ok is \<and> distinct (map item_id is) \<and> item_id ` set is \<inter> seen = {}
     \<and> seen' = item_id ` set is \<union> seen"
proof (induction "is" arbitrary: seen)
  case (Cons i items)
  then obtain mid where "validateQueuedFollowUp i seen = Some mid" "validate_items items mid = Some seen'"
    by (auto split: option.splits)
  with Cons.IH [of mid] show ?case by (auto simp: validateQueuedFollowUp_Some)
qed simp

lemma validate_queue_items_Some:
  assumes "validate_queue_items r = Some ids" "sq_followUp r = Some fs"
  shows "distinct (map item_id (queue_items (queueStateFromRecord r)))
    \<and> list_all item_ok (queue_items (queueStateFromRecord r))
    \<and> card ids = length (queue_items (queueStateFromRecord r))"
proof -
  let ?items = "queue_items (queueStateFromRecord r)"
  obtain ids0 where i0: "validate_items fs {} = Some ids0"
    using assms by (auto simp: validate_queue_items_def split: option.splits)
  note v0 = validate_items_Some [OF i0]
  have "distinct (map item_id ?items) \<and> list_all item_ok ?items \<and> ids = item_id ` set ?items"
    using assms v0 i0
    by (auto simp: validate_queue_items_def queue_items_def queueStateFromRecord_def validateQueuedFollowUp_Some
        split: option.splits if_splits)
  then show ?thesis by (metis card_image distinct_card distinct_map length_map list.set_map)
qed

lemma valid_record_ok:
  assumes "validate_queue_record r"
  shows "queue_ok (queueStateFromRecord r)"
proof -
  let ?q = "queueStateFromRecord r"
  obtain fs hs ids where f: "sq_followUp r = Some fs" "sq_handled r = Some hs" "length hs \<le> 512"
    "validate_queue_items r = Some ids" "card ids \<le> 20" "sq_revision r \<noteq> []"
    "\<not> (sq_dispatch r \<noteq> None \<and> sq_blocked r \<noteq> None)"
    using assms by (auto simp: validate_queue_record_def maxQueueOperations_def maxQueuedMessages_def split: option.splits)
  note v = validate_queue_items_Some [OF f(4,1)]
  have "length (queue_items ?q) \<le> 20" using v f(5) by simp
  moreover have "Dispatch ?q = None \<or> Blocked ?q = None" using f(7) by (simp add: queueStateFromRecord_def)
  moreover have "length (Handled ?q) \<le> 512" "Revision ?q \<noteq> []"
    using f(2,3,6) by (simp_all add: queueStateFromRecord_def)
  ultimately show ?thesis using v by (simp add: queue_ok_def)
qed

lemma validate_queue_records_all: "validate_queue_records seen rs \<Longrightarrow> list_all validate_queue_record rs"
  by (induction rs arbitrary: seen) (auto split: if_splits)

lemma queues_now_valid:
  assumes "queues_now st fs = Some rs"
  shows "list_all validate_queue_record rs"
proof -
  obtain v where v: "journal_now (qs_codec st) validateStoredQueues (qs_file st) (stored_queues []) fs = Some v"
    "rs = slice (sqs_records v)"
    using assms by (auto simp: queues_now_def)
  then consider "v = stored_queues []" | "validateStoredQueues v"
    by (auto simp: journal_now_def Decode_def split: read_result.splits option.splits if_splits)
  then show ?thesis
    using v(2) by cases
      (auto simp: stored_queues_def validateStoredQueues_def validate_queue_records_all split: option.splits if_splits)
qed

section \<open>Properties\<close>

definition demo_queue :: sessionQueueState where
  "demo_queue = \<lparr>Revision = ''r'', Steering = [],
     FollowUp = [\<lparr>item_id = ''i'', item_text = ''hello''\<rparr>], Dispatch = None, Blocked = None, Handled = []\<rparr>"

text \<open>A codec that knows the store without records and the one with the sample queue.\<close>

definition demo_queue_rows :: "storedSessionQueue list" where
  "demo_queue_rows = [queueRecord ''p'' ''s'' demo_queue]"

definition demo_queue_store :: queue_store where
  "demo_queue_store =
     \<lparr>qs_codec = \<lparr>marshal = (\<lambda>v. if v = stored_queues [] then Some ''0''
                              else if v = stored_queues demo_queue_rows then Some ''1'' else None),
                  unmarshal = (\<lambda>s. if s = ''0'' @ [newline] then Some (stored_queues [])
                              else if s = ''1'' @ [newline] then Some (stored_queues demo_queue_rows) else None)\<rparr>,
      qs_file = demo_path, qs_temp = (''1'', ''2'')\<rparr>"

definition demo_queue_world :: world where
  "demo_queue_world =
     \<lparr>files = [(demo_path, \<lparr>content = ''1'' @ [newline], fmode = 384, regular = True\<rparr>)], faults = [], trail = []\<rparr>"

lemma demo_queue_valid: "validate_queue_record (queueRecord ''p'' ''s'' demo_queue)"
proof -
  have "queuedText ''hello'' = Some ''hello''"
    by (simp add: queuedText_def TrimSpace_def space_seg_def is_space_def containsNUL_def valid_utf8_def rune_error_def)
  moreover have "validateIdentity ''i''" "validateIdentity ''p''" "validatePiSessionID ''s''"
    by (simp_all add: validateIdentity_def utf16Length_def ContainsAny_def validatePiSessionID_def containsNUL_def)
  ultimately show ?thesis
    by (simp add: validate_queue_record_def validate_queue_items_def queueRecord_def demo_queue_def
        validateQueuedFollowUp_def maxQueueOperations_def maxQueuedMessages_def)
qed

lemma demo_queue_now: "queues_now demo_queue_store (files demo_queue_world) = Some demo_queue_rows"
  by (simp add: queues_now_def journal_now_def read_now_def demo_queue_world_def demo_queue_store_def
      maxJSONBytes_def Decode_def newline_def stored_queues_def validateStoredQueues_def demo_queue_valid demo_queue_rows_def)

lemma demo_queue_exact:
  "exact (qs_codec demo_queue_store) (stored_queues [])"
  "exact (qs_codec demo_queue_store) (stored_queues demo_queue_rows)"
  by (simp_all add: exact_def demo_queue_store_def stored_queues_def newline_def demo_queue_rows_def)

text \<open>C17: Whatever queue the store gives for a chat is well formed: message ids are distinct, texts trimmed and
  valid, at most 20 messages with the one being dispatched or blocked, never both of these, and at
  most 512 handled operations.\<close>

theorem stored_queue_ok:
  assumes "queues_now st fs = Some rs" "chat_queues rs (p, s) = Some q"
  shows "queue_ok q"
proof -
  obtain r where "find (owns p s) rs = Some r" "q = queueStateFromRecord r"
    using assms(2) by (auto simp: chat_queues_def)
  then have "r \<in> set rs" "q = queueStateFromRecord r" by (auto simp: find_Some_iff)
  with queues_now_valid [OF assms(1)] valid_record_ok show ?thesis by (auto simp: list_all_iff)
qed

theorem stored_queue_ok_witness: "queue_ok demo_queue"
proof -
  have "chat_queues demo_queue_rows (''p'', ''s'') = Some demo_queue"
    by (simp add: chat_queues_def demo_queue_rows_def, simp add: demo_queue_def)
  from stored_queue_ok [OF demo_queue_now this] show ?thesis .
qed

text \<open>Saving a chat's queue replaces that chat's queue and no other one, in one step: every file system the
  save passes through holds either the old queues or the new ones, and success means the new ones.
  The stored queue is the saved one without its steering messages.\<close>

theorem queue_save_atomic:
  assumes "queues_now st (files w) = Some rs" "Save_queue st p s state w = (err, w')" "trail w = []"
    and "exact (qs_codec st) (stored_queues (replace_record p s (queueRecord p s state) rs))"
    and "fs \<in> insert (files w') (set (trail w'))"
  shows "\<exists>rs'. queues_now st fs = Some rs'
    \<and> (chat_queues rs' = chat_queues rs \<or> chat_queues rs' = (chat_queues rs)((p, s) \<mapsto> state\<lparr>Steering := []\<rparr>))
    \<and> (err = None \<and> fs = files w' \<longrightarrow> chat_queues rs' = (chat_queues rs)((p, s) \<mapsto> state\<lparr>Steering := []\<rparr>))"
  using Save_queue_run [OF assms(2,1)]
proof cases
  case 1
  with assms(1,3,5) show ?thesis by auto
next
  case (2 w1 ok)
  let ?new = "replace_record p s (queueRecord p s state) rs"
  have "queues_now st fs = queues_now st (files w) \<or> queues_now st fs = Some ?new"
    using queue_journal.save_crash [OF assms(4) 2(4)] queue_journal.save_final [OF assms(4) 2(4)] 2(1,2) assms(3,5)
    by auto
  moreover have "err = None \<Longrightarrow> queues_now st (files w') = Some ?new"
    using queue_journal.save_ok [OF assms(4)] 2(3,4) by (auto split: if_splits)
  ultimately show ?thesis using assms(1) chat_queues_replace [of p s state rs] by metis
qed

theorem queue_save_atomic_witness:
  "\<exists>rs'. queues_now demo_queue_store (files (snd (Save_queue demo_queue_store ''p'' ''s'' demo_queue demo_queue_world))) = Some rs'
     \<and> chat_queues rs' (''p'', ''s'') = Some demo_queue"
proof -
  obtain err w' where run: "Save_queue demo_queue_store ''p'' ''s'' demo_queue demo_queue_world = (err, w')" by force
  have "replace_record ''p'' ''s'' (queueRecord ''p'' ''s'' demo_queue) demo_queue_rows = demo_queue_rows"
    by (simp add: demo_queue_rows_def)
  with demo_queue_exact have ex: "exact (qs_codec demo_queue_store)
      (stored_queues (replace_record ''p'' ''s'' (queueRecord ''p'' ''s'' demo_queue) demo_queue_rows))" by simp
  have "trail demo_queue_world = []" by (simp add: demo_queue_world_def)
  from queue_save_atomic [OF demo_queue_now run this ex, of "files w'"] obtain rs' where
    "queues_now demo_queue_store (files w') = Some rs'"
    "chat_queues rs' = chat_queues demo_queue_rows
      \<or> chat_queues rs' = (chat_queues demo_queue_rows)((''p'', ''s'') \<mapsto> demo_queue\<lparr>Steering := []\<rparr>)" by blast
  moreover have "chat_queues demo_queue_rows (''p'', ''s'') = Some demo_queue" "demo_queue\<lparr>Steering := []\<rparr> = demo_queue"
    by (simp_all add: chat_queues_def demo_queue_rows_def, simp_all add: demo_queue_def)
  ultimately show ?thesis using run by (intro exI [of _ rs']) auto
qed

text \<open>Forgetting a chat with no system call failing removes its queue from the store and from the
  backup generation as well, and keeps every other chat's queue in both.\<close>

theorem queue_forget_scrubs:
  assumes "queues_now st (files w) = Some rs" "faults w = []"
    and "exact (qs_codec st) (stored_queues (filter (\<lambda>r. \<not> owns p s r) rs))"
    and "Forget_queue st p s w = (None, w')"
  shows "\<exists>rs' raw m. queues_now st (files w') = Some rs' \<and> chat_queues rs' = (chat_queues rs)((p, s) := None)
    \<and> read_now (backup_path (qs_file st)) (files w') = ReadBytes raw m
    \<and> Decode (qs_codec st) validateStoredQueues raw = Some (stored_queues rs')"
proof -
  let ?f = "filter (\<lambda>r. \<not> owns p s r) rs"
  let ?W = "Write (qs_codec st) validateStoredQueues (qs_file st) (fst (qs_temp st)) (snd (qs_temp st)) (stored_queues ?f)"
  obtain w1 where s1: "queues_save st ?f w = (True, w1)" and s2: "queues_save st ?f w1 = (True, w')"
    using assms(4) by (auto simp: Forget_queue_def queues_load_calm [OF assms(2,1)] Let_def split: prod.splits if_splits)
  from s1 have W1: "?W w = (True, w1)" by (simp add: queues_save_def)
  from Write_nodes [OF W1] obtain raw0 m where n: "marshal (qs_codec st) (stored_queues ?f) = Some raw0"
    "length (raw0 @ [newline]) \<le> maxJSONBytes"
    "Decode (qs_codec st) validateStoredQueues (raw0 @ [newline]) \<noteq> None"
    "get (files w1) (qs_file st) = Some \<lparr>content = raw0 @ [newline], fmode = m, regular = True\<rparr>" by blast
  from Write_calm [OF assms(2) n(1-3)] W1 have calm1: "faults w1 = []" by (metis Pair_inject)
  have now1: "read_now (qs_file st) (files w1) = ReadBytes (raw0 @ [newline]) m"
    using n(2,4) by (simp add: read_now_def)
  from Write_calm [OF calm1 n(1-3), of "qs_file st" "fst (qs_temp st)" "snd (qs_temp st)"] s2 now1 n(3)
  have "read_now (backup_path (qs_file st)) (files w') = ReadBytes (raw0 @ [newline]) m"
    by (auto simp: queues_save_def)
  moreover have "Decode (qs_codec st) validateStoredQueues (raw0 @ [newline]) = Some (stored_queues ?f)"
    using exact_Decode [OF assms(3) n(1,3)] .
  moreover have "queues_now st (files w') = Some ?f" using queue_journal.save_ok [OF assms(3) s2] .
  ultimately show ?thesis by (auto simp: chat_queues_filter)
qed

lemma demo_forget: "\<exists>w'. Forget_queue demo_queue_store ''p'' ''s'' demo_queue_world = (None, w')"
proof -
  let ?st = demo_queue_store
  have calm: "faults demo_queue_world = []" by (simp add: demo_queue_world_def)
  have f: "filter (\<lambda>r. \<not> owns ''p'' ''s'' r) demo_queue_rows = []" by (simp add: demo_queue_rows_def)
  have enc: "marshal (qs_codec ?st) (stored_queues []) = Some ''0''" "length (''0'' @ [newline]) \<le> maxJSONBytes"
    "Decode (qs_codec ?st) validateStoredQueues (''0'' @ [newline]) \<noteq> None"
    by (simp_all add: demo_queue_store_def maxJSONBytes_def Decode_def newline_def validateStoredQueues_def stored_queues_def)
  obtain w1 where w1: "queues_save ?st [] demo_queue_world = (True, w1)" "faults w1 = []"
    unfolding queues_save_def using Write_calm [OF calm enc] by metis
  obtain w2 where "queues_save ?st [] w1 = (True, w2)"
    unfolding queues_save_def using Write_calm [OF w1(2) enc] by metis
  with w1 show ?thesis by (simp add: Forget_queue_def queues_load_calm [OF calm demo_queue_now] f)
qed

theorem queue_forget_scrubs_witness:
  "\<exists>rs' w'. Forget_queue demo_queue_store ''p'' ''s'' demo_queue_world = (None, w')
     \<and> queues_now demo_queue_store (files w') = Some rs' \<and> chat_queues rs' (''p'', ''s'') = None"
proof -
  obtain w' where run: "Forget_queue demo_queue_store ''p'' ''s'' demo_queue_world = (None, w')" using demo_forget ..
  have calm: "faults demo_queue_world = []" by (simp add: demo_queue_world_def)
  have "filter (\<lambda>r. \<not> owns ''p'' ''s'' r) demo_queue_rows = []" by (simp add: demo_queue_rows_def)
  with demo_queue_exact(1) have "exact (qs_codec demo_queue_store) (stored_queues (filter (\<lambda>r. \<not> owns ''p'' ''s'' r) demo_queue_rows))"
    by simp
  from queue_forget_scrubs [OF demo_queue_now calm this run] show ?thesis using run by fastforce
qed

end
