(* ===== verification/Json.thy ===== *)
theory Json
  imports GoText
begin

text \<open>
  Decoded JSON values as Go's \<open>any\<close> holds them after \<open>json.Unmarshal\<close>: \<open>nil\<close>, \<open>bool\<close>,
  \<open>float64\<close>, \<open>string\<close>, \<open>[]any\<close> and \<open>map[string]any\<close>. Numbers the program reads are whole
  or are rejected, so a number is an integer or any other number. The accessors are those of
  \<open>internal/controller\<close>: a missing or differently typed value is the zero value.
\<close>

datatype json =
    JNull
  | JBool bool
  | JInt int
  | JFloat string
  | JStr string
  | JArr "json list"
  | JObj "(string \<times> json) list"

fun as_object :: "json \<Rightarrow> (string \<times> json) list option" where
  "as_object (JObj m) = Some m"
| "as_object _ = None"

fun as_string :: "json \<Rightarrow> string option" where
  "as_string (JStr s) = Some s"
| "as_string _ = None"

fun as_array :: "json \<Rightarrow> json list option" where
  "as_array (JArr xs) = Some xs"
| "as_array _ = None"

lemma as_string_Some [simp]: "as_string v = Some s \<longleftrightarrow> v = JStr s"
  by (cases v) auto

lemma as_object_Some [simp]: "as_object v = Some m \<longleftrightarrow> v = JObj m"
  by (cases v) auto

lemma as_array_Some [simp]: "as_array v = Some xs \<longleftrightarrow> v = JArr xs"
  by (cases v) auto

text \<open>Reading a key of an object; a missing key reads as \<open>nil\<close>.\<close>

definition field :: "(string \<times> json) list \<Rightarrow> string \<Rightarrow> json" where
  "field m k = (case get m k of None \<Rightarrow> JNull | Some v \<Rightarrow> v)"

text \<open>The accessors of \<open>internal/controller/session_events.go\<close>.\<close>

fun textValue :: "json \<Rightarrow> string" where
  "textValue (JStr s) = s"
| "textValue _ = []"

fun mapValue :: "json \<Rightarrow> (string \<times> json) list" where
  "mapValue (JObj m) = m"
| "mapValue _ = []"

fun arrayValue :: "json \<Rightarrow> json list" where
  "arrayValue (JArr xs) = xs"
| "arrayValue _ = []"

end
