(* ===== verification/Attachments.thy ===== *)
theory Attachments
  imports Json
begin

text \<open>
  The content of a prompt, \<open>internal/controller/session_actions.go\<close>: text, images in base64 and text
  attachments, their limits, and the marker a replayed attachment leaves in the transcript.
\<close>

record ImageContent =
  image_type :: string
  image_data :: string
  image_mime :: string

record TextResourceAttachment =
  resource_type :: string
  resource_name :: string
  resource_mime :: string
  resource_text :: string

datatype content_block =
    TextBlock string
  | ImageBlock string string
  | ResourceBlock string string string

datatype prompt_error =
    MalformedImage | ImageTooLarge | ImagesTooLarge | TooManyResources | MalformedResource
  | ResourceTooLarge | ResourcesTooLarge

definition maxTextAttachmentBytes :: nat where "maxTextAttachmentBytes = 1024 * 1024"
definition maxTextAttachmentTotalBytes :: nat where "maxTextAttachmentTotalBytes = 2 * 1024 * 1024"
definition maxTextAttachmentCount :: nat where "maxTextAttachmentCount = 4"

section \<open>Base64\<close>

definition base64Index :: "char \<Rightarrow> int" where
  "base64Index value =
     (if is_upper value then of_char value - 65
      else if is_lower value then of_char value - 97 + 26
      else if is_digit value then of_char value - 48 + 52
      else if value = CHR ''+'' then 62
      else if value = CHR ''/'' then 63
      else -1)"

definition canonicalBase64 :: "string \<Rightarrow> bool" where
  "canonicalBase64 value =
     (if value = [] \<or> length value mod 4 \<noteq> 0 then False
      else
        (let n = length value;
             padding = (if value ! (n - 1) = CHR ''='' then if value ! (n - 2) = CHR ''='' then 2 else 1 else 0)
         in if list_ex (\<lambda>c. base64Index c < 0) (take (n - padding) value) then False
            else if list_ex (\<lambda>c. c \<noteq> CHR ''='') (drop (n - padding) value) then False
            else if padding = 2 then base64Index (value ! (n - 3)) mod 16 = 0
            else if padding = 1 then base64Index (value ! (n - 2)) mod 4 = 0
            else True))"

section \<open>Attachments\<close>

definition validTextAttachmentMimeType :: "string \<Rightarrow> bool" where
  "validTextAttachmentMimeType mimeType \<longleftrightarrow> mimeType \<in> set
     [''text/plain'', ''text/markdown'', ''text/css'', ''text/html'', ''text/javascript'', ''text/x-c'',
      ''text/x-c++src'', ''text/x-csharp'', ''text/x-go'', ''text/x-java-source'', ''text/x-python'',
      ''text/x-rust'', ''text/x-shellscript'', ''text/x-typescript'', ''text/x-yaml'', ''application/json'',
      ''application/toml'', ''application/xml'']"

definition validTextAttachmentName :: "string \<Rightarrow> bool" where
  "validTextAttachmentName name =
     (if name = [] \<or> TrimSpace name \<noteq> name \<or> ContainsAny name [CHR ''/'', CHR 0x5C] \<or> containsNUL name
         \<or> \<not> valid_utf8 name \<or> length name > 255 \<or> length (runes name) > 128
      then False
      else \<not> list_ex (\<lambda>(r, b). r < 0x20 \<or> r = 0x7F) (runes name))"

definition validTextResourceAttachment :: "TextResourceAttachment \<Rightarrow> bool" where
  "validTextResourceAttachment r =
     (if resource_type r \<noteq> ''text'' \<or> \<not> validTextAttachmentName (resource_name r)
         \<or> \<not> validTextAttachmentMimeType (resource_mime r) \<or> \<not> valid_utf8 (resource_text r)
         \<or> containsNUL (resource_text r)
      then False
      else \<not> list_ex (\<lambda>(c, b). c < 0x20 \<and> c \<noteq> 9 \<and> c \<noteq> 10 \<and> c \<noteq> 13) (runes (resource_text r)))"

text \<open>\<open>url.PathEscape\<close> and \<open>url.PathUnescape\<close>, byte by byte.\<close>

definition upper_hex :: "nat \<Rightarrow> char" where
  "upper_hex n = (if n < 10 then char_of (48 + n) else char_of (55 + n))"

definition unreserved :: "char \<Rightarrow> bool" where
  "unreserved c \<longleftrightarrow> is_alnum c \<or> c \<in> set ''-_.~$&+=:@''"

fun PathEscape :: "string \<Rightarrow> string" where
  "PathEscape [] = []"
| "PathEscape (c # s) =
     (if unreserved c then [c]
      else [CHR ''%'', upper_hex (of_char c div 16), upper_hex (of_char c mod 16)]) @ PathEscape s"

definition unhex :: "char \<Rightarrow> nat option" where
  "unhex c =
     (if is_digit c then Some (of_char c - 48)
      else if CHR ''a'' \<le> c \<and> c \<le> CHR ''f'' then Some (of_char c - 97 + 10)
      else if CHR ''A'' \<le> c \<and> c \<le> CHR ''F'' then Some (of_char c - 65 + 10)
      else None)"

fun PathUnescape :: "string \<Rightarrow> string option" where
  "PathUnescape [] = Some []"
| "PathUnescape (c # s) =
     (if c = CHR ''%'' then
        (case s of
           h # l # s' \<Rightarrow>
             (case (unhex h, unhex l) of
                (Some a, Some b) \<Rightarrow> map_option (\<lambda>t. char_of (16 * a + b) # t) (PathUnescape s')
              | _ \<Rightarrow> None)
         | _ \<Rightarrow> None)
      else map_option (\<lambda>t. c # t) (PathUnescape s))"

definition attachment_uri :: "string \<Rightarrow> string" where
  "attachment_uri name = ''pixie://attachment/'' @ PathEscape name"

section \<open>Prompt blocks\<close>

fun image_blocks :: "nat \<Rightarrow> ImageContent list \<Rightarrow> prompt_error + content_block list" where
  "image_blocks used [] = Inr []"
| "image_blocks used (img # images) =
     (if image_type img \<noteq> ''image''
         \<or> image_mime img \<notin> {''image/png'', ''image/jpeg'', ''image/gif'', ''image/webp''}
         \<or> \<not> canonicalBase64 (image_data img)
      then Inl MalformedImage
      else if length (image_data img) > 4718592 then Inl ImageTooLarge
      else if used + length (image_data img) > 24 * 1024 * 1024 then Inl ImagesTooLarge
      else (case image_blocks (used + length (image_data img)) images of
              Inl e \<Rightarrow> Inl e
            | Inr bs \<Rightarrow> Inr (ImageBlock (image_data img) (image_mime img) # bs)))"

fun resource_blocks :: "nat \<Rightarrow> TextResourceAttachment list \<Rightarrow> prompt_error + content_block list" where
  "resource_blocks used [] = Inr []"
| "resource_blocks used (r # rs) =
     (if \<not> validTextResourceAttachment r then Inl MalformedResource
      else if length (resource_text r) > maxTextAttachmentBytes then Inl ResourceTooLarge
      else if used + length (resource_text r) > maxTextAttachmentTotalBytes then Inl ResourcesTooLarge
      else (case resource_blocks (used + length (resource_text r)) rs of
              Inl e \<Rightarrow> Inl e
            | Inr bs \<Rightarrow>
                Inr (ResourceBlock (attachment_uri (resource_name r)) (resource_mime r) (resource_text r) # bs)))"

definition promptBlocks ::
  "string \<Rightarrow> ImageContent list \<Rightarrow> TextResourceAttachment list \<Rightarrow> prompt_error + content_block list" where
  "promptBlocks text images resources =
     (case image_blocks 0 images of
        Inl e \<Rightarrow> Inl e
      | Inr is \<Rightarrow>
          if length resources > maxTextAttachmentCount then Inl TooManyResources
          else (case resource_blocks 0 resources of
                  Inl e \<Rightarrow> Inl e
                | Inr rs \<Rightarrow> Inr (TextBlock text # is @ rs)))"

section \<open>Replayed attachments\<close>

text \<open>What \<open>url.Parse\<close> tells about an attachment's URI.\<close>

record parsed_uri =
  uri_scheme :: string
  uri_host :: string
  uri_rawQuery :: string
  uri_fragment :: string
  uri_hasUser :: bool
  uri_opaque :: string
  uri_escapedPath :: string

definition replayTextResourceMarker ::
  "(string \<Rightarrow> parsed_uri option) \<Rightarrow> (string \<times> json) list \<Rightarrow> ((string \<times> json) list \<times> nat) option" where
  "replayTextResourceMarker parse c =
     (let resource = mapValue (field c ''resource'');
          uri = textValue (field resource ''uri'');
          mimeType = textValue (field resource ''mimeType'')
      in case as_string (field resource ''text'') of
           None \<Rightarrow> None
         | Some text \<Rightarrow>
             if uri = [] then None
             else
               (case parse uri of
                  None \<Rightarrow> None
                | Some u \<Rightarrow>
                    if uri_scheme u \<noteq> ''pixie'' \<or> uri_host u \<noteq> ''attachment'' \<or> uri_rawQuery u \<noteq> []
                       \<or> uri_fragment u \<noteq> [] \<or> uri_hasUser u \<or> uri_opaque u \<noteq> []
                    then None
                    else if \<not> HasPrefix (uri_escapedPath u) ''/'' \<or> CHR ''/'' \<in> set (tl (uri_escapedPath u)) then None
                    else
                      (case PathUnescape (tl (uri_escapedPath u)) of
                         None \<Rightarrow> None
                       | Some name \<Rightarrow>
                           if name = []
                              \<or> \<not> validTextResourceAttachment \<lparr>resource_type = ''text'', resource_name = name,
                                    resource_mime = mimeType, resource_text = text\<rparr>
                              \<or> length text > maxTextAttachmentBytes \<or> uri \<noteq> attachment_uri name
                           then None
                           else Some ([(''type'', JStr ''resource''), (''name'', JStr name),
                                       (''mimeType'', JStr mimeType)], length text))))"

section \<open>Facts\<close>

lemma char_div_16: "(of_char c :: nat) div 16 < 16"
proof -
  have "(of_char c :: nat) < 16 * 16" using of_char_lt_256 [of c] by simp
  then show ?thesis by (rule less_mult_imp_div_less)
qed

lemma hex_round_trip: "list_all (\<lambda>n. unhex (upper_hex n) = Some n) [0..<16]"
  by code_simp

lemma unhex_upper_hex: "n < 16 \<Longrightarrow> unhex (upper_hex n) = Some n"
  using hex_round_trip by (simp add: list_all_iff del: upt_rec_numeral)

lemma char_halves: "char_of (16 * ((of_char c :: nat) div 16) + of_char c mod 16) = c"
proof -
  have "16 * ((of_char c :: nat) div 16) + of_char c mod 16 = of_char c" by simp
  then show ?thesis by (simp only: char_of_char)
qed

lemma PathUnescape_PathEscape: "PathUnescape (PathEscape s) = Some s"
proof (induction s)
  case (Cons c s)
  show ?case
  proof (cases "unreserved c")
    case True
    moreover have "\<not> unreserved (CHR ''%'')" by code_simp
    ultimately have "c \<noteq> CHR ''%''" by blast
    with True Cons show ?thesis by simp
  next
    case False
    from False Cons char_halves [of c] char_div_16 [of c] show ?thesis by (simp add: unhex_upper_hex)
  qed
qed simp

lemma hex_no_slash: "list_all (\<lambda>n. upper_hex n \<noteq> CHR ''/'') [0..<16]"
  by code_simp

lemma PathEscape_no_slash: "CHR ''/'' \<notin> set (PathEscape s)"
proof (induction s)
  case (Cons c s)
  have u: "\<not> unreserved (CHR ''/'')" by code_simp
  have "upper_hex (of_char c div 16) \<noteq> CHR ''/''" "upper_hex (of_char c mod 16) \<noteq> CHR ''/''"
    using char_div_16 [of c] hex_no_slash by (simp_all add: list_all_iff del: upt_rec_numeral)
  with Cons u show ?case by auto
qed simp

lemma image_blocks_Inr:
  "image_blocks used images = Inr bs \<Longrightarrow>
     bs = map (\<lambda>i. ImageBlock (image_data i) (image_mime i)) images
     \<and> used + (\<Sum>i\<leftarrow>images. length (image_data i)) \<le> max used (24 * 1024 * 1024)
     \<and> (\<forall>i \<in> set images. canonicalBase64 (image_data i) \<and> length (image_data i) \<le> 4718592)"
proof (induction used images arbitrary: bs rule: image_blocks.induct)
  case (2 used img images)
  then have ok: "image_type img = ''image''" "canonicalBase64 (image_data img)"
    "length (image_data img) \<le> 4718592" "used + length (image_data img) \<le> 24 * 1024 * 1024"
    by (auto split: if_splits)
  from "2.prems" obtain bs' where b: "image_blocks (used + length (image_data img)) images = Inr bs'"
    "bs = ImageBlock (image_data img) (image_mime img) # bs'"
    by (auto split: if_splits sum.splits)
  from "2.prems" have cond: "\<not> (image_type img \<noteq> ''image''
         \<or> image_mime img \<notin> {''image/png'', ''image/jpeg'', ''image/gif'', ''image/webp''}
         \<or> \<not> canonicalBase64 (image_data img))" by (auto split: if_splits)
  from "2.IH" [OF cond _ _ b(1)] ok b(2) show ?case by auto
qed simp

lemma resource_blocks_Inr:
  "resource_blocks used rs = Inr bs \<Longrightarrow>
     bs = map (\<lambda>r. ResourceBlock (attachment_uri (resource_name r)) (resource_mime r) (resource_text r)) rs
     \<and> used + (\<Sum>r\<leftarrow>rs. length (resource_text r)) \<le> max used (2 * 1024 * 1024)
     \<and> (\<forall>r \<in> set rs. validTextResourceAttachment r \<and> length (resource_text r) \<le> 1024 * 1024)"
proof (induction used rs arbitrary: bs rule: resource_blocks.induct)
  case (2 used r rs)
  then have ok: "validTextResourceAttachment r" "length (resource_text r) \<le> 1024 * 1024"
    "used + length (resource_text r) \<le> 2 * 1024 * 1024"
    by (auto simp: maxTextAttachmentBytes_def maxTextAttachmentTotalBytes_def split: if_splits)
  from "2.prems" obtain bs' where b: "resource_blocks (used + length (resource_text r)) rs = Inr bs'"
    "bs = ResourceBlock (attachment_uri (resource_name r)) (resource_mime r) (resource_text r) # bs'"
    by (auto split: if_splits sum.splits)
  from "2.IH" [OF _ _ _ b(1)] ok b(2) show ?case
    by (auto simp: maxTextAttachmentBytes_def maxTextAttachmentTotalBytes_def)
qed simp

section \<open>Base64 as an encoding\<close>

definition b64_char :: "nat \<Rightarrow> char" where
  "b64_char n =
     (if n < 26 then char_of (65 + n) else if n < 52 then char_of (71 + n)
      else if n < 62 then char_of (n - 4) else if n = 62 then CHR ''+'' else CHR ''/'')"

text \<open>The standard encoding with padding, three bytes at a time.\<close>

fun b64 :: "nat list \<Rightarrow> string" where
  "b64 [] = []"
| "b64 [a] = [b64_char (a div 4), b64_char (a mod 4 * 16), CHR ''='', CHR ''='']"
| "b64 [a, b] = [b64_char (a div 4), b64_char (a mod 4 * 16 + b div 16), b64_char (b mod 16 * 4), CHR ''='']"
| "b64 (a # b # c # bs) =
     b64_char (a div 4) # b64_char (a mod 4 * 16 + b div 16) # b64_char (b mod 16 * 4 + c div 64)
     # b64_char (c mod 64) # b64 bs"

definition b64_digit :: "char \<Rightarrow> bool" where
  "b64_digit c \<longleftrightarrow> 0 \<le> base64Index c"

lemma base64Index_code:
  "base64Index c =
     (let n = (of_char c :: nat) in
      if 65 \<le> n \<and> n \<le> 90 then int n - 65 else if 97 \<le> n \<and> n \<le> 122 then int n - 71
      else if 48 \<le> n \<and> n \<le> 57 then int n + 4 else if n = 43 then 62 else if n = 47 then 63 else -1)"
proof -
  have "c = CHR ''+'' \<longleftrightarrow> (of_char c :: nat) = 43" "c = CHR ''/'' \<longleftrightarrow> (of_char c :: nat) = 47"
    by (auto intro: of_char_eqI)
  moreover have "(of_char c :: int) = int (of_char c)" by (simp only: of_nat_of_char)
  ultimately show ?thesis
    by (simp only: base64Index_def char_class_codes Let_def) (simp split: if_splits)
qed

lemma b64_char_code:
  "n < 64 \<Longrightarrow> (of_char (b64_char n) :: nat) =
     (if n < 26 then 65 + n else if n < 52 then 71 + n else if n < 62 then n - 4 else if n = 62 then 43 else 47)"
  by (simp add: b64_char_def)

lemma b64_index_char: "n < 64 \<Longrightarrow> base64Index (b64_char n) = int n"
  by (auto simp: base64Index_code b64_char_code Let_def)

lemma b64_char_digit: "n < 64 \<Longrightarrow> b64_digit (b64_char n)"
  by (simp add: b64_digit_def b64_index_char)

lemma b64_digitE:
  assumes "b64_digit c"
  obtains n where "n < 64" "c = b64_char n" "base64Index c = int n"
proof -
  let ?x = "of_char c :: nat"
  let ?n = "if 65 \<le> ?x \<and> ?x \<le> 90 then ?x - 65 else if 97 \<le> ?x \<and> ?x \<le> 122 then ?x - 71
    else if 48 \<le> ?x \<and> ?x \<le> 57 then ?x + 4 else if ?x = 43 then 62 else 63"
  have i: "base64Index c = int ?n" and x: "65 \<le> ?x \<and> ?x \<le> 90 \<or> 97 \<le> ?x \<and> ?x \<le> 122 \<or> 48 \<le> ?x \<and> ?x \<le> 57 \<or> ?x = 43 \<or> ?x = 47"
    using assms by (auto simp: b64_digit_def base64Index_code Let_def split: if_splits)
  have n: "?n < 64" by auto
  have "(of_char (b64_char ?n) :: nat) = ?x"
    unfolding b64_char_code [OF n] using x by (elim disjE) auto
  then have "b64_char ?n = c" by (rule of_char_eqI)
  with i n that show thesis by metis
qed

lemma pad_no_digit [simp]: "\<not> b64_digit (CHR ''='')"
  by code_simp

text \<open>The last group of a canonical text.\<close>

definition b64_last :: "char \<Rightarrow> char \<Rightarrow> char \<Rightarrow> char \<Rightarrow> bool" where
  "b64_last a b c d \<longleftrightarrow> b64_digit a \<and> b64_digit b \<and>
     (b64_digit c \<and> b64_digit d
      \<or> b64_digit c \<and> base64Index c mod 4 = 0 \<and> d = CHR ''=''
      \<or> base64Index b mod 16 = 0 \<and> c = CHR ''='' \<and> d = CHR ''='')"

lemma canonical_group:
  assumes "length body mod 4 = 0"
  shows "canonicalBase64 (body @ [a, b, c, d]) \<longleftrightarrow> list_all b64_digit body \<and> b64_last a b c d"
proof -
  have len: "(length body + 4) mod 4 = 0" using assms by (metis mod_add_self2)
  have nd: "list_ex (\<lambda>x. base64Index x < 0) xs \<longleftrightarrow> \<not> list_all b64_digit xs" for xs
    by (auto simp: list_ex_iff list_all_iff b64_digit_def not_le)
  consider "d \<noteq> CHR ''=''" | "d = CHR ''=''" "c \<noteq> CHR ''=''" | "d = CHR ''=''" "c = CHR ''=''" by blast
  then show ?thesis
    by cases (use len pad_no_digit in \<open>auto simp: canonicalBase64_def Let_def nd nth_append b64_last_def\<close>)
qed

lemma length_4: "length xs = 4 \<longleftrightarrow> (\<exists>a b c d. xs = [a, b, c, d])"
  by (auto simp: numeral_eq_Suc length_Suc_conv)

lemma split_last_group:
  "length v mod 4 = 0 \<Longrightarrow> v \<noteq> [] \<Longrightarrow> \<exists>body a b c d. v = body @ [a, b, c, d] \<and> length body mod 4 = 0"
proof -
  assume l: "length v mod 4 = 0" and "v \<noteq> []"
  then have ge: "4 \<le> length v" by (cases v) (auto simp: mod_eq_0_iff_dvd dest: dvd_imp_le)
  then obtain a b c d where "drop (length v - 4) v = [a, b, c, d]"
    using length_4 [of "drop (length v - 4) v"] by auto
  then have "v = take (length v - 4) v @ [a, b, c, d]" by (metis append_take_drop_id)
  moreover have "length (take (length v - 4) v) mod 4 = 0"
    using l ge by (simp add: le_mod_geq mod_if)
  ultimately show ?thesis by metis
qed

lemma canonical_length: "canonicalBase64 v \<Longrightarrow> v \<noteq> [] \<and> length v mod 4 = 0"
  by (auto simp: canonicalBase64_def split: if_splits)

lemma canonical_Cons:
  assumes "v \<noteq> []" "length v mod 4 = 0"
  shows "canonicalBase64 (a # b # c # d # v) \<longleftrightarrow>
    b64_digit a \<and> b64_digit b \<and> b64_digit c \<and> b64_digit d \<and> canonicalBase64 v"
proof -
  obtain body p q r s where v: "v = body @ [p, q, r, s]" "length body mod 4 = 0"
    using split_last_group [OF assms(2,1)] by metis
  have "length ([a, b, c, d] @ body) mod 4 = 0" using v(2) by simp
  note g = canonical_group [OF this, of p q r s] canonical_group [OF v(2), of p q r s]
  have e: "a # b # c # d # v = ([a, b, c, d] @ body) @ [p, q, r, s]" by (simp add: v(1))
  show ?thesis unfolding e g(1) unfolding v(1) g(2) by simp
qed

lemma canonical_4: "canonicalBase64 [a, b, c, d] \<longleftrightarrow> b64_last a b c d"
  using canonical_group [of "[]" a b c d] by simp

lemma b64_length: "length (b64 bs) mod 4 = 0"
  by (induction bs rule: b64.induct) simp_all

lemma b64_nonempty: "bs \<noteq> [] \<Longrightarrow> b64 bs \<noteq> []"
  by (cases bs rule: b64.cases) simp_all

lemma b64_canonical: "bs \<noteq> [] \<Longrightarrow> list_all (\<lambda>b. b < 256) bs \<Longrightarrow> canonicalBase64 (b64 bs)"
proof (induction bs rule: b64.induct)
  case (2 a)
  then have "a div 4 < 64" "a mod 4 * 16 < 64" by auto
  then show ?case by (simp add: canonical_4 b64_last_def b64_char_digit b64_index_char)
next
  case (3 a b)
  then have "a div 4 < 64" "a mod 4 * 16 + b div 16 < 64" "b mod 16 * 4 < 64" by auto
  then show ?case by (simp add: canonical_4 b64_last_def b64_char_digit b64_index_char)
next
  case (4 a b c bs)
  then have n: "a div 4 < 64" "a mod 4 * 16 + b div 16 < 64" "b mod 16 * 4 + c div 64 < 64" "c mod 64 < 64" by auto
  show ?case
  proof (cases "bs = []")
    case True
    with n show ?thesis by (simp add: canonical_4 b64_last_def b64_char_digit)
  next
    case False
    with n 4 b64_nonempty [OF False] b64_length show ?thesis by (simp add: canonical_Cons b64_char_digit)
  qed
qed simp

lemma byte_parts:
  fixes n1 n2 n3 n4 :: nat
  assumes "n1 < 64" "n2 < 64" "n3 < 64" "n4 < 64"
  shows "(n1 * 4 + n2 div 16) div 4 = n1" "(n1 * 4 + n2 div 16) mod 4 = n2 div 16"
    "(n2 mod 16 * 16 + n3 div 4) div 16 = n2 mod 16" "(n2 mod 16 * 16 + n3 div 4) mod 16 = n3 div 4"
    "(n3 mod 4 * 64 + n4) div 64 = n3 mod 4" "(n3 mod 4 * 64 + n4) mod 64 = n4"
    "n1 * 4 + n2 div 16 < 256" "n2 mod 16 * 16 + n3 div 4 < 256" "n3 mod 4 * 64 + n4 < 256"
  using assms by auto

lemma b64_last_decodes:
  assumes "b64_last a b c d"
  shows "\<exists>bs. bs \<noteq> [] \<and> list_all (\<lambda>b. b < 256) bs \<and> b64 bs = [a, b, c, d]"
proof -
  obtain n1 n2 where n: "n1 < 64" "a = b64_char n1" "n2 < 64" "b = b64_char n2" "base64Index b = int n2"
    using assms by (metis b64_last_def b64_digitE)
  consider (full) n3 n4 where "n3 < 64" "c = b64_char n3" "n4 < 64" "d = b64_char n4"
    | (two) n3 where "n3 < 64" "c = b64_char n3" "n3 mod 4 = 0" "d = CHR ''=''"
    | (one) "n2 mod 16 = 0" "c = CHR ''=''" "d = CHR ''=''"
  proof -
    from assms consider "b64_digit c" "b64_digit d" | "b64_digit c" "base64Index c mod 4 = 0" "d = CHR ''=''"
      | "base64Index b mod 16 = 0" "c = CHR ''=''" "d = CHR ''=''"
      by (auto simp: b64_last_def)
    then show thesis
    proof cases
      case 1
      from 1(1) obtain n3 where n3: "n3 < 64" "c = b64_char n3" by (rule b64_digitE)
      from 1(2) obtain n4 where "n4 < 64" "d = b64_char n4" by (rule b64_digitE)
      from full [OF n3 this] show thesis .
    next
      case 2
      from 2(1) obtain n3 where n3: "n3 < 64" "c = b64_char n3" "base64Index c = int n3" by (rule b64_digitE)
      then have "int n3 mod 4 = 0" using 2(2) by simp
      then have "n3 mod 4 = 0" by presburger
      from two [OF n3(1,2) this 2(3)] show thesis .
    next
      case 3
      then have "int n2 mod 16 = 0" using n(5) by simp
      then have "n2 mod 16 = 0" by presburger
      from one [OF this 3(2,3)] show thesis .
    qed
  qed
  then show ?thesis
  proof cases
    case (full n3 n4)
    with byte_parts [OF n(1,3) full(1,3)] n show ?thesis
      by (intro exI [of _ "[n1 * 4 + n2 div 16, n2 mod 16 * 16 + n3 div 4, n3 mod 4 * 64 + n4]"]) simp
  next
    case (two n3)
    have "n3 div 4 * 4 = n3" using two(3) by auto
    with byte_parts [OF n(1,3) two(1), of 0] n two show ?thesis
      by (intro exI [of _ "[n1 * 4 + n2 div 16, n2 mod 16 * 16 + n3 div 4]"]) simp
  next
    case one
    have "n2 div 16 * 16 = n2" using one(1) by auto
    with byte_parts [OF n(1,3), of 0 0] n one show ?thesis
      by (intro exI [of _ "[n1 * 4 + n2 div 16]"]) simp
  qed
qed

lemma canonical_decodes:
  "canonicalBase64 v \<Longrightarrow> \<exists>bs. bs \<noteq> [] \<and> list_all (\<lambda>b. b < 256) bs \<and> b64 bs = v"
proof (induction v rule: length_induct)
  case (1 v)
  obtain body a b c d where v: "v = body @ [a, b, c, d]" "length body mod 4 = 0"
    using split_last_group [of v] canonical_length [OF 1(2)] by metis
  show ?case
  proof (cases "body = []")
    case True
    with v 1(2) b64_last_decodes show ?thesis by (simp add: canonical_4)
  next
    case False
    then have "4 \<le> length body" using v(2) by (cases body) (auto simp: mod_eq_0_iff_dvd dest: dvd_imp_le)
    then have "length (take 4 body) = 4" by simp
    then obtain p q r s where "take 4 body = [p, q, r, s]" using length_4 [of "take 4 body"] by auto
    then have w: "v = p # q # r # s # (drop 4 body @ [a, b, c, d])"
      using v(1) append_take_drop_id [of 4 body] by (metis append_Cons append_Nil append_assoc)
    let ?w = "drop 4 body @ [a, b, c, d]"
    have "length ?w mod 4 = 0" using v \<open>4 \<le> length body\<close> by (simp add: le_mod_geq mod_if)
    then have dg: "b64_digit p" "b64_digit q" "b64_digit r" "b64_digit s" "canonicalBase64 ?w"
      using 1(2) canonical_Cons [of ?w p q r s] unfolding w by simp_all
    obtain n1 n2 n3 n4 where n: "n1 < 64" "p = b64_char n1" "n2 < 64" "q = b64_char n2"
      "n3 < 64" "r = b64_char n3" "n4 < 64" "s = b64_char n4"
      using dg(1-4) by (metis b64_digitE)
    have "length ?w < length v" using \<open>4 \<le> length body\<close> v(1) by simp
    then obtain bs where bs: "bs \<noteq> []" "list_all (\<lambda>b. b < 256) bs" "b64 bs = ?w"
      using 1(1) dg(5) by blast
    from byte_parts [OF n(1,3,5,7)] n bs w show ?thesis
      by (intro exI [of _ "(n1 * 4 + n2 div 16) # (n2 mod 16 * 16 + n3 div 4) # (n3 mod 4 * 64 + n4) # bs"]) simp
  qed
qed

text \<open>The base64 test accepts exactly the padded standard encodings of non-empty byte strings: every
  encoding passes, and whatever passes is the encoding of some bytes.\<close>

theorem canonicalBase64_encodings:
  "canonicalBase64 v \<longleftrightarrow> (\<exists>bs. bs \<noteq> [] \<and> list_all (\<lambda>b. b < 256) bs \<and> v = b64 bs)"
  using b64_canonical canonical_decodes by blast

text \<open>C20: A prompt that is accepted carries the text, every image and every attachment, in order and nothing
  else; images are canonical base64 of at most 4.5 MiB each and 24 MiB together, attachments are at
  most four of 1 MiB each and 2 MiB together.\<close>

theorem prompt_complete_and_bounded:
  assumes "promptBlocks text images resources = Inr blocks"
  shows "blocks = TextBlock text # map (\<lambda>i. ImageBlock (image_data i) (image_mime i)) images
      @ map (\<lambda>r. ResourceBlock (attachment_uri (resource_name r)) (resource_mime r) (resource_text r)) resources
    \<and> (\<Sum>i\<leftarrow>images. length (image_data i)) \<le> 24 * 1024 * 1024
    \<and> (\<forall>i \<in> set images. canonicalBase64 (image_data i) \<and> length (image_data i) \<le> 4718592)
    \<and> length resources \<le> 4 \<and> (\<Sum>r\<leftarrow>resources. length (resource_text r)) \<le> 2 * 1024 * 1024
    \<and> (\<forall>r \<in> set resources. validTextResourceAttachment r \<and> length (resource_text r) \<le> 1024 * 1024)"
proof -
  obtain ib rb where b: "image_blocks 0 images = Inr ib" "resource_blocks 0 resources = Inr rb"
    "length resources \<le> maxTextAttachmentCount" "blocks = TextBlock text # ib @ rb"
    using assms by (auto simp: promptBlocks_def split: sum.splits if_splits)
  with image_blocks_Inr [OF b(1)] resource_blocks_Inr [OF b(2)] show ?thesis
    by (simp add: maxTextAttachmentCount_def)
qed

definition demo_resource :: TextResourceAttachment where
  "demo_resource = \<lparr>resource_type = ''text'', resource_name = ''a b'', resource_mime = ''text/plain'', resource_text = ''x''\<rparr>"

lemma demo_resource_valid: "validTextResourceAttachment demo_resource"
  by (simp add: validTextResourceAttachment_def demo_resource_def validTextAttachmentName_def validTextAttachmentMimeType_def
      ContainsAny_def containsNUL_def valid_utf8_def rune_error_def TrimSpace_def space_seg_def is_space_def)

theorem prompt_complete_and_bounded_witness:
  "\<exists>blocks. promptBlocks ''hi'' [] [demo_resource] = Inr blocks \<and> length blocks = 2"
proof -
  have "promptBlocks ''hi'' [] [demo_resource]
      = Inr [TextBlock ''hi'', ResourceBlock (attachment_uri ''a b'') ''text/plain'' ''x'']"
    using demo_resource_valid
    by (simp add: promptBlocks_def maxTextAttachmentCount_def maxTextAttachmentBytes_def maxTextAttachmentTotalBytes_def
        demo_resource_def)
  with prompt_complete_and_bounded [OF this] show ?thesis by auto
qed

text \<open>C19: The marker of a replayed attachment is that of the attachment sent: for every valid attachment within
  the limit the transcript block gives back its name, its type and its length, whatever bytes the
  name is made of. The URI parser is only asked to split the URI the program itself builds.\<close>

theorem attachment_replay_roundtrip:
  assumes "validTextResourceAttachment r" "length (resource_text r) \<le> maxTextAttachmentBytes"
    and "parse (attachment_uri (resource_name r)) =
      Some \<lparr>uri_scheme = ''pixie'', uri_host = ''attachment'', uri_rawQuery = [], uri_fragment = [],
            uri_hasUser = False, uri_opaque = [], uri_escapedPath = ''/'' @ PathEscape (resource_name r)\<rparr>"
  shows "replayTextResourceMarker parse [(''type'', JStr ''resource''),
      (''resource'', JObj [(''uri'', JStr (attachment_uri (resource_name r))),
         (''mimeType'', JStr (resource_mime r)), (''text'', JStr (resource_text r))])]
    = Some ([(''type'', JStr ''resource''), (''name'', JStr (resource_name r)),
             (''mimeType'', JStr (resource_mime r))], length (resource_text r))"
proof -
  have "resource_type r = ''text''" "resource_name r \<noteq> []"
    using assms(1) by (auto simp: validTextResourceAttachment_def validTextAttachmentName_def split: if_splits)
  then have "\<lparr>resource_type = ''text'', resource_name = resource_name r, resource_mime = resource_mime r,
      resource_text = resource_text r\<rparr> = r" by simp
  moreover have "attachment_uri (resource_name r) \<noteq> []" by (simp add: attachment_uri_def)
  moreover have "HasPrefix (''/'' @ PathEscape (resource_name r)) ''/''" by (rule HasPrefix_append)
  ultimately show ?thesis
    using assms PathUnescape_PathEscape [of "resource_name r"] PathEscape_no_slash [of "resource_name r"]
      \<open>resource_name r \<noteq> []\<close>
    by (simp add: replayTextResourceMarker_def field_def)
qed

text \<open>The sample parser knows the sample URI.\<close>

definition demo_uri_parse :: "string \<Rightarrow> parsed_uri option" where
  "demo_uri_parse u = Some \<lparr>uri_scheme = ''pixie'', uri_host = ''attachment'', uri_rawQuery = [], uri_fragment = [],
     uri_hasUser = False, uri_opaque = [], uri_escapedPath = ''/a%20b''\<rparr>"

theorem attachment_replay_roundtrip_witness:
  "replayTextResourceMarker demo_uri_parse [(''type'', JStr ''resource''),
      (''resource'', JObj [(''uri'', JStr (attachment_uri ''a b'')), (''mimeType'', JStr ''text/plain''), (''text'', JStr ''x'')])]
   = Some ([(''type'', JStr ''resource''), (''name'', JStr ''a b''), (''mimeType'', JStr ''text/plain'')], 1)"
proof -
  have esc: "PathEscape ''a b'' = ''a%20b''" by code_simp
  have "length (resource_text demo_resource) \<le> maxTextAttachmentBytes"
    by (simp add: demo_resource_def maxTextAttachmentBytes_def)
  moreover have "demo_uri_parse (attachment_uri (resource_name demo_resource)) =
      Some \<lparr>uri_scheme = ''pixie'', uri_host = ''attachment'', uri_rawQuery = [], uri_fragment = [],
            uri_hasUser = False, uri_opaque = [], uri_escapedPath = ''/'' @ PathEscape (resource_name demo_resource)\<rparr>"
    by (simp add: demo_uri_parse_def demo_resource_def esc del: PathEscape.simps)
  ultimately show ?thesis
    using attachment_replay_roundtrip [OF demo_resource_valid, of demo_uri_parse]
    by (simp only: demo_resource_def TextResourceAttachment.simps) simp
qed

end
