(* ===== verification/QueueActions.thy ===== *)
theory QueueActions
  imports SessionQueues Attachments "HOL-Library.Multiset"
begin

text \<open>
  The operations on the queue of a chat, \<open>internal/controller/session_actions.go\<close> and the part of
  \<open>attachLocked\<close> (\<open>session_manager.go\<close>) that recovers a dispatch: queueing, editing, removing and
  retrying a follow-up, draining the queue into prompts, and settling a prompt.

  A \<open>chat\<close> is the part of \<open>sessionEntry\<close> these operations use, with the disk the queue is saved on
  and the queue projections emitted. Each operation runs under the entry's operation lock, so it is
  a function of the state; what it learns from outside (is the entry current, what does Pi's
  \<open>session/load\<close> answer, fresh identifiers) are arguments. The goroutines it starts are the later
  steps \<open>runFollowUp\<close> and \<open>settlePrompt\<close>. The parts of the entry no queue decision reads (title, model,
  options, usage, tool previews) are not in the state.
\<close>

section \<open>State\<close>

text \<open>What a prompt waits to see echoed by Pi.\<close>

record userEcho =
  echo_text :: string
  echo_offset :: nat
  echo_images :: "(string \<times> string) list"
  echo_resources :: "(string \<times> string) list"
  echo_matched :: "bool list"
  echo_resourceMatched :: "bool list"

record chat =
  projectOf :: string
  queue :: sessionQueueState
  streaming :: bool
  promptActive :: bool
  promptAcknowledged :: bool
  promptGeneration :: nat
  messages :: "json list"
  pendingEcho :: "userEcho option"
  attached :: nat
  drainScheduled :: bool
  drainRetry :: bool
  drainFailures :: nat
  settlement :: "(string \<times> string) option"
  emitted :: "SessionQueue list"
  disk :: world

text \<open>The manager as an operation sees it: the queue store, if any; whether the entry is current (manager
  open, entry registered, no lifecycle change); whether new work is admitted.\<close>

record manager =
  queues :: "queue_store option"
  current :: bool
  admits :: bool

text \<open>What attaching to Pi yields: a failure, another agent, or a connection and its replayed transcript.\<close>

datatype attach_reply = AttachFails | OtherAgent | LoadFails nat | Replays nat "json list"

type_synonym outcome = "queue_error option \<times> chat"

section \<open>Messages\<close>

text \<open>\<open>historyText\<close> of \<open>history.go\<close>: the text a transcript message stands for.\<close>

fun join_lines :: "string list \<Rightarrow> string" where
  "join_lines [] = []"
| "join_lines [x] = x"
| "join_lines (x # xs) = x @ [newline] @ join_lines xs"

definition block_parts :: "(string \<times> json) list \<Rightarrow> json \<Rightarrow> string list" where
  "block_parts message value =
     (let block = mapValue value in
      (if field block ''type'' = JStr ''text'' then [textValue (field block ''text'')] else [])
      @ (if field block ''type'' = JStr ''thinking'' \<and> field message ''role'' = JStr ''assistant''
         then [textValue (field block ''thinking'')] else []))"

definition historyText :: "(string \<times> json) list \<Rightarrow> string" where
  "historyText message =
     (case field message ''content'' of
        JStr text \<Rightarrow> text
      | blocks \<Rightarrow> TrimSpace (join_lines (concat (map (block_parts message) (arrayValue blocks)))))"

definition is_user :: "json \<Rightarrow> bool" where
  "is_user raw \<longleftrightarrow> textValue (field (mapValue raw) ''role'') = ''user''"

definition userMessageCount :: "json list \<Rightarrow> int" where
  "userMessageCount msgs = int (length (filter is_user msgs))"

text \<open>\<open>userMessageAt\<close>: the text of the \<open>wanted\<close>-th user message; a negative number finds none.\<close>

fun userMessageFrom :: "json list \<Rightarrow> int \<Rightarrow> string option" where
  "userMessageFrom [] wanted = None"
| "userMessageFrom (raw # msgs) wanted =
     (if \<not> is_user raw then userMessageFrom msgs wanted
      else if wanted = 0 then Some (historyText (mapValue raw))
      else userMessageFrom msgs (wanted - 1))"

definition userMessageAt :: "json list \<Rightarrow> int \<Rightarrow> string option" where
  "userMessageAt msgs wanted = userMessageFrom msgs wanted"

section \<open>Emitting and saving\<close>

definition emitQueueProjection :: "bool \<Rightarrow> chat \<Rightarrow> chat" where
  "emitQueueProjection includeDispatch s = s\<lparr>emitted := emitted s @ [wire (queue s) includeDispatch]\<rparr>"

definition emitQueue :: "chat \<Rightarrow> chat" where
  "emitQueue s = emitQueueProjection False s"

definition drop_retry :: "sessionQueueState \<Rightarrow> chat \<Rightarrow> chat" where
  "drop_retry q s =
     (if FollowUp q = [] \<or> Dispatch q \<noteq> None \<or> Blocked q \<noteq> None
      then s\<lparr>drainRetry := False, drainFailures := (if FollowUp q = [] then 0 else drainFailures s)\<rparr>
      else s)"

definition saveQueueLocked :: "manager \<Rightarrow> string \<Rightarrow> sessionQueueState \<Rightarrow> chat \<Rightarrow> outcome" where
  "saveQueueLocked m sid q s =
     (case (case queues m of
              None \<Rightarrow> (None, disk s)
            | Some st \<Rightarrow> Save_queue st (projectOf s) sid q (disk s)) of
        (Some e, d) \<Rightarrow> (Some e, s\<lparr>disk := d\<rparr>)
      | (None, d) \<Rightarrow> (None, drop_retry q (s\<lparr>disk := d, queue := q\<rparr>)))"

text \<open>The common end of the queue mutations: save, then publish.\<close>

definition commit :: "manager \<Rightarrow> string \<Rightarrow> sessionQueueState \<Rightarrow> chat \<Rightarrow> outcome" where
  "commit m sid q s =
     (case saveQueueLocked m sid q s of (Some e, s) \<Rightarrow> (Some e, s) | (None, s) \<Rightarrow> (None, emitQueue s))"

definition runnableFollowUpLocked :: "chat \<Rightarrow> bool" where
  "runnableFollowUpLocked s =
     (if streaming s \<or> promptActive s \<or> Blocked (queue s) \<noteq> None then False
      else (case Dispatch (queue s) of
              Some d \<Rightarrow> \<not> attempted d \<or> attached s = 0
            | None \<Rightarrow> FollowUp (queue s) \<noteq> []))"

definition admitFollowUp :: "manager \<Rightarrow> chat \<Rightarrow> bool \<times> chat" where
  "admitFollowUp m s =
     (if \<not> current m \<or> drainScheduled s \<or> \<not> runnableFollowUpLocked s then (False, s)
      else (True, s\<lparr>drainRetry := False, drainScheduled := True\<rparr>))"

text \<open>The goroutine that drains the queue is pending exactly when \<open>drainScheduled\<close> is set.\<close>

definition scheduleFollowUp :: "manager \<Rightarrow> chat \<Rightarrow> chat" where
  "scheduleFollowUp m s = snd (admitFollowUp m s)"

definition schedule_after :: "manager \<Rightarrow> outcome \<Rightarrow> outcome" where
  "schedule_after m r = (case r of (None, s) \<Rightarrow> (None, scheduleFollowUp m s) | (Some e, s) \<Rightarrow> (Some e, s))"

text \<open>The identity check every mutation starts with; a duplicate only republishes the queue.\<close>

definition once :: "queueOperation \<Rightarrow> chat \<Rightarrow> outcome \<Rightarrow> outcome" where
  "once identity s k =
     (case operation (queue s) identity of
        Inl e \<Rightarrow> (Some e, s)
      | Inr True \<Rightarrow> (None, emitQueueProjection (\<not> promptActive s) s)
      | Inr False \<Rightarrow> k)"

section \<open>Queue, edit, remove\<close>

definition Queue ::
  "manager \<Rightarrow> string \<Rightarrow> queueOperation \<Rightarrow> string \<Rightarrow> string \<Rightarrow> string \<Rightarrow> chat \<Rightarrow> outcome" where
  "Queue m sid identity text new_id new_rev s =
     (case queuedText text of
        None \<Rightarrow> (Some InvalidMessage, s)
      | Some text \<Rightarrow>
          once identity s
            (if queuedFollowUpCount (queue s) \<ge> maxQueuedMessages then (Some QueueFull, s)
             else
               (let q = remember identity (queue s);
                    q = q\<lparr>FollowUp := FollowUp q @ [\<lparr>item_id = new_id, item_text = text\<rparr>], Revision := new_rev\<rparr>
                in schedule_after m (commit m sid q s))))"

datatype lane = SteeringLane | FollowUpLane | OtherLane

text \<open>The edits of the \<open>followUp\<close> lane: the shown dispatch and the blocked message come before the
  waiting ones.\<close>

definition edit_waiting :: "int \<Rightarrow> string \<Rightarrow> sessionQueueState \<Rightarrow> sessionQueueState option" where
  "edit_waiting index text q =
     (if index < 0 \<or> index \<ge> int (length (FollowUp q)) then None
      else Some (q\<lparr>FollowUp := (FollowUp q)[nat index := (FollowUp q ! nat index)\<lparr>item_text := text\<rparr>]\<rparr>))"

definition edit_blocked :: "int \<Rightarrow> string \<Rightarrow> sessionQueueState \<Rightarrow> sessionQueueState option" where
  "edit_blocked index text q =
     (case Blocked q of
        Some b \<Rightarrow> if index = 0 then Some (q\<lparr>Blocked := Some (b\<lparr>item_text := text\<rparr>)\<rparr>)
                  else edit_waiting (index - 1) text q
      | None \<Rightarrow> edit_waiting index text q)"

definition edit_followUp :: "bool \<Rightarrow> int \<Rightarrow> string \<Rightarrow> sessionQueueState \<Rightarrow> sessionQueueState option" where
  "edit_followUp active index text q =
     (case (if active then None else Dispatch q) of
        Some d \<Rightarrow> if index = 0 then Some (q\<lparr>Dispatch := Some (d\<lparr>dispatch_text := text\<rparr>)\<rparr>)
                  else edit_blocked (index - 1) text q
      | None \<Rightarrow> edit_blocked index text q)"

definition edit_steering :: "int \<Rightarrow> string \<Rightarrow> sessionQueueState \<Rightarrow> sessionQueueState option" where
  "edit_steering index text q =
     (if index < 0 \<or> index \<ge> int (length (Steering q)) then None
      else Some (q\<lparr>Steering := (Steering q)[nat index := text]\<rparr>))"

definition EditQueue ::
  "manager \<Rightarrow> string \<Rightarrow> queueOperation \<Rightarrow> lane \<Rightarrow> int \<Rightarrow> string \<Rightarrow> string \<Rightarrow> string \<Rightarrow> chat \<Rightarrow> outcome" where
  "EditQueue m sid identity ln index text revision new_rev s =
     once identity s
       (if revision = [] then (Some ReloadRequired, s)
        else if revision \<noteq> Revision (queue s) then (Some QueueChanged, s)
        else
          (case queuedText text of
             None \<Rightarrow> (Some InvalidMessage, s)
           | Some text \<Rightarrow>
               if ln = OtherLane then (Some UnknownLane, s)
               else
                 (case (if ln = SteeringLane then edit_steering index text (queue s)
                        else edit_followUp (promptActive s) index text (queue s)) of
                    None \<Rightarrow> (Some NotFound, s)
                  | Some q \<Rightarrow> commit m sid ((remember identity q)\<lparr>Revision := new_rev\<rparr>) s)))"

text \<open>Removal tells whether a dispatch or a block went, so that the queue may run again.\<close>

definition remove_waiting :: "int \<Rightarrow> sessionQueueState \<Rightarrow> (sessionQueueState \<times> bool) option" where
  "remove_waiting index q =
     (if index < 0 \<or> index \<ge> int (length (FollowUp q)) then None
      else Some (q\<lparr>FollowUp := remove_nth (nat index) (FollowUp q)\<rparr>, False))"

definition remove_blocked :: "int \<Rightarrow> sessionQueueState \<Rightarrow> (sessionQueueState \<times> bool) option" where
  "remove_blocked index q =
     (if Blocked q \<noteq> None then
        (if index = 0 then Some (q\<lparr>Blocked := None\<rparr>, True) else remove_waiting (index - 1) q)
      else remove_waiting index q)"

definition remove_followUp :: "bool \<Rightarrow> int \<Rightarrow> sessionQueueState \<Rightarrow> (sessionQueueState \<times> bool) option" where
  "remove_followUp active index q =
     (if Dispatch q \<noteq> None \<and> \<not> active then
        (if index = 0 then Some (q\<lparr>Dispatch := None\<rparr>, True) else remove_blocked (index - 1) q)
      else remove_blocked index q)"

definition remove_steering :: "int \<Rightarrow> sessionQueueState \<Rightarrow> (sessionQueueState \<times> bool) option" where
  "remove_steering index q =
     (if index < 0 \<or> index \<ge> int (length (Steering q)) then None
      else Some (q\<lparr>Steering := remove_nth (nat index) (Steering q)\<rparr>, False))"

definition RemoveQueue ::
  "manager \<Rightarrow> string \<Rightarrow> queueOperation \<Rightarrow> lane \<Rightarrow> int \<Rightarrow> string \<Rightarrow> string \<Rightarrow> chat \<Rightarrow> outcome" where
  "RemoveQueue m sid identity ln index revision new_rev s =
     once identity s
       (if revision = [] then (Some ReloadRequired, s)
        else if revision \<noteq> Revision (queue s) then (Some QueueChanged, s)
        else if ln = OtherLane then (Some UnknownLane, s)
        else
          (case (if ln = SteeringLane then remove_steering index (queue s)
                 else remove_followUp (promptActive s) index (queue s)) of
             None \<Rightarrow> (Some NotFound, s)
           | Some (q, unblocked) \<Rightarrow>
               (let r = commit m sid ((remember identity q)\<lparr>Revision := new_rev\<rparr>) s in
                if unblocked then schedule_after m r else r)))"

section \<open>Attaching and recovering a dispatch\<close>

text \<open>\<open>recoverQueuedDispatchLocked\<close>: what a dispatch becomes, given the replayed transcript. An error
  settlement is recorded when it is blocked.\<close>

datatype recovery = Delivered | Requeue | Block

definition recovery_of :: "queuedDispatch \<Rightarrow> json list \<Rightarrow> recovery" where
  "recovery_of d msgs =
     (if userMessageAt msgs (previousUserMessages d) = Some (dispatch_text d) then Delivered
      else if \<not> attempted d \<and> userMessageCount msgs = previousUserMessages d then Requeue
      else Block)"

definition recovered_queue :: "queuedDispatch \<Rightarrow> recovery \<Rightarrow> string \<Rightarrow> sessionQueueState \<Rightarrow> sessionQueueState" where
  "recovered_queue d rec new_rev q =
     (let q = q\<lparr>Dispatch := None, Revision := new_rev\<rparr> in
      case rec of
        Delivered \<Rightarrow> q
      | Requeue \<Rightarrow> q\<lparr>FollowUp := dispatch_item d # FollowUp q\<rparr>
      | Block \<Rightarrow> q\<lparr>Blocked := Some (dispatch_item d)\<rparr>)"

definition uncertain :: "string \<times> string" where
  "uncertain = (''error'', ''A queued follow-up may already have reached the Pi agent before the controller restarted. Check the transcript, then retry or remove it.'')"

definition recoverQueuedDispatchLocked :: "manager \<Rightarrow> string \<Rightarrow> string \<Rightarrow> chat \<Rightarrow> outcome" where
  "recoverQueuedDispatchLocked m sid new_rev s =
     (case Dispatch (queue s) of
        None \<Rightarrow> (None, s)
      | Some d \<Rightarrow>
          (let rec = recovery_of d (messages s);
               s = (if rec = Block then s\<lparr>settlement := Some uncertain\<rparr> else s)
           in saveQueueLocked m sid (recovered_queue d rec new_rev (queue s)) s))"

text \<open>
  \<open>attachLocked\<close>, as far as the queue is concerned: nothing to do on the current connection; otherwise
  the transcript replayed by Pi replaces the projection and the dispatch is recovered on it. The
  recovery runs on the replay's own entry, so a failure leaves the projection as it was (the disk
  may have changed), and the timers of the entry stay.
\<close>

definition replay_entry :: "json list \<Rightarrow> chat \<Rightarrow> chat" where
  "replay_entry transcript s =
     s\<lparr>messages := transcript, streaming := False, settlement := None, drainRetry := False, drainFailures := 0\<rparr>"

definition replay_chat :: "manager \<Rightarrow> string \<Rightarrow> nat \<Rightarrow> json list \<Rightarrow> string \<Rightarrow> chat \<Rightarrow> outcome" where
  "replay_chat m sid generation transcript new_rev s =
     (let recovered = Dispatch (queue s) \<noteq> None in
      case recoverQueuedDispatchLocked m sid new_rev (replay_entry transcript s) of
        (Some e, r) \<Rightarrow> (Some e, s\<lparr>disk := disk r\<rparr>)
      | (None, r) \<Rightarrow>
          (let s = s\<lparr>messages := messages r, streaming := streaming r, settlement := settlement r,
                     queue := queue r, pendingEcho := None, attached := generation, disk := disk r\<rparr>;
               s = (if recovered then emitQueueProjection (\<not> promptActive s) s else s)
           in (None, scheduleFollowUp m s)))"

definition attachLocked :: "manager \<Rightarrow> string \<Rightarrow> attach_reply \<Rightarrow> string \<Rightarrow> chat \<Rightarrow> outcome" where
  "attachLocked m sid reply new_rev s =
     (case reply of
        AttachFails \<Rightarrow> (Some AttachError, s)
      | OtherAgent \<Rightarrow> (Some AgentIdentityChanged, s\<lparr>drainRetry := False\<rparr>)
      | LoadFails generation \<Rightarrow>
          if attached s = generation then (None, scheduleFollowUp m s) else (Some AttachError, s)
      | Replays generation transcript \<Rightarrow>
          if attached s = generation then (None, scheduleFollowUp m s)
          else replay_chat m sid generation transcript new_rev s)"

section \<open>Retry\<close>

definition retry_item :: "bool \<Rightarrow> sessionQueueState \<Rightarrow> (queuedFollowUp \<times> sessionQueueState) option" where
  "retry_item active q =
     (case Dispatch q of
        Some d \<Rightarrow>
          if attempted d \<and> \<not> active then Some (dispatch_item d, q\<lparr>Dispatch := None\<rparr>)
          else map_option (\<lambda>b. (b, q\<lparr>Blocked := None\<rparr>)) (Blocked q)
      | None \<Rightarrow> map_option (\<lambda>b. (b, q\<lparr>Blocked := None\<rparr>)) (Blocked q))"

definition requireQueueReplayLocked :: "chat \<Rightarrow> chat" where
  "requireQueueReplayLocked s = s\<lparr>attached := 0\<rparr>"

definition retry_attached ::
  "manager \<Rightarrow> string \<Rightarrow> queueOperation \<Rightarrow> string \<Rightarrow> string \<Rightarrow> string \<Rightarrow> chat \<Rightarrow> outcome" where
  "retry_attached m sid identity revision retry_id new_rev s =
     (if revision \<noteq> Revision (queue s)
         \<and> (case Blocked (queue s) of None \<Rightarrow> True | Some b \<Rightarrow> item_id b \<noteq> retry_id)
      then saveQueueLocked m sid (remember identity (queue s)) s
      else
        (case retry_item (promptActive s) (queue s) of
           None \<Rightarrow> (Some NotBlocked, s)
         | Some (item, q) \<Rightarrow>
             (let q = remember identity (q\<lparr>FollowUp := item # FollowUp q\<rparr>)
              in schedule_after m (commit m sid (q\<lparr>Revision := new_rev\<rparr>) s))))"

text \<open>\<open>rev1\<close> is the revision a recovery during the attachment makes, \<open>rev2\<close> that of the retry.\<close>

definition RetryQueue ::
  "manager \<Rightarrow> string \<Rightarrow> queueOperation \<Rightarrow> lane \<Rightarrow> int \<Rightarrow> string \<Rightarrow> attach_reply \<Rightarrow> string \<Rightarrow> string \<Rightarrow> chat \<Rightarrow> outcome" where
  "RetryQueue m sid identity ln index revision reply rev1 rev2 s =
     once identity s
       (if revision = [] \<or> revision \<noteq> Revision (queue s) then (Some QueueChanged, s)
        else if ln \<noteq> FollowUpLane \<or> index \<noteq> 0 then (Some NotBlocked, s)
        else
          (let attempt = (case Dispatch (queue s) of Some d \<Rightarrow> attempted d \<and> \<not> promptActive s | None \<Rightarrow> False);
               retry_id = (if attempt then dispatch_id (the (Dispatch (queue s)))
                           else (case Blocked (queue s) of Some b \<Rightarrow> item_id b | None \<Rightarrow> []));
               s = (if attempt then requireQueueReplayLocked s else s)
           in if retry_id = [] then (Some NotBlocked, s)
              else
                (case attachLocked m sid reply rev1 s of
                   (Some e, s) \<Rightarrow> (Some e, s)
                 | (None, s) \<Rightarrow> retry_attached m sid identity revision retry_id rev2 s)))"

section \<open>Prompts\<close>

text \<open>The user message a prompt adds to the transcript.\<close>

definition image_block_json :: "ImageContent \<Rightarrow> json" where
  "image_block_json i =
     JObj [(''type'', JStr ''image''), (''data'', JStr (image_data i)), (''mimeType'', JStr (image_mime i))]"

definition resource_marker_json :: "TextResourceAttachment \<Rightarrow> json" where
  "resource_marker_json r =
     JObj [(''type'', JStr ''resource''), (''name'', JStr (resource_name r)), (''mimeType'', JStr (resource_mime r))]"

definition prompt_content :: "string \<Rightarrow> ImageContent list \<Rightarrow> TextResourceAttachment list \<Rightarrow> json" where
  "prompt_content text images resources =
     (if images = [] \<and> resources = [] then JStr text
      else JArr (JObj [(''type'', JStr ''text''), (''text'', JStr text)] # map image_block_json images
                 @ map resource_marker_json resources))"

definition user_message :: "json \<Rightarrow> json" where
  "user_message c = JObj [(''role'', JStr ''user''), (''content'', c)]"

text \<open>The state in which a prompt is under way; its goroutine will settle \<open>promptGeneration\<close>.\<close>

definition begin_prompt ::
  "string \<Rightarrow> ImageContent list \<Rightarrow> TextResourceAttachment list \<Rightarrow> chat \<Rightarrow> chat" where
  "begin_prompt text images resources s =
     s\<lparr>messages := messages s @ [user_message (prompt_content text images resources)],
       pendingEcho := Some \<lparr>echo_text = text, echo_offset = 0,
          echo_images = map (\<lambda>i. (image_data i, image_mime i)) images,
          echo_resources = map (\<lambda>r. (resource_name r, resource_mime r)) resources,
          echo_matched = replicate (length images) False,
          echo_resourceMatched = replicate (length resources) False\<rparr>,
       promptAcknowledged := False, streaming := True, promptActive := True,
       promptGeneration := promptGeneration s + 1\<rparr>"

text \<open>An empty \<open>queueID\<close> is a prompt of the user, otherwise the dispatch with that id is being delivered:
  it is marked attempted on disk before anything is sent.\<close>

definition startPromptLocked ::
  "manager \<Rightarrow> string \<Rightarrow> string \<Rightarrow> ImageContent list \<Rightarrow> TextResourceAttachment list \<Rightarrow> string \<Rightarrow> chat \<Rightarrow> outcome" where
  "startPromptLocked m sid text images resources queueID s =
     (case promptBlocks text images resources of
        Inl e \<Rightarrow> (Some MalformedPrompt, s)
      | Inr blocks \<Rightarrow>
          if \<not> admits m then (Some WorkRefused, s)
          else if queueID = [] then (None, begin_prompt text images resources s)
          else
            (case Dispatch (queue s) of
               None \<Rightarrow> (Some DispatchChanged, s)
             | Some d \<Rightarrow>
                 if dispatch_id d \<noteq> queueID then (Some DispatchChanged, s)
                 else
                   (case saveQueueLocked m sid ((queue s)\<lparr>Dispatch := Some (d\<lparr>attempted := True\<rparr>)\<rparr>) s of
                      (Some e, s) \<Rightarrow> (Some e, s)
                    | (None, s) \<Rightarrow>
                        (None, emitQueueProjection False (begin_prompt text images resources s)))))"

definition Prompt ::
  "manager \<Rightarrow> string \<Rightarrow> string \<Rightarrow> ImageContent list \<Rightarrow> TextResourceAttachment list \<Rightarrow> attach_reply \<Rightarrow> string \<Rightarrow>
     (bool \<times> bool) option \<Rightarrow> chat \<Rightarrow> outcome" where
  "Prompt m sid text images resources reply rev1 profile s =
     (case attachLocked m sid reply rev1 s of
        (Some e, s) \<Rightarrow> (Some e, s)
      | (None, s) \<Rightarrow>
          if (images \<noteq> [] \<or> resources \<noteq> []) \<and>
             (case profile of None \<Rightarrow> True | Some (images_ok, context_ok) \<Rightarrow>
                images \<noteq> [] \<and> \<not> images_ok \<or> resources \<noteq> [] \<and> \<not> context_ok)
          then (Some AttachError, s)
          else if streaming s \<or> promptActive s \<or> queuedFollowUpCount (queue s) > 0 then (Some Busy, s)
          else startPromptLocked m sid text images resources [] s)"

definition settleQueuedPromptLocked :: "manager \<Rightarrow> string \<Rightarrow> string \<Rightarrow> bool \<Rightarrow> bool \<Rightarrow> string \<Rightarrow> chat \<Rightarrow> outcome" where
  "settleQueuedPromptLocked m sid queueID delivered failed new_rev s =
     (case Dispatch (queue s) of
        None \<Rightarrow> (None, s)
      | Some d \<Rightarrow>
          if queueID = [] \<or> dispatch_id d \<noteq> queueID then (None, s)
          else
            (let q = (queue s)\<lparr>Dispatch := None\<rparr>;
                 q = (if failed \<and> \<not> delivered then q\<lparr>Blocked := Some (dispatch_item d), Revision := new_rev\<rparr> else q)
             in case saveQueueLocked m sid q s of
                  (Some e, s) \<Rightarrow> (Some e, emitQueueProjection True s)
                | (None, s) \<Rightarrow> (None, emitQueue s)))"

text \<open>The end of a prompt's goroutine: Pi answered with a stop reason, or with an error (\<open>None\<close>). A later
  prompt makes it void.\<close>

definition settlePrompt :: "manager \<Rightarrow> string \<Rightarrow> string \<Rightarrow> nat \<Rightarrow> string option \<Rightarrow> string \<Rightarrow> string \<Rightarrow> chat \<Rightarrow> chat" where
  "settlePrompt m sid queueID generation response prompt_error new_rev s =
     (if \<not> current m \<or> promptGeneration s \<noteq> generation then s
      else
        (let acknowledged = promptAcknowledged s;
             s = s\<lparr>promptActive := False, streaming := False, promptAcknowledged := False\<rparr>;
             (queue_error, s) =
               settleQueuedPromptLocked m sid queueID (response \<noteq> None \<or> acknowledged) (response = None) new_rev s;
             s = (case response of
                    Some stop \<Rightarrow>
                      if queue_error = None
                      then s\<lparr>settlement := Some (if stop = [] then ''complete'' else stop, [])\<rparr>
                      else s\<lparr>settlement := Some (''error'', ''queue'')\<rparr>
                  | None \<Rightarrow> s\<lparr>settlement := Some (''error'', prompt_error)\<rparr>)
         in scheduleFollowUp m s))"

definition restoreQueuedDispatch :: "manager \<Rightarrow> string \<Rightarrow> string \<Rightarrow> string \<Rightarrow> chat \<Rightarrow> outcome" where
  "restoreQueuedDispatch m sid queueID new_rev s =
     (case Dispatch (queue s) of
        None \<Rightarrow> (None, s)
      | Some d \<Rightarrow>
          if dispatch_id d \<noteq> queueID then (None, s)
          else
            (case saveQueueLocked m sid
                    ((queue s)\<lparr>Dispatch := None, FollowUp := dispatch_item d # FollowUp (queue s), Revision := new_rev\<rparr>) s of
               (Some e, s) \<Rightarrow> (Some e, emitQueueProjection True s)
             | (None, s) \<Rightarrow> (None, emitQueue s)))"

section \<open>Draining\<close>

text \<open>The stages of \<open>drainFollowUp\<close>: replay for an attempted dispatch, take a prepared dispatch back,
  attach, move the first follow-up into the dispatch, and start its prompt.\<close>

definition take_back :: "manager \<Rightarrow> string \<Rightarrow> string \<Rightarrow> chat \<Rightarrow> outcome" where
  "take_back m sid new_rev s =
     (case Dispatch (queue s) of
        Some d \<Rightarrow>
          if attempted d then (None, s)
          else commit m sid
            ((queue s)\<lparr>Dispatch := None, FollowUp := dispatch_item d # FollowUp (queue s), Revision := new_rev\<rparr>) s
      | None \<Rightarrow> (None, s))"

definition ready :: "chat \<Rightarrow> bool" where
  "ready s \<longleftrightarrow> \<not> streaming s \<and> \<not> promptActive s \<and> Dispatch (queue s) = None \<and> Blocked (queue s) = None
     \<and> FollowUp (queue s) \<noteq> []"

definition dispatch_first :: "manager \<Rightarrow> string \<Rightarrow> string \<Rightarrow> string \<Rightarrow> chat \<Rightarrow> outcome" where
  "dispatch_first m sid rev1 rev2 s =
     (let item = hd (FollowUp (queue s));
          q = (queue s)\<lparr>FollowUp := tl (FollowUp (queue s)),
                Dispatch := Some \<lparr>dispatch_id = item_id item, dispatch_text = item_text item,
                  previousUserMessages = userMessageCount (messages s), attempted = False\<rparr>,
                Revision := rev1\<rparr>
      in case commit m sid q s of
           (Some e, s) \<Rightarrow> (Some e, s)
         | (None, s) \<Rightarrow>
             (case startPromptLocked m sid (item_text item) [] [] (item_id item) s of
                (None, s) \<Rightarrow> (None, s)
              | (Some e, s) \<Rightarrow>
                  (case restoreQueuedDispatch m sid (item_id item) rev2 s of
                     (None, s) \<Rightarrow> (Some e, s) | (Some e', s) \<Rightarrow> (Some e', s))))"

definition drainFollowUp ::
  "manager \<Rightarrow> string \<Rightarrow> attach_reply \<Rightarrow> attach_reply \<Rightarrow> string list \<Rightarrow> chat \<Rightarrow> outcome" where
  "drainFollowUp m sid reply1 reply2 revs s =
     (if \<not> runnableFollowUpLocked s then (None, s)
      else
        (let needs_replay = (case Dispatch (queue s) of None \<Rightarrow> False | Some d \<Rightarrow> attempted d) in
         case (if needs_replay then attachLocked m sid reply1 (revs ! 0) s else (None, s)) of
           (Some e, s) \<Rightarrow> (Some e, s)
         | (None, s) \<Rightarrow>
             (case take_back m sid (revs ! 1) s of
                (Some e, s) \<Rightarrow> (Some e, s)
              | (None, s) \<Rightarrow>
                  if \<not> ready s then (None, s)
                  else
                    (case attachLocked m sid reply2 (revs ! 2) s of
                       (Some e, s) \<Rightarrow> (Some e, s)
                     | (None, s) \<Rightarrow>
                         if \<not> ready s then (None, s)
                         else dispatch_first m sid (revs ! 3) (revs ! 4) s))))"

definition retryFollowUp :: "manager \<Rightarrow> chat \<Rightarrow> chat" where
  "retryFollowUp m s =
     (if \<not> current m \<or> \<not> runnableFollowUpLocked s \<or> drainRetry s then s
      else s\<lparr>drainFailures := (if drainFailures s < 7 then drainFailures s + 1 else drainFailures s),
             drainRetry := True\<rparr>)"

text \<open>The delay of the timer, in milliseconds.\<close>

fun jitter_from :: "nat \<Rightarrow> string \<Rightarrow> nat" where
  "jitter_from v [] = v"
| "jitter_from v (c # cs) = jitter_from ((v * 33 + of_char c) mod 250) cs"

definition followUpRetryJitter :: "string \<Rightarrow> nat" where
  "followUpRetryJitter sid = jitter_from 0 sid"

definition retry_delay :: "string \<Rightarrow> nat \<Rightarrow> nat" where
  "retry_delay sid failures = 500 * 2 ^ (failures - 1) + followUpRetryJitter sid"

definition runFollowUp ::
  "manager \<Rightarrow> string \<Rightarrow> attach_reply \<Rightarrow> attach_reply \<Rightarrow> string list \<Rightarrow> chat \<Rightarrow> chat" where
  "runFollowUp m sid reply1 reply2 revs s =
     (if \<not> current m then s\<lparr>drainScheduled := False\<rparr>
      else
        (case drainFollowUp m sid reply1 reply2 revs s of
           (e, s) \<Rightarrow>
             (let retry = (e \<noteq> None \<and> e \<noteq> Some AgentIdentityChanged);
                  s = s\<lparr>drainScheduled := False\<rparr>;
                  s = (if retry then s else s\<lparr>drainFailures := 0\<rparr>)
              in if retry then retryFollowUp m s else s)))"

text \<open>The timer fires: the flag stays until the admission clears it.\<close>

definition retryTimer :: "manager \<Rightarrow> chat \<Rightarrow> chat" where
  "retryTimer m s = (if drainRetry s then scheduleFollowUp m s else s)"

section \<open>What the building blocks change\<close>

lemma emit_fields [simp]:
  "queue (emitQueueProjection b s) = queue s" "disk (emitQueueProjection b s) = disk s"
  "streaming (emitQueueProjection b s) = streaming s" "promptActive (emitQueueProjection b s) = promptActive s"
  "messages (emitQueueProjection b s) = messages s" "attached (emitQueueProjection b s) = attached s"
  "projectOf (emitQueueProjection b s) = projectOf s"
  "queue (emitQueue s) = queue s" "disk (emitQueue s) = disk s" "promptActive (emitQueue s) = promptActive s"
  "messages (emitQueue s) = messages s" "streaming (emitQueue s) = streaming s" "attached (emitQueue s) = attached s"
  "projectOf (emitQueue s) = projectOf s"
  by (simp_all add: emitQueueProjection_def emitQueue_def)

lemma schedule_fields [simp]:
  "queue (scheduleFollowUp m s) = queue s" "disk (scheduleFollowUp m s) = disk s"
  "streaming (scheduleFollowUp m s) = streaming s" "promptActive (scheduleFollowUp m s) = promptActive s"
  "messages (scheduleFollowUp m s) = messages s" "attached (scheduleFollowUp m s) = attached s"
  "projectOf (scheduleFollowUp m s) = projectOf s"
  by (simp_all add: scheduleFollowUp_def admitFollowUp_def)

lemma begin_prompt_fields [simp]:
  "queue (begin_prompt t i r s) = queue s" "disk (begin_prompt t i r s) = disk s"
  "promptActive (begin_prompt t i r s)" "projectOf (begin_prompt t i r s) = projectOf s"
  by (simp_all add: begin_prompt_def)

lemma drop_retry_fields [simp]:
  "queue (drop_retry q s) = queue s" "disk (drop_retry q s) = disk s"
  "streaming (drop_retry q s) = streaming s" "promptActive (drop_retry q s) = promptActive s"
  "messages (drop_retry q s) = messages s" "attached (drop_retry q s) = attached s"
  "projectOf (drop_retry q s) = projectOf s"
  by (simp_all add: drop_retry_def)

text \<open>A save succeeds and installs the queue, or fails and leaves it; the rest of the chat is the same.\<close>

definition same_chat :: "chat \<Rightarrow> chat \<Rightarrow> bool" where
  "same_chat s s' \<longleftrightarrow> streaming s' = streaming s \<and> promptActive s' = promptActive s \<and> messages s' = messages s
     \<and> attached s' = attached s \<and> projectOf s' = projectOf s"

lemma save_result:
  assumes "saveQueueLocked m sid q s = (e, s')"
  shows "queue s' = (if e = None then q else queue s) \<and> same_chat s s'"
  using assms by (auto simp: saveQueueLocked_def same_chat_def split: prod.splits option.splits)

lemma commit_result:
  assumes "commit m sid q s = (e, s')"
  shows "queue s' = (if e = None then q else queue s) \<and> same_chat s s'"
proof -
  obtain e1 s1 where r: "saveQueueLocked m sid q s = (e1, s1)" by force
  from save_result [OF r] assms r show ?thesis by (cases e1) (auto simp: commit_def same_chat_def)
qed

lemma schedule_after_result:
  "schedule_after m r = (e, s') \<Longrightarrow> e = fst r \<and> queue s' = queue (snd r) \<and> same_chat (snd r) s'"
  by (cases r; cases "fst r") (auto simp: schedule_after_def same_chat_def)

lemma once_result:
  "once identity s k = (e, s') \<Longrightarrow>
     queue s' = queue s \<and> same_chat s s' \<or> k = (e, s') \<and> operation (queue s) identity = Inr False"
  by (cases "operation (queue s) identity") (auto simp: once_def same_chat_def split: bool.splits)

lemma same_chat_refl [simp]: "same_chat s s"
  by (simp add: same_chat_def)

lemma same_chat_trans: "same_chat s1 s2 \<Longrightarrow> same_chat s2 s3 \<Longrightarrow> same_chat s1 s3"
  by (simp add: same_chat_def)

section \<open>What each operation makes of the queue\<close>

lemma remember_fields [simp]:
  "Revision (remember i q) = Revision q" "Steering (remember i q) = Steering q" "FollowUp (remember i q) = FollowUp q"
  "Dispatch (remember i q) = Dispatch q" "Blocked (remember i q) = Blocked q"
  by (simp_all add: remember_def)

lemma queue_items_cong:
  "Dispatch q' = Dispatch q \<Longrightarrow> Blocked q' = Blocked q \<Longrightarrow> FollowUp q' = FollowUp q \<Longrightarrow> queue_items q' = queue_items q"
  by (simp add: queue_items_def)

lemma queue_items_remember [simp]:
  "queue_items (remember i q) = queue_items q"
  "queue_items (q\<lparr>Revision := r\<rparr>) = queue_items q"
  "queue_items (q\<lparr>Steering := t\<rparr>) = queue_items q"
  by (simp_all add: queue_items_def)

lemma Queue_result:
  assumes "Queue m sid identity text new_id new_rev s = (e, s')"
  shows "queue s' = queue s
    \<or> (\<exists>t. queuedText text = Some t \<and> queuedFollowUpCount (queue s) < 20 \<and> e = None
         \<and> queue s' = (remember identity (queue s))\<lparr>
              FollowUp := FollowUp (queue s) @ [\<lparr>item_id = new_id, item_text = t\<rparr>], Revision := new_rev\<rparr>)"
proof (cases "queuedText text")
  case None
  with assms show ?thesis by (simp add: Queue_def)
next
  case (Some t)
  let ?q = "(remember identity (queue s))\<lparr>
      FollowUp := FollowUp (queue s) @ [\<lparr>item_id = new_id, item_text = t\<rparr>], Revision := new_rev\<rparr>"
  obtain e1 s1 where c: "commit m sid ?q s = (e1, s1)" by force
  note a = assms [unfolded Queue_def Some option.case]
  from once_result [OF a] show ?thesis
    using commit_result [OF c] Some c
    by (elim disjE) (auto simp: Let_def maxQueuedMessages_def split: if_splits dest!: schedule_after_result)
qed

lemma Edit_result:
  assumes "EditQueue m sid identity ln index text revision new_rev s = (e, s')"
  shows "queue s' = queue s
    \<or> (\<exists>t q. queuedText text = Some t \<and> e = None
         \<and> (if ln = SteeringLane then edit_steering index t (queue s)
            else edit_followUp (promptActive s) index t (queue s)) = Some q
         \<and> queue s' = (remember identity q)\<lparr>Revision := new_rev\<rparr>)"
proof -
  from once_result [OF assms [unfolded EditQueue_def]] show ?thesis
    by (elim disjE) (auto split: if_splits option.splits dest!: commit_result)
qed

lemma Remove_result:
  assumes "RemoveQueue m sid identity ln index revision new_rev s = (e, s')"
  shows "queue s' = queue s
    \<or> (\<exists>q u. e = None
         \<and> (if ln = SteeringLane then remove_steering index (queue s)
            else remove_followUp (promptActive s) index (queue s)) = Some (q, u)
         \<and> queue s' = (remember identity q)\<lparr>Revision := new_rev\<rparr>)"
proof (cases "(if ln = SteeringLane then remove_steering index (queue s)
            else remove_followUp (promptActive s) index (queue s))")
  case None
  from once_result [OF assms [unfolded RemoveQueue_def None]] show ?thesis
    by (elim disjE) (auto split: if_splits)
next
  case (Some qu)
  obtain q u where qu: "qu = (q, u)" by force
  obtain e1 s1 where c: "commit m sid ((remember identity q)\<lparr>Revision := new_rev\<rparr>) s = (e1, s1)" by force
  from once_result [OF assms [unfolded RemoveQueue_def Some]] show ?thesis
    using commit_result [OF c] Some qu c
    by (elim disjE) (auto simp: Let_def split: if_splits dest!: schedule_after_result)
qed

lemma recover_result:
  assumes "recoverQueuedDispatchLocked m sid new_rev s = (e, s')"
  shows "queue s' = queue s
    \<or> (\<exists>d. Dispatch (queue s) = Some d
         \<and> queue s' = recovered_queue d (recovery_of d (messages s)) new_rev (queue s))"
  using assms
  by (auto simp: recoverQueuedDispatchLocked_def Let_def split: option.splits if_splits dest!: save_result)

lemma replay_entry_fields [simp]: "queue (replay_entry t s) = queue s" "messages (replay_entry t s) = t"
  by (simp_all add: replay_entry_def)

lemma replay_chat_result:
  assumes "replay_chat m sid generation transcript new_rev s = (e, s')"
  shows "queue s' = queue s
    \<or> (\<exists>d. Dispatch (queue s) = Some d
         \<and> queue s' = recovered_queue d (recovery_of d transcript) new_rev (queue s))"
proof -
  obtain e1 r where r: "recoverQueuedDispatchLocked m sid new_rev (replay_entry transcript s) = (e1, r)" by force
  from recover_result [OF r] assms r show ?thesis
    by (cases e1) (auto simp: replay_chat_def Let_def split: if_splits)
qed

text \<open>The transcript an attachment replays.\<close>

definition transcript_of :: "attach_reply \<Rightarrow> json list option" where
  "transcript_of reply = (case reply of Replays g t \<Rightarrow> Some t | _ \<Rightarrow> None)"

lemma attach_result:
  assumes "attachLocked m sid reply new_rev s = (e, s')"
  shows "queue s' = queue s
    \<or> (\<exists>d t. Dispatch (queue s) = Some d \<and> transcript_of reply = Some t
         \<and> queue s' = recovered_queue d (recovery_of d t) new_rev (queue s))"
  using assms
  by (cases reply)
     (auto simp: attachLocked_def transcript_of_def split: if_splits dest!: replay_chat_result)

section \<open>The abstract life of a message\<close>

text \<open>
  What becomes of a message without the user's doing: it waits, is prepared for dispatch, attempted,
  taken back while unattempted, blocked when its delivery is uncertain, or leaves when its delivery is
  proved. The state is the dispatch, the blocked message and the waiting ones.
\<close>

type_synonym lanes = "queuedDispatch option \<times> queuedFollowUp option \<times> queuedFollowUp list"

definition lanes_of :: "sessionQueueState \<Rightarrow> lanes" where
  "lanes_of q = (Dispatch q, Blocked q, FollowUp q)"

definition lane_items :: "lanes \<Rightarrow> queuedFollowUp list" where
  "lane_items l = (case l of (d, b, fs) \<Rightarrow>
     (case d of None \<Rightarrow> [] | Some d \<Rightarrow> [dispatch_item d]) @ (case b of None \<Rightarrow> [] | Some b \<Rightarrow> [b]) @ fs)"

definition exclusive :: "lanes \<Rightarrow> bool" where
  "exclusive l \<longleftrightarrow> fst l = None \<or> fst (snd l) = None"

inductive auto_step :: "(queuedDispatch \<Rightarrow> bool) \<Rightarrow> lanes \<Rightarrow> lanes \<Rightarrow> bool" for proved where
  Prepare: "\<not> attempted d \<Longrightarrow> auto_step proved (None, None, dispatch_item d # fs) (Some d, None, fs)"
| TakeBack: "\<not> attempted d \<Longrightarrow> auto_step proved (Some d, b, fs) (None, b, dispatch_item d # fs)"
| Attempt: "auto_step proved (Some d, b, fs) (Some (d\<lparr>attempted := True\<rparr>), b, fs)"
| Deliver: "proved d \<Longrightarrow> auto_step proved (Some d, b, fs) (None, b, fs)"
| Uncertain: "auto_step proved (Some d, None, fs) (None, Some (dispatch_item d), fs)"

abbreviation auto_steps :: "(queuedDispatch \<Rightarrow> bool) \<Rightarrow> lanes \<Rightarrow> lanes \<Rightarrow> bool" where
  "auto_steps proved \<equiv> (auto_step proved)\<^sup>*\<^sup>*"

inductive_cases auto_stepE: "auto_step proved l l'"

lemma dispatch_item_attempted [simp]: "dispatch_item (d\<lparr>attempted := True\<rparr>) = dispatch_item d"
  by (simp add: dispatch_item_def)

lemma auto_step_items:
  "auto_step proved l l' \<Longrightarrow> mset (lane_items l') = mset (lane_items l)
     \<or> (\<exists>d. proved d \<and> mset (lane_items l) = add_mset (dispatch_item d) (mset (lane_items l')))"
  by (induction rule: auto_step.induct) (auto simp: lane_items_def split: option.splits)

lemma auto_step_exclusive: "auto_step proved l l' \<Longrightarrow> exclusive l \<Longrightarrow> exclusive l'"
  by (auto elim!: auto_stepE simp: exclusive_def)

lemma auto_steps_exclusive: "auto_steps proved l l' \<Longrightarrow> exclusive l \<Longrightarrow> exclusive l'"
  by (induction rule: rtranclp_induct) (auto dest: auto_step_exclusive)

lemma auto_steps_items:
  assumes "auto_steps proved l l'"
  shows "\<exists>gone. mset (lane_items l) = mset (lane_items l') + gone
    \<and> (\<forall>i \<in># gone. \<exists>d. proved d \<and> i = dispatch_item d)"
  using assms
proof (induction rule: rtranclp_induct)
  case (step l1 l2)
  then obtain gone where g: "mset (lane_items l) = mset (lane_items l1) + gone"
    "\<forall>i \<in># gone. \<exists>d. proved d \<and> i = dispatch_item d" by blast
  from auto_step_items [OF step(2)] show ?case
  proof
    assume "\<exists>d. proved d \<and> mset (lane_items l1) = add_mset (dispatch_item d) (mset (lane_items l2))"
    then obtain d where "proved d" "mset (lane_items l1) = add_mset (dispatch_item d) (mset (lane_items l2))" by blast
    with g show ?thesis by (intro exI [of _ "add_mset (dispatch_item d) gone"]) auto
  qed (use g in auto)
qed (auto intro: exI [of _ "{#}"])

text \<open>A message once attempted is not among the waiting ones, and stays so.\<close>

definition not_waiting :: "string \<Rightarrow> lanes \<Rightarrow> bool" where
  "not_waiting i l \<longleftrightarrow> i \<notin> item_id ` set (snd (snd l))
     \<and> (case fst l of Some d \<Rightarrow> dispatch_id d = i \<longrightarrow> attempted d | None \<Rightarrow> True)"

lemma auto_step_not_waiting: "auto_step proved l l' \<Longrightarrow> not_waiting i l \<Longrightarrow> not_waiting i l'"
  by (auto elim!: auto_stepE simp: not_waiting_def dispatch_item_def split: option.splits)

lemma auto_steps_not_waiting: "auto_steps proved l l' \<Longrightarrow> not_waiting i l \<Longrightarrow> not_waiting i l'"
  by (induction rule: rtranclp_induct) (auto dest: auto_step_not_waiting)

lemma lanes_simps [simp]:
  "lanes_of (remember i q) = lanes_of q" "lanes_of (q\<lparr>Revision := r\<rparr>) = lanes_of q"
  "lanes_of (q\<lparr>Dispatch := d\<rparr>) = (d, Blocked q, FollowUp q)"
  "lanes_of (q\<lparr>Dispatch := d, FollowUp := f\<rparr>) = (d, Blocked q, f)"
  "lanes_of (q\<lparr>FollowUp := f, Dispatch := d\<rparr>) = (d, Blocked q, f)"
  "lanes_of (q\<lparr>FollowUp := f\<rparr>) = (Dispatch q, Blocked q, f)"
  "lanes_of (q\<lparr>Blocked := b\<rparr>) = (Dispatch q, b, FollowUp q)"
  "lanes_of (q\<lparr>Dispatch := d, Blocked := b\<rparr>) = (d, b, FollowUp q)"
  "lanes_of (q\<lparr>Dispatch := d, Revision := r\<rparr>) = (d, Blocked q, FollowUp q)"
  "lanes_of (q\<lparr>Dispatch := d, Blocked := b, Revision := r\<rparr>) = (d, b, FollowUp q)"
  "lanes_of (q\<lparr>FollowUp := f, Dispatch := d, Revision := r\<rparr>) = (d, Blocked q, f)"
  "lanes_of (q\<lparr>FollowUp := f, Revision := r\<rparr>) = (Dispatch q, Blocked q, f)"
  "lanes_of (q\<lparr>Dispatch := d, FollowUp := f, Revision := r\<rparr>) = (d, Blocked q, f)"
  by (simp_all add: lanes_of_def)

lemma lane_items_of [simp]: "lane_items (lanes_of q) = queue_items q"
  by (simp add: lane_items_def lanes_of_def queue_items_def)

section \<open>The operations refine it\<close>

text \<open>The transcript proves the delivery of a dispatch when its next user message is the dispatched text.\<close>

definition transcript_proves :: "attach_reply \<Rightarrow> queuedDispatch \<Rightarrow> bool" where
  "transcript_proves reply d \<longleftrightarrow>
     (\<exists>t. transcript_of reply = Some t \<and> userMessageAt t (previousUserMessages d) = Some (dispatch_text d))"

lemma recovered_lanes:
  assumes "Dispatch q = Some d" "exclusive (lanes_of q)" "transcript_of reply = Some t"
  shows "auto_step (transcript_proves reply) (lanes_of q) (lanes_of (recovered_queue d (recovery_of d t) new_rev q))"
proof -
  have b: "Blocked q = None" using assms(1,2) by (simp add: exclusive_def lanes_of_def)
  have l: "lanes_of q = (Some d, None, FollowUp q)" using assms(1) b by (simp add: lanes_of_def)
  show ?thesis
  proof (cases "recovery_of d t")
    case Delivered
    then have "transcript_proves reply d"
      using assms(3) by (auto simp: recovery_of_def transcript_proves_def split: if_splits)
    with Delivered l b show ?thesis
      by (simp add: recovered_queue_def lanes_of_def auto_step.Deliver)
  next
    case Requeue
    then have "\<not> attempted d" by (auto simp: recovery_of_def split: if_splits)
    with Requeue l b show ?thesis
      by (simp add: recovered_queue_def lanes_of_def auto_step.TakeBack)
  next
    case Block
    with l show ?thesis by (simp add: recovered_queue_def lanes_of_def auto_step.Uncertain)
  qed
qed

lemma attach_refines:
  assumes "attachLocked m sid reply new_rev s = (e, s')" "exclusive (lanes_of (queue s))"
  shows "auto_steps (transcript_proves reply) (lanes_of (queue s)) (lanes_of (queue s'))"
  using attach_result [OF assms(1)] recovered_lanes [OF _ assms(2)] by (metis r_into_rtranclp rtranclp.rtrancl_refl)

lemma start_refines:
  assumes "startPromptLocked m sid text images resources qid s = (e, s')"
  shows "auto_steps proved (lanes_of (queue s)) (lanes_of (queue s'))"
proof -
  have "queue s' = queue s \<or> (\<exists>d. Dispatch (queue s) = Some d
      \<and> queue s' = (queue s)\<lparr>Dispatch := Some (d\<lparr>attempted := True\<rparr>)\<rparr>)"
    using assms
    by (auto simp: startPromptLocked_def split: sum.splits if_splits option.splits prod.splits dest!: save_result)
  then show ?thesis
  proof (elim disjE exE conjE)
    fix d assume d: "Dispatch (queue s) = Some d" "queue s' = (queue s)\<lparr>Dispatch := Some (d\<lparr>attempted := True\<rparr>)\<rparr>"
    then have "lanes_of (queue s) = (Some d, Blocked (queue s), FollowUp (queue s))" by (simp add: lanes_of_def)
    with d(2) show ?thesis by (simp add: auto_step.Attempt r_into_rtranclp)
  qed simp
qed

lemma settle_refines:
  assumes "settleQueuedPromptLocked m sid qid delivered failed new_rev s = (e, s')" "exclusive (lanes_of (queue s))"
    and "delivered \<or> \<not> failed \<Longrightarrow> \<forall>d. Dispatch (queue s) = Some d \<longrightarrow> dispatch_id d = qid \<longrightarrow> proved d"
  shows "auto_steps proved (lanes_of (queue s)) (lanes_of (queue s'))"
proof -
  consider "queue s' = queue s"
    | d where "Dispatch (queue s) = Some d" "dispatch_id d = qid"
        "queue s' = (if failed \<and> \<not> delivered
           then (queue s)\<lparr>Dispatch := None, Blocked := Some (dispatch_item d), Revision := new_rev\<rparr>
           else (queue s)\<lparr>Dispatch := None\<rparr>)"
    using assms(1)
    by (auto simp: settleQueuedPromptLocked_def Let_def split: option.splits if_splits prod.splits dest!: save_result)
  then show ?thesis
  proof cases
    case (2 d)
    then have l: "lanes_of (queue s) = (Some d, None, FollowUp (queue s))" "Blocked (queue s) = None"
      using assms(2) by (auto simp: lanes_of_def exclusive_def)
    show ?thesis
    proof (cases "failed \<and> \<not> delivered")
      case True
      with 2 l show ?thesis by (simp add: auto_step.Uncertain r_into_rtranclp)
    next
      case False
      with assms(3) 2 have "proved d" by blast
      moreover have "queue s' = (queue s)\<lparr>Dispatch := None\<rparr>" unfolding 2(3) by (rule if_not_P [OF False])
      ultimately show ?thesis using l by (simp add: auto_step.Deliver r_into_rtranclp)
    qed
  qed simp
qed

lemma take_back_lanes:
  "Dispatch q = Some d \<Longrightarrow> \<not> attempted d \<Longrightarrow>
     auto_steps proved (lanes_of q) (None, Blocked q, dispatch_item d # FollowUp q)"
  by (simp add: lanes_of_def auto_step.TakeBack r_into_rtranclp)

lemma take_back_refines:
  assumes "take_back m sid new_rev s = (e, s')"
  shows "auto_steps proved (lanes_of (queue s)) (lanes_of (queue s'))"
proof -
  consider "queue s' = queue s"
    | d where "Dispatch (queue s) = Some d" "\<not> attempted d"
        "queue s' = (queue s)\<lparr>Dispatch := None, FollowUp := dispatch_item d # FollowUp (queue s), Revision := new_rev\<rparr>"
    using assms by (auto simp: take_back_def split: option.splits if_splits dest!: commit_result)
  then show ?thesis
    by cases (simp_all add: take_back_lanes)
qed

lemma restore_refines:
  assumes "restoreQueuedDispatch m sid qid new_rev s = (e, s')"
    and "\<forall>d. Dispatch (queue s) = Some d \<longrightarrow> dispatch_id d = qid \<longrightarrow> \<not> attempted d"
  shows "auto_steps proved (lanes_of (queue s)) (lanes_of (queue s'))"
proof -
  consider "queue s' = queue s"
    | d where "Dispatch (queue s) = Some d" "dispatch_id d = qid"
        "queue s' = (queue s)\<lparr>Dispatch := None, FollowUp := dispatch_item d # FollowUp (queue s), Revision := new_rev\<rparr>"
    using assms(1)
    by (auto simp: restoreQueuedDispatch_def split: option.splits if_splits prod.splits dest!: save_result)
  then show ?thesis
    using assms(2) by cases (simp_all add: take_back_lanes)
qed

text \<open>A prompt that does not start leaves the dispatch as it was.\<close>

lemma start_failed:
  "startPromptLocked m sid text images resources qid s = (Some e, s') \<Longrightarrow> queue s' = queue s"
  by (auto simp: startPromptLocked_def split: sum.splits if_splits option.splits prod.splits dest!: save_result)

lemma dispatch_first_refines:
  assumes "dispatch_first m sid rev1 rev2 s = (e, s')" "ready s"
  shows "auto_steps proved (lanes_of (queue s)) (lanes_of (queue s'))"
proof -
  obtain i fs where f: "FollowUp (queue s) = i # fs" "Dispatch (queue s) = None" "Blocked (queue s) = None"
    using assms(2) by (auto simp: ready_def neq_Nil_conv)
  define d where "d = \<lparr>dispatch_id = item_id i, dispatch_text = item_text i,
    previousUserMessages = userMessageCount (messages s), attempted = False\<rparr>"
  define q where "q = (queue s)\<lparr>FollowUp := fs, Dispatch := Some d, Revision := rev1\<rparr>"
  have di: "dispatch_item d = i" "\<not> attempted d" by (simp_all add: d_def dispatch_item_def)
  have prep: "auto_steps proved (lanes_of (queue s)) (lanes_of q)"
    using f di auto_step.Prepare [of d proved fs] by (simp add: q_def) (simp add: lanes_of_def r_into_rtranclp)
  obtain e1 s1 where c: "commit m sid q s = (e1, s1)" by force
  obtain e2 s2 where st: "startPromptLocked m sid (item_text i) [] [] (item_id i) s1 = (e2, s2)" by force
  obtain e3 s3 where rs: "restoreQueuedDispatch m sid (item_id i) rev2 s2 = (e3, s3)" by force
  note run = assms(1) [unfolded dispatch_first_def f list.sel Let_def, folded d_def, folded q_def, unfolded c]
  show ?thesis
  proof (cases e1)
    case (Some x)
    with run have "e = Some x" "s1 = s'" by simp_all
    with commit_result [OF c] Some show ?thesis by simp
  next
    case None
    with commit_result [OF c] have q1: "queue s1 = q" by simp
    show ?thesis
    proof (cases e2)
      case None
      with run \<open>e1 = None\<close> st have "s' = s2" by simp
      with prep start_refines [OF st, of proved] q1 show ?thesis by simp
    next
      case (Some x)
      from start_failed [OF st [unfolded Some]] q1 have q2: "queue s2 = q" by simp
      have "\<forall>d'. Dispatch (queue s2) = Some d' \<longrightarrow> dispatch_id d' = item_id i \<longrightarrow> \<not> attempted d'"
        using di by (simp add: q2 q_def)
      from restore_refines [OF rs this, of proved] prep q2
      have "auto_steps proved (lanes_of (queue s)) (lanes_of (queue s3))" by simp
      moreover have "s' = s3" using run \<open>e1 = None\<close> Some st rs by (auto split: option.splits)
      ultimately show ?thesis by simp
    qed
  qed
qed

text \<open>What may prove a delivery during a drain: the transcripts of its two attachments.\<close>

definition drain_proves :: "attach_reply \<Rightarrow> attach_reply \<Rightarrow> queuedDispatch \<Rightarrow> bool" where
  "drain_proves reply1 reply2 d \<longleftrightarrow> transcript_proves reply1 d \<or> transcript_proves reply2 d"

lemma auto_step_mono: "auto_step p l l' \<Longrightarrow> (\<And>d. p d \<Longrightarrow> r d) \<Longrightarrow> auto_step r l l'"
  by (induction rule: auto_step.induct) (auto intro: auto_step.intros)

lemma auto_steps_mono: "auto_steps p l l' \<Longrightarrow> (\<And>d. p d \<Longrightarrow> r d) \<Longrightarrow> auto_steps r l l'"
  by (induction rule: rtranclp_induct) (auto intro: rtranclp.rtrancl_into_rtrancl auto_step_mono)

lemma drain_refines:
  assumes "drainFollowUp m sid reply1 reply2 revs s = (e, s')" "exclusive (lanes_of (queue s))"
  shows "auto_steps (drain_proves reply1 reply2) (lanes_of (queue s)) (lanes_of (queue s'))"
proof (cases "runnableFollowUpLocked s")
  case False
  with assms(1) show ?thesis by (simp add: drainFollowUp_def)
next
  case True
  let ?P = "drain_proves reply1 reply2"
  define replay where "replay \<longleftrightarrow> (case Dispatch (queue s) of None \<Rightarrow> False | Some d \<Rightarrow> attempted d)"
  obtain e1 s1 where a1: "(if replay then attachLocked m sid reply1 (revs ! 0) s else (None, s)) = (e1, s1)" by force
  obtain e2 s2 where tb: "take_back m sid (revs ! 1) s1 = (e2, s2)" by force
  obtain e3 s3 where a2: "attachLocked m sid reply2 (revs ! 2) s2 = (e3, s3)" by force
  note run = assms(1) [unfolded drainFollowUp_def Let_def, folded replay_def, unfolded a1]
  have r1: "auto_steps ?P (lanes_of (queue s)) (lanes_of (queue s1))"
    using attach_refines [of m sid reply1 "revs ! 0" s e1 s1] a1 assms(2)
    by (auto simp: drain_proves_def split: if_splits elim: auto_steps_mono)
  have r2: "auto_steps ?P (lanes_of (queue s)) (lanes_of (queue s2))"
    using r1 take_back_refines [OF tb] by (rule rtranclp_trans)
  have "auto_steps ?P (lanes_of (queue s2)) (lanes_of (queue s3))"
    by (rule auto_steps_mono [OF attach_refines [OF a2 auto_steps_exclusive [OF r2 assms(2)]]])
       (simp add: drain_proves_def)
  with r2 have r3: "auto_steps ?P (lanes_of (queue s)) (lanes_of (queue s3))" by (rule rtranclp_trans)
  have r4: "auto_steps ?P (lanes_of (queue s)) (lanes_of (queue s'))"
    if "ready s3" "dispatch_first m sid (revs ! 3) (revs ! 4) s3 = (e, s')"
    using r3 dispatch_first_refines [OF that(2,1)] by (rule rtranclp_trans)
  from run True r1 r2 r3 r4 tb a2 show ?thesis
    by (cases e1; cases e2; cases e3) (auto split: if_splits)
qed

lemma runFollowUp_refines:
  assumes "exclusive (lanes_of (queue s))"
  shows "auto_steps (drain_proves reply1 reply2) (lanes_of (queue s)) (lanes_of (queue (runFollowUp m sid reply1 reply2 revs s)))"
proof -
  obtain e s' where d: "drainFollowUp m sid reply1 reply2 revs s = (e, s')" by force
  have "queue (runFollowUp m sid reply1 reply2 revs s) = queue s' \<or> queue (runFollowUp m sid reply1 reply2 revs s) = queue s"
    by (simp add: runFollowUp_def d Let_def retryFollowUp_def)
  with drain_refines [OF d assms] show ?thesis by auto
qed

section \<open>Edits and removals by position\<close>

text \<open>The follow-ups as a client sees them: the dispatch shows only while no prompt is active.\<close>

definition shown_items :: "bool \<Rightarrow> sessionQueueState \<Rightarrow> queuedFollowUp list" where
  "shown_items active q =
     (case (if active then None else Dispatch q) of None \<Rightarrow> [] | Some d \<Rightarrow> [dispatch_item d])
     @ (case Blocked q of None \<Rightarrow> [] | Some b \<Rightarrow> [b]) @ FollowUp q"

lemma wire_shown: "wire_followUp (wire q (\<not> active)) = map item_text (shown_items active q)"
  by (simp add: wire_def shown_items_def dispatch_item_def split: option.splits)

definition hidden_items :: "bool \<Rightarrow> sessionQueueState \<Rightarrow> queuedFollowUp list" where
  "hidden_items active q = (case Dispatch q of Some d \<Rightarrow> if active then [dispatch_item d] else [] | None \<Rightarrow> [])"

lemma items_split: "queue_items q = hidden_items active q @ shown_items active q"
  by (simp add: queue_items_def hidden_items_def shown_items_def split: option.splits)

text \<open>An edit at an index of the shown list changes the text there and nothing else.\<close>

definition edited :: "bool \<Rightarrow> int \<Rightarrow> string \<Rightarrow> sessionQueueState \<Rightarrow> sessionQueueState option \<Rightarrow> bool" where
  "edited active index text q r \<longleftrightarrow>
     (if 0 \<le> index \<and> index < int (length (shown_items active q))
      then \<exists>q'. r = Some q' \<and> hidden_items active q' = hidden_items active q
         \<and> shown_items active q' = (shown_items active q)
              [nat index := (shown_items active q ! nat index)\<lparr>item_text := text\<rparr>]
         \<and> Handled q' = Handled q \<and> Steering q' = Steering q \<and> Revision q' = Revision q
         \<and> (Dispatch q' = None \<longleftrightarrow> Dispatch q = None) \<and> (Blocked q' = None \<longleftrightarrow> Blocked q = None)
         \<and> map_option attempted (Dispatch q') = map_option attempted (Dispatch q)
         \<and> map_option dispatch_id (Dispatch q') = map_option dispatch_id (Dispatch q)
         \<and> map item_id (FollowUp q') = map item_id (FollowUp q)
      else r = None)"

lemma ids_update [simp]: "map item_id (fs[i := (fs ! i)\<lparr>item_text := t\<rparr>]) = map item_id fs"
  by (cases "i < length fs") (simp_all add: map_update list_update_same_conv list_update_beyond)

lemma item_text_update: "dispatch_item (d\<lparr>dispatch_text := t\<rparr>) = (dispatch_item d)\<lparr>item_text := t\<rparr>"
  by (simp add: dispatch_item_def)

lemma edit_waiting_fields:
  "edit_waiting i t q =
     (if 0 \<le> i \<and> i < int (length (FollowUp q))
      then Some (q\<lparr>FollowUp := (FollowUp q)[nat i := (FollowUp q ! nat i)\<lparr>item_text := t\<rparr>]\<rparr>) else None)"
  by (auto simp: edit_waiting_def)

lemma nat_pred: "0 < i \<Longrightarrow> nat i = Suc (nat (i - 1))"
  by simp

lemma edit_followUp_edited: "edited active index text q (edit_followUp active index text q)"
proof (cases "if active then None else Dispatch q")
  case None
  then have h: "active \<or> Dispatch q = None" by (auto split: if_splits)
  show ?thesis
  proof (cases "Blocked q")
    case b: None
    show ?thesis
      by (simp only: edited_def edit_followUp_def edit_blocked_def edit_waiting_fields None b option.case)
         (use h b in \<open>auto simp: shown_items_def hidden_items_def split: option.splits if_splits\<close>)
  next
    case (Some x)
    consider "index < 0" | "index = 0" | "0 < index" by linarith
    then show ?thesis
      by cases (use h Some None in
        \<open>auto simp: edited_def edit_followUp_def edit_blocked_def edit_waiting_fields shown_items_def hidden_items_def
           nat_pred split: option.splits if_splits\<close>)
  qed
next
  case d: (Some d)
  then have a: "\<not> active" "Dispatch q = Some d" by (auto split: if_splits)
  consider "index < 0" | "index = 0" | "index = 1" | "1 < index" by linarith
  then show ?thesis
    by cases (cases "Blocked q"; use a in
      \<open>auto simp: edited_def edit_followUp_def edit_blocked_def edit_waiting_fields shown_items_def hidden_items_def
         item_text_update nat_pred split: option.splits if_splits\<close>)+
qed

text \<open>A removal at an index of the shown list removes the message there and nothing else.\<close>

definition removed :: "bool \<Rightarrow> int \<Rightarrow> sessionQueueState \<Rightarrow> (sessionQueueState \<times> bool) option \<Rightarrow> bool" where
  "removed active index q r \<longleftrightarrow>
     (if 0 \<le> index \<and> index < int (length (shown_items active q))
      then \<exists>q' u. r = Some (q', u) \<and> hidden_items active q' = hidden_items active q
         \<and> shown_items active q' = remove_nth (nat index) (shown_items active q)
         \<and> Handled q' = Handled q \<and> Steering q' = Steering q \<and> Revision q' = Revision q
         \<and> (Dispatch q = None \<longrightarrow> Dispatch q' = None) \<and> (Blocked q = None \<longrightarrow> Blocked q' = None)
         \<and> (Dispatch q' = Dispatch q \<or> Dispatch q' = None) \<and> set (FollowUp q') \<subseteq> set (FollowUp q)
      else r = None)"

lemma remove_waiting_fields:
  "remove_waiting i q =
     (if 0 \<le> i \<and> i < int (length (FollowUp q))
      then Some (q\<lparr>FollowUp := remove_nth (nat i) (FollowUp q)\<rparr>, False) else None)"
  by (auto simp: remove_waiting_def)

lemma remove_nth_pred: "0 < i \<Longrightarrow> remove_nth (nat i) (x # xs) = x # remove_nth (nat (i - 1)) xs"
  using nat_pred [of i] by simp

text \<open>The lanes after the dispatch, for the index counted from the blocked message.\<close>

lemma remove_blocked_cases:
  "remove_blocked index q =
     (case Blocked q of
        None \<Rightarrow> remove_waiting index q
      | Some b \<Rightarrow> if index = 0 then Some (q\<lparr>Blocked := None\<rparr>, True) else remove_waiting (index - 1) q)"
  by (simp add: remove_blocked_def split: option.splits)

lemma remove_followUp_active:
  "active \<or> Dispatch q = None \<Longrightarrow> removed active index q (remove_blocked index q)"
  by (cases "Blocked q"; cases "index = 0")
     (auto simp: removed_def remove_blocked_cases remove_waiting_fields shown_items_def hidden_items_def
       remove_nth_pred dest: subsetD [OF set_remove_nth] list.set_sel(2) split: option.splits)

lemma remove_followUp_removed: "removed active index q (remove_followUp active index q)"
proof (cases "active \<or> Dispatch q = None")
  case True
  then have "remove_followUp active index q = remove_blocked index q" by (auto simp: remove_followUp_def)
  with remove_followUp_active [OF True] show ?thesis by simp
next
  case False
  then obtain d where d: "\<not> active" "Dispatch q = Some d" by auto
  show ?thesis
  proof (cases "index = 0")
    case True
    with d show ?thesis by (auto simp: removed_def remove_followUp_def shown_items_def hidden_items_def)
  next
    case nz: False
    let ?q = "q\<lparr>Dispatch := None\<rparr>"
    have r: "removed active (index - 1) ?q (remove_blocked (index - 1) ?q)"
      by (rule remove_followUp_active) simp
    have "remove_blocked (index - 1) q =
        map_option (\<lambda>(q', u). (q'\<lparr>Dispatch := Dispatch q\<rparr>, u)) (remove_blocked (index - 1) ?q)"
      by (auto simp: remove_blocked_cases remove_waiting_fields split: option.splits)
    moreover have "shown_items active q = dispatch_item d # shown_items active ?q"
      using d by (simp add: shown_items_def)
    ultimately show ?thesis
      using r d nz
      by (auto simp: removed_def remove_followUp_def hidden_items_def shown_items_def remove_nth_pred split: if_splits)
  qed
qed

section \<open>Retry and the events of a chat\<close>

lemma attach_keeps_active:
  "attachLocked m sid reply new_rev s = (e, s') \<Longrightarrow> promptActive s' = promptActive s \<and> projectOf s' = projectOf s"
  by (cases reply)
     (auto simp: attachLocked_def replay_chat_def Let_def split: if_splits prod.splits option.splits)

lemma retry_attached_result:
  assumes "retry_attached m sid identity revision retry_id new_rev s = (e, s')"
  shows "queue s' = queue s \<or> queue s' = remember identity (queue s)
    \<or> (\<exists>item q. e = None \<and> retry_item (promptActive s) (queue s) = Some (item, q)
         \<and> queue s' = (remember identity (q\<lparr>FollowUp := item # FollowUp q\<rparr>))\<lparr>Revision := new_rev\<rparr>)"
proof (cases "retry_item (promptActive s) (queue s)")
  case None
  with assms show ?thesis by (auto simp: retry_attached_def split: if_splits dest!: save_result)
next
  case (Some iq)
  obtain item q where iq: "iq = (item, q)" by force
  obtain e1 s1 where
    c: "commit m sid ((remember identity (q\<lparr>FollowUp := item # FollowUp q\<rparr>))\<lparr>Revision := new_rev\<rparr>) s = (e1, s1)" by force
  show ?thesis
  proof (cases "revision \<noteq> Revision (queue s)
         \<and> (case Blocked (queue s) of None \<Rightarrow> True | Some b \<Rightarrow> item_id b \<noteq> retry_id)")
    case True
    with assms have "saveQueueLocked m sid (remember identity (queue s)) s = (e, s')"
      by (simp add: retry_attached_def)
    from save_result [OF this] show ?thesis by auto
  next
    case False
    note r = assms [unfolded retry_attached_def if_not_P [OF False] Some iq option.case prod.case Let_def c]
    from schedule_after_result [OF r] commit_result [OF c] Some iq show ?thesis by (cases e1) auto
  qed
qed

text \<open>A retry may first recover the dispatch, then moves the message back to the front, on the user's word.\<close>

lemma Retry_result:
  assumes "RetryQueue m sid identity ln index revision reply rev1 rev2 s = (e, s')" "exclusive (lanes_of (queue s))"
  shows "\<exists>q1. auto_steps (transcript_proves reply) (lanes_of (queue s)) (lanes_of q1)
    \<and> (queue s' = q1 \<or> queue s' = remember identity q1
       \<or> (\<exists>item q. e = None \<and> retry_item (promptActive s) q1 = Some (item, q)
            \<and> queue s' = (remember identity (q\<lparr>FollowUp := item # FollowUp q\<rparr>))\<lparr>Revision := rev2\<rparr>))"
proof -
  define attempt where "attempt = (case Dispatch (queue s) of Some d \<Rightarrow> attempted d \<and> \<not> promptActive s | None \<Rightarrow> False)"
  define retry_id where "retry_id = (if attempt then dispatch_id (the (Dispatch (queue s)))
      else (case Blocked (queue s) of Some b \<Rightarrow> item_id b | None \<Rightarrow> []))"
  define s1 where "s1 = (if attempt then requireQueueReplayLocked s else s)"
  have s1: "queue s1 = queue s" "promptActive s1 = promptActive s"
    by (simp_all add: s1_def requireQueueReplayLocked_def)
  obtain e2 s2 where a: "attachLocked m sid reply rev1 s1 = (e2, s2)" by force
  have steps: "auto_steps (transcript_proves reply) (lanes_of (queue s)) (lanes_of (queue s2))"
    using attach_refines [OF a] assms(2) by (simp add: s1)
  consider "queue s' = queue s" | "queue s' = queue s2"
    | "retry_attached m sid identity revision retry_id rev2 s2 = (e, s')"
    using once_result [OF assms(1) [unfolded RetryQueue_def Let_def, folded attempt_def, folded retry_id_def, folded s1_def, unfolded a]] s1
    by (cases e2) (auto split: if_splits)
  then show ?thesis
  proof cases
    case 1
    then show ?thesis by (intro exI [of _ "queue s"]) simp
  next
    case 2
    with steps show ?thesis by (intro exI [of _ "queue s2"]) simp
  next
    case 3
    from retry_attached_result [OF 3] steps attach_keeps_active [OF a] show ?thesis
      by (intro exI [of _ "queue s2"]) (auto simp: s1)
  qed
qed

datatype queue_event =
    EvQueue queueOperation string string string
  | EvEdit queueOperation lane int string string string
  | EvRemove queueOperation lane int string string
  | EvRetry queueOperation lane int string attach_reply string string
  | EvPrompt string "ImageContent list" "TextResourceAttachment list" attach_reply string "(bool \<times> bool) option"
  | EvDrain attach_reply attach_reply "string list"
  | EvSettle string nat "string option" string string
  | EvTimer

fun queue_event_step :: "manager \<Rightarrow> string \<Rightarrow> queue_event \<Rightarrow> chat \<Rightarrow> chat" where
  "queue_event_step m sid (EvQueue i t new_id r) s = snd (Queue m sid i t new_id r s)"
| "queue_event_step m sid (EvEdit i ln n t r r') s = snd (EditQueue m sid i ln n t r r' s)"
| "queue_event_step m sid (EvRemove i ln n r r') s = snd (RemoveQueue m sid i ln n r r' s)"
| "queue_event_step m sid (EvRetry i ln n r reply r1 r2) s = snd (RetryQueue m sid i ln n r reply r1 r2 s)"
| "queue_event_step m sid (EvPrompt t im rs reply r p) s = snd (Prompt m sid t im rs reply r p s)"
| "queue_event_step m sid (EvDrain reply1 reply2 revs) s = runFollowUp m sid reply1 reply2 revs s"
| "queue_event_step m sid (EvSettle qid gen resp err r) s = settlePrompt m sid qid gen resp err r s"
| "queue_event_step m sid EvTimer s = retryTimer m s"

text \<open>What an event takes as proof that a dispatch reached Pi.\<close>

fun proof_of_delivery :: "queue_event \<Rightarrow> chat \<Rightarrow> queuedDispatch \<Rightarrow> bool" where
  "proof_of_delivery (EvRetry i ln n r reply r1 r2) s d = transcript_proves reply d"
| "proof_of_delivery (EvPrompt t im rs reply r p) s d = transcript_proves reply d"
| "proof_of_delivery (EvDrain reply1 reply2 revs) s d = drain_proves reply1 reply2 d"
| "proof_of_delivery (EvSettle qid gen resp err r) s d =
     (dispatch_id d = qid \<and> promptGeneration s = gen \<and> (resp \<noteq> None \<or> promptAcknowledged s))"
| "proof_of_delivery _ s d = False"

lemma Prompt_refines:
  assumes "Prompt m sid text images resources reply rev1 profile s = (e, s')" "exclusive (lanes_of (queue s))"
  shows "auto_steps (transcript_proves reply) (lanes_of (queue s)) (lanes_of (queue s'))"
proof -
  obtain e1 s1 where a: "attachLocked m sid reply rev1 s = (e1, s1)" by force
  note r1 = attach_refines [OF a assms(2)]
  consider "s' = s1" | "startPromptLocked m sid text images resources [] s1 = (e, s')"
    using assms(1) a by (cases e1) (auto simp: Prompt_def split: if_splits)
  then show ?thesis
  proof cases
    case 2
    from r1 start_refines [OF 2] show ?thesis by (rule rtranclp_trans)
  qed (use r1 in simp)
qed

lemma settlePrompt_refines:
  assumes "exclusive (lanes_of (queue s))"
  shows "auto_steps (proof_of_delivery (EvSettle qid gen resp err r) s) (lanes_of (queue s))
    (lanes_of (queue (settlePrompt m sid qid gen resp err r s)))"
proof (cases "\<not> current m \<or> promptGeneration s \<noteq> gen")
  case True
  then show ?thesis by (simp add: settlePrompt_def)
next
  case False
  let ?P = "proof_of_delivery (EvSettle qid gen resp err r) s"
  let ?s = "s\<lparr>promptActive := False, streaming := False, promptAcknowledged := False\<rparr>"
  obtain e1 s1 where st: "settleQueuedPromptLocked m sid qid (resp \<noteq> None \<or> promptAcknowledged s) (resp = None) r ?s = (e1, s1)"
    by force
  have "queue (settlePrompt m sid qid gen resp err r s) = queue s1"
    using False st by (simp add: settlePrompt_def Let_def split: option.splits)
  moreover have "auto_steps ?P (lanes_of (queue ?s)) (lanes_of (queue s1))"
    by (rule settle_refines [OF st]) (use assms False in auto)
  ultimately show ?thesis by simp
qed

section \<open>Properties\<close>

lemma retry_item_items:
  assumes "retry_item active q = Some (item, q')"
  shows "mset (queue_items q) = add_mset item (mset (queue_items q'))"
    and "exclusive (lanes_of q) \<Longrightarrow> exclusive (lanes_of (q'\<lparr>FollowUp := item # FollowUp q'\<rparr>))"
    and "FollowUp q' = FollowUp q"
  using assms
  by (auto simp: retry_item_def queue_items_def exclusive_def lanes_of_def split: option.splits if_splits)

lemma items_FollowUp_Cons: "mset (queue_items (q\<lparr>FollowUp := item # fs\<rparr>)) = add_mset item (mset (queue_items (q\<lparr>FollowUp := fs\<rparr>)))"
  by (simp add: queue_items_def)

definition user_change :: "queue_event \<Rightarrow> bool" where
  "user_change e \<longleftrightarrow> (case e of EvEdit _ _ _ _ _ _ \<Rightarrow> True | EvRemove _ _ _ _ _ \<Rightarrow> True | _ \<Rightarrow> False)"

definition automatic :: "queue_event \<Rightarrow> bool" where
  "automatic e \<longleftrightarrow> (case e of EvPrompt _ _ _ _ _ _ \<Rightarrow> True | EvDrain _ _ _ \<Rightarrow> True | EvSettle _ _ _ _ _ \<Rightarrow> True
     | EvTimer \<Rightarrow> True | _ \<Rightarrow> False)"

lemma automatic_refines:
  assumes "automatic e" "exclusive (lanes_of (queue s))"
  shows "auto_steps (proof_of_delivery e s) (lanes_of (queue s)) (lanes_of (queue (queue_event_step m sid e s)))"
proof (cases e)
  case (EvPrompt t im rs reply r p)
  obtain err s' where run: "Prompt m sid t im rs reply r p s = (err, s')" by force
  have "proof_of_delivery e s = transcript_proves reply" using EvPrompt by (simp add: fun_eq_iff)
  with Prompt_refines [OF run assms(2)] EvPrompt run show ?thesis by simp
next
  case (EvDrain reply1 reply2 revs)
  have "proof_of_delivery e s = drain_proves reply1 reply2" using EvDrain by (simp add: fun_eq_iff)
  with runFollowUp_refines [OF assms(2)] EvDrain show ?thesis by simp
next
  case (EvSettle qid gen resp err r)
  with settlePrompt_refines [OF assms(2)] show ?thesis by simp
next
  case EvTimer
  then show ?thesis by (simp add: retryTimer_def)
qed (use assms(1) in \<open>simp_all add: automatic_def\<close>)

lemma Queue_event:
  "queue (queue_event_step m sid (EvQueue identity x new_id r) s) = queue s
   \<or> (\<exists>t. queuedText x = Some t \<and> queuedFollowUpCount (queue s) < 20
        \<and> queue (queue_event_step m sid (EvQueue identity x new_id r) s) = (remember identity (queue s))\<lparr>
             FollowUp := FollowUp (queue s) @ [\<lparr>item_id = new_id, item_text = t\<rparr>], Revision := r\<rparr>)"
proof -
  obtain e s' where run: "Queue m sid identity x new_id r s = (e, s')" by force
  from Queue_result [OF run] run show ?thesis by auto
qed

lemma Retry_event:
  assumes "exclusive (lanes_of (queue s))"
  obtains q1 where "auto_steps (transcript_proves reply) (lanes_of (queue s)) (lanes_of q1)"
    "lanes_of (queue (queue_event_step m sid (EvRetry i ln n r reply r1 r2) s)) = lanes_of q1
     \<or> (\<exists>item q. retry_item (promptActive s) q1 = Some (item, q)
          \<and> lanes_of (queue (queue_event_step m sid (EvRetry i ln n r reply r1 r2) s)) = lanes_of (q\<lparr>FollowUp := item # FollowUp q\<rparr>))"
proof -
  obtain e s' where run: "RetryQueue m sid i ln n r reply r1 r2 s = (e, s')" by force
  from Retry_result [OF run assms] obtain q1 where
    "auto_steps (transcript_proves reply) (lanes_of (queue s)) (lanes_of q1)"
    "queue s' = q1 \<or> queue s' = remember i q1
     \<or> (\<exists>item q. e = None \<and> retry_item (promptActive s) q1 = Some (item, q)
          \<and> queue s' = (remember i (q\<lparr>FollowUp := item # FollowUp q\<rparr>))\<lparr>Revision := r2\<rparr>)" by blast
  with that [of q1] run show thesis by auto
qed

definition demo_chat :: chat where
  "demo_chat = \<lparr>projectOf = ''p'', queue = demo_queue, streaming = False, promptActive = False,
     promptAcknowledged = False, promptGeneration = 0, messages = [], pendingEcho = None,
     attached = 1, drainScheduled = True, drainRetry = False, drainFailures = 0, settlement = None, emitted = [],
     disk = demo_queue_world\<rparr>"

definition demo_manager :: manager where
  "demo_manager = \<lparr>queues = None, current = True, admits = True\<rparr>"

lemma event_items:
  assumes "Dispatch (queue s) = None \<or> Blocked (queue s) = None" "\<not> user_change e"
  shows "\<exists>gone added. mset (queue_items (queue s)) + added
      = mset (queue_items (queue (queue_event_step m sid e s))) + gone
    \<and> (\<forall>i \<in># gone. \<exists>d. proof_of_delivery e s d \<and> i = dispatch_item d)
    \<and> (added = {#} \<or> (\<exists>identity x new_id r t. e = EvQueue identity x new_id r \<and> queuedText x = Some t
         \<and> added = {#\<lparr>item_id = new_id, item_text = t\<rparr>#}))"
proof -
  have ex: "exclusive (lanes_of (queue s))" using assms(1) by (simp add: exclusive_def lanes_of_def)
  show ?thesis
  proof (cases e)
    case (EvQueue identity x new_id r)
    from Queue_event [of m sid identity x new_id r s] show ?thesis
    proof (elim disjE exE conjE)
      assume "queue (queue_event_step m sid (EvQueue identity x new_id r) s) = queue s"
      with EvQueue show ?thesis by (intro exI [of _ "{#}"]) simp
    next
      fix t assume t: "queuedText x = Some t"
        "queue (queue_event_step m sid (EvQueue identity x new_id r) s) = (remember identity (queue s))\<lparr>
             FollowUp := FollowUp (queue s) @ [\<lparr>item_id = new_id, item_text = t\<rparr>], Revision := r\<rparr>"
      have "mset (queue_items (queue (queue_event_step m sid e s)))
          = mset (queue_items (queue s)) + {#\<lparr>item_id = new_id, item_text = t\<rparr>#}"
        using EvQueue t(2) by (simp add: queue_items_def)
      with EvQueue t(1) show ?thesis
        by (intro exI [of _ "{#}"] exI [of _ "{#\<lparr>item_id = new_id, item_text = t\<rparr>#}"]) simp
    qed
  next
    case (EvRetry i ln n r reply r1 r2)
    obtain q1 where q1: "auto_steps (transcript_proves reply) (lanes_of (queue s)) (lanes_of q1)"
      "lanes_of (queue (queue_event_step m sid e s)) = lanes_of q1
       \<or> (\<exists>item q. retry_item (promptActive s) q1 = Some (item, q)
            \<and> lanes_of (queue (queue_event_step m sid e s)) = lanes_of (q\<lparr>FollowUp := item # FollowUp q\<rparr>))"
      using Retry_event [OF ex] EvRetry by metis
    then have "mset (queue_items (queue (queue_event_step m sid e s))) = mset (queue_items q1)"
      using retry_item_items(1) items_FollowUp_Cons lane_items_of by (metis sessionQueueState.surjective sessionQueueState.update_convs(3))
    with auto_steps_items [OF q1(1)] EvRetry show ?thesis
      by (auto intro: exI [of _ "{#}"])
  qed (use auto_steps_items [OF automatic_refines [OF _ ex, of e m sid]] assms(2)
       in \<open>auto simp: automatic_def user_change_def intro: exI [of _ "{#}"]\<close>)
qed

definition is_retry :: "queue_event \<Rightarrow> bool" where
  "is_retry e \<longleftrightarrow> (case e of EvRetry _ _ _ _ _ _ _ \<Rightarrow> True | _ \<Rightarrow> False)"

definition queues_id :: "string \<Rightarrow> queue_event \<Rightarrow> bool" where
  "queues_id i e \<longleftrightarrow> (case e of EvQueue _ _ new_id _ \<Rightarrow> new_id = i | _ \<Rightarrow> False)"

lemma Edit_event:
  "queue (queue_event_step m sid (EvEdit i ln n x r r') s) = queue s
   \<or> (\<exists>t q. queuedText x = Some t \<and> lanes_of (queue (queue_event_step m sid (EvEdit i ln n x r r') s)) = lanes_of q
        \<and> (if ln = SteeringLane then edit_steering n t (queue s)
           else edit_followUp (promptActive s) n t (queue s)) = Some q)"
proof -
  obtain e s' where run: "EditQueue m sid i ln n x r r' s = (e, s')" by force
  from Edit_result [OF run] run show ?thesis by force
qed

lemma Remove_event:
  "queue (queue_event_step m sid (EvRemove i ln n r r') s) = queue s
   \<or> (\<exists>q u. lanes_of (queue (queue_event_step m sid (EvRemove i ln n r r') s)) = lanes_of q
        \<and> (if ln = SteeringLane then remove_steering n (queue s)
           else remove_followUp (promptActive s) n (queue s)) = Some (q, u))"
proof -
  obtain e s' where run: "RemoveQueue m sid i ln n r r' s = (e, s')" by force
  from Remove_result [OF run] run show ?thesis by force
qed

text \<open>What an edit or a removal does to the lanes.\<close>

lemma edit_lanes:
  assumes "(if ln = SteeringLane then edit_steering n t q else edit_followUp active n t q) = Some q'"
  shows "map item_id (FollowUp q') = map item_id (FollowUp q)"
    and "map_option attempted (Dispatch q') = map_option attempted (Dispatch q)"
    and "map_option dispatch_id (Dispatch q') = map_option dispatch_id (Dispatch q)"
    and "(Dispatch q' = None) = (Dispatch q = None)" "(Blocked q' = None) = (Blocked q = None)"
proof -
  have "map item_id (FollowUp q') = map item_id (FollowUp q)
      \<and> map_option attempted (Dispatch q') = map_option attempted (Dispatch q)
      \<and> map_option dispatch_id (Dispatch q') = map_option dispatch_id (Dispatch q)
      \<and> (Dispatch q' = None) = (Dispatch q = None) \<and> (Blocked q' = None) = (Blocked q = None)"
  proof (cases "ln = SteeringLane")
    case True
    with assms show ?thesis by (auto simp: edit_steering_def split: if_splits)
  next
    case False
    with assms have r: "edit_followUp active n t q = Some q'" by simp
    from edit_followUp_edited [of active n t q] r show ?thesis by (auto simp: edited_def split: if_splits)
  qed
  then show "map item_id (FollowUp q') = map item_id (FollowUp q)"
    "map_option attempted (Dispatch q') = map_option attempted (Dispatch q)"
    "map_option dispatch_id (Dispatch q') = map_option dispatch_id (Dispatch q)"
    "(Dispatch q' = None) = (Dispatch q = None)" "(Blocked q' = None) = (Blocked q = None)" by simp_all
qed

lemma remove_lanes:
  assumes "(if ln = SteeringLane then remove_steering n q else remove_followUp active n q) = Some (q', u)"
  shows "set (FollowUp q') \<subseteq> set (FollowUp q)" "Dispatch q' = Dispatch q \<or> Dispatch q' = None"
    "Blocked q = None \<Longrightarrow> Blocked q' = None"
proof -
  have "set (FollowUp q') \<subseteq> set (FollowUp q) \<and> (Dispatch q' = Dispatch q \<or> Dispatch q' = None)
      \<and> (Blocked q = None \<longrightarrow> Blocked q' = None)"
  proof (cases "ln = SteeringLane")
    case True
    with assms show ?thesis by (auto simp: remove_steering_def split: if_splits)
  next
    case False
    with assms have r: "remove_followUp active n q = Some (q', u)" by simp
    from remove_followUp_removed [of active n q] r show ?thesis by (auto simp: removed_def split: if_splits)
  qed
  then show "set (FollowUp q') \<subseteq> set (FollowUp q)" "Dispatch q' = Dispatch q \<or> Dispatch q' = None"
    "Blocked q = None \<Longrightarrow> Blocked q' = None" by auto
qed

lemma not_waiting_lanes:
  "not_waiting i (lanes_of q) \<longleftrightarrow> i \<notin> set (map item_id (FollowUp q))
     \<and> (\<forall>d. Dispatch q = Some d \<longrightarrow> dispatch_id d = i \<longrightarrow> attempted d)"
  by (auto simp: not_waiting_def lanes_of_def split: option.splits)

lemma event_not_waiting:
  assumes "not_waiting i (lanes_of (queue s))" "exclusive (lanes_of (queue s))" "\<not> is_retry e" "\<not> queues_id i e"
  shows "not_waiting i (lanes_of (queue (queue_event_step m sid e s)))"
proof (cases e)
  case (EvQueue identity x new_id r)
  with Queue_event [of m sid identity x new_id r s] assms(1,4) show ?thesis
    by (auto simp: not_waiting_def lanes_of_def queues_id_def)
next
  case (EvEdit a ln n x r r')
  from Edit_event [of m sid a ln n x r r' s] show ?thesis
  proof (elim disjE exE conjE)
    fix t q assume q: "lanes_of (queue (queue_event_step m sid (EvEdit a ln n x r r') s)) = lanes_of q"
      "(if ln = SteeringLane then edit_steering n t (queue s)
        else edit_followUp (promptActive s) n t (queue s)) = Some q"
    note l = edit_lanes [OF q(2)]
    from l(2,3) assms(1) show ?thesis unfolding EvEdit q(1) not_waiting_lanes l(1)
      by (cases "Dispatch q"; cases "Dispatch (queue s)") auto
  qed (use assms(1) EvEdit in simp)
next
  case (EvRemove a ln n r r')
  from Remove_event [of m sid a ln n r r' s] show ?thesis
  proof (elim disjE exE conjE)
    fix q u assume q: "lanes_of (queue (queue_event_step m sid (EvRemove a ln n r r') s)) = lanes_of q"
      "(if ln = SteeringLane then remove_steering n (queue s)
        else remove_followUp (promptActive s) n (queue s)) = Some (q, u)"
    from remove_lanes [OF q(2)] assms(1) show ?thesis unfolding EvRemove q(1) not_waiting_lanes by auto
  qed (use assms(1) EvRemove in simp)
qed (use assms auto_steps_not_waiting [OF automatic_refines [OF _ assms(2), of e m sid]]
     in \<open>simp_all add: automatic_def is_retry_def\<close>)

lemma event_exclusive:
  assumes "exclusive (lanes_of (queue s))"
  shows "exclusive (lanes_of (queue (queue_event_step m sid e s)))"
proof (cases e)
  case (EvQueue identity x new_id r)
  with Queue_event [of m sid identity x new_id r s] assms show ?thesis by (auto simp: exclusive_def lanes_of_def)
next
  case (EvEdit a ln n x r r')
  from Edit_event [of m sid a ln n x r r' s] show ?thesis
  proof (elim disjE exE conjE)
    fix t q assume q: "lanes_of (queue (queue_event_step m sid (EvEdit a ln n x r r') s)) = lanes_of q"
      "(if ln = SteeringLane then edit_steering n t (queue s)
        else edit_followUp (promptActive s) n t (queue s)) = Some q"
    from edit_lanes(4,5) [OF q(2)] assms show ?thesis unfolding EvEdit q(1) by (simp add: exclusive_def lanes_of_def)
  qed (use assms EvEdit in simp)
next
  case (EvRemove a ln n r r')
  from Remove_event [of m sid a ln n r r' s] show ?thesis
  proof (elim disjE exE conjE)
    fix q u assume q: "lanes_of (queue (queue_event_step m sid (EvRemove a ln n r r') s)) = lanes_of q"
      "(if ln = SteeringLane then remove_steering n (queue s)
        else remove_followUp (promptActive s) n (queue s)) = Some (q, u)"
    from remove_lanes(2,3) [OF q(2)] assms show ?thesis unfolding EvRemove q(1) by (auto simp: exclusive_def lanes_of_def)
  qed (use assms EvRemove in simp)
next
  case (EvRetry i ln n r reply r1 r2)
  obtain q1 where q1: "auto_steps (transcript_proves reply) (lanes_of (queue s)) (lanes_of q1)"
    "lanes_of (queue (queue_event_step m sid e s)) = lanes_of q1
     \<or> (\<exists>item q. retry_item (promptActive s) q1 = Some (item, q)
          \<and> lanes_of (queue (queue_event_step m sid e s)) = lanes_of (q\<lparr>FollowUp := item # FollowUp q\<rparr>))"
    using Retry_event [OF assms] EvRetry by metis
  from auto_steps_exclusive [OF q1(1) assms] q1(2) retry_item_items(2) show ?thesis by metis
qed (use auto_steps_exclusive [OF automatic_refines [OF _ assms, of e m sid] assms] in \<open>simp_all add: automatic_def\<close>)

section \<open>Well-formed lanes\<close>

definition lanes_ok :: "lanes \<Rightarrow> bool" where
  "lanes_ok l \<longleftrightarrow> exclusive l \<and> distinct (map item_id (lane_items l)) \<and> list_all item_ok (lane_items l)
     \<and> length (lane_items l) \<le> 20"

lemma queue_ok_lanes: "queue_ok q \<Longrightarrow> lanes_ok (lanes_of q)"
  by (simp add: queue_ok_def lanes_ok_def exclusive_def) (simp add: lanes_of_def)

text \<open>A new message comes with an identifier of its own.\<close>

definition fresh_event :: "sessionQueueState \<Rightarrow> queue_event \<Rightarrow> bool" where
  "fresh_event q e \<longleftrightarrow>
     (case e of EvQueue _ _ new_id _ \<Rightarrow> validateIdentity new_id \<and> new_id \<notin> item_id ` set (queue_items q) | _ \<Rightarrow> True)"

lemma lanes_ok_subset:
  assumes "lanes_ok l" "exclusive l'" "mset (lane_items l) = mset (lane_items l') + gone"
  shows "lanes_ok l'"
proof -
  have sub: "set (lane_items l') \<subseteq> set (lane_items l)"
    using assms(3) by (metis mset_subset_eq_add_left set_mset_mono set_mset_mset)
  obtain zs where zs: "mset zs = gone" using ex_mset by blast
  have "mset (map item_id (lane_items l)) = mset (map item_id (lane_items l' @ zs))"
    using assms(3) zs by (simp add: mset_map)
  then have "distinct (map item_id (lane_items l' @ zs))"
    using assms(1) mset_eq_imp_distinct_iff unfolding lanes_ok_def by metis
  then have "distinct (map item_id (lane_items l'))" by simp
  moreover have "length (lane_items l') \<le> length (lane_items l)"
    using arg_cong [OF assms(3), of size] by simp
  ultimately show ?thesis using assms(1,2) sub by (auto simp: lanes_ok_def list_all_iff)
qed

lemma queuedText_again: "queuedText x = Some t \<Longrightarrow> queuedText t = Some t"
  by (auto simp: queuedText_def Let_def split: if_splits)

lemma items_ok_update:
  assumes "queuedText t = Some t" "list_all item_ok is" "n < length is"
  shows "list_all item_ok (is[n := (is ! n)\<lparr>item_text := t\<rparr>])"
proof -
  have "item_ok (is ! n)" using assms(2,3) by (simp add: list_all_length)
  then have "item_ok ((is ! n)\<lparr>item_text := t\<rparr>)" using assms(1) by (simp add: item_ok_def)
  with assms(2) show ?thesis by (auto simp: list_all_iff dest: subsetD [OF set_update_subset_insert])
qed

lemma edit_items:
  assumes "(if ln = SteeringLane then edit_steering n t q else edit_followUp active n t q) = Some q'"
    and "queuedText t = Some t" "list_all item_ok (queue_items q)"
  shows "map item_id (queue_items q') = map item_id (queue_items q)" "list_all item_ok (queue_items q')"
proof -
  have "map item_id (queue_items q') = map item_id (queue_items q) \<and> list_all item_ok (queue_items q')"
  proof (cases "ln = SteeringLane")
    case True
    with assms show ?thesis by (auto simp: edit_steering_def queue_items_def split: if_splits)
  next
    case False
    with assms(1) have r: "edit_followUp active n t q = Some q'" by simp
    from edit_followUp_edited [of active n t q] r have e: "0 \<le> n" "n < int (length (shown_items active q))"
      "hidden_items active q' = hidden_items active q"
      "shown_items active q' = (shown_items active q)[nat n := (shown_items active q ! nat n)\<lparr>item_text := t\<rparr>]"
      by (auto simp: edited_def split: if_splits)
    have n: "nat n < length (shown_items active q)" using e(1,2) by linarith
    from assms(3) have "list_all item_ok (shown_items active q)" "list_all item_ok (hidden_items active q)"
      by (simp_all add: items_split [of q active])
    with items_ok_update [OF assms(2) _ n] e(3,4) show ?thesis
      by (simp add: items_split [of q active] items_split [of q' active])
  qed
  then show "map item_id (queue_items q') = map item_id (queue_items q)" "list_all item_ok (queue_items q')" by simp_all
qed

lemma mset_remove_nth: "n < length xs \<Longrightarrow> mset xs = mset (remove_nth n xs) + {#xs ! n#}"
  by (metis add_mset_add_single id_take_nth_drop mset.simps(2) mset_append remove_nth_def union_mset_add_mset_right)

lemma remove_items:
  assumes "(if ln = SteeringLane then remove_steering n q else remove_followUp active n q) = Some (q', u)"
  shows "\<exists>gone. mset (queue_items q) = mset (queue_items q') + gone"
proof (cases "ln = SteeringLane")
  case True
  with assms show ?thesis by (intro exI [of _ "{#}"]) (auto simp: remove_steering_def queue_items_def split: if_splits)
next
  case False
  with assms have r: "remove_followUp active n q = Some (q', u)" by simp
  from remove_followUp_removed [of active n q] r have e: "0 \<le> n" "n < int (length (shown_items active q))"
    "hidden_items active q' = hidden_items active q" "shown_items active q' = remove_nth (nat n) (shown_items active q)"
    by (auto simp: removed_def split: if_splits)
  have "nat n < length (shown_items active q)" using e(1,2) by linarith
  from mset_remove_nth [OF this] e(3,4) show ?thesis
    by (auto simp: items_split [of q active] items_split [of q' active])
qed

lemma event_lanes_ok:
  assumes "lanes_ok (lanes_of (queue s))" "fresh_event (queue s) e"
  shows "lanes_ok (lanes_of (queue (queue_event_step m sid e s)))"
proof -
  let ?s' = "queue_event_step m sid e s"
  have ex: "exclusive (lanes_of (queue s))" using assms(1) by (simp add: lanes_ok_def)
  note ex' = event_exclusive [OF ex, of m sid e]
  consider (queue) i x n r where "e = EvQueue i x n r" | (edit) a ln n x r r' where "e = EvEdit a ln n x r r'"
    | (remove) a ln n r r' where "e = EvRemove a ln n r r'" | (other) "\<not> user_change e" "\<forall>i x n r. e \<noteq> EvQueue i x n r"
    by (cases e) (auto simp: user_change_def)
  then show ?thesis
  proof cases
    case queue
    from Queue_event [of m sid i x n r s] show ?thesis
    proof (elim disjE exE conjE)
      fix t assume t: "queuedText x = Some t" "queuedFollowUpCount (queue s) < 20"
        "queue (queue_event_step m sid (EvQueue i x n r) s) = (remember i (queue s))\<lparr>
             FollowUp := FollowUp (queue s) @ [\<lparr>item_id = n, item_text = t\<rparr>], Revision := r\<rparr>"
      then have "queue_items (queue ?s') = queue_items (queue s) @ [\<lparr>item_id = n, item_text = t\<rparr>]"
        using queue by (simp add: queue_items_def)
      moreover have "item_ok \<lparr>item_id = n, item_text = t\<rparr>"
        using assms(2) queue queuedText_again [OF t(1)] by (simp add: item_ok_def fresh_event_def)
      ultimately show ?thesis
        using assms ex' t(2) queue by (simp add: lanes_ok_def length_queue_items fresh_event_def)
    qed (use assms queue in simp)
  next
    case edit
    from Edit_event [of m sid a ln n x r r' s] show ?thesis
    proof (elim disjE exE conjE)
      fix t q assume q: "queuedText x = Some t"
        "lanes_of (queue (queue_event_step m sid (EvEdit a ln n x r r') s)) = lanes_of q"
        "(if ln = SteeringLane then edit_steering n t (queue s)
          else edit_followUp (promptActive s) n t (queue s)) = Some q"
      have "list_all item_ok (queue_items (queue s))" using assms(1) by (simp add: lanes_ok_def)
      note ei = edit_items [OF q(3) queuedText_again [OF q(1)] this]
      have "length (queue_items q) = length (queue_items (queue s))" using ei(1) by (metis length_map)
      with ei ex' assms(1) show ?thesis unfolding edit q(2) by (simp add: lanes_ok_def)
    qed (use assms edit in simp)
  next
    case remove
    from Remove_event [of m sid a ln n r r' s] show ?thesis
    proof (elim disjE exE conjE)
      fix q u assume q: "lanes_of (queue (queue_event_step m sid (EvRemove a ln n r r') s)) = lanes_of q"
        "(if ln = SteeringLane then remove_steering n (queue s)
          else remove_followUp (promptActive s) n (queue s)) = Some (q, u)"
      obtain gone where "mset (queue_items (queue s)) = mset (queue_items q) + gone" using remove_items [OF q(2)] by blast
      with lanes_ok_subset [OF assms(1), of "lanes_of q" gone] ex' show ?thesis unfolding remove q(1) by simp
    qed (use assms remove in simp)
  next
    case other
    have "Dispatch (queue s) = None \<or> Blocked (queue s) = None" using ex by (simp add: exclusive_def lanes_of_def)
    from event_items [OF this other(1), of m sid] other(2) obtain gone where
      "mset (queue_items (queue s)) = mset (queue_items (queue ?s')) + gone" by auto
    with lanes_ok_subset [OF assms(1) ex'] show ?thesis by simp
  qed
qed

text \<open>The events in sequence, in any order and with any answers.\<close>

inductive chat_run :: "string \<Rightarrow> chat \<Rightarrow> queue_event list \<Rightarrow> chat \<Rightarrow> bool" for sid s where
  start: "chat_run sid s [] s"
| event: "chat_run sid s es s' \<Longrightarrow> fresh_event (queue s') e \<Longrightarrow> chat_run sid s (es @ [e]) (queue_event_step m sid e s')"

lemma run_lanes_ok: "chat_run sid s es s' \<Longrightarrow> lanes_ok (lanes_of (queue s)) \<Longrightarrow> lanes_ok (lanes_of (queue s'))"
  by (induction rule: chat_run.induct) (simp_all add: event_lanes_ok)

lemma run_not_waiting:
  assumes "chat_run sid s es s'" "lanes_ok (lanes_of (queue s))" "not_waiting i (lanes_of (queue s))"
    and "\<forall>e \<in> set es. \<not> is_retry e \<and> \<not> queues_id i e"
  shows "not_waiting i (lanes_of (queue s'))"
  using assms
proof (induction rule: chat_run.induct)
  case (event es s' e m)
  from run_lanes_ok [OF event(1,4)] have "exclusive (lanes_of (queue s'))" by (simp add: lanes_ok_def)
  with event show ?case by (intro event_not_waiting) auto
qed simp

lemma last_n_Suc_snoc: "last_n (Suc n) (xs @ [x]) = last_n n xs @ [x]"
  by (simp add: last_n_def)

lemma operation_in_other: "operation_in hs i = Inr False \<longleftrightarrow> op_key i \<notin> op_key ` set hs"
  by (induction hs) (auto split: if_splits)

lemma operation_in_snoc: "op_key i \<notin> op_key ` set hs \<Longrightarrow> operation_in (hs @ [i]) i = Inr True"
  by (induction hs) auto

lemma operation_remember:
  assumes "op_key i \<noteq> []" "operation q i = Inr False" "Handled q' = Handled (remember i q)"
  shows "operation q' i = Inr True"
proof -
  have "op_key i \<notin> op_key ` set (Handled q)" using assms(1,2) by (simp add: operation_def operation_in_other)
  then have "op_key i \<notin> op_key ` set (last_n 511 (Handled q))" using set_last_n by fastforce
  moreover have "Handled q' = last_n 511 (Handled q) @ [i]"
    using assms(1,3) last_n_Suc_snoc [of 511 "Handled q" i] by (simp add: remember_def maxQueueOperations_def)
  ultimately show ?thesis using assms(1) by (simp add: operation_def operation_in_snoc)
qed

lemma operation_reused:
  "operation q i = Inr True \<Longrightarrow> op_key j = op_key i \<Longrightarrow> op_fingerprint j \<noteq> op_fingerprint i \<Longrightarrow>
     operation q j = Inl RequestReused"
proof -
  assume "operation q i = Inr True" and j: "op_key j = op_key i" "op_fingerprint j \<noteq> op_fingerprint i"
  then have "op_key i \<noteq> []" "operation_in (Handled q) i = Inr True" by (auto simp: operation_def split: if_splits)
  then have "operation_in hs j = Inl RequestReused" if "operation_in hs i = Inr True" for hs
    using that j by (induction hs) (auto split: if_splits)
  with \<open>op_key i \<noteq> []\<close> \<open>operation_in (Handled q) i = Inr True\<close> j show ?thesis by (simp add: operation_def)
qed

text \<open>The four mutations with the identity of the request that asks for them.\<close>

fun queue_mutation :: "manager \<Rightarrow> string \<Rightarrow> queue_event \<Rightarrow> chat \<Rightarrow> outcome" where
  "queue_mutation m sid (EvQueue i t new_id r) s = Queue m sid i t new_id r s"
| "queue_mutation m sid (EvEdit i ln n t r r') s = EditQueue m sid i ln n t r r' s"
| "queue_mutation m sid (EvRemove i ln n r r') s = RemoveQueue m sid i ln n r r' s"
| "queue_mutation m sid (EvRetry i ln n r reply r1 r2) s = RetryQueue m sid i ln n r reply r1 r2 s"
| "queue_mutation m sid _ s = (None, s)"

fun identity_of :: "queue_event \<Rightarrow> queueOperation option" where
  "identity_of (EvQueue i t new_id r) = Some i"
| "identity_of (EvEdit i ln n t r r') = Some i"
| "identity_of (EvRemove i ln n r r') = Some i"
| "identity_of (EvRetry i ln n r reply r1 r2) = Some i"
| "identity_of _ = None"

text \<open>A text that is no message is refused before anything else.\<close>

definition sends_text :: "queue_event \<Rightarrow> bool" where
  "sends_text e \<longleftrightarrow> (case e of EvQueue _ x _ _ \<Rightarrow> queuedText x \<noteq> None | _ \<Rightarrow> True)"

lemma mutation_once:
  assumes "identity_of e = Some i" "sends_text e"
  shows "\<exists>k. queue_mutation m sid e s = once i s k"
proof (cases e)
  case (EvQueue j x new_id r)
  with assms obtain t where "queuedText x = Some t" "j = i" by (auto simp: sends_text_def)
  with EvQueue show ?thesis unfolding EvQueue queue_mutation.simps Queue_def
    by (simp only: option.case) (rule exI, rule refl)
next
  case (EvEdit j ln n x r r')
  with assms(1) have "j = i" by simp
  then show ?thesis unfolding EvEdit queue_mutation.simps EditQueue_def by (simp only:) (rule exI, rule refl)
next
  case (EvRemove j ln n r r')
  with assms(1) have "j = i" by simp
  then show ?thesis unfolding EvRemove queue_mutation.simps RemoveQueue_def by (simp only:) (rule exI, rule refl)
next
  case (EvRetry j ln n r reply r1 r2)
  with assms(1) have "j = i" by simp
  then show ?thesis unfolding EvRetry queue_mutation.simps RetryQueue_def by (simp only:) (rule exI, rule refl)
qed (use assms in simp_all)

lemma commit_Handled: "commit m sid q s = (None, s') \<Longrightarrow> Handled (queue s') = Handled q"
  using commit_result [of m sid q s None s'] by simp

lemma edit_Handled:
  "(if ln = SteeringLane then edit_steering n t q else edit_followUp active n t q) = Some q' \<Longrightarrow> Handled q' = Handled q"
  using edit_followUp_edited [of active n t q]
  by (auto simp: edit_steering_def edited_def split: if_splits)

lemma remove_Handled:
  "(if ln = SteeringLane then remove_steering n q else remove_followUp active n q) = Some (q', u) \<Longrightarrow> Handled q' = Handled q"
  using remove_followUp_removed [of active n q]
  by (auto simp: remove_steering_def removed_def split: if_splits)

lemma remember_Handled: "Handled q' = Handled q \<Longrightarrow> Handled (remember i q') = Handled (remember i q)"
  by (simp add: remember_def)

lemma recovered_Handled [simp]: "Handled (recovered_queue d rec r q) = Handled q"
  by (cases rec) (simp_all add: recovered_queue_def)

lemma attach_Handled: "attachLocked m sid reply r s = (e, s') \<Longrightarrow> Handled (queue s') = Handled (queue s)"
  using attach_result [of m sid reply r s e s'] by auto

lemma retry_attached_Handled:
  assumes "retry_attached m sid i revision retry_id r s = (None, s')"
  shows "Handled (queue s') = Handled (remember i (queue s))"
proof (cases "revision \<noteq> Revision (queue s) \<and> (case Blocked (queue s) of None \<Rightarrow> True | Some b \<Rightarrow> item_id b \<noteq> retry_id)")
  case True
  with assms have "saveQueueLocked m sid (remember i (queue s)) s = (None, s')" by (simp add: retry_attached_def)
  from save_result [OF this] show ?thesis by simp
next
  case False
  show ?thesis
  proof (cases "retry_item (promptActive s) (queue s)")
    case None
    with False assms show ?thesis by (auto simp: retry_attached_def)
  next
    case (Some iq)
    obtain item q where iq: "iq = (item, q)" by force
    have h: "Handled q = Handled (queue s)" using Some iq by (auto simp: retry_item_def split: option.splits if_splits)
    obtain e1 s1 where
      c: "commit m sid ((remember i (q\<lparr>FollowUp := item # FollowUp q\<rparr>))\<lparr>Revision := r\<rparr>) s = (e1, s1)" by force
    note r = assms [unfolded retry_attached_def if_not_P [OF False] Some iq option.case prod.case Let_def c]
    from schedule_after_result [OF r] commit_result [OF c] remember_Handled [of "q\<lparr>FollowUp := item # FollowUp q\<rparr>" "queue s"] h
    show ?thesis by simp
  qed
qed

lemma once_new: "operation (queue s) i = Inr False \<Longrightarrow> once i s k = k"
  by (simp add: once_def)

lemma Queue_Handled:
  assumes "Queue m sid i x new_id r s = (None, s')" "operation (queue s) i = Inr False"
  shows "Handled (queue s') = Handled (remember i (queue s))"
proof -
  obtain t where t: "queuedText x = Some t" using assms(1) by (cases "queuedText x") (auto simp: Queue_def)
  let ?q = "(remember i (queue s))\<lparr>FollowUp := FollowUp (queue s) @ [\<lparr>item_id = new_id, item_text = t\<rparr>], Revision := r\<rparr>"
  obtain e1 s1 where c: "commit m sid ?q s = (e1, s1)" by force
  have "schedule_after m (e1, s1) = (None, s')"
    using assms(1) t c by (simp add: Queue_def once_new [OF assms(2)] split: if_splits)
  from schedule_after_result [OF this] commit_result [OF c] show ?thesis by simp
qed

lemma Edit_Handled:
  assumes "EditQueue m sid i ln n x r r' s = (None, s')" "operation (queue s) i = Inr False"
  shows "Handled (queue s') = Handled (remember i (queue s))"
proof -
  obtain t q where tq: "(if ln = SteeringLane then edit_steering n t (queue s) else edit_followUp (promptActive s) n t (queue s)) = Some q"
    "commit m sid ((remember i q)\<lparr>Revision := r'\<rparr>) s = (None, s')"
    using assms(1) by (auto simp: EditQueue_def once_new [OF assms(2)] split: if_splits option.splits)
  from commit_Handled [OF tq(2)] remember_Handled [OF edit_Handled [OF tq(1)]] show ?thesis by simp
qed

lemma Remove_Handled:
  assumes "RemoveQueue m sid i ln n r r' s = (None, s')" "operation (queue s) i = Inr False"
  shows "Handled (queue s') = Handled (remember i (queue s))"
proof (cases "(if ln = SteeringLane then remove_steering n (queue s) else remove_followUp (promptActive s) n (queue s))")
  case None
  from assms(1) show ?thesis
    by (simp add: RemoveQueue_def once_new [OF assms(2)] None split: if_splits)
next
  case (Some qu)
  obtain q u where qu: "qu = (q, u)" by force
  obtain e1 s1 where c: "commit m sid ((remember i q)\<lparr>Revision := r'\<rparr>) s = (e1, s1)" by force
  have "(if u then schedule_after m (e1, s1) else (e1, s1)) = (None, s')"
    using assms(1) Some qu c by (simp add: RemoveQueue_def once_new [OF assms(2)] Let_def split: if_splits)
  then have "e1 = None" "queue s' = queue s1" by (auto split: if_splits dest!: schedule_after_result)
  with commit_result [OF c] remember_Handled [OF remove_Handled [OF Some [unfolded qu]]] show ?thesis by simp
qed

lemma Retry_Handled:
  assumes "RetryQueue m sid i ln n r reply r1 r2 s = (None, s')" "operation (queue s) i = Inr False"
  shows "Handled (queue s') = Handled (remember i (queue s))"
proof -
  define attempt where "attempt = (case Dispatch (queue s) of Some d \<Rightarrow> attempted d \<and> \<not> promptActive s | None \<Rightarrow> False)"
  define retry_id where "retry_id = (if attempt then dispatch_id (the (Dispatch (queue s)))
      else (case Blocked (queue s) of Some b \<Rightarrow> item_id b | None \<Rightarrow> []))"
  define s1 where "s1 = (if attempt then requireQueueReplayLocked s else s)"
  have q1: "queue s1 = queue s" by (simp add: s1_def requireQueueReplayLocked_def)
  obtain e2 s2 where a: "attachLocked m sid reply r1 s1 = (e2, s2)" by force
  have "retry_attached m sid i r retry_id r2 s2 = (None, s')"
    using assms(1) [unfolded RetryQueue_def once_new [OF assms(2)] Let_def, folded attempt_def, folded retry_id_def,
        folded s1_def, unfolded a] by (cases e2) (auto split: if_splits)
  from retry_attached_Handled [OF this] remember_Handled [OF attach_Handled [OF a]] show ?thesis by (simp add: q1)
qed

text \<open>A mutation that succeeds leaves its identity remembered.\<close>

lemma mutation_remembers:
  assumes "queue_mutation m sid e s = (None, s')" "identity_of e = Some i" "op_key i \<noteq> []"
  shows "operation (queue s') i = Inr True"
proof -
  have "sends_text e" using assms(1) by (cases e) (auto simp: sends_text_def Queue_def split: option.splits)
  from mutation_once [OF assms(2) this] obtain k where k: "queue_mutation m sid e s = once i s k" by blast
  consider x where "operation (queue s) i = Inl x" | "operation (queue s) i = Inr True" | "operation (queue s) i = Inr False"
    by (metis (full_types) sum.exhaust)
  then show ?thesis
  proof cases
    case 3
    have "Handled (queue s') = Handled (remember i (queue s))"
      using assms(1,2) 3 Queue_Handled Edit_Handled Remove_Handled Retry_Handled by (cases e) auto
    from operation_remember [OF assms(3) 3 this] show ?thesis .
  qed (use assms(1) k in \<open>auto simp: once_def\<close>)
qed





definition demo_sent_chat :: chat where
  "demo_sent_chat = demo_chat\<lparr>queue := demo_queue\<lparr>FollowUp := [], Dispatch := Some \<lparr>dispatch_id = ''i'',
     dispatch_text = ''hello'', previousUserMessages = 0, attempted = True\<rparr>\<rparr>, attached := 0\<rparr>"

lemma demo_item_ok: "item_ok \<lparr>item_id = ''i'', item_text = ''hello''\<rparr>"
  by (simp add: item_ok_def queuedText_def TrimSpace_def space_seg_def is_space_def containsNUL_def valid_utf8_def
      rune_error_def validateIdentity_def utf16Length_def ContainsAny_def)


text \<open>C16: A chat never holds more than 20 follow-ups, their identifiers stay distinct and their texts valid, and a
  message is never blocked while another is being dispatched, through every sequence of events.\<close>

theorem queue_stays_well_formed:
  assumes "chat_run sid s es s'" "queue_ok (queue s)"
  shows "queuedFollowUpCount (queue s') \<le> 20 \<and> distinct (map item_id (queue_items (queue s')))
    \<and> list_all item_ok (queue_items (queue s')) \<and> (Dispatch (queue s') = None \<or> Blocked (queue s') = None)"
proof -
  have "lanes_ok (lanes_of (queue s'))" using run_lanes_ok [OF assms(1)] queue_ok_lanes [OF assms(2)] by blast
  then show ?thesis by (simp add: lanes_ok_def length_queue_items exclusive_def) (simp add: lanes_of_def)
qed

theorem queue_stays_well_formed_witness:
  "queuedFollowUpCount (queue (queue_event_step demo_manager ''s''
     (EvQueue \<lparr>op_key = [], op_fingerprint = []\<rparr> ''more'' ''j'' ''r2'') demo_chat)) \<le> 20"
proof -
  let ?e = "EvQueue \<lparr>op_key = [], op_fingerprint = []\<rparr> ''more'' ''j'' ''r2''"
  have "fresh_event (queue demo_chat) ?e"
    by (simp add: fresh_event_def validateIdentity_def utf16Length_def ContainsAny_def queue_items_def demo_chat_def demo_queue_def)
  then have run: "chat_run ''s'' demo_chat ([] @ [?e]) (queue_event_step demo_manager ''s'' ?e demo_chat)"
    by (rule chat_run.event [OF chat_run.start])
  have "queue_ok (queue demo_chat)"
    using demo_item_ok by (simp add: queue_ok_def demo_chat_def queue_items_def demo_queue_def)
  from queue_stays_well_formed [OF run this] show ?thesis by blast
qed

text \<open>Edits and removals refer to the list the client was shown: an accepted edit at an index changes the
  text there and nothing else in that list, an accepted removal deletes that entry and nothing else,
  and an index outside the list is refused with nothing changed.\<close>

theorem edit_and_remove_as_shown:
  fixes s :: chat
  defines "shown c \<equiv> wire_followUp (wire (queue c) (\<not> promptActive s))"
  shows "(EditQueue m sid i FollowUpLane n x r r' s = (None, s') \<and> operation (queue s) i = Inr False \<longrightarrow>
        0 \<le> n \<and> nat n < length (shown s) \<and> (\<exists>t. queuedText x = Some t \<and> shown s' = (shown s)[nat n := t]))
    \<and> (RemoveQueue m sid i FollowUpLane n r r' s = (None, s') \<and> operation (queue s) i = Inr False \<longrightarrow>
        0 \<le> n \<and> nat n < length (shown s) \<and> shown s' = remove_nth (nat n) (shown s))
    \<and> (RemoveQueue m sid i FollowUpLane n r r' s = (Some NotFound, s') \<longrightarrow> queue s' = queue s)"
proof (intro conjI impI)
  have sh: "shown c = map item_text (shown_items (promptActive s) (queue c))" for c
    by (simp add: shown_def wire_shown)
  {
    assume a: "EditQueue m sid i FollowUpLane n x r r' s = (None, s') \<and> operation (queue s) i = Inr False"
    then obtain t q where q: "queuedText x = Some t" "edit_followUp (promptActive s) n t (queue s) = Some q"
      "commit m sid ((remember i q)\<lparr>Revision := r'\<rparr>) s = (None, s')"
      by (auto simp: EditQueue_def once_new split: if_splits option.splits)
    from edit_followUp_edited [of "promptActive s" n t "queue s"] q(2) have
      e: "0 \<le> n" "n < int (length (shown_items (promptActive s) (queue s)))"
      "shown_items (promptActive s) q = (shown_items (promptActive s) (queue s))
         [nat n := (shown_items (promptActive s) (queue s) ! nat n)\<lparr>item_text := t\<rparr>]"
      by (auto simp: edited_def split: if_splits)
    have "shown_items (promptActive s) (queue s') = shown_items (promptActive s) q"
      using commit_result [OF q(3)] by (simp add: shown_items_def)
    with q(1) e show "0 \<le> n" "nat n < length (shown s)" "\<exists>t. queuedText x = Some t \<and> shown s' = (shown s)[nat n := t]"
      by (auto simp: sh map_update)
  }
  {
    assume a: "RemoveQueue m sid i FollowUpLane n r r' s = (None, s') \<and> operation (queue s) i = Inr False"
    then obtain q u where q: "remove_followUp (promptActive s) n (queue s) = Some (q, u)"
      by (cases "remove_followUp (promptActive s) n (queue s)") (auto simp: RemoveQueue_def once_new split: if_splits)
    obtain e1 s1 where c: "commit m sid ((remember i q)\<lparr>Revision := r'\<rparr>) s = (e1, s1)" by force
    have "(if u then schedule_after m (e1, s1) else (e1, s1)) = (None, s')"
      using a q c by (auto simp: RemoveQueue_def once_new Let_def split: if_splits)
    then have "e1 = None" "queue s' = queue s1" by (auto split: if_splits dest!: schedule_after_result)
    with commit_result [OF c] have s': "shown_items (promptActive s) (queue s') = shown_items (promptActive s) q"
      by (simp add: shown_items_def)
    from remove_followUp_removed [of "promptActive s" n "queue s"] q have
      "0 \<le> n" "n < int (length (shown_items (promptActive s) (queue s)))"
      "shown_items (promptActive s) q = remove_nth (nat n) (shown_items (promptActive s) (queue s))"
      by (auto simp: removed_def split: if_splits)
    with s' show "0 \<le> n" "nat n < length (shown s)" "shown s' = remove_nth (nat n) (shown s)"
      by (auto simp: sh map_remove_nth)
  }
  assume a: "RemoveQueue m sid i FollowUpLane n r r' s = (Some NotFound, s')"
  from Remove_result [OF a] show "queue s' = queue s" by auto
qed

lemma demo_hello: "queuedText ''hello'' = Some ''hello''"
  using demo_item_ok by (simp add: item_ok_def)

theorem edit_and_remove_as_shown_witness:
  "\<exists>s'. EditQueue demo_manager ''s'' \<lparr>op_key = [], op_fingerprint = []\<rparr> FollowUpLane 0 ''hello'' ''r'' ''r2'' demo_chat = (None, s')
     \<and> wire_followUp (wire (queue s') True) = [''hello'']"
proof -
  let ?i = "\<lparr>op_key = [], op_fingerprint = []\<rparr>"
  have "\<exists>s'. EditQueue demo_manager ''s'' ?i FollowUpLane 0 ''hello'' ''r'' ''r2'' demo_chat = (None, s')"
    by (simp add: EditQueue_def once_def operation_def demo_hello demo_chat_def demo_queue_def edit_followUp_def edit_blocked_def
        edit_waiting_def commit_def saveQueueLocked_def demo_manager_def)
  then obtain s' where run: "EditQueue demo_manager ''s'' ?i FollowUpLane 0 ''hello'' ''r'' ''r2'' demo_chat = (None, s')" ..
  have "operation (queue demo_chat) ?i = Inr False" by (simp add: operation_def)
  with edit_and_remove_as_shown [of demo_manager "''s''" ?i 0 "''hello''" "''r''" "''r2''" demo_chat s'] run
  have "wire_followUp (wire (queue s') (\<not> promptActive demo_chat)) = (wire_followUp (wire (queue demo_chat) (\<not> promptActive demo_chat)))[nat 0 := ''hello'']"
    by (auto simp: demo_hello)
  with run show ?thesis by (simp add: demo_chat_def demo_queue_def wire_def)
qed


definition demo_prepared_chat :: chat where
  "demo_prepared_chat = demo_chat\<lparr>queue := demo_queue\<lparr>FollowUp := [], Dispatch := Some \<lparr>dispatch_id = ''i'',
     dispatch_text = ''hello'', previousUserMessages = 0, attempted = False\<rparr>\<rparr>\<rparr>"

text \<open>A store whose codec knows the rows of the sample before and after the attempt.\<close>

definition demo_attempt_rows :: "storedSessionQueue list" where
  "demo_attempt_rows = [queueRecord ''p'' ''s'' (demo_queue\<lparr>FollowUp := [], Dispatch := Some \<lparr>dispatch_id = ''i'',
     dispatch_text = ''hello'', previousUserMessages = 0, attempted = True\<rparr>\<rparr>)]"

definition demo_attempt_store :: queue_store where
  "demo_attempt_store =
     \<lparr>qs_codec = \<lparr>marshal = (\<lambda>v. if v = stored_queues demo_attempt_rows then Some ''2'' else None),
                  unmarshal = (\<lambda>s. if s = ''1'' @ [newline] then Some (stored_queues demo_queue_rows)
                              else if s = ''2'' @ [newline] then Some (stored_queues demo_attempt_rows) else None)\<rparr>,
      qs_file = demo_path, qs_temp = (''1'', ''2'')\<rparr>"

lemma demo_attempt_now: "queues_now demo_attempt_store (files demo_queue_world) = Some demo_queue_rows"
  by (simp add: queues_now_def journal_now_def read_now_def demo_queue_world_def demo_attempt_store_def
      maxJSONBytes_def Decode_def newline_def stored_queues_def validateStoredQueues_def demo_queue_valid demo_queue_rows_def)

lemma demo_attempt_valid: "validateStoredQueues (stored_queues demo_attempt_rows)"
proof -
  have "validateIdentity ''i''" "validateIdentity ''p''" "validatePiSessionID ''s''"
    by (simp_all add: validateIdentity_def utf16Length_def ContainsAny_def validatePiSessionID_def containsNUL_def)
  with demo_hello show ?thesis
    by (simp add: validateStoredQueues_def stored_queues_def demo_attempt_rows_def validate_queue_record_def validate_queue_items_def
        queueRecord_def demo_queue_def validateQueuedFollowUp_def dispatch_item_def maxQueueOperations_def maxQueuedMessages_def)
qed


text \<open>A queue mutation takes effect at most once per request identity: after it succeeded, any request with
  the same identity answers success without changing the queue or the disk, and one that reuses the
  identity for something else is refused, until 512 further operations were handled.\<close>

theorem queue_mutation_once:
  assumes "queue_mutation m sid e s = (None, s')" "identity_of e = Some i" "op_key i \<noteq> []"
    and "identity_of e2 = Some j" "op_key j = op_key i" "sends_text e2"
  shows "queue_mutation m2 sid e2 s' =
    (if op_fingerprint j = op_fingerprint i then (None, emitQueueProjection (\<not> promptActive s') s')
     else (Some RequestReused, s'))"
proof -
  note r = mutation_remembers [OF assms(1-3)]
  obtain k where k: "queue_mutation m2 sid e2 s' = once j s' k" using mutation_once [OF assms(4,6)] by blast
  show ?thesis
  proof (cases "op_fingerprint j = op_fingerprint i")
    case True
    with assms(5) have "j = i" by simp
    with r k True show ?thesis by (simp add: once_def)
  next
    case False
    from operation_reused [OF r assms(5) False] k False show ?thesis by (simp add: once_def)
  qed
qed

theorem queue_mutation_once_witness:
  "\<exists>s'. queue_mutation demo_manager ''s'' (EvQueue \<lparr>op_key = ''k'', op_fingerprint = ''f''\<rparr> ''hello'' ''j'' ''r2'') demo_chat = (None, s')
     \<and> fst (queue_mutation demo_manager ''s'' (EvRemove \<lparr>op_key = ''k'', op_fingerprint = ''g''\<rparr> FollowUpLane 0 ''r2'' ''r3'') s')
        = Some RequestReused"
proof -
  let ?e = "EvQueue \<lparr>op_key = ''k'', op_fingerprint = ''f''\<rparr> ''hello'' ''j'' ''r2''"
  let ?e2 = "EvRemove \<lparr>op_key = ''k'', op_fingerprint = ''g''\<rparr> FollowUpLane 0 ''r2'' ''r3''"
  have "\<exists>s'. queue_mutation demo_manager ''s'' ?e demo_chat = (None, s')"
    by (simp add: Queue_def once_def operation_def demo_hello demo_chat_def demo_queue_def queuedFollowUpCount_def
        maxQueuedMessages_def commit_def saveQueueLocked_def demo_manager_def schedule_after_def Let_def)
  then obtain s' where run: "queue_mutation demo_manager ''s'' ?e demo_chat = (None, s')" ..
  from queue_mutation_once [OF run, of _ ?e2] run show ?thesis by (auto simp: sends_text_def simp del: queue_mutation.simps)
qed

lemma jitter_bound: "v < 250 \<Longrightarrow> jitter_from v cs < 250"
  by (induction cs arbitrary: v) simp_all

text \<open>The delay before a failed drain is retried is at least half a second, at least doubles with every
  failure up to the seventh, and never exceeds 32.25 seconds, however often draining fails.\<close>

theorem retry_delay_bounded:
  assumes "drainRetry (retryFollowUp m s)" "\<not> drainRetry s" "drainFailures s \<le> 7"
  shows "drainFailures (retryFollowUp m s) = min 7 (drainFailures s + 1)
    \<and> 500 * 2 ^ (drainFailures (retryFollowUp m s) - 1) \<le> retry_delay sid (drainFailures (retryFollowUp m s))
    \<and> retry_delay sid (drainFailures (retryFollowUp m s)) < 32250"
proof -
  have f: "drainFailures (retryFollowUp m s) = min 7 (drainFailures s + 1)"
    using assms by (auto simp: retryFollowUp_def split: if_splits)
  then have "drainFailures (retryFollowUp m s) - 1 \<le> 6" by simp
  then have "(2::nat) ^ (drainFailures (retryFollowUp m s) - 1) \<le> 2 ^ 6" by (rule power_increasing) simp
  then show ?thesis using f jitter_bound [of 0 sid] by (simp add: retry_delay_def followUpRetryJitter_def)
qed

theorem retry_delay_bounded_witness: "retry_delay ''s'' 1 < 32250 \<and> drainFailures (retryFollowUp demo_manager demo_chat) = 1"
proof -
  have "drainRetry (retryFollowUp demo_manager demo_chat)" "\<not> drainRetry demo_chat" "drainFailures demo_chat \<le> 7"
    by (simp_all add: retryFollowUp_def demo_manager_def demo_chat_def runnableFollowUpLocked_def demo_queue_def)
  note b = retry_delay_bounded [OF this, of "''s''"]
  have "drainFailures demo_chat = 0" by (simp add: demo_chat_def)
  with b have "drainFailures (retryFollowUp demo_manager demo_chat) = 1" by simp
  with b show ?thesis by simp
qed

end
