(* ===== verification/SessionRecords.thy ===== *)
theory SessionRecords
  imports Identity Persist
begin

text \<open>
  The durable association of sessions with projects, the \<open>SessionRecords\<close> of
  \<open>internal/controller/session_state.go\<close>: one record per session, in one file. Every method loads the
  records, changes them and saves them under the component's mutex. Forgetting saves twice, so that the
  backup generation does not keep the record either.
\<close>

record ProjectSessionRecord =
  sr_ProjectID :: string
  sr_SessionID :: string
  sr_CWD :: string
  sr_ParentSessionID :: string
  sr_Title :: string

record storedSessions =
  ss_Version :: int
  ss_Engine :: string
  ss_Records :: "ProjectSessionRecord list option"

definition validateSessionRecord :: "ProjectSessionRecord \<Rightarrow> bool" where
  "validateSessionRecord r \<longleftrightarrow>
     \<not> (sr_ProjectID r = [] \<or> \<not> validatePiSessionID (sr_SessionID r) \<or> sr_CWD r = []
        \<or> containsNUL (sr_ProjectID r) \<or> containsNUL (sr_CWD r))
     \<and> \<not> (sr_ParentSessionID r \<noteq> [] \<and>
            (\<not> validatePiSessionID (sr_ParentSessionID r) \<or> sr_ParentSessionID r = sr_SessionID r))
     \<and> \<not> (sr_Title r \<noteq> [] \<and> (containsNUL (sr_Title r) \<or> utf16Length (sr_Title r) > 200))"

definition validateRecords :: "storedSessions \<Rightarrow> bool" where
  "validateRecords value =
     (if ss_Version value \<noteq> 2 \<or> ss_Engine value \<noteq> ''pi'' then False
      else (case ss_Records value of None \<Rightarrow> False | Some rs \<Rightarrow> list_all validateSessionRecord rs))"

datatype record_error = BadRecord | BadTitle | UnknownSession | RecordsUnreadable | RecordsSaveFailed

record record_store =
  rs_codec :: "storedSessions codec"
  rs_file :: path
  rs_temps :: "string \<times> string"

definition records_load :: "record_store \<Rightarrow> world \<Rightarrow> (record_error + ProjectSessionRecord list) \<times> world" where
  "records_load st w =
     (case Read (rs_codec st) validateRecords (rs_file st) w of
        (Loaded value, w) \<Rightarrow> (Inr (the (ss_Records value)), w)
      | (Absent, w) \<Rightarrow> (Inr [], w)
      | (Unreadable, w) \<Rightarrow> (Inl RecordsUnreadable, w))"

definition stored_sessions :: "ProjectSessionRecord list \<Rightarrow> storedSessions" where
  "stored_sessions rs = \<lparr>ss_Version = 2, ss_Engine = ''pi'', ss_Records = Some rs\<rparr>"

definition records_write :: "record_store \<Rightarrow> ProjectSessionRecord list \<Rightarrow> world \<Rightarrow> bool \<times> world" where
  "records_write st rs w =
     Write (rs_codec st) validateRecords (rs_file st) (fst (rs_temps st)) (snd (rs_temps st)) (stored_sessions rs) w"

definition records_save :: "record_store \<Rightarrow> ProjectSessionRecord list \<Rightarrow> world \<Rightarrow> record_error option \<times> world" where
  "records_save st rs w = (let (ok, w) = records_write st rs w in (if ok then None else Some RecordsSaveFailed, w))"

definition List_records :: "record_store \<Rightarrow> world \<Rightarrow> (record_error + ProjectSessionRecord list) \<times> world" where
  "List_records st w = records_load st w"

text \<open>The first record of the session is replaced, keeping its title when the new one has none.\<close>

fun put_record :: "ProjectSessionRecord \<Rightarrow> ProjectSessionRecord list \<Rightarrow> ProjectSessionRecord list" where
  "put_record new [] = [new]"
| "put_record new (r # rs) =
     (if sr_SessionID r = sr_SessionID new
      then (if sr_Title new = [] then new\<lparr>sr_Title := sr_Title r\<rparr> else new) # rs
      else r # put_record new rs)"

definition Record :: "record_store \<Rightarrow> ProjectSessionRecord \<Rightarrow> world \<Rightarrow> record_error option \<times> world" where
  "Record st new w =
     (if \<not> validateSessionRecord new then (Some BadRecord, w)
      else (case records_load st w of
              (Inl e, w) \<Rightarrow> (Some e, w)
            | (Inr rs, w) \<Rightarrow> records_save st (put_record new rs) w))"

fun title_record :: "string \<Rightarrow> string \<Rightarrow> string \<Rightarrow> ProjectSessionRecord list \<Rightarrow> ProjectSessionRecord list option" where
  "title_record project session title [] = None"
| "title_record project session title (r # rs) =
     (if sr_ProjectID r = project \<and> sr_SessionID r = session then Some (r\<lparr>sr_Title := title\<rparr> # rs)
      else map_option (\<lambda>rs. r # rs) (title_record project session title rs))"

definition SetTitle :: "record_store \<Rightarrow> string \<Rightarrow> string \<Rightarrow> string \<Rightarrow> world \<Rightarrow> record_error option \<times> world" where
  "SetTitle st project session title w =
     (let title = TrimSpace title in
      if title = [] \<or> containsNUL title \<or> utf16Length title > 200 then (Some BadTitle, w)
      else (case records_load st w of
              (Inl e, w) \<Rightarrow> (Some e, w)
            | (Inr rs, w) \<Rightarrow>
                (case title_record project session title rs of
                   None \<Rightarrow> (Some UnknownSession, w)
                 | Some rs \<Rightarrow> records_save st rs w)))"

definition filter_records ::
  "record_store \<Rightarrow> (ProjectSessionRecord \<Rightarrow> bool) \<Rightarrow> world \<Rightarrow> record_error option \<times> world" where
  "filter_records st keep w =
     (case records_load st w of
        (Inl e, w) \<Rightarrow> (Some e, w)
      | (Inr rs, w) \<Rightarrow>
          (case records_save st (filter keep rs) w of
             (Some e, w) \<Rightarrow> (Some e, w)
           | (None, w) \<Rightarrow> records_save st (filter keep rs) w))"

definition Forget_record :: "record_store \<Rightarrow> string \<Rightarrow> string \<Rightarrow> world \<Rightarrow> record_error option \<times> world" where
  "Forget_record st project session =
     filter_records st (\<lambda>r. sr_ProjectID r \<noteq> project \<or> sr_SessionID r \<noteq> session)"

definition ForgetProject :: "record_store \<Rightarrow> string \<Rightarrow> world \<Rightarrow> record_error option \<times> world" where
  "ForgetProject st project = filter_records st (\<lambda>r. sr_ProjectID r \<noteq> project)"

section \<open>What the store holds\<close>

definition records_view :: "storedSessions loaded \<Rightarrow> ProjectSessionRecord list option" where
  "records_view l = (case l of Loaded v \<Rightarrow> Some (the (ss_Records v)) | Absent \<Rightarrow> Some [] | Unreadable \<Rightarrow> None)"

definition records_now :: "record_store \<Rightarrow> filesys \<Rightarrow> ProjectSessionRecord list option" where
  "records_now st fs = records_view (load_now (rs_codec st) validateRecords (rs_file st) fs)"

lemma records_view_stored [simp]: "records_view (Loaded (stored_sessions rs)) = Some rs"
  by (simp add: records_view_def stored_sessions_def)

interpretation record_file: durable_store "records_now st" "records_write st" Some
  "\<lambda>rs. exact (rs_codec st) (stored_sessions rs)" for st
  using durable_store_view [OF guarded.durable_store_axioms,
      of records_view "rs_codec st" validateRecords "rs_file st" "fst (rs_temps st)" "snd (rs_temps st)" stored_sessions]
  by (simp add: records_now_def [abs_def] records_write_def [abs_def])

lemma records_load_calm:
  assumes "faults w = []"
  shows "records_load st w =
    (case records_now st (files w) of None \<Rightarrow> Inl RecordsUnreadable | Some rs \<Rightarrow> Inr rs, w)"
  by (auto simp: records_load_def Read_no_faults [OF assms] records_now_def records_view_def split: loaded.splits)

section \<open>The abstract association\<close>

type_synonym record_map = "string \<rightharpoonup> ProjectSessionRecord"

definition abs_records :: "ProjectSessionRecord list \<Rightarrow> record_map" where
  "abs_records rs = map_of (map (\<lambda>r. (sr_SessionID r, r)) rs)"

abbreviation sessions_distinct :: "ProjectSessionRecord list \<Rightarrow> bool" where
  "sessions_distinct rs \<equiv> distinct (map sr_SessionID rs)"

datatype record_op =
    DoRecord ProjectSessionRecord
  | DoTitle string string string
  | DoForgetSession string string
  | DoForgetProject string

fun record_step :: "record_store \<Rightarrow> record_op \<Rightarrow> world \<Rightarrow> record_error option \<times> world" where
  "record_step st (DoRecord r) w = Record st r w"
| "record_step st (DoTitle p s t) w = SetTitle st p s t w"
| "record_step st (DoForgetSession p s) w = Forget_record st p s w"
| "record_step st (DoForgetProject p) w = ForgetProject st p w"

definition titled :: "ProjectSessionRecord option \<Rightarrow> ProjectSessionRecord \<Rightarrow> ProjectSessionRecord" where
  "titled old new = (case old of
     Some r \<Rightarrow> if sr_Title new = [] then new\<lparr>sr_Title := sr_Title r\<rparr> else new | None \<Rightarrow> new)"

text \<open>What an operation makes of the association; \<open>None\<close> is a refusal.\<close>

fun record_spec :: "record_op \<Rightarrow> record_map \<Rightarrow> record_map option" where
  "record_spec (DoRecord r) m =
     (if validateSessionRecord r then Some (m(sr_SessionID r \<mapsto> titled (m (sr_SessionID r)) r)) else None)"
| "record_spec (DoTitle p s t) m =
     (if TrimSpace t = [] \<or> containsNUL (TrimSpace t) \<or> utf16Length (TrimSpace t) > 200 then None
      else (case m s of
              None \<Rightarrow> None
            | Some r \<Rightarrow> if sr_ProjectID r = p then Some (m(s \<mapsto> r\<lparr>sr_Title := TrimSpace t\<rparr>)) else None))"
| "record_spec (DoForgetSession p s) m =
     Some (\<lambda>k. case m k of None \<Rightarrow> None | Some r \<Rightarrow> if sr_ProjectID r = p \<and> k = s then None else Some r)"
| "record_spec (DoForgetProject p) m =
     Some (\<lambda>k. case m k of None \<Rightarrow> None | Some r \<Rightarrow> if sr_ProjectID r = p then None else Some r)"

text \<open>The list an operation saves.\<close>

fun record_next :: "record_op \<Rightarrow> ProjectSessionRecord list \<Rightarrow> ProjectSessionRecord list option" where
  "record_next (DoRecord r) rs = (if validateSessionRecord r then Some (put_record r rs) else None)"
| "record_next (DoTitle p s t) rs =
     (if TrimSpace t = [] \<or> containsNUL (TrimSpace t) \<or> utf16Length (TrimSpace t) > 200 then None
      else title_record p s (TrimSpace t) rs)"
| "record_next (DoForgetSession p s) rs = Some (filter (\<lambda>r. sr_ProjectID r \<noteq> p \<or> sr_SessionID r \<noteq> s) rs)"
| "record_next (DoForgetProject p) rs = Some (filter (\<lambda>r. sr_ProjectID r \<noteq> p) rs)"

lemma abs_records_simps [simp]:
  "abs_records [] = Map.empty"
  "abs_records (r # rs) = (abs_records rs)(sr_SessionID r \<mapsto> r)"
  by (simp_all add: abs_records_def)

lemma abs_records_None: "abs_records rs s = None \<longleftrightarrow> s \<notin> sr_SessionID ` set rs"
  by (induction rs) auto

lemma abs_records_key: "abs_records rs s = Some r \<Longrightarrow> sr_SessionID r = s"
  by (induction rs) (auto split: if_splits)

lemma put_record_sessions:
  "map sr_SessionID (put_record new rs) =
     (if sr_SessionID new \<in> set (map sr_SessionID rs) then map sr_SessionID rs
      else map sr_SessionID rs @ [sr_SessionID new])"
  by (induction rs) auto

lemma put_record_distinct: "sessions_distinct rs \<Longrightarrow> sessions_distinct (put_record new rs)"
  by (simp only: put_record_sessions) auto

lemma put_record_abs:
  "abs_records (put_record new rs) = (abs_records rs)(sr_SessionID new \<mapsto> titled (abs_records rs (sr_SessionID new)) new)"
  by (induction rs) (auto simp: titled_def fun_upd_twist)

lemma title_record_sessions: "title_record p s t rs = Some rs' \<Longrightarrow> map sr_SessionID rs' = map sr_SessionID rs"
  by (induction rs arbitrary: rs') (auto split: if_splits)

lemma title_record_abs:
  "sessions_distinct rs \<Longrightarrow> map_option abs_records (title_record p s t rs) =
     (case abs_records rs s of
        None \<Rightarrow> None
      | Some r \<Rightarrow> if sr_ProjectID r = p then Some ((abs_records rs)(s \<mapsto> r\<lparr>sr_Title := t\<rparr>)) else None)"
proof (induction rs)
  case (Cons a rs)
  show ?case
  proof (cases "sr_SessionID a = s")
    case True
    with Cons.prems have "abs_records rs s = None" by (simp add: abs_records_None)
    with True Cons show ?thesis by (auto simp: option.map_comp)
  next
    case False
    with Cons show ?thesis
      by (cases "title_record p s t rs") (auto simp: fun_upd_twist split: option.splits if_splits)
  qed
qed simp

lemma filter_abs:
  "sessions_distinct rs \<Longrightarrow> abs_records (filter P rs) =
     (\<lambda>k. case abs_records rs k of None \<Rightarrow> None | Some r \<Rightarrow> if P r then Some r else None)"
proof (induction rs)
  case (Cons a rs)
  then have "abs_records rs (sr_SessionID a) = None" by (simp add: abs_records_None)
  with Cons show ?case by (auto simp: fun_eq_iff)
qed (simp add: fun_eq_iff)

lemma record_next_abs:
  assumes "sessions_distinct rs"
  shows "map_option abs_records (record_next op rs) = record_spec op (abs_records rs)"
    and "record_next op rs = Some rs' \<Longrightarrow> sessions_distinct rs'"
proof -
  show "map_option abs_records (record_next op rs) = record_spec op (abs_records rs)"
  proof (cases op)
    case (DoForgetSession p s)
    have "(if sr_ProjectID r \<noteq> p \<or> sr_SessionID r \<noteq> s then Some r else None) =
        (if sr_ProjectID r = p \<and> k = s then None else Some r)" if "abs_records rs k = Some r" for r k
      using abs_records_key [OF that] by auto
    with DoForgetSession show ?thesis
      by (auto simp: filter_abs [OF assms] fun_eq_iff split: option.splits)
  qed (use assms in \<open>auto simp: put_record_abs title_record_abs filter_abs fun_eq_iff split: option.splits\<close>)
  show "record_next op rs = Some rs' \<Longrightarrow> sessions_distinct rs'"
    by (cases op) (use assms in \<open>auto simp: put_record_distinct distinct_map_filter dest: title_record_sessions split: if_splits\<close>)
qed

text \<open>An operation that loaded \<open>rs\<close> refuses and touches nothing, or saves what \<open>record_next\<close> says,
  once or, to forget, twice.\<close>

lemma record_step_saves:
  assumes "records_load st w = (Inr rs, w1)" "record_step st op w = (err, w')"
  obtains (refused) e where "record_next op rs = None" "err = Some e" "w' = w \<or> w' = w1"
  | (once) rs' ok where "record_next op rs = Some rs'" "records_write st rs' w1 = (ok, w')" "ok \<longleftrightarrow> err = None"
  | (twice) rs' ok w2 where "record_next op rs = Some rs'" "records_write st rs' w1 = (True, w2)"
      "records_write st rs' w2 = (ok, w')" "ok \<longleftrightarrow> err = None"
proof -
  have forget: thesis if f: "filter_records st keep w = (err, w')" "record_next op rs = Some (filter keep rs)" for keep
  proof -
    obtain b w2 where b: "records_write st (filter keep rs) w1 = (b, w2)" by force
    obtain c w3 where c: "records_write st (filter keep rs) w2 = (c, w3)" by force
    show thesis
    proof (cases b)
      case True
      with f b c assms(1) have "c \<longleftrightarrow> err = None" "w' = w3"
        by (auto simp: filter_records_def records_save_def split: if_splits)
      with f(2) b c True show thesis
        by (intro twice [where rs' = "filter keep rs" and ok = c and ?w2.0 = w2]) auto
    next
      case False
      with f b assms(1) have "\<not> b \<longleftrightarrow> err \<noteq> None" "w' = w2"
        by (auto simp: filter_records_def records_save_def split: if_splits)
      with f(2) b show thesis by (intro once [where rs' = "filter keep rs" and ok = b]) auto
    qed
  qed
  show thesis
  proof (cases op)
    case (DoRecord r)
    show thesis
    proof (cases "validateSessionRecord r")
      case True
      obtain b w2 where b: "records_write st (put_record r rs) w1 = (b, w2)" by force
      with DoRecord True assms have "b \<longleftrightarrow> err = None" "w' = w2"
        by (auto simp: Record_def records_save_def split: if_splits)
      with DoRecord True b show thesis by (intro once [where rs' = "put_record r rs" and ok = b]) auto
    next
      case False
      with DoRecord assms refused show thesis by (auto simp: Record_def)
    qed
  next
    case (DoTitle p s t)
    show thesis
    proof (cases "record_next op rs")
      case None
      with DoTitle assms refused show thesis
        by (auto simp: SetTitle_def Let_def split: if_splits option.splits)
    next
      case (Some rs')
      obtain b w2 where b: "records_write st rs' w1 = (b, w2)" by force
      with DoTitle Some assms have "b \<longleftrightarrow> err = None" "w' = w2"
        by (auto simp: SetTitle_def Let_def records_save_def split: if_splits option.splits)
      with Some b show thesis by (intro once [where rs' = rs' and ok = b]) auto
    qed
  next
    case (DoForgetSession p s)
    with assms(2) show thesis by (intro forget) (simp_all add: Forget_record_def)
  next
    case (DoForgetProject p)
    with assms(2) show thesis by (intro forget) (simp_all add: ForgetProject_def)
  qed
qed


definition demo_record :: ProjectSessionRecord where
  "demo_record = \<lparr>sr_ProjectID = ''p'', sr_SessionID = ''s'', sr_CWD = ''/'', sr_ParentSessionID = [], sr_Title = []\<rparr>"

definition demo_record_store :: record_store where
  "demo_record_store =
     \<lparr>rs_codec = \<lparr>marshal = (\<lambda>v. if v = stored_sessions [demo_record] then Some ''1'' else None),
                 unmarshal = (\<lambda>s. Some (stored_sessions [demo_record]))\<rparr>,
      rs_file = demo_path, rs_temps = (''1'', ''2'')\<rparr>"

lemma demo_record_valid: "validateSessionRecord demo_record"
  by (simp add: validateSessionRecord_def demo_record_def validatePiSessionID_def containsNUL_iff)


end
