(* ===== verification/PathPolicy.thy ===== *)
theory PathPolicy
  imports GoText
begin

text \<open>
  Which paths projects may use, \<open>internal/workspace/path_policy.go\<close>: the roots are the read-only mounts
  that do not overlap the system's directories, and a path is resolved through its symbolic links before
  it is compared with them.

  The functions of \<open>path/filepath\<close> are modelled on absolute Unix paths, by their components; every path
  the policy handles is absolute. What it asks the operating system is the argument \<open>env\<close>.
\<close>

section \<open>Paths\<close>

definition slash :: char where "slash = CHR ''/''"

definition IsAbs :: "string \<Rightarrow> bool" where
  "IsAbs p \<longleftrightarrow> take 1 p = [slash]"

text \<open>The components \<open>Clean\<close> keeps of an absolute path, the last one first.\<close>

fun clean_step :: "string list \<Rightarrow> string \<Rightarrow> string list" where
  "clean_step acc w = (if w = [] \<or> w = ''.'' then acc else if w = ''..'' then tl acc else w # acc)"

definition parts :: "string \<Rightarrow> string list" where
  "parts p = rev (foldl clean_step [] (Split slash p))"

abbreviation join_parts :: "string list \<Rightarrow> string" where
  "join_parts \<equiv> join_with [slash]"

definition rooted :: "string list \<Rightarrow> string" where
  "rooted ws = slash # join_parts ws"

definition Clean :: "string \<Rightarrow> string" where
  "Clean p = rooted (parts p)"

definition Dir :: "string \<Rightarrow> string" where
  "Dir p = rooted (butlast (parts p))"

definition Base :: "string \<Rightarrow> string" where
  "Base p = (if parts p = [] then [slash] else last (parts p))"

definition Join :: "string \<Rightarrow> string list \<Rightarrow> string" where
  "Join p ws = Clean (join_parts (p # ws))"

fun strip_common :: "string list \<Rightarrow> string list \<Rightarrow> string list \<times> string list" where
  "strip_common (b # bs) (t # ts) = (if b = t then strip_common bs ts else (b # bs, t # ts))"
| "strip_common bs ts = (bs, ts)"

definition Rel :: "string \<Rightarrow> string \<Rightarrow> string option" where
  "Rel base targ =
     (if \<not> IsAbs base \<or> \<not> IsAbs targ then None
      else if Clean targ = Clean base then Some ''.''
      else (let (bs, ts) = strip_common (parts base) (parts targ)
            in Some (join_parts (replicate (length bs) ''..'' @ ts))))"

definition Within :: "string \<Rightarrow> string \<Rightarrow> bool" where
  "Within root candidate \<longleftrightarrow>
     (case Rel root candidate of
        None \<Rightarrow> False
      | Some relative \<Rightarrow>
          relative = ''.'' \<or> relative \<noteq> ''..'' \<and> \<not> HasPrefix relative ''../'' \<and> \<not> IsAbs relative)"

section \<open>Roots\<close>

definition excludedMountPaths :: "string list" where
  "excludedMountPaths =
     [''/'', ''/app'', ''/bin'', ''/boot'', ''/dev'', ''/etc'', ''/home/pixie'', ''/lib'', ''/lib64'',
      ''/proc'', ''/root'', ''/run'', ''/sbin'', ''/sys'', ''/tmp'', ''/usr'', ''/var'',
      ''/var/lib/pixie'', ''/home/pixie/.pi'']"

definition overlapsExcluded :: "string \<Rightarrow> bool" where
  "overlapsExcluded path \<longleftrightarrow>
     path = ''/'' \<or> list_ex (\<lambda>excluded. Within excluded path \<or> Within path excluded) (tl excludedMountPaths)"

definition hasCSVValue :: "string \<Rightarrow> string \<Rightarrow> bool" where
  "hasCSVValue value wanted \<longleftrightarrow> list_ex (\<lambda>entry. entry = wanted) (Split (CHR '','') value)"

definition octal_digit :: "char \<Rightarrow> bool" where
  "octal_digit c \<longleftrightarrow> CHR ''0'' \<le> c \<and> c \<le> CHR ''7''"

text \<open>\<open>strconv.ParseUint\<close> of three characters in base 8, as a byte.\<close>

definition parse_octal :: "char \<Rightarrow> char \<Rightarrow> char \<Rightarrow> char option" where
  "parse_octal a b c =
     (if octal_digit a \<and> octal_digit b \<and> octal_digit c
      then (let n = (of_char a - 48) * 64 + (of_char b - 48) * 8 + (of_char c - 48) :: nat
            in if n < 256 then Some (char_of n) else None)
      else None)"

fun decode_mount :: "string \<Rightarrow> string option" where
  "decode_mount [] = Some []"
| "decode_mount (x # s) =
     (if x \<noteq> CHR 0x5C then map_option (\<lambda>r. x # r) (decode_mount s)
      else (case s of
              a # b # c # r \<Rightarrow>
                (case parse_octal a b c of None \<Rightarrow> None | Some y \<Rightarrow> map_option (\<lambda>r. y # r) (decode_mount r))
            | _ \<Rightarrow> None))"

definition decodeMountPath :: "string \<Rightarrow> string option" where
  "decodeMountPath value =
     (case decode_mount value of None \<Rightarrow> None | Some result \<Rightarrow> if containsNUL result then None else Some result)"

datatype evaluated = Real string | Missing | EvalFailed
datatype lstated = Present | Gone | LstatFailed

text \<open>\<open>filepath.EvalSymlinks\<close>, whether \<open>os.Stat\<close> finds a directory (\<open>None\<close> is an error), and \<open>os.Lstat\<close>.\<close>

record path_env =
  EvalSymlinks :: "string \<Rightarrow> evaluated"
  StatDir :: "string \<Rightarrow> bool option"
  Lstat :: "string \<Rightarrow> lstated"

definition admissible_root :: "path_env \<Rightarrow> bool \<Rightarrow> string \<Rightarrow> string option" where
  "admissible_root env excludeSystem candidate =
     (if \<not> IsAbs candidate then None
      else
        (let lexical = Clean candidate in
         if excludeSystem \<and> overlapsExcluded lexical then None
         else if StatDir env lexical \<noteq> Some True then None
         else (case EvalSymlinks env lexical of
                 Real canonical \<Rightarrow> if excludeSystem \<and> overlapsExcluded canonical then None else Some canonical
               | _ \<Rightarrow> None)))"

fun drop_covered :: "string list \<Rightarrow> string list \<Rightarrow> string list" where
  "drop_covered filtered [] = filtered"
| "drop_covered filtered (root # roots) =
     (if list_ex (\<lambda>parent. Within parent root) filtered then drop_covered filtered roots
      else drop_covered (filtered @ [root]) roots)"

definition NewPathPolicy :: "path_env \<Rightarrow> string list \<Rightarrow> bool \<Rightarrow> string list" where
  "NewPathPolicy env paths excludeSystem =
     (let unique = remdups (List.map_filter (admissible_root env excludeSystem) paths)
      in drop_covered [] (sort_key length (sort unique)))"

text \<open>\<open>DiscoverPathPolicy\<close> on the lines of \<open>/proc/self/mountinfo\<close>; \<open>None\<close> when it cannot be read whole.\<close>

definition mount_candidate :: "string \<Rightarrow> string option" where
  "mount_candidate line =
     (let fields = Fields line in
      if length fields < 6 \<or> \<not> hasCSVValue (fields ! 5) ''ro'' then None else decodeMountPath (fields ! 4))"

definition DiscoverPathPolicy :: "path_env \<Rightarrow> string list option \<Rightarrow> string list option" where
  "DiscoverPathPolicy env mountinfo =
     map_option (\<lambda>lines. NewPathPolicy env (List.map_filter mount_candidate lines) True) mountinfo"

section \<open>Resolution\<close>

datatype path_error = NotAbsolute | PathMissing | Outside | NotDirectory | LstatError | EvalError | ParentNotDirectory

definition assertUnderMount :: "string list \<Rightarrow> string \<Rightarrow> bool" where
  "assertUnderMount roots candidate \<longleftrightarrow> list_ex (\<lambda>root. Within root candidate) roots"

text \<open>The loop that climbs to the nearest existing ancestor, collecting the names below it; the argument is
  the components of the path, the last one first.\<close>

fun climb :: "path_env \<Rightarrow> string list \<Rightarrow> string list \<Rightarrow> path_error + string \<times> string list" where
  "climb env [] suffix =
     (case Lstat env (rooted []) of
        Present \<Rightarrow> Inr (rooted [], suffix) | Gone \<Rightarrow> Inl PathMissing | LstatFailed \<Rightarrow> Inl LstatError)"
| "climb env (w # ws) suffix =
     (case Lstat env (rooted (rev (w # ws))) of
        Present \<Rightarrow> Inr (rooted (rev (w # ws)), suffix)
      | LstatFailed \<Rightarrow> Inl LstatError
      | Gone \<Rightarrow> climb env ws (w # suffix))"

definition Resolve :: "path_env \<Rightarrow> string list \<Rightarrow> string \<Rightarrow> bool \<Rightarrow> bool \<Rightarrow> path_error + string" where
  "Resolve env roots candidate directory allowMissingLeaf =
     (if \<not> IsAbs candidate then Inl NotAbsolute
      else
        (case EvalSymlinks env (Clean candidate) of
           Real canonical \<Rightarrow>
             if \<not> assertUnderMount roots canonical then Inl Outside
             else if directory \<and> StatDir env canonical \<noteq> Some True then Inl NotDirectory
             else Inr canonical
         | EvalFailed \<Rightarrow> Inl PathMissing
         | Missing \<Rightarrow>
             if \<not> allowMissingLeaf then Inl PathMissing
             else
               (case climb env (rev (parts candidate)) [] of
                  Inl e \<Rightarrow> Inl e
                | Inr (ancestor, suffix) \<Rightarrow>
                    (case EvalSymlinks env ancestor of
                       Real canonicalAncestor \<Rightarrow>
                         if \<not> assertUnderMount roots canonicalAncestor then Inl Outside
                         else
                           (case StatDir env canonicalAncestor of
                              None \<Rightarrow> Inl ParentNotDirectory
                            | Some isDir \<Rightarrow>
                                if suffix \<noteq> [] \<and> \<not> isDir \<or> directory \<and> suffix = [] \<and> \<not> isDir
                                then Inl ParentNotDirectory
                                else Inr (Join canonicalAncestor suffix))
                     | _ \<Rightarrow> Inl EvalError))))"

definition Directory :: "path_env \<Rightarrow> string list \<Rightarrow> string \<Rightarrow> path_error + string" where
  "Directory env roots candidate = Resolve env roots candidate True False"

end
