(* ===== verification/Projects.thy ===== *)
theory Projects
  imports PathPolicy Identity Persist
begin

text \<open>
  The registry of projects, \<open>internal/workspace/projects.go\<close>: projects are read once from
  \<open>projects.json\<close>, brought to the current form (one canonical root each, distinct slugs; a legacy project
  of several roots becomes several projects), kept in memory and written back with every change. The path
  policy is the one of \<open>PathPolicy\<close>, the file the one of \<open>Persist\<close>; the digest of \<open>crypto/sha256\<close> and
  the random bytes of a new identifier are arguments. The 64-bit float of \<open>LastOpened\<close>, which the code only
  compares and copies, is its rank among the floats. \<open>Hangs\<close> is the outcome of a loop that does not end.
\<close>

record Project =
  pj_ID :: string
  pj_Name :: string
  pj_Roots :: "string list"
  pj_Slug :: string
  pj_LastOpened :: int
  pj_Icon :: string
  pj_Closed :: bool

record persistedProject =
  pp_Project :: Project
  pp_Path :: string

record ProjectRootMigration =
  SourceProjectID :: string
  MigratedRoot :: string
  TargetProjectID :: string

datatype project_error =
    ProjectsUnreadable | ProjectsUnsaved | NotOneRoot | UnknownProject | NothingToUpdate | BadName | UnknownIcon
  | Policy path_error | OutsideRoot | OtherRoot | NotMigrated | Hangs

record projects_env =
  pe_codec :: "persistedProject list option codec"
  pe_file :: path
  pe_temps :: "string \<times> string"
  pe_env :: path_env
  pe_policy :: "string list"
  pe_sha256 :: "string \<Rightarrow> 8 word list"

record projects =
  ps_loaded :: bool
  ps_projects :: "Project list"
  ps_published :: "Project list"

definition NewProjects :: projects where
  "NewProjects = \<lparr>ps_loaded = False, ps_projects = [], ps_published = []\<rparr>"

definition projectIcons :: "string list" where
  "projectIcons = [''folder'', ''code'', ''book'', ''flask'', ''rocket'', ''sparkles'']"

definition Root :: "Project \<Rightarrow> project_error + string" where
  "Root p = (if length (pj_Roots p) \<noteq> 1 \<or> pj_Roots p ! 0 = [] then Inl NotOneRoot else Inr (pj_Roots p ! 0))"

section \<open>Names that are free\<close>

text \<open>The loops that count a suffix up until the name is not taken.\<close>

partial_function (option) first_free :: "(nat \<Rightarrow> string) \<Rightarrow> string list \<Rightarrow> nat \<Rightarrow> string option" where
  "first_free candidate taken suffix =
     (if candidate suffix \<notin> set taken then Some (candidate suffix) else first_free candidate taken (Suc suffix))"

declare first_free.simps [code]

text \<open>\<open>slugify\<close>: \<open>ToLower\<close> brings the Kelvin sign and the dotted capital I to ASCII letters; every other rune
  outside ASCII stays outside.\<close>

definition slug_char :: "nat \<Rightarrow> char option" where
  "slug_char r =
     (if 0x61 \<le> r \<and> r \<le> 0x7A \<or> 0x30 \<le> r \<and> r \<le> 0x39 then Some (char_of r)
      else if 0x41 \<le> r \<and> r \<le> 0x5A then Some (char_of (r + 0x20))
      else if r = 0x130 then Some CHR ''i'' else if r = 0x212A then Some CHR ''k'' else None)"

fun dash_runs :: "bool \<Rightarrow> char option list \<Rightarrow> string" where
  "dash_runs dashed [] = []"
| "dash_runs dashed (Some c # cs) = c # dash_runs False cs"
| "dash_runs dashed (None # cs) = (if dashed then [] else ''-'') @ dash_runs True cs"

definition trim_dashes :: "string \<Rightarrow> string" where
  "trim_dashes s = rev (dropWhile (\<lambda>c. c = CHR ''-'') (rev (dropWhile (\<lambda>c. c = CHR ''-'') s)))"

definition slugify :: "string \<Rightarrow> string" where
  "slugify name =
     (let slug = trim_dashes (dash_runs False (map (slug_char \<circ> fst) (runes name)))
      in if slug = [] then ''project'' else slug)"

definition slug_candidate :: "string \<Rightarrow> nat \<Rightarrow> string" where
  "slug_candidate base suffix = base @ ''-'' @ decimal suffix"

definition uniqueSlug :: "string \<Rightarrow> string list \<Rightarrow> string option" where
  "uniqueSlug base taken = (if base \<notin> set taken then Some base else first_free (slug_candidate base) taken 2)"

definition name_candidate :: "string \<Rightarrow> nat \<Rightarrow> string" where
  "name_candidate base suffix = base @ '' ('' @ decimal suffix @ '')''"

definition uniqueProjectName :: "string \<Rightarrow> Project list \<Rightarrow> string option" where
  "uniqueProjectName base projects =
     (let base = (if base = [] \<or> base = [slash] \<or> base = ''.'' then ''Project'' else base);
          taken = map pj_Name projects
      in if base \<notin> set taken then Some base else first_free (name_candidate base) taken 2)"

definition legacy_id :: "(string \<Rightarrow> 8 word list) \<Rightarrow> string \<Rightarrow> string \<Rightarrow> nat \<Rightarrow> string" where
  "legacy_id sha256 source root suffix =
     New (take 16 (sha256 (''pixie-project-root'' @ [CHR 0x00] @ source @ [CHR 0x00] @ root @ [CHR 0x00] @ decimal suffix)))"

definition uniqueLegacyProjectID :: "(string \<Rightarrow> 8 word list) \<Rightarrow> string \<Rightarrow> string \<Rightarrow> string list \<Rightarrow> string option" where
  "uniqueLegacyProjectID sha256 source root taken = first_free (legacy_id sha256 source root) taken 0"

fun ensure_slugs :: "string list \<Rightarrow> Project list \<Rightarrow> (Project list \<times> bool) option" where
  "ensure_slugs taken [] = Some ([], False)"
| "ensure_slugs taken (p # ps) =
     (if pj_Slug p \<noteq> [] \<and> pj_Slug p \<notin> set taken
      then map_option (\<lambda>(ps, changed). (p # ps, changed)) (ensure_slugs (pj_Slug p # taken) ps)
      else
        (case uniqueSlug (slugify (pj_Name p)) taken of
           None \<Rightarrow> None
         | Some slug \<Rightarrow>
             map_option (\<lambda>(ps, changed). (p\<lparr>pj_Slug := slug\<rparr> # ps, True)) (ensure_slugs (slug # taken) ps)))"

definition ensureSlugs :: "Project list \<Rightarrow> (Project list \<times> bool) option" where
  "ensureSlugs projects = ensure_slugs [] projects"

section \<open>The file\<close>

definition validateProjects :: "persistedProject list option \<Rightarrow> bool" where
  "validateProjects values =
     (case values of
        None \<Rightarrow> False
      | Some vs \<Rightarrow> list_all (\<lambda>v.
          \<not> (pj_ID (pp_Project v) = [] \<or> pj_Roots (pp_Project v) = [] \<and> pp_Path v = []
             \<or> pj_Icon (pp_Project v) \<noteq> [] \<and> pj_Icon (pp_Project v) \<notin> set projectIcons)
          \<and> list_all (\<lambda>root. TrimSpace root \<noteq> []) (pj_Roots (pp_Project v))) vs)"

definition validateCurrentProjects :: "persistedProject list option \<Rightarrow> bool" where
  "validateCurrentProjects values \<longleftrightarrow>
     validateProjects values
     \<and> list_all (\<lambda>v. \<not> (length (pj_Roots (pp_Project v)) \<noteq> 1 \<or> pp_Path v \<noteq> [])) (the values)"

definition persisted :: "Project list \<Rightarrow> persistedProject list option" where
  "persisted projects = Some (map (\<lambda>p. \<lparr>pp_Project = p, pp_Path = []\<rparr>) projects)"

definition projects_write :: "projects_env \<Rightarrow> Project list \<Rightarrow> world \<Rightarrow> bool \<times> world" where
  "projects_write pe projects w =
     Write (pe_codec pe) validateCurrentProjects (pe_file pe) (fst (pe_temps pe)) (snd (pe_temps pe)) (persisted projects) w"

definition projects_save ::
  "projects_env \<Rightarrow> Project list \<Rightarrow> projects \<Rightarrow> world \<Rightarrow> project_error option \<times> projects \<times> world" where
  "projects_save pe projects s w =
     (let (ok, w) = projects_write pe projects w
      in if ok then (None, s\<lparr>ps_projects := projects, ps_loaded := True\<rparr>, w) else (Some ProjectsUnsaved, s, w))"

section \<open>Bringing the stored projects to the current form\<close>

text \<open>The roots of an entry that resolve and are not claimed yet, in order; whether a change was needed.\<close>

fun claim_roots ::
  "(string \<Rightarrow> path_error + string) \<Rightarrow> string list \<Rightarrow> string list \<Rightarrow> path_error + string list \<times> bool" where
  "claim_roots directory claimed [] = Inr ([], False)"
| "claim_roots directory claimed (root # roots) =
     (case directory root of
        Inl e \<Rightarrow> Inl e
      | Inr canonical \<Rightarrow>
          if canonical \<in> set claimed
          then (case claim_roots directory claimed roots of
                  Inl e \<Rightarrow> Inl e | Inr (cs, m) \<Rightarrow> Inr (cs, True))
          else (case claim_roots directory (canonical # claimed) roots of
                  Inl e \<Rightarrow> Inl e | Inr (cs, m) \<Rightarrow> Inr (canonical # cs, m \<or> canonical \<noteq> root)))"

record split_state =
  sp_projects :: "Project list"
  sp_mappings :: "ProjectRootMigration list"
  sp_extras :: "(string \<times> persistedProject \<times> bool) list"
  sp_claimed :: "string list"
  sp_migrated :: bool

definition split_entry ::
  "(string \<Rightarrow> path_error + string) \<Rightarrow> persistedProject \<Rightarrow> split_state \<Rightarrow> path_error + split_state" where
  "split_entry directory entry s =
     (let p = pp_Project entry;
          legacy = pj_Roots p = [] \<and> pp_Path entry \<noteq> [];
          roots = (if legacy then [pp_Path entry] else pj_Roots p);
          s = (if legacy then s\<lparr>sp_migrated := True\<rparr> else s)
      in if pj_ID p = [] \<or> roots = [] then Inr s
         else
           (case claim_roots directory (sp_claimed s) roots of
              Inl e \<Rightarrow> Inl e
            | Inr (canonicalRoots, changed) \<Rightarrow>
                (let s = s\<lparr>sp_claimed := rev canonicalRoots @ sp_claimed s, sp_migrated := sp_migrated s \<or> changed\<rparr>
                 in case canonicalRoots of
                      [] \<Rightarrow> Inr s
                    | root # extras \<Rightarrow>
                        Inr (s\<lparr>sp_migrated := sp_migrated s \<or> length roots \<noteq> 1,
                               sp_projects := sp_projects s @ [p\<lparr>pj_Roots := [root]\<rparr>],
                               sp_mappings := sp_mappings s @ (if extras \<noteq> []
                                 then [\<lparr>SourceProjectID = pj_ID p, MigratedRoot = root, TargetProjectID = pj_ID p\<rparr>] else []),
                               sp_extras := sp_extras s @ map (\<lambda>extra. (extra, entry, extras \<noteq> [])) extras\<rparr>))))"

fun split_entries ::
  "(string \<Rightarrow> path_error + string) \<Rightarrow> persistedProject list \<Rightarrow> split_state \<Rightarrow> path_error + split_state" where
  "split_entries directory [] s = Inr s"
| "split_entries directory (entry # es) s =
     (case split_entry directory entry s of Inl e \<Rightarrow> Inl e | Inr s \<Rightarrow> split_entries directory es s)"

text \<open>The projects added for the other roots of the legacy ones.\<close>

definition extra_project :: "string \<Rightarrow> string \<Rightarrow> string \<Rightarrow> Project \<Rightarrow> Project" where
  "extra_project i name root p =
     \<lparr>pj_ID = i, pj_Name = name, pj_Roots = [root], pj_Slug = [], pj_LastOpened = pj_LastOpened p, pj_Icon = pj_Icon p,
      pj_Closed = pj_Closed p\<rparr>"

fun add_extras ::
  "(string \<Rightarrow> 8 word list) \<Rightarrow> (string \<times> persistedProject \<times> bool) list \<Rightarrow> string list \<Rightarrow> Project list
     \<Rightarrow> ProjectRootMigration list \<Rightarrow> (Project list \<times> ProjectRootMigration list) option" where
  "add_extras sha256 [] taken projects mappings = Some (projects, mappings)"
| "add_extras sha256 ((root, source, migrating) # extras) taken projects mappings =
     (case uniqueProjectName (Base root) projects of
        None \<Rightarrow> None
      | Some name \<Rightarrow>
          (case uniqueLegacyProjectID sha256 (pj_ID (pp_Project source)) root taken of
             None \<Rightarrow> None
           | Some i \<Rightarrow>
               add_extras sha256 extras (i # taken) (projects @ [extra_project i name root (pp_Project source)])
                 (mappings @ (if migrating
                    then [\<lparr>SourceProjectID = pj_ID (pp_Project source), MigratedRoot = root, TargetProjectID = i\<rparr>] else []))))"

definition normalized ::
  "(string \<Rightarrow> path_error + string) \<Rightarrow> (string \<Rightarrow> 8 word list) \<Rightarrow> persistedProject list \<Rightarrow>
     project_error + Project list \<times> ProjectRootMigration list \<times> bool" where
  "normalized directory sha256 entries =
     (case split_entries directory entries
             \<lparr>sp_projects = [], sp_mappings = [], sp_extras = [], sp_claimed = [], sp_migrated = False\<rparr> of
        Inl e \<Rightarrow> Inl (Policy e)
      | Inr s \<Rightarrow>
          (case add_extras sha256 (sp_extras s) (filter (\<lambda>i. i \<noteq> []) (map (pj_ID \<circ> pp_Project) entries))
                  (sp_projects s) (sp_mappings s) of
             None \<Rightarrow> Inl Hangs
           | Some (projects, mappings) \<Rightarrow>
               (case ensureSlugs projects of
                  None \<Rightarrow> Inl Hangs
                | Some (projects, changed) \<Rightarrow> Inr (projects, mappings, sp_migrated s \<or> changed))))"

definition project_directory :: "projects_env \<Rightarrow> string \<Rightarrow> path_error + string" where
  "project_directory pe = Directory (pe_env pe) (pe_policy pe)"

definition readNormalized ::
  "projects_env \<Rightarrow> world \<Rightarrow> (project_error + Project list \<times> ProjectRootMigration list \<times> bool) \<times> world" where
  "readNormalized pe w =
     (case Read (pe_codec pe) validateProjects (pe_file pe) w of
        (Unreadable, w) \<Rightarrow> (Inl ProjectsUnreadable, w)
      | (Absent, w) \<Rightarrow> (normalized (project_directory pe) (pe_sha256 pe) [], w)
      | (Loaded v, w) \<Rightarrow> (normalized (project_directory pe) (pe_sha256 pe) (the v), w))"

definition projects_load ::
  "projects_env \<Rightarrow> projects \<Rightarrow> world \<Rightarrow> (project_error + Project list) \<times> projects \<times> world" where
  "projects_load pe s w =
     (if ps_loaded s then (Inr (ps_projects s), s, w)
      else
        (case readNormalized pe w of
           (Inl e, w) \<Rightarrow> (Inl e, s, w)
         | (Inr (projects, mappings, migrated), w) \<Rightarrow>
             if migrated then
               (case projects_save pe projects s w of
                  (Some e, s, w) \<Rightarrow> (Inl e, s, w) | (None, s, w) \<Rightarrow> (Inr projects, s, w))
             else (Inr projects, s\<lparr>ps_projects := projects, ps_loaded := True\<rparr>, w)))"

text \<open>\<open>CoordinateLegacyMigration\<close>; the dependent migration works on the same file system and may fail.\<close>

definition CoordinateLegacyMigration ::
  "projects_env \<Rightarrow> (ProjectRootMigration list \<Rightarrow> world \<Rightarrow> bool \<times> world) \<Rightarrow> projects \<Rightarrow> world
     \<Rightarrow> project_error option \<times> projects \<times> world" where
  "CoordinateLegacyMigration pe migrate s w =
     (if ps_loaded s then (None, s, w)
      else
        (case readNormalized pe w of
           (Inl e, w) \<Rightarrow> (Some e, s, w)
         | (Inr (projects, mappings, migrated), w) \<Rightarrow>
             (let (ok, w) = (if mappings \<noteq> [] then migrate mappings w else (True, w))
              in if \<not> ok then (Some NotMigrated, s, w)
                 else if migrated then projects_save pe projects s w
                 else (None, s\<lparr>ps_projects := projects, ps_loaded := True\<rparr>, w))))"

section \<open>Operations\<close>

definition ListProjects ::
  "projects_env \<Rightarrow> bool \<Rightarrow> projects \<Rightarrow> world \<Rightarrow> (project_error + Project list) \<times> projects \<times> world" where
  "ListProjects pe includeClosed s w =
     (case projects_load pe s w of
        (Inl e, s, w) \<Rightarrow> (Inl e, s, w)
      | (Inr _, s, w) \<Rightarrow>
          (Inr (sort_key (\<lambda>p. - pj_LastOpened p) (filter (\<lambda>p. includeClosed \<or> \<not> pj_Closed p) (ps_projects s))), s, w))"

fun latest_project :: "string \<Rightarrow> Project option \<Rightarrow> Project list \<Rightarrow> Project option" where
  "latest_project i found [] = found"
| "latest_project i found (p # ps) =
     latest_project i
       (if pj_ID p = i \<and> (case found of None \<Rightarrow> True | Some r \<Rightarrow> pj_LastOpened p > pj_LastOpened r)
        then Some p else found) ps"

definition GetProject ::
  "projects_env \<Rightarrow> string \<Rightarrow> projects \<Rightarrow> world \<Rightarrow> (project_error + Project) \<times> projects \<times> world" where
  "GetProject pe i s w =
     (case projects_load pe s w of
        (Inl e, s, w) \<Rightarrow> (Inl e, s, w)
      | (Inr _, s, w) \<Rightarrow>
          (case latest_project i None (ps_projects s) of None \<Rightarrow> (Inl UnknownProject, s, w) | Some p \<Rightarrow> (Inr p, s, w)))"

text \<open>\<open>finishMutation\<close> publishes the project of a mutation that succeeded.\<close>

definition finishMutation ::
  "(project_error + Project) \<times> projects \<times> world \<Rightarrow> (project_error + Project) \<times> projects \<times> world" where
  "finishMutation r =
     (case r of
        (Inl e, s, w) \<Rightarrow> (Inl e, s, w)
      | (Inr p, s, w) \<Rightarrow> (Inr p, s\<lparr>ps_published := ps_published s @ [p]\<rparr>, w))"

definition save_project ::
  "projects_env \<Rightarrow> Project list \<Rightarrow> Project \<Rightarrow> projects \<Rightarrow> world \<Rightarrow> (project_error + Project) \<times> projects \<times> world" where
  "save_project pe projects p s w =
     (case projects_save pe projects s w of (Some e, s, w) \<Rightarrow> (Inl e, s, w) | (None, s, w) \<Rightarrow> (Inr p, s, w))"

text \<open>The index of the project with this root, the first one.\<close>

fun root_index :: "string \<Rightarrow> Project list \<Rightarrow> project_error + nat option" where
  "root_index root [] = Inr None"
| "root_index root (p # ps) =
     (case Root p of
        Inl e \<Rightarrow> Inl e
      | Inr known \<Rightarrow>
          if known = root then Inr (Some 0)
          else (case root_index root ps of Inl e \<Rightarrow> Inl e | Inr i \<Rightarrow> Inr (map_option Suc i)))"

definition new_project :: "8 word list \<Rightarrow> string \<Rightarrow> string \<Rightarrow> int \<Rightarrow> Project" where
  "new_project bytes root slug now =
     \<lparr>pj_ID = New bytes, pj_Name = Base root, pj_Roots = [root], pj_Slug = slug, pj_LastOpened = now, pj_Icon = [],
      pj_Closed = False\<rparr>"

definition OpenProject ::
  "projects_env \<Rightarrow> 8 word list \<Rightarrow> int \<Rightarrow> string \<Rightarrow> projects \<Rightarrow> world \<Rightarrow> (project_error + Project) \<times> projects \<times> world" where
  "OpenProject pe bytes now path s w =
     finishMutation
       (case project_directory pe path of
          Inl e \<Rightarrow> (Inl (Policy e), s, w)
        | Inr root \<Rightarrow>
            (case projects_load pe s w of
               (Inl e, s, w) \<Rightarrow> (Inl e, s, w)
             | (Inr projects, s, w) \<Rightarrow>
                 (case root_index root projects of
                    Inl e \<Rightarrow> (Inl e, s, w)
                  | Inr (Some i) \<Rightarrow>
                      (let p = (projects ! i)\<lparr>pj_Closed := False, pj_LastOpened := now\<rparr>
                       in save_project pe (projects[i := p]) p s w)
                  | Inr None \<Rightarrow>
                      (case uniqueSlug (slugify (Base root)) (map pj_Slug projects) of
                         None \<Rightarrow> (Inl Hangs, s, w)
                       | Some slug \<Rightarrow>
                           (let p = new_project bytes root slug now in save_project pe (projects @ [p]) p s w)))))"

fun projectIndex :: "string \<Rightarrow> Project list \<Rightarrow> nat option" where
  "projectIndex i [] = None"
| "projectIndex i (p # ps) = (if pj_ID p = i then Some 0 else map_option Suc (projectIndex i ps))"

text \<open>A change of the first project with this identifier.\<close>

definition change_project ::
  "projects_env \<Rightarrow> string \<Rightarrow> (Project \<Rightarrow> project_error + Project) \<Rightarrow> projects \<Rightarrow> world
     \<Rightarrow> (project_error + Project) \<times> projects \<times> world" where
  "change_project pe i f s w =
     finishMutation
       (case projects_load pe s w of
          (Inl e, s, w) \<Rightarrow> (Inl e, s, w)
        | (Inr projects, s, w) \<Rightarrow>
            (case projectIndex i projects of
               None \<Rightarrow> (Inl UnknownProject, s, w)
             | Some k \<Rightarrow>
                 (case f (projects ! k) of
                    Inl e \<Rightarrow> (Inl e, s, w)
                  | Inr p \<Rightarrow> save_project pe (projects[k := p]) p s w)))"

definition updated_project :: "string option \<Rightarrow> string option \<Rightarrow> int \<Rightarrow> Project \<Rightarrow> project_error + Project" where
  "updated_project name icon now p =
     (let named = (case name of
            None \<Rightarrow> Inr p
          | Some n \<Rightarrow>
              (let normalized = TrimSpace n in
               if normalized = [] \<or> containsNUL normalized \<or> utf16Length normalized > 100 then Inl BadName
               else Inr (p\<lparr>pj_Name := normalized\<rparr>)))
      in case named of
           Inl e \<Rightarrow> Inl e
         | Inr p \<Rightarrow>
             (case icon of
                None \<Rightarrow> Inr (p\<lparr>pj_LastOpened := now\<rparr>)
              | Some i \<Rightarrow>
                  if i \<notin> set projectIcons then Inl UnknownIcon
                  else Inr (p\<lparr>pj_Icon := i, pj_LastOpened := now\<rparr>)))"

definition UpdateProject ::
  "projects_env \<Rightarrow> string \<Rightarrow> string option \<Rightarrow> string option \<Rightarrow> int \<Rightarrow> projects \<Rightarrow> world
     \<Rightarrow> (project_error + Project) \<times> projects \<times> world" where
  "UpdateProject pe i name icon now s w =
     (if name = None \<and> icon = None then (Inl NothingToUpdate, s, w)
      else change_project pe i (updated_project name icon now) s w)"

definition CloseProject ::
  "projects_env \<Rightarrow> string \<Rightarrow> projects \<Rightarrow> world \<Rightarrow> (project_error + Project) \<times> projects \<times> world" where
  "CloseProject pe i s w = change_project pe i (\<lambda>p. Inr (p\<lparr>pj_Closed := True\<rparr>)) s w"

definition AssertCWD ::
  "projects_env \<Rightarrow> string \<Rightarrow> string \<Rightarrow> projects \<Rightarrow> world \<Rightarrow> (project_error + string) \<times> projects \<times> world" where
  "AssertCWD pe i cwd s w =
     (case GetProject pe i s w of
        (Inl e, s, w) \<Rightarrow> (Inl e, s, w)
      | (Inr p, s, w) \<Rightarrow>
          (case (if TrimSpace cwd = [] then Root p else Inr cwd) of
             Inl e \<Rightarrow> (Inl e, s, w)
           | Inr cwd \<Rightarrow>
               (case project_directory pe cwd of
                  Inl e \<Rightarrow> (Inl (Policy e), s, w)
                | Inr candidate \<Rightarrow>
                    (case Root p of
                       Inl e \<Rightarrow> (Inl e, s, w)
                     | Inr root \<Rightarrow> (if Within root candidate then Inr candidate else Inl OutsideRoot, s, w)))))"

definition AssertRoot ::
  "projects_env \<Rightarrow> string \<Rightarrow> string \<Rightarrow> projects \<Rightarrow> world \<Rightarrow> (project_error + string) \<times> projects \<times> world" where
  "AssertRoot pe i root s w =
     (case GetProject pe i s w of
        (Inl e, s, w) \<Rightarrow> (Inl e, s, w)
      | (Inr p, s, w) \<Rightarrow>
          (case Root p of
             Inl e \<Rightarrow> (Inl e, s, w)
           | Inr admitted \<Rightarrow>
               if admitted = root then (Inr root, s, w)
               else
                 (case project_directory pe root of
                    Inl e \<Rightarrow> (Inl (Policy e), s, w)
                  | Inr candidate \<Rightarrow> (if admitted \<noteq> candidate then Inl OtherRoot else Inr candidate, s, w))))"

definition ProjectRoot ::
  "projects_env \<Rightarrow> string \<Rightarrow> projects \<Rightarrow> world \<Rightarrow> (project_error + string) \<times> projects \<times> world" where
  "ProjectRoot pe i s w =
     (case GetProject pe i s w of (Inl e, s, w) \<Rightarrow> (Inl e, s, w) | (Inr p, s, w) \<Rightarrow> (Root p, s, w))"

end
