(* ===== verification/SessionTable.thy ===== *)
theory SessionTable
  imports QueueActions SessionRecords Projects "HOL-Library.Product_Lexorder"
begin

text \<open>
  The table of chats in memory, \<open>sessions\<close>, \<open>leases\<close> and \<open>lifecycle\<close> of \<open>SessionManager\<close> in
  \<open>internal/controller/session_manager.go\<close> and \<open>session_operations.go\<close>: who may use an entry, which browser tabs keep
  it, when it is evicted, and how a change of its life cycle excludes everything else.

  Go's pointers to entries are indices into \<open>tb_entries\<close>, so that a caller can hold an entry that is no longer in the
  table. Every function is one critical section under \<open>mu\<close>; a method with several is split. The projection of an entry
  enters only through the length of its JSON encoding (\<open>te_measure\<close>, \<open>None\<close> when it cannot be encoded).
\<close>

section \<open>State\<close>

record table_entry =
  te_chat :: chat
  te_cwd :: string
  te_refs :: int
  te_ephemeral :: bool
  te_runID :: string
  te_replaying :: bool
  te_inactiveAt :: "nat option"
  te_inactiveBytes :: nat
  te_measure :: "nat option"

record client_leases =
  le_revision :: nat
  le_sessions :: "(string \<times> string) list"

record table =
  tb_closed :: bool
  tb_entries :: "table_entry list"
  tb_sessions :: "(string \<times> nat) list"
  tb_leases :: "(string \<times> client_leases) list"
  tb_lifecycle :: "string list"
  tb_durable :: bool

datatype table_error =
    LifecycleBusy | UnknownSession | SessionChanged | StillInUse | ChatRunning | TableClosed | InvalidSnapshot
  | LeaseRecords record_error | LeaseQueues queue_error | LeaseProject project_error | LeaseDirectory path_error | OutsideProject

definition inactiveProjectionMaxCount :: nat where "inactiveProjectionMaxCount = 24"
definition inactiveProjectionMaxBytes :: nat where "inactiveProjectionMaxBytes = 8 * 1024 * 1024"

definition newSessionEntry :: "string \<Rightarrow> string \<Rightarrow> sessionQueueState \<Rightarrow> world \<Rightarrow> table_entry" where
  "newSessionEntry project cwd q d =
     \<lparr>te_chat = \<lparr>projectOf = project, queue = q, streaming = False, promptActive = False, promptAcknowledged = False,
        promptGeneration = 0, messages = [], pendingEcho = None, attached = 0, drainScheduled = False, drainRetry = False,
        drainFailures = 0, settlement = None, emitted = [], disk = d\<rparr>,
      te_cwd = cwd, te_refs = 0, te_ephemeral = False, te_runID = [], te_replaying = False, te_inactiveAt = None,
      te_inactiveBytes = 0, te_measure = Some 0\<rparr>"

definition ent :: "table \<Rightarrow> nat \<Rightarrow> table_entry" where
  "ent t i = tb_entries t ! i"

definition set_ent :: "nat \<Rightarrow> (table_entry \<Rightarrow> table_entry) \<Rightarrow> table \<Rightarrow> table" where
  "set_ent i f t = t\<lparr>tb_entries := (tb_entries t)[i := f (ent t i)]\<rparr>"

definition add_ref :: "nat \<Rightarrow> table \<Rightarrow> table" where
  "add_ref i = set_ent i (\<lambda>e. e\<lparr>te_refs := te_refs e + 1\<rparr>)"

definition register :: "string \<Rightarrow> table_entry \<Rightarrow> table \<Rightarrow> nat \<times> table" where
  "register sid e t =
     (length (tb_entries t),
      t\<lparr>tb_entries := tb_entries t @ [e], tb_sessions := put sid (length (tb_entries t)) (tb_sessions t)\<rparr>)"

section \<open>Eviction\<close>

definition isLeasedLocked :: "table \<Rightarrow> string \<Rightarrow> bool" where
  "isLeasedLocked t sid \<longleftrightarrow> (\<exists>c \<in> set (tb_leases t). get (le_sessions (snd c)) sid \<noteq> None)"

text \<open>Something still happens in the chat, or it has what only memory holds.\<close>

definition pinned :: "table \<Rightarrow> string \<Rightarrow> table_entry \<Rightarrow> bool" where
  "pinned t sid e \<longleftrightarrow> isLeasedLocked t sid \<or> streaming (te_chat e) \<or> promptActive (te_chat e) \<or> te_runID e \<noteq> []
     \<or> Steering (queue (te_chat e)) \<noteq> [] \<or> \<not> tb_durable t \<and> queuedFollowUpCount (queue (te_chat e)) > 0
     \<or> drainScheduled (te_chat e) \<or> drainRetry (te_chat e) \<or> te_replaying e"

datatype verdict = Stays | Drops | Idle nat nat

text \<open>One round of the loop over the sessions: the entry, updated, and what becomes of it.\<close>

definition look :: "table \<Rightarrow> nat \<Rightarrow> string \<Rightarrow> table_entry \<Rightarrow> table_entry \<times> verdict" where
  "look t now sid e =
     (if te_refs e > 0 then (e, Stays)
      else if pinned t sid e then (e\<lparr>te_inactiveAt := None\<rparr>, Stays)
      else if te_ephemeral e then (e, Drops)
      else
        (let at = (case te_inactiveAt e of None \<Rightarrow> now | Some at \<Rightarrow> at); e = e\<lparr>te_inactiveAt := Some at\<rparr> in
         if te_inactiveBytes e \<noteq> 0 then (e, Idle at (te_inactiveBytes e))
         else (case te_measure e of
                 None \<Rightarrow> (e, Drops)
               | Some n \<Rightarrow> (e\<lparr>te_inactiveBytes := n\<rparr>, Idle at n))))"

type_synonym eviction_candidate = "(nat \<times> string) \<times> nat"

fun look_each :: "table \<Rightarrow> nat \<Rightarrow> (string \<times> nat) list \<Rightarrow> table_entry list \<Rightarrow>
    table_entry list \<times> string list \<times> eviction_candidate list" where
  "look_each t now [] es = (es, [], [])"
| "look_each t now ((sid, i) # rest) es =
     (let (e, v) = look t now sid (es ! i); (es, drops, cs) = look_each t now rest (es[i := e])
      in case v of
           Stays \<Rightarrow> (es, drops, cs)
         | Drops \<Rightarrow> (es, sid # drops, cs)
         | Idle at n \<Rightarrow> (es, drops, ((at, sid), n) # cs))"

fun evict_over :: "eviction_candidate list \<Rightarrow> nat \<Rightarrow> string list" where
  "evict_over [] bytes = []"
| "evict_over (c # cs) bytes =
     (if length (c # cs) > inactiveProjectionMaxCount \<or> bytes > inactiveProjectionMaxBytes
      then snd (fst c) # evict_over cs (bytes - snd c) else [])"

definition evictLocked :: "nat \<Rightarrow> table \<Rightarrow> table" where
  "evictLocked now t =
     (let (es, drops, cs) = look_each t now (tb_sessions t) (tb_entries t);
          over = evict_over (sort_key fst cs) (sum_list (map snd cs))
      in t\<lparr>tb_entries := es, tb_sessions := filter (\<lambda>(sid, i). sid \<notin> set drops \<and> sid \<notin> set over) (tb_sessions t)\<rparr>)"

section \<open>Holding an entry\<close>

definition entry_ref :: "string \<Rightarrow> table \<Rightarrow> (table_error + nat) \<times> table" where
  "entry_ref sid t =
     (if tb_closed t \<or> sid \<in> set (tb_lifecycle t) then (Inl LifecycleBusy, t)
      else (case get (tb_sessions t) sid of
              None \<Rightarrow> (Inl UnknownSession, t)
            | Some i \<Rightarrow> (Inr i, add_ref i t)))"

text \<open>\<open>queueEntry\<close> and \<open>EnsureAttached\<close>, when the chat was not in memory: the record read from disk, and, later and
  under the lock again, the registration of an entry made from it.\<close>

definition queueEntry_candidate ::
  "ProjectSessionRecord list \<Rightarrow> string \<Rightarrow> sessionQueueState \<Rightarrow> world \<Rightarrow> table_entry option" where
  "queueEntry_candidate rs sid q d =
     map_option (\<lambda>r. newSessionEntry (sr_ProjectID r) (sr_CWD r) q d) (find (\<lambda>r. sr_SessionID r = sid) rs)"

definition attach_candidate ::
  "ProjectSessionRecord list \<Rightarrow> string \<Rightarrow> string \<Rightarrow> string \<Rightarrow> sessionQueueState \<Rightarrow> world \<Rightarrow> table_entry option" where
  "attach_candidate rs sid project cwd q d =
     map_option (\<lambda>r. newSessionEntry project cwd q d)
       (find (\<lambda>r. sr_ProjectID r = project \<and> sr_SessionID r = sid \<and> sr_CWD r = cwd) rs)"

definition present_or :: "string \<Rightarrow> table_entry \<Rightarrow> table \<Rightarrow> nat \<times> table" where
  "present_or sid e t = (case get (tb_sessions t) sid of Some i \<Rightarrow> (i, t) | None \<Rightarrow> register sid e t)"

definition insert_entry :: "string \<Rightarrow> table_entry \<Rightarrow> table \<Rightarrow> (table_error + nat) \<times> table" where
  "insert_entry sid e t =
     (if tb_closed t \<or> sid \<in> set (tb_lifecycle t) then (Inl LifecycleBusy, t)
      else (let (i, t) = present_or sid e t in (Inr i, add_ref i t)))"

text \<open>\<open>prepareQueueResume\<close>, for one chat with queued messages.\<close>

definition resume_entry :: "string \<Rightarrow> table_entry \<Rightarrow> table \<Rightarrow> nat option \<times> table" where
  "resume_entry sid e t =
     (let (i, t) = present_or sid e t in
      if tb_closed t \<or> sid \<in> set (tb_lifecycle t) \<or> projectOf (te_chat (ent t i)) \<noteq> projectOf (te_chat e)
         \<or> te_cwd (ent t i) \<noteq> te_cwd e
      then (None, t) else (Some i, add_ref i t))"

definition retainSessionLocked :: "string \<Rightarrow> string \<Rightarrow> string \<Rightarrow> table \<Rightarrow> table" where
  "retainSessionLocked client sid project t =
     (let leases = (case get (tb_leases t) client of None \<Rightarrow> \<lparr>le_revision = 0, le_sessions = []\<rparr> | Some l \<Rightarrow> l);
          leases = (if le_revision leases = 0 then leases\<lparr>le_sessions := put sid project (le_sessions leases)\<rparr> else leases)
      in t\<lparr>tb_leases := put client leases (tb_leases t)\<rparr>)"

text \<open>The registration of a new chat by \<open>create\<close>, which holds it, and of a fork by \<open>Fork\<close>, which does not.\<close>

definition create_entry :: "string \<Rightarrow> table_entry \<Rightarrow> string \<Rightarrow> table \<Rightarrow> (table_error + nat) \<times> table" where
  "create_entry sid e client t =
     (if tb_closed t then (Inl TableClosed, t)
      else (let (i, t) = register sid e t
            in (Inr i, retainSessionLocked client sid (projectOf (te_chat e)) (add_ref i t))))"

definition fork_entry :: "string \<Rightarrow> table_entry \<Rightarrow> table \<Rightarrow> table_error option \<times> table" where
  "fork_entry sid e t = (if tb_closed t then (Some TableClosed, t) else (None, snd (register sid e t)))"

definition releaseEntry :: "nat \<Rightarrow> nat \<Rightarrow> table \<Rightarrow> table" where
  "releaseEntry now i t =
     evictLocked now (set_ent i (\<lambda>e. e\<lparr>te_inactiveBytes := 0, te_refs := te_refs e - 1\<rparr>) t)"

definition is_current :: "string \<Rightarrow> nat \<Rightarrow> table \<Rightarrow> bool" where
  "is_current sid i t \<longleftrightarrow> \<not> tb_closed t \<and> get (tb_sessions t) sid = Some i \<and> sid \<notin> set (tb_lifecycle t)"

definition retainWork :: "string \<Rightarrow> nat \<Rightarrow> table \<Rightarrow> table_error option \<times> table" where
  "retainWork sid i t = (if \<not> is_current sid i t then (Some SessionChanged, t) else (None, add_ref i t))"

text \<open>\<open>admitFollowUp\<close> with the table around the chat: the worker holds the entry.\<close>

definition admit_worker :: "string \<Rightarrow> nat \<Rightarrow> table \<Rightarrow> bool \<times> table" where
  "admit_worker sid i t =
     (let (ok, c) = admitFollowUp \<lparr>queues = None, current = is_current sid i t, admits = True\<rparr> (te_chat (ent t i))
      in (ok, if ok then add_ref i (set_ent i (\<lambda>e. e\<lparr>te_chat := c\<rparr>) t) else t))"

text \<open>\<open>applyUpdate\<close>: a terminal notification holds the entry until its queue is woken; any other one may evict. The commands
  kept for a chat that is only being created and the change of the projection are not part of the table.\<close>

definition notice_entry :: "string \<Rightarrow> bool \<Rightarrow> table \<Rightarrow> nat option \<times> table" where
  "notice_entry sid terminal t =
     (case (if tb_closed t then None else get (tb_sessions t) sid) of
        None \<Rightarrow> (None, t)
      | Some i \<Rightarrow> (Some i, if terminal then add_ref i t else t))"

definition notice_settled :: "nat \<Rightarrow> string \<Rightarrow> nat \<Rightarrow> table \<Rightarrow> table" where
  "notice_settled now sid i t =
     (if \<not> tb_closed t \<and> get (tb_sessions t) sid = Some i \<and> te_refs (ent t i) = 0 \<and> \<not> isLeasedLocked t sid
      then evictLocked now t else t)"

text \<open>\<open>index\<close> of the history: an entry loaded only to be indexed goes as soon as it is free.\<close>

definition mark_ephemeral :: "string \<Rightarrow> nat \<Rightarrow> table \<Rightarrow> table" where
  "mark_ephemeral sid i t = (if isLeasedLocked t sid then t else set_ent i (\<lambda>e. e\<lparr>te_ephemeral := True\<rparr>) t)"

section \<open>Leases\<close>

record lease_env =
  lv_records :: "record_error + ProjectSessionRecord list"
  lv_queues :: "queue_error + (string \<rightharpoonup> sessionQueueState)"
  lv_project :: "string \<Rightarrow> project_error + Project"
  lv_directory :: "string \<Rightarrow> path_error + string"
  lv_fresh :: "string \<Rightarrow> sessionQueueState"
  lv_disk :: world

text \<open>One requested lease: refused with an error, skipped, or accepted.\<close>

definition lease_check :: "lease_env \<Rightarrow> (string \<rightharpoonup> ProjectSessionRecord) \<Rightarrow> string \<times> string \<Rightarrow> table_error + bool" where
  "lease_check env byID lease =
     (let (project, sid) = lease in
      if project = [] \<or> sid = [] then Inl InvalidSnapshot
      else (case byID sid of
        None \<Rightarrow> Inr False
      | Some record \<Rightarrow>
          if sr_ProjectID record \<noteq> project then Inl UnknownSession
          else (case lv_project env project of
            Inl e \<Rightarrow> Inl (LeaseProject e)
          | Inr p \<Rightarrow>
              if pj_Closed p then Inr False
              else (case lv_directory env (sr_CWD record) of
                Inl e \<Rightarrow> Inl (LeaseDirectory e)
              | Inr cwd \<Rightarrow>
                  (case Root p of
                     Inl e \<Rightarrow> Inl (LeaseProject e)
                   | Inr root \<Rightarrow> if \<not> Within root cwd then Inl OutsideProject else Inr True)))))"

fun accepted_leases :: "lease_env \<Rightarrow> (string \<rightharpoonup> ProjectSessionRecord) \<Rightarrow> (string \<times> string) list \<Rightarrow>
    (string \<times> string) list \<Rightarrow> table_error + (string \<times> string) list" where
  "accepted_leases env byID [] acc = Inr acc"
| "accepted_leases env byID (lease # rest) acc =
     (case lease_check env byID lease of
        Inl e \<Rightarrow> Inl e
      | Inr ok \<Rightarrow> accepted_leases env byID rest (if ok then put (snd lease) (fst lease) acc else acc))"

definition restore_lease :: "lease_env \<Rightarrow> (string \<rightharpoonup> ProjectSessionRecord) \<Rightarrow> (string \<rightharpoonup> sessionQueueState) \<Rightarrow>
    string \<times> string \<Rightarrow> table \<Rightarrow> table" where
  "restore_lease env byID queued lease t =
     (let (sid, project) = lease in
      if get (tb_sessions t) sid = None \<and> sid \<notin> set (tb_lifecycle t)
      then snd (register sid
             (newSessionEntry project (case byID sid of Some r \<Rightarrow> sr_CWD r | None \<Rightarrow> [])
                (case queued sid of Some q \<Rightarrow> q | None \<Rightarrow> lv_fresh env sid) (lv_disk env)) t)
      else t)"

definition records_by_id :: "ProjectSessionRecord list \<Rightarrow> string \<rightharpoonup> ProjectSessionRecord" where
  "records_by_id rs = map_of (rev (map (\<lambda>r. (sr_SessionID r, r)) rs))"

definition install_leases :: "nat \<Rightarrow> lease_env \<Rightarrow> string \<Rightarrow> nat \<Rightarrow> (string \<rightharpoonup> ProjectSessionRecord) \<Rightarrow>
    (string \<rightharpoonup> sessionQueueState) \<Rightarrow> (string \<times> string) list \<Rightarrow> table \<Rightarrow> table" where
  "install_leases now env client revision byID queued sessions t =
     evictLocked now
       (fold (restore_lease env byID queued) sessions
          (t\<lparr>tb_leases := put client \<lparr>le_revision = revision, le_sessions = sessions\<rparr> (tb_leases t)\<rparr>))"

text \<open>The chats whose queue is to be woken, with the new state.\<close>

definition SetLeases :: "nat \<Rightarrow> lease_env \<Rightarrow> string \<Rightarrow> nat \<Rightarrow> (string \<times> string) list \<Rightarrow> table \<Rightarrow>
    (table_error + (string \<times> nat) list) \<times> table" where
  "SetLeases now env client revision requested t =
     (if revision = 0 \<or> revision > 2 ^ 53 - 1 \<or> length requested > 512 then (Inl InvalidSnapshot, t)
      else if tb_closed t then (Inl TableClosed, t)
      else if (case get (tb_leases t) client of None \<Rightarrow> False | Some previous \<Rightarrow> revision \<le> le_revision previous) then (Inr [], t)
      else (case lv_records env of
        Inl e \<Rightarrow> (Inl (LeaseRecords e), t)
      | Inr rs \<Rightarrow>
          (case (if tb_durable t then lv_queues env else Inr Map.empty) of
             Inl e \<Rightarrow> (Inl (LeaseQueues e), t)
           | Inr queued \<Rightarrow>
               (case accepted_leases env (records_by_id rs) requested [] of
                  Inl e \<Rightarrow> (Inl e, t)
                | Inr sessions \<Rightarrow>
                    (let t = install_leases now env client revision (records_by_id rs) queued sessions t
                     in (Inr [(sid, i). (sid, i) \<leftarrow> tb_sessions t, get sessions sid \<noteq> None \<and> runnableFollowUpLocked (te_chat (ent t i))],
                         t))))))"

definition Release_lease :: "nat \<Rightarrow> string \<Rightarrow> string \<Rightarrow> string \<Rightarrow> string \<Rightarrow> table \<Rightarrow> table" where
  "Release_lease now sid project cwd client t =
     evictLocked now
       (case get (tb_leases t) client of
          None \<Rightarrow> t
        | Some l \<Rightarrow>
            if get (le_sessions l) sid = Some project
               \<and> (case get (tb_sessions t) sid of
                    None \<Rightarrow> True
                  | Some i \<Rightarrow> projectOf (te_chat (ent t i)) = project \<and> te_cwd (ent t i) = cwd)
            then t\<lparr>tb_leases := put client (l\<lparr>le_sessions := del sid (le_sessions l)\<rparr>) (tb_leases t)\<rparr>
            else t)"

definition ReleaseClient_leases :: "nat \<Rightarrow> string \<Rightarrow> table \<Rightarrow> table" where
  "ReleaseClient_leases now client t = evictLocked now (t\<lparr>tb_leases := del client (tb_leases t)\<rparr>)"

definition ReleaseProject_leases :: "nat \<Rightarrow> project_error + Project \<Rightarrow> string \<Rightarrow> table \<Rightarrow> table" where
  "ReleaseProject_leases now project projectID t =
     (if (case project of Inl e \<Rightarrow> False | Inr p \<Rightarrow> \<not> pj_Closed p) then t
      else evictLocked now
        (t\<lparr>tb_leases := map (\<lambda>(c, l). (c, l\<lparr>le_sessions := filter (\<lambda>(sid, owner). owner \<noteq> projectID) (le_sessions l)\<rparr>)) (tb_leases t)\<rparr>))"

section \<open>Life cycle\<close>

text \<open>The check after waiting for the operation gate.\<close>

definition lockEntry :: "string \<Rightarrow> nat \<Rightarrow> table \<Rightarrow> table_error option" where
  "lockEntry sid i t = (if is_current sid i t then None else Some SessionChanged)"

definition running_chat :: "table_entry \<Rightarrow> bool" where
  "running_chat e \<longleftrightarrow> streaming (te_chat e) \<or> promptActive (te_chat e) \<or> te_runID e \<noteq> []"

definition beginLifecycle :: "string \<Rightarrow> nat option \<Rightarrow> table \<Rightarrow> table_error option \<times> table" where
  "beginLifecycle sid entry t =
     (let now = get (tb_sessions t) sid; allowedRefs = (if entry = None then 0 else 1) in
      if entry \<noteq> None \<and> now \<noteq> entry then (Some SessionChanged, t)
      else if tb_closed t \<or> sid \<in> set (tb_lifecycle t)
              \<or> (case now of None \<Rightarrow> False | Some i \<Rightarrow> te_refs (ent t i) > allowedRefs) then (Some StillInUse, t)
      else if (case now of None \<Rightarrow> False | Some i \<Rightarrow> running_chat (ent t i)) then (Some ChatRunning, t)
      else (None, t\<lparr>tb_lifecycle := sid # tb_lifecycle t\<rparr>))"

definition end_lifecycle :: "string \<Rightarrow> table \<Rightarrow> table" where
  "end_lifecycle sid t = t\<lparr>tb_lifecycle := removeAll sid (tb_lifecycle t)\<rparr>"

definition remove_session :: "string \<Rightarrow> table \<Rightarrow> table" where
  "remove_session sid t = t\<lparr>tb_sessions := del sid (tb_sessions t)\<rparr>"

text \<open>The first section of \<open>shutdown\<close>.\<close>

definition shutdown_table :: "table \<Rightarrow> table" where
  "shutdown_table t =
     t\<lparr>tb_closed := True,
       tb_entries := map (\<lambda>(i, e). if i \<in> snd ` set (tb_sessions t)
          then e\<lparr>te_chat := (te_chat e)\<lparr>drainRetry := False, promptGeneration := promptGeneration (te_chat e) + 1\<rparr>\<rparr> else e)
          (enumerate 0 (tb_entries t))\<rparr>"

end
