(* ===== verification/SessionEviction.thy ===== *)
theory SessionEviction
  imports SessionTable
begin

text \<open>
  What one run of \<open>evictLocked\<close> does: which entries leave the table, which stay, and that it evicts the oldest
  first and no more than the two limits demand.
\<close>

section \<open>Well-formed tables\<close>

text \<open>Every identifier has one entry and every entry at most one identifier.\<close>

definition table_ok :: "table \<Rightarrow> bool" where
  "table_ok t \<longleftrightarrow> unique_keys (tb_sessions t) \<and> distinct (map snd (tb_sessions t))
     \<and> (\<forall>(sid, i) \<in> set (tb_sessions t). i < length (tb_entries t))"

lemma table_ok_get: "table_ok t \<Longrightarrow> get (tb_sessions t) sid = Some i \<longleftrightarrow> (sid, i) \<in> set (tb_sessions t)"
  by (simp add: table_ok_def get_in_set)

lemma table_ok_less: "table_ok t \<Longrightarrow> (sid, i) \<in> set (tb_sessions t) \<Longrightarrow> i < length (tb_entries t)"
  by (auto simp: table_ok_def)

lemma table_ok_inj: "table_ok t \<Longrightarrow> (sid, i) \<in> set (tb_sessions t) \<Longrightarrow> (sid', i) \<in> set (tb_sessions t) \<Longrightarrow> sid' = sid"
  unfolding table_ok_def distinct_map inj_on_def by fastforce

section \<open>The loop over the sessions\<close>

definition age :: "nat \<Rightarrow> table_entry \<Rightarrow> nat" where
  "age now e = (case te_inactiveAt e of None \<Rightarrow> now | Some at \<Rightarrow> at)"

definition size_of :: "table_entry \<Rightarrow> nat" where
  "size_of e = (if te_inactiveBytes e \<noteq> 0 then te_inactiveBytes e else the (te_measure e))"

text \<open>Nobody uses the entry, and its size is known.\<close>

definition evictable :: "table \<Rightarrow> string \<Rightarrow> table_entry \<Rightarrow> bool" where
  "evictable t sid e \<longleftrightarrow> te_refs e \<le> 0 \<and> \<not> pinned t sid e \<and> \<not> te_ephemeral e
     \<and> (te_inactiveBytes e \<noteq> 0 \<or> te_measure e \<noteq> None)"

definition in_use :: "table \<Rightarrow> string \<Rightarrow> table_entry \<Rightarrow> bool" where
  "in_use t sid e \<longleftrightarrow> te_refs e > 0 \<or> pinned t sid e"

lemma look_verdict:
  "snd (look t now sid e) =
     (if in_use t sid e then Stays else if evictable t sid e then Idle (age now e) (size_of e) else Drops)"
  by (auto simp: look_def in_use_def evictable_def age_def size_of_def Let_def split: option.splits)

lemma look_frame:
  "te_chat (fst (look t now sid e)) = te_chat e" "te_cwd (fst (look t now sid e)) = te_cwd e"
  "te_refs (fst (look t now sid e)) = te_refs e" "te_ephemeral (fst (look t now sid e)) = te_ephemeral e"
  "te_runID (fst (look t now sid e)) = te_runID e" "te_replaying (fst (look t now sid e)) = te_replaying e"
  "te_measure (fst (look t now sid e)) = te_measure e"
  by (simp_all add: look_def Let_def split: option.splits)

definition idle_row :: "table \<Rightarrow> nat \<Rightarrow> table_entry list \<Rightarrow> string \<times> nat \<Rightarrow> eviction_candidate" where
  "idle_row t now es = (\<lambda>(sid, i). ((age now (es ! i), sid), size_of (es ! i)))"

lemma look_each_spec:
  assumes "distinct (map snd ss)" "\<forall>(sid, i) \<in> set ss. i < length es" "look_each t now ss es = (es', drops, cs)"
  shows "length es' = length es" "\<forall>(sid, i) \<in> set ss. es' ! i = fst (look t now sid (es ! i))"
    "\<forall>i. i \<notin> snd ` set ss \<longrightarrow> es' ! i = es ! i"
    "drops = map fst (filter (\<lambda>(sid, i). snd (look t now sid (es ! i)) = Drops) ss)"
    "cs = map (idle_row t now es) (filter (\<lambda>(sid, i). \<not> in_use t sid (es ! i) \<and> evictable t sid (es ! i)) ss)"
proof -
  have "length es' = length es \<and> (\<forall>(sid, i) \<in> set ss. es' ! i = fst (look t now sid (es ! i)))
    \<and> (\<forall>i. i \<notin> snd ` set ss \<longrightarrow> es' ! i = es ! i)
    \<and> drops = map fst (filter (\<lambda>(sid, i). snd (look t now sid (es ! i)) = Drops) ss)
    \<and> cs = map (idle_row t now es) (filter (\<lambda>(sid, i). \<not> in_use t sid (es ! i) \<and> evictable t sid (es ! i)) ss)"
    using assms
  proof (induction ss arbitrary: es es' drops cs)
    case (Cons p ss)
    obtain sid i where p: "p = (sid, i)" by (cases p)
    obtain e v where l: "look t now sid (es ! i) = (e, v)" by force
    obtain es1 drops1 cs1 where r: "look_each t now ss (es[i := e]) = (es1, drops1, cs1)" by (metis prod_cases3)
    have i: "i < length es" "i \<notin> snd ` set ss" using Cons.prems(1,2) p by auto
    have same: "es[i := e] ! j = es ! j" if "(sid', j) \<in> set ss" for sid' j
      using i(2) that by (metis image_eqI nth_list_update_neq snd_conv)
    have IH: "length es1 = length (es[i := e])" "\<forall>(sid, j) \<in> set ss. es1 ! j = fst (look t now sid (es[i := e] ! j))"
      "\<forall>j. j \<notin> snd ` set ss \<longrightarrow> es1 ! j = es[i := e] ! j"
      "drops1 = map fst (filter (\<lambda>(sid, j). snd (look t now sid (es[i := e] ! j)) = Drops) ss)"
      "cs1 = map (idle_row t now (es[i := e])) (filter (\<lambda>(sid, j). \<not> in_use t sid (es[i := e] ! j) \<and> evictable t sid (es[i := e] ! j)) ss)"
      using Cons.IH [OF _ _ r] Cons.prems(1,2) p by auto
    have f: "filter (\<lambda>(sid, j). P sid (es[i := e] ! j)) ss = filter (\<lambda>(sid, j). P sid (es ! j)) ss" for P
      by (rule filter_cong) (use same in auto)
    have m: "map (idle_row t now (es[i := e])) (filter Q ss) = map (idle_row t now es) (filter Q ss)" for Q
      by (rule map_cong) (use same in \<open>auto simp: idle_row_def\<close>)
    have v: "v = (if in_use t sid (es ! i) then Stays else if evictable t sid (es ! i)
      then Idle (age now (es ! i)) (size_of (es ! i)) else Drops)" using look_verdict [of t now sid "es ! i"] l by simp
    have out: "es' = es1" "drops = (if v = Drops then sid # drops1 else drops1)"
      "cs = (case v of Idle a n \<Rightarrow> ((a, sid), n) # cs1 | _ \<Rightarrow> cs1)"
      using Cons.prems(3) p l r by (auto split: verdict.splits)
    have "es1 ! j = fst (look t now sid' (es ! j))" if "(sid', j) \<in> set (p # ss)" for sid' j
    proof (cases "(sid', j) \<in> set ss")
      case True
      with IH(2) same [OF True] show ?thesis by auto
    next
      case False
      with that p have "sid' = sid" "j = i" by auto
      with IH(3) i l show ?thesis by simp
    qed
    moreover have "\<forall>j. j \<notin> snd ` set (p # ss) \<longrightarrow> es1 ! j = es ! j" using IH(3) p by auto
    moreover have "drops = map fst (filter (\<lambda>(sid, j). snd (look t now sid (es ! j)) = Drops) (p # ss))"
      using out(2) IH(4) f [of "\<lambda>sid e. snd (look t now sid e) = Drops"] p l by simp
    moreover have "cs = map (idle_row t now es) (filter (\<lambda>(sid, j). \<not> in_use t sid (es ! j) \<and> evictable t sid (es ! j)) (p # ss))"
      using out(3) IH(5) f [of "\<lambda>sid e. \<not> in_use t sid e \<and> evictable t sid e"] m p v by (simp add: idle_row_def)
    ultimately show ?case using IH(1) out(1) by auto
  qed simp
  then show "length es' = length es" "\<forall>(sid, i) \<in> set ss. es' ! i = fst (look t now sid (es ! i))"
    "\<forall>i. i \<notin> snd ` set ss \<longrightarrow> es' ! i = es ! i"
    "drops = map fst (filter (\<lambda>(sid, i). snd (look t now sid (es ! i)) = Drops) ss)"
    "cs = map (idle_row t now es) (filter (\<lambda>(sid, i). \<not> in_use t sid (es ! i) \<and> evictable t sid (es ! i)) ss)" by blast+
qed

section \<open>Oldest first, and no more than needed\<close>

definition within_limits :: "eviction_candidate list \<Rightarrow> bool" where
  "within_limits cs \<longleftrightarrow> length cs \<le> 24 \<and> sum_list (map snd cs) \<le> 8 * 1024 * 1024"

lemma evict_over_least:
  "\<exists>k \<le> length cs. evict_over cs (sum_list (map snd cs)) = map (\<lambda>c. snd (fst c)) (take k cs)
     \<and> within_limits (drop k cs) \<and> (\<forall>j < k. \<not> within_limits (drop j cs))"
proof (induction cs)
  case (Cons c cs)
  show ?case
  proof (cases "within_limits (c # cs)")
    case True
    then have "evict_over (c # cs) (sum_list (map snd (c # cs))) = []"
      by (simp add: within_limits_def inactiveProjectionMaxCount_def inactiveProjectionMaxBytes_def)
    with True show ?thesis by (intro exI [of _ 0]) simp
  next
    case False
    from Cons.IH obtain k where k: "k \<le> length cs" "evict_over cs (sum_list (map snd cs)) = map (\<lambda>c. snd (fst c)) (take k cs)"
      "within_limits (drop k cs)" "\<forall>j < k. \<not> within_limits (drop j cs)" by blast
    have "evict_over (c # cs) (sum_list (map snd (c # cs))) = snd (fst c) # evict_over cs (sum_list (map snd cs))"
      using False by (auto simp: within_limits_def inactiveProjectionMaxCount_def inactiveProjectionMaxBytes_def)
    moreover have "\<not> within_limits (drop j (c # cs))" if "j < Suc k" for j
      using that False k(4) by (cases j) auto
    ultimately show ?thesis using k by (intro exI [of _ "Suc k"]) auto
  qed
qed (simp add: within_limits_def)

section \<open>A whole run\<close>

lemma evictable_not_in_use: "evictable t sid e \<Longrightarrow> \<not> in_use t sid e"
  by (auto simp: evictable_def in_use_def)

lemma distinct_drop_filter:
  assumes "distinct (map f cs)"
  shows "filter (\<lambda>c. f c \<notin> set (map f (take k cs))) cs = drop k cs"
proof -
  have "distinct (map f (take k cs) @ map f (drop k cs))" using assms by (metis append_take_drop_id map_append)
  then have d: "f c \<notin> set (map f (take k cs))" if "c \<in> set (drop k cs)" for c using that by auto
  let ?P = "\<lambda>c. f c \<notin> set (map f (take k cs))"
  have "filter ?P (take k cs) = []" by (auto simp: filter_empty_conv)
  moreover have "filter ?P (drop k cs) = drop k cs" using d by (simp add: filter_id_conv)
  moreover have "filter ?P cs = filter ?P (take k cs) @ filter ?P (drop k cs)" by (metis append_take_drop_id filter_append)
  ultimately show ?thesis by simp
qed

definition idle_rows :: "table \<Rightarrow> (string \<times> nat) list" where
  "idle_rows t = filter (\<lambda>(sid, i). evictable t sid (ent t i)) (tb_sessions t)"

definition idle_order :: "table \<Rightarrow> nat \<Rightarrow> eviction_candidate list" where
  "idle_order t now = sort_key fst (map (idle_row t now (tb_entries t)) (idle_rows t))"

lemma idle_order_ids:
  assumes "table_ok t"
  shows "distinct (map (\<lambda>c. snd (fst c)) (idle_order t now))"
    "mset (idle_order t now) = mset (map (idle_row t now (tb_entries t)) (idle_rows t))"
proof -
  show m: "mset (idle_order t now) = mset (map (idle_row t now (tb_entries t)) (idle_rows t))"
    by (simp add: idle_order_def)
  have "map (\<lambda>c. snd (fst c)) (map (idle_row t now (tb_entries t)) (idle_rows t)) = map fst (idle_rows t)"
    by (auto simp: idle_row_def)
  moreover have "distinct (map fst (idle_rows t))"
    using assms unfolding table_ok_def unique_keys_def idle_rows_def by (simp add: distinct_map_filter)
  ultimately show "distinct (map (\<lambda>c. snd (fst c)) (idle_order t now))"
    using m by (metis mset_map mset_eq_imp_distinct_iff)
qed

lemma idle_order_sorted: "sorted (map fst (idle_order t now))"
  by (simp add: idle_order_def)

text \<open>A run, taken apart: the \<open>k\<close> oldest idle entries go, and those that cannot be kept at all.\<close>

lemma evictLocked_run:
  assumes ok: "table_ok t"
  obtains k es where "evictLocked now t = t\<lparr>tb_entries := es, tb_sessions := filter (\<lambda>(sid, i).
        (in_use t sid (ent t i) \<or> evictable t sid (ent t i)) \<and> sid \<notin> set (map (\<lambda>c. snd (fst c)) (take k (idle_order t now)))) (tb_sessions t)\<rparr>"
    "within_limits (drop k (idle_order t now))" "\<forall>j < k. \<not> within_limits (drop j (idle_order t now))" "k \<le> length (idle_order t now)"
    "length es = length (tb_entries t)" "\<forall>(sid, i) \<in> set (tb_sessions t). es ! i = fst (look t now sid (ent t i))"
    "\<forall>i. i \<notin> snd ` set (tb_sessions t) \<longrightarrow> es ! i = ent t i"
proof -
  obtain es drops cs where l: "look_each t now (tb_sessions t) (tb_entries t) = (es, drops, cs)" by (metis prod_cases3)
  have "distinct (map snd (tb_sessions t))" "\<forall>(sid, i) \<in> set (tb_sessions t). i < length (tb_entries t)"
    using ok by (auto simp: table_ok_def)
  note L = look_each_spec [OF this l, folded ent_def]
  have cs: "sort_key fst cs = idle_order t now"
    unfolding L(5) idle_order_def idle_rows_def using evictable_not_in_use by (metis (no_types, lifting))
  have sum: "sum_list (map snd cs) = sum_list (map snd (idle_order t now))"
    using cs by (metis mset_map mset_sort sum_mset_sum_list)
  obtain k where k: "k \<le> length (idle_order t now)"
    "evict_over (idle_order t now) (sum_list (map snd (idle_order t now))) = map (\<lambda>c. snd (fst c)) (take k (idle_order t now))"
    "within_limits (drop k (idle_order t now))" "\<forall>j < k. \<not> within_limits (drop j (idle_order t now))"
    using evict_over_least by blast
  have drops: "sid \<in> set drops \<longleftrightarrow> \<not> (in_use t sid (ent t i) \<or> evictable t sid (ent t i))" if "(sid, i) \<in> set (tb_sessions t)" for sid i
  proof -
    have "sid \<in> set drops \<longleftrightarrow> snd (look t now sid (ent t i)) = Drops"
    proof -
      have "i' = i" if "(sid, i') \<in> set (tb_sessions t)" for i'
        using that \<open>(sid, i) \<in> set (tb_sessions t)\<close> table_ok_get [OF ok] by (metis option.inject)
      moreover have "sid \<in> set drops \<longleftrightarrow> (\<exists>i'. (sid, i') \<in> set (tb_sessions t) \<and> snd (look t now sid (ent t i')) = Drops)"
        by (simp add: L(4) image_iff)
      ultimately show ?thesis using \<open>(sid, i) \<in> set (tb_sessions t)\<close> by blast
    qed
    then show ?thesis by (simp add: look_verdict)
  qed
  have "filter (\<lambda>(sid, i). sid \<notin> set drops \<and> sid \<notin> set (map (\<lambda>c. snd (fst c)) (take k (idle_order t now)))) (tb_sessions t)
    = filter (\<lambda>(sid, i). (in_use t sid (ent t i) \<or> evictable t sid (ent t i))
        \<and> sid \<notin> set (map (\<lambda>c. snd (fst c)) (take k (idle_order t now)))) (tb_sessions t)"
    by (rule filter_cong) (use drops in auto)
  then have E: "evictLocked now t = t\<lparr>tb_entries := es, tb_sessions := filter (\<lambda>(sid, i).
        (in_use t sid (ent t i) \<or> evictable t sid (ent t i)) \<and> sid \<notin> set (map (\<lambda>c. snd (fst c)) (take k (idle_order t now)))) (tb_sessions t)\<rparr>"
    by (simp add: evictLocked_def l Let_def cs sum k(2))
  show thesis by (rule that [OF E k(3,4,1) L(1-3)])
qed

lemma evict_table_ok:
  assumes "table_ok t" shows "table_ok (evictLocked now t)"
proof (cases rule: evictLocked_run [OF assms, of now])
  case (1 k es)
  then show ?thesis using assms by (auto simp: table_ok_def distinct_map_filter)
qed

lemma evict_frame [simp]:
  "tb_leases (evictLocked now t) = tb_leases t" "tb_lifecycle (evictLocked now t) = tb_lifecycle t"
  "tb_closed (evictLocked now t) = tb_closed t" "tb_durable (evictLocked now t) = tb_durable t"
  by (simp_all add: evictLocked_def Let_def split: prod.splits)

lemma evict_leased [simp]: "isLeasedLocked (evictLocked now t) = isLeasedLocked t"
  by (simp add: isLeasedLocked_def fun_eq_iff)

lemma evict_ent:
  assumes "table_ok t"
  shows "length (tb_entries (evictLocked now t)) = length (tb_entries t)"
    "te_refs (ent (evictLocked now t) i) = te_refs (ent t i)" "te_chat (ent (evictLocked now t) i) = te_chat (ent t i)"
    "te_runID (ent (evictLocked now t) i) = te_runID (ent t i)" "te_replaying (ent (evictLocked now t) i) = te_replaying (ent t i)"
    "te_ephemeral (ent (evictLocked now t) i) = te_ephemeral (ent t i)" "te_measure (ent (evictLocked now t) i) = te_measure (ent t i)"
    "te_cwd (ent (evictLocked now t) i) = te_cwd (ent t i)"
proof -
  obtain es where es: "tb_entries (evictLocked now t) = es" "length es = length (tb_entries t)"
    "\<forall>(sid, i) \<in> set (tb_sessions t). es ! i = fst (look t now sid (ent t i))" "\<forall>i. i \<notin> snd ` set (tb_sessions t) \<longrightarrow> es ! i = ent t i"
    by (rule evictLocked_run [OF assms, of now]) simp
  show "length (tb_entries (evictLocked now t)) = length (tb_entries t)" using es(1,2) by simp
  have "es ! i = ent t i \<or> (\<exists>sid. es ! i = fst (look t now sid (ent t i)))"
  proof (cases "i \<in> snd ` set (tb_sessions t)")
    case True
    then obtain sid where "(sid, i) \<in> set (tb_sessions t)" by force
    with es(3) show ?thesis by auto
  qed (use es(4) in simp)
  then show "te_refs (ent (evictLocked now t) i) = te_refs (ent t i)" "te_chat (ent (evictLocked now t) i) = te_chat (ent t i)"
    "te_runID (ent (evictLocked now t) i) = te_runID (ent t i)" "te_replaying (ent (evictLocked now t) i) = te_replaying (ent t i)"
    "te_ephemeral (ent (evictLocked now t) i) = te_ephemeral (ent t i)" "te_measure (ent (evictLocked now t) i) = te_measure (ent t i)"
    "te_cwd (ent (evictLocked now t) i) = te_cwd (ent t i)"
    using es(1) by (auto simp: ent_def look_frame [unfolded ent_def])
qed

lemma evict_in_use [simp]: "table_ok t \<Longrightarrow> in_use (evictLocked now t) sid (ent (evictLocked now t) i) = in_use t sid (ent t i)"
  by (simp add: in_use_def pinned_def evict_ent)

lemma evict_keeps:
  assumes "table_ok t" "(sid, i) \<in> set (tb_sessions t)" "in_use t sid (ent t i)"
  shows "(sid, i) \<in> set (tb_sessions (evictLocked now t))"
proof (cases rule: evictLocked_run [OF assms(1), of now])
  case (1 k es)
  have "sid \<notin> set (map (\<lambda>c. snd (fst c)) (idle_order t now))"
  proof
    assume "sid \<in> set (map (\<lambda>c. snd (fst c)) (idle_order t now))"
    then obtain c where "c \<in># mset (idle_order t now)" "snd (fst c) = sid" by auto
    then obtain i' where "(sid, i') \<in> set (idle_rows t)" unfolding idle_order_ids(2) [OF assms(1)] by (auto simp: idle_row_def)
    then have "(sid, i') \<in> set (tb_sessions t)" "evictable t sid (ent t i')" by (auto simp: idle_rows_def)
    with assms table_ok_get [OF assms(1)] evictable_not_in_use show False by (metis option.inject)
  qed
  then have "sid \<notin> set (map (\<lambda>c. snd (fst c)) (take k (idle_order t now)))"
    by (auto dest: in_set_takeD)
  then show ?thesis using assms 1(1) by simp
qed

lemma evict_subset: "set (tb_sessions (evictLocked now t)) \<subseteq> set (tb_sessions t)"
  by (auto simp: evictLocked_def Let_def split: prod.splits)

text \<open>The idle entries that are kept, in the order of their age.\<close>

lemma kept_idle:
  assumes ok: "table_ok t" and over: "tb_sessions (evictLocked now t) = filter (\<lambda>(sid, i).
        (in_use t sid (ent t i) \<or> evictable t sid (ent t i)) \<and> sid \<notin> set (map (\<lambda>c. snd (fst c)) (take k (idle_order t now)))) (tb_sessions t)"
  shows "mset (map (idle_row t now (tb_entries t)) (filter (\<lambda>(sid, i). \<not> in_use t sid (ent t i)) (tb_sessions (evictLocked now t))))
     = mset (drop k (idle_order t now))"
proof -
  define ids where "ids = set (map (\<lambda>c. snd (fst c)) (take k (idle_order t now)))"
  let ?out = "\<lambda>c. snd (fst c) \<notin> ids"
  let ?row = "idle_row t now (tb_entries t)"
  have "filter (\<lambda>(sid, i). \<not> in_use t sid (ent t i)) (tb_sessions (evictLocked now t)) = filter (?out \<circ> ?row) (idle_rows t)"
    unfolding over [folded ids_def] idle_rows_def filter_filter
    by (rule filter_cong) (use evictable_not_in_use in \<open>auto simp: idle_row_def\<close>)
  then have "map ?row (filter (\<lambda>(sid, i). \<not> in_use t sid (ent t i)) (tb_sessions (evictLocked now t))) = filter ?out (map ?row (idle_rows t))"
    by (simp add: filter_map)
  then have "mset (map ?row (filter (\<lambda>(sid, i). \<not> in_use t sid (ent t i)) (tb_sessions (evictLocked now t)))) = mset (filter ?out (idle_order t now))"
    by (simp add: idle_order_ids(2) [OF ok])
  then show ?thesis by (simp only: ids_def distinct_drop_filter [OF idle_order_ids(1) [OF ok]])
qed

lemma evicted_size:
  assumes "table_ok t" "(sid, i) \<in> set (tb_sessions t)" "evictable t sid (ent t i)"
  shows "te_inactiveBytes (ent (evictLocked now t) i) = size_of (ent t i)"
proof (cases rule: evictLocked_run [OF assms(1), of now])
  case (1 k es)
  then have "ent (evictLocked now t) i = fst (look t now sid (ent t i))" using assms(2) by (auto simp: ent_def)
  with assms(3) show ?thesis by (auto simp: look_def evictable_def size_of_def Let_def split: option.splits)
qed

section \<open>Properties\<close>

text \<open>The idle entries kept by a run, what they weigh, and the evictable ones that went.\<close>

definition idle_kept :: "nat \<Rightarrow> table \<Rightarrow> (string \<times> nat) list" where
  "idle_kept now t = filter (\<lambda>(sid, i). \<not> in_use t sid (ent t i)) (tb_sessions (evictLocked now t))"

definition kept_bytes :: "nat \<Rightarrow> table \<Rightarrow> nat" where
  "kept_bytes now t = (\<Sum>(sid, i)\<leftarrow>idle_kept now t. te_inactiveBytes (ent (evictLocked now t) i))"

definition gone_rows :: "nat \<Rightarrow> table \<Rightarrow> (string \<times> nat) set" where
  "gone_rows now t = {(sid, i) \<in> set (tb_sessions t) - set (tb_sessions (evictLocked now t)). evictable t sid (ent t i)}"

lemma kept_evictable:
  assumes "table_ok t" "(sid, i) \<in> set (idle_kept now t)"
  shows "(sid, i) \<in> set (tb_sessions t)" "evictable t sid (ent t i)"
proof -
  show "(sid, i) \<in> set (tb_sessions t)" using assms(2) evict_subset by (auto simp: idle_kept_def)
  show "evictable t sid (ent t i)"
    by (rule evictLocked_run [OF assms(1), of now]) (use assms(2) in \<open>auto simp: idle_kept_def\<close>)
qed

lemma kept_bytes_size:
  assumes "table_ok t" shows "kept_bytes now t = sum_list (map (\<lambda>(sid, i). size_of (ent t i)) (idle_kept now t))"
  unfolding kept_bytes_def
proof (rule arg_cong [where f = sum_list], rule map_cong [OF refl])
  fix x assume "x \<in> set (idle_kept now t)"
  then have "(fst x, snd x) \<in> set (idle_kept now t)" by simp
  from evicted_size [OF assms kept_evictable [OF assms this]]
  show "(case x of (sid, i) \<Rightarrow> te_inactiveBytes (ent (evictLocked now t) i)) = (case x of (sid, i) \<Rightarrow> size_of (ent t i))"
    by (simp add: case_prod_beta)
qed

lemma drop_split: "j < length cs \<Longrightarrow> drop j cs = cs ! j # drop (Suc j) cs"
  by (rule Cons_nth_drop_Suc [symmetric])

lemma eviction_split:
  assumes ok: "table_ok t"
  obtains k where "mset (map (idle_row t now (tb_entries t)) (idle_kept now t)) = mset (drop k (idle_order t now))"
    "within_limits (drop k (idle_order t now))" "\<forall>j < k. \<not> within_limits (drop j (idle_order t now))" "k \<le> length (idle_order t now)"
    "idle_row t now (tb_entries t) ` gone_rows now t = set (take k (idle_order t now))"
proof (cases rule: evictLocked_run [OF ok, of now])
  case (1 k es)
  have sess: "tb_sessions (evictLocked now t) = filter (\<lambda>(sid, i).
        (in_use t sid (ent t i) \<or> evictable t sid (ent t i)) \<and> sid \<notin> set (map (\<lambda>c. snd (fst c)) (take k (idle_order t now)))) (tb_sessions t)"
    using 1(1) by simp
  note m = kept_idle [OF ok sess, folded idle_kept_def]
  let ?row = "idle_row t now (tb_entries t)" and ?ids = "set (map (\<lambda>c. snd (fst c)) (take k (idle_order t now)))"
  have gone: "gone_rows now t = {(sid, i) \<in> set (idle_rows t). sid \<in> ?ids}"
    unfolding gone_rows_def sess idle_rows_def by auto
  have all: "?row ` set (idle_rows t) = set (idle_order t now)"
    using idle_order_ids(2) [OF ok, of now] by (metis set_map set_mset_mset)
  have "c \<in> ?row ` gone_rows now t \<longleftrightarrow> c \<in> set (take k (idle_order t now))" for c
  proof
    assume "c \<in> ?row ` gone_rows now t"
    then obtain sid i where r: "(sid, i) \<in> gone_rows now t" "c = ?row (sid, i)" by auto
    then have r': "(sid, i) \<in> set (idle_rows t)" "sid \<in> ?ids" unfolding gone by blast+
    have "snd (fst c) = sid" using r(2) by (simp add: idle_row_def)
    with r'(2) have "snd (fst c) \<in> ?ids" by (simp only:)
    moreover have "c \<in> set (idle_order t now)" using imageI [OF r'(1), of ?row] r(2) all by simp
    ultimately have "c \<in> set (idle_order t now)" "snd (fst c) \<in> ?ids" by blast+
    then obtain c' where c': "c' \<in> set (take k (idle_order t now))" "snd (fst c') = snd (fst c)" by auto
    then have "c' = c"
      using idle_order_ids(1) [OF ok, of now] \<open>c \<in> set (idle_order t now)\<close> in_set_takeD [OF c'(1)]
      by (auto simp: distinct_map inj_on_def)
    with c' show "c \<in> set (take k (idle_order t now))" by simp
  next
    assume c: "c \<in> set (take k (idle_order t now))"
    then have "c \<in> ?row ` set (idle_rows t)" using all by (auto dest: in_set_takeD)
    moreover have "snd (fst c) \<in> ?ids" using c by auto
    ultimately obtain sid i where r: "(sid, i) \<in> set (idle_rows t)" "c = ?row (sid, i)" "snd (fst c) \<in> ?ids" by auto
    from r(2) have "snd (fst c) = sid" by (simp add: idle_row_def)
    with r(3) have "sid \<in> ?ids" by (simp only:)
    with r(1) have "(sid, i) \<in> gone_rows now t" unfolding gone by blast
    with r(2) show "c \<in> ?row ` gone_rows now t" by (simp only: image_eqI)
  qed
  then have "?row ` gone_rows now t = set (take k (idle_order t now))" by blast
  with m 1(2-4) show thesis by (rule that)
qed

text \<open>C21: Eviction is exact: entries somebody uses stay, whatever their size; of the others at most 24 with at most 8 MiB are kept; those
  that go for space are older than all that are kept (by the time they became inactive, then by identifier), and no more go than the limits
  demand: with one of them back the limits would be exceeded.\<close>

theorem eviction_exact:
  assumes ok: "table_ok t"
  shows "{(sid, i) \<in> set (tb_sessions t). in_use t sid (ent t i)} \<subseteq> set (tb_sessions (evictLocked now t))
    \<and> length (idle_kept now t) \<le> 24 \<and> kept_bytes now t \<le> 8 * 1024 * 1024
    \<and> (\<forall>(sid, i) \<in> gone_rows now t. \<forall>(sid', i') \<in> set (idle_kept now t). (age now (ent t i), sid) < (age now (ent t i'), sid'))
    \<and> (gone_rows now t = {} \<or> (\<exists>(sid, i) \<in> gone_rows now t. length (idle_kept now t) + 1 > 24
         \<or> kept_bytes now t + size_of (ent t i) > 8 * 1024 * 1024))"
proof (rule eviction_split [OF ok, of now])
  let ?row = "idle_row t now (tb_entries t)" and ?order = "idle_order t now"
  fix k assume m: "mset (map ?row (idle_kept now t)) = mset (drop k ?order)" and lim: "within_limits (drop k ?order)"
    and least: "\<forall>j < k. \<not> within_limits (drop j ?order)" and k: "k \<le> length ?order" and gone: "?row ` gone_rows now t = set (take k ?order)"
  have len: "length (idle_kept now t) = length (drop k ?order)" using arg_cong [OF m, of size] by simp
  have "sum_list (map snd (map ?row (idle_kept now t))) = sum_list (map snd (drop k ?order))"
    using m by (metis mset_map sum_mset_sum_list)
  moreover have "map snd (map ?row ks) = map (\<lambda>(sid, i). size_of (ent t i)) ks" for ks
    by (induction ks) (auto simp: idle_row_def ent_def)
  ultimately have bytes: "kept_bytes now t = sum_list (map snd (drop k ?order))" by (simp only: kept_bytes_size [OF ok])
  have use: "{(sid, i) \<in> set (tb_sessions t). in_use t sid (ent t i)} \<subseteq> set (tb_sessions (evictLocked now t))"
    using evict_keeps [OF ok] by auto
  have older: "(age now (ent t i), sid) < (age now (ent t i'), sid')"
    if g: "(sid, i) \<in> gone_rows now t" and kept: "(sid', i') \<in> set (idle_kept now t)" for sid i sid' i'
  proof -
    have "?row ` set (idle_kept now t) = set (drop k ?order)" using m by (metis set_map set_mset_mset)
    then have "?row (sid, i) \<in> set (take k ?order)" "?row (sid', i') \<in> set (drop k ?order)"
      using imageI [OF g, of ?row] imageI [OF kept, of ?row] gone by simp_all
    moreover have "fst c \<le> fst c'" "fst c \<noteq> fst c'" if "c \<in> set (take k ?order)" "c' \<in> set (drop k ?order)" for c c'
    proof -
      have s: "sorted (map fst (take k ?order) @ map fst (drop k ?order))"
        using idle_order_sorted by (metis append_take_drop_id map_append)
      then show "fst c \<le> fst c'" using that by (auto simp: sorted_append)
      have "distinct (map (\<lambda>c. snd (fst c)) (take k ?order) @ map (\<lambda>c. snd (fst c)) (drop k ?order))"
        using idle_order_ids(1) [OF ok] by (metis append_take_drop_id map_append)
      then show "fst c \<noteq> fst c'" using that by auto
    qed
    ultimately have "fst (?row (sid, i)) < fst (?row (sid', i'))" by (meson order_le_imp_less_or_eq)
    then show ?thesis by (simp add: idle_row_def ent_def)
  qed
  have need: "gone_rows now t = {} \<or> (\<exists>(sid, i) \<in> gone_rows now t. length (idle_kept now t) + 1 > 24
         \<or> kept_bytes now t + size_of (ent t i) > 8 * 1024 * 1024)"
  proof (cases k)
    case 0
    with gone show ?thesis by simp
  next
    case (Suc j)
    then have j: "j < k" "j < length ?order" using k by auto
    have "?order ! j \<in> set (take k ?order)" using j Suc by (auto simp: in_set_conv_nth)
    then obtain sid i where g: "(sid, i) \<in> gone_rows now t" "?row (sid, i) = ?order ! j" using gone by force
    have "snd (?order ! j) = size_of (ent t i)" using arg_cong [OF g(2), of snd] by (simp add: idle_row_def ent_def)
    moreover have "\<not> within_limits (?order ! j # drop k ?order)" using least j(1) drop_split [OF j(2)] Suc by metis
    ultimately have "length (idle_kept now t) + 1 > 24 \<or> kept_bytes now t + size_of (ent t i) > 8 * 1024 * 1024"
      by (auto simp: within_limits_def len bytes)
    with g(1) show ?thesis by blast
  qed
  have small: "length (idle_kept now t) \<le> 24" "kept_bytes now t \<le> 8 * 1024 * 1024"
    using lim by (simp_all add: within_limits_def len bytes)
  have older': "\<forall>(sid, i) \<in> gone_rows now t. \<forall>(sid', i') \<in> set (idle_kept now t). (age now (ent t i), sid) < (age now (ent t i'), sid')"
    using older by blast
  show ?thesis by (intro conjI use small older' need)
qed

text \<open>Two idle chats, one too big to keep.\<close>

definition demo_idle_table :: table where
  "demo_idle_table =
     (let e = newSessionEntry ''p'' ''/'' (newSessionQueueState ''r'') \<lparr>files = [], faults = [], trail = []\<rparr>
      in \<lparr>tb_closed = False, tb_entries = [e\<lparr>te_measure := Some 9000000, te_inactiveAt := Some 3\<rparr>, e\<lparr>te_measure := Some 10\<rparr>],
          tb_sessions = [(''a'', 0), (''b'', 1)], tb_leases = [], tb_lifecycle = [], tb_durable = True\<rparr>)"

theorem eviction_exact_witness:
  "length (idle_kept 7 demo_idle_table) \<le> 24 \<and> kept_bytes 7 demo_idle_table \<le> 8 * 1024 * 1024
     \<and> tb_sessions (evictLocked 7 demo_idle_table) = [(''b'', 1)]"
proof -
  have ok: "table_ok demo_idle_table" by (simp add: table_ok_def unique_keys_def demo_idle_table_def Let_def)
  have "tb_sessions (evictLocked 7 demo_idle_table) = [(''b'', 1)]"
    by (simp add: evictLocked_def demo_idle_table_def Let_def look_def pinned_def isLeasedLocked_def newSessionEntry_def newSessionQueueState_def
        inactiveProjectionMaxCount_def inactiveProjectionMaxBytes_def)
  with eviction_exact [OF ok, of 7] show ?thesis by blast
qed

end
