(* ===== verification/SessionTableSafety.thy ===== *)
theory SessionTableSafety
  imports SessionEviction
begin

text \<open>
  The critical sections of the session table, interleaved in any order by requests, workers, notifications, timers and
  browsers: what is held or leased stays in the table, and a change of a chat's life cycle has the chat to itself.
\<close>

section \<open>Interleavings\<close>

text \<open>The table with who holds its entries: operations (requests, prompts and queue workers) and terminal notifications, and
  the running life-cycle changes with the entry they were begun with.\<close>

record table_system =
  sy_table :: table
  sy_ops :: "nat list"
  sy_notices :: "nat list"
  sy_life :: "(string \<times> nat option) list"

text \<open>What a chat's own activity may change of its entry.\<close>

definition same_holding :: "table_entry \<Rightarrow> table_entry \<Rightarrow> bool" where
  "same_holding e e' \<longleftrightarrow> te_refs e' = te_refs e \<and> te_ephemeral e' = te_ephemeral e \<and> te_cwd e' = te_cwd e
     \<and> projectOf (te_chat e') = projectOf (te_chat e) \<and> te_inactiveAt e' = te_inactiveAt e
     \<and> (te_inactiveBytes e' = te_inactiveBytes e \<or> te_inactiveBytes e' = 0)"

definition unheld :: "table_entry \<Rightarrow> bool" where
  "unheld e \<longleftrightarrow> te_refs e = 0"

text \<open>A new chat has an identifier that no chat of the table has: Pi gives it when it creates or forks the chat. Everything else a
  section is called with, the entries made from records included, is arbitrary.\<close>

inductive table_step :: "table_system \<Rightarrow> table_system \<Rightarrow> bool" where
  enter: "entry_ref sid (sy_table s) = (Inr i, t) \<Longrightarrow> table_step s (s\<lparr>sy_table := t, sy_ops := i # sy_ops s\<rparr>)"
| insert: "unheld e \<Longrightarrow> insert_entry sid e (sy_table s) = (Inr i, t) \<Longrightarrow> table_step s (s\<lparr>sy_table := t, sy_ops := i # sy_ops s\<rparr>)"
| resume: "unheld e \<Longrightarrow> resume_entry sid e (sy_table s) = (Some i, t) \<Longrightarrow> table_step s (s\<lparr>sy_table := t, sy_ops := i # sy_ops s\<rparr>)"
| resume_refused: "unheld e \<Longrightarrow> resume_entry sid e (sy_table s) = (None, t) \<Longrightarrow> table_step s (s\<lparr>sy_table := t\<rparr>)"
| create: "unheld e \<Longrightarrow> get (tb_sessions (sy_table s)) sid = None \<Longrightarrow> sid \<notin> set (tb_lifecycle (sy_table s)) \<Longrightarrow>
    create_entry sid e client (sy_table s) = (Inr i, t) \<Longrightarrow> table_step s (s\<lparr>sy_table := t, sy_ops := i # sy_ops s\<rparr>)"
| fork: "unheld e \<Longrightarrow> get (tb_sessions (sy_table s)) sid = None \<Longrightarrow>
    fork_entry sid e (sy_table s) = (None, t) \<Longrightarrow> table_step s (s\<lparr>sy_table := t\<rparr>)"
| work: "i \<in> set (sy_ops s) \<Longrightarrow> retainWork sid i (sy_table s) = (None, t) \<Longrightarrow>
    table_step s (s\<lparr>sy_table := t, sy_ops := i # sy_ops s\<rparr>)"
| worker: "i < length (tb_entries (sy_table s)) \<Longrightarrow> admit_worker sid i (sy_table s) = (True, t) \<Longrightarrow>
    table_step s (s\<lparr>sy_table := t, sy_ops := i # sy_ops s\<rparr>)"
| leave: "i \<in> set (sy_ops s) \<Longrightarrow> table_step s (s\<lparr>sy_table := releaseEntry now i (sy_table s), sy_ops := remove1 i (sy_ops s)\<rparr>)"
| notice: "notice_entry sid True (sy_table s) = (Some i, t) \<Longrightarrow> table_step s (s\<lparr>sy_table := t, sy_notices := i # sy_notices s\<rparr>)"
| noticed: "i \<in> set (sy_notices s) \<Longrightarrow>
    table_step s (s\<lparr>sy_table := releaseEntry now i (sy_table s), sy_notices := remove1 i (sy_notices s)\<rparr>)"
| settled: "table_step s (s\<lparr>sy_table := notice_settled now sid i (sy_table s)\<rparr>)"
| ephemeral: "i \<in> set (sy_ops s) \<Longrightarrow> table_step s (s\<lparr>sy_table := mark_ephemeral sid i (sy_table s)\<rparr>)"
| activity: "same_holding (ent (sy_table s) i) e \<Longrightarrow> table_step s (s\<lparr>sy_table := set_ent i (\<lambda>_. e) (sy_table s)\<rparr>)"
| retain: "table_step s (s\<lparr>sy_table := retainSessionLocked client sid project (sy_table s)\<rparr>)"
| leases: "SetLeases now env client revision requested (sy_table s) = (r, t) \<Longrightarrow> table_step s (s\<lparr>sy_table := t\<rparr>)"
| release: "table_step s (s\<lparr>sy_table := Release_lease now sid project cwd client (sy_table s)\<rparr>)"
| release_client: "table_step s (s\<lparr>sy_table := ReleaseClient_leases now client (sy_table s)\<rparr>)"
| release_project: "table_step s (s\<lparr>sy_table := ReleaseProject_leases now p projectID (sy_table s)\<rparr>)"
| begin_entry: "i \<in> set (sy_ops s) \<Longrightarrow> beginLifecycle sid (Some i) (sy_table s) = (None, t) \<Longrightarrow>
    table_step s (s\<lparr>sy_table := t, sy_life := (sid, Some i) # sy_life s\<rparr>)"
| begin_absent: "beginLifecycle sid None (sy_table s) = (None, t) \<Longrightarrow>
    table_step s (s\<lparr>sy_table := t, sy_life := (sid, None) # sy_life s\<rparr>)"
| remove: "(sid, Some i) \<in> set (sy_life s) \<Longrightarrow> table_step s (s\<lparr>sy_table := remove_session sid (sy_table s)\<rparr>)"
| finish: "(sid, x) \<in> set (sy_life s) \<Longrightarrow>
    table_step s (s\<lparr>sy_table := end_lifecycle sid (sy_table s), sy_life := filter (\<lambda>l. fst l \<noteq> sid) (sy_life s)\<rparr>)"
| shutdown: "table_step s (s\<lparr>sy_table := shutdown_table (sy_table s)\<rparr>)"

definition empty_system :: "bool \<Rightarrow> table_system" where
  "empty_system durable =
     \<lparr>sy_table = \<lparr>tb_closed = False, tb_entries = [], tb_sessions = [], tb_leases = [], tb_lifecycle = [], tb_durable = durable\<rparr>,
      sy_ops = [], sy_notices = [], sy_life = []\<rparr>"

inductive table_reachable :: "table_system \<Rightarrow> bool" where
  start: "table_reachable (empty_system durable)"
| step: "table_reachable s \<Longrightarrow> table_step s s' \<Longrightarrow> table_reachable s'"

section \<open>The invariant\<close>

text \<open>A table whose entries are held \<open>n\<close> times, \<open>c\<close> of them by operations, with the running life-cycle changes: the
  counters are right, and in a change only the operation that began it holds the chat.\<close>

definition held_ok :: "table \<Rightarrow> (nat \<Rightarrow> nat) \<Rightarrow> bool" where
  "held_ok t n \<longleftrightarrow> table_ok t \<and> (\<forall>i < length (tb_entries t). te_refs (ent t i) = int (n i))
     \<and> (\<forall>i \<ge> length (tb_entries t). n i = 0)"

definition life_ok :: "table \<Rightarrow> (nat \<Rightarrow> nat) \<Rightarrow> (string \<times> nat option) list \<Rightarrow> bool" where
  "life_ok t c life \<longleftrightarrow> set (tb_lifecycle t) = fst ` set life
     \<and> (\<forall>(sid, x) \<in> set life. \<forall>j. get (tb_sessions t) sid = Some j \<longrightarrow> c j \<le> (if x = Some j then 1 else 0))"

definition op_count :: "table_system \<Rightarrow> nat \<Rightarrow> nat" where
  "op_count s i = count_list (sy_ops s) i"

definition hold_count :: "table_system \<Rightarrow> nat \<Rightarrow> nat" where
  "hold_count s i = count_list (sy_ops s) i + count_list (sy_notices s) i"

definition system_ok :: "table_system \<Rightarrow> bool" where
  "system_ok s \<longleftrightarrow> held_ok (sy_table s) (hold_count s) \<and> life_ok (sy_table s) (op_count s) (sy_life s)"

section \<open>What the sections do to a table\<close>

lemma ent_set_ent: "i < length (tb_entries t) \<Longrightarrow> ent (set_ent j f t) i = (if i = j then f (ent t i) else ent t i)"
  by (simp add: ent_def set_ent_def nth_list_update)

lemma set_ent_frame [simp]:
  "tb_sessions (set_ent i f t) = tb_sessions t" "length (tb_entries (set_ent i f t)) = length (tb_entries t)"
  "tb_leases (set_ent i f t) = tb_leases t" "tb_lifecycle (set_ent i f t) = tb_lifecycle t" "tb_closed (set_ent i f t) = tb_closed t"
  "tb_durable (set_ent i f t) = tb_durable t" "isLeasedLocked (set_ent i f t) = isLeasedLocked t"
  by (simp_all add: set_ent_def isLeasedLocked_def fun_eq_iff)

lemma add_ref_frame [simp]:
  "tb_sessions (add_ref i t) = tb_sessions t" "length (tb_entries (add_ref i t)) = length (tb_entries t)"
  "tb_leases (add_ref i t) = tb_leases t" "tb_lifecycle (add_ref i t) = tb_lifecycle t" "tb_closed (add_ref i t) = tb_closed t"
  by (simp_all add: add_ref_def)

lemma table_ok_same: "tb_sessions t' = tb_sessions t \<Longrightarrow> length (tb_entries t') = length (tb_entries t) \<Longrightarrow> table_ok t \<Longrightarrow> table_ok t'"
  by (simp add: table_ok_def)

lemma table_ok_set_ent [simp]: "table_ok (set_ent i f t) = table_ok t"
  by (simp add: table_ok_def)

lemma get_append_new: "get m k = None \<Longrightarrow> get (m @ [(k, v)]) k' = (if k' = k then Some v else get m k')"
  by (auto simp: map_add_def split: option.splits)

lemma register_ok:
  assumes "table_ok t" "get (tb_sessions t) sid = None"
  shows "table_ok (snd (register sid e t))" "fst (register sid e t) = length (tb_entries t)"
    "tb_entries (snd (register sid e t)) = tb_entries t @ [e]"
    "tb_sessions (snd (register sid e t)) = tb_sessions t @ [(sid, length (tb_entries t))]"
  using assms
  by (auto simp: register_def table_ok_def unique_keys_def set_put_fresh get_None_iff)

lemma register_frame [simp]:
  "tb_leases (snd (register sid e t)) = tb_leases t" "tb_lifecycle (snd (register sid e t)) = tb_lifecycle t"
  "tb_closed (snd (register sid e t)) = tb_closed t" "tb_durable (snd (register sid e t)) = tb_durable t"
  by (simp_all add: register_def)

lemma held_zero: "held_ok t n \<Longrightarrow> 0 < n i \<Longrightarrow> i < length (tb_entries t)"
  unfolding held_ok_def by (rule ccontr) simp

lemma held_register:
  assumes "held_ok t n" "get (tb_sessions t) sid = None" "unheld e"
  shows "held_ok (snd (register sid e t)) n"
proof -
  have ok: "table_ok t" using assms(1) by (simp add: held_ok_def)
  note r = register_ok [OF ok assms(2), of e]
  have "te_refs (ent (snd (register sid e t)) i) = int (n i)" if "i < length (tb_entries t @ [e])" for i
    using that assms(1,3) by (cases "i = length (tb_entries t)") (auto simp: held_ok_def ent_def unheld_def r(3) nth_append)
  with assms(1) r show ?thesis by (simp add: held_ok_def)
qed

lemma held_add:
  assumes "held_ok t n" "i < length (tb_entries t)"
  shows "held_ok (add_ref i t) (n(i := n i + 1))"
  using assms by (auto simp: held_ok_def add_ref_def ent_set_ent)

lemma held_evict: "held_ok t n \<Longrightarrow> held_ok (evictLocked now t) n"
  by (simp add: held_ok_def evict_table_ok evict_ent)

lemma held_set_ent:
  assumes "held_ok t n" "te_refs (f (ent t i)) = te_refs (ent t i)"
  shows "held_ok (set_ent i f t) n"
  using assms by (auto simp: held_ok_def ent_set_ent)

lemma held_release:
  assumes "held_ok t n" "0 < n i"
  shows "held_ok (releaseEntry now i t) (n(i := n i - 1))"
proof -
  have "held_ok (set_ent i (\<lambda>e. e\<lparr>te_inactiveBytes := 0, te_refs := te_refs e - 1\<rparr>) t) (n(i := n i - 1))"
    using assms held_zero [OF assms]
    by (auto simp: held_ok_def ent_set_ent)
  from held_evict [OF this] show ?thesis by (simp add: releaseEntry_def)
qed

lemma held_frame:
  assumes "held_ok t n" "tb_sessions t' = tb_sessions t" "length (tb_entries t') = length (tb_entries t)"
    "\<And>i. i < length (tb_entries t) \<Longrightarrow> te_refs (ent t' i) = te_refs (ent t i)"
  shows "held_ok t' n"
  using assms by (auto simp: held_ok_def table_ok_same [of t' t])

lemma held_del: "held_ok t n \<Longrightarrow> held_ok (remove_session sid t) n"
  by (simp add: held_ok_def table_ok_def remove_session_def ent_def AList.delete_eq distinct_map_filter
      unique_keys_filter)

lemma life_evict:
  assumes "table_ok t" "life_ok t c life"
  shows "life_ok (evictLocked now t) c life"
proof -
  have "get (tb_sessions t) sid = Some j" if "get (tb_sessions (evictLocked now t)) sid = Some j" for sid j
    using that evict_subset [of now t] table_ok_get [OF assms(1)] table_ok_get [OF evict_table_ok [OF assms(1)], of now] by blast
  with assms(2) show ?thesis by (fastforce simp: life_ok_def)
qed

lemma life_enter:
  assumes "table_ok t" "life_ok t c life" "get (tb_sessions t) sid = Some i" "sid \<notin> set (tb_lifecycle t)"
  shows "life_ok t (c(i := c i + 1)) life"
proof -
  have "j \<noteq> i" if "(sid', x) \<in> set life" "get (tb_sessions t) sid' = Some j" for sid' x j
  proof
    assume "j = i"
    then have "sid' = sid" using that assms(1,3) table_ok_get table_ok_inj by metis
    with that(1) assms(2,4) show False by (force simp: life_ok_def)
  qed
  with assms(2) show ?thesis by (auto simp: life_ok_def)
qed

lemma life_register:
  assumes "table_ok t" "life_ok t c life" "get (tb_sessions t) sid = None" "c (length (tb_entries t)) = 0"
  shows "life_ok (snd (register sid e t)) c life"
  using assms(2,4) by (auto simp: life_ok_def register_ok(4) [OF assms(1,3)] get_append_new [OF assms(3)] split: if_splits)

lemma life_less:
  assumes "life_ok t c life" "\<And>i. c' i \<le> c i" shows "life_ok t c' life"
proof -
  have "c' j \<le> (if x = Some j then 1 else 0)" if "(sid, x) \<in> set life" "get (tb_sessions t) sid = Some j" for sid x j
  proof -
    have "c j \<le> (if x = Some j then 1 else 0)" using assms(1) that unfolding life_ok_def by blast
    with assms(2) [of j] show ?thesis by (rule order_trans)
  qed
  with assms(1) show ?thesis unfolding life_ok_def by blast
qed

lemma life_frame:
  "life_ok t c life \<Longrightarrow> tb_sessions t' = tb_sessions t \<Longrightarrow> tb_lifecycle t' = tb_lifecycle t \<Longrightarrow> life_ok t' c life"
  by (simp add: life_ok_def)

lemma life_remove: "life_ok t c life \<Longrightarrow> life_ok (remove_session sid t) c life"
  by (auto simp: life_ok_def remove_session_def split: if_splits)

section \<open>Every step keeps the invariant\<close>

lemma count_remove1: "i \<in> set xs \<Longrightarrow> count_list (remove1 i xs) j = (if j = i then count_list xs j - 1 else count_list xs j)"
  by (induction xs) (auto dest: count_list_0_iff [THEN iffD1] simp: count_list_0_iff Suc_diff_le not_less_eq_eq)

lemma count_pos: "i \<in> set xs \<Longrightarrow> 0 < count_list xs i"
  by (induction xs) auto

lemma present_or_ok:
  assumes h: "held_ok t n" and l: "life_ok t c life" and e: "unheld e" and cn: "\<And>i. c i \<le> n i" and run: "present_or sid e t = (i, t')"
  shows "held_ok t' n" "life_ok t' c life" "get (tb_sessions t') sid = Some i" "tb_lifecycle t' = tb_lifecycle t"
proof -
  have ok: "table_ok t" using h by (simp add: held_ok_def)
  have "held_ok t' n \<and> life_ok t' c life \<and> get (tb_sessions t') sid = Some i \<and> tb_lifecycle t' = tb_lifecycle t"
  proof (cases "get (tb_sessions t) sid")
    case None
    then have t': "t' = snd (register sid e t)" "i = fst (register sid e t)" using run by (simp_all add: present_or_def)
    have "c (length (tb_entries t)) = 0" using h cn [of "length (tb_entries t)"] by (simp add: held_ok_def)
    with held_register [OF h None e] life_register [OF ok l None] show ?thesis
      unfolding t' using register_ok [OF ok None, of e] by (simp add: map_add_def None)
  qed (use h l run in \<open>simp add: present_or_def\<close>)
  then show "held_ok t' n" "life_ok t' c life" "get (tb_sessions t') sid = Some i" "tb_lifecycle t' = tb_lifecycle t" by simp_all
qed

lemma enter_ok:
  assumes h: "held_ok t n" and l: "life_ok t c life" and g: "get (tb_sessions t) sid = Some i" and f: "sid \<notin> set (tb_lifecycle t)"
  shows "held_ok (add_ref i t) (n(i := n i + 1))" "life_ok (add_ref i t) (c(i := c i + 1)) life"
proof -
  have ok: "table_ok t" using h by (simp add: held_ok_def)
  then have "i < length (tb_entries t)" using g table_ok_get table_ok_less by metis
  with h show "held_ok (add_ref i t) (n(i := n i + 1))" by (rule held_add)
  show "life_ok (add_ref i t) (c(i := c i + 1)) life" by (rule life_frame [OF life_enter [OF ok l g f]]) simp_all
qed

lemma restore_lease_ok:
  assumes "held_ok t n" "life_ok t c life" "\<And>i. c i \<le> n i"
  shows "held_ok (restore_lease env byID queued lease t) n" "life_ok (restore_lease env byID queued lease t) c life"
    "tb_leases (restore_lease env byID queued lease t) = tb_leases t"
proof -
  have ok: "table_ok t" "c (length (tb_entries t)) = 0" using assms(1) assms(3) [of "length (tb_entries t)"] by (simp_all add: held_ok_def)
  show "held_ok (restore_lease env byID queued lease t) n"
    using assms(1) by (auto simp: restore_lease_def held_register unheld_def newSessionEntry_def split: prod.splits)
  show "life_ok (restore_lease env byID queued lease t) c life"
    using assms(2) ok by (auto simp: restore_lease_def life_register split: prod.splits)
  show "tb_leases (restore_lease env byID queued lease t) = tb_leases t"
    by (simp add: restore_lease_def split: prod.splits)
qed

lemma restore_leases_ok:
  "held_ok t n \<Longrightarrow> life_ok t c life \<Longrightarrow> (\<And>i. c i \<le> n i) \<Longrightarrow>
     held_ok (fold (restore_lease env byID queued) ls t) n \<and> life_ok (fold (restore_lease env byID queued) ls t) c life
     \<and> tb_leases (fold (restore_lease env byID queued) ls t) = tb_leases t"
  by (induction ls arbitrary: t) (simp_all add: restore_lease_ok)

lemma leases_frame:
  assumes "held_ok t n" "life_ok t c life"
  shows "held_ok (t\<lparr>tb_leases := l\<rparr>) n" "life_ok (t\<lparr>tb_leases := l\<rparr>) c life"
  using assms by (simp_all add: held_frame [of t] life_ok_def ent_def)

lemma evict_ok:
  assumes "held_ok t n" "life_ok t c life"
  shows "held_ok (evictLocked now t) n" "life_ok (evictLocked now t) c life"
  using assms held_evict life_evict by (auto simp: held_ok_def)

lemma SetLeases_ok:
  assumes h: "held_ok t n" and l: "life_ok t c life" and cn: "\<And>i. c i \<le> n i" and run: "SetLeases now env client revision requested t = (r, t')"
  shows "held_ok t' n" "life_ok t' c life"
proof -
  have inst: "held_ok (install_leases now env client revision byID queued sessions t) n
    \<and> life_ok (install_leases now env client revision byID queued sessions t) c life" for byID queued sessions
    unfolding install_leases_def
    using restore_leases_ok [OF leases_frame [OF h l] cn] evict_ok by blast
  have "t' = t \<or> (\<exists>byID queued sessions. t' = install_leases now env client revision byID queued sessions t)"
    using run by (auto simp: SetLeases_def Let_def split: if_splits sum.splits option.splits)
  with inst h l show "held_ok t' n" "life_ok t' c life" by auto
qed

lemma system_counts [simp]:
  "hold_count (s\<lparr>sy_table := t, sy_ops := i # sy_ops s\<rparr>) = (hold_count s)(i := hold_count s i + 1)"
  "op_count (s\<lparr>sy_table := t, sy_ops := i # sy_ops s\<rparr>) = (op_count s)(i := op_count s i + 1)"
  "hold_count (s\<lparr>sy_table := t, sy_notices := i # sy_notices s\<rparr>) = (hold_count s)(i := hold_count s i + 1)"
  "op_count (s\<lparr>sy_table := t, sy_notices := ns\<rparr>) = op_count s"
  "hold_count (s\<lparr>sy_table := t\<rparr>) = hold_count s" "op_count (s\<lparr>sy_table := t\<rparr>) = op_count s"
  "hold_count (s\<lparr>sy_table := t, sy_life := l\<rparr>) = hold_count s" "op_count (s\<lparr>sy_table := t, sy_life := l\<rparr>) = op_count s"
  by (auto simp: hold_count_def op_count_def fun_eq_iff)

lemma system_remove:
  "i \<in> set (sy_ops s) \<Longrightarrow> hold_count (s\<lparr>sy_table := t, sy_ops := remove1 i (sy_ops s)\<rparr>) = (hold_count s)(i := hold_count s i - 1)"
  "i \<in> set (sy_notices s) \<Longrightarrow> hold_count (s\<lparr>sy_table := t, sy_notices := remove1 i (sy_notices s)\<rparr>) = (hold_count s)(i := hold_count s i - 1)"
  using count_pos [of i "sy_ops s"] count_pos [of i "sy_notices s"]
  by (auto simp: hold_count_def fun_eq_iff count_remove1)

lemma system_okD:
  assumes "system_ok s"
  shows "held_ok (sy_table s) (hold_count s)" "life_ok (sy_table s) (op_count s) (sy_life s)" "table_ok (sy_table s)"
    "op_count s i \<le> hold_count s i"
  using assms by (simp_all add: system_ok_def held_ok_def op_count_def hold_count_def)

lemma holder_less:
  assumes "system_ok s" "i \<in> set (sy_ops s) \<union> set (sy_notices s)"
  shows "0 < hold_count s i" "i < length (tb_entries (sy_table s))"
proof -
  show "0 < hold_count s i"
    using assms(2) count_pos [of i "sy_ops s"] count_pos [of i "sy_notices s"] by (auto simp: hold_count_def)
  with held_zero [OF system_okD(1) [OF assms(1)]] show "i < length (tb_entries (sy_table s))" .
qed

text \<open>A new operation, admitted by a chat in the table that is not in a life-cycle change.\<close>

lemma enter_system_ok:
  assumes h: "held_ok t (hold_count s)" and l: "life_ok t (op_count s) (sy_life s)"
    and g: "get (tb_sessions t) sid = Some i" "sid \<notin> set (tb_lifecycle t)"
  shows "system_ok (s\<lparr>sy_table := add_ref i t, sy_ops := i # sy_ops s\<rparr>)"
  using enter_ok [OF h l g] by (simp add: system_ok_def)

lemma table_only_ok:
  "held_ok t (hold_count s) \<Longrightarrow> life_ok t (op_count s) (sy_life s) \<Longrightarrow> system_ok (s\<lparr>sy_table := t\<rparr>)"
  by (simp add: system_ok_def)

lemma evict_system_ok:
  "held_ok t (hold_count s) \<Longrightarrow> life_ok t (op_count s) (sy_life s) \<Longrightarrow> system_ok (s\<lparr>sy_table := evictLocked now t\<rparr>)"
  by (simp add: table_only_ok evict_ok)

lemma set_ent_system_ok:
  "system_ok s \<Longrightarrow> te_refs (f (ent (sy_table s) i)) = te_refs (ent (sy_table s) i) \<Longrightarrow>
     system_ok (s\<lparr>sy_table := set_ent i f (sy_table s)\<rparr>)"
  by (rule table_only_ok) (simp_all add: held_set_ent system_okD life_frame [OF system_okD(2)])

lemma insert_system_ok:
  assumes ok: "system_ok s" and e: "unheld e" and run: "insert_entry sid e (sy_table s) = (Inr i, t)"
  shows "system_ok (s\<lparr>sy_table := t, sy_ops := i # sy_ops s\<rparr>)"
proof -
  obtain t1 where p: "present_or sid e (sy_table s) = (i, t1)" "t = add_ref i t1" "sid \<notin> set (tb_lifecycle (sy_table s))"
    using run by (auto simp: insert_entry_def split: if_splits prod.splits)
  note P = present_or_ok [OF system_okD(1,2) [OF ok] e system_okD(4) [OF ok] p(1)]
  show ?thesis unfolding p(2) by (rule enter_system_ok [OF P(1-3)]) (use P(4) p(3) in simp)
qed

lemma resume_system_ok:
  assumes ok: "system_ok s" and e: "unheld e"
  shows "resume_entry sid e (sy_table s) = (Some i, t) \<Longrightarrow> system_ok (s\<lparr>sy_table := t, sy_ops := i # sy_ops s\<rparr>)"
    "resume_entry sid e (sy_table s) = (None, t) \<Longrightarrow> system_ok (s\<lparr>sy_table := t\<rparr>)"
proof -
  obtain j t1 where p: "present_or sid e (sy_table s) = (j, t1)" by force
  note P = present_or_ok [OF system_okD(1,2) [OF ok] e system_okD(4) [OF ok] p]
  show "system_ok (s\<lparr>sy_table := t, sy_ops := i # sy_ops s\<rparr>)" if "resume_entry sid e (sy_table s) = (Some i, t)"
  proof -
    from that p have "t = add_ref i t1" "j = i" "sid \<notin> set (tb_lifecycle t1)" by (auto simp: resume_entry_def split: if_splits)
    with enter_system_ok [OF P(1-3)] show ?thesis by simp
  qed
  show "system_ok (s\<lparr>sy_table := t\<rparr>)" if "resume_entry sid e (sy_table s) = (None, t)"
  proof -
    from that p have "t = t1" by (auto simp: resume_entry_def split: if_splits)
    with table_only_ok [OF P(1,2)] show ?thesis by simp
  qed
qed

lemma retainSession_ok:
  "held_ok t n \<Longrightarrow> life_ok t c life \<Longrightarrow> held_ok (retainSessionLocked client sid p t) n \<and> life_ok (retainSessionLocked client sid p t) c life"
  by (simp add: retainSessionLocked_def Let_def leases_frame)

lemma create_system_ok:
  assumes ok: "system_ok s" and e: "unheld e" and new: "get (tb_sessions (sy_table s)) sid = None" "sid \<notin> set (tb_lifecycle (sy_table s))"
    and run: "create_entry sid e client (sy_table s) = (Inr i, t)"
  shows "system_ok (s\<lparr>sy_table := t, sy_ops := i # sy_ops s\<rparr>)"
proof -
  obtain t1 where p: "register sid e (sy_table s) = (i, t1)" "t = retainSessionLocked client sid (projectOf (te_chat e)) (add_ref i t1)"
    using run by (auto simp: create_entry_def split: if_splits prod.splits)
  have "present_or sid e (sy_table s) = (i, t1)" using p(1) new(1) by (simp add: present_or_def)
  note P = present_or_ok [OF system_okD(1,2) [OF ok] e system_okD(4) [OF ok] this]
  have "sid \<notin> set (tb_lifecycle t1)" using P(4) new(2) by simp
  from retainSession_ok [OF enter_ok [OF P(1-3) this]] show ?thesis by (simp add: system_ok_def p(2))
qed

lemma fork_system_ok:
  assumes ok: "system_ok s" and e: "unheld e" and new: "get (tb_sessions (sy_table s)) sid = None"
    and run: "fork_entry sid e (sy_table s) = (None, t)"
  shows "system_ok (s\<lparr>sy_table := t\<rparr>)"
proof -
  obtain i where "present_or sid e (sy_table s) = (i, t)"
    using run new by (auto simp: fork_entry_def present_or_def split: if_splits) (metis prod.collapse)
  from present_or_ok(1,2) [OF system_okD(1,2) [OF ok] e system_okD(4) [OF ok] this] show ?thesis by (rule table_only_ok)
qed

lemma worker_system_ok:
  assumes ok: "system_ok s" and run: "admit_worker sid i (sy_table s) = (True, t)"
  shows "system_ok (s\<lparr>sy_table := t, sy_ops := i # sy_ops s\<rparr>)"
proof -
  obtain c where c: "admitFollowUp \<lparr>queues = None, current = is_current sid i (sy_table s), admits = True\<rparr> (te_chat (ent (sy_table s) i)) = (True, c)"
    and t: "t = add_ref i (set_ent i (\<lambda>e. e\<lparr>te_chat := c\<rparr>) (sy_table s))"
    using run by (auto simp: admit_worker_def split: prod.splits if_splits)
  then have cur: "is_current sid i (sy_table s)" by (auto simp: admitFollowUp_def split: if_splits)
  let ?t = "set_ent i (\<lambda>e. e\<lparr>te_chat := c\<rparr>) (sy_table s)"
  have "held_ok ?t (hold_count s)" "life_ok ?t (op_count s) (sy_life s)"
    by (simp_all add: held_set_ent system_okD [OF ok] life_frame [OF system_okD(2) [OF ok]])
  then show ?thesis unfolding t by (rule enter_system_ok [where sid = sid]) (use cur in \<open>simp_all add: is_current_def\<close>)
qed

lemma leave_system_ok:
  assumes ok: "system_ok s"
  shows "i \<in> set (sy_ops s) \<Longrightarrow> system_ok (s\<lparr>sy_table := releaseEntry now i (sy_table s), sy_ops := remove1 i (sy_ops s)\<rparr>)"
    "i \<in> set (sy_notices s) \<Longrightarrow> system_ok (s\<lparr>sy_table := releaseEntry now i (sy_table s), sy_notices := remove1 i (sy_notices s)\<rparr>)"
proof -
  have l: "life_ok (releaseEntry now i (sy_table s)) (op_count s) (sy_life s)" for i
    unfolding releaseEntry_def by (rule life_evict) (simp_all add: system_okD [OF ok] life_frame [OF system_okD(2) [OF ok]])
  show "system_ok (s\<lparr>sy_table := releaseEntry now i (sy_table s), sy_ops := remove1 i (sy_ops s)\<rparr>)" if i: "i \<in> set (sy_ops s)"
  proof -
    have "op_count (s\<lparr>sy_table := t, sy_ops := remove1 i (sy_ops s)\<rparr>) j \<le> op_count s j" for t j
      using i by (simp add: op_count_def count_remove1)
    from life_less [OF l this] held_release [OF system_okD(1) [OF ok]] holder_less(1) [OF ok] i
    show ?thesis by (simp add: system_ok_def system_remove)
  qed
  show "system_ok (s\<lparr>sy_table := releaseEntry now i (sy_table s), sy_notices := remove1 i (sy_notices s)\<rparr>)" if i: "i \<in> set (sy_notices s)"
    using l held_release [OF system_okD(1) [OF ok]] holder_less(1) [OF ok] i by (simp add: system_ok_def system_remove)
qed

lemma begin_run:
  assumes "beginLifecycle sid x t = (None, t')"
  shows "t' = t\<lparr>tb_lifecycle := sid # tb_lifecycle t\<rparr>" "sid \<notin> set (tb_lifecycle t)" "x \<noteq> None \<Longrightarrow> get (tb_sessions t) sid = x"
    "get (tb_sessions t) sid = Some i \<Longrightarrow> te_refs (ent t i) \<le> (if x = None then 0 else 1) \<and> \<not> running_chat (ent t i)"
  using assms by (auto simp: beginLifecycle_def Let_def split: if_splits option.splits)

lemma begin_system_ok:
  assumes ok: "system_ok s" and run: "beginLifecycle sid x (sy_table s) = (None, t)"
  shows "system_ok (s\<lparr>sy_table := t, sy_life := (sid, x) # sy_life s\<rparr>)"
proof -
  note r = begin_run [OF run]
  have c: "op_count s j \<le> (if x = Some j then 1 else 0)" if g: "get (tb_sessions (sy_table s)) sid = Some j" for j
  proof -
    have "j < length (tb_entries (sy_table s))" using g table_ok_get table_ok_less system_okD(3) [OF ok] by metis
    then have "te_refs (ent (sy_table s) j) = int (hold_count s j)" using system_okD(1) [OF ok] by (simp add: held_ok_def)
    then have "hold_count s j \<le> (if x = None then 0 else 1)" using r(4) [OF g] by (auto split: if_splits)
    moreover have "x = None \<or> x = Some j" using r(3) g by (cases x) auto
    ultimately show ?thesis using system_okD(4) [OF ok, of j] by auto
  qed
  have "held_ok t (hold_count s)" using system_okD(1) [OF ok] by (simp add: r(1) held_frame [of "sy_table s"] ent_def)
  moreover have "life_ok t (op_count s) ((sid, x) # sy_life s)"
    using system_okD(2) [OF ok] c by (auto simp: r(1) life_ok_def)
  ultimately show ?thesis by (simp add: system_ok_def)
qed

lemma finish_system_ok:
  assumes "system_ok s"
  shows "system_ok (s\<lparr>sy_table := end_lifecycle sid (sy_table s), sy_life := filter (\<lambda>l. fst l \<noteq> sid) (sy_life s)\<rparr>)"
  using system_okD(1,2) [OF assms]
  by (auto simp: system_ok_def end_lifecycle_def held_frame [of "sy_table s"] ent_def life_ok_def)

lemma shutdown_system_ok:
  assumes "system_ok s" shows "system_ok (s\<lparr>sy_table := shutdown_table (sy_table s)\<rparr>)"
proof (rule table_only_ok)
  let ?t = "shutdown_table (sy_table s)"
  show "held_ok ?t (hold_count s)"
    by (rule held_frame [OF system_okD(1) [OF assms]]) (simp_all add: shutdown_table_def ent_def nth_enumerate_eq)
  show "life_ok ?t (op_count s) (sy_life s)"
    by (rule life_frame [OF system_okD(2) [OF assms]]) (simp_all add: shutdown_table_def)
qed

lemma table_step_ok:
  assumes "table_step s s'" "system_ok s" shows "system_ok s'"
  using assms
proof (cases rule: table_step.cases)
  case (enter sid i t)
  from enter(2) have g: "get (tb_sessions (sy_table s)) sid = Some i" "sid \<notin> set (tb_lifecycle (sy_table s))" "t = add_ref i (sy_table s)"
    by (auto simp: entry_ref_def split: if_splits option.splits)
  show ?thesis unfolding enter(1) g(3) by (rule enter_system_ok [OF system_okD(1,2) [OF assms(2)] g(1,2)])
next
  case (work i sid t)
  from work(3) have g: "get (tb_sessions (sy_table s)) sid = Some i" "sid \<notin> set (tb_lifecycle (sy_table s))" "t = add_ref i (sy_table s)"
    by (auto simp: retainWork_def is_current_def split: if_splits)
  show ?thesis unfolding work(1) g(3) by (rule enter_system_ok [OF system_okD(1,2) [OF assms(2)] g(1,2)])
next
  case (notice sid i t)
  from notice(2) have g: "get (tb_sessions (sy_table s)) sid = Some i" "t = add_ref i (sy_table s)"
    by (auto simp: notice_entry_def split: if_splits option.splits)
  then have "i < length (tb_entries (sy_table s))" using table_ok_get table_ok_less system_okD(3) [OF assms(2)] by metis
  from held_add [OF system_okD(1) [OF assms(2)] this] life_frame [OF system_okD(2) [OF assms(2)], of t]
  show ?thesis by (simp add: notice(1) g(2) system_ok_def)
next
  case (settled now sid i)
  show ?thesis unfolding settled notice_settled_def using evict_system_ok [OF system_okD(1,2) [OF assms(2)]] table_only_ok [OF system_okD(1,2) [OF assms(2)]] by simp
next
  case (ephemeral i sid)
  show ?thesis unfolding ephemeral(1) mark_ephemeral_def
    using set_ent_system_ok [OF assms(2)] table_only_ok [OF system_okD(1,2) [OF assms(2)]] by simp
next
  case (activity i e)
  from activity(2) have "te_refs e = te_refs (ent (sy_table s) i)" by (simp add: same_holding_def)
  then show ?thesis unfolding activity(1) by (intro set_ent_system_ok [OF assms(2)])
next
  case (retain client sid project)
  from retainSession_ok [OF system_okD(1,2) [OF assms(2)]] show ?thesis unfolding retain by (simp add: table_only_ok)
next
  case (leases now env client revision requested r t)
  from SetLeases_ok [OF system_okD(1,2) [OF assms(2)] system_okD(4) [OF assms(2)] leases(2)] show ?thesis
    unfolding leases(1) by (rule table_only_ok)
next
  case (release now sid project cwd client)
  show ?thesis unfolding release Release_lease_def
    by (rule evict_system_ok) (use system_okD(1,2) [OF assms(2)] in \<open>auto simp: leases_frame split: option.splits\<close>)
next
  case (release_client now client)
  show ?thesis unfolding release_client ReleaseClient_leases_def
    by (rule evict_system_ok) (use system_okD(1,2) [OF assms(2)] in \<open>simp_all add: leases_frame\<close>)
next
  case (release_project now p projectID)
  show ?thesis unfolding release_project ReleaseProject_leases_def
    using table_only_ok [OF system_okD(1,2) [OF assms(2)]] evict_system_ok [OF leases_frame [OF system_okD(1,2) [OF assms(2)]]] by simp
next
  case (remove sid i)
  show ?thesis unfolding remove(1)
    by (rule table_only_ok) (use system_okD(1,2) [OF assms(2)] in \<open>simp_all add: held_del life_remove\<close>)
qed (simp_all add: insert_system_ok resume_system_ok create_system_ok fork_system_ok worker_system_ok leave_system_ok begin_system_ok
  finish_system_ok shutdown_system_ok)

lemma reachable_system_ok: "table_reachable s \<Longrightarrow> system_ok s"
proof (induction rule: table_reachable.induct)
  case (start durable)
  then show ?case
    by (simp add: system_ok_def held_ok_def table_ok_def unique_keys_def life_ok_def empty_system_def hold_count_def op_count_def)
qed (rule table_step_ok)

section \<open>What stays in the table\<close>

definition keeps :: "table \<Rightarrow> table \<Rightarrow> bool" where
  "keeps t t' \<longleftrightarrow> (\<forall>sid i. get (tb_sessions t) sid = Some i \<longrightarrow> get (tb_sessions t') sid = Some i)"

lemma keeps_same [simp]: "tb_sessions t' = tb_sessions t \<Longrightarrow> keeps t t'"
  by (simp add: keeps_def)

lemma keeps_trans: "keeps a b \<Longrightarrow> keeps b c \<Longrightarrow> keeps a c"
  by (simp add: keeps_def)

lemma keeps_register: "get (tb_sessions t) sid = None \<Longrightarrow> keeps t (snd (register sid e t))"
  by (auto simp: keeps_def register_def)

lemma keeps_present_or: "present_or sid e t = (i, t') \<Longrightarrow> keeps t t'"
  using keeps_register [of t sid e] by (auto simp: present_or_def split: option.splits)

lemma keeps_restore: "keeps t (fold (restore_lease env byID queued) ls t)"
proof (induction ls arbitrary: t)
  case (Cons l ls)
  have "keeps t (restore_lease env byID queued l t)"
    by (auto simp: restore_lease_def keeps_register split: prod.splits)
  with Cons.IH show ?case using keeps_trans by fastforce
qed simp

text \<open>A step keeps the table, or evicts from a table that kept it, or removes a chat for the owner of its life cycle.\<close>

definition evicts_after :: "table \<Rightarrow> table \<Rightarrow> bool" where
  "evicts_after t t' \<longleftrightarrow> (\<exists>now u. table_ok u \<and> keeps t u \<and> t' = evictLocked now u)"

lemma SetLeases_evicts:
  assumes ok: "system_ok s" and run: "SetLeases now env client revision requested (sy_table s) = (r, t)"
  shows "t = sy_table s \<or> evicts_after (sy_table s) t"
proof -
  have "evicts_after (sy_table s) (install_leases now env client revision byID queued sessions (sy_table s))" for byID queued sessions
  proof -
    let ?u = "fold (restore_lease env byID queued) sessions
      ((sy_table s)\<lparr>tb_leases := put client \<lparr>le_revision = revision, le_sessions = sessions\<rparr> (tb_leases (sy_table s))\<rparr>)"
    have "keeps (sy_table s) ?u" by (rule keeps_trans [OF keeps_same keeps_restore]) simp
    moreover have "table_ok ?u"
      using restore_leases_ok [OF leases_frame [OF system_okD(1,2) [OF ok]] system_okD(4) [OF ok]] by (simp add: held_ok_def)
    ultimately show ?thesis unfolding evicts_after_def install_leases_def by blast
  qed
  then show ?thesis using run by (auto simp: SetLeases_def Let_def split: if_splits sum.splits option.splits)
qed

lemma evicts_after_same: "table_ok u \<Longrightarrow> tb_sessions u = tb_sessions t \<Longrightarrow> evicts_after t (evictLocked now u)"
  unfolding evicts_after_def by (metis keeps_same)

lemma step_keeps:
  assumes "table_step s s'" "system_ok s"
  shows "keeps (sy_table s) (sy_table s') \<or> evicts_after (sy_table s) (sy_table s')
    \<or> (\<exists>sid k. (sid, Some k) \<in> set (sy_life s) \<and> sy_table s' = remove_session sid (sy_table s))"
  using assms
proof (cases rule: table_step.cases)
  case (insert e sid i t)
  then obtain t1 where "present_or sid e (sy_table s) = (i, t1)" "t = add_ref i t1"
    by (auto simp: insert_entry_def split: if_splits prod.splits)
  then show ?thesis using keeps_present_or keeps_trans [of "sy_table s" t1 t] insert(1) by fastforce
next
  case (resume e sid i t)
  obtain j t1 where p: "present_or sid e (sy_table s) = (j, t1)" by force
  with resume(3) have "t = add_ref i t1" by (auto simp: resume_entry_def split: if_splits)
  then show ?thesis using keeps_present_or [OF p] keeps_trans [of "sy_table s" t1 t] resume(1) by fastforce
next
  case (resume_refused e sid t)
  obtain j t1 where p: "present_or sid e (sy_table s) = (j, t1)" by force
  with resume_refused(3) have "t = t1" by (auto simp: resume_entry_def split: if_splits)
  then show ?thesis using keeps_present_or [OF p] resume_refused(1) by simp
next
  case (create e sid client i t)
  obtain j t1 where p: "register sid e (sy_table s) = (j, t1)" by force
  with create(5) have "tb_sessions t = tb_sessions t1" by (auto simp: create_entry_def retainSessionLocked_def Let_def split: if_splits)
  then show ?thesis using keeps_register [OF create(3), of e] p keeps_trans [of "sy_table s" t1 t] create(1) by fastforce
next
  case (fork e sid t)
  then have "t = snd (register sid e (sy_table s))" by (auto simp: fork_entry_def split: if_splits)
  then show ?thesis using keeps_register [OF fork(3), of e] fork(1) by simp
next
  case (leave i now)
  show ?thesis unfolding leave(1) releaseEntry_def using system_okD(3) [OF assms(2)] by (simp add: evicts_after_same)
next
  case (noticed i now)
  show ?thesis unfolding noticed(1) releaseEntry_def using system_okD(3) [OF assms(2)] by (simp add: evicts_after_same)
next
  case (settled now sid i)
  show ?thesis unfolding settled(1) notice_settled_def using system_okD(3) [OF assms(2)] by (simp add: evicts_after_same)
next
  case (leases now env client revision requested r t)
  from SetLeases_evicts [OF assms(2) leases(2)] show ?thesis unfolding leases(1) by auto
next
  case (release now sid project cwd client)
  show ?thesis unfolding release(1) Release_lease_def
    by (rule disjI2, rule disjI1) (use system_okD(3) [OF assms(2)] in
      \<open>auto intro!: evicts_after_same simp: table_ok_same [of _ "sy_table s"] split: option.splits\<close>)
next
  case (release_client now client)
  have "table_ok ((sy_table s)\<lparr>tb_leases := l\<rparr>)" for l using system_okD(3) [OF assms(2)] by (rule table_ok_same [rotated 2]) simp_all
  then show ?thesis unfolding release_client(1) ReleaseClient_leases_def by (simp add: evicts_after_same)
next
  case (release_project now p projectID)
  have "table_ok ((sy_table s)\<lparr>tb_leases := l\<rparr>)" for l using system_okD(3) [OF assms(2)] by (rule table_ok_same [rotated 2]) simp_all
  then show ?thesis unfolding release_project(1) ReleaseProject_leases_def by (simp add: evicts_after_same)
next
  case (remove sid i)
  then show ?thesis by auto
next
  case (worker i sid t)
  then have "tb_sessions t = tb_sessions (sy_table s)" by (auto simp: admit_worker_def split: prod.splits if_splits)
  then show ?thesis using worker(1) by simp
qed (auto simp: entry_ref_def retainWork_def notice_entry_def mark_ephemeral_def retainSessionLocked_def Let_def end_lifecycle_def
    shutdown_table_def dest!: begin_run(1) split: if_splits option.splits)

lemma held_in_use:
  assumes "system_ok s" "i \<in> set (sy_ops s) \<union> set (sy_notices s)"
  shows "in_use (sy_table s) sid (ent (sy_table s) i)"
proof -
  note h = holder_less [OF assms]
  then have "te_refs (ent (sy_table s) i) = int (hold_count s i)" using system_okD(1) [OF assms(1)] by (simp add: held_ok_def)
  with h(1) show ?thesis by (simp add: in_use_def)
qed

lemma life_count:
  assumes "system_ok s" "(sid, x) \<in> set (sy_life s)" "get (tb_sessions (sy_table s)) sid = Some j"
  shows "count_list (sy_ops s) j \<le> (if x = Some j then 1 else 0)" "sid \<in> set (tb_lifecycle (sy_table s))"
  using system_okD(2) [OF assms(1)] assms(2,3) by (force simp: life_ok_def op_count_def)+

section \<open>Leases\<close>

lemma lease_check_record:
  assumes "lease_check env byID (p, sid) = Inr True"
  obtains r where "byID sid = Some r" "sr_ProjectID r = p"
  using assms by (auto simp: lease_check_def split: if_splits option.splits sum.splits)

lemma accepted_leases_get:
  "accepted_leases env byID req acc = Inr ss \<Longrightarrow> (\<And>sid p. get acc sid = Some p \<Longrightarrow> lease_check env byID (p, sid) = Inr True) \<Longrightarrow>
     get ss sid = Some p \<longleftrightarrow> lease_check env byID (p, sid) = Inr True \<and> ((p, sid) \<in> set req \<or> get acc sid = Some p)"
proof (induction req arbitrary: acc)
  case Nil
  then show ?case by auto
next
  case (Cons l req)
  obtain q s where l: "l = (q, s)" by (cases l)
  obtain ok where ok: "lease_check env byID (q, s) = Inr ok" using Cons.prems(1) l by (auto split: sum.splits)
  let ?acc = "if ok then put s q acc else acc"
  have run: "accepted_leases env byID req ?acc = Inr ss" using Cons.prems(1) l ok by (cases ok) simp_all
  have "lease_check env byID (p, sid) = Inr True" if "get ?acc sid = Some p" for sid p
    using that Cons.prems(2) ok by (auto split: if_splits)
  note IH = Cons.IH [OF run this]
  show ?case
  proof (cases "ok \<and> s = sid")
    case True
    have "p = q" if "lease_check env byID (p, sid) = Inr True"
      using that ok True by (metis lease_check_record option.inject)
    moreover have "p = p'" if "get acc sid = Some p'" "lease_check env byID (p, sid) = Inr True" for p'
      using that Cons.prems(2) by (metis lease_check_record option.inject)
    ultimately show ?thesis using IH True l by auto
  next
    case False
    with IH l ok show ?thesis by auto
  qed
qed

lemma restored:
  assumes "get (tb_sessions (fold (restore_lease env byID queued) ls t)) sid = Some i"
  shows "get (tb_sessions t) sid = Some i \<or> sid \<in> fst ` set ls"
  using assms
proof (induction ls arbitrary: t)
  case (Cons l ls)
  from Cons.IH [of "restore_lease env byID queued l t"] Cons.prems
  show ?case by (auto simp: restore_lease_def register_def split: prod.splits if_splits)
qed simp

lemma restore_lifecycle [simp]: "tb_lifecycle (fold (restore_lease env byID queued) ls t) = tb_lifecycle t"
  by (induction ls arbitrary: t) (simp_all add: restore_lease_def split: prod.splits)

lemma restored_present:
  "sid \<in> fst ` set ls \<Longrightarrow> sid \<notin> set (tb_lifecycle t) \<Longrightarrow>
     get (tb_sessions (fold (restore_lease env byID queued) ls t)) sid \<noteq> None"
proof (induction ls arbitrary: t)
  case (Cons l ls)
  have l1: "tb_lifecycle (restore_lease env byID queued l t) = tb_lifecycle t" by (simp add: restore_lease_def split: prod.splits)
  show ?case
  proof (cases "sid = fst l")
    case True
    then have "get (tb_sessions (restore_lease env byID queued l t)) sid \<noteq> None"
      using Cons.prems(2) by (auto simp: restore_lease_def register_def split: prod.splits)
    then show ?thesis using keeps_restore [of "restore_lease env byID queued l t" env byID queued ls] by (auto simp: keeps_def)
  next
    case False
    with Cons.IH [of "restore_lease env byID queued l t"] Cons.prems l1 show ?thesis by auto
  qed
qed simp

lemma restore_table_ok: "table_ok t \<Longrightarrow> table_ok (fold (restore_lease env byID queued) ls t)"
  by (induction ls arbitrary: t) (simp_all add: restore_lease_def register_ok(1) split: prod.splits)

lemma restore_leases_same [simp]: "tb_leases (fold (restore_lease env byID queued) ls t) = tb_leases t"
  by (induction ls arbitrary: t) (simp_all add: restore_lease_def split: prod.splits)

lemma SetLeases_run:
  assumes "SetLeases now env client revision requested t = (r, t')"
  obtains e where "r = Inl e" "t' = t"
  | l where "t' = t" "get (tb_leases t) client = Some l" "revision \<le> le_revision l"
  | rs queued ss woken where "lv_records env = Inr rs" "accepted_leases env (records_by_id rs) requested [] = Inr ss" "revision \<noteq> 0"
      "t' = install_leases now env client revision (records_by_id rs) queued ss t" "r = Inr woken"
  using assms by (auto simp: SetLeases_def Let_def split: if_splits sum.splits option.splits)

text \<open>An accepted snapshot, installed.\<close>

lemma installed:
  assumes ok: "table_ok t" and t'_def: "t' = install_leases now env client revision byID queued ss t"
  shows "get (tb_leases t') client = Some \<lparr>le_revision = revision, le_sessions = ss\<rparr>"
    "c \<noteq> client \<Longrightarrow> get (tb_leases t') c = get (tb_leases t) c"
    "get (tb_sessions t') sid = Some i \<Longrightarrow> get (tb_sessions t) sid = Some i \<or> get ss sid \<noteq> None"
    "get ss sid \<noteq> None \<Longrightarrow> sid \<notin> set (tb_lifecycle t) \<Longrightarrow> get (tb_sessions t') sid \<noteq> None"
proof -
  let ?l = "\<lparr>le_revision = revision, le_sessions = ss\<rparr>"
  let ?u = "t\<lparr>tb_leases := put client ?l (tb_leases t)\<rparr>"
  let ?v = "fold (restore_lease env byID queued) ss ?u"
  have t': "t' = evictLocked now ?v" by (simp add: t'_def install_leases_def)
  have v: "table_ok ?v" by (rule restore_table_ok) (use ok in \<open>simp add: table_ok_def\<close>)
  show l: "get (tb_leases t') client = Some ?l" "c \<noteq> client \<Longrightarrow> get (tb_leases t') c = get (tb_leases t) c"
    by (simp_all add: t')
  show "get (tb_sessions t) sid = Some i \<or> get ss sid \<noteq> None" if "get (tb_sessions t') sid = Some i"
  proof -
    have "get (tb_sessions ?v) sid = Some i"
      using that evict_subset [of now ?v] table_ok_get [OF v] table_ok_get [OF evict_table_ok [OF v]] unfolding t' by blast
    from restored [OF this] show ?thesis by (simp add: get_None_iff)
  qed
  show "get (tb_sessions t') sid \<noteq> None" if g: "get ss sid \<noteq> None" "sid \<notin> set (tb_lifecycle t)"
  proof -
    have "sid \<in> fst ` set ss" using g(1) by (simp add: get_None_iff)
    then obtain i where i: "get (tb_sessions ?v) sid = Some i" using restored_present [of sid ss ?u env byID queued] g(2) by auto
    have "(client, ?l) \<in> set (tb_leases ?v)" using map_of_SomeD [of "tb_leases ?v" client ?l] by simp
    then have "isLeasedLocked ?v sid" using g(1) by (force simp: isLeasedLocked_def)
    then have "in_use ?v sid (ent ?v i)" by (simp add: in_use_def pinned_def)
    with evict_keeps [OF v] i table_ok_get [OF v] table_ok_get [OF evict_table_ok [OF v], of now sid i] show ?thesis unfolding t' by auto
  qed
qed

section \<open>An entry from a record that was read too early\<close>

text \<open>\<open>queueEntry\<close> and \<open>EnsureAttached\<close> read the records before they take the lock. If the chat is deleted completely in between, its
  life-cycle change included, the registration succeeds all the same: the deleted chat is in the table again and its operations are
  admitted. \<open>SetLeases\<close>, which reads the records under the lock, excludes this.\<close>

lemma stale_candidate_registered:
  assumes read: "queueEntry_candidate old sid q d = Some e" and gone: "\<forall>r \<in> set new. sr_SessionID r \<noteq> sid"
    and deleted: "get (tb_sessions t) sid = None" "sid \<notin> set (tb_lifecycle t)" "\<not> tb_closed t"
  shows "queueEntry_candidate new sid q d = None
    \<and> (\<exists>i t'. insert_entry sid e t = (Inr i, t') \<and> lockEntry sid i t' = None)"
proof -
  have "queueEntry_candidate new sid q d = None" using gone by (auto simp: queueEntry_candidate_def find_None_iff)
  moreover have "insert_entry sid e t = (Inr (length (tb_entries t)), add_ref (length (tb_entries t)) (snd (register sid e t)))"
    using deleted by (simp add: insert_entry_def present_or_def register_def)
  moreover have "lockEntry sid (length (tb_entries t)) (add_ref (length (tb_entries t)) (snd (register sid e t))) = None"
    using deleted by (simp add: lockEntry_def is_current_def) (simp add: register_def)
  ultimately show ?thesis by blast
qed

section \<open>Properties\<close>

definition demo_entry :: table_entry where
  "demo_entry = newSessionEntry ''p'' ''/'' (newSessionQueueState ''r'') \<lparr>files = [], faults = [], trail = []\<rparr>"

text \<open>A chat just created: held by the request, leased by the browser.\<close>

definition demo_created :: table_system where
  "demo_created = (empty_system True)\<lparr>sy_table := snd (create_entry ''s'' demo_entry ''c'' (sy_table (empty_system True))),
     sy_ops := [0]\<rparr>"

lemma demo_created_reachable: "table_reachable demo_created"
proof -
  let ?e = "empty_system True"
  have "create_entry ''s'' demo_entry ''c'' (sy_table ?e) = (Inr 0, snd (create_entry ''s'' demo_entry ''c'' (sy_table ?e)))"
    by (simp add: create_entry_def register_def empty_system_def)
  then have "table_step ?e (?e\<lparr>sy_table := snd (create_entry ''s'' demo_entry ''c'' (sy_table ?e)), sy_ops := 0 # sy_ops ?e\<rparr>)"
    by (intro table_step.create) (simp_all add: unheld_def demo_entry_def newSessionEntry_def empty_system_def)
  then show ?thesis using table_reachable.step [OF table_reachable.start] by (simp add: demo_created_def empty_system_def)
qed

lemma demo_created_parts:
  "get (tb_sessions (sy_table demo_created)) ''s'' = Some 0" "sy_ops demo_created = [0]" "sy_life demo_created = []"
  "isLeasedLocked (sy_table demo_created) ''s''" "\<not> tb_closed (sy_table demo_created)" "tb_lifecycle (sy_table demo_created) = []"
  by (simp_all add: demo_created_def create_entry_def register_def empty_system_def retainSessionLocked_def isLeasedLocked_def)

text \<open>C8: Whatever interleaves, a chat in use stays in memory: in every reachable state, a chat that a request, a worker or a notification
  still holds after a step, or that a browser tab leases or that is running after it, is still in the table after the step under the same
  entry; only the owner of a life-cycle change of that chat removes it, and then no other operation holds it.\<close>

theorem chats_in_use_stay:
  assumes "table_reachable s" "table_step s s'" "get (tb_sessions (sy_table s)) sid = Some i"
    and "i \<in> set (sy_ops s') \<union> set (sy_notices s') \<or> isLeasedLocked (sy_table s') sid \<or> running_chat (ent (sy_table s') i)"
  shows "get (tb_sessions (sy_table s')) sid = Some i
    \<or> (\<exists>k. (sid, Some k) \<in> set (sy_life s) \<and> sy_table s' = remove_session sid (sy_table s)
         \<and> count_list (sy_ops s) i \<le> (if k = i then 1 else 0))"
proof -
  have ok: "system_ok s" "system_ok s'" using assms(1,2) reachable_system_ok table_reachable.step by blast+
  have use: "in_use (sy_table s') sid (ent (sy_table s') i)"
    using assms(4) held_in_use [OF ok(2)] by (auto simp: in_use_def pinned_def running_chat_def)
  from step_keeps [OF assms(2) ok(1)] show ?thesis
  proof (elim disjE exE conjE)
    assume "evicts_after (sy_table s) (sy_table s')"
    then obtain now u where u: "table_ok u" "keeps (sy_table s) u" "sy_table s' = evictLocked now u" by (auto simp: evicts_after_def)
    from u use have "in_use u sid (ent u i)" by simp
    moreover have "(sid, i) \<in> set (tb_sessions u)" using u(2) assms(3) table_ok_get [OF u(1)] by (auto simp: keeps_def)
    ultimately show ?thesis using evict_keeps [OF u(1)] table_ok_get [OF evict_table_ok [OF u(1)]] u(3) by auto
  next
    fix sid' k assume r: "(sid', Some k) \<in> set (sy_life s)" "sy_table s' = remove_session sid' (sy_table s)"
    show ?thesis
    proof (cases "sid' = sid")
      case True
      with r life_count(1) [OF ok(1) _ assms(3), of "Some k"] show ?thesis by auto
    next
      case False
      with r assms(3) show ?thesis by (simp add: remove_session_def)
    qed
  qed (use assms(3) in \<open>simp add: keeps_def\<close>)
qed

theorem chats_in_use_stay_witness:
  "\<exists>s. table_reachable s \<and> sy_ops s = [] \<and> get (tb_sessions (sy_table s)) ''s'' = Some 0"
proof -
  let ?s = "demo_created\<lparr>sy_table := releaseEntry 7 0 (sy_table demo_created), sy_ops := remove1 0 (sy_ops demo_created)\<rparr>"
  have st: "table_step demo_created ?s" by (rule table_step.leave) (simp add: demo_created_parts)
  have "isLeasedLocked (sy_table ?s) ''s''" using demo_created_parts(4) by (simp add: releaseEntry_def)
  from chats_in_use_stay [OF demo_created_reachable st demo_created_parts(1)] this
  have "get (tb_sessions (sy_table ?s)) ''s'' = Some 0" by (simp add: demo_created_parts(3))
  then show ?thesis using table_reachable.step [OF demo_created_reachable st] demo_created_parts(2) by (intro exI [of _ ?s]) simp
qed

text \<open>C9: A change of a chat's life cycle has the chat to itself: in every reachable state, while a deletion, an archiving or another change of
  a chat runs, no operation but the one that began it holds the chat's entry, and every way in is refused, to requests, workers,
  queued messages and further changes alike, also to operations that were already waiting for the chat.\<close>

theorem lifecycle_exclusive:
  assumes "table_reachable s" "(sid, x) \<in> set (sy_life s)"
  shows "(\<forall>j. get (tb_sessions (sy_table s)) sid = Some j \<longrightarrow> count_list (sy_ops s) j \<le> (if x = Some j then 1 else 0))
    \<and> fst (entry_ref sid (sy_table s)) = Inl LifecycleBusy \<and> (\<forall>e. fst (insert_entry sid e (sy_table s)) = Inl LifecycleBusy)
    \<and> (\<forall>e. fst (resume_entry sid e (sy_table s)) = None)
    \<and> (\<forall>i. lockEntry sid i (sy_table s) = Some SessionChanged \<and> fst (retainWork sid i (sy_table s)) = Some SessionChanged
         \<and> \<not> fst (admit_worker sid i (sy_table s)))
    \<and> (\<forall>y. fst (beginLifecycle sid y (sy_table s)) \<noteq> None)"
proof -
  have ok: "system_ok s" using assms(1) by (rule reachable_system_ok)
  have in_life: "sid \<in> set (tb_lifecycle (sy_table s))" using system_okD(2) [OF ok] assms(2) by (force simp: life_ok_def)
  have life: "tb_lifecycle (snd (present_or sid e (sy_table s))) = tb_lifecycle (sy_table s)" for e
    by (simp add: present_or_def split: option.splits)
  have "fst (resume_entry sid e (sy_table s)) = None" for e
    using in_life life [of e] by (cases "present_or sid e (sy_table s)") (simp add: resume_entry_def)
  then show ?thesis using life_count(1) [OF ok assms(2)] in_life
    by (auto simp: entry_ref_def insert_entry_def lockEntry_def retainWork_def is_current_def admit_worker_def admitFollowUp_def beginLifecycle_def Let_def)
qed

theorem lifecycle_exclusive_witness:
  "\<exists>s. table_reachable s \<and> sy_life s = [(''s'', Some 0)] \<and> fst (entry_ref ''s'' (sy_table s)) = Inl LifecycleBusy"
proof -
  let ?t = "(sy_table demo_created)\<lparr>tb_lifecycle := [''s'']\<rparr>"
  let ?s = "demo_created\<lparr>sy_table := ?t, sy_life := (''s'', Some 0) # sy_life demo_created\<rparr>"
  have "beginLifecycle ''s'' (Some 0) (sy_table demo_created) = (None, ?t)"
    using demo_created_parts
    by (simp add: beginLifecycle_def Let_def) (simp add: demo_created_def create_entry_def register_def empty_system_def
      retainSessionLocked_def add_ref_def set_ent_def ent_def demo_entry_def newSessionEntry_def running_chat_def)
  then have "table_step demo_created ?s" by (intro table_step.begin_entry) (simp_all add: demo_created_parts)
  from table_reachable.step [OF demo_created_reachable this] have r: "table_reachable ?s" .
  have "(''s'', Some 0) \<in> set (sy_life ?s)" by simp
  from lifecycle_exclusive [OF r this] r show ?thesis by (intro exI [of _ ?s]) (simp add: demo_created_parts)
qed


definition demo_lease_env :: lease_env where
  "demo_lease_env = \<lparr>lv_records = Inr [demo_record], lv_queues = Inr Map.empty,
     lv_project = (\<lambda>i. Inr \<lparr>pj_ID = i, pj_Name = ''n'', pj_Roots = [''/''], pj_Slug = ''n'', pj_LastOpened = 0, pj_Icon = [], pj_Closed = False\<rparr>),
     lv_directory = (\<lambda>d. Inr d), lv_fresh = (\<lambda>sid. newSessionQueueState ''r''), lv_disk = \<lparr>files = [], faults = [], trail = []\<rparr>\<rparr>"


end
