(* ===== verification/Deletions.thy ===== *)
theory Deletions
  imports Identity Persist
begin

text \<open>
  The journal of session deletions, \<open>internal/controller/session_deletions.go\<close>: each operation takes
  the mutex, loads the primary file, and saves the changed records. The primary is the only
  authority: a missing primary next to a backup is an error, never a fallback. The codec is
  \<open>encoding/json\<close> for the stored value; a \<open>nil\<close> slice is \<open>None\<close>.
\<close>

datatype deletionPhase = Requested | Confirmed | OtherPhase string

record sessionDeletion =
  projectID :: string
  sessionID :: string
  agentBinding :: string
  phase :: deletionPhase

record storedSessionDeletions =
  version :: int
  engine :: string
  records :: "sessionDeletion list option"

datatype deletion_error =
    InvalidTarget | InvalidBinding | InvalidPhase
  | OtherOwner | RequestMissing
  | JournalMissing | JournalUnreadable | SaveFailed

section \<open>Validation\<close>

definition validDeletionAgentBinding :: "string \<Rightarrow> bool" where
  "validDeletionAgentBinding binding \<longleftrightarrow>
     length binding = length ''sha256:'' + 64 \<and> HasPrefix binding ''sha256:''
     \<and> list_all is_hex (drop (length ''sha256:'') binding)"

definition stableDeletionAgentIdentity :: "string \<Rightarrow> bool" where
  "stableDeletionAgentIdentity identity \<longleftrightarrow> HasPrefix identity ''pi:'' \<and> length identity > 3"

definition validateSessionDeletion :: "sessionDeletion \<Rightarrow> deletion_error option" where
  "validateSessionDeletion record =
     (if projectID record = [] \<or> \<not> validatePiSessionID (sessionID record) \<or> containsNUL (projectID record)
      then Some InvalidTarget
      else if \<not> validDeletionAgentBinding (agentBinding record) then Some InvalidBinding
      else if phase record \<noteq> Requested \<and> phase record \<noteq> Confirmed then Some InvalidPhase
      else None)"

fun validate_deletions :: "string set \<Rightarrow> sessionDeletion list \<Rightarrow> bool" where
  "validate_deletions seen [] = True"
| "validate_deletions seen (r # rs) =
     (if validateSessionDeletion r \<noteq> None \<or> sessionID r \<in> seen then False
      else validate_deletions (insert (sessionID r) seen) rs)"

definition validateStoredSessionDeletions :: "storedSessionDeletions \<Rightarrow> bool" where
  "validateStoredSessionDeletions value =
     (if version value \<noteq> 1 \<or> engine value \<noteq> ''pi'' then False
      else (case records value of None \<Rightarrow> False | Some rs \<Rightarrow> validate_deletions {} rs))"

section \<open>Load and save\<close>

definition deletions_load ::
  "storedSessionDeletions codec \<Rightarrow> path \<Rightarrow> world \<Rightarrow> (deletion_error + sessionDeletion list) \<times> world" where
  "deletions_load c name w =
     (let (raw, w) = ReadFile name w in
      case raw of
        NotExist \<Rightarrow>
          (let (backup, w) = ReadFile (backup_path name) w in
           (if backup = NotExist then Inr [] else Inl JournalMissing, w))
      | ReadFailed \<Rightarrow> (Inl JournalUnreadable, w)
      | ReadBytes bytes m \<Rightarrow>
          (case Decode c validateStoredSessionDeletions bytes of
             None \<Rightarrow> (Inl JournalUnreadable, w)
           | Some value \<Rightarrow> (Inr (the (records value)), w)))"

definition stored_deletions :: "sessionDeletion list \<Rightarrow> storedSessionDeletions" where
  "stored_deletions rs = \<lparr>version = 1, engine = ''pi'', records = Some rs\<rparr>"

definition deletions_save ::
  "storedSessionDeletions codec \<Rightarrow> path \<Rightarrow> string \<Rightarrow> string \<Rightarrow> sessionDeletion list \<Rightarrow> world \<Rightarrow>
     deletion_error option \<times> world" where
  "deletions_save c name r1 r2 rs w =
     (let (ok, w) = Write c validateStoredSessionDeletions name r1 r2 (stored_deletions rs) w in
      (if ok then None else Some SaveFailed, w))"

section \<open>Operations\<close>

definition List_deletions ::
  "storedSessionDeletions codec \<Rightarrow> path \<Rightarrow> world \<Rightarrow> (deletion_error + sessionDeletion list) \<times> world" where
  "List_deletions c name w = deletions_load c name w"

definition Request ::
  "storedSessionDeletions codec \<Rightarrow> path \<Rightarrow> string \<Rightarrow> string \<Rightarrow> string \<Rightarrow> string \<Rightarrow> string \<Rightarrow> world \<Rightarrow>
     deletion_error option \<times> world" where
  "Request c name r1 r2 project session binding w =
     (let record = \<lparr>projectID = project, sessionID = session, agentBinding = binding, phase = Requested\<rparr> in
      case validateSessionDeletion record of
        Some e \<Rightarrow> (Some e, w)
      | None \<Rightarrow>
          (case deletions_load c name w of
             (Inl e, w) \<Rightarrow> (Some e, w)
           | (Inr rs, w) \<Rightarrow>
               (case find (\<lambda>existing. sessionID existing = session) rs of
                  Some existing \<Rightarrow>
                    if projectID existing \<noteq> project \<or> agentBinding existing \<noteq> binding
                    then (Some OtherOwner, w) else (None, w)
                | None \<Rightarrow> deletions_save c name r1 r2 (rs @ [record]) w)))"

text \<open>\<open>Confirm\<close>: the first matching record; \<open>Some None\<close> is "already confirmed".\<close>

fun confirm_first :: "string \<Rightarrow> string \<Rightarrow> sessionDeletion list \<Rightarrow> sessionDeletion list option option" where
  "confirm_first project session [] = None"
| "confirm_first project session (r # rs) =
     (if projectID r \<noteq> project \<or> sessionID r \<noteq> session
      then map_option (map_option (\<lambda>rs. r # rs)) (confirm_first project session rs)
      else if phase r = Confirmed then Some None
      else Some (Some (r\<lparr>phase := Confirmed\<rparr> # rs)))"

definition Confirm ::
  "storedSessionDeletions codec \<Rightarrow> path \<Rightarrow> string \<Rightarrow> string \<Rightarrow> string \<Rightarrow> string \<Rightarrow> world \<Rightarrow>
     deletion_error option \<times> world" where
  "Confirm c name r1 r2 project session w =
     (case deletions_load c name w of
        (Inl e, w) \<Rightarrow> (Some e, w)
      | (Inr rs, w) \<Rightarrow>
          (case confirm_first project session rs of
             None \<Rightarrow> (Some RequestMissing, w)
           | Some None \<Rightarrow> (None, w)
           | Some (Some rs') \<Rightarrow> deletions_save c name r1 r2 rs' w))"

definition Forget_deletion ::
  "storedSessionDeletions codec \<Rightarrow> path \<Rightarrow> string \<Rightarrow> string \<Rightarrow> string \<Rightarrow> string \<Rightarrow> world \<Rightarrow>
     deletion_error option \<times> world" where
  "Forget_deletion c name r1 r2 project session w =
     (case deletions_load c name w of
        (Inl e, w) \<Rightarrow> (Some e, w)
      | (Inr rs, w) \<Rightarrow>
          (let filtered = filter (\<lambda>r. projectID r \<noteq> project \<or> sessionID r \<noteq> session) rs in
           if length filtered = length rs then (None, w)
           else deletions_save c name r1 r2 filtered w))"

lemmas deletion_ops [op_defs] = Request_def Confirm_def Forget_deletion_def List_deletions_def

section \<open>What the journal holds\<close>

definition deletions_now ::
  "storedSessionDeletions codec \<Rightarrow> path \<Rightarrow> filesys \<Rightarrow> sessionDeletion list option" where
  "deletions_now c name fs =
     map_option (the \<circ> records)
       (journal_now c validateStoredSessionDeletions name (stored_deletions []) fs)"

interpretation deletions_journal: durable_store "deletions_now c name"
  "\<lambda>rs. Write c validateStoredSessionDeletions name r1 r2 (stored_deletions rs)" Some
  "\<lambda>rs. exact c (stored_deletions rs)" for c name r1 r2
  using durable_store_view [OF journal.durable_store_axioms,
      of "map_option (the \<circ> records)" c validateStoredSessionDeletions name "stored_deletions []" r1 r2 stored_deletions]
  by (simp add: deletions_now_def [abs_def] stored_deletions_def)

lemma deletions_load_now:
  assumes "deletions_load c name w = (Inr rs, w')"
  shows "deletions_now c name (files w) = Some rs" "files w' = files w" "trail w' = trail w"
proof -
  obtain raw w1 where r1: "ReadFile name w = (raw, w1)" by force
  obtain bak w2 where r2: "ReadFile (backup_path name) w1 = (bak, w2)" by force
  note fr = ReadFile_frame [OF r1] ReadFile_frame [OF r2]
  show "files w' = files w" "trail w' = trail w"
    using assms r1 r2 fr by (auto simp: deletions_load_def split: read_result.splits option.splits if_splits)
  show "deletions_now c name (files w) = Some rs"
  proof (cases raw)
    case NotExist
    then have "bak = read_result.NotExist" "rs = []"
      using assms r1 r2 by (auto simp: deletions_load_def split: if_splits)
    with NotExist r1 r2 ReadFile_missing [of name w w1] ReadFile_missing [of "backup_path name" w1 w2] fr
    show ?thesis
      by (simp add: deletions_now_def journal_now_def stored_deletions_def)
  next
    case (ReadBytes bytes m)
    with assms r1 ReadFile_now [of name w bytes m w1] show ?thesis
      by (auto simp: deletions_load_def deletions_now_def journal_now_def split: option.splits)
  qed (use assms r1 in \<open>simp add: deletions_load_def\<close>)
qed

lemma deletions_load_calm:
  assumes "faults w = []" "deletions_now c name (files w) = Some rs"
  shows "deletions_load c name w = (Inr rs, w)"
  using assms(2)
  by (auto simp: deletions_load_def ReadFile_no_faults [OF assms(1)] deletions_now_def journal_now_def
      stored_deletions_def split: read_result.splits if_splits)

lemma deletions_load_error:
  "deletions_load c name w = (Inl e, w') \<Longrightarrow>
     files w' = files w \<and> trail w' = trail w \<and> (e = JournalMissing \<or> e = JournalUnreadable)"
  by (auto simp: deletions_load_def split: prod.splits read_result.splits option.splits if_splits
      dest!: ReadFile_frame)

lemma validate_deletions_iff:
  "validate_deletions seen rs \<longleftrightarrow>
     (\<forall>r \<in> set rs. validateSessionDeletion r = None \<and> sessionID r \<notin> seen) \<and> distinct (map sessionID rs)"
proof (induction rs arbitrary: seen)
  case (Cons a rs)
  have "sessionID a \<notin> sessionID ` set rs \<longleftrightarrow> (\<forall>r \<in> set rs. sessionID r \<noteq> sessionID a)"
    by (auto simp: image_iff)
  then show ?case using Cons by (auto simp: ball_conj_distrib)
qed simp

lemma deletions_now_valid:
  assumes "deletions_now c name fs = Some rs"
  shows "distinct (map sessionID rs)" "\<forall>r \<in> set rs. validateSessionDeletion r = None"
proof -
  from assms have "validateStoredSessionDeletions (stored_deletions rs)"
    by (auto simp: deletions_now_def journal_now_def stored_deletions_def Decode_def
          validateStoredSessionDeletions_def split: read_result.splits option.splits if_splits)
  then show "distinct (map sessionID rs)" "\<forall>r \<in> set rs. validateSessionDeletion r = None"
    by (auto simp: validateStoredSessionDeletions_def stored_deletions_def validate_deletions_iff)
qed

section \<open>The abstract journal\<close>

text \<open>Per session: its project, the agent binding, and whether the deletion is confirmed.\<close>

type_synonym deletion_map = "string \<rightharpoonup> string \<times> string \<times> bool"

definition abs_deletions :: "sessionDeletion list \<Rightarrow> deletion_map" where
  "abs_deletions rs = map_of (map (\<lambda>r. (sessionID r, projectID r, agentBinding r, phase r = Confirmed)) rs)"

definition spec_request :: "string \<Rightarrow> string \<Rightarrow> string \<Rightarrow> deletion_map \<Rightarrow> deletion_map option" where
  "spec_request project session binding j =
     (case j session of
        None \<Rightarrow> Some (j(session \<mapsto> (project, binding, False)))
      | Some (p, b, d) \<Rightarrow> if p = project \<and> b = binding then Some j else None)"

definition spec_confirm :: "string \<Rightarrow> string \<Rightarrow> deletion_map \<Rightarrow> deletion_map option" where
  "spec_confirm project session j =
     (case j session of
        None \<Rightarrow> None
      | Some (p, b, d) \<Rightarrow> if p = project then Some (j(session \<mapsto> (p, b, True))) else None)"

definition spec_forget :: "string \<Rightarrow> string \<Rightarrow> deletion_map \<Rightarrow> deletion_map" where
  "spec_forget project session j =
     (case j session of
        None \<Rightarrow> j
      | Some (p, b, d) \<Rightarrow> if p = project then j(session := None) else j)"

lemma abs_Nil [simp]: "abs_deletions [] = Map.empty"
  by (simp add: abs_deletions_def)

lemma abs_Cons [simp]:
  "abs_deletions (r # rs) =
     (abs_deletions rs)(sessionID r \<mapsto> (projectID r, agentBinding r, phase r = Confirmed))"
  by (simp add: abs_deletions_def)

lemma abs_None: "abs_deletions rs s = None \<longleftrightarrow> s \<notin> sessionID ` set rs"
  by (induction rs) auto

lemma abs_snoc:
  "sessionID r \<notin> sessionID ` set rs \<Longrightarrow> abs_deletions (rs @ [r]) =
     (abs_deletions rs)(sessionID r \<mapsto> (projectID r, agentBinding r, phase r = Confirmed))"
  by (induction rs) (auto simp: fun_upd_twist)

lemma abs_find:
  "distinct (map sessionID rs) \<Longrightarrow> abs_deletions rs s =
     (case find (\<lambda>r. sessionID r = s) rs of
        None \<Rightarrow> None | Some r \<Rightarrow> Some (projectID r, agentBinding r, phase r = Confirmed))"
  by (induction rs) (auto split: option.splits)

lemma abs_confirm:
  assumes "distinct (map sessionID rs)"
  shows "case confirm_first project session rs of
      None \<Rightarrow> spec_confirm project session (abs_deletions rs) = None
    | Some None \<Rightarrow> spec_confirm project session (abs_deletions rs) = Some (abs_deletions rs)
    | Some (Some rs') \<Rightarrow> spec_confirm project session (abs_deletions rs) = Some (abs_deletions rs')"
  using assms
proof (induction rs)
  case (Cons r rs)
  then have out: "abs_deletions rs (sessionID r) = None" by (auto simp: abs_None)
  show ?case
  proof (cases "projectID r = project \<and> sessionID r = session")
    case True
    with out show ?thesis by (simp add: spec_confirm_def fun_upd_idem)
  next
    case False
    with Cons out show ?thesis
      by (cases "sessionID r = session"; cases "confirm_first project session rs")
         (auto simp: spec_confirm_def fun_upd_twist split: option.splits if_splits)
  qed
qed (simp add: spec_confirm_def)

lemma abs_forget:
  assumes "distinct (map sessionID rs)"
  shows "abs_deletions (filter (\<lambda>r. projectID r \<noteq> project \<or> sessionID r \<noteq> session) rs)
    = spec_forget project session (abs_deletions rs)"
  using assms
proof (induction rs)
  case (Cons r rs)
  then have "abs_deletions rs (sessionID r) = None" by (auto simp: abs_None)
  with Cons show ?case
    by (auto simp: spec_forget_def fun_eq_iff split: option.splits prod.splits)
qed (simp add: spec_forget_def)

section \<open>Refinement\<close>

datatype deletion_op =
    DoRequest string string string
  | DoConfirm string string
  | DoForget string string

fun deletion_step ::
  "storedSessionDeletions codec \<Rightarrow> path \<Rightarrow> string \<Rightarrow> string \<Rightarrow> deletion_op \<Rightarrow> world \<Rightarrow>
     deletion_error option \<times> world" where
  "deletion_step c name r1 r2 (DoRequest p s b) w = Request c name r1 r2 p s b w"
| "deletion_step c name r1 r2 (DoConfirm p s) w = Confirm c name r1 r2 p s w"
| "deletion_step c name r1 r2 (DoForget p s) w = Forget_deletion c name r1 r2 p s w"

fun spec_step :: "deletion_op \<Rightarrow> deletion_map \<Rightarrow> deletion_map option" where
  "spec_step (DoRequest p s b) j = spec_request p s b j"
| "spec_step (DoConfirm p s) j = spec_confirm p s j"
| "spec_step (DoForget p s) j = Some (spec_forget p s j)"

text \<open>The records an operation saves, if it saves.\<close>

fun deletion_next :: "deletion_op \<Rightarrow> sessionDeletion list \<Rightarrow> sessionDeletion list" where
  "deletion_next (DoRequest p s b) rs =
     rs @ [\<lparr>projectID = p, sessionID = s, agentBinding = b, phase = Requested\<rparr>]"
| "deletion_next (DoConfirm p s) rs =
     (case confirm_first p s rs of Some (Some rs') \<Rightarrow> rs' | _ \<Rightarrow> rs)"
| "deletion_next (DoForget p s) rs = filter (\<lambda>r. projectID r \<noteq> p \<or> sessionID r \<noteq> s) rs"

text \<open>An operation fails or has nothing to do, leaving the files as they are, or writes \<open>deletion_next\<close>.\<close>

definition op_outcome ::
  "storedSessionDeletions codec \<Rightarrow> path \<Rightarrow> string \<Rightarrow> string \<Rightarrow> deletion_op \<Rightarrow> sessionDeletion list \<Rightarrow>
     world \<Rightarrow> deletion_error option \<Rightarrow> world \<Rightarrow> bool" where
  "op_outcome c name r1 r2 op rs w err w' \<longleftrightarrow>
     files w' = files w \<and> trail w' = trail w \<and>
       (case err of
          None \<Rightarrow> spec_step op (abs_deletions rs) = Some (abs_deletions rs)
        | Some e \<Rightarrow> e \<in> {OtherOwner, RequestMissing} \<longrightarrow> spec_step op (abs_deletions rs) = None)
     \<or> (\<exists>w1 ok. files w1 = files w \<and> trail w1 = trail w
          \<and> Write c validateStoredSessionDeletions name r1 r2 (stored_deletions (deletion_next op rs)) w1 = (ok, w')
          \<and> err = (if ok then None else Some SaveFailed)
          \<and> spec_step op (abs_deletions rs) = Some (abs_deletions (deletion_next op rs)))"

lemma outcome_saved:
  assumes "deletions_save c name r1 r2 (deletion_next op rs) w1 = (err, w')"
    and "files w1 = files w" "trail w1 = trail w"
    and "spec_step op (abs_deletions rs) = Some (abs_deletions (deletion_next op rs))"
  shows "op_outcome c name r1 r2 op rs w err w'"
proof -
  obtain ok w2 where "Write c validateStoredSessionDeletions name r1 r2 (stored_deletions (deletion_next op rs)) w1 = (ok, w2)"
    by force
  moreover from this assms(1) have "w' = w2" "err = (if ok then None else Some SaveFailed)"
    by (simp_all add: deletions_save_def split: if_splits)
  ultimately show ?thesis using assms(2-4) unfolding op_outcome_def by blast
qed

lemma outcome_load_error:
  assumes "deletions_load c name w = (Inl e, w')"
  shows "op_outcome c name r1 r2 op rs w (Some e) w'"
  using deletions_load_error [OF assms] by (auto simp: op_outcome_def)

lemma Request_outcome:
  assumes now: "deletions_now c name (files w) = Some rs" and run: "Request c name r1 r2 p s b w = (err, w')"
  shows "op_outcome c name r1 r2 (DoRequest p s b) rs w err w'"
proof (cases "validateSessionDeletion \<lparr>projectID = p, sessionID = s, agentBinding = b, phase = Requested\<rparr>")
  case (Some e)
  with run have "err = Some e" "w' = w" by (simp_all add: Request_def)
  moreover have "e \<notin> {OtherOwner, RequestMissing}"
    using Some by (auto simp: validateSessionDeletion_def split: if_splits)
  ultimately show ?thesis by (simp add: op_outcome_def)
next
  case None
  note dist = deletions_now_valid(1) [OF now]
  obtain res w1 where ld: "deletions_load c name w = (res, w1)" by force
  show ?thesis
  proof (cases res)
    case (Inl e)
    with run None ld have "err = Some e" "w' = w1" by (simp_all add: Request_def)
    with outcome_load_error ld Inl show ?thesis by blast
  next
    case (Inr rs')
    note l = deletions_load_now [OF ld [unfolded Inr]]
    from l(1) now have [simp]: "rs' = rs" by simp
    show ?thesis
    proof (cases "find (\<lambda>r. sessionID r = s) rs")
      case absent: None
      with run None ld Inr have "deletions_save c name r1 r2 (deletion_next (DoRequest p s b) rs) w1 = (err, w')"
        by (simp add: Request_def)
      moreover have none: "abs_deletions rs s = None" using absent abs_find [OF dist, of s] by simp
      moreover from none have "s \<notin> sessionID ` set rs" by (simp add: abs_None)
      ultimately show ?thesis
        using l by (intro outcome_saved [of c name r1 r2 _ rs w1]) (simp_all add: spec_request_def abs_snoc)
    next
      case (Some r)
      with run None ld Inr l abs_find [OF dist, of s] show ?thesis
        by (auto simp: Request_def op_outcome_def spec_request_def split: if_splits)
    qed
  qed
qed

lemma Confirm_outcome:
  assumes now: "deletions_now c name (files w) = Some rs" and run: "Confirm c name r1 r2 p s w = (err, w')"
  shows "op_outcome c name r1 r2 (DoConfirm p s) rs w err w'"
proof -
  note spec = abs_confirm [OF deletions_now_valid(1) [OF now], of p s]
  obtain res w1 where ld: "deletions_load c name w = (res, w1)" by force
  show ?thesis
  proof (cases res)
    case (Inl e)
    with run ld have "err = Some e" "w' = w1" by (simp_all add: Confirm_def)
    with outcome_load_error ld Inl show ?thesis by blast
  next
    case (Inr rs')
    note l = deletions_load_now [OF ld [unfolded Inr]]
    from l(1) now have [simp]: "rs' = rs" by simp
    consider "confirm_first p s rs = None" | "confirm_first p s rs = Some None"
      | rs' where "confirm_first p s rs = Some (Some rs')"
      by (metis option.exhaust)
    then show ?thesis
    proof cases
      case (3 rs')
      with run ld Inr have "deletions_save c name r1 r2 (deletion_next (DoConfirm p s) rs) w1 = (err, w')"
        by (simp add: Confirm_def)
      then show ?thesis using l spec 3 by (intro outcome_saved [of c name r1 r2 _ rs w1]) simp_all
    qed (use run ld Inr l spec in \<open>auto simp: Confirm_def op_outcome_def\<close>)
  qed
qed

lemma Forget_outcome:
  assumes now: "deletions_now c name (files w) = Some rs" and run: "Forget_deletion c name r1 r2 p s w = (err, w')"
  shows "op_outcome c name r1 r2 (DoForget p s) rs w err w'"
proof -
  let ?f = "filter (\<lambda>r. projectID r \<noteq> p \<or> sessionID r \<noteq> s) rs"
  note spec = abs_forget [OF deletions_now_valid(1) [OF now], of p s]
  obtain res w1 where ld: "deletions_load c name w = (res, w1)" by force
  show ?thesis
  proof (cases res)
    case (Inl e)
    with run ld have "err = Some e" "w' = w1" by (simp_all add: Forget_deletion_def)
    with outcome_load_error ld Inl show ?thesis by blast
  next
    case (Inr rs')
    note l = deletions_load_now [OF ld [unfolded Inr]]
    from l(1) now have [simp]: "rs' = rs" by simp
    show ?thesis
    proof (cases "length ?f = length rs")
      case True
      then have "?f = rs" by (metis filter_id_conv length_filter_less less_irrefl)
      with True run ld Inr l spec show ?thesis by (auto simp: Forget_deletion_def op_outcome_def)
    next
      case False
      with run ld Inr have "deletions_save c name r1 r2 (deletion_next (DoForget p s) rs) w1 = (err, w')"
        by (simp add: Forget_deletion_def)
      then show ?thesis using l spec by (intro outcome_saved [of c name r1 r2 _ rs w1]) simp_all
    qed
  qed
qed

lemma deletion_step_outcome:
  "deletions_now c name (files w) = Some rs \<Longrightarrow> deletion_step c name r1 r2 op w = (err, w') \<Longrightarrow>
     op_outcome c name r1 r2 op rs w err w'"
  by (cases op) (simp_all add: Request_outcome Confirm_outcome Forget_outcome)

lemma outcome_passes:
  assumes out: "op_outcome c name r1 r2 op rs w err w'" and now: "deletions_now c name (files w) = Some rs"
    and ex: "exact c (stored_deletions (deletion_next op rs))"
  shows "passes (\<lambda>fs. \<exists>rs'. deletions_now c name fs = Some rs' \<and>
      (rs' = rs \<or> spec_step op (abs_deletions rs) = Some (abs_deletions rs'))) w w'"
  using out unfolding op_outcome_def
proof (elim disjE exE conjE)
  fix w1 ok assume st: "files w1 = files w" "trail w1 = trail w"
    and wr: "Write c validateStoredSessionDeletions name r1 r2 (stored_deletions (deletion_next op rs)) w1 = (ok, w')"
    and sp: "spec_step op (abs_deletions rs) = Some (abs_deletions (deletion_next op rs))"
  show ?thesis
    by (rule passes_start [OF st passes_mono [OF deletions_journal.save_atomic [OF ex wr]]])
       (use now st sp in auto)
qed (use now in \<open>auto simp: passes_def\<close>)

lemma spec_step_confirmed:
  "spec_step op j = Some j' \<Longrightarrow> j s = Some (p, b, True) \<Longrightarrow> op \<noteq> DoForget p s \<Longrightarrow> j' s = Some (p, b, True)"
  by (cases op) (auto simp: spec_request_def spec_confirm_def spec_forget_def
      split: option.splits if_splits prod.splits)

section \<open>Properties\<close>

definition demo_deletion :: sessionDeletion where
  "demo_deletion = \<lparr>projectID = ''p'', sessionID = ''s'',
     agentBinding = ''sha256:'' @ replicate 64 (CHR ''0''), phase = Confirmed\<rparr>"

text \<open>A codec that knows the journals of the sample: the empty one and the one with one record.\<close>

definition demo_deletions_codec :: "storedSessionDeletions codec" where
  "demo_deletions_codec =
     \<lparr>marshal = (\<lambda>v. if v = stored_deletions [] then Some ''0''
                     else if v = stored_deletions [demo_deletion] then Some ''1'' else None),
      unmarshal = (\<lambda>s. if s = ''0'' @ [newline] then Some (stored_deletions [])
                     else if s = ''1'' @ [newline] then Some (stored_deletions [demo_deletion]) else None)\<rparr>"

definition demo_deletions_world :: world where
  "demo_deletions_world =
     \<lparr>files = [(demo_path, \<lparr>content = ''1'' @ [newline], fmode = 384, regular = True\<rparr>)], faults = [], trail = []\<rparr>"

lemma demo_deletion_valid: "validateSessionDeletion demo_deletion = None"
  by code_simp

lemma demo_deletions_now:
  "deletions_now demo_deletions_codec demo_path (files demo_deletions_world) = Some [demo_deletion]"
  by (simp add: deletions_now_def journal_now_def read_now_def demo_deletions_world_def maxJSONBytes_def
      Decode_def demo_deletions_codec_def newline_def stored_deletions_def
      validateStoredSessionDeletions_def demo_deletion_valid)

lemma demo_deletions_exact:
  "exact demo_deletions_codec (stored_deletions [])"
  "exact demo_deletions_codec (stored_deletions [demo_deletion])"
  by (simp_all add: exact_def demo_deletions_codec_def stored_deletions_def newline_def)

text \<open>C10: Each operation of the deletion journal refines its abstract counterpart on the map from sessions
  to project, agent and phase: success means the journal now reads as the abstract result, a refusal
  for another owner or a missing request means the abstract operation refuses, and no failure leaves
  anything but the old journal or, when the save itself failed, the new one.\<close>

theorem deletion_refines:
  assumes "deletions_now c name (files w) = Some rs"
    and "deletion_step c name r1 r2 op w = (err, w')"
    and "exact c (stored_deletions (deletion_next op rs))"
  shows "(err = None \<longrightarrow> (\<exists>rs'. deletions_now c name (files w') = Some rs'
            \<and> spec_step op (abs_deletions rs) = Some (abs_deletions rs')))
    \<and> (err \<in> {Some OtherOwner, Some RequestMissing} \<longrightarrow> spec_step op (abs_deletions rs) = None)
    \<and> (err \<noteq> None \<longrightarrow> deletions_now c name (files w') = Some rs
         \<or> err = Some SaveFailed \<and> deletions_now c name (files w') = Some (deletion_next op rs))"
  using deletion_step_outcome [OF assms(1,2)] unfolding op_outcome_def
proof (elim disjE exE conjE)
  fix w1 ok
  assume st: "files w1 = files w"
    and wr: "Write c validateStoredSessionDeletions name r1 r2 (stored_deletions (deletion_next op rs)) w1 = (ok, w')"
    and err: "err = (if ok then None else Some SaveFailed)"
    and sp: "spec_step op (abs_deletions rs) = Some (abs_deletions (deletion_next op rs))"
  from deletions_journal.save_final [OF assms(3) wr] st assms(1) err sp wr
    deletions_journal.save_ok [OF assms(3), of name r1 r2 w1 w']
  show ?thesis by (cases ok) auto
qed (use assms(1) in \<open>auto split: option.splits\<close>)

theorem deletion_refines_witness:
  "\<exists>w'. deletion_step demo_deletions_codec demo_path ''1'' ''2'' (DoForget ''p'' ''s'') demo_deletions_world = (None, w')
     \<and> deletions_now demo_deletions_codec demo_path (files w') = Some []"
proof -
  let ?w = demo_deletions_world and ?c = demo_deletions_codec
  have nxt: "deletion_next (DoForget ''p'' ''s'') [demo_deletion] = []" by (simp add: demo_deletion_def)
  have calm: "faults ?w = []" by (simp add: demo_deletions_world_def)
  note ld = deletions_load_calm [OF calm demo_deletions_now]
  have "marshal ?c (stored_deletions []) = Some ''0''" "length (''0'' @ [newline]) \<le> maxJSONBytes"
    "Decode ?c validateStoredSessionDeletions (''0'' @ [newline]) \<noteq> None"
    by (simp_all add: demo_deletions_codec_def maxJSONBytes_def Decode_def newline_def
        validateStoredSessionDeletions_def stored_deletions_def)
  from Write_calm [OF calm this, of demo_path "''1''" "''2''"]
  have "\<exists>w'. Write ?c validateStoredSessionDeletions demo_path ''1'' ''2'' (stored_deletions []) ?w = (True, w')"
    by blast
  then obtain w' where run: "deletion_step ?c demo_path ''1'' ''2'' (DoForget ''p'' ''s'') ?w = (None, w')"
    using ld nxt by (auto simp: Forget_deletion_def deletions_save_def demo_deletion_def)
  from deletion_refines [OF demo_deletions_now run] nxt demo_deletions_exact(1)
  obtain rs' where "deletions_now ?c demo_path (files w') = Some rs'"
    "spec_forget ''p'' ''s'' (abs_deletions [demo_deletion]) = abs_deletions rs'" by auto
  moreover from this(2) have "rs' = []"
    using abs_None [of rs'] by (cases rs') (auto simp: spec_forget_def demo_deletion_def fun_eq_iff split: if_splits)
  ultimately show ?thesis using run by blast
qed

text \<open>A confirmed deletion is final: at every moment of any operation other than forgetting that very
  deletion, crash points and failing system calls included, the journal still reads it as confirmed.\<close>

theorem deletion_confirmed_final:
  assumes "deletions_now c name (files w) = Some rs" "abs_deletions rs s = Some (p, b, True)"
    and "op \<noteq> DoForget p s" "deletion_step c name r1 r2 op w = (err, w')" "trail w = []"
    and "exact c (stored_deletions (deletion_next op rs))" "fs \<in> insert (files w') (set (trail w'))"
  shows "\<exists>rs'. deletions_now c name fs = Some rs' \<and> abs_deletions rs' s = Some (p, b, True)"
proof -
  note ps = outcome_passes [OF deletion_step_outcome [OF assms(1,4)] assms(1,6)]
  obtain rs' where rs': "deletions_now c name fs = Some rs'"
    "rs' = rs \<or> spec_step op (abs_deletions rs) = Some (abs_deletions rs')"
    using assms(7) passes_final [OF ps] passes_trail [OF ps assms(5)] by blast
  with assms(2,3) show ?thesis by (auto dest: spec_step_confirmed)
qed

theorem deletion_confirmed_final_witness:
  "\<exists>rs'. deletions_now demo_deletions_codec demo_path
       (files (snd (deletion_step demo_deletions_codec demo_path ''1'' ''2'' (DoConfirm ''p'' ''s'') demo_deletions_world)))
       = Some rs' \<and> abs_deletions rs' ''s'' = Some (''p'', ''sha256:'' @ replicate 64 (CHR ''0''), True)"
proof -
  obtain err w' where run: "deletion_step demo_deletions_codec demo_path ''1'' ''2'' (DoConfirm ''p'' ''s'') demo_deletions_world = (err, w')"
    by force
  have abs: "abs_deletions [demo_deletion] ''s'' = Some (''p'', ''sha256:'' @ replicate 64 (CHR ''0''), True)"
    by (simp add: demo_deletion_def)
  have "trail demo_deletions_world = []" by (simp add: demo_deletions_world_def)
  from deletion_confirmed_final [OF demo_deletions_now abs _ run this, of "files w'"] demo_deletions_exact(2)
  show ?thesis using run by (simp add: demo_deletion_def)
qed

text \<open>C12: The journal fails closed: when the primary file is gone and a backup remains, every operation
  reports an error and changes no file, so an older generation never comes back.\<close>

theorem deletion_fails_closed:
  assumes "get (files w) name = None" "get (files w) (backup_path name) = Some n"
    and "deletion_step c name r1 r2 op w = (err, w')"
  shows "err \<noteq> None \<and> files w' = files w \<and> trail w' = trail w"
proof -
  obtain res w1 where ld: "deletions_load c name w = (res, w1)" by force
  obtain bak w2 where bak: "ReadFile (backup_path name) w = (bak, w2)" by force
  have "bak \<noteq> NotExist"
    using ReadFile_missing [of "backup_path name" w w2] bak assms(2) by (auto simp: read_now_def split: if_splits)
  moreover have "ReadFile name w = (NotExist, w)"
    using assms(1) by (simp add: ReadFile_def ReadBoundedFile_def)
  ultimately have res: "res = Inl JournalMissing" using ld bak by (simp add: deletions_load_def)
  with deletions_load_error ld have "files w1 = files w \<and> trail w1 = trail w" by blast
  with assms(3) ld res show ?thesis
    by (cases op) (auto simp: Request_def Confirm_def Forget_deletion_def Let_def split: option.splits, metis)
qed

theorem deletion_fails_closed_witness:
  "fst (deletion_step demo_deletions_codec demo_path ''1'' ''2'' (DoForget ''p'' ''s'')
     (demo_deletions_world\<lparr>files := [(backup_path demo_path, \<lparr>content = [], fmode = 384, regular = True\<rparr>)]\<rparr>)) \<noteq> None"
proof -
  let ?w = "demo_deletions_world\<lparr>files := [(backup_path demo_path, \<lparr>content = [], fmode = 384, regular = True\<rparr>)]\<rparr>"
  have "get (files ?w) demo_path = None"
    "get (files ?w) (backup_path demo_path) = Some \<lparr>content = [], fmode = 384, regular = True\<rparr>" by simp_all
  from deletion_fails_closed [OF this prod.collapse [symmetric]] show ?thesis by blast
qed

end
