(* ===== verification/Objectives.thy ===== *)
theory Objectives
  imports Identity Persist "HOL-Library.List_Lexorder"
begin

text \<open>
  The goal and the task list of a session, the \<open>Objectives\<close> of \<open>internal/controller/session_state.go\<close>:
  one file per session, named by the SHA-256 of project and session, with a fallback to the goal files of
  an earlier version, which are migrated when they are read. Time stamps are whole milliseconds.
\<close>

record SessionTask =
  task_ID :: string
  task_Text :: string
  task_Status :: string

record SessionGoal =
  goal_ProjectID :: string
  goal_SessionID :: string
  goal_Goal :: "string option"
  goal_Tasks :: "SessionTask list"
  goal_UpdatedAt :: "int option"

record storedObjective =
  obj_Version :: int
  obj_ProjectID :: string
  obj_SessionID :: string
  obj_Goal :: "string option"
  obj_Tasks :: "SessionTask list option"
  obj_UpdatedAt :: int

record legacyGoal =
  leg_Version :: int
  leg_WorkspaceID :: string
  leg_SessionID :: string
  leg_Goal :: string
  leg_UpdatedAt :: int

text \<open>The store's directory, the digest of its file names, the decoders of its files, the random parts of
  temporary names, and the directories that exist.\<close>

record objective_store =
  os_dir :: string
  os_digest :: "string \<Rightarrow> string"
  os_codec :: "storedObjective codec"
  os_legacy :: "string \<Rightarrow> legacyGoal option"
  os_project :: "string \<Rightarrow> string option"
  os_temps :: "string \<times> string"
  os_present :: "string \<Rightarrow> bool"

datatype objective_error =
    NothingToUpdate | BadTarget | BadGoal | BadTask | ObjectiveUnreadable | ObjectiveSaveFailed | RemoveFailed
  | DirectoryUnreadable | ObjectiveBadIdentity

section \<open>Validation\<close>

definition objectiveKey :: "objective_store \<Rightarrow> string \<Rightarrow> string \<Rightarrow> string" where
  "objectiveKey st project session = os_digest st (project @ [CHR 0x00] @ session)"

definition objective_dir :: "objective_store \<Rightarrow> string" where
  "objective_dir st = os_dir st @ ''/extensions/session-objectives''"

definition objectiveName :: "objective_store \<Rightarrow> string \<Rightarrow> string \<Rightarrow> path" where
  "objectiveName st project session = (objective_dir st, objectiveKey st project session @ ''.json'')"

definition legacyName :: "objective_store \<Rightarrow> string \<Rightarrow> string \<Rightarrow> path" where
  "legacyName st project session =
     (os_dir st @ ''/extensions/session-goals'', objectiveKey st project session @ ''.json'')"

definition trim_task :: "SessionTask \<Rightarrow> SessionTask" where
  "trim_task t = t\<lparr>task_Text := TrimSpace (task_Text t)\<rparr>"

text \<open>\<open>validateTasks\<close> trims the texts in place: its result is the trimmed list.\<close>

fun validate_tasks :: "string set \<Rightarrow> SessionTask list \<Rightarrow> SessionTask list option" where
  "validate_tasks seen [] = Some []"
| "validate_tasks seen (t # ts) =
     (let t = trim_task t in
      if task_ID t = [] \<or> utf16Length (task_ID t) > 256 \<or> task_Text t = [] \<or> utf16Length (task_Text t) > 2000
         \<or> containsNUL (task_Text t) \<or> task_Status t \<notin> {''pending'', ''active'', ''done''} \<or> task_ID t \<in> seen
      then None
      else map_option (\<lambda>ts. t # ts) (validate_tasks (insert (task_ID t) seen) ts))"

definition validateTasks :: "SessionTask list \<Rightarrow> SessionTask list option" where
  "validateTasks tasks = (if length tasks > 200 then None else validate_tasks {} tasks)"

text \<open>The validated objective, its goal and its task texts trimmed.\<close>

definition validateObjective :: "string \<Rightarrow> string \<Rightarrow> storedObjective \<Rightarrow> storedObjective option" where
  "validateObjective project session value =
     (if \<not> validateDurableSessionTarget project session \<or> obj_Version value \<noteq> 2 \<or> obj_ProjectID value \<noteq> project
         \<or> obj_SessionID value \<noteq> session \<or> obj_Tasks value = None
      then None
      else
        (case (case obj_Goal value of None \<Rightarrow> Some None | Some g \<Rightarrow> map_option Some (normalizeGoal g)) of
           None \<Rightarrow> None
         | Some goal \<Rightarrow>
             map_option (\<lambda>ts. value\<lparr>obj_Goal := goal, obj_Tasks := Some ts\<rparr>)
               (validateTasks (the (obj_Tasks value)))))"

definition objective_ok :: "string \<Rightarrow> string \<Rightarrow> storedObjective \<Rightarrow> bool" where
  "objective_ok project session value \<longleftrightarrow> validateObjective project session value \<noteq> None"

section \<open>Reading and writing\<close>

definition write_objective :: "objective_store \<Rightarrow> storedObjective \<Rightarrow> world \<Rightarrow> bool \<times> world" where
  "write_objective st stored w =
     Write (os_codec st) (objective_ok (obj_ProjectID stored) (obj_SessionID stored))
       (objectiveName st (obj_ProjectID stored) (obj_SessionID stored)) (fst (os_temps st)) (snd (os_temps st)) stored w"

definition migrated :: "string \<Rightarrow> string \<Rightarrow> int \<Rightarrow> legacyGoal \<Rightarrow> storedObjective option" where
  "migrated project session now legacy =
     (if leg_Version legacy \<noteq> 1 \<or> leg_WorkspaceID legacy \<noteq> project \<or> leg_SessionID legacy \<noteq> session then None
      else map_option (\<lambda>goal. \<lparr>obj_Version = 2, obj_ProjectID = project, obj_SessionID = session,
                 obj_Goal = Some goal, obj_Tasks = Some [],
                 obj_UpdatedAt = (if leg_UpdatedAt legacy = 0 then now else leg_UpdatedAt legacy)\<rparr>)
             (normalizeGoal (leg_Goal legacy)))"

definition read_objective ::
  "objective_store \<Rightarrow> int \<Rightarrow> string \<Rightarrow> string \<Rightarrow> world \<Rightarrow>
     (objective_error + storedObjective option) \<times> world" where
  "read_objective st now project session w =
     (if \<not> validateDurableSessionTarget project session then (Inl BadTarget, w)
      else
        (case Read (os_codec st) (objective_ok project session) (objectiveName st project session) w of
           (Unreadable, w) \<Rightarrow> (Inl ObjectiveUnreadable, w)
         | (Loaded v, w) \<Rightarrow> (Inr (validateObjective project session v), w)
         | (Absent, w) \<Rightarrow>
             (case ReadFile (legacyName st project session) w of
                (ReadBytes bytes m, w) \<Rightarrow>
                  (case Option.bind (os_legacy st bytes) (migrated project session now) of
                     None \<Rightarrow> (Inr None, w)
                   | Some stored \<Rightarrow>
                       (let (ok, w) = write_objective st stored w in
                        (if ok then Inr (Some stored) else Inl ObjectiveSaveFailed, w)))
              | (_, w) \<Rightarrow> (Inr None, w))))"

definition goal_view :: "string \<Rightarrow> string \<Rightarrow> storedObjective option \<Rightarrow> SessionGoal" where
  "goal_view project session stored =
     (case stored of
        None \<Rightarrow> \<lparr>goal_ProjectID = project, goal_SessionID = session, goal_Goal = None, goal_Tasks = [], goal_UpdatedAt = None\<rparr>
      | Some s \<Rightarrow> \<lparr>goal_ProjectID = project, goal_SessionID = session, goal_Goal = obj_Goal s,
                   goal_Tasks = the (obj_Tasks s), goal_UpdatedAt = Some (obj_UpdatedAt s)\<rparr>)"

definition Get_objective ::
  "objective_store \<Rightarrow> int \<Rightarrow> string \<Rightarrow> string \<Rightarrow> world \<Rightarrow> (objective_error + SessionGoal) \<times> world" where
  "Get_objective st now project session w =
     (case read_objective st now project session w of
        (Inl e, w) \<Rightarrow> (Inl e, w)
      | (Inr stored, w) \<Rightarrow> (Inr (goal_view project session stored), w))"

text \<open>The goal and tasks after an update: the given ones over the current ones.\<close>

definition next_goal :: "storedObjective option \<Rightarrow> string option \<Rightarrow> objective_error + string option" where
  "next_goal current goal =
     (case goal of
        None \<Rightarrow> Inr (case current of None \<Rightarrow> None | Some c \<Rightarrow> obj_Goal c)
      | Some g \<Rightarrow> (case normalizeGoal g of None \<Rightarrow> Inl BadGoal | Some n \<Rightarrow> Inr (Some n)))"

definition next_tasks :: "storedObjective option \<Rightarrow> SessionTask list option \<Rightarrow> objective_error + SessionTask list" where
  "next_tasks current tasks =
     (case tasks of
        None \<Rightarrow> Inr (case current of None \<Rightarrow> [] | Some c \<Rightarrow> the (obj_Tasks c))
      | Some ts \<Rightarrow> (case validateTasks ts of None \<Rightarrow> Inl BadTask | Some ts \<Rightarrow> Inr ts))"

definition Update_objective ::
  "objective_store \<Rightarrow> int \<Rightarrow> string \<Rightarrow> string \<Rightarrow> string option \<Rightarrow> SessionTask list option \<Rightarrow> world \<Rightarrow>
     (objective_error + SessionGoal) \<times> world" where
  "Update_objective st now project session goal tasks w =
     (if goal = None \<and> tasks = None then (Inl NothingToUpdate, w)
      else if \<not> validateDurableSessionTarget project session then (Inl BadTarget, w)
      else
        (case read_objective st now project session w of
           (Inl e, w) \<Rightarrow> (Inl e, w)
         | (Inr current, w) \<Rightarrow>
             (case next_goal current goal of
                Inl e \<Rightarrow> (Inl e, w)
              | Inr g \<Rightarrow>
                  (case next_tasks current tasks of
                     Inl e \<Rightarrow> (Inl e, w)
                   | Inr ts \<Rightarrow>
                       (let stored = \<lparr>obj_Version = 2, obj_ProjectID = project, obj_SessionID = session,
                              obj_Goal = g, obj_Tasks = Some ts, obj_UpdatedAt = now\<rparr>;
                            (ok, w) = write_objective st stored w
                        in if ok then (Inr (goal_view project session (Some stored)), w)
                           else (Inl ObjectiveSaveFailed, w))))))"

section \<open>Removing\<close>

text \<open>\<open>os.Remove\<close>, an absent file being no error, and the removal of both generations with the sync of
  their directory; a directory that does not exist is no error.\<close>

definition remove_path :: "path \<Rightarrow> world \<Rightarrow> bool \<times> world" where
  "remove_path p w = (case get (files w) p of None \<Rightarrow> (True, w) | Some n \<Rightarrow> change (del p) w)"

definition removeStoredGenerations :: "objective_store \<Rightarrow> path \<Rightarrow> world \<Rightarrow> bool \<times> world" where
  "removeStoredGenerations st p w =
     (let (a, w) = remove_path p w;
          (b, w) = remove_path (backup_path p) w
      in if \<not> os_present st (fst p) then (a \<and> b, w)
         else
           (let (opened, w) = syscall w in
            if \<not> opened then (False, w)
            else (let (synced, w) = syscall w; (closed, w) = syscall w in (a \<and> b \<and> synced \<and> closed, w))))"

definition ClearGoal :: "objective_store \<Rightarrow> int \<Rightarrow> string \<Rightarrow> string \<Rightarrow> world \<Rightarrow> objective_error option \<times> world" where
  "ClearGoal st now project session w =
     (case read_objective st now project session w of
        (Inl e, w) \<Rightarrow> (Some e, w)
      | (Inr None, w) \<Rightarrow> (None, w)
      | (Inr (Some current), w) \<Rightarrow>
          if the (obj_Tasks current) \<noteq> []
          then (let (ok, w) = write_objective st (current\<lparr>obj_Goal := None, obj_UpdatedAt := now\<rparr>) w in
                (if ok then None else Some ObjectiveSaveFailed, w))
          else (let (ok, w) = removeStoredGenerations st (objectiveName st project session) w in
                (if ok then None else Some RemoveFailed, w)))"

definition Forget_objective :: "objective_store \<Rightarrow> string \<Rightarrow> string \<Rightarrow> world \<Rightarrow> objective_error option \<times> world" where
  "Forget_objective st project session w =
     (if project = [] \<or> session = [] \<or> containsNUL project \<or> containsNUL session then (Some BadTarget, w)
      else
        (let (a, w) = removeStoredGenerations st (objectiveName st project session) w;
             (b, w) = removeStoredGenerations st (legacyName st project session) w
         in (if a \<and> b then None else Some RemoveFailed, w)))"

text \<open>The pattern \<open>^[a-f0-9]{64}\.json(?:\.bak)?$\<close>, and the sweep of a project's objectives.\<close>

definition objective_file :: "string \<Rightarrow> bool" where
  "objective_file name \<longleftrightarrow> hex_string 64 (take 64 name) \<and> drop 64 name \<in> {''.json'', ''.json.bak''}"

fun clear_files :: "objective_store \<Rightarrow> string \<Rightarrow> string list \<Rightarrow> world \<Rightarrow> world" where
  "clear_files st project [] w = w"
| "clear_files st project (name # names) w =
     (let p = (objective_dir st, name) in
      case get (files w) p of
        None \<Rightarrow> clear_files st project names w
      | Some n \<Rightarrow>
          if \<not> regular n \<or> \<not> objective_file name then clear_files st project names w
          else
            (case ReadFile p w of
               (ReadBytes bytes m, w) \<Rightarrow>
                 (if os_project st bytes = Some project then clear_files st project names (snd (remove_path p w))
                  else clear_files st project names w)
             | (_, w) \<Rightarrow> clear_files st project names w))"

definition directory_entries :: "objective_store \<Rightarrow> filesys \<Rightarrow> string list" where
  "directory_entries st fs =
     sort_key (\<lambda>n. map of_char n :: nat list) (map snd (filter (\<lambda>p. fst p = objective_dir st) (map fst fs)))"

definition ClearProject :: "objective_store \<Rightarrow> string \<Rightarrow> world \<Rightarrow> objective_error option \<times> world" where
  "ClearProject st project w =
     (if \<not> validateIdentity project then (Some ObjectiveBadIdentity, w)
      else if \<not> os_present st (objective_dir st) then (None, w)
      else
        (let (listed, w) = syscall w in
         if \<not> listed then (Some DirectoryUnreadable, w)
         else (None, clear_files st project (directory_entries st (files w)) w)))"

lemmas objective_ops [op_defs] =
  write_objective_def read_objective_def Get_objective_def Update_objective_def ClearGoal_def Forget_objective_def
  removeStoredGenerations_def remove_path_def

section \<open>Undisturbed removals\<close>

lemma remove_path_calm: "faults w = [] \<Longrightarrow>
    \<exists>w'. remove_path p w = (True, w') \<and> faults w' = [] \<and> files w' = del p (files w)"
  by (auto simp: remove_path_def change_calm split: option.splits)

lemma remove_calm:
  assumes "faults w = []"
  shows "\<exists>w'. removeStoredGenerations st p w = (True, w') \<and> faults w' = []
    \<and> files w' = del (backup_path p) (del p (files w))"
proof -
  obtain w1 where w1: "remove_path p w = (True, w1)" "faults w1 = []" "files w1 = del p (files w)"
    using remove_path_calm [OF assms] by blast
  obtain w2 where w2: "remove_path (backup_path p) w1 = (True, w2)" "faults w2 = []"
    "files w2 = del (backup_path p) (files w1)" using remove_path_calm [OF w1(2)] by blast
  with w1 show ?thesis by (simp add: removeStoredGenerations_def syscall_calm)
qed

section \<open>Validation is idempotent\<close>

lemma trim_task_idem [simp]: "trim_task (trim_task t) = trim_task t"
  by (simp add: trim_task_def)

lemma validate_tasks_idem: "validate_tasks seen ts = Some ts' \<Longrightarrow> validate_tasks seen ts' = Some ts' \<and> length ts' = length ts"
  by (induction seen ts arbitrary: ts' rule: validate_tasks.induct) (auto simp: Let_def split: if_splits)

lemma validateTasks_idem: "validateTasks ts = Some ts' \<Longrightarrow> validateTasks ts' = Some ts'"
  using validate_tasks_idem [of "{}" ts ts'] by (auto simp: validateTasks_def split: if_splits)

lemma normalizeGoal_idem: "normalizeGoal g = Some n \<Longrightarrow> normalizeGoal n = Some n"
  by (auto simp: normalizeGoal_def Let_def split: if_splits)

lemma validateObjective_idem:
  assumes "validateObjective p s v = Some v'"
  shows "validateObjective p s v' = Some v'"
  using assms
  by (auto simp: validateObjective_def validateTasks_idem normalizeGoal_idem split: if_splits option.splits)

lemma validateObjective_parts:
  assumes "validateObjective p s v = Some v'"
  shows "case obj_Goal v' of None \<Rightarrow> True | Some g \<Rightarrow> normalizeGoal g = Some g"
    and "validateTasks (the (obj_Tasks v')) = Some (the (obj_Tasks v'))"
  using assms
  by (auto simp: validateObjective_def validateTasks_idem normalizeGoal_idem split: if_splits option.splits)

lemma migrated_valid:
  assumes "migrated p s now l = Some v" "validateDurableSessionTarget p s"
  shows "validateObjective p s v = Some v"
  using assms
  by (auto simp: migrated_def validateObjective_def validateTasks_def normalizeGoal_idem split: if_splits)

lemma read_objective_valid:
  assumes "read_objective st now p s w = (Inr (Some v), w')"
  shows "validateObjective p s v = Some v"
  using assms
  by (auto simp: read_objective_def Let_def bind_eq_Some_conv split: if_splits prod.splits loaded.splits
      read_result.splits option.splits dest: validateObjective_idem migrated_valid)

section \<open>Reading back\<close>

lemma write_objective_now:
  assumes "write_objective st v w = (True, w')" "exact (os_codec st) v" "faults w = []"
  shows "load_now (os_codec st) (objective_ok (obj_ProjectID v) (obj_SessionID v))
      (objectiveName st (obj_ProjectID v) (obj_SessionID v)) (files w') = Loaded v \<and> faults w' = []"
proof -
  note wr = assms(1) [unfolded write_objective_def]
  from Write_nodes [OF wr] obtain b where "marshal (os_codec st) v = Some b" "length (b @ [newline]) \<le> maxJSONBytes"
    "Decode (os_codec st) (objective_ok (obj_ProjectID v) (obj_SessionID v)) (b @ [newline]) \<noteq> None" by blast
  from Write_calm [OF assms(3) this] wr have "faults w' = []" by (metis Pair_inject)
  with guarded.save_ok [OF assms(2) wr] show ?thesis by blast
qed

lemma read_objective_calm:
  assumes "read_objective st now p s w = (Inr r, w')" "faults w = []"
  shows "faults w' = []"
proof -
  have "faults w1 = []" if "write_objective st v w = (True, w1)" for v w1
  proof -
    note wr = that [unfolded write_objective_def]
    from Write_nodes [OF wr] obtain b where "marshal (os_codec st) v = Some b" "length (b @ [newline]) \<le> maxJSONBytes"
      "Decode (os_codec st) (objective_ok (obj_ProjectID v) (obj_SessionID v)) (b @ [newline]) \<noteq> None" by blast
    from Write_calm [OF assms(2) this] wr show ?thesis by (metis Pair_inject)
  qed
  with assms show ?thesis
    by (auto simp: read_objective_def Read_no_faults ReadFile_no_faults Let_def
        split: if_splits loaded.splits read_result.splits option.splits prod.splits)
qed

text \<open>A goal or task list that was saved is what every later read returns, across restarts of the program:
  the trimmed goal, the validated tasks and the time stamp of the update.\<close>

theorem objective_update_read_back:
  assumes run: "Update_objective st now project session goal tasks w = (Inr g, w')"
    and codec: "exact (os_codec st) \<lparr>obj_Version = 2, obj_ProjectID = project, obj_SessionID = session,
      obj_Goal = goal_Goal g, obj_Tasks = Some (goal_Tasks g), obj_UpdatedAt = now\<rparr>" and calm: "faults w = []"
  shows "Get_objective st later project session w' = (Inr g, w')
    \<and> (goal \<noteq> None \<longrightarrow> goal_Goal g = normalizeGoal (the goal))
    \<and> (tasks \<noteq> None \<longrightarrow> Some (goal_Tasks g) = validateTasks (the tasks))"
proof -
  have tgt: "validateDurableSessionTarget project session"
    using run by (auto simp: Update_objective_def split: if_splits)
  obtain current w1 where rd: "read_objective st now project session w = (Inr current, w1)"
    using run by (auto simp: Update_objective_def split: if_splits prod.splits sum.splits)
  obtain ng where ng: "next_goal current goal = Inr ng"
    using run rd by (auto simp: Update_objective_def split: if_splits sum.splits)
  obtain nt where nt: "next_tasks current tasks = Inr nt"
    using run rd ng by (auto simp: Update_objective_def split: if_splits sum.splits)
  let ?v = "\<lparr>obj_Version = 2, obj_ProjectID = project, obj_SessionID = session, obj_Goal = ng,
     obj_Tasks = Some nt, obj_UpdatedAt = now\<rparr>"
  obtain ok w2 where wr: "write_objective st ?v w1 = (ok, w2)" by force
  have res: "ok" "w' = w2" "g = goal_view project session (Some ?v)"
    using run rd ng nt wr by (auto simp: Update_objective_def split: if_splits)
  have cur: "validateObjective project session c = Some c" if "current = Some c" for c
    using read_objective_valid [of st now project session w c w1] rd that by simp
  have "case ng of None \<Rightarrow> True | Some n \<Rightarrow> normalizeGoal n = Some n"
    using ng validateObjective_parts(1) [OF cur]
    by (auto simp: next_goal_def normalizeGoal_idem split: option.splits)
  moreover have "validateTasks nt = Some nt"
    using nt validateObjective_parts(2) [OF cur]
    by (auto simp: next_tasks_def validateTasks_idem validateTasks_def [of "[]"] split: option.splits)
  ultimately have valid: "validateObjective project session ?v = Some ?v"
    using tgt by (auto simp: validateObjective_def split: option.splits)
  have held: "load_now (os_codec st) (objective_ok project session) (objectiveName st project session) (files w2) = Loaded ?v"
    "faults w2 = []"
    using write_objective_now [OF wr [unfolded eqTrueI [OF res(1)]] _ read_objective_calm [OF rd calm]] codec
    by (simp_all add: res(3) goal_view_def)
  have "Get_objective st later project session w' = (Inr g, w')"
    using tgt held valid by (simp add: Get_objective_def read_objective_def Read_no_faults res(2,3))
  moreover have "goal \<noteq> None \<longrightarrow> goal_Goal g = normalizeGoal (the goal)"
    using ng by (auto simp: res(3) goal_view_def next_goal_def split: option.splits)
  moreover have "tasks \<noteq> None \<longrightarrow> Some (goal_Tasks g) = validateTasks (the tasks)"
    using nt by (auto simp: res(3) goal_view_def next_tasks_def split: option.splits)
  ultimately show ?thesis by blast
qed

lemma write_objective_calm:
  assumes "faults u = []" "marshal (os_codec st) v = Some b" "length (b @ [newline]) \<le> maxJSONBytes"
    and "Decode (os_codec st) (objective_ok (obj_ProjectID v) (obj_SessionID v)) (b @ [newline]) \<noteq> None"
  shows "\<exists>w'. write_objective st v u = (True, w') \<and> faults w' = []"
  using Write_calm [OF assms, of "objectiveName st (obj_ProjectID v) (obj_SessionID v)" "fst (os_temps st)" "snd (os_temps st)"]
  unfolding write_objective_def by blast

section \<open>Clearing a goal migrated from an earlier version\<close>

text \<open>The directories of the two generations of the format differ.\<close>

lemma legacy_dir [simp]: "fst (legacyName st p s) \<noteq> fst (objectiveName st p' s')"
  by (simp add: legacyName_def objectiveName_def objective_dir_def)

lemma absent_after_remove:
  "load_now c v p (del (backup_path p) (del p fs)) = Absent"
  by (simp add: load_now_def read_now_def decode_read_def)

lemma migrate_read:
  assumes "validateDurableSessionTarget p s" "faults w = []"
    and "load_now (os_codec st) (objective_ok p s) (objectiveName st p s) (files w) = Absent"
    and "read_now (legacyName st p s) (files w) = ReadBytes bytes m" "os_legacy st bytes = Some l"
    and "migrated p s now l = Some v" "write_objective st v w = (ok, w')"
  shows "read_objective st now p s w = (if ok then Inr (Some v) else Inl ObjectiveSaveFailed, w')"
  using assms by (simp add: read_objective_def Read_no_faults ReadFile_no_faults)

lemma migrated_shape: "migrated p s now l = Some v \<Longrightarrow>
    obj_ProjectID v = p \<and> obj_SessionID v = s \<and> obj_Tasks v = Some [] \<and> obj_Goal v \<noteq> None"
  by (auto simp: migrated_def split: if_splits)

text \<open>
  Clearing the goal of a session that has only a goal file of the earlier version migrates the file,
  removes the migrated copy, reports success, and leaves the old file: the next read migrates the goal again.
\<close>

lemma ClearGoal_legacy_returns:
  assumes tgt: "validateDurableSessionTarget p s" and calm: "faults w = []"
    and absent: "load_now (os_codec st) (objective_ok p s) (objectiveName st p s) (files w) = Absent"
    and legacy: "read_now (legacyName st p s) (files w) = ReadBytes bytes m" "os_legacy st bytes = Some l"
    and stamp: "leg_UpdatedAt l \<noteq> 0" and mig: "migrated p s now l = Some v"
    and enc: "marshal (os_codec st) v = Some b" "length (b @ [newline]) \<le> maxJSONBytes"
      "Decode (os_codec st) (objective_ok p s) (b @ [newline]) \<noteq> None"
  shows "\<exists>w' w'' g. ClearGoal st now p s w = (None, w') \<and> Get_objective st later p s w' = (Inr g, w'')
    \<and> goal_Goal g = obj_Goal v \<and> obj_Goal v \<noteq> None"
proof -
  note sh = migrated_shape [OF mig]
  have again: "\<exists>w'. write_objective st v u = (True, w') \<and> faults w' = []
      \<and> read_now (legacyName st p s) (files w') = read_now (legacyName st p s) (files u)"
    if calm_u: "faults u = []" for u
  proof -
    obtain w' where w': "write_objective st v u = (True, w')" "faults w' = []"
      using write_objective_calm [OF calm_u enc(1,2)] enc(3) sh by auto
    have "get (files w') (legacyName st p s) = get (files u) (legacyName st p s)"
      by (rule Write_other_dir [OF w'(1) [unfolded write_objective_def]]) simp
    with w' show ?thesis by (metis read_now_cong)
  qed
  obtain w1 where w1: "write_objective st v w = (True, w1)" "faults w1 = []"
    "read_now (legacyName st p s) (files w1) = ReadBytes bytes m" using again [OF calm] legacy(1) by auto
  have rd: "read_objective st now p s w = (Inr (Some v), w1)"
    using migrate_read [OF tgt calm absent legacy mig w1(1)] by simp
  obtain w2 where w2: "removeStoredGenerations st (objectiveName st p s) w1 = (True, w2)" "faults w2 = []"
    "files w2 = del (backup_path (objectiveName st p s)) (del (objectiveName st p s) (files w1))"
    using remove_calm [OF w1(2)] by blast
  have cleared: "ClearGoal st now p s w = (None, w2)"
    using rd w2(1) sh by (simp add: ClearGoal_def)
  have "legacyName st p s \<noteq> objectiveName st p s" "legacyName st p s \<noteq> backup_path (objectiveName st p s)"
    using legacy_dir [of st p s p s] by (metis, metis backup_path_def fst_conv)
  then have "get (files w2) (legacyName st p s) = get (files w1) (legacyName st p s)"
    by (simp add: w2(3))
  with w1(3) have legacy2: "read_now (legacyName st p s) (files w2) = ReadBytes bytes m"
    by (metis read_now_cong)
  have mig2: "migrated p s later l = Some v" using mig stamp by (simp add: migrated_def split: if_splits)
  obtain w3 where w3: "write_objective st v w2 = (True, w3)" using again [OF w2(2)] by blast
  have "read_objective st later p s w2 = (Inr (Some v), w3)"
    using migrate_read [OF tgt w2(2) _ legacy2 legacy(2) mig2 w3] by (simp add: w2(3) absent_after_remove)
  then have "Get_objective st later p s w2 = (Inr (goal_view p s (Some v)), w3)"
    by (simp add: Get_objective_def)
  with cleared sh show ?thesis by (auto simp: goal_view_def)
qed

section \<open>Witness\<close>

definition demo_objective :: storedObjective where
  "demo_objective = \<lparr>obj_Version = 2, obj_ProjectID = ''p'', obj_SessionID = ''s'', obj_Goal = Some ''g'',
     obj_Tasks = Some [], obj_UpdatedAt = 5\<rparr>"

definition demo_objective_store :: objective_store where
  "demo_objective_store = \<lparr>os_dir = ''d'', os_digest = (\<lambda>k. k),
     os_codec = \<lparr>marshal = (\<lambda>v. if v = demo_objective then Some ''1'' else None), unmarshal = (\<lambda>s. Some demo_objective)\<rparr>,
     os_legacy = (\<lambda>s. None), os_project = (\<lambda>s. None), os_temps = (''1'', ''2''), os_present = (\<lambda>d. True)\<rparr>"

lemma demo_target: "validateDurableSessionTarget ''p'' ''s''"
  by (simp add: validateDurableSessionTarget_def validateIdentity_def validatePiSessionID_def utf16Length_def
      ContainsAny_def containsNUL_iff)

lemma demo_goal: "normalizeGoal ''g'' = Some ''g''"
  by (simp add: normalizeGoal_def TrimSpace_def space_seg_def is_space_def utf16Length_def containsNUL_iff)

theorem objective_update_read_back_witness:
  "\<exists>g w'. Update_objective demo_objective_store 5 ''p'' ''s'' (Some ''g'') None \<lparr>files = [], faults = [], trail = []\<rparr> = (Inr g, w')
     \<and> Get_objective demo_objective_store 9 ''p'' ''s'' w' = (Inr g, w') \<and> goal_Goal g = Some ''g''"
proof -
  let ?st = demo_objective_store and ?w = "\<lparr>files = [], faults = [], trail = []\<rparr> :: world"
  have calm: "faults ?w = []" by simp
  have rd: "read_objective ?st 5 ''p'' ''s'' ?w = (Inr None, ?w)"
    using demo_target
    by (simp add: read_objective_def Read_no_faults ReadFile_no_faults load_now_def read_now_def decode_read_def)
  have "objective_ok ''p'' ''s'' demo_objective"
    using demo_target demo_goal by (simp add: objective_ok_def validateObjective_def demo_objective_def validateTasks_def)
  then have enc: "marshal (os_codec ?st) demo_objective = Some ''1''" "length (''1'' @ [newline]) \<le> maxJSONBytes"
    "Decode (os_codec ?st) (objective_ok ''p'' ''s'') (''1'' @ [newline]) \<noteq> None"
    by (simp_all add: demo_objective_store_def maxJSONBytes_def Decode_def)
  obtain w' where "write_objective ?st demo_objective ?w = (True, w')"
    using write_objective_calm [OF calm enc(1,2)] enc(3) by (auto simp: demo_objective_def)
  then have run: "Update_objective ?st 5 ''p'' ''s'' (Some ''g'') None ?w = (Inr (goal_view ''p'' ''s'' (Some demo_objective)), w')"
    using demo_target rd
    by (simp add: Update_objective_def next_goal_def demo_goal next_tasks_def, simp add: demo_objective_def)
  have "exact (os_codec ?st) v" for v by (simp add: exact_def demo_objective_store_def)
  from objective_update_read_back [OF run this calm, of 9] run show ?thesis
    by (auto simp: demo_goal)
qed

end
