(* ===== verification/PiClient.thy ===== *)
theory PiClient
  imports Deletions "HOL-Library.Word"
begin

text \<open>
  The one connection to the Pi host that all requests of the server share, the \<open>PiClient\<close> of
  \<open>internal/controller/pi_client.go\<close>. Any number of goroutines ask for it; the first that finds none starts a
  connection attempt, the others wait for the same attempt. A reset, a shutdown or a dropped connection may come at any
  moment.

  Attempts and connections are numbered in the order they were made (the code compares pointers). An action is a
  critical section of \<open>c.mu\<close> together with the closing of the connections it took out, or a wait that ended;
  \<open>None\<close> is an action that is not enabled. What the socket and the host answer is part of the actions.
\<close>

section \<open>The profile of a connection\<close>

record AgentOperations =
  DeleteSession :: bool
  ForkSession :: bool
  PromptImage :: bool
  PromptEmbeddedContext :: bool
  HTTPMCP :: bool
  Steer :: bool
  RenameSession :: bool
  ArchiveSession :: bool
  Administration :: bool

record AgentProfile =
  pr_Capabilities :: "(string \<times> int) list"
  pr_Name :: string
  pr_Version :: string
  pr_Pi :: bool
  pr_Compatible :: bool
  pr_MissingRequired :: "string list"
  pr_Operations :: AgentOperations
  pr_identity :: string

record hello_response =
  he_ProtocolVersion :: int
  he_RuntimeID :: string
  he_Version :: string
  he_Capabilities :: "(string \<times> int) list"

datatype client_error =
    ContextEnded | ShutDown | ConnectionChanged | ClosedDuringSetup | ConnectionReset | ConnectionOver
  | SetupFailed string | Incompatible | Unsupported string | NoStableIdentity

text \<open>A capability that is not announced reads as 0.\<close>

definition capability :: "(string \<times> int) list \<Rightarrow> string \<Rightarrow> int" where
  "capability caps k = (case get caps k of Some v \<Rightarrow> v | None \<Rightarrow> 0)"

definition required_capabilities :: "string list" where
  "required_capabilities = [''sessions'', ''providers'']"

definition initialize :: "client_error + hello_response \<Rightarrow> client_error + AgentProfile" where
  "initialize answer =
     (case answer of
        Inl err \<Rightarrow> Inl err
      | Inr response \<Rightarrow>
          if he_ProtocolVersion response \<noteq> 1 \<or> he_RuntimeID response = [] then Inl Incompatible
          else let caps = he_Capabilities response;
                   absent = filter (\<lambda>k. capability caps k \<noteq> 1) required_capabilities
               in Inr \<lparr>pr_Capabilities = caps, pr_Name = ''Pi'', pr_Version = he_Version response, pr_Pi = True,
                       pr_Compatible = (absent = []), pr_MissingRequired = absent,
                       pr_Operations = \<lparr>DeleteSession = True, ForkSession = True, PromptImage = True,
                         PromptEmbeddedContext = True, HTTPMCP = (capability caps ''mcp'' = 1), Steer = True,
                         RenameSession = True, ArchiveSession = True, Administration = True\<rparr>,
                       pr_identity = ''pi:'' @ he_RuntimeID response\<rparr>)"

text \<open>The binding of a deletion to the agent and the endpoint: \<open>encoding/json\<close> and SHA-256 are arguments.\<close>

record connection_scope =
  endpoint :: string
  secret :: string
  requireSecret :: bool
  requirePi :: bool

definition defaultPiURL :: string where
  "defaultPiURL = ''ws://127.0.0.1:3284/pi''"

definition NewPiScope :: "string \<Rightarrow> string \<Rightarrow> connection_scope" where
  "NewPiScope url key =
     \<lparr>endpoint = (if url = [] then defaultPiURL else url), secret = key, requireSecret = (url = []), requirePi = (url = [])\<rparr>"

definition deletionAgentBinding ::
  "(string \<Rightarrow> connection_scope \<Rightarrow> string) \<Rightarrow> (string \<Rightarrow> string) \<Rightarrow> connection_scope \<Rightarrow> string \<Rightarrow> client_error + string" where
  "deletionAgentBinding encode sha256_hex scope agentIdentity =
     (if \<not> stableDeletionAgentIdentity agentIdentity then Inl NoStableIdentity
      else Inr (''sha256:'' @ sha256_hex (encode agentIdentity scope)))"

section \<open>The state\<close>

text \<open>How far an attempt's goroutine is: it dials, it says hello over connection \<open>k\<close>, it publishes a profile, it
  has returned. Apart from that an attempt is settled when its \<open>done\<close> is closed.\<close>

datatype attempt_progress = Dialing | Hello nat | Publishing AgentProfile | Returned

record piConnectAttempt =
  at_generation :: "64 word"
  at_progress :: attempt_progress
  at_settled :: "(client_error option) option"
  at_cancelled :: bool

record piConnection =
  co_generation :: "64 word"
  co_profile :: "AgentProfile option"
  co_done :: bool
  co_closed :: bool

datatype ready_state =
    Entering bool | WaitingFor nat | Dropping nat client_error | Answered "client_error + nat \<times> 64 word"

record ready_call =
  rd_expected :: "64 word option"
  rd_state :: ready_state

record PiClient =
  cl_connection :: "nat option"
  cl_connecting :: "nat option"
  cl_closed :: bool
  cl_generation :: "64 word"
  cl_notified :: "64 word"
  cl_attempts :: "piConnectAttempt list"
  cl_connections :: "piConnection list"
  cl_calls :: "ready_call list"
  cl_published :: "(64 word \<times> AgentProfile) list"

definition new_client :: PiClient where
  "new_client = \<lparr>cl_connection = None, cl_connecting = None, cl_closed = False, cl_generation = 0, cl_notified = 0,
     cl_attempts = [], cl_connections = [], cl_calls = [], cl_published = []\<rparr>"

definition isDone :: "nat \<Rightarrow> PiClient \<Rightarrow> bool" where
  "isDone k c \<longleftrightarrow> co_done (cl_connections c ! k)"

definition close_connection :: "nat \<Rightarrow> PiClient \<Rightarrow> PiClient" where
  "close_connection k c = c\<lparr>cl_connections := (cl_connections c)[k := (cl_connections c ! k)\<lparr>co_closed := True\<rparr>]\<rparr>"

definition close_old :: "nat option \<Rightarrow> PiClient \<Rightarrow> PiClient" where
  "close_old old c = (case old of None \<Rightarrow> c | Some k \<Rightarrow> close_connection k c)"

definition set_attempt :: "nat \<Rightarrow> piConnectAttempt \<Rightarrow> PiClient \<Rightarrow> PiClient" where
  "set_attempt a v c = c\<lparr>cl_attempts := (cl_attempts c)[a := v]\<rparr>"

definition drop_connection :: "nat \<Rightarrow> PiClient \<Rightarrow> PiClient" where
  "drop_connection k c =
     close_connection k (if cl_connection c = Some k then c\<lparr>cl_connection := None\<rparr> else c)"

section \<open>Asking for the connection\<close>

definition start_attempt :: "PiClient \<Rightarrow> PiClient" where
  "start_attempt c =
     (let g = cl_generation c + 1
      in c\<lparr>cl_connecting := Some (length (cl_attempts c)), cl_generation := g,
           cl_attempts := cl_attempts c @ [\<lparr>at_generation = g, at_progress = Dialing, at_settled = None, at_cancelled = False\<rparr>]\<rparr>)"

definition generation_refused :: "64 word option \<Rightarrow> PiClient \<Rightarrow> bool" where
  "generation_refused expected c =
     (case expected of
        None \<Rightarrow> False
      | Some g \<Rightarrow> g = 0 \<or> cl_generation c \<noteq> g
          \<or> (case cl_connection c of None \<Rightarrow> True | Some k \<Rightarrow> isDone k c))"

text \<open>One pass of the loop of \<open>ready\<close> through its critical section.\<close>

definition ready_section :: "64 word option \<Rightarrow> bool \<Rightarrow> PiClient \<Rightarrow> ready_state \<times> PiClient" where
  "ready_section expected waited c =
     (if cl_closed c then (Answered (Inl ShutDown), c)
      else if generation_refused expected c then (Answered (Inl ConnectionChanged), c)
      else let previous = cl_connection c in
        case (case previous of Some k \<Rightarrow> if isDone k c then None else Some k | None \<Rightarrow> None) of
          Some k \<Rightarrow> (Answered (Inr (k, cl_generation c)), c)
        | None \<Rightarrow>
            if waited then
              (case previous of
                 None \<Rightarrow> (Answered (Inl ClosedDuringSetup), c)
               | Some k \<Rightarrow> (Dropping k ClosedDuringSetup, c))
            else
              let c = c\<lparr>cl_connection := None\<rparr>;
                  c = (case cl_connecting c of Some a \<Rightarrow> c | None \<Rightarrow> start_attempt c)
              in case cl_connecting c of
                   Some a \<Rightarrow> (WaitingFor a, close_old previous c)
                 | None \<Rightarrow> (Answered (Inl ConnectionOver), c))"

text \<open>The end of the wait for an attempt.\<close>

definition ready_woken :: "client_error option \<Rightarrow> ready_state" where
  "ready_woken err = (case err of Some e \<Rightarrow> Answered (Inl e) | None \<Rightarrow> Entering True)"

section \<open>An attempt\<close>

definition attempt_dialed :: "nat \<Rightarrow> PiClient \<Rightarrow> PiClient" where
  "attempt_dialed a c =
     (let k = length (cl_connections c); v = cl_attempts c ! a
      in set_attempt a (v\<lparr>at_progress := Hello k\<rparr>)
           (c\<lparr>cl_connections := cl_connections c
                @ [\<lparr>co_generation = at_generation v, co_profile = None, co_done = False, co_closed = False\<rparr>]\<rparr>))"

text \<open>The section in which an attempt ends, with the connection it has and what the setup answered.\<close>

definition connect_section :: "bool \<Rightarrow> nat \<Rightarrow> nat option \<Rightarrow> client_error + AgentProfile \<Rightarrow> PiClient \<Rightarrow> PiClient" where
  "connect_section notify a connection outcome c =
     (let v = cl_attempts c ! a in
      if cl_connecting c = Some a then
        (case (outcome, connection) of
           (Inr profile, Some k) \<Rightarrow>
             set_attempt a (v\<lparr>at_progress := (if notify then Publishing profile else Returned), at_settled := Some None,
                              at_cancelled := \<not> notify\<rparr>)
               (c\<lparr>cl_connecting := None, cl_connection := Some k,
                  cl_connections := (cl_connections c)[k := (cl_connections c ! k)\<lparr>co_profile := Some profile\<rparr>]\<rparr>)
         | (Inr profile, None) \<Rightarrow> c
         | (Inl err, _) \<Rightarrow>
             close_old connection
               (set_attempt a (v\<lparr>at_progress := Returned, at_settled := Some (Some err), at_cancelled := True\<rparr>)
                 (c\<lparr>cl_connecting := None\<rparr>)))
      else close_old connection (set_attempt a (v\<lparr>at_progress := Returned, at_cancelled := True\<rparr>) c))"

definition publishProfile :: "64 word \<Rightarrow> AgentProfile \<Rightarrow> PiClient \<Rightarrow> PiClient" where
  "publishProfile g profile c =
     (if g \<le> cl_notified c then c
      else c\<lparr>cl_notified := g, cl_published := cl_published c @ [(g, profile)]\<rparr>)"

section \<open>Reset and shutdown\<close>

definition disconnect :: "bool \<Rightarrow> PiClient \<Rightarrow> PiClient" where
  "disconnect shutdown c =
     (let closed = cl_closed c \<or> shutdown;
          connection = cl_connection c;
          attempt = cl_connecting c;
          c = c\<lparr>cl_closed := closed, cl_connection := None, cl_connecting := None\<rparr>;
          c = (case attempt of
                 None \<Rightarrow> c
               | Some a \<Rightarrow> set_attempt a ((cl_attempts c ! a)\<lparr>at_settled :=
                   Some (Some (if closed then ShutDown else ConnectionReset)), at_cancelled := True\<rparr>) c)
      in close_old connection c)"

section \<open>Runs\<close>

datatype client_action =
    Ask "64 word option" | ReadySection nat | ReadyWoken nat | ReadyContext nat | ReadyDrop nat
  | Dialed nat | DialFailed nat client_error | HelloEnds nat "client_error + hello_response" | SetupEnds nat client_error
  | Publish nat | Drop nat | Disconnect bool | ConnectionEnds nat

definition set_ready :: "nat \<Rightarrow> ready_state \<Rightarrow> PiClient \<Rightarrow> PiClient" where
  "set_ready i st c = c\<lparr>cl_calls := (cl_calls c)[i := (cl_calls c ! i)\<lparr>rd_state := st\<rparr>]\<rparr>"

definition ready_of :: "nat \<Rightarrow> PiClient \<Rightarrow> ready_state option" where
  "ready_of i c = (if i < length (cl_calls c) then Some (rd_state (cl_calls c ! i)) else None)"

definition progress_of :: "nat \<Rightarrow> PiClient \<Rightarrow> attempt_progress option" where
  "progress_of a c = (if a < length (cl_attempts c) then Some (at_progress (cl_attempts c ! a)) else None)"

text \<open>\<open>notify\<close> tells whether the client has a \<open>profileChanged\<close>. A setup may end with the error of its context
  even after a good hello; the user of a connection drops it when it finds it over.\<close>

fun client_act :: "bool \<Rightarrow> client_action \<Rightarrow> PiClient \<Rightarrow> PiClient option" where
  "client_act notify (Ask expected) c =
     Some (c\<lparr>cl_calls := cl_calls c @ [\<lparr>rd_expected = expected, rd_state = Entering False\<rparr>]\<rparr>)"
| "client_act notify (ReadySection i) c =
     (case ready_of i c of
        Some (Entering waited) \<Rightarrow>
          (let (st, c') = ready_section (rd_expected (cl_calls c ! i)) waited c in Some (set_ready i st c'))
      | _ \<Rightarrow> None)"
| "client_act notify (ReadyWoken i) c =
     (case ready_of i c of
        Some (WaitingFor a) \<Rightarrow>
          (case at_settled (cl_attempts c ! a) of None \<Rightarrow> None | Some err \<Rightarrow> Some (set_ready i (ready_woken err) c))
      | _ \<Rightarrow> None)"
| "client_act notify (ReadyContext i) c =
     (case ready_of i c of
        Some (Entering waited) \<Rightarrow> Some (set_ready i (Answered (Inl ContextEnded)) c)
      | Some (WaitingFor a) \<Rightarrow> Some (set_ready i (Answered (Inl ContextEnded)) c)
      | _ \<Rightarrow> None)"
| "client_act notify (ReadyDrop i) c =
     (case ready_of i c of
        Some (Dropping k err) \<Rightarrow> Some (set_ready i (Answered (Inl err)) (drop_connection k c))
      | _ \<Rightarrow> None)"
| "client_act notify (Dialed a) c =
     (case progress_of a c of Some Dialing \<Rightarrow> Some (attempt_dialed a c) | _ \<Rightarrow> None)"
| "client_act notify (DialFailed a err) c =
     (case progress_of a c of Some Dialing \<Rightarrow> Some (connect_section notify a None (Inl err) c) | _ \<Rightarrow> None)"
| "client_act notify (HelloEnds a answer) c =
     (case progress_of a c of
        Some (Hello k) \<Rightarrow> Some (connect_section notify a (Some k) (initialize answer) c)
      | _ \<Rightarrow> None)"
| "client_act notify (SetupEnds a err) c =
     (case progress_of a c of
        Some (Hello k) \<Rightarrow> Some (connect_section notify a (Some k) (Inl err) c)
      | _ \<Rightarrow> None)"
| "client_act notify (Publish a) c =
     (case progress_of a c of
        Some (Publishing profile) \<Rightarrow>
          Some (publishProfile (at_generation (cl_attempts c ! a)) profile
                  (set_attempt a ((cl_attempts c ! a)\<lparr>at_progress := Returned, at_cancelled := True\<rparr>) c))
      | _ \<Rightarrow> None)"
| "client_act notify (Drop i) c =
     (case ready_of i c of
        Some (Answered (Inr (k, g))) \<Rightarrow> if isDone k c then Some (drop_connection k c) else None
      | _ \<Rightarrow> None)"
| "client_act notify (Disconnect shutdown) c = Some (disconnect shutdown c)"
| "client_act notify (ConnectionEnds k) c =
     (if k < length (cl_connections c)
      then Some (c\<lparr>cl_connections := (cl_connections c)[k := (cl_connections c ! k)\<lparr>co_done := True\<rparr>]\<rparr>) else None)"

fun client_run :: "bool \<Rightarrow> client_action list \<Rightarrow> PiClient \<Rightarrow> PiClient option" where
  "client_run notify [] c = Some c"
| "client_run notify (a # as) c = (case client_act notify a c of None \<Rightarrow> None | Some c \<Rightarrow> client_run notify as c)"

inductive client_reach :: "bool \<Rightarrow> PiClient \<Rightarrow> bool" for notify where
  start: "client_reach notify new_client"
| act: "client_reach notify c \<Longrightarrow> client_act notify a c = Some c' \<Longrightarrow> client_reach notify c'"

section \<open>Requests over the connection\<close>

text \<open>The capability a request needs, from the profile of the connection it runs on.\<close>

record promptBlock =
  bl_Image :: bool
  bl_Resource :: bool

definition promptContainsImage :: "promptBlock list \<Rightarrow> bool" where
  "promptContainsImage bs = list_ex bl_Image bs"

definition promptContainsEmbeddedContext :: "promptBlock list \<Rightarrow> bool" where
  "promptContainsEmbeddedContext bs = list_ex bl_Resource bs"

definition Prompt_gate :: "AgentProfile \<Rightarrow> promptBlock list \<Rightarrow> client_error option" where
  "Prompt_gate p bs =
     (if promptContainsImage bs \<and> \<not> PromptImage (pr_Operations p) then Some (Unsupported ''image prompts'')
      else if promptContainsEmbeddedContext bs \<and> \<not> PromptEmbeddedContext (pr_Operations p)
      then Some (Unsupported ''text resource prompts'')
      else None)"

definition ForkSession_gate :: "AgentProfile \<Rightarrow> client_error option" where
  "ForkSession_gate p = (if ForkSession (pr_Operations p) then None else Some (Unsupported ''session.fork''))"

definition DeleteSession_gate :: "AgentProfile \<Rightarrow> client_error option" where
  "DeleteSession_gate p = (if DeleteSession (pr_Operations p) then None else Some (Unsupported ''session.delete''))"

definition CallPi_gate :: "AgentProfile \<Rightarrow> client_error option" where
  "CallPi_gate p = (if Administration (pr_Operations p) then None else Some (Unsupported ''Pi-specific operations''))"

end
