(* ===== verification/ChatDeletion.thy ===== *)
theory ChatDeletion
  imports Deletions SessionRecords SessionQueues Objectives PiClient
begin

text \<open>
  The deletion of a chat, \<open>Delete\<close> of \<open>internal/controller/session_lifecycle.go\<close>, and its resumption at the
  next start, \<open>recoverDeletions\<close>. A chat is kept in five places: by the agent, and by this server in the session
  records, the queues, the objectives and the table of sessions in memory. The deletion journal makes the removal from
  all of them resumable.

  Deletion runs under the operation gate of the chat, with its life cycle reserved. The answers of the other components
  are arguments (\<open>delete_env\<close>, \<open>recovery_env\<close>); what happens on disk is modelled down to the system calls by
  the theories of the stores. \<open>lf_points\<close> collects, in order, every file system a run passed through together with
  the chats the agent had at that moment: the states a crash could leave.
\<close>

section \<open>State\<close>

record life_stores =
  ls_codec :: "storedSessionDeletions codec"
  ls_file :: path
  ls_temps :: "string \<times> string"
  ls_records :: record_store
  ls_objectives :: objective_store
  ls_queues :: queue_store

record life =
  lf_disk :: world
  lf_agent :: "string list"
  lf_sessions :: "string list"
  lf_lifecycle :: "string list"
  lf_deleted :: "(string \<times> string) list"
  lf_points :: "(filesys \<times> string list) list"

datatype life_error =
    Guard string | UnknownChat | NoDeleteSession | BindingError client_error | NotRecorded deletion_error | OutcomeUncertain
  | ConfirmFailed deletion_error | CleanupRecord record_error | CleanupObjective objective_error | CleanupQueue queue_error
  | FinishFailed deletion_error | NoClient string | ProfileFailed string string | BindingFailed string client_error
  | BindingChanged string | ResumeFailed string | JournalUnread deletion_error

text \<open>What the agent answers to \<open>session.delete\<close>; a failed call may or may not have had its effect. Code
  -32002 says that the agent has no such chat.\<close>

datatype delete_reply = Deleted | SessionMissing | DeleteFailed bool

definition agentSessionMissing :: "int \<Rightarrow> bool" where
  "agentSessionMissing code \<longleftrightarrow> code = -32002"

definition reply_failed :: "delete_reply \<Rightarrow> bool" where
  "reply_failed reply = (case reply of DeleteFailed b \<Rightarrow> True | _ \<Rightarrow> False)"

definition agent_delete :: "string \<Rightarrow> delete_reply \<Rightarrow> life \<Rightarrow> life" where
  "agent_delete session reply s =
     (if reply = DeleteFailed False then s
      else s\<lparr>lf_agent := removeAll session (lf_agent s),
             lf_points := lf_points s @ [(files (lf_disk s), removeAll session (lf_agent s))]\<rparr>)"

definition on_disk :: "(world \<Rightarrow> 'r \<times> world) \<Rightarrow> life \<Rightarrow> 'r \<times> life" where
  "on_disk f s =
     (let (r, w) = f ((lf_disk s)\<lparr>trail := []\<rparr>)
      in (r, s\<lparr>lf_disk := w, lf_points := lf_points s @ map (\<lambda>fs. (fs, lf_agent s)) (rev (trail w))\<rparr>))"

section \<open>The stores\<close>

definition journal_request :: "life_stores \<Rightarrow> string \<Rightarrow> string \<Rightarrow> string \<Rightarrow> world \<Rightarrow> deletion_error option \<times> world" where
  "journal_request st = Request (ls_codec st) (ls_file st) (fst (ls_temps st)) (snd (ls_temps st))"

definition journal_confirm :: "life_stores \<Rightarrow> string \<Rightarrow> string \<Rightarrow> world \<Rightarrow> deletion_error option \<times> world" where
  "journal_confirm st = Confirm (ls_codec st) (ls_file st) (fst (ls_temps st)) (snd (ls_temps st))"

definition journal_forget :: "life_stores \<Rightarrow> string \<Rightarrow> string \<Rightarrow> world \<Rightarrow> deletion_error option \<times> world" where
  "journal_forget st = Forget_deletion (ls_codec st) (ls_file st) (fst (ls_temps st)) (snd (ls_temps st))"

definition journal_list :: "life_stores \<Rightarrow> world \<Rightarrow> (deletion_error + sessionDeletion list) \<times> world" where
  "journal_list st = List_deletions (ls_codec st) (ls_file st)"

definition error_list :: "('e \<Rightarrow> life_error) \<Rightarrow> 'e option \<Rightarrow> life_error list" where
  "error_list f e = (case e of None \<Rightarrow> [] | Some e \<Rightarrow> [f e])"

definition cleanupSessionDeletion :: "life_stores \<Rightarrow> string \<Rightarrow> string \<Rightarrow> life \<Rightarrow> life_error list \<times> life" where
  "cleanupSessionDeletion st project session s =
     (let (e1, s) = on_disk (Forget_record (ls_records st) project session) s;
          (e2, s) = on_disk (Forget_objective (ls_objectives st) project session) s;
          (e3, s) = on_disk (Forget_queue (ls_queues st) project session) s
      in (error_list CleanupRecord e1 @ error_list CleanupObjective e2 @ error_list CleanupQueue e3, s))"

section \<open>Deletion\<close>

record delete_env =
  de_admitted :: "string + string"
  de_entry :: "string + string \<times> string"
  de_lock :: "string option"
  de_lifecycle :: "string option"
  de_profile :: "string + AgentProfile"
  de_attach :: "string option"
  de_binding :: "AgentProfile \<Rightarrow> client_error + string"
  de_reply :: delete_reply

text \<open>From the confirmation of the agent on. The history index and the questions of the chat are not part of the state.\<close>

definition delete_everywhere :: "life_stores \<Rightarrow> string \<Rightarrow> string \<Rightarrow> life \<Rightarrow> life_error list \<times> life" where
  "delete_everywhere st project session s =
     (let (confirm, s) = on_disk (journal_confirm st project session) s;
          s = s\<lparr>lf_sessions := removeAll session (lf_sessions s)\<rparr>;
          (cleanup, s) = cleanupSessionDeletion st project session s;
          (forgot, s) = (if confirm = None \<and> cleanup = [] then on_disk (journal_forget st project session) s else (None, s));
          s = s\<lparr>lf_deleted := lf_deleted s @ [(project, session)]\<rparr>
      in (error_list ConfirmFailed confirm @ cleanup @ error_list FinishFailed forgot, s))"

definition finish_lifecycle :: "string \<Rightarrow> life \<Rightarrow> life" where
  "finish_lifecycle session s = s\<lparr>lf_lifecycle := removeAll session (lf_lifecycle s)\<rparr>"

text \<open>The part of \<open>Delete\<close> that runs with the life cycle reserved; the reservation is kept when the outcome is
  not known to be complete.\<close>

definition delete_reserved :: "life_stores \<Rightarrow> delete_env \<Rightarrow> string \<Rightarrow> string \<Rightarrow> life \<Rightarrow> life_error list \<times> life" where
  "delete_reserved st env project session s =
     (case de_profile env of
        Inl e \<Rightarrow> ([Guard e], finish_lifecycle session s)
      | Inr profile \<Rightarrow>
          if \<not> DeleteSession (pr_Operations profile) then ([NoDeleteSession], finish_lifecycle session s)
          else (case de_attach env of
            Some e \<Rightarrow> ([Guard e], finish_lifecycle session s)
          | None \<Rightarrow>
              (case de_binding env profile of
                 Inl e \<Rightarrow> ([BindingError e], finish_lifecycle session s)
               | Inr binding \<Rightarrow>
                   (case on_disk (journal_request st project session binding) s of
                      (Some e, s) \<Rightarrow> ([NotRecorded e], s)
                    | (None, s) \<Rightarrow>
                        (let s = agent_delete session (de_reply env) s in
                         if reply_failed (de_reply env) then ([OutcomeUncertain], s)
                         else
                           (let (errs, s) = delete_everywhere st project session s
                            in (errs, if errs = [] then finish_lifecycle session s else s)))))))"

definition Delete :: "life_stores \<Rightarrow> delete_env \<Rightarrow> string \<Rightarrow> string \<Rightarrow> life \<Rightarrow> life_error list \<times> life" where
  "Delete st env project session s =
     (case de_admitted env of
        Inl e \<Rightarrow> ([Guard e], s)
      | Inr admitted \<Rightarrow>
          (case de_entry env of
             Inl e \<Rightarrow> ([Guard e], s)
           | Inr (owner, cwd) \<Rightarrow>
               if owner \<noteq> project \<or> cwd \<noteq> admitted then ([UnknownChat], s)
               else (case de_lock env of
                 Some e \<Rightarrow> ([Guard e], s)
               | None \<Rightarrow>
                   (case de_lifecycle env of
                      Some e \<Rightarrow> ([Guard e], s)
                    | None \<Rightarrow>
                        delete_reserved st env project session (s\<lparr>lf_lifecycle := session # lf_lifecycle s\<rparr>)))))"

section \<open>Resumption\<close>

record recovery_env =
  rv_client :: bool
  rv_profile :: "string \<Rightarrow> string + AgentProfile"
  rv_binding :: "AgentProfile \<Rightarrow> client_error + string"
  rv_reply :: "string \<Rightarrow> delete_reply"

text \<open>The agent's part of a requested deletion; an empty list of errors lets the resumption go on.\<close>

definition recover_requested :: "life_stores \<Rightarrow> recovery_env \<Rightarrow> sessionDeletion \<Rightarrow> life \<Rightarrow> life_error list \<times> life" where
  "recover_requested st env r s =
     (let session = sessionID r in
      if \<not> rv_client env then ([NoClient session], s)
      else (case rv_profile env session of
        Inl e \<Rightarrow> ([ProfileFailed session e], s)
      | Inr profile \<Rightarrow>
          (case rv_binding env profile of
             Inl e \<Rightarrow> ([BindingFailed session e], s)
           | Inr binding \<Rightarrow>
               if binding \<noteq> agentBinding r then ([BindingChanged session], s)
               else if \<not> DeleteSession (pr_Operations profile) then ([NoDeleteSession], s)
               else
                 (let s = agent_delete session (rv_reply env session) s in
                  if reply_failed (rv_reply env session) then ([ResumeFailed session], s)
                  else
                    (let (e, s) = on_disk (journal_confirm st (projectID r) session) s
                     in (error_list ConfirmFailed e, s))))))"

definition recover_deletion :: "life_stores \<Rightarrow> recovery_env \<Rightarrow> sessionDeletion \<Rightarrow> life \<Rightarrow> life_error list \<times> life" where
  "recover_deletion st env r s =
     (let (agent, s) = (if phase r = Requested then recover_requested st env r s else ([], s)) in
      if agent \<noteq> [] then (agent, s)
      else
        (let (cleanup, s) = cleanupSessionDeletion st (projectID r) (sessionID r) s in
         if cleanup \<noteq> [] then (cleanup, s)
         else
           (let (e, s) = on_disk (journal_forget st (projectID r) (sessionID r)) s
            in (error_list FinishFailed e, s))))"

fun recover_each :: "life_stores \<Rightarrow> recovery_env \<Rightarrow> sessionDeletion list \<Rightarrow> life \<Rightarrow> life_error list \<times> life" where
  "recover_each st env [] s = ([], s)"
| "recover_each st env (r # rs) s =
     (let (errs, s) = recover_deletion st env r s; (more, s) = recover_each st env rs s in (errs @ more, s))"

definition recoverDeletions :: "life_stores \<Rightarrow> recovery_env \<Rightarrow> life \<Rightarrow> life_error list \<times> life" where
  "recoverDeletions st env s =
     (case on_disk (journal_list st) s of
        (Inl e, s) \<Rightarrow> ([JournalUnread e], s)
      | (Inr rs, s) \<Rightarrow> recover_each st env rs s)"

end
