(* ===== verification/SessionStores.thy ===== *)
theory SessionStores
  imports ChatDeletion
begin

text \<open>
  What the deletion of a chat relies on: the three stores a chat is forgotten from (records, objectives, queues) behind
  one interface, and the files each of them may touch. A failed or interrupted removal leaves a store usable and forgets
  nothing else; a removal that reports success, and every undisturbed one, is complete.
\<close>

section \<open>Files a write leaves alone\<close>

text \<open>Temporary files begin with a dot.\<close>

definition plain :: "path \<Rightarrow> bool" where
  "plain q \<longleftrightarrow> \<not> HasPrefix (snd q) ''.''"

definition agrees :: "path set \<Rightarrow> filesys \<Rightarrow> filesys \<Rightarrow> bool" where
  "agrees qs fs fs' \<longleftrightarrow> (\<forall>q \<in> qs. get fs q = get fs' q)"

definition untouched :: "path set \<Rightarrow> filesys \<Rightarrow> filesys \<Rightarrow> bool" where
  "untouched own fs fs' \<longleftrightarrow> agrees {q. plain q \<and> q \<notin> own} fs fs'"

lemma agrees_refl [simp]: "agrees qs fs fs"
  by (simp add: agrees_def)

lemma agrees_trans: "agrees qs a b \<Longrightarrow> agrees qs b c \<Longrightarrow> agrees qs a c"
  by (simp add: agrees_def)

lemma untouched_refl [simp]: "untouched own fs fs"
  by (simp add: untouched_def)

lemma untouched_trans: "untouched own a b \<Longrightarrow> untouched own' b c \<Longrightarrow> untouched (own \<union> own') a c"
  unfolding untouched_def agrees_def by auto

lemma untouched_agrees: "untouched own a b \<Longrightarrow> \<forall>q \<in> qs. plain q \<Longrightarrow> qs \<inter> own = {} \<Longrightarrow> agrees qs a b"
  unfolding untouched_def agrees_def by blast

lemma temp_not_plain: "\<not> plain (temp_path p r)"
  by (simp add: plain_def temp_path_def HasPrefix_def)

lemma AtomicReplace_untouched:
  assumes "AtomicReplace p d m r w = (ok, w')"
  shows "passes (untouched {p} (files w)) w w'"
proof -
  from AtomicReplace_spec [OF assms]
  have ps: "passes (near (files w) p \<lparr>content = d, fmode = m, regular = True\<rparr> (temp_path p r)) w w'" by blast
  have "untouched {p} (files w) fs" if "near (files w) p \<lparr>content = d, fmode = m, regular = True\<rparr> (temp_path p r) fs" for fs
    unfolding untouched_def agrees_def
  proof (intro ballI)
    fix q assume q: "q \<in> {q. plain q \<and> q \<notin> {p}}"
    then have "q \<noteq> temp_path p r" using temp_not_plain by blast
    with q near_other [OF that] show "get (files w) q = get fs q" by simp
  qed
  with passes_mono [OF ps] show ?thesis by blast
qed

lemma untouched_wider: "untouched own a b \<Longrightarrow> own \<subseteq> own' \<Longrightarrow> untouched own' a b"
  unfolding untouched_def agrees_def by blast

lemma passes_untouched_trans:
  assumes "passes (untouched own (files w)) w w1" "passes (untouched own' (files w1)) w1 w2"
  shows "passes (untouched (own \<union> own') (files w)) w w2"
proof -
  have "passes (untouched (own \<union> own') (files w)) w w1"
    by (rule passes_mono [OF assms(1)]) (auto elim: untouched_wider)
  moreover have "passes (untouched (own \<union> own') (files w)) w1 w2"
    by (rule passes_mono [OF assms(2)]) (auto intro: untouched_trans [OF passes_final [OF assms(1)]])
  ultimately show ?thesis by (rule passes_trans)
qed

lemma Write_untouched:
  assumes "Write c validate p r1 r2 v w = (ok, w')"
  shows "passes (untouched {p, backup_path p} (files w)) w w'"
  using assms
proof (cases rule: Write_run)
  case refused
  then show ?thesis by (simp add: passes_def)
next
  case (backup s raw m w1 w2)
  from passes_start [OF backup(4,5) AtomicReplace_untouched [OF backup(8), unfolded backup(4)]] backup(10)
  show ?thesis by (auto elim!: passes_mono intro: untouched_wider)
next
  case (replace s w1 w2 m b)
  have "passes (untouched {backup_path p} (files w)) w w1"
    using replace(4)
  proof
    assume "files w1 = files w \<and> trail w1 = trail w"
    then show ?thesis by (simp add: passes_def)
  next
    assume "\<exists>raw m' w0. files w0 = files w \<and> trail w0 = trail w \<and> read_now p (files w) = ReadBytes raw m'
      \<and> Decode c validate raw \<noteq> None \<and> AtomicReplace (backup_path p) raw m' r1 w0 = (True, w1)"
    then obtain raw m' w0 where w0: "files w0 = files w" "trail w0 = trail w"
      "AtomicReplace (backup_path p) raw m' r1 w0 = (True, w1)" by blast
    from passes_start [OF w0(1,2) AtomicReplace_untouched [OF w0(3)]] show ?thesis by (simp add: w0(1))
  qed
  moreover have "{backup_path p} \<union> {p} = {p, backup_path p}" by blast
  ultimately have "passes (untouched {p, backup_path p} (files w)) w w2"
    using passes_untouched_trans [OF _ AtomicReplace_untouched [OF replace(5)]] by metis
  then show ?thesis by (rule passes_end [OF replace(6,7)])
qed

section \<open>The interface\<close>

definition target :: "string \<Rightarrow> string \<Rightarrow> bool" where
  "target p s \<longleftrightarrow> p \<noteq> [] \<and> s \<noteq> [] \<and> \<not> containsNUL p \<and> \<not> containsNUL s"

locale session_store =
  fixes own :: "string \<Rightarrow> string \<Rightarrow> path set"
    and good :: "filesys \<Rightarrow> bool"
    and gone :: "string \<Rightarrow> string \<Rightarrow> filesys \<Rightarrow> bool"
    and others :: "string \<Rightarrow> string \<Rightarrow> filesys \<Rightarrow> 'o"
    and forget :: "string \<Rightarrow> string \<Rightarrow> world \<Rightarrow> 'e option \<times> world"
  assumes same: "agrees (own p s) fs fs' \<Longrightarrow> good fs = good fs' \<and> gone p s fs = gone p s fs'"
    and frame: "forget p s w = (e, w') \<Longrightarrow> passes (untouched (own p s) (files w)) w w'"
    and stays: "good (files w) \<Longrightarrow> forget p s w = (e, w') \<Longrightarrow> passes good w w'"
    and forgotten: "good (files w) \<Longrightarrow> forget p s w = (None, w') \<Longrightarrow> gone p s (files w')"
    and calm: "target p s \<Longrightarrow> good (files w) \<Longrightarrow> faults w = [] \<Longrightarrow>
      \<exists>w'. forget p s w = (None, w') \<and> faults w' = []
        \<and> passes (\<lambda>fs. others p s fs = others p s (files w) \<and> (\<forall>p' s'. gone p' s' (files w) \<longrightarrow> gone p' s' fs)) w w'"

section \<open>Values that can be stored\<close>

definition encodes :: "'a codec \<Rightarrow> ('a \<Rightarrow> bool) \<Rightarrow> 'a \<Rightarrow> bool" where
  "encodes c validate v \<longleftrightarrow> exact c v \<and> (\<exists>raw. marshal c v = Some raw \<and> length (raw @ [newline]) \<le> maxJSONBytes
     \<and> Decode c validate (raw @ [newline]) \<noteq> None)"

lemma encodes_exact: "encodes c validate v \<Longrightarrow> exact c v"
  by (simp add: encodes_def)

lemma Write_encodes:
  assumes "encodes c validate v" "faults w = []"
  obtains w' where "Write c validate p r1 r2 v w = (True, w')" "faults w' = []"
  using assms Write_calm [OF assms(2)] unfolding encodes_def by metis

text \<open>A change of a file that is saved twice, so that the backup forgets too.\<close>

lemma passes_twice:
  assumes "passes P w w1" "\<And>fs. P fs \<Longrightarrow> files w1 = fs \<Longrightarrow> passes P w1 w2"
  shows "passes P w w2"
  using passes_trans [OF assms(1)] assms(2) passes_final [OF assms(1)] by blast

section \<open>Session records\<close>

definition records_own :: "record_store \<Rightarrow> path set" where
  "records_own st = {rs_file st, backup_path (rs_file st)}"

text \<open>The lists its two generations hold.\<close>

definition records_gens :: "record_store \<Rightarrow> filesys \<Rightarrow> ProjectSessionRecord list set" where
  "records_gens st fs = {the (ss_Records v) |v. \<exists>q \<in> records_own st.
     decode_read (rs_codec st) validateRecords (read_now q fs) = Some v}"

definition keepable :: "record_store \<Rightarrow> ProjectSessionRecord list \<Rightarrow> bool" where
  "keepable st rs \<longleftrightarrow> (\<forall>keep. encodes (rs_codec st) validateRecords (stored_sessions (filter keep rs)))"

definition records_good :: "record_store \<Rightarrow> filesys \<Rightarrow> bool" where
  "records_good st fs \<longleftrightarrow> records_now st fs \<noteq> None \<and> keepable st [] \<and> (\<forall>rs \<in> records_gens st fs. keepable st rs)"

definition is_record :: "string \<Rightarrow> string \<Rightarrow> ProjectSessionRecord \<Rightarrow> bool" where
  "is_record p s r \<longleftrightarrow> sr_ProjectID r = p \<and> sr_SessionID r = s"

definition records_gone :: "record_store \<Rightarrow> string \<Rightarrow> string \<Rightarrow> filesys \<Rightarrow> bool" where
  "records_gone st p s fs \<longleftrightarrow> (case records_now st fs of None \<Rightarrow> False | Some rs \<Rightarrow> list_all (\<lambda>r. \<not> is_record p s r) rs)"

definition records_others :: "record_store \<Rightarrow> string \<Rightarrow> string \<Rightarrow> filesys \<Rightarrow> ProjectSessionRecord list option" where
  "records_others st p s fs = map_option (filter (\<lambda>r. \<not> is_record p s r)) (records_now st fs)"

lemma records_now_agrees: "agrees (records_own st) fs fs' \<Longrightarrow> records_now st fs = records_now st fs'"
  unfolding records_now_def records_own_def agrees_def by (intro arg_cong [where f = records_view] load_now_cong) simp_all

lemma records_load_now:
  assumes "records_load st w = (res, w1)"
  shows "files w1 = files w" "trail w1 = trail w"
  using assms by (auto simp: records_load_def Read_def Let_def split: prod.splits loaded.splits option.splits if_splits dest!: ReadFile_frame)

lemma Forget_record_filter: "Forget_record st p s = filter_records st (\<lambda>r. \<not> is_record p s r)"
  unfolding Forget_record_def is_record_def by (metis (no_types, opaque_lifting))

text \<open>A removal: the store could not be read, or the filtered records were written once, or twice.\<close>

lemma Forget_record_run:
  assumes "Forget_record st p s w = (e, w')"
  obtains "e \<noteq> None" "files w' = files w" "trail w' = trail w"
  | rs w1 ok where "records_load st w = (Inr rs, w1)" "records_write st (filter (\<lambda>r. \<not> is_record p s r) rs) w1 = (ok, w')" "\<not> ok" "e \<noteq> None"
  | rs w1 w2 ok where "records_load st w = (Inr rs, w1)" "records_write st (filter (\<lambda>r. \<not> is_record p s r) rs) w1 = (True, w2)"
      "records_write st (filter (\<lambda>r. \<not> is_record p s r) rs) w2 = (ok, w')" "ok \<longleftrightarrow> e = None"
proof -
  obtain res w1 where ld: "records_load st w = (res, w1)" by force
  show thesis
  proof (cases res)
    case (Inl err)
    with assms ld have "e = Some err" "w' = w1" by (simp_all add: Forget_record_filter filter_records_def)
    with records_load_now [OF ld] that(1) show thesis by simp
  next
    case (Inr rs)
    obtain b w2 where b: "records_write st (filter (\<lambda>r. \<not> is_record p s r) rs) w1 = (b, w2)" by force
    obtain d w3 where d: "records_write st (filter (\<lambda>r. \<not> is_record p s r) rs) w2 = (d, w3)" by force
    show thesis
    proof (cases b)
      case True
      with assms ld Inr b d have "d \<longleftrightarrow> e = None" "w' = w3"
        by (auto simp: Forget_record_filter filter_records_def records_save_def split: if_splits)
      with that(3) [of rs w1 w2 d] ld Inr b d True show thesis by simp
    next
      case False
      with assms ld Inr b have "e \<noteq> None" "w' = w2"
        by (auto simp: Forget_record_filter filter_records_def records_save_def split: if_splits)
      with that(2) [of rs w1 b] ld Inr b False show thesis by simp
    qed
  qed
qed

lemma keepable_filter: "keepable st rs \<Longrightarrow> keepable st (filter keep rs)"
  by (simp add: keepable_def filter_filter)

lemma keepable_encodes: "keepable st rs \<Longrightarrow> encodes (rs_codec st) validateRecords (stored_sessions rs)"
  unfolding keepable_def by (drule spec [of _ "\<lambda>r. True"]) simp

lemma records_gens_agrees: "agrees (records_own st) fs fs' \<Longrightarrow> records_gens st fs = records_gens st fs'"
  unfolding records_gens_def agrees_def by (metis (no_types, lifting) read_now_cong)

lemma decode_read_Some: "decode_read c v r = Some x \<Longrightarrow> \<exists>raw m. r = ReadBytes raw m \<and> Decode c v raw = Some x"
  by (cases r) (simp_all add: decode_read_def)

lemma ReadFile_decoded:
  assumes "ReadFile q w = (ReadBytes raw m, w')" "Decode c v raw = Some x"
  shows "decode_read c v (read_now q (files w)) = Some x"
  using ReadFile_now [of q w raw m w'] assms by (simp add: decode_read_def)

text \<open>What a load gives, whatever calls fail, was in one of the generations.\<close>

lemma records_load_gens:
  assumes "records_load st w = (Inr rs, w1)"
  shows "rs \<in> insert [] (records_gens st (files w))"
proof -
  obtain r1 wa where r1: "ReadFile (rs_file st) w = (r1, wa)" by force
  obtain r2 wb where r2: "ReadFile (backup_path (rs_file st)) wa = (r2, wb)" by force
  have fa: "files wa = files w" using ReadFile_frame [OF r1] by simp
  let ?d = "\<lambda>r. case r of ReadBytes raw m \<Rightarrow> Decode (rs_codec st) validateRecords raw | _ \<Rightarrow> None"
  have gen: "the (ss_Records v) \<in> records_gens st (files w)"
    if "?d r = Some v" "ReadFile q wx = (r, wy)" "files wx = files w" "q \<in> records_own st" for r q wx wy v
  proof -
    from that(1) obtain raw m where "r = ReadBytes raw m" "Decode (rs_codec st) validateRecords raw = Some v"
      by (cases r) auto
    with ReadFile_decoded [of q wx raw m wy "rs_codec st" validateRecords v] that(2-4) show ?thesis
      unfolding records_gens_def by auto
  qed
  show ?thesis
  proof (cases "?d r1")
    case (Some v)
    with assms r1 have "rs = the (ss_Records v)" by (simp add: records_load_def Read_def)
    with gen [OF Some r1 refl] show ?thesis by (simp add: records_own_def)
  next
    case none: None
    show ?thesis
    proof (cases "?d r2")
      case (Some v)
      with assms r1 r2 none have "rs = the (ss_Records v)" by (simp add: records_load_def Read_def)
      with gen [OF Some r2 fa] show ?thesis by (simp add: records_own_def)
    next
      case None
      with assms r1 r2 none show ?thesis by (simp add: records_load_def Read_def split: if_splits)
    qed
  qed
qed

text \<open>A write of \<open>rs\<close> passes only through file systems whose generations are old ones or \<open>rs\<close>.\<close>

lemma records_write_passes:
  assumes "records_write st rs w = (ok, w')" "exact (rs_codec st) (stored_sessions rs)"
  shows "passes (\<lambda>fs. records_gens st fs \<subseteq> insert rs (records_gens st (files w))) w w'"
  using Write_nodes [OF assms(1) [unfolded records_write_def]]
proof (elim disjE exE conjE)
  assume "files w' = files w" "trail w' = trail w"
  then show ?thesis by (auto simp: passes_def)
next
  let ?c = "rs_codec st" and ?f = "rs_file st"
  fix raw m assume raw: "marshal ?c (stored_sessions rs) = Some raw" "length (raw @ [newline]) \<le> maxJSONBytes"
    "Decode ?c validateRecords (raw @ [newline]) \<noteq> None"
    and ps: "passes (near_write ?c validateRecords ?f (files w) \<lparr>content = raw @ [newline], fmode = m, regular = True\<rparr>) w w'"
  have dec: "Decode ?c validateRecords (raw @ [newline]) = Some (stored_sessions rs)" by (rule exact_Decode [OF assms(2) raw(1,3)])
  have "x \<in> insert rs (records_gens st (files w))"
    if nw: "near_write ?c validateRecords ?f (files w) \<lparr>content = raw @ [newline], fmode = m, regular = True\<rparr> fs"
      and x: "x \<in> records_gens st fs" for fs x
  proof -
    from x obtain q v where q: "q = ?f \<or> q = backup_path ?f" "decode_read ?c validateRecords (read_now q fs) = Some v"
      "x = the (ss_Records v)" unfolding records_gens_def records_own_def by blast
    have old: "x \<in> records_gens st (files w)" if "get fs q = get (files w) q"
      using q read_now_cong [OF that] unfolding records_gens_def records_own_def by auto
    show ?thesis
    proof (cases "q = ?f")
      case True
      show ?thesis
      proof (cases "get fs q = get (files w) q")
        case same: True
        with old show ?thesis by simp
      next
        case False
        with nw True have "get fs q = Some \<lparr>content = raw @ [newline], fmode = m, regular = True\<rparr>" by (simp add: near_write_def)
        with raw(2) have "read_now q fs = ReadBytes (raw @ [newline]) m" by (simp add: read_now_def)
        with q(2) dec have "v = stored_sessions rs" by (simp add: decode_read_def)
        with q(3) show ?thesis by (simp add: stored_sessions_def)
      qed
    next
      case False
      with q(1) have b: "q = backup_path ?f" by simp
      show ?thesis
      proof (cases "get fs q = get (files w) q")
        case same: True
        with old show ?thesis by simp
      next
        case changed: False
        with nw b obtain raw' m' m'' where r: "read_now ?f (files w) = ReadBytes raw' m'"
          "Decode ?c validateRecords raw' \<noteq> None" "get fs q = Some \<lparr>content = raw', fmode = m'', regular = True\<rparr>"
          unfolding near_write_def by blast
        from r(1) have "length raw' \<le> maxJSONBytes" by (auto simp: read_now_def split: option.splits if_splits)
        with r(3) have "read_now q fs = ReadBytes raw' m''" by (simp add: read_now_def)
        with q(2) have "Decode ?c validateRecords raw' = Some v" by (simp add: decode_read_def)
        with r(1) q(3) have "x \<in> records_gens st (files w)"
          unfolding records_gens_def records_own_def by (auto simp: decode_read_def)
        then show ?thesis by simp
      qed
    qed
  qed
  then have sub: "records_gens st fs \<subseteq> insert rs (records_gens st (files w))"
    if "near_write ?c validateRecords ?f (files w) \<lparr>content = raw @ [newline], fmode = m, regular = True\<rparr> fs" for fs
    using that by blast
  show ?thesis by (rule passes_mono [OF ps sub])
qed

lemma records_write_good:
  assumes "records_write st rs w = (ok, w')" "keepable st rs" "records_good st (files w)"
  shows "passes (records_good st) w w'"
proof -
  have ex: "exact (rs_codec st) (stored_sessions rs)" by (rule encodes_exact [OF keepable_encodes [OF assms(2)]])
  let ?P = "\<lambda>fs. records_gens st fs \<subseteq> insert rs (records_gens st (files w))"
  let ?Q = "\<lambda>fs. records_now st fs = records_now st (files w) \<or> records_now st fs = Some rs"
  have "passes (\<lambda>fs. ?P fs \<and> ?Q fs) w w'"
    using records_write_passes [OF assms(1) ex] record_file.save_atomic [OF ex assms(1)] unfolding passes_def by auto
  then show ?thesis by (rule passes_mono) (use assms(2,3) in \<open>auto simp: records_good_def\<close>)
qed

lemma records_write_frame: "records_write st rs w = (ok, w') \<Longrightarrow> passes (untouched (records_own st) (files w)) w w'"
  unfolding records_write_def records_own_def by (rule Write_untouched)

lemma records_load_keepable:
  assumes "records_load st w = (Inr rs, w1)" "records_good st (files w)" shows "keepable st rs"
  using records_load_gens [OF assms(1)] assms(2) unfolding records_good_def by blast

lemma untouched_refl_passes: "passes (untouched own (files w)) w w"
  by (simp add: passes_def)

lemma Forget_record_frame:
  assumes "Forget_record st p s w = (e, w')" shows "passes (untouched (records_own st) (files w)) w w'"
  using assms
proof (cases rule: Forget_record_run)
  case 1
  then show ?thesis by (simp add: passes_def)
next
  case (2 rs w1 ok)
  note l = records_load_now [OF 2(1)]
  from passes_start [OF l records_write_frame [OF 2(2), unfolded l(1)]] show ?thesis .
next
  case (3 rs w1 w2 ok)
  note l = records_load_now [OF 3(1)]
  from passes_untouched_trans [OF records_write_frame [OF 3(2)] records_write_frame [OF 3(3)]]
  have "passes (untouched (records_own st) (files w1)) w1 w'" by simp
  from passes_start [OF l this [unfolded l(1)]] show ?thesis .
qed

lemma Forget_record_stays:
  assumes "records_good st (files w)" "Forget_record st p s w = (e, w')" shows "passes (records_good st) w w'"
  using assms(2)
proof (cases rule: Forget_record_run)
  case 1
  with assms(1) show ?thesis by (simp add: passes_def)
next
  case (2 rs w1 ok)
  note l = records_load_now [OF 2(1)] and k = keepable_filter [OF records_load_keepable [OF 2(1) assms(1)]]
  from assms(1) l(1) have "records_good st (files w1)" by simp
  from passes_start [OF l records_write_good [OF 2(2) k this]] show ?thesis .
next
  case (3 rs w1 w2 ok)
  note l = records_load_now [OF 3(1)] and k = keepable_filter [OF records_load_keepable [OF 3(1) assms(1)]]
  from assms(1) l(1) have "records_good st (files w1)" by simp
  note first = records_write_good [OF 3(2) k this]
  from passes_start [OF l passes_trans [OF first records_write_good [OF 3(3) k passes_final [OF first]]]] show ?thesis .
qed

lemma Forget_record_gone:
  assumes "records_good st (files w)" "Forget_record st p s w = (None, w')" shows "records_gone st p s (files w')"
  using assms(2)
proof (cases rule: Forget_record_run)
  case (3 rs w1 w2 ok)
  have "exact (rs_codec st) (stored_sessions (filter (\<lambda>r. \<not> is_record p s r) rs))"
    by (rule encodes_exact [OF keepable_encodes [OF keepable_filter [OF records_load_keepable [OF 3(1) assms(1)]]]])
  from record_file.save_again [OF this 3(2,3)] show ?thesis by (simp add: records_gone_def list_all_iff)
qed simp_all

lemma Forget_record_calm:
  assumes "records_good st (files w)" "faults w = []"
  shows "\<exists>w'. Forget_record st p s w = (None, w') \<and> faults w' = []
    \<and> passes (\<lambda>fs. records_others st p s fs = records_others st p s (files w)
        \<and> (\<forall>p' s'. records_gone st p' s' (files w) \<longrightarrow> records_gone st p' s' fs)) w w'"
proof -
  obtain rs where now: "records_now st (files w) = Some rs" using assms(1) unfolding records_good_def by blast
  then have ld: "records_load st w = (Inr rs, w)" by (simp add: records_load_calm [OF assms(2)])
  let ?f = "filter (\<lambda>r. \<not> is_record p s r) rs"
  note enc = keepable_encodes [OF keepable_filter [OF records_load_keepable [OF ld assms(1)]]]
  obtain w1 where w1: "records_write st ?f w = (True, w1)" "faults w1 = []"
    using Write_encodes [OF enc assms(2)] unfolding records_write_def by metis
  obtain w2 where w2: "records_write st ?f w1 = (True, w2)" "faults w2 = []"
    using Write_encodes [OF enc w1(2)] unfolding records_write_def by metis
  have run: "Forget_record st p s w = (None, w2)"
    by (simp add: Forget_record_filter filter_records_def records_save_def ld w1 w2)
  let ?P = "\<lambda>fs. records_now st fs = Some rs \<or> records_now st fs = Some ?f"
  have "passes ?P w w1" using record_file.save_atomic [OF encodes_exact [OF enc] w1(1)] now by simp
  also have "passes ?P w1 w2"
    using record_file.save_atomic [OF encodes_exact [OF enc] w2(1)] record_file.save_ok [OF encodes_exact [OF enc] w1(1)]
    by (auto elim!: passes_mono)
  finally have "passes (\<lambda>fs. records_others st p s fs = records_others st p s (files w)
        \<and> (\<forall>p' s'. records_gone st p' s' (files w) \<longrightarrow> records_gone st p' s' fs)) w w2"
    by (rule passes_mono) (auto simp: records_others_def records_gone_def now list_all_iff filter_filter)
  with run w2(2) show ?thesis by blast
qed

interpretation record_store: session_store "\<lambda>p s. records_own st" "records_good st" "records_gone st" "records_others st"
  "Forget_record st" for st
proof
  show "records_good st fs = records_good st fs' \<and> records_gone st p s fs = records_gone st p s fs'"
    if "agrees (records_own st) fs fs'" for p s fs fs'
    unfolding records_good_def records_gone_def records_gens_agrees [OF that] records_now_agrees [OF that] by simp
qed (rule Forget_record_frame Forget_record_stays Forget_record_gone Forget_record_calm; assumption)+

section \<open>Queues\<close>

definition queues_own :: "queue_store \<Rightarrow> path set" where
  "queues_own st = {qs_file st, backup_path (qs_file st)}"

definition queues_good :: "queue_store \<Rightarrow> filesys \<Rightarrow> bool" where
  "queues_good st fs \<longleftrightarrow> (case queues_now st fs of None \<Rightarrow> False
     | Some rs \<Rightarrow> \<forall>keep. encodes (qs_codec st) validateStoredQueues (stored_queues (filter keep rs)))"

definition queues_gone :: "queue_store \<Rightarrow> string \<Rightarrow> string \<Rightarrow> filesys \<Rightarrow> bool" where
  "queues_gone st p s fs \<longleftrightarrow> (case queues_now st fs of None \<Rightarrow> False | Some rs \<Rightarrow> list_all (\<lambda>r. \<not> owns p s r) rs)"

definition queues_others :: "queue_store \<Rightarrow> string \<Rightarrow> string \<Rightarrow> filesys \<Rightarrow> storedSessionQueue list option" where
  "queues_others st p s fs = map_option (filter (\<lambda>r. \<not> owns p s r)) (queues_now st fs)"

lemma journal_now_agrees:
  assumes "agrees {p, backup_path p} fs fs'" shows "journal_now c validate p e fs = journal_now c validate p e fs'"
proof -
  from assms have "get fs p = get fs' p" "get fs (backup_path p) = get fs' (backup_path p)" by (simp_all add: agrees_def)
  then have "read_now p fs = read_now p fs'" "read_now (backup_path p) fs = read_now (backup_path p) fs'"
    by (auto intro: read_now_cong)
  then show ?thesis unfolding journal_now_def by simp
qed

lemma queues_now_agrees: "agrees (queues_own st) fs fs' \<Longrightarrow> queues_now st fs = queues_now st fs'"
  unfolding queues_now_def queues_own_def by (simp add: journal_now_agrees)

lemma Forget_queue_run:
  assumes "Forget_queue st p s w = (e, w')"
  obtains "e \<noteq> None" "files w' = files w" "trail w' = trail w"
  | rs w1 ok where "queues_load st w = (Inr rs, w1)" "queues_save st (filter (\<lambda>r. \<not> owns p s r) rs) w1 = (ok, w')" "\<not> ok" "e \<noteq> None"
  | rs w1 w2 ok where "queues_load st w = (Inr rs, w1)" "queues_save st (filter (\<lambda>r. \<not> owns p s r) rs) w1 = (True, w2)"
      "queues_save st (filter (\<lambda>r. \<not> owns p s r) rs) w2 = (ok, w')" "ok \<longleftrightarrow> e = None"
proof -
  obtain res w1 where ld: "queues_load st w = (res, w1)" by force
  show thesis
  proof (cases res)
    case (Inl err)
    with assms ld have "e = Some err" "w' = w1" by (simp_all add: Forget_queue_def)
    with queues_load_now(1,2) [OF ld] that(1) show thesis by simp
  next
    case (Inr rs)
    obtain b w2 where b: "queues_save st (filter (\<lambda>r. \<not> owns p s r) rs) w1 = (b, w2)" by force
    obtain d w3 where d: "queues_save st (filter (\<lambda>r. \<not> owns p s r) rs) w2 = (d, w3)" by force
    show thesis
    proof (cases b)
      case True
      with assms ld Inr b d have "d \<longleftrightarrow> e = None" "w' = w3" by (auto simp: Forget_queue_def Let_def split: if_splits)
      with that(3) [of rs w1 w2 d] ld Inr b d True show thesis by simp
    next
      case False
      with assms ld Inr b have "e \<noteq> None" "w' = w2" by (auto simp: Forget_queue_def Let_def split: if_splits)
      with that(2) [of rs w1 b] ld Inr b False show thesis by simp
    qed
  qed
qed

lemma queues_save_frame: "queues_save st rs w = (ok, w') \<Longrightarrow> passes (untouched (queues_own st) (files w)) w w'"
  unfolding queues_save_def queues_own_def by (rule Write_untouched)

lemma Forget_queue_frame:
  assumes "Forget_queue st p s w = (e, w')" shows "passes (untouched (queues_own st) (files w)) w w'"
  using assms
proof (cases rule: Forget_queue_run)
  case 1
  then show ?thesis by (simp add: passes_def)
next
  case (2 rs w1 ok)
  note l = queues_load_now(1,2) [OF 2(1)]
  from passes_start [OF l queues_save_frame [OF 2(2), unfolded l(1)]] show ?thesis .
next
  case (3 rs w1 w2 ok)
  note l = queues_load_now(1,2) [OF 3(1)]
  from passes_untouched_trans [OF queues_save_frame [OF 3(2)] queues_save_frame [OF 3(3)]]
  have "passes (untouched (queues_own st) (files w1)) w1 w'" by simp
  from passes_start [OF l this [unfolded l(1)]] show ?thesis .
qed

text \<open>The store reads as before, or without the chat's queue.\<close>

definition queue_old_or_less :: "queue_store \<Rightarrow> string \<Rightarrow> string \<Rightarrow> storedSessionQueue list \<Rightarrow> filesys \<Rightarrow> bool" where
  "queue_old_or_less st p s rs fs \<longleftrightarrow> queues_now st fs = Some rs \<or> queues_now st fs = Some (filter (\<lambda>r. \<not> owns p s r) rs)"

lemma Forget_queue_passes:
  assumes now: "queues_now st (files w) = Some rs"
    and enc: "encodes (qs_codec st) validateStoredQueues (stored_queues (filter (\<lambda>r. \<not> owns p s r) rs))"
    and run: "Forget_queue st p s w = (e, w')"
  shows "passes (queue_old_or_less st p s rs) w w'" "e = None \<Longrightarrow> queues_now st (files w') = Some (filter (\<lambda>r. \<not> owns p s r) rs)"
proof -
  note ex = encodes_exact [OF enc]
  have "passes (queue_old_or_less st p s rs) w w'
    \<and> (e = None \<longrightarrow> queues_now st (files w') = Some (filter (\<lambda>r. \<not> owns p s r) rs))"
    using run
  proof (cases rule: Forget_queue_run)
    case 1
    with now have "passes (queue_old_or_less st p s rs) w w'" by (simp add: passes_def queue_old_or_less_def)
    with 1(1) show ?thesis by blast
  next
    case (2 xs w1 ok)
    note l = queues_load_now(1,2) [OF 2(1)]
    from queues_load_now(3) [OF 2(1) refl] now have x: "xs = rs" by simp
    from queue_journal.save_atomic [OF ex 2(2) [unfolded x]] have "passes (queue_old_or_less st p s rs) w1 w'"
      by (rule passes_mono) (use l now in \<open>auto simp: queue_old_or_less_def\<close>)
    from passes_start [OF l this] 2(4) show ?thesis by blast
  next
    case (3 xs w1 w2 ok)
    note l = queues_load_now(1,2) [OF 3(1)]
    from queues_load_now(3) [OF 3(1) refl] now have x: "xs = rs" by simp
    from queue_journal.save_atomic [OF ex 3(2) [unfolded x]] have "passes (queue_old_or_less st p s rs) w1 w2"
      by (rule passes_mono) (use l now in \<open>auto simp: queue_old_or_less_def\<close>)
    moreover have "passes (queue_old_or_less st p s rs) w2 w'"
      by (rule passes_mono [OF queue_journal.save_atomic [OF ex 3(3) [unfolded x]]])
        (use queue_journal.save_ok [OF ex 3(2) [unfolded x]] in \<open>auto simp: queue_old_or_less_def\<close>)
    ultimately have "passes (queue_old_or_less st p s rs) w w'" using passes_start [OF l] passes_trans by blast
    moreover have "queues_now st (files w') = Some (filter (\<lambda>r. \<not> owns p s r) rs)"
      by (rule queue_journal.save_again [OF ex 3(2,3) [unfolded x]])
    ultimately show ?thesis by simp
  qed
  then show "passes (queue_old_or_less st p s rs) w w'" "e = None \<Longrightarrow> queues_now st (files w') = Some (filter (\<lambda>r. \<not> owns p s r) rs)"
    by simp_all
qed

lemma queues_goodD:
  assumes "queues_good st fs"
  obtains rs where "queues_now st fs = Some rs"
    "\<And>keep. encodes (qs_codec st) validateStoredQueues (stored_queues (filter keep rs))"
  using assms by (auto simp: queues_good_def split: option.splits)

lemma Forget_queue_calm:
  assumes "queues_good st (files w)" "faults w = []"
  shows "\<exists>w'. Forget_queue st p s w = (None, w') \<and> faults w' = []
    \<and> passes (\<lambda>fs. queues_others st p s fs = queues_others st p s (files w)
        \<and> (\<forall>p' s'. queues_gone st p' s' (files w) \<longrightarrow> queues_gone st p' s' fs)) w w'"
proof -
  obtain rs where now: "queues_now st (files w) = Some rs"
    and enc: "\<And>keep. encodes (qs_codec st) validateStoredQueues (stored_queues (filter keep rs))"
    using queues_goodD [OF assms(1)] by metis
  let ?f = "filter (\<lambda>r. \<not> owns p s r) rs"
  obtain w1 where w1: "queues_save st ?f w = (True, w1)" "faults w1 = []"
    using Write_encodes [OF enc assms(2)] unfolding queues_save_def by metis
  obtain w2 where w2: "queues_save st ?f w1 = (True, w2)" "faults w2 = []"
    using Write_encodes [OF enc w1(2)] unfolding queues_save_def by metis
  have run: "Forget_queue st p s w = (None, w2)"
    by (simp add: Forget_queue_def queues_load_calm [OF assms(2) now] Let_def w1 w2)
  have "passes (\<lambda>fs. queues_others st p s fs = queues_others st p s (files w)
        \<and> (\<forall>p' s'. queues_gone st p' s' (files w) \<longrightarrow> queues_gone st p' s' fs)) w w2"
    by (rule passes_mono [OF Forget_queue_passes(1) [OF now enc run]])
      (auto simp: queue_old_or_less_def queues_others_def queues_gone_def now list_all_iff filter_filter)
  with run w2(2) show ?thesis by blast
qed

interpretation queue_store: session_store "\<lambda>p s. queues_own st" "queues_good st" "queues_gone st" "queues_others st"
  "Forget_queue st" for st
proof
  show "queues_good st fs = queues_good st fs' \<and> queues_gone st p s fs = queues_gone st p s fs'"
    if "agrees (queues_own st) fs fs'" for p s fs fs'
    unfolding queues_good_def queues_gone_def queues_now_agrees [OF that] by simp
  show "passes (queues_good st) w w'" if g: "queues_good st (files w)" and run: "Forget_queue st p s w = (e, w')" for p s w e w'
  proof (rule queues_goodD [OF g])
    fix rs assume now: "queues_now st (files w) = Some rs"
      and enc: "\<And>keep. encodes (qs_codec st) validateStoredQueues (stored_queues (filter keep rs))"
    show ?thesis
      by (rule passes_mono [OF Forget_queue_passes(1) [OF now enc run]])
        (use enc in \<open>auto simp: queue_old_or_less_def queues_good_def filter_filter\<close>)
  qed
  show "queues_gone st p s (files w')" if g: "queues_good st (files w)" and run: "Forget_queue st p s w = (None, w')" for p s w w'
  proof (rule queues_goodD [OF g])
    fix rs assume now: "queues_now st (files w) = Some rs"
      and enc: "\<And>keep. encodes (qs_codec st) validateStoredQueues (stored_queues (filter keep rs))"
    show ?thesis using Forget_queue_passes(2) [OF now enc run] by (simp add: queues_gone_def list_all_iff)
  qed
qed (rule Forget_queue_frame Forget_queue_calm; assumption)+

section \<open>Objectives\<close>

definition objective_own :: "objective_store \<Rightarrow> string \<Rightarrow> string \<Rightarrow> path set" where
  "objective_own st p s = {objectiveName st p s, backup_path (objectiveName st p s), legacyName st p s, backup_path (legacyName st p s)}"

definition objective_gone :: "objective_store \<Rightarrow> string \<Rightarrow> string \<Rightarrow> filesys \<Rightarrow> bool" where
  "objective_gone st p s fs \<longleftrightarrow> (\<forall>q \<in> objective_own st p s. get fs q = None)"

text \<open>A removal only takes files away, and only its own.\<close>

definition fewer :: "path set \<Rightarrow> filesys \<Rightarrow> filesys \<Rightarrow> bool" where
  "fewer own fs fs' \<longleftrightarrow> (\<forall>q. get fs' q = get fs q \<or> q \<in> own \<and> get fs' q = None)"

lemma fewer_None: "fewer own a b \<Longrightarrow> get a q = None \<Longrightarrow> get b q = None"
  unfolding fewer_def by metis

lemma fewer_trans: "fewer own a b \<Longrightarrow> fewer own' b c \<Longrightarrow> own \<subseteq> all \<Longrightarrow> own' \<subseteq> all \<Longrightarrow> fewer all a c"
  unfolding fewer_def by (metis subsetD)

lemma passes_fewer_trans:
  assumes "passes (fewer own (files w)) w w1" "passes (fewer own' (files w1)) w1 w2" "own \<subseteq> all" "own' \<subseteq> all"
  shows "passes (fewer all (files w)) w w2"
proof (rule passes_trans)
  show "passes (fewer all (files w)) w w1"
    by (rule passes_mono [OF assms(1)]) (use assms(3) in \<open>auto simp: fewer_def\<close>)
  show "passes (fewer all (files w)) w1 w2"
    by (rule passes_mono [OF assms(2)]) (rule fewer_trans [OF passes_final [OF assms(1)] _ assms(3,4)])
qed

lemma remove_path_fewer:
  assumes "remove_path p w = (ok, w')"
  shows "passes (fewer {p} (files w)) w w'" "ok \<Longrightarrow> get (files w') p = None"
proof -
  have "passes (fewer {p} (files w)) w w' \<and> (ok \<longrightarrow> get (files w') p = None)"
  proof (cases "get (files w) p")
    case None
    with assms show ?thesis by (auto simp: remove_path_def passes_def fewer_def)
  next
    case (Some n)
    with assms have ch: "change (del p) w = (ok, w')" by (simp add: remove_path_def)
    then show ?thesis by (cases rule: change_cases) (auto simp: passes_def fewer_def)
  qed
  then show "passes (fewer {p} (files w)) w w'" "ok \<Longrightarrow> get (files w') p = None" by simp_all
qed

lemma removeStoredGenerations_fewer:
  assumes "removeStoredGenerations st p w = (ok, w')"
  shows "passes (fewer {p, backup_path p} (files w)) w w'"
    "ok \<Longrightarrow> get (files w') p = None \<and> get (files w') (backup_path p) = None"
proof -
  obtain a w1 where a: "remove_path p w = (a, w1)" by force
  obtain b w2 where b: "remove_path (backup_path p) w1 = (b, w2)" by force
  have two: "passes (fewer {p, backup_path p} (files w)) w w2"
    by (rule passes_fewer_trans [OF remove_path_fewer(1) [OF a] remove_path_fewer(1) [OF b]]) auto
  have ends: "files w' = files w2" "trail w' = trail w2" "ok \<Longrightarrow> a \<and> b"
    using assms a b by (auto simp: removeStoredGenerations_def Let_def split: if_splits prod.splits dest!: syscall_frame)
  from passes_end [OF ends(1,2) two] show "passes (fewer {p, backup_path p} (files w)) w w'" .
  show "get (files w') p = None \<and> get (files w') (backup_path p) = None" if ok
    using ends(1) ends(3) [OF that] remove_path_fewer(2) [OF a] remove_path_fewer(2) [OF b]
      fewer_None [OF passes_final [OF remove_path_fewer(1) [OF b]]] by simp
qed

lemma Forget_objective_fewer:
  assumes "Forget_objective st p s w = (e, w')"
  shows "passes (fewer (objective_own st p s) (files w)) w w'" "e = None \<Longrightarrow> objective_gone st p s (files w')"
proof -
  obtain a w1 where a: "removeStoredGenerations st (objectiveName st p s) w = (a, w1)" by force
  obtain b w2 where b: "removeStoredGenerations st (legacyName st p s) w1 = (b, w2)" by force
  note A = removeStoredGenerations_fewer [OF a] and B = removeStoredGenerations_fewer [OF b]
  have two: "passes (fewer (objective_own st p s) (files w)) w w2"
    by (rule passes_fewer_trans [OF A(1) B(1)]) (auto simp: objective_own_def)
  have cases: "e \<noteq> None \<and> w' = w \<or> w' = w2 \<and> (e = None \<longleftrightarrow> a \<and> b)"
    using assms a b by (auto simp: Forget_objective_def Let_def split: if_splits)
  with two show "passes (fewer (objective_own st p s) (files w)) w w'" by (auto simp: passes_def fewer_def)
  show "objective_gone st p s (files w')" if "e = None"
    using that cases A(2) B(2) fewer_None [OF passes_final [OF B(1)]] by (auto simp: objective_gone_def objective_own_def)
qed

lemma fewer_untouched: "fewer own fs fs' \<Longrightarrow> untouched own fs fs'"
  unfolding fewer_def untouched_def agrees_def by force

interpretation objective_files: session_store "objective_own st" "\<lambda>fs. True" "objective_gone st" "\<lambda>p s fs. ()"
  "Forget_objective st" for st
proof
  show "True = True \<and> objective_gone st p s fs = objective_gone st p s fs'" if "agrees (objective_own st p s) fs fs'" for p s fs fs'
    using that by (simp add: objective_gone_def agrees_def)
  show "passes (untouched (objective_own st p s) (files w)) w w'" if "Forget_objective st p s w = (e, w')" for p s w e w'
    by (rule passes_mono [OF Forget_objective_fewer(1) [OF that] fewer_untouched])
  show "passes (\<lambda>fs. True) w w'" if "Forget_objective st p s w = (e, w')" for p s w e w'
    by (rule passes_mono [OF Forget_objective_fewer(1) [OF that]]) simp
  show "objective_gone st p s (files w')" if "Forget_objective st p s w = (None, w')" for p s w w'
    using Forget_objective_fewer(2) [OF that] by simp
  show "\<exists>w'. Forget_objective st p s w = (None, w') \<and> faults w' = []
      \<and> passes (\<lambda>fs. () = () \<and> (\<forall>p' s'. objective_gone st p' s' (files w) \<longrightarrow> objective_gone st p' s' fs)) w w'"
    if t: "target p s" and calm: "faults w = []" for p s w
  proof -
    obtain w1 where w1: "removeStoredGenerations st (objectiveName st p s) w = (True, w1)" "faults w1 = []"
      using remove_calm [OF calm] by metis
    obtain w2 where w2: "removeStoredGenerations st (legacyName st p s) w1 = (True, w2)" "faults w2 = []"
      using remove_calm [OF w1(2)] by metis
    have run: "Forget_objective st p s w = (None, w2)" using t by (simp add: Forget_objective_def target_def w1 w2)
    have "objective_gone st p' s' fs" if "fewer (objective_own st p s) (files w) fs" "objective_gone st p' s' (files w)" for fs p' s'
      using that(2) fewer_None [OF that(1)] by (simp add: objective_gone_def)
    then have "passes (\<lambda>fs. () = () \<and> (\<forall>p' s'. objective_gone st p' s' (files w) \<longrightarrow> objective_gone st p' s' fs)) w w2"
      by (intro passes_mono [OF Forget_objective_fewer(1) [OF run]]) simp
    with run w2(2) show ?thesis by blast
  qed
qed

section \<open>What a failed read hides\<close>

text \<open>One failed system call on the primary, and \<open>Read\<close> returns the older generation without an error; the next save of a list
  read that way replaces the newer one.\<close>

lemma Read_falls_back:
  assumes "get (files w) p = Some n" "faults w = [False]"
    and "decode_read c validate (read_now (backup_path p) (files w)) = Some old"
  shows "fst (Read c validate p w) = Loaded old"
proof -
  let ?v = "w\<lparr>faults := []\<rparr>"
  have r: "ReadFile p w = (ReadFailed, ?v)" using assms(1,2) by (simp add: ReadFile_def ReadBoundedFile_def syscall_def)
  have b: "ReadFile (backup_path p) ?v = (read_now (backup_path p) (files w), ?v)" using ReadFile_no_faults [of ?v] by simp
  show ?thesis using assms(3) r b by (auto simp: Read_def decode_read_def split: read_result.splits option.splits)
qed

text \<open>A save whose reading of the primary fails leaves the backup as it is and still reports success, so a second save does not
  always bring the backup up to date.\<close>

lemma Write_backup_stale:
  assumes "encodes c validate v" "get (files w) p = Some n" "faults w = [True, False]" "plain (backup_path p)"
  shows "\<exists>w'. Write c validate p r1 r2 v w = (True, w') \<and> get (files w') (backup_path p) = get (files w) (backup_path p)"
proof -
  let ?u = "w\<lparr>faults := [False]\<rparr>" and ?v = "w\<lparr>faults := []\<rparr>"
  from assms(1) obtain raw where raw: "marshal c v = Some raw" "length (raw @ [newline]) \<le> maxJSONBytes" "Decode c validate (raw @ [newline]) \<noteq> None"
    by (auto simp: encodes_def)
  have m: "syscall w = (True, ?u)" using assms(3) by (simp add: syscall_def)
  have r: "ReadFile p ?u = (ReadFailed, ?v)" using assms(2) by (simp add: ReadFile_def ReadBoundedFile_def syscall_def)
  obtain ok w1 where a: "AtomicReplace p (raw @ [newline]) 384 r2 ?v = (ok, w1)" by force
  have "ok \<and> faults w1 = []" using AtomicReplace_calm [of ?v p "raw @ [newline]" 384 r2] a by simp
  then have a': "AtomicReplace p (raw @ [newline]) 384 r2 ?v = (True, w1)" "faults w1 = []" using a by simp_all
  have "Write c validate p r1 r2 v w = (True, w1)"
    using raw m r a' by (simp add: Write_def backup_old_def syscall_def Let_def)
  moreover have "backup_path p \<noteq> p" by (simp add: backup_path_def prod_eq_iff)
  moreover have "agrees {q. plain q \<and> q \<notin> {p}} (files ?v) (files w1)"
    using passes_final [OF AtomicReplace_untouched [OF a'(1)]] by (simp add: untouched_def)
  ultimately have "get (files ?v) (backup_path p) = get (files w1) (backup_path p)"
    using assms(4) by (auto simp only: agrees_def mem_Collect_eq singleton_iff)
  then show ?thesis using \<open>Write c validate p r1 r2 v w = (True, w1)\<close> by simp
qed

end
