(* ===== verification/ChatStores.thy ===== *)
theory ChatStores
  imports SessionStores "HOL-Library.Sublist"
begin

text \<open>
  The stores of a chat taken together: which files belong to which store, what an operation of the deletion journal may leave,
  the crash points of a run that goes through several stores, and what the three removals of
  \<open>cleanupSessionDeletion\<close> do to a chat and to all others.
\<close>

section \<open>Layout of the stores\<close>

text \<open>The names of the files under the state directory; the keys of objectives are hexadecimal digests.\<close>

definition pixie_layout :: "life_stores \<Rightarrow> string \<Rightarrow> bool" where
  "pixie_layout st dir \<longleftrightarrow> ls_file st = (dir, ''pi-session-deletions.json'')
     \<and> rs_file (ls_records st) = (dir, ''pi-project-sessions.json'')
     \<and> qs_file (ls_queues st) = (dir, ''pi-session-queues.json'')
     \<and> os_dir (ls_objectives st) = dir
     \<and> (\<forall>x. hex_string 64 (os_digest (ls_objectives st) x))"

definition journal_own :: "life_stores \<Rightarrow> path set" where
  "journal_own st = {ls_file st, backup_path (ls_file st)}"

definition chat_own :: "life_stores \<Rightarrow> string \<Rightarrow> string \<Rightarrow> path set" where
  "chat_own st p s = records_own (ls_records st) \<union> queues_own (ls_queues st) \<union> objective_own (ls_objectives st) p s"

lemma objective_plain:
  assumes "pixie_layout st dir" "q \<in> objective_own (ls_objectives st) p s"
  shows "plain q" "fst q \<noteq> dir"
proof -
  have hex: "hex_string 64 (objectiveKey (ls_objectives st) p s)" using assms(1) by (simp add: pixie_layout_def objectiveKey_def)
  obtain x xs where x: "objectiveKey (ls_objectives st) p s = x # xs" "x \<noteq> CHR ''.''"
  proof (cases "objectiveKey (ls_objectives st) p s")
    case Nil
    with hex show ?thesis by (simp add: hex_string_def)
  next
    case (Cons y ys)
    with hex have "is_hex y" by (simp add: hex_string_def)
    then have "y \<noteq> CHR ''.''" by (auto simp: is_hex_def is_digit_def less_eq_char_def)
    with Cons that show ?thesis by blast
  qed
  have d: "os_dir (ls_objectives st) = dir" using assms(1) by (simp add: pixie_layout_def)
  from assms(2) have "q = objectiveName (ls_objectives st) p s \<or> q = backup_path (objectiveName (ls_objectives st) p s)
    \<or> q = legacyName (ls_objectives st) p s \<or> q = backup_path (legacyName (ls_objectives st) p s)"
    by (simp add: objective_own_def)
  then show "plain q" "fst q \<noteq> dir"
    using x d by (auto simp: objectiveName_def legacyName_def objective_dir_def backup_path_def plain_def HasPrefix_def)
qed

lemma layout_plain:
  assumes "pixie_layout st dir" "q \<in> journal_own st \<union> chat_own st p s" shows "plain q"
  using assms objective_plain(1) [OF assms(1), of q p s]
  by (auto simp: journal_own_def chat_own_def records_own_def queues_own_def pixie_layout_def backup_path_def plain_def HasPrefix_def)

lemma layout_apart:
  assumes "pixie_layout st dir"
  shows "records_own (ls_records st) \<inter> queues_own (ls_queues st) = {}" "records_own (ls_records st) \<inter> journal_own st = {}"
    "queues_own (ls_queues st) \<inter> journal_own st = {}"
    "objective_own (ls_objectives st) p s \<inter> (records_own (ls_records st) \<union> queues_own (ls_queues st) \<union> journal_own st) = {}"
proof -
  show "records_own (ls_records st) \<inter> queues_own (ls_queues st) = {}" "records_own (ls_records st) \<inter> journal_own st = {}"
    "queues_own (ls_queues st) \<inter> journal_own st = {}"
    using assms by (auto simp: records_own_def queues_own_def journal_own_def pixie_layout_def backup_path_def)
  have "fst q = dir" if "q \<in> records_own (ls_records st) \<union> queues_own (ls_queues st) \<union> journal_own st" for q
    using that assms by (auto simp: records_own_def queues_own_def journal_own_def pixie_layout_def backup_path_def)
  with objective_plain(2) [OF assms] show "objective_own (ls_objectives st) p s
      \<inter> (records_own (ls_records st) \<union> queues_own (ls_queues st) \<union> journal_own st) = {}" by blast
qed

section \<open>The journal\<close>

definition journal :: "life_stores \<Rightarrow> filesys \<Rightarrow> sessionDeletion list option" where
  "journal st fs = deletions_now (ls_codec st) (ls_file st) fs"

text \<open>A journal some of whose entries are gone or confirmed.\<close>

definition progressed :: "sessionDeletion \<Rightarrow> sessionDeletion \<Rightarrow> bool" where
  "progressed r' r \<longleftrightarrow> r' = r \<or> r' = r\<lparr>phase := Confirmed\<rparr>"

definition journal_fits :: "life_stores \<Rightarrow> sessionDeletion list \<Rightarrow> bool" where
  "journal_fits st js \<longleftrightarrow> (\<forall>js'. list_emb progressed js' js \<longrightarrow>
     encodes (ls_codec st) validateStoredSessionDeletions (stored_deletions js'))"

lemma progressed_refl [simp]: "progressed r r" by (simp add: progressed_def)

lemma progressed_trans: "progressed a b \<Longrightarrow> progressed b c \<Longrightarrow> progressed a c"
  by (auto simp: progressed_def)

lemma list_emb_progressed_trans: "list_emb progressed a b \<Longrightarrow> list_emb progressed b c \<Longrightarrow> list_emb progressed a c"
  by (rule list_emb_trans [of a b c]) (use progressed_trans in blast)+

lemma fits_less: "journal_fits st js \<Longrightarrow> list_emb progressed js' js \<Longrightarrow> journal_fits st js'"
  unfolding journal_fits_def using list_emb_progressed_trans by blast

lemma fits_encodes: "journal_fits st js \<Longrightarrow> encodes (ls_codec st) validateStoredSessionDeletions (stored_deletions js)"
  unfolding journal_fits_def by (simp add: list_emb_refl)

lemma confirm_progressed: "confirm_first p s js = Some (Some js') \<Longrightarrow> list_emb progressed js' js"
  by (induction js arbitrary: js') (auto simp: progressed_def list_emb_refl split: if_splits)

lemma filter_progressed: "list_emb progressed (filter P js) js"
  by (induction js) auto

text \<open>What an operation of the journal may leave: the journal as it was, or the one it writes.\<close>

definition journal_step :: "life_stores \<Rightarrow> deletion_op \<Rightarrow> sessionDeletion list \<Rightarrow> filesys \<Rightarrow> filesys \<Rightarrow> bool" where
  "journal_step st op js fs0 fs \<longleftrightarrow> untouched (journal_own st) fs0 fs
     \<and> (journal st fs = Some js \<or> journal st fs = Some (deletion_next op js)
          \<and> spec_step op (abs_deletions js) = Some (abs_deletions (deletion_next op js)))"

lemma journal_outcome:
  assumes out: "op_outcome (ls_codec st) (ls_file st) r1 r2 op js w err w'" and now: "journal st (files w) = Some js"
    and ex: "exact (ls_codec st) (stored_deletions (deletion_next op js))"
  shows "passes (journal_step st op js (files w)) w w'"
    "err = None \<Longrightarrow> \<exists>js'. journal st (files w') = Some js' \<and> spec_step op (abs_deletions js) = Some (abs_deletions js')
       \<and> js' \<in> {js, deletion_next op js}"
proof -
  have "passes (journal_step st op js (files w)) w w'
    \<and> (err = None \<longrightarrow> (\<exists>js'. journal st (files w') = Some js' \<and> spec_step op (abs_deletions js) = Some (abs_deletions js')
       \<and> js' \<in> {js, deletion_next op js}))"
    using out unfolding op_outcome_def
  proof (elim disjE exE conjE)
    assume "files w' = files w" "trail w' = trail w"
      "case err of None \<Rightarrow> spec_step op (abs_deletions js) = Some (abs_deletions js)
        | Some e \<Rightarrow> e \<in> {OtherOwner, RequestMissing} \<longrightarrow> spec_step op (abs_deletions js) = None"
    with now show ?thesis by (auto simp: passes_def journal_step_def split: option.splits)
  next
    fix w1 ok assume st: "files w1 = files w" "trail w1 = trail w"
      and wr: "Write (ls_codec st) validateStoredSessionDeletions (ls_file st) r1 r2 (stored_deletions (deletion_next op js)) w1 = (ok, w')"
      and e: "err = (if ok then None else Some SaveFailed)"
      and sp: "spec_step op (abs_deletions js) = Some (abs_deletions (deletion_next op js))"
    have "passes (\<lambda>fs. untouched (journal_own st) (files w) fs
        \<and> (journal st fs = journal st (files w) \<or> journal st fs = Some (deletion_next op js))) w1 w'"
      using Write_untouched [OF wr] deletions_journal.save_atomic [OF ex wr]
      unfolding passes_def journal_own_def journal_def by (auto simp: st)
    from passes_start [OF st this] have "passes (journal_step st op js (files w)) w w'"
      by (rule passes_mono) (use now sp in \<open>auto simp: journal_step_def\<close>)
    moreover have "journal st (files w') = Some (deletion_next op js)" if ok
      using deletions_journal.save_ok [OF ex, of "ls_file st" r1 r2 w1 w'] wr that by (simp add: journal_def)
    ultimately show ?thesis using e sp by auto
  qed
  then show "passes (journal_step st op js (files w)) w w'"
    "err = None \<Longrightarrow> \<exists>js'. journal st (files w') = Some js' \<and> spec_step op (abs_deletions js) = Some (abs_deletions js')
       \<and> js' \<in> {js, deletion_next op js}" by simp_all
qed

lemma journal_valid:
  assumes "journal st fs = Some js"
  shows "distinct (map sessionID js)" "\<forall>r \<in> set js. validateSessionDeletion r = None"
  using deletions_now_valid assms unfolding journal_def by blast+

lemma journal_agrees: "agrees (journal_own st) fs fs' \<Longrightarrow> journal st fs = journal st fs'"
  unfolding journal_def deletions_now_def journal_own_def by (simp add: journal_now_agrees)

text \<open>Undisturbed operations succeed.\<close>

lemma calm_save:
  assumes "encodes c validateStoredSessionDeletions (stored_deletions js)" "faults w = []"
  shows "\<exists>w'. deletions_save c name r1 r2 js w = (None, w') \<and> faults w' = []"
proof -
  obtain w' where w': "Write c validateStoredSessionDeletions name r1 r2 (stored_deletions js) w = (True, w')" "faults w' = []"
    using Write_encodes [OF assms] by blast
  then have "deletions_save c name r1 r2 js w = (None, w')" unfolding deletions_save_def by simp
  with w'(2) show ?thesis by blast
qed

lemma Confirm_calm:
  assumes now: "journal st (files w) = Some js" and calm: "faults w = []" and fits: "journal_fits st js"
    and there: "abs_deletions js s = Some (p, b, d)"
  obtains w' where "journal_confirm st p s w = (None, w')" "faults w' = []"
proof -
  note ld = deletions_load_calm [OF calm now [unfolded journal_def]]
  from abs_confirm [OF journal_valid(1) [OF now], of p s] there
  consider "confirm_first p s js = Some None" | js' where "confirm_first p s js = Some (Some js')"
    by (auto simp: spec_confirm_def split: option.splits)
  then show thesis
  proof cases
    case 1
    with calm that show thesis by (simp add: journal_confirm_def Confirm_def ld)
  next
    case (2 js')
    note enc = fits_encodes [OF fits_less [OF fits confirm_progressed [OF 2]]]
    obtain w' where "deletions_save (ls_codec st) (ls_file st) (fst (ls_temps st)) (snd (ls_temps st)) js' w = (None, w')"
      "faults w' = []" using calm_save [OF enc calm] by blast
    with 2 that show thesis by (simp add: journal_confirm_def Confirm_def ld)
  qed
qed

lemma Forget_calm:
  assumes now: "journal st (files w) = Some js" and calm: "faults w = []" and fits: "journal_fits st js"
  obtains w' where "journal_forget st p s w = (None, w')" "faults w' = []"
proof -
  note ld = deletions_load_calm [OF calm now [unfolded journal_def]]
  let ?f = "filter (\<lambda>r. projectID r \<noteq> p \<or> sessionID r \<noteq> s) js"
  obtain w' where w': "deletions_save (ls_codec st) (ls_file st) (fst (ls_temps st)) (snd (ls_temps st)) ?f w = (None, w')"
    "faults w' = []" using calm_save [OF fits_encodes [OF fits_less [OF fits filter_progressed]] calm] by blast
  show thesis
  proof (cases "length ?f = length js")
    case True
    with calm that show thesis by (simp add: journal_forget_def Forget_deletion_def ld Let_def)
  next
    case False
    with w' that show thesis by (simp add: journal_forget_def Forget_deletion_def ld Let_def)
  qed
qed

section \<open>Crash points\<close>

definition travels :: "(filesys \<Rightarrow> string list \<Rightarrow> bool) \<Rightarrow> life \<Rightarrow> life \<Rightarrow> bool" where
  "travels Q s s' \<longleftrightarrow> (\<exists>T. lf_points s' = lf_points s @ T \<and> (\<forall>(fs, ag) \<in> set T. Q fs ag))
     \<and> Q (files (lf_disk s')) (lf_agent s')"

lemma travels_trans: "travels Q s s1 \<Longrightarrow> travels Q s1 s2 \<Longrightarrow> travels Q s s2"
  by (force simp: travels_def)

lemma travels_mono: "travels Q s s' \<Longrightarrow> (\<And>fs ag. Q fs ag \<Longrightarrow> R fs ag) \<Longrightarrow> travels R s s'"
  unfolding travels_def by fast

lemma travels_both: "travels P s s' \<Longrightarrow> travels Q s s' \<Longrightarrow> travels (\<lambda>fs ag. P fs ag \<and> Q fs ag) s s'"
  unfolding travels_def by fastforce

lemma travels_final: "travels Q s s' \<Longrightarrow> Q (files (lf_disk s')) (lf_agent s')"
  by (simp add: travels_def)

lemma travels_same:
  "lf_points s' = lf_points s \<Longrightarrow> Q (files (lf_disk s')) (lf_agent s') \<Longrightarrow> travels Q s s'"
  by (simp add: travels_def)

lemma on_disk_run:
  assumes "on_disk f s = (r, s')"
  obtains w w' where "files w = files (lf_disk s)" "faults w = faults (lf_disk s)" "trail w = []" "f w = (r, w')" "lf_disk s' = w'"
    "lf_agent s' = lf_agent s" "lf_points s' = lf_points s @ map (\<lambda>fs. (fs, lf_agent s)) (rev (trail w'))"
    "lf_sessions s' = lf_sessions s" "lf_lifecycle s' = lf_lifecycle s"
proof -
  obtain w' where "f ((lf_disk s)\<lparr>trail := []\<rparr>) = (r, w')" using assms by (auto simp: on_disk_def split: prod.splits)
  with assms that [of "(lf_disk s)\<lparr>trail := []\<rparr>" w'] show thesis by (auto simp: on_disk_def)
qed

lemma on_disk_travels:
  assumes run: "on_disk f s = (r, s')"
    and ps: "\<And>w w'. files w = files (lf_disk s) \<Longrightarrow> faults w = faults (lf_disk s) \<Longrightarrow> f w = (r, w') \<Longrightarrow> passes P w w'"
  shows "travels (\<lambda>fs ag. P fs \<and> ag = lf_agent s) s s'"
  using run
proof (cases rule: on_disk_run)
  case (1 w w')
  from ps [OF 1(1,2,4)] 1 show ?thesis by (auto simp: travels_def passes_def)
qed

section \<open>Cleaning up\<close>

definition stores_good :: "life_stores \<Rightarrow> filesys \<Rightarrow> bool" where
  "stores_good st fs \<longleftrightarrow> records_good (ls_records st) fs \<and> queues_good (ls_queues st) fs"

definition all_gone :: "life_stores \<Rightarrow> string \<Rightarrow> string \<Rightarrow> filesys \<Rightarrow> bool" where
  "all_gone st p s fs \<longleftrightarrow> records_gone (ls_records st) p s fs \<and> queues_gone (ls_queues st) p s fs
     \<and> objective_gone (ls_objectives st) p s fs"

definition others_same :: "life_stores \<Rightarrow> string \<Rightarrow> string \<Rightarrow> filesys \<Rightarrow> filesys \<Rightarrow> bool" where
  "others_same st p s fs0 fs \<longleftrightarrow> records_others (ls_records st) p s fs = records_others (ls_records st) p s fs0
     \<and> queues_others (ls_queues st) p s fs = queues_others (ls_queues st) p s fs0
     \<and> (\<forall>p' s'. all_gone st p' s' fs0 \<longrightarrow> all_gone st p' s' fs)"

lemma others_same_trans: "others_same st p s a b \<Longrightarrow> others_same st p s b c \<Longrightarrow> others_same st p s a c"
  by (simp add: others_same_def)

lemma gone_agrees:
  assumes lay: "pixie_layout st dir" and u: "untouched own fs0 fs"
  shows "own \<inter> records_own (ls_records st) = {} \<Longrightarrow> agrees (records_own (ls_records st)) fs0 fs"
    "own \<inter> queues_own (ls_queues st) = {} \<Longrightarrow> agrees (queues_own (ls_queues st)) fs0 fs"
    "own \<inter> objective_own (ls_objectives st) p s = {} \<Longrightarrow> agrees (objective_own (ls_objectives st) p s) fs0 fs"
    "own \<inter> journal_own st = {} \<Longrightarrow> agrees (journal_own st) fs0 fs"
proof -
  have pl: "plain q" if "q \<in> journal_own st \<union> chat_own st p s" for q by (rule layout_plain [OF lay that])
  have ag: "agrees qs fs0 fs" if "own \<inter> qs = {}" "qs \<subseteq> journal_own st \<union> chat_own st p s" for qs
    by (rule untouched_agrees [OF u]) (use that pl in blast)+
  show "own \<inter> records_own (ls_records st) = {} \<Longrightarrow> agrees (records_own (ls_records st)) fs0 fs"
    "own \<inter> queues_own (ls_queues st) = {} \<Longrightarrow> agrees (queues_own (ls_queues st)) fs0 fs"
    "own \<inter> objective_own (ls_objectives st) p s = {} \<Longrightarrow> agrees (objective_own (ls_objectives st) p s) fs0 fs"
    "own \<inter> journal_own st = {} \<Longrightarrow> agrees (journal_own st) fs0 fs"
    by (rule ag; force simp: chat_own_def)+
qed

text \<open>Agreement on its files keeps all that is said of a store.\<close>

lemma records_same:
  assumes "agrees (records_own (ls_records st)) fs0 fs"
  shows "records_good (ls_records st) fs0 = records_good (ls_records st) fs"
    "records_gone (ls_records st) p s fs0 = records_gone (ls_records st) p s fs"
    "records_others (ls_records st) p s fs0 = records_others (ls_records st) p s fs"
  using record_store.same [OF assms] records_now_agrees [OF assms] by (simp_all add: records_others_def)

lemma queues_same:
  assumes "agrees (queues_own (ls_queues st)) fs0 fs"
  shows "queues_good (ls_queues st) fs0 = queues_good (ls_queues st) fs"
    "queues_gone (ls_queues st) p s fs0 = queues_gone (ls_queues st) p s fs"
    "queues_others (ls_queues st) p s fs0 = queues_others (ls_queues st) p s fs"
  using queue_store.same [OF assms] queues_now_agrees [OF assms] by (simp_all add: queues_others_def)

lemma objective_same:
  "agrees (objective_own (ls_objectives st) p s) fs0 fs \<Longrightarrow>
     objective_gone (ls_objectives st) p s fs0 = objective_gone (ls_objectives st) p s fs"
  by (simp add: objective_gone_def agrees_def)

text \<open>One removal, as any store promises it.\<close>

context session_store
begin

lemma removal:
  assumes run: "on_disk (forget p s) x = (e, x')" and good: "good (files (lf_disk x))"
  shows "travels (\<lambda>fs ag. ag = lf_agent x \<and> good fs \<and> untouched (own p s) (files (lf_disk x)) fs) x x'"
    "e = None \<Longrightarrow> gone p s (files (lf_disk x'))"
proof -
  have ps: "passes (\<lambda>fs. good fs \<and> untouched (own p s) (files (lf_disk x)) fs) w w'"
    if w: "files w = files (lf_disk x)" "forget p s w = (e, w')" for w w'
  proof -
    have "good (files w)" using good w(1) by simp
    from stays [OF this w(2)] frame [OF w(2)] w(1) show ?thesis unfolding passes_def by auto
  qed
  show "travels (\<lambda>fs ag. ag = lf_agent x \<and> good fs \<and> untouched (own p s) (files (lf_disk x)) fs) x x'"
    by (rule travels_mono [OF on_disk_travels [OF run ps]]) simp_all
  show "gone p s (files (lf_disk x'))" if "e = None"
    using run
  proof (cases rule: on_disk_run)
    case (1 w w')
    with forgotten [of w p s w'] good that show ?thesis by simp
  qed
qed

lemma removal_calm:
  assumes run: "on_disk (forget p s) x = (e, x')" and good: "good (files (lf_disk x))"
    and quiet: "faults (lf_disk x) = []" and t: "target p s"
  shows "e = None" "faults (lf_disk x') = []"
    "travels (\<lambda>fs ag. others p s fs = others p s (files (lf_disk x)) \<and> (\<forall>p' s'. gone p' s' (files (lf_disk x)) \<longrightarrow> gone p' s' fs)) x x'"
proof -
  have C: "e = None \<and> faults w' = [] \<and> passes (\<lambda>fs. others p s fs = others p s (files (lf_disk x))
      \<and> (\<forall>p' s'. gone p' s' (files (lf_disk x)) \<longrightarrow> gone p' s' fs)) w w'"
    if w: "files w = files (lf_disk x)" "faults w = faults (lf_disk x)" "forget p s w = (e, w')" for w w'
  proof -
    have "good (files w)" "faults w = []" using good quiet w(1,2) by simp_all
    from calm [OF t this] obtain v where "forget p s w = (None, v)" "faults v = []"
      "passes (\<lambda>fs. others p s fs = others p s (files w) \<and> (\<forall>p' s'. gone p' s' (files w) \<longrightarrow> gone p' s' fs)) w v" by blast
    with w(1,3) show ?thesis by simp
  qed
  have "e = None \<and> faults (lf_disk x') = []"
    using run
  proof (cases rule: on_disk_run)
    case (1 w w')
    from C [OF 1(1,2,4)] 1(5) show ?thesis by simp
  qed
  then show "e = None" "faults (lf_disk x') = []" by simp_all
  show "travels (\<lambda>fs ag. others p s fs = others p s (files (lf_disk x)) \<and> (\<forall>p' s'. gone p' s' (files (lf_disk x)) \<longrightarrow> gone p' s' fs)) x x'"
    by (rule travels_mono [OF on_disk_travels [OF run C [THEN conjunct2, THEN conjunct2]]]) simp_all
qed

end

text \<open>The three removals of a clean-up; each leaves the files of the other two stores alone.\<close>

lemma cleanup_run:
  assumes "cleanupSessionDeletion st p s x = (errs, x')"
  obtains e1 x1 e2 x2 e3 where "on_disk (Forget_record (ls_records st) p s) x = (e1, x1)"
    "on_disk (Forget_objective (ls_objectives st) p s) x1 = (e2, x2)" "on_disk (Forget_queue (ls_queues st) p s) x2 = (e3, x')"
    "errs = [] \<longleftrightarrow> e1 = None \<and> e2 = None \<and> e3 = None"
  using assms by (auto simp: cleanupSessionDeletion_def error_list_def split: prod.splits option.splits)

lemma records_frame:
  assumes "pixie_layout st dir" "untouched (records_own (ls_records st)) fs0 fs"
  shows "agrees (queues_own (ls_queues st)) fs0 fs" "agrees (objective_own (ls_objectives st) p s) fs0 fs"
  using gone_agrees [OF assms] layout_apart [OF assms(1)] by (simp_all add: Int_commute inf_sup_distrib1 Int_Un_distrib)

lemma objective_frame:
  assumes "pixie_layout st dir" "untouched (objective_own (ls_objectives st) p s) fs0 fs"
  shows "agrees (queues_own (ls_queues st)) fs0 fs" "agrees (records_own (ls_records st)) fs0 fs"
proof -
  note a = layout_apart(4) [OF assms(1), of p s]
  show "agrees (queues_own (ls_queues st)) fs0 fs" by (rule gone_agrees(2) [OF assms]) (use a in blast)
  show "agrees (records_own (ls_records st)) fs0 fs" by (rule gone_agrees(1) [OF assms]) (use a in blast)
qed

lemma queues_frame:
  assumes "pixie_layout st dir" "untouched (queues_own (ls_queues st)) fs0 fs"
  shows "agrees (records_own (ls_records st)) fs0 fs" "agrees (objective_own (ls_objectives st) p s) fs0 fs"
proof -
  note a = layout_apart(4) [OF assms(1), of p s]
  show "agrees (records_own (ls_records st)) fs0 fs"
    by (rule gone_agrees(1) [OF assms]) (use layout_apart(1) [OF assms(1)] in blast)
  show "agrees (objective_own (ls_objectives st) p s) fs0 fs" by (rule gone_agrees(3) [OF assms]) (use a in blast)
qed

text \<open>Where a clean-up takes the files.\<close>

definition cleaning :: "life_stores \<Rightarrow> string \<Rightarrow> string \<Rightarrow> filesys \<Rightarrow> filesys \<Rightarrow> bool" where
  "cleaning st p s fs0 fs \<longleftrightarrow> stores_good st fs \<and> untouched (chat_own st p s) fs0 fs"

lemma cleaning_refl: "stores_good st fs \<Longrightarrow> cleaning st p s fs fs"
  by (simp add: cleaning_def)

lemma cleaning_good: "cleaning st p s fs0 fs \<Longrightarrow> stores_good st fs"
  by (simp add: cleaning_def)

lemma cleaning_trans: "cleaning st p s a b \<Longrightarrow> cleaning st p s b c \<Longrightarrow> cleaning st p s a c"
  unfolding cleaning_def using untouched_trans [of "chat_own st p s" a b "chat_own st p s" c] by simp

lemma cleaning_travels:
  "travels (\<lambda>fs ag. ag = lf_agent x \<and> cleaning st p s (files (lf_disk x)) fs) x x1 \<Longrightarrow>
   travels (\<lambda>fs ag. ag = lf_agent x1 \<and> cleaning st p s (files (lf_disk x1)) fs) x1 x2 \<Longrightarrow>
   travels (\<lambda>fs ag. ag = lf_agent x \<and> cleaning st p s (files (lf_disk x)) fs) x x2"
  by (frule travels_final, erule travels_trans, erule travels_mono) (auto intro: cleaning_trans)

lemma records_cleaning:
  assumes lay: "pixie_layout st dir" and good: "stores_good st (files (lf_disk x))"
    and run: "on_disk (Forget_record (ls_records st) p s) x = (e, x')"
  shows "travels (\<lambda>fs ag. ag = lf_agent x \<and> cleaning st p s (files (lf_disk x)) fs) x x'"
proof (rule travels_mono [OF record_store.removal(1) [OF run]])
  show "records_good (ls_records st) (files (lf_disk x))" using good by (simp add: stores_good_def)
next
  fix fs ag assume "ag = lf_agent x \<and> records_good (ls_records st) fs \<and> untouched (records_own (ls_records st)) (files (lf_disk x)) fs"
  then show "ag = lf_agent x \<and> cleaning st p s (files (lf_disk x)) fs"
    using queues_same(1) [OF records_frame(1) [OF lay, of "files (lf_disk x)" fs]] good
    by (auto simp: cleaning_def stores_good_def chat_own_def elim!: untouched_wider)
qed

lemma objective_cleaning:
  assumes lay: "pixie_layout st dir" and good: "stores_good st (files (lf_disk x))"
    and run: "on_disk (Forget_objective (ls_objectives st) p s) x = (e, x')"
  shows "travels (\<lambda>fs ag. ag = lf_agent x \<and> cleaning st p s (files (lf_disk x)) fs) x x'"
proof (rule travels_mono [OF objective_files.removal(1) [OF run TrueI]])
  fix fs ag assume "ag = lf_agent x \<and> True \<and> untouched (objective_own (ls_objectives st) p s) (files (lf_disk x)) fs"
  then have u: "ag = lf_agent x" "untouched (objective_own (ls_objectives st) p s) (files (lf_disk x)) fs" by simp_all
  show "ag = lf_agent x \<and> cleaning st p s (files (lf_disk x)) fs"
    using queues_same(1) [OF objective_frame(1) [OF lay u(2)]] records_same(1) [OF objective_frame(2) [OF lay u(2)]] good u
    by (auto simp: cleaning_def stores_good_def chat_own_def elim!: untouched_wider)
qed

lemma queues_cleaning:
  assumes lay: "pixie_layout st dir" and good: "stores_good st (files (lf_disk x))"
    and run: "on_disk (Forget_queue (ls_queues st) p s) x = (e, x')"
  shows "travels (\<lambda>fs ag. ag = lf_agent x \<and> cleaning st p s (files (lf_disk x)) fs) x x'"
proof (rule travels_mono [OF queue_store.removal(1) [OF run]])
  show "queues_good (ls_queues st) (files (lf_disk x))" using good by (simp add: stores_good_def)
next
  fix fs ag assume "ag = lf_agent x \<and> queues_good (ls_queues st) fs \<and> untouched (queues_own (ls_queues st)) (files (lf_disk x)) fs"
  then show "ag = lf_agent x \<and> cleaning st p s (files (lf_disk x)) fs"
    using records_same(1) [OF queues_frame(1) [OF lay, of "files (lf_disk x)" fs]] good
    by (auto simp: cleaning_def stores_good_def chat_own_def elim!: untouched_wider)
qed

lemma cleanup_safe:
  assumes lay: "pixie_layout st dir" and good: "stores_good st (files (lf_disk x))"
    and run: "cleanupSessionDeletion st p s x = (errs, x')"
  shows "travels (\<lambda>fs ag. ag = lf_agent x \<and> cleaning st p s (files (lf_disk x)) fs) x x'"
    "errs = [] \<Longrightarrow> all_gone st p s (files (lf_disk x'))"
proof -
  from run obtain e1 x1 e2 x2 e3 where r1: "on_disk (Forget_record (ls_records st) p s) x = (e1, x1)"
    and r2: "on_disk (Forget_objective (ls_objectives st) p s) x1 = (e2, x2)"
    and r3: "on_disk (Forget_queue (ls_queues st) p s) x2 = (e3, x')" and e: "errs = [] \<longleftrightarrow> e1 = None \<and> e2 = None \<and> e3 = None"
    by (rule cleanup_run)
  note t1 = records_cleaning [OF lay good r1]
  have g1: "stores_good st (files (lf_disk x1))" using travels_final [OF t1] cleaning_good by blast
  note t2 = objective_cleaning [OF lay g1 r2]
  have g2: "stores_good st (files (lf_disk x2))" using travels_final [OF t2] cleaning_good by blast
  note t3 = queues_cleaning [OF lay g2 r3]
  show "travels (\<lambda>fs ag. ag = lf_agent x \<and> cleaning st p s (files (lf_disk x)) fs) x x'"
    using cleaning_travels [OF cleaning_travels [OF t1 t2] t3] .
  show "all_gone st p s (files (lf_disk x'))" if "errs = []"
  proof -
    have q2: "queues_good (ls_queues st) (files (lf_disk x2))" "records_good (ls_records st) (files (lf_disk x))"
      using g2 good by (simp_all add: stores_good_def)
    have n: "e1 = None" "e2 = None" "e3 = None" using that e by simp_all
    have u2: "untouched (objective_own (ls_objectives st) p s) (files (lf_disk x1)) (files (lf_disk x2))"
      using travels_final [OF objective_files.removal(1) [OF r2 TrueI]] by simp
    have u3: "untouched (queues_own (ls_queues st)) (files (lf_disk x2)) (files (lf_disk x'))"
      using travels_final [OF queue_store.removal(1) [OF r3 q2(1)]] by simp
    have "queues_gone (ls_queues st) p s (files (lf_disk x'))" by (rule queue_store.removal(2) [OF r3 q2(1) n(3)])
    moreover have "objective_gone (ls_objectives st) p s (files (lf_disk x'))"
      using objective_files.removal(2) [OF r2 TrueI n(2)] objective_same [OF queues_frame(2) [OF lay u3]] by simp
    moreover have "records_gone (ls_records st) p s (files (lf_disk x'))"
      using record_store.removal(2) [OF r1 q2(2) n(1)] records_same(2) [OF objective_frame(2) [OF lay u2]]
        records_same(2) [OF queues_frame(1) [OF lay u3]] by simp
    ultimately show ?thesis by (simp add: all_gone_def)
  qed
qed

text \<open>An undisturbed clean-up succeeds, and what is said of other chats holds on.\<close>

lemma records_undisturbed:
  assumes lay: "pixie_layout st dir" and good: "stores_good st (files (lf_disk x))" and t: "target p s"
    and quiet: "faults (lf_disk x) = []" and run: "on_disk (Forget_record (ls_records st) p s) x = (e, x')"
  shows "e = None" "faults (lf_disk x') = []" "travels (\<lambda>fs ag. others_same st p s (files (lf_disk x)) fs) x x'"
proof -
  have g: "records_good (ls_records st) (files (lf_disk x))" using good by (simp add: stores_good_def)
  note calm = record_store.removal_calm [OF run g quiet t]
  show "e = None" "faults (lf_disk x') = []" by (rule calm)+
  have S: "others_same st p s (files (lf_disk x)) fs"
    if u: "untouched (records_own (ls_records st)) (files (lf_disk x)) fs"
      and o: "records_others (ls_records st) p s fs = records_others (ls_records st) p s (files (lf_disk x))"
        "\<forall>p' s'. records_gone (ls_records st) p' s' (files (lf_disk x)) \<longrightarrow> records_gone (ls_records st) p' s' fs" for fs
    using o queues_same [OF records_frame(1) [OF lay u]] objective_same [OF records_frame(2) [OF lay u]]
    by (simp add: others_same_def all_gone_def)
  show "travels (\<lambda>fs ag. others_same st p s (files (lf_disk x)) fs) x x'"
    by (rule travels_mono [OF travels_both [OF record_store.removal(1) [OF run g] calm(3)]]) (use S in blast)
qed

lemma objective_undisturbed:
  assumes lay: "pixie_layout st dir" and t: "target p s"
    and quiet: "faults (lf_disk x) = []" and run: "on_disk (Forget_objective (ls_objectives st) p s) x = (e, x')"
  shows "e = None" "faults (lf_disk x') = []" "travels (\<lambda>fs ag. others_same st p s (files (lf_disk x)) fs) x x'"
proof -
  note calm = objective_files.removal_calm [OF run TrueI quiet t]
  show "e = None" "faults (lf_disk x') = []" by (rule calm)+
  have S: "others_same st p s (files (lf_disk x)) fs"
    if u: "untouched (objective_own (ls_objectives st) p s) (files (lf_disk x)) fs"
      and o: "\<forall>p' s'. objective_gone (ls_objectives st) p' s' (files (lf_disk x)) \<longrightarrow> objective_gone (ls_objectives st) p' s' fs" for fs
    using o queues_same [OF objective_frame(1) [OF lay u]] records_same [OF objective_frame(2) [OF lay u]]
    by (simp add: others_same_def all_gone_def)
  show "travels (\<lambda>fs ag. others_same st p s (files (lf_disk x)) fs) x x'"
    by (rule travels_mono [OF travels_both [OF objective_files.removal(1) [OF run TrueI] calm(3)]]) (use S in blast)
qed

lemma queues_undisturbed:
  assumes lay: "pixie_layout st dir" and good: "stores_good st (files (lf_disk x))" and t: "target p s"
    and quiet: "faults (lf_disk x) = []" and run: "on_disk (Forget_queue (ls_queues st) p s) x = (e, x')"
  shows "e = None" "faults (lf_disk x') = []" "travels (\<lambda>fs ag. others_same st p s (files (lf_disk x)) fs) x x'"
proof -
  have g: "queues_good (ls_queues st) (files (lf_disk x))" using good by (simp add: stores_good_def)
  note calm = queue_store.removal_calm [OF run g quiet t]
  show "e = None" "faults (lf_disk x') = []" by (rule calm)+
  have S: "others_same st p s (files (lf_disk x)) fs"
    if u: "untouched (queues_own (ls_queues st)) (files (lf_disk x)) fs"
      and o: "queues_others (ls_queues st) p s fs = queues_others (ls_queues st) p s (files (lf_disk x))"
        "\<forall>p' s'. queues_gone (ls_queues st) p' s' (files (lf_disk x)) \<longrightarrow> queues_gone (ls_queues st) p' s' fs" for fs
    using o records_same [OF queues_frame(1) [OF lay u]] objective_same [OF queues_frame(2) [OF lay u]]
    by (simp add: others_same_def all_gone_def)
  show "travels (\<lambda>fs ag. others_same st p s (files (lf_disk x)) fs) x x'"
    by (rule travels_mono [OF travels_both [OF queue_store.removal(1) [OF run g] calm(3)]]) (use S in blast)
qed

lemma others_travels:
  "travels (\<lambda>fs ag. others_same st p s (files (lf_disk x)) fs) x x1 \<Longrightarrow>
   travels (\<lambda>fs ag. others_same st p s (files (lf_disk x1)) fs) x1 x2 \<Longrightarrow>
   travels (\<lambda>fs ag. others_same st p s (files (lf_disk x)) fs) x x2"
  by (frule travels_final, erule travels_trans, erule travels_mono) (auto intro: others_same_trans)

lemma cleanup_undisturbed:
  assumes lay: "pixie_layout st dir" and good: "stores_good st (files (lf_disk x))" and t: "target p s"
    and quiet: "faults (lf_disk x) = []" and run: "cleanupSessionDeletion st p s x = (errs, x')"
  shows "errs = []" "faults (lf_disk x') = []" "travels (\<lambda>fs ag. others_same st p s (files (lf_disk x)) fs) x x'"
proof -
  from run obtain e1 x1 e2 x2 e3 where r1: "on_disk (Forget_record (ls_records st) p s) x = (e1, x1)"
    and r2: "on_disk (Forget_objective (ls_objectives st) p s) x1 = (e2, x2)"
    and r3: "on_disk (Forget_queue (ls_queues st) p s) x2 = (e3, x')" and e: "errs = [] \<longleftrightarrow> e1 = None \<and> e2 = None \<and> e3 = None"
    by (rule cleanup_run)
  have g1: "stores_good st (files (lf_disk x1))"
    using travels_final [OF records_cleaning [OF lay good r1]] cleaning_good by blast
  have g2: "stores_good st (files (lf_disk x2))"
    using travels_final [OF objective_cleaning [OF lay g1 r2]] cleaning_good by blast
  note c1 = records_undisturbed [OF lay good t quiet r1]
  note c2 = objective_undisturbed [OF lay t c1(2) r2]
  note c3 = queues_undisturbed [OF lay g2 t c2(2) r3]
  show "errs = []" using e c1(1) c2(1) c3(1) by simp
  show "faults (lf_disk x') = []" by (rule c3(2))
  show "travels (\<lambda>fs ag. others_same st p s (files (lf_disk x)) fs) x x'"
    by (rule others_travels [OF others_travels [OF c1(3) c2(3)] c3(3)])
qed

end
