(* ===== verification/ChatDeletionSafety.thy ===== *)
theory ChatDeletionSafety
  imports ChatStores
begin

text \<open>
  The deletion of a chat at every moment a crash could hit it: nothing of the chat has been removed, or the journal
  holds an entry from which the next start completes the removal, or the removal is complete. And the next start
  completes what is in the journal.
\<close>

section \<open>Deletion\<close>

text \<open>A confirmed entry belongs to a chat the agent no longer has.\<close>

definition honest :: "sessionDeletion list \<Rightarrow> string list \<Rightarrow> bool" where
  "honest js agent \<longleftrightarrow> (\<forall>s p b. abs_deletions js s = Some (p, b, True) \<longrightarrow> s \<notin> set agent)"

text \<open>The next start can go on from here: all stores can be read, and every change of the journal it may need can be saved.\<close>

definition recoverable :: "life_stores \<Rightarrow> filesys \<Rightarrow> string list \<Rightarrow> bool" where
  "recoverable st fs agent \<longleftrightarrow> stores_good st fs \<and> (\<exists>js. journal st fs = Some js \<and> journal_fits st js \<and> honest js agent)"

definition journalled :: "life_stores \<Rightarrow> filesys \<Rightarrow> string \<Rightarrow> (string \<times> string \<times> bool) option" where
  "journalled st fs s = (case journal st fs of None \<Rightarrow> None | Some js \<Rightarrow> abs_deletions js s)"

text \<open>The three ways a deletion can stand.\<close>

definition complete :: "life_stores \<Rightarrow> string \<Rightarrow> string \<Rightarrow> filesys \<Rightarrow> string list \<Rightarrow> bool" where
  "complete st p s fs agent \<longleftrightarrow> all_gone st p s fs \<and> s \<notin> set agent \<and> journalled st fs s = None"

definition kept :: "life_stores \<Rightarrow> string \<Rightarrow> string \<Rightarrow> filesys \<Rightarrow> string list \<Rightarrow> filesys \<Rightarrow> string list \<Rightarrow> bool" where
  "kept st p s fs0 agent0 fs agent \<longleftrightarrow> agrees (chat_own st p s) fs0 fs \<and> agent = agent0
     \<and> journalled st fs s = journalled st fs0 s"

definition resumable :: "life_stores \<Rightarrow> string \<Rightarrow> string \<Rightarrow> filesys \<Rightarrow> bool" where
  "resumable st p s fs \<longleftrightarrow> (\<exists>b c. journalled st fs s = Some (p, b, c))"

lemma fits_next:
  "journal_fits st js \<Longrightarrow> journal_fits st (deletion_next (DoConfirm p s) js)"
  "journal_fits st js \<Longrightarrow> journal_fits st (deletion_next (DoForget p s) js)"
  using fits_less confirm_progressed filter_progressed by (auto split: option.splits)

lemma journalled_Some: "journal st fs = Some js \<Longrightarrow> journalled st fs = abs_deletions js"
  by (simp add: journalled_def fun_eq_iff)

lemma recoverable_journal: "recoverable st fs agent \<Longrightarrow> \<exists>js. journal st fs = Some js \<and> journalled st fs = abs_deletions js
    \<and> journal_fits st js \<and> honest js agent \<and> stores_good st fs"
  using journalled_Some by (auto simp: recoverable_def)

lemma journal_run:
  assumes now: "journal st (files (lf_disk x)) = Some js" and fits: "journal_fits st (deletion_next op js)"
    and run: "on_disk (deletion_step (ls_codec st) (ls_file st) (fst (ls_temps st)) (snd (ls_temps st)) op) x = (e, x')"
  shows "travels (\<lambda>fs ag. ag = lf_agent x \<and> journal_step st op js (files (lf_disk x)) fs) x x'"
    "e = None \<Longrightarrow> \<exists>js'. journal st (files (lf_disk x')) = Some js' \<and> spec_step op (abs_deletions js) = Some (abs_deletions js')"
proof -
  note ex = encodes_exact [OF fits_encodes [OF fits]]
  have out: "op_outcome (ls_codec st) (ls_file st) (fst (ls_temps st)) (snd (ls_temps st)) op js w e w'"
    if "files w = files (lf_disk x)"
      "deletion_step (ls_codec st) (ls_file st) (fst (ls_temps st)) (snd (ls_temps st)) op w = (e, w')" for w w'
    using deletion_step_outcome [OF _ that(2)] now that(1) by (simp add: journal_def)
  have ps: "passes (journal_step st op js (files (lf_disk x))) w w'"
    if w: "files w = files (lf_disk x)"
      "deletion_step (ls_codec st) (ls_file st) (fst (ls_temps st)) (snd (ls_temps st)) op w = (e, w')" for w w'
    using journal_outcome(1) [OF out [OF w] _ ex] now w(1) by simp
  show "travels (\<lambda>fs ag. ag = lf_agent x \<and> journal_step st op js (files (lf_disk x)) fs) x x'"
    by (rule travels_mono [OF on_disk_travels [OF run ps]]) simp_all
  show "\<exists>js'. journal st (files (lf_disk x')) = Some js' \<and> spec_step op (abs_deletions js) = Some (abs_deletions js')" if "e = None"
    using run
  proof (cases rule: on_disk_run)
    case (1 w w')
    from journal_outcome(2) [OF out [OF 1(1,4)] _ ex that] now 1(1,5) show ?thesis by auto
  qed
qed

lemma journal_ops:
  "journal_request st p s b = deletion_step (ls_codec st) (ls_file st) (fst (ls_temps st)) (snd (ls_temps st)) (DoRequest p s b)"
  "journal_confirm st p s = deletion_step (ls_codec st) (ls_file st) (fst (ls_temps st)) (snd (ls_temps st)) (DoConfirm p s)"
  "journal_forget st p s = deletion_step (ls_codec st) (ls_file st) (fst (ls_temps st)) (snd (ls_temps st)) (DoForget p s)"
  by (simp_all add: fun_eq_iff journal_request_def journal_confirm_def journal_forget_def)

text \<open>What a step of the journal leaves of the stores.\<close>

lemma journal_step_good:
  assumes lay: "pixie_layout st dir" and step: "journal_step st op js fs0 fs" and good: "stores_good st fs0"
  shows "stores_good st fs" "agrees (chat_own st p s) fs0 fs"
proof -
  have u: "untouched (journal_own st) fs0 fs" using step by (simp add: journal_step_def)
  note a = layout_apart [OF lay]
  have r: "agrees (records_own (ls_records st)) fs0 fs" by (rule gone_agrees(1) [OF lay u]) (use a(2) in blast)
  have q: "agrees (queues_own (ls_queues st)) fs0 fs" by (rule gone_agrees(2) [OF lay u]) (use a(3) in blast)
  have o: "agrees (objective_own (ls_objectives st) p s) fs0 fs" by (rule gone_agrees(3) [OF lay u]) (use a(4) in blast)
  show "stores_good st fs" using good records_same(1) [OF r] queues_same(1) [OF q] by (simp add: stores_good_def)
  show "agrees (chat_own st p s) fs0 fs" using r q o by (auto simp: agrees_def chat_own_def)
qed

lemma all_gone_agrees: "agrees (chat_own st p s) fs0 fs \<Longrightarrow> all_gone st p s fs0 = all_gone st p s fs"
proof -
  assume a: "agrees (chat_own st p s) fs0 fs"
  have "agrees (records_own (ls_records st)) fs0 fs" "agrees (queues_own (ls_queues st)) fs0 fs"
    "agrees (objective_own (ls_objectives st) p s) fs0 fs" using a by (auto simp: agrees_def chat_own_def)
  then show ?thesis by (simp add: all_gone_def records_same(2) queues_same(2) objective_same)
qed

lemma journal_step_others:
  assumes lay: "pixie_layout st dir" and step: "journal_step st op js fs0 fs" and good: "stores_good st fs0"
  shows "others_same st p s fs0 fs"
proof -
  note a = journal_step_good(2) [OF lay step good]
  have "agrees (records_own (ls_records st)) fs0 fs" "agrees (queues_own (ls_queues st)) fs0 fs"
    using a [of p s] by (auto simp: agrees_def chat_own_def)
  with all_gone_agrees [OF a] show ?thesis by (simp add: others_same_def records_same(3) queues_same(3))
qed

text \<open>A deletion on its way: the stores are usable, and the journal holds its entry and those of the others.\<close>

definition going :: "life_stores \<Rightarrow> string \<Rightarrow> string \<Rightarrow> deletion_map \<Rightarrow> string list \<Rightarrow> filesys \<Rightarrow> string list \<Rightarrow> bool" where
  "going st p s j0 a0 fs agent \<longleftrightarrow> recoverable st fs agent \<and> resumable st p s fs
     \<and> (\<forall>s'. s' \<noteq> s \<longrightarrow> journalled st fs s' = j0 s') \<and> removeAll s agent = removeAll s a0"

lemma goingD:
  assumes "going st p s j0 a0 fs agent"
  shows "\<exists>js b c. journal st fs = Some js \<and> journalled st fs = abs_deletions js \<and> journal_fits st js \<and> honest js agent
     \<and> stores_good st fs \<and> abs_deletions js s = Some (p, b, c)"
  using assms recoverable_journal [of st fs agent] unfolding going_def resumable_def by metis

lemma agent_going:
  assumes g: "going st p s j0 a0 (files (lf_disk x)) (lf_agent x)" and x': "x' = agent_delete s reply x"
  shows "travels (going st p s j0 a0) x x'" "files (lf_disk x') = files (lf_disk x)" "faults (lf_disk x') = faults (lf_disk x)"
    "\<not> reply_failed reply \<Longrightarrow> s \<notin> set (lf_agent x')"
proof -
  have r: "going st p s j0 a0 (files (lf_disk x)) (removeAll s (lf_agent x))"
  proof -
    have "recoverable st (files (lf_disk x)) (removeAll s (lf_agent x))"
      using g unfolding going_def recoverable_def honest_def set_removeAll by blast
    with g show ?thesis by (simp add: going_def)
  qed
  show "travels (going st p s j0 a0) x x'" using g r by (simp add: x' agent_delete_def travels_def)
  show "files (lf_disk x') = files (lf_disk x)" "faults (lf_disk x') = faults (lf_disk x)" by (simp_all add: x' agent_delete_def)
  show "\<not> reply_failed reply \<Longrightarrow> s \<notin> set (lf_agent x')"
    by (cases reply) (simp_all add: x' agent_delete_def reply_failed_def)
qed

lemma confirm_going:
  assumes lay: "pixie_layout st dir" and g: "going st p s j0 a0 (files (lf_disk x)) (lf_agent x)" and a: "s \<notin> set (lf_agent x)"
    and run: "on_disk (journal_confirm st p s) x = (e, x')"
  shows "travels (\<lambda>fs ag. ag = lf_agent x \<and> others_same st p s (files (lf_disk x)) fs \<and> going st p s j0 a0 fs ag) x x'"
proof -
  from goingD [OF g] obtain js b c where js: "journal st (files (lf_disk x)) = Some js" "journal_fits st js"
    "honest js (lf_agent x)" "stores_good st (files (lf_disk x))" "abs_deletions js s = Some (p, b, c)"
    "journalled st (files (lf_disk x)) = abs_deletions js" by blast
  have S: "going st p s j0 a0 fs (lf_agent x)" if step: "journal_step st (DoConfirm p s) js (files (lf_disk x)) fs" for fs
  proof -
    have "journal st fs = Some js \<or> journal st fs = Some (deletion_next (DoConfirm p s) js)
      \<and> spec_confirm p s (abs_deletions js) = Some (abs_deletions (deletion_next (DoConfirm p s) js))"
      using step by (auto simp: journal_step_def)
    then obtain js' where j: "journal st fs = Some js'" "journal_fits st js'"
      "abs_deletions js' = abs_deletions js \<or> spec_confirm p s (abs_deletions js) = Some (abs_deletions js')"
      using fits_next(1) [OF js(2), of p s] js(2) by blast
    have "abs_deletions js' = abs_deletions js \<or> abs_deletions js' = (abs_deletions js)(s \<mapsto> (p, b, True))"
      using j(3) js(5) by (auto simp: spec_confirm_def)
    with a js(3,5) have "honest js' (lf_agent x)" "\<exists>c. abs_deletions js' s = Some (p, b, c)"
      "\<forall>s'. s' \<noteq> s \<longrightarrow> abs_deletions js' s' = abs_deletions js s'" by (auto simp: honest_def split: if_splits)
    with g j journal_step_good(1) [OF lay step js(4)] js(6) show ?thesis
      by (auto simp: going_def recoverable_def resumable_def journalled_Some)
  qed
  have "on_disk (deletion_step (ls_codec st) (ls_file st) (fst (ls_temps st)) (snd (ls_temps st)) (DoConfirm p s)) x = (e, x')"
    using run by (simp add: journal_ops)
  note t = journal_run(1) [OF js(1) fits_next(1) [OF js(2)] this]
  show ?thesis by (rule travels_mono [OF t]) (use S journal_step_others [OF lay _ js(4)] in blast)
qed

lemma cleaning_journal:
  assumes lay: "pixie_layout st dir" and c: "cleaning st p s fs0 fs"
  shows "journal st fs = journal st fs0" "journalled st fs = journalled st fs0"
proof -
  have u: "untouched (chat_own st p s) fs0 fs" using c by (simp add: cleaning_def)
  have "chat_own st p s \<inter> journal_own st = {}" using layout_apart(2,3,4) [OF lay] unfolding chat_own_def by blast
  from journal_agrees [OF gone_agrees(4) [OF lay u this]]
  show "journal st fs = journal st fs0" "journalled st fs = journalled st fs0" by (simp_all add: journalled_def fun_eq_iff)
qed

lemma cleanup_going:
  assumes lay: "pixie_layout st dir" and g: "going st p s j0 a0 (files (lf_disk x)) (lf_agent x)"
    and run: "cleanupSessionDeletion st p s x = (errs, x')"
  shows "travels (\<lambda>fs ag. ag = lf_agent x \<and> going st p s j0 a0 fs ag) x x'"
proof -
  have good: "stores_good st (files (lf_disk x))" using goingD [OF g] by blast
  have "going st p s j0 a0 fs (lf_agent x)" if "cleaning st p s (files (lf_disk x)) fs" for fs
    using g cleaning_journal [OF lay that] cleaning_good [OF that] by (simp add: going_def recoverable_def resumable_def)
  then show ?thesis by (intro travels_mono [OF cleanup_safe(1) [OF lay good run]]) blast
qed

text \<open>The last step: the entry is in the journal, or the deletion is complete.\<close>

definition finishing :: "life_stores \<Rightarrow> string \<Rightarrow> string \<Rightarrow> deletion_map \<Rightarrow> string list \<Rightarrow> filesys \<Rightarrow> string list \<Rightarrow> bool" where
  "finishing st p s j0 a0 fs agent \<longleftrightarrow> recoverable st fs agent \<and> (resumable st p s fs \<or> complete st p s fs agent)
     \<and> (\<forall>s'. s' \<noteq> s \<longrightarrow> journalled st fs s' = j0 s') \<and> removeAll s agent = removeAll s a0"

lemma going_finishing: "going st p s j0 a0 fs agent \<Longrightarrow> finishing st p s j0 a0 fs agent"
  by (simp add: going_def finishing_def)

lemma forget_going:
  assumes lay: "pixie_layout st dir" and g: "going st p s j0 a0 (files (lf_disk x)) (lf_agent x)" and a: "s \<notin> set (lf_agent x)"
    and gone: "all_gone st p s (files (lf_disk x))" and run: "on_disk (journal_forget st p s) x = (e, x')"
  shows "travels (\<lambda>fs ag. ag = lf_agent x \<and> others_same st p s (files (lf_disk x)) fs \<and> finishing st p s j0 a0 fs ag) x x'"
    "e = None \<Longrightarrow> complete st p s (files (lf_disk x')) (lf_agent x')"
proof -
  from goingD [OF g] obtain js b c where js: "journal st (files (lf_disk x)) = Some js" "journal_fits st js"
    "honest js (lf_agent x)" "stores_good st (files (lf_disk x))" "abs_deletions js s = Some (p, b, c)"
    "journalled st (files (lf_disk x)) = abs_deletions js" by blast
  have forget: "spec_step (DoForget p s) (abs_deletions js) = Some ((abs_deletions js)(s := None))"
    using js(5) by (simp add: spec_forget_def)
  have S: "finishing st p s j0 a0 fs (lf_agent x)" if step: "journal_step st (DoForget p s) js (files (lf_disk x)) fs" for fs
  proof -
    have "journal st fs = Some js \<or> journal st fs = Some (deletion_next (DoForget p s) js)
      \<and> spec_step (DoForget p s) (abs_deletions js) = Some (abs_deletions (deletion_next (DoForget p s) js))"
      using step unfolding journal_step_def by blast
    then obtain js' where j: "journal st fs = Some js'" "journal_fits st js'"
      "abs_deletions js' = abs_deletions js \<or> abs_deletions js' = (abs_deletions js)(s := None)"
      using fits_next(2) [OF js(2), of p s] js(2) forget by force
    have g': "all_gone st p s fs" using all_gone_agrees [OF journal_step_good(2) [OF lay step js(4)]] gone by simp
    have h: "honest js' (lf_agent x)" using js(3) j(3) by (auto simp: honest_def split: if_splits)
    have o: "\<forall>s'. s' \<noteq> s \<longrightarrow> abs_deletions js' s' = j0 s'" using j(3) g js(6) by (auto simp: going_def)
    have "resumable st p s fs \<or> complete st p s fs (lf_agent x)"
      using j(1,3) js(5) a g' by (auto simp: resumable_def complete_def journalled_Some)
    with g j(1,2) h o journal_step_good(1) [OF lay step js(4)] show ?thesis
      by (auto simp: finishing_def going_def recoverable_def journalled_Some)
  qed
  have run': "on_disk (deletion_step (ls_codec st) (ls_file st) (fst (ls_temps st)) (snd (ls_temps st)) (DoForget p s)) x = (e, x')"
    using run by (simp add: journal_ops)
  note t = journal_run [OF js(1) fits_next(2) [OF js(2)] run']
  show "travels (\<lambda>fs ag. ag = lf_agent x \<and> others_same st p s (files (lf_disk x)) fs \<and> finishing st p s j0 a0 fs ag) x x'"
    by (rule travels_mono [OF t(1)]) (use S journal_step_others [OF lay _ js(4)] in blast)
  show "complete st p s (files (lf_disk x')) (lf_agent x')" if no: "e = None"
  proof -
    obtain js' where "journal st (files (lf_disk x')) = Some js'" "(abs_deletions js)(s := None) = abs_deletions js'"
      using t(2) [OF no] forget by auto
    then have "journal st (files (lf_disk x')) = Some js'" "abs_deletions js' s = None" by (simp, metis fun_upd_same)
    moreover from travels_final [OF t(1)] have "lf_agent x' = lf_agent x" "all_gone st p s (files (lf_disk x'))"
      using all_gone_agrees [OF journal_step_good(2) [OF lay _ js(4)]] gone by blast+
    ultimately show ?thesis using a by (simp add: complete_def journalled_Some)
  qed
qed

text \<open>The request: the chat is as before, or its deletion can be resumed.\<close>

definition standing ::
  "life_stores \<Rightarrow> string \<Rightarrow> string \<Rightarrow> filesys \<Rightarrow> string list \<Rightarrow> filesys \<Rightarrow> string list \<Rightarrow> bool" where
  "standing st p s fs0 agent0 fs agent \<longleftrightarrow> recoverable st fs agent
     \<and> (kept st p s fs0 agent0 fs agent \<or> resumable st p s fs \<or> complete st p s fs agent)
     \<and> (\<forall>s'. s' \<noteq> s \<longrightarrow> journalled st fs s' = journalled st fs0 s') \<and> removeAll s agent = removeAll s agent0"

lemma finishing_standing: "finishing st p s (journalled st fs0) a0 fs agent \<Longrightarrow> standing st p s fs0 a0 fs agent"
  by (auto simp: finishing_def standing_def)

lemma standing_refl: "recoverable st fs agent \<Longrightarrow> standing st p s fs agent fs agent"
  by (simp add: standing_def kept_def)

definition requested_deletion :: "string \<Rightarrow> string \<Rightarrow> string \<Rightarrow> sessionDeletion" where
  "requested_deletion p s b = \<lparr>projectID = p, sessionID = s, agentBinding = b, phase = Requested\<rparr>"

lemma request_standing:
  assumes lay: "pixie_layout st dir" and rec: "recoverable st (files (lf_disk x)) (lf_agent x)"
    and js: "journal st (files (lf_disk x)) = Some js" and fits: "journal_fits st (js @ [requested_deletion p s b])"
    and run: "on_disk (journal_request st p s b) x = (e, x')"
  shows "travels (standing st p s (files (lf_disk x)) (lf_agent x)) x x'"
    "e = None \<Longrightarrow> going st p s (journalled st (files (lf_disk x))) (lf_agent x) (files (lf_disk x')) (lf_agent x')"
proof -
  from rec js have g: "stores_good st (files (lf_disk x))" "journal_fits st js" "honest js (lf_agent x)"
    by (auto simp: recoverable_def)
  have nx: "deletion_next (DoRequest p s b) js = js @ [requested_deletion p s b]" by (simp add: requested_deletion_def)
  have run': "on_disk (deletion_step (ls_codec st) (ls_file st) (fst (ls_temps st)) (snd (ls_temps st)) (DoRequest p s b)) x = (e, x')"
    using run by (simp add: journal_ops)
  note t = journal_run [OF js _ run', unfolded nx, OF fits]
  have spec: "(\<exists>c. abs_deletions js' s = Some (p, b, c)) \<and> (\<forall>s'. s' \<noteq> s \<longrightarrow> abs_deletions js' s' = abs_deletions js s')
      \<and> honest js' (lf_agent x)" if sp: "spec_step (DoRequest p s b) (abs_deletions js) = Some (abs_deletions js')" for js'
  proof (cases "abs_deletions js s")
    case None
    then have a: "abs_deletions js' = (abs_deletions js)(s \<mapsto> (p, b, False))" using sp by (simp add: spec_request_def)
    with g(3) show ?thesis by (auto simp: honest_def split: if_splits)
  next
    case (Some v)
    then have "fst v = p" "fst (snd v) = b" "abs_deletions js' = abs_deletions js"
      using sp by (auto simp: spec_request_def split: prod.splits if_splits)
    with Some g(3) show ?thesis by (cases v) (simp add: honest_def)
  qed
  have S: "standing st p s (files (lf_disk x)) (lf_agent x) fs (lf_agent x)"
    if step: "journal_step st (DoRequest p s b) js (files (lf_disk x)) fs" for fs
  proof -
    have "journal st fs = Some js \<or> journal st fs = Some (js @ [requested_deletion p s b])
      \<and> spec_step (DoRequest p s b) (abs_deletions js) = Some (abs_deletions (js @ [requested_deletion p s b]))"
      using step unfolding journal_step_def nx by blast
    then obtain js' where j: "journal st fs = Some js'" "journal_fits st js'" "honest js' (lf_agent x)"
      "\<forall>s'. s' \<noteq> s \<longrightarrow> abs_deletions js' s' = abs_deletions js s'"
      "abs_deletions js' s = abs_deletions js s \<or> (\<exists>c. abs_deletions js' s = Some (p, b, c))"
      using g(2,3) fits spec by blast
    with journal_step_good(1) [OF lay step g(1)] journal_step_good(2) [OF lay step g(1), of p s] show ?thesis
      by (auto simp: standing_def kept_def resumable_def recoverable_def journalled_Some [OF j(1)] journalled_Some [OF js])
  qed
  show "travels (standing st p s (files (lf_disk x)) (lf_agent x)) x x'"
    by (rule travels_mono [OF t(1)]) (use S in blast)
  show "going st p s (journalled st (files (lf_disk x))) (lf_agent x) (files (lf_disk x')) (lf_agent x')" if no: "e = None"
  proof -
    obtain js' where j: "journal st (files (lf_disk x')) = Some js'"
      "spec_step (DoRequest p s b) (abs_deletions js) = Some (abs_deletions js')" using t(2) [OF no] by blast
    from travels_final [OF t(1)] have f: "lf_agent x' = lf_agent x" "standing st p s (files (lf_disk x)) (lf_agent x) (files (lf_disk x')) (lf_agent x)"
      using S by blast+
    from spec [OF j(2)] have "resumable st p s (files (lf_disk x'))" by (auto simp: resumable_def journalled_Some [OF j(1)])
    with f show ?thesis by (simp add: going_def standing_def)
  qed
qed

text \<open>From the confirmation of the agent on.\<close>

lemma delete_everywhere_finishing:
  assumes lay: "pixie_layout st dir" and g: "going st p s j0 a0 (files (lf_disk x)) (lf_agent x)" and a: "s \<notin> set (lf_agent x)"
    and run: "delete_everywhere st p s x = (errs, x')"
  shows "travels (finishing st p s j0 a0) x x'" "errs = [] \<Longrightarrow> complete st p s (files (lf_disk x')) (lf_agent x')"
proof -
  obtain e1 x1 where r1: "on_disk (journal_confirm st p s) x = (e1, x1)" by force
  let ?y = "x1\<lparr>lf_sessions := removeAll s (lf_sessions x1)\<rparr>"
  obtain e2 x2 where r2: "cleanupSessionDeletion st p s ?y = (e2, x2)" by force
  note t1 = confirm_going [OF lay g a r1]
  have g1: "going st p s j0 a0 (files (lf_disk ?y)) (lf_agent ?y)" "s \<notin> set (lf_agent ?y)"
    using conjunct2 [OF conjunct2 [OF travels_final [OF t1]]] conjunct1 [OF travels_final [OF t1]] a by auto
  note t2 = cleanup_going [OF lay g1(1) r2]
  have g2: "going st p s j0 a0 (files (lf_disk x2)) (lf_agent x2)" "s \<notin> set (lf_agent x2)"
    using conjunct2 [OF travels_final [OF t2]] conjunct1 [OF travels_final [OF t2]] g1(2) by auto
  have same: "travels Q x ?y \<longleftrightarrow> travels Q x x1" for Q by (simp add: travels_def)
  have T1: "travels (finishing st p s j0 a0) x ?y"
    unfolding same by (rule travels_mono [OF t1]) (use going_finishing in blast)
  have "travels (finishing st p s j0 a0) ?y x2" by (rule travels_mono [OF t2]) (use going_finishing in blast)
  with T1 have T2: "travels (finishing st p s j0 a0) x x2" by (rule travels_trans)
  show "travels (finishing st p s j0 a0) x x'" "errs = [] \<Longrightarrow> complete st p s (files (lf_disk x')) (lf_agent x')"
  proof (atomize (full), cases "e1 = None \<and> e2 = []")
    case False
    then have "errs \<noteq> []" "lf_disk x' = lf_disk x2" "lf_agent x' = lf_agent x2" "lf_points x' = lf_points x2"
      using run r1 r2 by (auto simp: delete_everywhere_def error_list_def Let_def split: option.splits)
    with T2 show "travels (finishing st p s j0 a0) x x' \<and> (errs = [] \<longrightarrow> complete st p s (files (lf_disk x')) (lf_agent x'))"
      by (simp add: travels_def)
  next
    case True
    obtain e3 x3 where r3: "on_disk (journal_forget st p s) x2 = (e3, x3)" by force
    have f: "errs = error_list FinishFailed e3" "lf_disk x' = lf_disk x3" "lf_agent x' = lf_agent x3" "lf_points x' = lf_points x3"
      using run r1 r2 r3 True by (auto simp: delete_everywhere_def error_list_def Let_def)
    have "stores_good st (files (lf_disk ?y))" using goingD [OF g1(1)] by blast
    from cleanup_safe(2) [OF lay this r2] True have gone: "all_gone st p s (files (lf_disk x2))" by simp
    note t3 = forget_going [OF lay g2 gone r3]
    have "travels (finishing st p s j0 a0) x2 x3" by (rule travels_mono [OF t3(1)]) blast
    with T2 have "travels (finishing st p s j0 a0) x x3" by (rule travels_trans)
    moreover have "errs = [] \<longrightarrow> complete st p s (files (lf_disk x3)) (lf_agent x3)"
      using t3(2) f(1) by (auto simp: error_list_def split: option.splits)
    ultimately show "travels (finishing st p s j0 a0) x x' \<and> (errs = [] \<longrightarrow> complete st p s (files (lf_disk x')) (lf_agent x'))"
      using f by (simp add: travels_def)
  qed
qed

lemma delete_reserved_standing:
  assumes lay: "pixie_layout st dir" and rec: "recoverable st (files (lf_disk x)) (lf_agent x)"
    and js: "journal st (files (lf_disk x)) = Some js"
    and fits: "\<And>profile b. de_profile env = Inr profile \<Longrightarrow> de_binding env profile = Inr b \<Longrightarrow> journal_fits st (js @ [requested_deletion p s b])"
    and run: "delete_reserved st env p s x = (errs, x')"
  shows "travels (standing st p s (files (lf_disk x)) (lf_agent x)) x x'
    \<and> (errs = [] \<longrightarrow> complete st p s (files (lf_disk x')) (lf_agent x'))"
proof -
  let ?Q = "standing st p s (files (lf_disk x)) (lf_agent x)"
  note stay = standing_refl [OF rec, of p s]
  have quit: "travels ?Q x (finish_lifecycle s x)" using stay by (simp add: travels_def finish_lifecycle_def)
  consider "errs \<noteq> []" "x' = finish_lifecycle s x"
    | profile b where "de_profile env = Inr profile" "DeleteSession (pr_Operations profile)" "de_attach env = None" "de_binding env profile = Inr b"
    using run by (auto simp: delete_reserved_def split: sum.splits if_splits option.splits)
  then show ?thesis
  proof cases
    case 1
    with quit show ?thesis by simp
  next
    case (2 profile b)
    obtain e1 x1 where r1: "on_disk (journal_request st p s b) x = (e1, x1)" by force
    note t1 = request_standing [OF lay rec js fits [OF 2(1,4)] r1]
    show ?thesis
    proof (cases e1)
      case (Some e)
      with run 2 r1 have "errs \<noteq> []" "x' = x1" by (auto simp: delete_reserved_def)
      with t1(1) show ?thesis by simp
    next
      case None
      let ?x2 = "agent_delete s (de_reply env) x1"
      note g1 = t1(2) [OF None]
      note ag = agent_going [OF g1, of ?x2 "de_reply env"]
      have "travels ?Q x1 ?x2"
        by (rule travels_mono [OF ag(1) [OF refl]]) (use finishing_standing going_finishing in blast)
      with t1(1) have T2: "travels ?Q x ?x2" by (rule travels_trans)
      show ?thesis
      proof (cases "reply_failed (de_reply env)")
        case True
        with run 2 r1 None have "errs \<noteq> []" "x' = ?x2" by (auto simp: delete_reserved_def)
        with T2 show ?thesis by simp
      next
        case False
        obtain e3 x3 where r3: "delete_everywhere st p s ?x2 = (e3, x3)" by force
        note t3 = delete_everywhere_finishing [OF lay travels_final [OF ag(1) [OF refl]] ag(4) [OF refl False] r3]
        have "travels ?Q ?x2 x3" by (rule travels_mono [OF t3(1)]) (use finishing_standing in blast)
        with T2 have T3: "travels ?Q x x3" by (rule travels_trans)
        have f: "errs = e3" "lf_disk x' = lf_disk x3" "lf_agent x' = lf_agent x3" "lf_points x' = lf_points x3"
          using run 2 r1 None False r3 by (auto simp: delete_reserved_def finish_lifecycle_def Let_def)
        from T3 t3(2) show ?thesis by (simp add: f travels_def)
      qed
    qed
  qed
qed

section \<open>Resumption\<close>

text \<open>What the resumption of one entry does to the entries of other chats, on an undisturbed disk.\<close>

definition settled :: "life_stores \<Rightarrow> sessionDeletion \<Rightarrow> filesys \<Rightarrow> string list \<Rightarrow> bool" where
  "settled st r fs agent \<longleftrightarrow> resumable st (projectID r) (sessionID r) fs \<or> complete st (projectID r) (sessionID r) fs agent"

definition agreeable :: "recovery_env \<Rightarrow> sessionDeletion \<Rightarrow> bool" where
  "agreeable env r \<longleftrightarrow> phase r = Confirmed \<or> rv_client env
     \<and> (\<exists>profile. rv_profile env (sessionID r) = Inr profile \<and> rv_binding env profile = Inr (agentBinding r)
          \<and> DeleteSession (pr_Operations profile))
     \<and> \<not> reply_failed (rv_reply env (sessionID r))"

lemma others_same_refl [simp]: "others_same st p s fs fs"
  by (simp add: others_same_def)

lemma deletion_target: "validateSessionDeletion r = None \<Longrightarrow> target (projectID r) (sessionID r)"
  by (auto simp: validateSessionDeletion_def target_def validatePiSessionID_def split: if_splits)

lemma on_disk_calm:
  assumes run: "on_disk f x = (e, x')" and quiet: "faults (lf_disk x) = []"
    and calm: "\<And>w. files w = files (lf_disk x) \<Longrightarrow> faults w = [] \<Longrightarrow> \<exists>w'. f w = (None, w') \<and> faults w' = []"
  shows "e = None" "faults (lf_disk x') = []"
proof -
  from run have "e = None \<and> faults (lf_disk x') = []"
  proof (cases rule: on_disk_run)
    case (1 w w')
    with calm [of w] quiet show ?thesis by auto
  qed
  then show "e = None" "faults (lf_disk x') = []" by simp_all
qed

lemma confirm_calm:
  assumes g: "going st p s j0 a0 (files (lf_disk x)) (lf_agent x)" and quiet: "faults (lf_disk x) = []"
    and run: "on_disk (journal_confirm st p s) x = (e, x')"
  shows "e = None" "faults (lf_disk x') = []"
proof -
  from goingD [OF g] obtain js b c where js: "journal st (files (lf_disk x)) = Some js" "journal_fits st js"
    "abs_deletions js s = Some (p, b, c)" by blast
  show "e = None" "faults (lf_disk x') = []"
    by (rule on_disk_calm [OF run quiet]; use js Confirm_calm [of st _ js s p b c] in metis)+
qed

lemma forget_calm:
  assumes g: "going st p s j0 a0 (files (lf_disk x)) (lf_agent x)" and quiet: "faults (lf_disk x) = []"
    and run: "on_disk (journal_forget st p s) x = (e, x')"
  shows "e = None" "faults (lf_disk x') = []"
proof -
  from goingD [OF g] obtain js where js: "journal st (files (lf_disk x)) = Some js" "journal_fits st js" by blast
  show "e = None" "faults (lf_disk x') = []"
    by (rule on_disk_calm [OF run quiet]; use js Forget_calm [of st _ js p s] in metis)+
qed

text \<open>From where the resumption of one entry starts, and where it may lead.\<close>

definition resuming :: "life_stores \<Rightarrow> sessionDeletion \<Rightarrow> life \<Rightarrow> filesys \<Rightarrow> string list \<Rightarrow> bool" where
  "resuming st r x fs agent \<longleftrightarrow>
     finishing st (projectID r) (sessionID r) (journalled st (files (lf_disk x))) (lf_agent x) fs agent
     \<and> others_same st (projectID r) (sessionID r) (files (lf_disk x)) fs"

lemma recover_requested_travels:
  assumes lay: "pixie_layout st dir" and rec: "recoverable st (files (lf_disk x)) (lf_agent x)"
    and entry: "journalled st (files (lf_disk x)) (sessionID r) = Some (projectID r, agentBinding r, phase r = Confirmed)"
    and quiet: "faults (lf_disk x) = []" and req: "phase r = Requested" and run: "recover_requested st env r x = (errs, x')"
  shows "travels (\<lambda>fs ag. others_same st (projectID r) (sessionID r) (files (lf_disk x)) fs
      \<and> going st (projectID r) (sessionID r) (journalled st (files (lf_disk x))) (lf_agent x) fs ag) x x'"
    "faults (lf_disk x') = []" "errs = [] \<Longrightarrow> sessionID r \<notin> set (lf_agent x')" "agreeable env r \<Longrightarrow> errs = []"
proof -
  let ?g = "going st (projectID r) (sessionID r) (journalled st (files (lf_disk x))) (lf_agent x)"
  let ?Q = "\<lambda>fs ag. others_same st (projectID r) (sessionID r) (files (lf_disk x)) fs \<and> ?g fs ag"
  have g: "?g (files (lf_disk x)) (lf_agent x)" using rec entry by (auto simp: going_def resumable_def)
  have "travels ?Q x x' \<and> faults (lf_disk x') = [] \<and> (errs = [] \<longrightarrow> sessionID r \<notin> set (lf_agent x')) \<and> (agreeable env r \<longrightarrow> errs = [])"
  proof (cases "\<exists>profile. rv_client env \<and> rv_profile env (sessionID r) = Inr profile
      \<and> rv_binding env profile = Inr (agentBinding r) \<and> DeleteSession (pr_Operations profile)")
    case False
    with run have "errs \<noteq> []" "x' = x" "\<not> agreeable env r"
      using req by (auto simp: recover_requested_def agreeable_def Let_def split: if_splits sum.splits)
    with g quiet show ?thesis by (simp add: travels_def)
  next
    case True
    let ?y = "agent_delete (sessionID r) (rv_reply env (sessionID r)) x"
    note ag = agent_going [OF g, of ?y "rv_reply env (sessionID r)", OF refl]
    have T1: "travels ?Q x ?y"
      using ag(1,2) unfolding travels_def by (auto simp: agent_delete_def)
    show ?thesis
    proof (cases "reply_failed (rv_reply env (sessionID r))")
      case failed: True
      with run True have "errs \<noteq> []" "x' = ?y" "\<not> agreeable env r"
        using req by (auto simp: recover_requested_def agreeable_def Let_def)
      with T1 ag(3) quiet show ?thesis by simp
    next
      case False
      obtain e x2 where r2: "on_disk (journal_confirm st (projectID r) (sessionID r)) ?y = (e, x2)" by force
      have quiet2: "faults (lf_disk ?y) = []" using ag(3) quiet by simp
      note g2 = travels_final [OF ag(1)]
      note c2 = confirm_calm [OF g2 quiet2 r2]
      note t2 = confirm_going [OF lay g2 ag(4) [OF False] r2]
      have f: "errs = []" "x' = x2" using run True False r2 c2(1) by (auto simp: recover_requested_def error_list_def)
      have "travels ?Q ?y x2" by (rule travels_mono [OF t2]) (simp add: ag(2))
      with T1 have "travels ?Q x x2" by (rule travels_trans)
      with f c2(2) ag(4) [OF False] conjunct1 [OF travels_final [OF t2]] show ?thesis by simp
    qed
  qed
  then show "travels ?Q x x'" "faults (lf_disk x') = []" "errs = [] \<Longrightarrow> sessionID r \<notin> set (lf_agent x')"
    "agreeable env r \<Longrightarrow> errs = []" by simp_all
qed

lemma recover_deletion_resumes:
  assumes lay: "pixie_layout st dir" and rec: "recoverable st (files (lf_disk x)) (lf_agent x)"
    and entry: "journalled st (files (lf_disk x)) (sessionID r) = Some (projectID r, agentBinding r, phase r = Confirmed)"
    and valid: "validateSessionDeletion r = None" and quiet: "faults (lf_disk x) = []"
    and run: "recover_deletion st env r x = (errs, x')"
  shows "travels (resuming st r x) x x'" "faults (lf_disk x') = []"
    "agreeable env r \<Longrightarrow> errs = [] \<and> complete st (projectID r) (sessionID r) (files (lf_disk x')) (lf_agent x')"
proof -
  let ?p = "projectID r" and ?s = "sessionID r"
  let ?g = "going st ?p ?s (journalled st (files (lf_disk x))) (lf_agent x)"
  let ?Q = "\<lambda>fs ag. others_same st ?p ?s (files (lf_disk x)) fs \<and> ?g fs ag"
  have QR: "resuming st r x fs ag" if "?Q fs ag" for fs ag
    using that going_finishing by (simp add: resuming_def)
  have g: "?g (files (lf_disk x)) (lf_agent x)" using rec entry by (auto simp: going_def resumable_def)
  obtain agent x1 where r1: "(if phase r = Requested then recover_requested st env r x else ([], x)) = (agent, x1)" by force
  have s1: "travels ?Q x x1 \<and> faults (lf_disk x1) = [] \<and> (agent = [] \<longrightarrow> ?s \<notin> set (lf_agent x1)) \<and> (agreeable env r \<longrightarrow> agent = [])"
  proof (cases "phase r = Requested")
    case True
    with r1 have "recover_requested st env r x = (agent, x1)" by simp
    from recover_requested_travels [OF lay rec entry quiet True this] show ?thesis by blast
  next
    case False
    then have c: "phase r = Confirmed" using valid by (auto simp: validateSessionDeletion_def split: if_splits)
    with goingD [OF g] entry have "?s \<notin> set (lf_agent x)" by (auto simp: honest_def)
    with False r1 g quiet show ?thesis by (simp add: travels_def)
  qed
  have "travels (resuming st r x) x x' \<and> faults (lf_disk x') = []
    \<and> (agreeable env r \<longrightarrow> errs = [] \<and> complete st ?p ?s (files (lf_disk x')) (lf_agent x'))"
  proof (cases "agent = []")
    case False
    with run r1 have "x' = x1" by (simp add: recover_deletion_def)
    with s1 False travels_mono [of ?Q x x1 "resuming st r x"] QR show ?thesis by simp
  next
    case True
    obtain e2 x2 where r2: "cleanupSessionDeletion st ?p ?s x1 = (e2, x2)" by force
    note g1 = conjunct2 [OF travels_final [OF conjunct1 [OF s1]]]
    have good: "stores_good st (files (lf_disk x1))" using goingD [OF g1] by blast
    have quiet1: "faults (lf_disk x1) = []" and a1: "?s \<notin> set (lf_agent x1)" using s1 True by simp_all
    note c2 = cleanup_undisturbed [OF lay good deletion_target [OF valid] quiet1 r2]
    note t2 = cleanup_going [OF lay g1 r2]
    have T2: "travels ?Q x1 x2"
      by (rule travels_mono [OF travels_both [OF c2(3) t2]])
         (use conjunct1 [OF travels_final [OF conjunct1 [OF s1]]] others_same_trans in blast)
    with s1 have T2': "travels ?Q x x2" by (blast intro: travels_trans)
    have g2: "?g (files (lf_disk x2)) (lf_agent x2)" "?s \<notin> set (lf_agent x2)"
      using conjunct2 [OF travels_final [OF t2]] conjunct1 [OF travels_final [OF t2]] a1 by auto
    have gone: "all_gone st ?p ?s (files (lf_disk x2))" by (rule cleanup_safe(2) [OF lay good r2 c2(1)])
    obtain e3 x3 where r3: "on_disk (journal_forget st ?p ?s) x2 = (e3, x3)" by force
    note c3 = forget_calm [OF g2(1) c2(2) r3]
    note t3 = forget_going [OF lay g2 gone r3]
    have "travels (resuming st r x) x2 x3"
      by (rule travels_mono [OF t3(1)])
         (use conjunct1 [OF travels_final [OF T2']] others_same_trans in \<open>unfold resuming_def, blast\<close>)
    moreover have "travels (resuming st r x) x x2" by (rule travels_mono [OF T2']) (use QR in blast)
    ultimately have "travels (resuming st r x) x x3" by (blast intro: travels_trans)
    moreover have "errs = []" "x' = x3" using run r1 True r2 c2(1) r3 c3(1) by (auto simp: recover_deletion_def error_list_def)
    ultimately show ?thesis using c3(2) t3(2) [OF c3(1)] by simp
  qed
  then show "travels (resuming st r x) x x'" "faults (lf_disk x') = []"
    "agreeable env r \<Longrightarrow> errs = [] \<and> complete st ?p ?s (files (lf_disk x')) (lf_agent x')" by simp_all
qed

text \<open>The chats that are not in the journal.\<close>

definition bystanders :: "life_stores \<Rightarrow> sessionDeletion list \<Rightarrow> filesys \<Rightarrow> filesys \<Rightarrow> bool" where
  "bystanders st js fs0 fs \<longleftrightarrow>
     map_option (filter (\<lambda>r. \<forall>d \<in> set js. \<not> is_record (projectID d) (sessionID d) r)) (records_now (ls_records st) fs)
       = map_option (filter (\<lambda>r. \<forall>d \<in> set js. \<not> is_record (projectID d) (sessionID d) r)) (records_now (ls_records st) fs0)
     \<and> map_option (filter (\<lambda>q. \<forall>d \<in> set js. \<not> owns (projectID d) (sessionID d) q)) (queues_now (ls_queues st) fs)
       = map_option (filter (\<lambda>q. \<forall>d \<in> set js. \<not> owns (projectID d) (sessionID d) q)) (queues_now (ls_queues st) fs0)
     \<and> (\<forall>s. s \<notin> sessionID ` set js \<longrightarrow> journalled st fs s = journalled st fs0 s)"

lemma bystanders_refl [simp]: "bystanders st js fs fs"
  by (simp add: bystanders_def)

lemma bystanders_trans: "bystanders st js a b \<Longrightarrow> bystanders st js b c \<Longrightarrow> bystanders st js a c"
  unfolding bystanders_def by simp

lemma filter_narrow:
  assumes "map_option (filter Q) a = map_option (filter Q) b" "\<And>x. P x \<Longrightarrow> Q x"
  shows "map_option (filter P) a = map_option (filter P) b"
proof -
  have "filter P xs = filter P (filter Q xs)" for xs using assms(2) by (induction xs) auto
  then have "map_option (filter P) o' = map_option (filter P) (map_option (filter Q) o')" for o' by (cases o') simp_all
  with assms(1) show ?thesis by metis
qed

lemma resuming_bystanders:
  assumes re: "resuming st r x fs agent" and r: "r \<in> set js"
  shows "bystanders st js (files (lf_disk x)) fs"
proof -
  have o: "records_others (ls_records st) (projectID r) (sessionID r) fs = records_others (ls_records st) (projectID r) (sessionID r) (files (lf_disk x))"
    "queues_others (ls_queues st) (projectID r) (sessionID r) fs = queues_others (ls_queues st) (projectID r) (sessionID r) (files (lf_disk x))"
    using re by (simp_all add: resuming_def others_same_def)
  show ?thesis unfolding bystanders_def
  proof (intro conjI)
    show "\<forall>s. s \<notin> sessionID ` set js \<longrightarrow> journalled st fs s = journalled st (files (lf_disk x)) s"
      using re r by (auto simp: resuming_def finishing_def)
  qed (rule filter_narrow [OF o(1) [unfolded records_others_def]] filter_narrow [OF o(2) [unfolded queues_others_def]], use r in blast)+
qed

lemma resuming_agent: "resuming st r x fs agent \<Longrightarrow> s \<noteq> sessionID r \<Longrightarrow> s \<in> set agent \<longleftrightarrow> s \<in> set (lf_agent x)"
proof -
  assume re: "resuming st r x fs agent" and n: "s \<noteq> sessionID r"
  from re have "set (removeAll (sessionID r) agent) = set (removeAll (sessionID r) (lf_agent x))"
    by (simp only: resuming_def finishing_def)
  with n show ?thesis by auto
qed

lemma resuming_complete:
  "resuming st r x fs agent \<Longrightarrow> s \<noteq> sessionID r \<Longrightarrow> complete st p s (files (lf_disk x)) (lf_agent x) \<Longrightarrow> complete st p s fs agent"
  using resuming_agent [of st r x fs agent s] by (auto simp: resuming_def finishing_def others_same_def complete_def)

lemma resuming_settled:
  assumes "resuming st r x fs agent" "sessionID d \<noteq> sessionID r" "settled st d (files (lf_disk x)) (lf_agent x)"
  shows "settled st d fs agent"
  using assms(3) resuming_complete [OF assms(1,2)] assms(1,2)
  by (auto simp: settled_def resumable_def resuming_def finishing_def)

lemma resuming_self: "resuming st r x fs agent \<Longrightarrow> settled st r fs agent"
  by (simp add: resuming_def finishing_def settled_def)

text \<open>The loop over the journal.\<close>

definition recovering ::
  "life_stores \<Rightarrow> sessionDeletion list \<Rightarrow> filesys \<Rightarrow> string list \<Rightarrow> filesys \<Rightarrow> string list \<Rightarrow> bool" where
  "recovering st js fs0 agent0 fs agent \<longleftrightarrow> recoverable st fs agent \<and> (\<forall>d \<in> set js. settled st d fs agent)
     \<and> bystanders st js fs0 fs \<and> (\<forall>s. s \<notin> sessionID ` set js \<longrightarrow> (s \<in> set agent \<longleftrightarrow> s \<in> set agent0))"

lemma resuming_recovering:
  assumes rc: "recovering st js fs0 a0 (files (lf_disk x)) (lf_agent x)" and dist: "distinct (map sessionID js)" and r: "r \<in> set js"
    and re: "resuming st r x fs agent"
  shows "recovering st js fs0 a0 fs agent"
proof -
  have "settled st d fs agent" if d: "d \<in> set js" for d
  proof (cases "d = r")
    case True
    with resuming_self [OF re] show ?thesis by simp
  next
    case False
    with dist d r have "sessionID d \<noteq> sessionID r" by (auto simp: distinct_map inj_on_def)
    with resuming_settled [OF re] rc d show ?thesis by (simp add: recovering_def)
  qed
  moreover have "recoverable st fs agent" using re by (simp add: resuming_def finishing_def)
  moreover have "bystanders st js fs0 fs"
    using bystanders_trans [OF _ resuming_bystanders [OF re r]] rc by (simp add: recovering_def)
  moreover have "s \<in> set agent \<longleftrightarrow> s \<in> set a0" if "s \<notin> sessionID ` set js" for s
    using resuming_agent [OF re, of s] rc r that by (auto simp: recovering_def)
  ultimately show ?thesis by (simp add: recovering_def)
qed

lemma recover_each_recovers:
  assumes lay: "pixie_layout st dir" and dist: "distinct (map sessionID js)" and valid: "\<forall>r \<in> set js. validateSessionDeletion r = None"
  shows "recovering st js fs0 a0 (files (lf_disk x)) (lf_agent x) \<Longrightarrow> faults (lf_disk x) = [] \<Longrightarrow> set rs \<subseteq> set js \<Longrightarrow>
     distinct (map sessionID rs) \<Longrightarrow>
     \<forall>r \<in> set rs. journalled st (files (lf_disk x)) (sessionID r) = Some (projectID r, agentBinding r, phase r = Confirmed) \<Longrightarrow>
     recover_each st env rs x = (errs, x') \<Longrightarrow>
     travels (recovering st js fs0 a0) x x'
     \<and> (\<forall>p s. s \<notin> sessionID ` set rs \<longrightarrow> complete st p s (files (lf_disk x)) (lf_agent x) \<longrightarrow> complete st p s (files (lf_disk x')) (lf_agent x'))
     \<and> ((\<forall>r \<in> set rs. agreeable env r) \<longrightarrow> errs = []
          \<and> (\<forall>r \<in> set rs. complete st (projectID r) (sessionID r) (files (lf_disk x')) (lf_agent x')))"
proof (induction rs arbitrary: x errs)
  case Nil
  then show ?case by (simp add: travels_def)
next
  case (Cons r rs)
  obtain e1 x1 where r1: "recover_deletion st env r x = (e1, x1)" by force
  obtain e2 x2 where r2: "recover_each st env rs x1 = (e2, x2)" by force
  have f: "errs = e1 @ e2" "x' = x2" using Cons.prems(6) r1 r2 by simp_all
  have r: "r \<in> set js" and v: "validateSessionDeletion r = None" using Cons.prems(3) valid by auto
  have entry: "journalled st (files (lf_disk x)) (sessionID r) = Some (projectID r, agentBinding r, phase r = Confirmed)"
    using Cons.prems(5) by simp
  have rc: "recoverable st (files (lf_disk x)) (lf_agent x)" using Cons.prems(1) by (simp add: recovering_def)
  note s = recover_deletion_resumes [OF lay rc entry v Cons.prems(2) r1]
  note re = travels_final [OF s(1)]
  note keep = resuming_recovering [OF Cons.prems(1) dist r]
  have T1: "travels (recovering st js fs0 a0) x x1" by (rule travels_mono [OF s(1)]) (use keep in blast)
  have pend: "\<forall>r' \<in> set rs. journalled st (files (lf_disk x1)) (sessionID r') = Some (projectID r', agentBinding r', phase r' = Confirmed)"
  proof
    fix r' assume "r' \<in> set rs"
    then have "sessionID r' \<noteq> sessionID r" using Cons.prems(4) by (metis distinct.simps(2) image_eqI list.set_map list.simps(9))
    with re Cons.prems(5) \<open>r' \<in> set rs\<close> show "journalled st (files (lf_disk x1)) (sessionID r')
      = Some (projectID r', agentBinding r', phase r' = Confirmed)" by (simp add: resuming_def finishing_def)
  qed
  have "set rs \<subseteq> set js" "distinct (map sessionID rs)" "sessionID r \<notin> sessionID ` set rs" using Cons.prems(3,4) by auto
  note IH = Cons.IH [OF keep [OF re] s(2) this(1,2) pend r2 [folded f(2)]]
  have "travels (recovering st js fs0 a0) x x'" using travels_trans [OF T1] IH by blast
  moreover have "complete st p s (files (lf_disk x')) (lf_agent x')"
    if "s \<notin> sessionID ` set (r # rs)" "complete st p s (files (lf_disk x)) (lf_agent x)" for p s
    using IH resuming_complete [OF re _ that(2)] that(1) by auto
  moreover have "errs = [] \<and> (\<forall>r' \<in> set (r # rs). complete st (projectID r') (sessionID r') (files (lf_disk x')) (lf_agent x'))"
    if "\<forall>r' \<in> set (r # rs). agreeable env r'"
    using IH s(3) that f(1) \<open>sessionID r \<notin> sessionID ` set rs\<close> by auto
  ultimately show ?case by blast
qed

lemma journal_entries:
  assumes "journal st fs = Some js" "r \<in> set js"
  shows "journalled st fs (sessionID r) = Some (projectID r, agentBinding r, phase r = Confirmed)"
proof -
  have "distinct (map fst (map (\<lambda>r. (sessionID r, projectID r, agentBinding r, phase r = Confirmed)) js))"
    using journal_valid(1) [OF assms(1)] by (simp add: comp_def)
  from map_of_is_SomeI [OF this] assms show ?thesis by (auto simp: journalled_Some abs_deletions_def)
qed

lemma recovering_start:
  assumes rec: "recoverable st fs agent" and js: "journal st fs = Some js"
  shows "recovering st js fs agent fs agent"
  using rec journal_entries [OF js] by (auto simp: recovering_def settled_def resumable_def)

lemma recoverDeletions_recovers:
  assumes lay: "pixie_layout st dir" and rec: "recoverable st (files (lf_disk x)) (lf_agent x)"
    and js: "journal st (files (lf_disk x)) = Some js" and quiet: "faults (lf_disk x) = []"
    and run: "recoverDeletions st env x = (errs, x')"
  shows "travels (recovering st js (files (lf_disk x)) (lf_agent x)) x x'"
    "s \<notin> sessionID ` set js \<Longrightarrow> complete st p s (files (lf_disk x)) (lf_agent x) \<Longrightarrow> complete st p s (files (lf_disk x')) (lf_agent x')"
    "\<forall>r \<in> set js. agreeable env r \<Longrightarrow> errs = [] \<and> journal st (files (lf_disk x')) = Some []
       \<and> (\<forall>r \<in> set js. complete st (projectID r) (sessionID r) (files (lf_disk x')) (lf_agent x'))"
proof -
  let ?y = "x\<lparr>lf_disk := (lf_disk x)\<lparr>trail := []\<rparr>\<rparr>"
  have ld: "List_deletions (ls_codec st) (ls_file st) ((lf_disk x)\<lparr>trail := []\<rparr>) = (Inr js, (lf_disk x)\<lparr>trail := []\<rparr>)"
    using deletions_load_calm [of "(lf_disk x)\<lparr>trail := []\<rparr>" "ls_codec st" "ls_file st" js] quiet js
    by (simp add: List_deletions_def journal_def)
  then have each: "recover_each st env js ?y = (errs, x')"
    using run by (simp add: recoverDeletions_def on_disk_def journal_list_def)
  note start = recovering_start [OF rec js]
  have y: "files (lf_disk ?y) = files (lf_disk x)" "lf_agent ?y = lf_agent x" "faults (lf_disk ?y) = []" "lf_points ?y = lf_points x"
    using quiet by simp_all
  note R = recover_each_recovers [OF lay journal_valid [OF js], of "files (lf_disk x)" "lf_agent x" ?y js env errs x',
      unfolded y, OF start refl subset_refl journal_valid(1) [OF js] _ each]
  have R': "travels (recovering st js (files (lf_disk x)) (lf_agent x)) ?y x'
     \<and> (\<forall>p s. s \<notin> sessionID ` set js \<longrightarrow> complete st p s (files (lf_disk x)) (lf_agent x) \<longrightarrow> complete st p s (files (lf_disk x')) (lf_agent x'))
     \<and> ((\<forall>r \<in> set js. agreeable env r) \<longrightarrow> errs = []
          \<and> (\<forall>r \<in> set js. complete st (projectID r) (sessionID r) (files (lf_disk x')) (lf_agent x')))"
    by (rule R) (use journal_entries [OF js] in blast)
  show T: "travels (recovering st js (files (lf_disk x)) (lf_agent x)) x x'" using conjunct1 [OF R'] by (simp add: travels_def)
  show "complete st p s (files (lf_disk x')) (lf_agent x')"
    if "s \<notin> sessionID ` set js" "complete st p s (files (lf_disk x)) (lf_agent x)" using R' that by blast
  show "errs = [] \<and> journal st (files (lf_disk x')) = Some []
       \<and> (\<forall>r \<in> set js. complete st (projectID r) (sessionID r) (files (lf_disk x')) (lf_agent x'))"
    if all: "\<forall>r \<in> set js. agreeable env r"
  proof -
    have c: "errs = []" "\<forall>r \<in> set js. complete st (projectID r) (sessionID r) (files (lf_disk x')) (lf_agent x')"
      using R' all by blast+
    from travels_final [OF T] obtain js' where js': "journal st (files (lf_disk x')) = Some js'"
      by (auto simp: recovering_def recoverable_def)
    have "journalled st (files (lf_disk x')) s = None" for s
    proof (cases "s \<in> sessionID ` set js")
      case True
      with c(2) show ?thesis by (auto simp: complete_def)
    next
      case False
      with travels_final [OF T] have "journalled st (files (lf_disk x')) s = journalled st (files (lf_disk x)) s"
        by (simp add: recovering_def bystanders_def)
      with False show ?thesis by (simp add: journalled_Some [OF js] abs_None)
    qed
    then have "js' = []" using journal_entries [OF js'] by (cases js') fastforce+
    with c js' show ?thesis by simp
  qed
qed

lemma Delete_standing:
  assumes lay: "pixie_layout st dir" and rec: "recoverable st (files (lf_disk x)) (lf_agent x)"
    and js: "journal st (files (lf_disk x)) = Some js"
    and fits: "\<And>profile b. de_profile env = Inr profile \<Longrightarrow> de_binding env profile = Inr b \<Longrightarrow> journal_fits st (js @ [requested_deletion p s b])"
    and run: "Delete st env p s x = (errs, x')"
  shows "travels (standing st p s (files (lf_disk x)) (lf_agent x)) x x'
    \<and> (errs = [] \<longrightarrow> complete st p s (files (lf_disk x')) (lf_agent x'))"
proof -
  let ?y = "x\<lparr>lf_lifecycle := s # lf_lifecycle x\<rparr>"
  consider "errs \<noteq> []" "x' = x" | "delete_reserved st env p s ?y = (errs, x')"
    using run by (auto simp: Delete_def split: sum.splits prod.splits if_splits option.splits)
  then show ?thesis
  proof cases
    case 1
    with standing_refl [OF rec, of p s] show ?thesis by (simp add: travels_def)
  next
    case 2
    from delete_reserved_standing [OF lay _ _ fits 2] rec js show ?thesis by (simp add: travels_def)
  qed
qed

section \<open>Undisturbed deletion\<close>

text \<open>Every check before the request passes and the agent deletes the chat, or does not know it.\<close>

definition cooperative :: "delete_env \<Rightarrow> string \<Rightarrow> string \<Rightarrow> bool" where
  "cooperative env project binding \<longleftrightarrow> (\<exists>admitted profile. de_admitted env = Inr admitted \<and> de_entry env = Inr (project, admitted)
     \<and> de_lock env = None \<and> de_lifecycle env = None \<and> de_profile env = Inr profile \<and> DeleteSession (pr_Operations profile)
     \<and> de_attach env = None \<and> de_binding env profile = Inr binding) \<and> \<not> reply_failed (de_reply env)"

lemma Request_calm:
  assumes now: "journal st (files w) = Some js" and calm: "faults w = []" and fits: "journal_fits st (js @ [requested_deletion p s b])"
    and valid: "validateSessionDeletion (requested_deletion p s b) = None" and new: "abs_deletions js s = None"
  shows "\<exists>w'. journal_request st p s b w = (None, w') \<and> faults w' = []"
proof -
  note ld = deletions_load_calm [OF calm now [unfolded journal_def]]
  obtain w' where "deletions_save (ls_codec st) (ls_file st) (fst (ls_temps st)) (snd (ls_temps st)) (js @ [requested_deletion p s b]) w = (None, w')"
    "faults w' = []" using calm_save [OF fits_encodes [OF fits] calm] by blast
  moreover have "find (\<lambda>existing. sessionID existing = s) js = None" using new by (auto simp: find_None_iff abs_None)
  ultimately show ?thesis using valid by (simp add: journal_request_def Request_def ld requested_deletion_def)
qed

lemma delete_everywhere_calm:
  assumes lay: "pixie_layout st dir" and g: "going st p s j0 a0 (files (lf_disk x)) (lf_agent x)" and a: "s \<notin> set (lf_agent x)"
    and quiet: "faults (lf_disk x) = []" and t: "target p s" and run: "delete_everywhere st p s x = (errs, x')"
  shows "errs = []"
proof -
  obtain e1 x1 where r1: "on_disk (journal_confirm st p s) x = (e1, x1)" by force
  let ?y = "x1\<lparr>lf_sessions := removeAll s (lf_sessions x1)\<rparr>"
  obtain e2 x2 where r2: "cleanupSessionDeletion st p s ?y = (e2, x2)" by force
  obtain e3 x3 where r3: "on_disk (journal_forget st p s) x2 = (e3, x3)" by force
  note c1 = confirm_calm [OF g quiet r1]
  have g1: "going st p s j0 a0 (files (lf_disk ?y)) (lf_agent ?y)" "faults (lf_disk ?y) = []"
    using conjunct2 [OF conjunct2 [OF travels_final [OF confirm_going [OF lay g a r1]]]] c1(2)
      conjunct1 [OF travels_final [OF confirm_going [OF lay g a r1]]] by auto
  have "stores_good st (files (lf_disk ?y))" using goingD [OF g1(1)] by blast
  note c2 = cleanup_undisturbed [OF lay this t g1(2) r2]
  have g2: "going st p s j0 a0 (files (lf_disk x2)) (lf_agent x2)"
    using conjunct2 [OF travels_final [OF cleanup_going [OF lay g1(1) r2]]] conjunct1 [OF travels_final [OF cleanup_going [OF lay g1(1) r2]]]
    by auto
  note c3 = forget_calm [OF g2 c2(2) r3]
  show ?thesis using run r1 r2 r3 c1(1) c2(1) c3(1) by (auto simp: delete_everywhere_def error_list_def Let_def)
qed

lemma Delete_undisturbed:
  assumes lay: "pixie_layout st dir" and rec: "recoverable st (files (lf_disk x)) (lf_agent x)"
    and js: "journal st (files (lf_disk x)) = Some js" and fits: "journal_fits st (js @ [requested_deletion p s b])"
    and valid: "validateSessionDeletion (requested_deletion p s b) = None" and new: "abs_deletions js s = None"
    and quiet: "faults (lf_disk x) = []" and env: "cooperative env p b" and run: "Delete st env p s x = (errs, x')"
  shows "errs = []"
proof -
  from env obtain profile where env': "de_profile env = Inr profile" "DeleteSession (pr_Operations profile)" "de_attach env = None"
    "de_binding env profile = Inr b" "\<not> reply_failed (de_reply env)" by (auto simp: cooperative_def)
  let ?y = "x\<lparr>lf_lifecycle := s # lf_lifecycle x\<rparr>"
  have reserved: "delete_reserved st env p s ?y = (errs, x')" using run env by (auto simp: Delete_def cooperative_def)
  have y: "recoverable st (files (lf_disk ?y)) (lf_agent ?y)" "journal st (files (lf_disk ?y)) = Some js" "faults (lf_disk ?y) = []"
    using rec js quiet by simp_all
  obtain e1 x1 where r1: "on_disk (journal_request st p s b) ?y = (e1, x1)" by force
  have "e1 = None \<and> faults (lf_disk x1) = []"
    using on_disk_calm [OF r1 y(3)] Request_calm [OF _ _ fits valid new] y(2) by metis
  then have c1: "e1 = None" "faults (lf_disk x1) = []" by simp_all
  note g1 = request_standing(2) [OF lay y(1,2) fits r1 c1(1)]
  let ?x2 = "agent_delete s (de_reply env) x1"
  note ag = agent_going [OF g1, of ?x2 "de_reply env", OF refl]
  obtain e3 x3 where r3: "delete_everywhere st p s ?x2 = (e3, x3)" by force
  have "target p s" using deletion_target [OF valid] by (simp add: requested_deletion_def)
  from delete_everywhere_calm [OF lay travels_final [OF ag(1)] ag(4) [OF env'(5)] _ this r3] ag(3) c1(2)
  have "e3 = []" by simp
  with reserved env' r1 c1(1) r3 show ?thesis by (auto simp: delete_reserved_def Let_def)
qed

section \<open>A crash and the next start\<close>

text \<open>What is stored of a chat.\<close>

definition chat_records :: "life_stores \<Rightarrow> string \<Rightarrow> string \<Rightarrow> filesys \<Rightarrow> ProjectSessionRecord list option" where
  "chat_records st p s fs = map_option (filter (is_record p s)) (records_now (ls_records st) fs)"

definition chat_queues :: "life_stores \<Rightarrow> string \<Rightarrow> string \<Rightarrow> filesys \<Rightarrow> storedSessionQueue list option" where
  "chat_queues st p s fs = map_option (filter (owns p s)) (queues_now (ls_queues st) fs)"

lemma bystander_kept:
  assumes "bystanders st js fs0 fs" "s \<notin> sessionID ` set js"
  shows "chat_records st p s fs = chat_records st p s fs0" "chat_queues st p s fs = chat_queues st p s fs0"
proof -
  have b: "map_option (filter (\<lambda>r. \<forall>d \<in> set js. \<not> is_record (projectID d) (sessionID d) r)) (records_now (ls_records st) fs)
       = map_option (filter (\<lambda>r. \<forall>d \<in> set js. \<not> is_record (projectID d) (sessionID d) r)) (records_now (ls_records st) fs0)"
    "map_option (filter (\<lambda>q. \<forall>d \<in> set js. \<not> owns (projectID d) (sessionID d) q)) (queues_now (ls_queues st) fs)
       = map_option (filter (\<lambda>q. \<forall>d \<in> set js. \<not> owns (projectID d) (sessionID d) q)) (queues_now (ls_queues st) fs0)"
    using assms(1) by (simp_all add: bystanders_def)
  show "chat_records st p s fs = chat_records st p s fs0" unfolding chat_records_def
    by (rule filter_narrow [OF b(1)]) (use assms(2) in \<open>auto simp: is_record_def\<close>)
  show "chat_queues st p s fs = chat_queues st p s fs0" unfolding chat_queues_def
    by (rule filter_narrow [OF b(2)]) (use assms(2) in \<open>auto simp: owns_def\<close>)
qed

lemma kept_chat:
  assumes "kept st p s fs0 a0 fs agent"
  shows "chat_records st p s fs = chat_records st p s fs0" "chat_queues st p s fs = chat_queues st p s fs0" "agent = a0"
proof -
  have "agrees (records_own (ls_records st)) fs0 fs" "agrees (queues_own (ls_queues st)) fs0 fs"
    using assms by (auto simp: kept_def agrees_def chat_own_def)
  then show "chat_records st p s fs = chat_records st p s fs0" "chat_queues st p s fs = chat_queues st p s fs0"
    by (simp_all add: chat_records_def chat_queues_def records_now_agrees queues_now_agrees)
  show "agent = a0" using assms by (simp add: kept_def)
qed

text \<open>The process that starts after the crash.\<close>

definition restarted :: "filesys \<Rightarrow> string list \<Rightarrow> life" where
  "restarted fs agent = \<lparr>lf_disk = \<lparr>files = fs, faults = [], trail = []\<rparr>, lf_agent = agent, lf_sessions = [], lf_lifecycle = [],
     lf_deleted = [], lf_points = []\<rparr>"

lemma crash_and_restart:
  assumes lay: "pixie_layout st dir" and st: "standing st p s fs0 a0 fs agent" and new: "journalled st fs0 s = None"
    and ok: "\<forall>js. journal st fs = Some js \<longrightarrow> (\<forall>r \<in> set js. agreeable env r)"
    and run: "recoverDeletions st env (restarted fs agent) = (errs, y)"
  shows "errs = [] \<and> journal st (files (lf_disk y)) = Some []
    \<and> (complete st p s (files (lf_disk y)) (lf_agent y)
       \<or> chat_records st p s (files (lf_disk y)) = chat_records st p s fs0 \<and> chat_queues st p s (files (lf_disk y)) = chat_queues st p s fs0
          \<and> (s \<in> set (lf_agent y) \<longleftrightarrow> s \<in> set a0))"
proof -
  have x: "files (lf_disk (restarted fs agent)) = fs" "lf_agent (restarted fs agent) = agent" "faults (lf_disk (restarted fs agent)) = []"
    by (simp_all add: restarted_def)
  from st obtain js where js: "journal st fs = Some js" by (auto simp: standing_def recoverable_def)
  have rec: "recoverable st fs agent" using st by (simp add: standing_def)
  note R = recoverDeletions_recovers [OF lay _ _ x(3) run, unfolded x, OF rec js]
  have fin: "errs = []" "journal st (files (lf_disk y)) = Some []"
    "\<forall>r \<in> set js. complete st (projectID r) (sessionID r) (files (lf_disk y)) (lf_agent y)"
    using R(3) ok js by blast+
  consider "kept st p s fs0 a0 fs agent" | "resumable st p s fs" | "complete st p s fs agent"
    using st by (auto simp: standing_def)
  then have "complete st p s (files (lf_disk y)) (lf_agent y)
    \<or> chat_records st p s (files (lf_disk y)) = chat_records st p s fs0 \<and> chat_queues st p s (files (lf_disk y)) = chat_queues st p s fs0
       \<and> (s \<in> set (lf_agent y) \<longleftrightarrow> s \<in> set a0)"
  proof cases
    case 1
    then have out: "s \<notin> sessionID ` set js" using new by (simp add: kept_def journalled_Some [OF js] abs_None)
    from travels_final [OF R(1)] have "bystanders st js fs (files (lf_disk y))" "s \<in> set (lf_agent y) \<longleftrightarrow> s \<in> set agent"
      using out by (simp_all add: recovering_def)
    with bystander_kept [OF this(1) out] kept_chat [OF 1] show ?thesis by simp
  next
    case 2
    then obtain b c where e: "abs_deletions js s = Some (p, b, c)" by (auto simp: resumable_def journalled_Some [OF js])
    then obtain r where "r \<in> set js" "sessionID r = s" "projectID r = p"
      unfolding abs_deletions_def by (auto dest!: map_of_SomeD)
    with fin(3) show ?thesis by auto
  next
    case 3
    then have "s \<notin> sessionID ` set js" by (simp add: complete_def journalled_Some [OF js] abs_None)
    from R(2) [OF this 3] show ?thesis ..
  qed
  with fin show ?thesis by simp
qed

section \<open>A sample\<close>

text \<open>A codec that knows the values of a table.\<close>

definition table_codec :: "(string \<times> 'a) list \<Rightarrow> 'a codec" where
  "table_codec rows = \<lparr>marshal = (\<lambda>v. map_of (map (\<lambda>(k, x). (x, k)) rows) v),
     unmarshal = (\<lambda>s. map_of (map (\<lambda>(k, x). (k @ [newline], x)) rows) s)\<rparr>"

lemma table_encodes:
  assumes "distinct (map fst rows)" "distinct (map snd rows)" "(k, v) \<in> set rows" "length k < 9" "validate v"
  shows "encodes (table_codec rows) validate v"
proof -
  have m: "map_of (map (\<lambda>(k, x). (x, k)) rows) v = Some k"
    by (rule map_of_is_SomeI) (use assms(2,3) in \<open>force simp: comp_def case_prod_beta image_iff\<close>)+
  have "distinct (map (\<lambda>k. k @ [newline]) (map fst rows))" using assms(1) by (simp add: distinct_map inj_on_def)
  then have "map_of (map (\<lambda>(k, x). (k @ [newline], x)) rows) (k @ [newline]) = Some v"
    by (intro map_of_is_SomeI) (use assms(3) in \<open>force simp: comp_def case_prod_beta image_iff\<close>)+
  with m assms(4,5) show ?thesis
    by (simp add: encodes_def exact_def table_codec_def Decode_def maxJSONBytes_def)
qed

definition demo_binding :: string where
  "demo_binding = ''sha256:'' @ replicate 64 (CHR ''0'')"

definition demo_request :: sessionDeletion where
  "demo_request = requested_deletion ''p'' ''s'' demo_binding"

definition demo_life_stores :: life_stores where
  "demo_life_stores =
     \<lparr>ls_codec = table_codec [(''0'', stored_deletions []), (''1'', stored_deletions [demo_request]),
        (''2'', stored_deletions [demo_request\<lparr>phase := Confirmed\<rparr>])],
      ls_file = (''d'', ''pi-session-deletions.json''), ls_temps = (''1'', ''2''),
      ls_records = \<lparr>rs_codec = table_codec [(''0'', stored_sessions []), (''1'', stored_sessions [demo_record])],
        rs_file = (''d'', ''pi-project-sessions.json''), rs_temps = (''1'', ''2'')\<rparr>,
      ls_objectives = demo_objective_store\<lparr>os_digest := (\<lambda>k. replicate 64 (CHR ''0''))\<rparr>,
      ls_queues = \<lparr>qs_codec = table_codec [(''0'', stored_queues [])],
        qs_file = (''d'', ''pi-session-queues.json''), qs_temp = (''1'', ''2'')\<rparr>\<rparr>"

text \<open>The chat is in the records; no deletion was ever requested.\<close>

definition demo_files :: filesys where
  "demo_files = [((''d'', ''pi-project-sessions.json''), \<lparr>content = ''1'' @ [newline], fmode = 384, regular = True\<rparr>)]"

definition demo_life :: life where
  "demo_life = restarted demo_files [''s'']"

definition demo_agent_profile :: AgentProfile where
  "demo_agent_profile = \<lparr>pr_Capabilities = [], pr_Name = ''pi'', pr_Version = ''1'', pr_Pi = True, pr_Compatible = True,
     pr_MissingRequired = [],
     pr_Operations = \<lparr>DeleteSession = True, ForkSession = True, PromptImage = True, PromptEmbeddedContext = True,
       HTTPMCP = True, Steer = True, RenameSession = True, ArchiveSession = True, Administration = True\<rparr>,
     pr_identity = ''i''\<rparr>"

definition demo_delete_env :: delete_env where
  "demo_delete_env = \<lparr>de_admitted = Inr ''/'', de_entry = Inr (''p'', ''/''), de_lock = None, de_lifecycle = None,
     de_profile = Inr demo_agent_profile, de_attach = None, de_binding = (\<lambda>profile. Inr demo_binding), de_reply = Deleted\<rparr>"

definition demo_recovery_env :: recovery_env where
  "demo_recovery_env = \<lparr>rv_client = True, rv_profile = (\<lambda>s. Inr demo_agent_profile),
     rv_binding = (\<lambda>profile. Inr demo_binding), rv_reply = (\<lambda>s. SessionMissing)\<rparr>"

lemma demo_layout: "pixie_layout demo_life_stores ''d''"
proof -
  have "hex_string 64 (replicate 64 (CHR ''0''))" by code_simp
  then show ?thesis by (simp add: pixie_layout_def demo_life_stores_def demo_objective_store_def)
qed

lemma demo_request_valid: "validateSessionDeletion demo_request = None" "validateSessionDeletion (demo_request\<lparr>phase := Confirmed\<rparr>) = None"
  using demo_deletion_valid
  by (simp_all add: validateSessionDeletion_def demo_request_def requested_deletion_def demo_deletion_def demo_binding_def split: if_splits)

lemma demo_journal_fits: "journal_fits demo_life_stores [demo_request]" "journal_fits demo_life_stores []"
proof -
  let ?rows = "[(''0'', stored_deletions []), (''1'', stored_deletions [demo_request]),
        (''2'', stored_deletions [demo_request\<lparr>phase := Confirmed\<rparr>])]"
  have v: "validateStoredSessionDeletions (stored_deletions js)" if "js \<in> {[], [demo_request], [demo_request\<lparr>phase := Confirmed\<rparr>]}" for js
    using that demo_request_valid by (auto simp: validateStoredSessionDeletions_def stored_deletions_def)
  have d: "distinct (map fst ?rows)" "distinct (map snd ?rows)"
    by (simp_all add: stored_deletions_def demo_request_def requested_deletion_def)
  have "encodes (table_codec ?rows) validateStoredSessionDeletions (stored_deletions [])"
    by (rule table_encodes [OF d, of "''0''"]) (simp_all add: v)
  moreover have "encodes (table_codec ?rows) validateStoredSessionDeletions (stored_deletions [demo_request])"
    by (rule table_encodes [OF d, of "''1''"]) (simp_all add: v)
  moreover have "encodes (table_codec ?rows) validateStoredSessionDeletions (stored_deletions [demo_request\<lparr>phase := Confirmed\<rparr>])"
    by (rule table_encodes [OF d, of "''2''"]) (simp_all add: v)
  ultimately have e: "encodes (table_codec ?rows) validateStoredSessionDeletions (stored_deletions js)"
    if "js \<in> {[], [demo_request], [demo_request\<lparr>phase := Confirmed\<rparr>]}" for js using that by auto
  show one: "journal_fits demo_life_stores [demo_request]"
    unfolding journal_fits_def
  proof (intro allI impI)
    fix js' assume "list_emb progressed js' [demo_request]"
    then have "js' \<in> {[], [demo_request], [demo_request\<lparr>phase := Confirmed\<rparr>]}"
      by (cases js') (auto simp: progressed_def elim: list_emb.cases)
    from e [OF this] show "encodes (ls_codec demo_life_stores) validateStoredSessionDeletions (stored_deletions js')"
      by (simp add: demo_life_stores_def)
  qed
  show "journal_fits demo_life_stores []" by (rule fits_less [OF one]) simp
qed

lemma demo_records_encode:
  "encodes (rs_codec (ls_records demo_life_stores)) validateRecords (stored_sessions (filter keep [demo_record]))"
proof -
  let ?rows = "[(''0'', stored_sessions []), (''1'', stored_sessions [demo_record])]"
  have d: "distinct (map fst ?rows)" "distinct (map snd ?rows)" by (simp_all add: stored_sessions_def)
  have v: "validateRecords (stored_sessions [])" "validateRecords (stored_sessions [demo_record])"
    using demo_record_valid by (simp_all add: validateRecords_def stored_sessions_def)
  have "encodes (table_codec ?rows) validateRecords (stored_sessions [])"
    by (rule table_encodes [OF d, of "''0''"]) (simp_all add: v)
  moreover have "encodes (table_codec ?rows) validateRecords (stored_sessions [demo_record])"
    by (rule table_encodes [OF d, of "''1''"]) (simp_all add: v)
  ultimately show ?thesis by (simp add: demo_life_stores_def)
qed

lemma demo_keepable: "keepable (ls_records demo_life_stores) [demo_record]" "keepable (ls_records demo_life_stores) []"
  using demo_records_encode demo_records_encode [of "\<lambda>r. False"] by (simp_all add: keepable_def)

lemma demo_files_read:
  "read_now (''d'', ''pi-project-sessions.json'') demo_files = ReadBytes (''1'' @ [newline]) 384"
  "q \<noteq> (''d'', ''pi-project-sessions.json'') \<Longrightarrow> read_now q demo_files = NotExist"
  by (auto simp: read_now_def demo_files_def maxJSONBytes_def)

lemma demo_records_decode:
  "Decode (rs_codec (ls_records demo_life_stores)) validateRecords (''1'' @ [newline]) = Some (stored_sessions [demo_record])"
  using demo_record_valid
  by (simp add: Decode_def demo_life_stores_def table_codec_def validateRecords_def stored_sessions_def)

lemma demo_stores_good: "stores_good demo_life_stores demo_files"
proof -
  have f: "rs_file (ls_records demo_life_stores) = (''d'', ''pi-project-sessions.json'')"
    "qs_file (ls_queues demo_life_stores) = (''d'', ''pi-session-queues.json'')" by (simp_all add: demo_life_stores_def)
  have now: "records_now (ls_records demo_life_stores) demo_files = Some [demo_record]"
    using demo_records_decode by (simp add: records_now_def load_now_def f demo_files_read(1) decode_read_def)
  have "rs = [demo_record]" if "rs \<in> records_gens (ls_records demo_life_stores) demo_files" for rs
    using that demo_files_read demo_records_decode
    by (auto simp: records_gens_def records_own_def f decode_read_def backup_path_def stored_sessions_def)
  then have "records_good (ls_records demo_life_stores) demo_files"
    using demo_keepable now by (auto simp: records_good_def)
  moreover have "queues_good (ls_queues demo_life_stores) demo_files"
  proof -
    have "queues_now (ls_queues demo_life_stores) demo_files = Some []"
      by (simp add: queues_now_def journal_now_def f demo_files_read(2) backup_path_def stored_queues_def)
    moreover have "encodes (qs_codec (ls_queues demo_life_stores)) validateStoredQueues (stored_queues [])"
    proof -
      have "encodes (table_codec [(''0'', stored_queues [])]) validateStoredQueues (stored_queues [])"
        by (rule table_encodes [of _ "''0''"]) (simp_all add: stored_queues_def validateStoredQueues_def)
      then show ?thesis by (simp add: demo_life_stores_def)
    qed
    ultimately show ?thesis by (simp add: queues_good_def)
  qed
  ultimately show ?thesis by (simp add: stores_good_def)
qed

lemma demo_journal: "journal demo_life_stores demo_files = Some []"
  by (simp add: journal_def deletions_now_def journal_now_def demo_life_stores_def demo_files_read(2) backup_path_def stored_deletions_def)

lemma demo_recoverable: "recoverable demo_life_stores demo_files [''s'']"
  using demo_stores_good demo_journal demo_journal_fits(2) by (simp add: recoverable_def honest_def)

lemma demo_life_parts:
  "files (lf_disk demo_life) = demo_files" "lf_agent demo_life = [''s'']" "lf_points demo_life = []" "faults (lf_disk demo_life) = []"
  by (simp_all add: demo_life_def restarted_def)

lemma demo_delete_cooperative: "cooperative demo_delete_env ''p'' demo_binding"
  by (simp add: cooperative_def demo_delete_env_def demo_agent_profile_def reply_failed_def)

text \<open>The same disk after a crash: the deletion is in the journal.\<close>

definition demo_pending_files :: filesys where
  "demo_pending_files = demo_files @ [((''d'', ''pi-session-deletions.json''), \<lparr>content = ''1'' @ [newline], fmode = 384, regular = True\<rparr>)]"

lemma demo_pending_get: "get demo_pending_files q =
    (if q = (''d'', ''pi-session-deletions.json'') then Some \<lparr>content = ''1'' @ [newline], fmode = 384, regular = True\<rparr> else get demo_files q)"
  by (simp add: demo_pending_files_def demo_files_def)

lemma demo_pending_journal: "journal demo_life_stores demo_pending_files = Some [demo_request]"
  using demo_request_valid(1)
  by (simp add: journal_def deletions_now_def journal_now_def demo_life_stores_def read_now_def demo_pending_get maxJSONBytes_def
      Decode_def table_codec_def validateStoredSessionDeletions_def stored_deletions_def)

lemma demo_pending_recoverable: "recoverable demo_life_stores demo_pending_files [''s'']"
proof -
  have "agrees (records_own (ls_records demo_life_stores)) demo_files demo_pending_files"
    "agrees (queues_own (ls_queues demo_life_stores)) demo_files demo_pending_files"
    by (auto simp: agrees_def records_own_def queues_own_def demo_life_stores_def demo_pending_get backup_path_def)
  with demo_stores_good have "stores_good demo_life_stores demo_pending_files"
    by (simp add: stores_good_def records_same(1) queues_same(1))
  then show ?thesis using demo_pending_journal demo_journal_fits(1)
    by (simp add: recoverable_def honest_def demo_request_def requested_deletion_def)
qed

lemma demo_agreeable: "agreeable demo_recovery_env demo_request"
  by (simp add: agreeable_def demo_recovery_env_def demo_request_def requested_deletion_def demo_agent_profile_def reply_failed_def)

section \<open>Properties\<close>



text \<open>A deletion nothing disturbs succeeds, and then the chat is gone: on a disk without failures, with an agent that allows
  the deletion and answers that the chat is deleted or unknown, \<open>Delete\<close> reports no error and leaves nothing of the
  chat in the agent, the records, the queues, the objectives and the journal.\<close>

theorem undisturbed_deletion_completes:
  assumes "pixie_layout st dir" "recoverable st (files (lf_disk x)) (lf_agent x)"
    and "journal st (files (lf_disk x)) = Some js" "journal_fits st (js @ [requested_deletion p s b])"
    and "validateSessionDeletion (requested_deletion p s b) = None" "abs_deletions js s = None"
    and "faults (lf_disk x) = []" "cooperative env p b" "Delete st env p s x = (errs, x')"
  shows "errs = [] \<and> complete st p s (files (lf_disk x')) (lf_agent x')"
proof -
  have none: "errs = []" by (rule Delete_undisturbed [OF assms])
  have "travels (standing st p s (files (lf_disk x)) (lf_agent x)) x x' \<and> (errs = [] \<longrightarrow> complete st p s (files (lf_disk x')) (lf_agent x'))"
    by (rule Delete_standing [OF assms(1-3) _ assms(9)]) (use assms(4,8) in \<open>auto simp: cooperative_def\<close>)
  with none show ?thesis by simp
qed

theorem undisturbed_deletion_completes_witness:
  "\<exists>x'. Delete demo_life_stores demo_delete_env ''p'' ''s'' demo_life = ([], x')
     \<and> complete demo_life_stores ''p'' ''s'' (files (lf_disk x')) (lf_agent x')"
proof -
  obtain errs x' where run: "Delete demo_life_stores demo_delete_env ''p'' ''s'' demo_life = (errs, x')" by force
  have "errs = [] \<and> complete demo_life_stores ''p'' ''s'' (files (lf_disk x')) (lf_agent x')"
    by (rule undisturbed_deletion_completes [OF demo_layout _ _ _ _ _ _ demo_delete_cooperative run, of "[]"])
       (use demo_recoverable demo_journal demo_journal_fits(1) demo_request_valid(1) in \<open>simp_all add: demo_life_parts demo_request_def\<close>)
  with run show ?thesis by blast
qed

text \<open>C4: The next start goes on where a deletion was interrupted: on a disk without failures, at every step of the resumption
  each chat of the journal is still in the journal or completely gone, and all other chats keep their records, queues and journal
  entries and stay with the agent. If the agent cooperates for every entry, no error is reported, the journal is empty at the end, and every chat that
  was in it is gone.\<close>

theorem recovery_completes:
  assumes "pixie_layout st dir" "recoverable st (files (lf_disk x)) (lf_agent x)"
    and "journal st (files (lf_disk x)) = Some js" "faults (lf_disk x) = []"
    and "recoverDeletions st env x = (errs, x')"
  shows "travels (recovering st js (files (lf_disk x)) (lf_agent x)) x x'
    \<and> ((\<forall>r \<in> set js. agreeable env r) \<longrightarrow> errs = [] \<and> journal st (files (lf_disk x')) = Some []
       \<and> (\<forall>r \<in> set js. complete st (projectID r) (sessionID r) (files (lf_disk x')) (lf_agent x')))"
  using recoverDeletions_recovers(1,3) [OF assms] by blast

theorem recovery_completes_witness:
  "\<exists>x'. recoverDeletions demo_life_stores demo_recovery_env (restarted demo_pending_files [''s'']) = ([], x')
     \<and> journal demo_life_stores (files (lf_disk x')) = Some []
     \<and> complete demo_life_stores ''p'' ''s'' (files (lf_disk x')) (lf_agent x')"
proof -
  let ?x = "restarted demo_pending_files [''s'']"
  obtain errs x' where run: "recoverDeletions demo_life_stores demo_recovery_env ?x = (errs, x')" by force
  have x: "files (lf_disk ?x) = demo_pending_files" "lf_agent ?x = [''s'']" "faults (lf_disk ?x) = []" by (simp_all add: restarted_def)
  have "recoverable demo_life_stores (files (lf_disk ?x)) (lf_agent ?x)" "journal demo_life_stores (files (lf_disk ?x)) = Some [demo_request]"
    using demo_pending_recoverable demo_pending_journal by (simp_all add: x)
  from recovery_completes [OF demo_layout this x(3) run] demo_agreeable run show ?thesis
    by (auto simp: demo_request_def requested_deletion_def)
qed



end
