(* ===== verification/Serials.thy ===== *)
theory Serials
  imports Main "HOL-Library.Word"
begin

text \<open>The serial numbers that a 64-bit counter gives out: the number \<open>c\<close> counted from 0 gets \<open>c + 1\<close>, so none is 0
  and all are distinct until the counter wraps.\<close>

definition serial_of :: "nat \<Rightarrow> 64 word" where
  "serial_of c = word_of_nat (Suc c)"

lemma unat_serial: "Suc c < 2 ^ 64 \<Longrightarrow> unat (serial_of c) = Suc c"
  by (simp add: serial_of_def unsigned_of_nat take_bit_nat_eq_self del: of_nat_Suc)

lemma serial_of_eq: "Suc c < 2 ^ 64 \<Longrightarrow> Suc d < 2 ^ 64 \<Longrightarrow> serial_of c = serial_of d \<longleftrightarrow> c = d"
  by (metis nat.inject unat_serial)

lemma serial_of_nonzero: "Suc c < 2 ^ 64 \<Longrightarrow> serial_of c \<noteq> 0"
  by (metis Zero_not_Suc unat_0 unat_serial)

lemma serial_of_next: "word_of_nat c + 1 = serial_of c"
  by (simp add: serial_of_def)

end
