(* ===== verification/PiClientInv.thy ===== *)
theory PiClientInv
  imports PiClient Serials
begin

text \<open>The invariant of the connection shared by all requests, preserved by every action.\<close>

section \<open>The invariant\<close>

definition gens_ok :: "PiClient \<Rightarrow> bool" where
  "gens_ok c \<longleftrightarrow> cl_generation c = word_of_nat (length (cl_attempts c))
     \<and> (\<forall>a < length (cl_attempts c). at_generation (cl_attempts c ! a) = serial_of a)
     \<and> distinct (map co_generation (cl_connections c))
     \<and> (\<forall>x \<in> set (cl_connections c). \<exists>a < length (cl_attempts c). co_generation x = serial_of a
          \<and> at_progress (cl_attempts c ! a) \<noteq> Dialing)"

definition attempts_ok :: "PiClient \<Rightarrow> bool" where
  "attempts_ok c \<longleftrightarrow> (\<forall>a < length (cl_attempts c). at_settled (cl_attempts c ! a) = None \<longrightarrow> cl_connecting c = Some a)
     \<and> (\<forall>a. cl_connecting c = Some a \<longrightarrow> Suc a = length (cl_attempts c) \<and> at_settled (cl_attempts c ! a) = None
          \<and> \<not> at_cancelled (cl_attempts c ! a)
          \<and> at_progress (cl_attempts c ! a) \<noteq> Returned \<and> (\<forall>p. at_progress (cl_attempts c ! a) \<noteq> Publishing p)
          \<and> cl_connection c = None \<and> \<not> cl_closed c)"

definition hello_ok :: "PiClient \<Rightarrow> bool" where
  "hello_ok c \<longleftrightarrow> (\<forall>a k. a < length (cl_attempts c) \<longrightarrow> at_progress (cl_attempts c ! a) = Hello k \<longrightarrow>
       k < length (cl_connections c) \<and> co_generation (cl_connections c ! k) = serial_of a
       \<and> \<not> co_closed (cl_connections c ! k) \<and> co_profile (cl_connections c ! k) = None)
     \<and> (\<forall>a b k. a < length (cl_attempts c) \<longrightarrow> b < length (cl_attempts c) \<longrightarrow> at_progress (cl_attempts c ! a) = Hello k
          \<longrightarrow> at_progress (cl_attempts c ! b) = Hello k \<longrightarrow> a = b)"

definition installed_ok :: "PiClient \<Rightarrow> bool" where
  "installed_ok c \<longleftrightarrow> (\<forall>k. cl_connection c = Some k \<longrightarrow> k < length (cl_connections c)
     \<and> co_generation (cl_connections c ! k) = cl_generation c \<and> co_profile (cl_connections c ! k) \<noteq> None
     \<and> \<not> co_closed (cl_connections c ! k) \<and> \<not> cl_closed c)"

definition in_use :: "nat \<Rightarrow> PiClient \<Rightarrow> bool" where
  "in_use k c \<longleftrightarrow> cl_connection c = Some k
     \<or> (\<exists>a < length (cl_attempts c). at_progress (cl_attempts c ! a) = Hello k)"

definition connections_ok :: "PiClient \<Rightarrow> bool" where
  "connections_ok c \<longleftrightarrow> (\<forall>k < length (cl_connections c). co_closed (cl_connections c ! k) \<or> in_use k c)"

fun state_well :: "PiClient \<Rightarrow> 64 word option \<Rightarrow> ready_state \<Rightarrow> bool" where
  "state_well c e (Entering waited) \<longleftrightarrow> True"
| "state_well c e (WaitingFor a) \<longleftrightarrow> a < length (cl_attempts c)"
| "state_well c e (Dropping k err) \<longleftrightarrow> k < length (cl_connections c) \<and> co_profile (cl_connections c ! k) \<noteq> None
     \<and> co_done (cl_connections c ! k)"
| "state_well c e (Answered (Inl err)) \<longleftrightarrow> True"
| "state_well c e (Answered (Inr (k, g))) \<longleftrightarrow> k < length (cl_connections c) \<and> co_generation (cl_connections c ! k) = g
     \<and> co_profile (cl_connections c ! k) \<noteq> None \<and> e \<in> {None, Some g}"

definition answered_well :: "PiClient \<Rightarrow> ready_call \<Rightarrow> bool" where
  "answered_well c call \<longleftrightarrow> state_well c (rd_expected call) (rd_state call)"

lemma state_well_mono:
  assumes "state_well c e st" "length (cl_attempts c) \<le> length (cl_attempts c')"
    "length (cl_connections c) \<le> length (cl_connections c')"
    "\<And>k. k < length (cl_connections c) \<Longrightarrow> co_profile (cl_connections c ! k) \<noteq> None \<Longrightarrow>
       co_generation (cl_connections c' ! k) = co_generation (cl_connections c ! k)
       \<and> co_profile (cl_connections c' ! k) \<noteq> None \<and> (co_done (cl_connections c ! k) \<longrightarrow> co_done (cl_connections c' ! k))"
  shows "state_well c' e st"
  using assms by (cases "(c, e, st)" rule: state_well.cases) (auto dest: order_less_le_trans)

definition calls_ok :: "PiClient \<Rightarrow> bool" where
  "calls_ok c \<longleftrightarrow> (\<forall>call \<in> set (cl_calls c). answered_well c call)"

definition announced :: "PiClient \<Rightarrow> 64 word \<Rightarrow> AgentProfile \<Rightarrow> bool" where
  "announced c g p \<longleftrightarrow> (\<exists>x \<in> set (cl_connections c). co_generation x = g \<and> co_profile x = Some p)"

definition published_ok :: "PiClient \<Rightarrow> bool" where
  "published_ok c \<longleftrightarrow> sorted_wrt (<) (map fst (cl_published c)) \<and> (\<forall>x \<in> set (cl_published c). fst x \<le> cl_notified c)
     \<and> (\<forall>(g, p) \<in> set (cl_published c). announced c g p)
     \<and> (\<forall>a p. a < length (cl_attempts c) \<longrightarrow> at_progress (cl_attempts c ! a) = Publishing p \<longrightarrow> announced c (serial_of a) p)"

definition client_ok :: "PiClient \<Rightarrow> bool" where
  "client_ok c \<longleftrightarrow> gens_ok c \<and> attempts_ok c \<and> hello_ok c \<and> installed_ok c \<and> connections_ok c \<and> calls_ok c \<and> published_ok c"

lemmas client_pieces = gens_ok_def attempts_ok_def hello_ok_def installed_ok_def connections_ok_def calls_ok_def published_ok_def

lemma client_okD:
  assumes "client_ok c"
  shows "gens_ok c" "attempts_ok c" "hello_ok c" "installed_ok c" "connections_ok c" "calls_ok c" "published_ok c"
  using assms by (simp_all add: client_ok_def)

lemma client_okI:
  "gens_ok c \<Longrightarrow> attempts_ok c \<Longrightarrow> hello_ok c \<Longrightarrow> installed_ok c \<Longrightarrow> connections_ok c \<Longrightarrow> calls_ok c \<Longrightarrow> published_ok c
     \<Longrightarrow> client_ok c"
  by (simp add: client_ok_def)

lemma new_client_ok: "client_ok new_client"
  by (simp add: new_client_def client_ok_def client_pieces)

section \<open>Callers\<close>

lemma answered_well_calls [simp]: "answered_well (c\<lparr>cl_calls := xs\<rparr>) call = answered_well c call"
  by (cases "(c, rd_expected call, rd_state call)" rule: state_well.cases) (simp_all add: answered_well_def)

lemma client_ok_calls:
  assumes "client_ok c" "\<forall>call \<in> set xs. answered_well c call" shows "client_ok (c\<lparr>cl_calls := xs\<rparr>)"
proof -
  have "gens_ok (c\<lparr>cl_calls := xs\<rparr>) = gens_ok c" "attempts_ok (c\<lparr>cl_calls := xs\<rparr>) = attempts_ok c"
    "hello_ok (c\<lparr>cl_calls := xs\<rparr>) = hello_ok c" "installed_ok (c\<lparr>cl_calls := xs\<rparr>) = installed_ok c"
    "connections_ok (c\<lparr>cl_calls := xs\<rparr>) = connections_ok c" "published_ok (c\<lparr>cl_calls := xs\<rparr>) = published_ok c"
    by (simp_all add: client_pieces in_use_def announced_def)
  moreover have "calls_ok (c\<lparr>cl_calls := xs\<rparr>)" using assms(2) by (simp add: calls_ok_def)
  ultimately show ?thesis using assms(1) by (simp add: client_ok_def)
qed

lemma client_ok_set_ready:
  assumes "client_ok c" "state_well c (rd_expected (cl_calls c ! i)) st"
  shows "client_ok (set_ready i st c)"
  unfolding set_ready_def
proof (rule client_ok_calls [OF assms(1)], intro ballI)
  fix call assume "call \<in> set ((cl_calls c)[i := (cl_calls c ! i)\<lparr>rd_state := st\<rparr>])"
  then have "call \<in> set (cl_calls c) \<or> call = (cl_calls c ! i)\<lparr>rd_state := st\<rparr>"
    using set_update_subset_insert [of "cl_calls c"] by auto
  with assms client_okD(6) [OF assms(1)] show "answered_well c call" by (auto simp: calls_ok_def answered_well_def)
qed

section \<open>Connections\<close>

lemma mark_closed:
  assumes "ys = xs[k := (xs ! k)\<lparr>co_closed := True\<rparr>]"
  shows "length ys = length xs" "co_generation (ys ! j) = co_generation (xs ! j)" "co_profile (ys ! j) = co_profile (xs ! j)"
    "co_done (ys ! j) = co_done (xs ! j)" "co_closed (ys ! j) \<longleftrightarrow> co_closed (xs ! j) \<or> j = k \<and> j < length xs"
proof -
  have "ys ! j = (if j = k \<and> j < length xs then (xs ! j)\<lparr>co_closed := True\<rparr> else xs ! j)"
  proof (cases "k < length xs")
    case True
    then show ?thesis unfolding assms by (cases "j = k") simp_all
  next
    case False
    then show ?thesis unfolding assms by (auto simp: list_update_beyond)
  qed
  then show "co_generation (ys ! j) = co_generation (xs ! j)" "co_profile (ys ! j) = co_profile (xs ! j)"
    "co_done (ys ! j) = co_done (xs ! j)" "co_closed (ys ! j) \<longleftrightarrow> co_closed (xs ! j) \<or> j = k \<and> j < length xs"
    by auto
  show "length ys = length xs" by (simp add: assms)
qed

lemma published_mono:
  assumes "published_ok c" "cl_published c' = cl_published c" "cl_notified c' = cl_notified c"
    "\<And>g p. announced c g p \<Longrightarrow> announced c' g p"
    "\<And>a p. a < length (cl_attempts c') \<Longrightarrow> at_progress (cl_attempts c' ! a) = Publishing p \<Longrightarrow>
       a < length (cl_attempts c) \<and> at_progress (cl_attempts c ! a) = Publishing p \<or> announced c' (serial_of a) p"
  shows "published_ok c'"
proof -
  have old: "sorted_wrt (<) (map fst (cl_published c))" "\<forall>x \<in> set (cl_published c). fst x \<le> cl_notified c"
    "\<And>g p. (g, p) \<in> set (cl_published c) \<Longrightarrow> announced c g p"
    "\<And>a p. a < length (cl_attempts c) \<Longrightarrow> at_progress (cl_attempts c ! a) = Publishing p \<Longrightarrow> announced c (serial_of a) p"
    using assms(1) unfolding published_ok_def by auto
  have "announced c' (serial_of a) p" if "a < length (cl_attempts c')" "at_progress (cl_attempts c' ! a) = Publishing p" for a p
    using assms(5) [OF that] old(4) assms(4) by blast
  with old assms(2,3,4) show ?thesis unfolding published_ok_def by auto
qed

text \<open>The invariant but for one connection that is about to be closed.\<close>

definition client_but :: "nat option \<Rightarrow> PiClient \<Rightarrow> bool" where
  "client_but K c \<longleftrightarrow> gens_ok c \<and> attempts_ok c \<and> hello_ok c \<and> installed_ok c \<and> calls_ok c \<and> published_ok c
     \<and> (\<forall>k < length (cl_connections c). K = Some k \<or> co_closed (cl_connections c ! k) \<or> in_use k c)
     \<and> (\<forall>k. K = Some k \<longrightarrow> \<not> in_use k c)"

lemma client_but_None [simp]: "client_but None c = client_ok c"
  by (auto simp: client_but_def client_ok_def connections_ok_def)

lemma close_old_ok:
  assumes but: "client_but K c" shows "client_ok (close_old K c)"
proof (cases K)
  case None
  with but show ?thesis by (simp add: close_old_def)
next
  case (Some k)
  let ?c = "close_connection k c"
  have ok: "gens_ok c" "attempts_ok c" "hello_ok c" "installed_ok c" "calls_ok c" "published_ok c"
    using but unfolding client_but_def by simp_all
  have rest: "\<And>j. j < length (cl_connections c) \<Longrightarrow> j = k \<or> co_closed (cl_connections c ! j) \<or> in_use j c"
    and free: "\<not> in_use k c"
    using but Some unfolding client_but_def by auto
  have s: "cl_attempts ?c = cl_attempts c" "cl_connection ?c = cl_connection c" "cl_connecting ?c = cl_connecting c"
    "cl_closed ?c = cl_closed c" "cl_generation ?c = cl_generation c" "cl_calls ?c = cl_calls c" "cl_published ?c = cl_published c"
    "cl_notified ?c = cl_notified c"
    by (simp_all add: close_connection_def)
  have u: "cl_connections ?c = (cl_connections c)[k := (cl_connections c ! k)\<lparr>co_closed := True\<rparr>]"
    by (simp add: close_connection_def)
  note g = mark_closed [OF u]
  have gens: "map co_generation (cl_connections ?c) = map co_generation (cl_connections c)"
    by (rule nth_equalityI) (simp_all add: g)
  have "client_ok ?c"
  proof (rule client_okI)
    show "gens_ok ?c" using ok(1) unfolding gens_ok_def s gens by (simp add: all_set_conv_all_nth g)
    show "attempts_ok ?c" using ok(2) unfolding attempts_ok_def s .
    show "hello_ok ?c" using ok(3) free unfolding hello_ok_def s g in_use_def by blast
    show "installed_ok ?c" using ok(4) free unfolding installed_ok_def s g in_use_def by blast
    show "connections_ok ?c" using rest unfolding connections_ok_def s g in_use_def by blast
    have "answered_well ?c call" if "answered_well c call" for call
      using that unfolding answered_well_def by (rule state_well_mono) (simp_all add: s g)
    with ok(5) show "calls_ok ?c" unfolding calls_ok_def s by blast
    have "announced ?c x p = announced c x p" for x p
      unfolding announced_def set_conv_nth by (auto simp: s g)
    then show "published_ok ?c" using ok(6) by (elim published_mono) (simp_all add: s)
  qed
  with Some show ?thesis by (simp add: close_old_def)
qed

lemma detach_ok:
  assumes "client_ok c" shows "client_but (cl_connection c) (c\<lparr>cl_connection := None\<rparr>)"
proof -
  note ok = client_okD [OF assms]
  let ?c = "c\<lparr>cl_connection := None\<rparr>"
  have s: "gens_ok ?c = gens_ok c" "hello_ok ?c = hello_ok c" "installed_ok ?c"
    by (simp_all add: client_pieces)
  have u: "cl_connection ?c = None" "cl_attempts ?c = cl_attempts c" "cl_connecting ?c = cl_connecting c"
    "cl_closed ?c = cl_closed c" "cl_connections ?c = cl_connections c" by simp_all
  have "attempts_ok ?c" using ok(2) unfolding attempts_ok_def u by blast
  moreover have "answered_well ?c call" if "answered_well c call" for call
    using that unfolding answered_well_def by (rule state_well_mono) simp_all
  then have "calls_ok ?c" using ok(6) by (simp add: calls_ok_def)
  moreover have "published_ok ?c" using ok(7) by (elim published_mono) (simp_all add: announced_def)
  moreover have "\<not> in_use k ?c" if "cl_connection c = Some k" for k
    using ok(3,4) that unfolding hello_ok_def installed_ok_def in_use_def u by blast
  moreover have "cl_connection c = Some k \<or> co_closed (cl_connections c ! k) \<or> in_use k ?c" if "k < length (cl_connections c)" for k
    using ok(5) that unfolding connections_ok_def in_use_def u by blast
  ultimately show ?thesis using ok s unfolding client_but_def u by blast
qed

section \<open>Attempts\<close>

lemma start_attempt_ok:
  assumes c: "client_ok c" "cl_connecting c = None" "cl_connection c = None" "\<not> cl_closed c" "Suc (length (cl_attempts c)) < 2 ^ 64"
  shows "client_ok (start_attempt c)"
proof -
  note ok = client_okD [OF c(1)]
  let ?c = "start_attempt c" and ?n = "length (cl_attempts c)"
  define v where "v = \<lparr>at_generation = serial_of ?n, at_progress = Dialing, at_settled = None, at_cancelled = False\<rparr>"
  have g: "cl_generation c + 1 = serial_of ?n" using ok(1) by (simp add: gens_ok_def serial_of_def)
  have s: "cl_attempts ?c = cl_attempts c @ [v]" "cl_connection ?c = cl_connection c" "cl_connecting ?c = Some ?n"
    "cl_closed ?c = cl_closed c" "cl_generation ?c = serial_of ?n" "cl_calls ?c = cl_calls c" "cl_published ?c = cl_published c"
    "cl_notified ?c = cl_notified c" "cl_connections ?c = cl_connections c"
    by (simp_all add: start_attempt_def Let_def g v_def)
  have old: "cl_attempts ?c ! a = cl_attempts c ! a" if "a < ?n" for a using that by (simp add: s nth_append)
  have new: "cl_attempts ?c ! ?n = v" by (simp add: s)
  have split: "a < length (cl_attempts ?c) \<longleftrightarrow> a < ?n \<or> a = ?n" for a by (auto simp: s)
  show ?thesis
  proof (rule client_okI)
    have "at_generation (cl_attempts ?c ! a) = serial_of a" if "a < length (cl_attempts ?c)" for a
      using that ok(1) old new unfolding split gens_ok_def by (auto simp: v_def)
    moreover have "\<exists>a < length (cl_attempts ?c). co_generation x = serial_of a \<and> at_progress (cl_attempts ?c ! a) \<noteq> Dialing"
      if "x \<in> set (cl_connections c)" for x
      using ok(1) that old unfolding split gens_ok_def by (metis (no_types, lifting))
    ultimately show "gens_ok ?c" using ok(1) unfolding gens_ok_def by (simp add: s serial_of_def)
    have "at_settled (cl_attempts c ! a) \<noteq> None" if "a < ?n" for a using ok(2) that c(2) unfolding attempts_ok_def by auto
    then show "attempts_ok ?c" using old new c unfolding attempts_ok_def split by (auto simp: s v_def)
    show "hello_ok ?c" using ok(3) old new unfolding hello_ok_def split s(9) by (auto simp: v_def)
    show "installed_ok ?c" unfolding installed_ok_def s using c(3) by simp
    have "in_use k ?c" if "in_use k c" for k using that old unfolding in_use_def split s(2) by auto
    with ok(5) show "connections_ok ?c" unfolding connections_ok_def s by blast
    have "answered_well ?c call" if "answered_well c call" for call
      using that unfolding answered_well_def by (rule state_well_mono) (simp_all add: s)
    with ok(6) show "calls_ok ?c" unfolding calls_ok_def s by blast
    have pub: "a < ?n \<and> at_progress (cl_attempts c ! a) = Publishing p"
      if "a < length (cl_attempts ?c)" "at_progress (cl_attempts ?c ! a) = Publishing p" for a p
      using that old new unfolding split by (auto simp: v_def)
    show "published_ok ?c" by (rule published_mono [OF ok(7) s(7,8)]) (use pub in \<open>auto simp: announced_def s\<close>)
  qed
qed

text \<open>A well formed state seen through its attempts: the attempt \<open>a\<close> is replaced by \<open>v\<close>.\<close>

lemma set_attempt_nth:
  assumes "c' = set_attempt a v d" "a < length (cl_attempts d)"
  shows "length (cl_attempts c') = length (cl_attempts d)"
    "cl_attempts c' ! b = (if b = a then v else cl_attempts d ! b)"
    "cl_connection c' = cl_connection d" "cl_connecting c' = cl_connecting d" "cl_closed c' = cl_closed d"
    "cl_generation c' = cl_generation d" "cl_calls c' = cl_calls d" "cl_published c' = cl_published d"
    "cl_notified c' = cl_notified d" "cl_connections c' = cl_connections d"
  using assms(2) by (auto simp: set_attempt_def assms(1))

lemma gens_ok_attempt:
  assumes "gens_ok c" "length (cl_attempts c') = length (cl_attempts c)" "cl_generation c' = cl_generation c"
    "map co_generation (cl_connections c') = map co_generation (cl_connections c)"
    "\<And>b. b < length (cl_attempts c) \<Longrightarrow> at_generation (cl_attempts c' ! b) = at_generation (cl_attempts c ! b)
       \<and> (at_progress (cl_attempts c ! b) \<noteq> Dialing \<longrightarrow> at_progress (cl_attempts c' ! b) \<noteq> Dialing)"
  shows "gens_ok c'"
proof -
  have "\<exists>a < length (cl_attempts c'). co_generation x = serial_of a \<and> at_progress (cl_attempts c' ! a) \<noteq> Dialing"
    if "x \<in> set (cl_connections c')" for x
  proof -
    have "co_generation x \<in> set (map co_generation (cl_connections c))" using that assms(4) by (metis image_eqI list.set_map)
    then obtain y where "y \<in> set (cl_connections c)" "co_generation y = co_generation x" by auto
    with assms(1,2,5) show ?thesis unfolding gens_ok_def by metis
  qed
  with assms show ?thesis unfolding gens_ok_def by simp
qed

lemma attempts_ok_old:
  assumes "attempts_ok c" "length (cl_attempts c') = length (cl_attempts c)" "cl_connection c' = cl_connection c"
    "cl_closed c' = cl_closed c"
    "\<And>b. b < length (cl_attempts c') \<Longrightarrow> at_settled (cl_attempts c' ! b) = None \<Longrightarrow> cl_connecting c' = Some b"
    "\<And>b. cl_connecting c' = Some b \<Longrightarrow> cl_connecting c = Some b \<and> cl_attempts c' ! b = cl_attempts c ! b"
  shows "attempts_ok c'"
  unfolding attempts_ok_def
proof (intro conjI allI impI, goal_cases)
  case (1 b)
  then show ?case by (rule assms(5))
next
  case (2 b)
  then show ?case using assms(1,2,6) unfolding attempts_ok_def by metis
next
  case (3 b)
  then show ?case using assms(1,6) unfolding attempts_ok_def by metis
next
  case (4 b)
  then show ?case using assms(1,6) unfolding attempts_ok_def by metis
next
  case (5 b)
  then show ?case using assms(1,6) unfolding attempts_ok_def by metis
next
  case (6 b p)
  then show ?case using assms(1,6) unfolding attempts_ok_def by metis
next
  case (7 b)
  then show ?case using assms(1,3,6) unfolding attempts_ok_def by metis
next
  case (8 b)
  then show ?case using assms(1,4,6) unfolding attempts_ok_def by metis
qed

lemma finish_ok:
  assumes c: "client_ok c" "a < length (cl_attempts c)"
    and v: "at_generation v = at_generation (cl_attempts c ! a)" "at_progress v = Returned" "at_settled v \<noteq> None"
    and con: "con = (if cl_connecting c = Some a then None else cl_connecting c)"
    and K: "\<And>k. K = Some k \<longleftrightarrow> at_progress (cl_attempts c ! a) = Hello k"
  shows "client_but K (set_attempt a v (c\<lparr>cl_connecting := con\<rparr>))"
proof -
  note ok = client_okD [OF c(1)]
  let ?c = "set_attempt a v (c\<lparr>cl_connecting := con\<rparr>)"
  have s: "length (cl_attempts ?c) = length (cl_attempts c)" "cl_connection ?c = cl_connection c" "cl_connecting ?c = con"
    "cl_closed ?c = cl_closed c" "cl_generation ?c = cl_generation c" "cl_calls ?c = cl_calls c" "cl_published ?c = cl_published c"
    "cl_notified ?c = cl_notified c" "cl_connections ?c = cl_connections c"
    by (simp_all add: set_attempt_def)
  have n: "cl_attempts ?c ! b = (if b = a then v else cl_attempts c ! b)" for b
    using c(2) by (simp add: set_attempt_def nth_list_update)
  have same: "at_progress (cl_attempts ?c ! b) = (if b = a then Returned else at_progress (cl_attempts c ! b))"
    "at_generation (cl_attempts ?c ! b) = at_generation (cl_attempts c ! b)" for b
    using v by (simp_all add: n)
  have set: "at_settled (cl_attempts ?c ! b) = None \<longleftrightarrow> b \<noteq> a \<and> at_settled (cl_attempts c ! b) = None" for b
    using v(3) by (simp add: n)
  show ?thesis unfolding client_but_def
  proof (intro conjI allI impI)
    show "gens_ok ?c" by (rule gens_ok_attempt [OF ok(1)]) (simp_all add: s same)
    have "con = Some b" if "b < length (cl_attempts c)" "at_settled (cl_attempts ?c ! b) = None" for b
    proof -
      have "b \<noteq> a" "cl_connecting c = Some b" using ok(2) that set unfolding attempts_ok_def by blast+
      with con show ?thesis by simp
    qed
    moreover have "cl_connecting c = Some b \<and> cl_attempts ?c ! b = cl_attempts c ! b" if "con = Some b" for b
      using that con n by (auto split: if_splits)
    ultimately show "attempts_ok ?c" by (intro attempts_ok_old [OF ok(2)]) (simp_all add: s)
    show "hello_ok ?c" using ok(3) unfolding hello_ok_def s same by (metis attempt_progress.distinct(9))
    show "installed_ok ?c" using ok(4) unfolding installed_ok_def s .
    have "answered_well ?c call" if "answered_well c call" for call
      using that unfolding answered_well_def by (rule state_well_mono) (simp_all add: s)
    with ok(6) show "calls_ok ?c" unfolding calls_ok_def s by blast
    show "published_ok ?c"
      by (rule published_mono [OF ok(7) s(7,8)]) (auto simp: announced_def s same split: if_splits)
    show "K = Some k \<or> co_closed (cl_connections ?c ! k) \<or> in_use k ?c" if "k < length (cl_connections ?c)" for k
    proof (rule ccontr)
      assume no: "\<not> ?thesis"
      with ok(5) that have "in_use k c" unfolding connections_ok_def s by blast
      moreover have "cl_connection c \<noteq> Some k" using no by (simp add: in_use_def s)
      ultimately obtain b where b: "b < length (cl_attempts c)" "at_progress (cl_attempts c ! b) = Hello k"
        unfolding in_use_def by blast
      with no K [of k] have "b \<noteq> a" by auto
      with b no show False unfolding in_use_def s same by auto
    qed
    show "\<not> in_use k ?c" if "K = Some k" for k
    proof
      have a: "at_progress (cl_attempts c ! a) = Hello k" using that K by blast
      assume "in_use k ?c"
      then consider "cl_connection c = Some k"
        | b where "b < length (cl_attempts c)" "b \<noteq> a" "at_progress (cl_attempts c ! b) = Hello k"
        unfolding in_use_def s same by (auto split: if_splits)
      then show False
      proof cases
        case 1
        with a ok(3,4) c(2) show False unfolding hello_ok_def installed_ok_def by blast
      next
        case 2
        with a ok(3) c(2) show False unfolding hello_ok_def by blast
      qed
    qed
  qed
qed

lemma retire_ok:
  assumes c: "client_ok c" "cl_connecting c = Some a"
    and v: "v = (cl_attempts c ! a)\<lparr>at_settled := Some err, at_cancelled := True\<rparr>"
  shows "client_ok (set_attempt a v (c\<lparr>cl_connecting := None\<rparr>))"
proof -
  note ok = client_okD [OF c(1)]
  let ?c = "set_attempt a v (c\<lparr>cl_connecting := None\<rparr>)"
  have a: "a < length (cl_attempts c)" using ok(2) c(2) by (auto simp: attempts_ok_def)
  have s: "length (cl_attempts ?c) = length (cl_attempts c)" "cl_connection ?c = cl_connection c" "cl_connecting ?c = None"
    "cl_closed ?c = cl_closed c" "cl_generation ?c = cl_generation c" "cl_calls ?c = cl_calls c" "cl_published ?c = cl_published c"
    "cl_notified ?c = cl_notified c" "cl_connections ?c = cl_connections c"
    by (simp_all add: set_attempt_def)
  have n: "cl_attempts ?c ! b = (if b = a then v else cl_attempts c ! b)" for b
    using a by (simp add: set_attempt_def nth_list_update)
  have w: "at_progress v = at_progress (cl_attempts c ! a)" "at_generation v = at_generation (cl_attempts c ! a)"
    "at_settled v \<noteq> None" by (simp_all add: v)
  have same: "at_progress (cl_attempts ?c ! b) = at_progress (cl_attempts c ! b)"
    "at_generation (cl_attempts ?c ! b) = at_generation (cl_attempts c ! b)"
    "at_settled (cl_attempts ?c ! b) = None \<longleftrightarrow> b \<noteq> a \<and> at_settled (cl_attempts c ! b) = None" for b
    by (cases "b = a"; simp add: n w)+
  show ?thesis
  proof (rule client_okI)
    show "gens_ok ?c" by (rule gens_ok_attempt [OF ok(1)]) (simp_all add: s same)
    have "at_settled (cl_attempts ?c ! b) \<noteq> None" if "b < length (cl_attempts c)" for b
    proof
      assume "at_settled (cl_attempts ?c ! b) = None"
      then have "b \<noteq> a" "cl_connecting c = Some b" using ok(2) that same(3) unfolding attempts_ok_def by blast+
      with c(2) show False by simp
    qed
    then show "attempts_ok ?c" by (intro attempts_ok_old [OF ok(2) s(1,2,4)]) (metis s(1), metis s(3) option.discI)
    show "hello_ok ?c" using ok(3) unfolding hello_ok_def s same .
    show "installed_ok ?c" using ok(4) unfolding installed_ok_def s .
    show "connections_ok ?c" using ok(5) unfolding connections_ok_def in_use_def s same .
    have "answered_well ?c call" if "answered_well c call" for call
      using that unfolding answered_well_def by (rule state_well_mono) (simp_all add: s)
    with ok(6) show "calls_ok ?c" unfolding calls_ok_def s by blast
    show "published_ok ?c"
      by (rule published_mono [OF ok(7) s(7,8)]) (simp_all add: announced_def s same)
  qed
qed

lemma shutdown_ok:
  assumes "client_ok c" "cl_connection c = None" "cl_connecting c = None"
  shows "client_ok (c\<lparr>cl_closed := b\<rparr>)"
proof -
  note ok = client_okD [OF assms(1)]
  let ?c = "c\<lparr>cl_closed := b\<rparr>"
  have s: "cl_connection ?c = None" "cl_connecting ?c = None" "cl_attempts ?c = cl_attempts c" "cl_connections ?c = cl_connections c"
    using assms(2,3) by simp_all
  have "gens_ok ?c = gens_ok c" "hello_ok ?c = hello_ok c" "connections_ok ?c = connections_ok c" "published_ok ?c = published_ok c"
    by (simp_all add: client_pieces in_use_def announced_def)
  moreover have "attempts_ok ?c" using ok(2) assms(2,3) unfolding attempts_ok_def s by auto
  moreover have "installed_ok ?c" unfolding installed_ok_def s by simp
  moreover have "answered_well ?c call" if "answered_well c call" for call
    using that unfolding answered_well_def by (rule state_well_mono) simp_all
  then have "calls_ok ?c" using ok(6) by (simp add: calls_ok_def)
  ultimately show ?thesis using ok by (simp add: client_ok_def)
qed

lemma publish_ok:
  assumes "client_ok c" "announced c g p" shows "client_ok (publishProfile g p c)"
proof (cases "g \<le> cl_notified c")
  case True
  with assms show ?thesis by (simp add: publishProfile_def)
next
  case False
  note ok = client_okD [OF assms(1)]
  let ?c = "c\<lparr>cl_notified := g, cl_published := cl_published c @ [(g, p)]\<rparr>"
  have "gens_ok ?c = gens_ok c" "attempts_ok ?c = attempts_ok c" "hello_ok ?c = hello_ok c" "connections_ok ?c = connections_ok c"
    "installed_ok ?c = installed_ok c"
    by (simp_all add: client_pieces in_use_def)
  moreover have "answered_well ?c call" if "answered_well c call" for call
    using that unfolding answered_well_def by (rule state_well_mono) simp_all
  then have "calls_ok ?c" using ok(6) by (simp add: calls_ok_def)
  moreover have an: "announced ?c x q = announced c x q" for x q by (simp add: announced_def)
  have less: "fst x < g" if "x \<in> set (cl_published c)" for x
    using ok(7) that False unfolding published_ok_def by (metis not_le order_le_less_trans)
  have "published_ok ?c"
    using ok(7) assms(2) less unfolding published_ok_def an by (auto simp: sorted_wrt_append less_imp_le)
  ultimately show ?thesis using ok False by (simp add: client_ok_def publishProfile_def)
qed

lemma dialed_ok:
  assumes c: "client_ok c" "a < length (cl_attempts c)" "at_progress (cl_attempts c ! a) = Dialing"
    and few: "length (cl_attempts c) < 2 ^ 64"
  shows "client_ok (attempt_dialed a c)"
proof -
  note ok = client_okD [OF c(1)]
  let ?c = "attempt_dialed a c" and ?k = "length (cl_connections c)"
  define new where "new = \<lparr>co_generation = serial_of a, co_profile = None, co_done = False, co_closed = False\<rparr>"
  define v where "v = (cl_attempts c ! a)\<lparr>at_progress := Hello ?k\<rparr>"
  have g: "at_generation (cl_attempts c ! a) = serial_of a" using ok(1) c(2) by (simp add: gens_ok_def)
  have s: "length (cl_attempts ?c) = length (cl_attempts c)" "cl_connection ?c = cl_connection c" "cl_connecting ?c = cl_connecting c"
    "cl_closed ?c = cl_closed c" "cl_generation ?c = cl_generation c" "cl_calls ?c = cl_calls c" "cl_published ?c = cl_published c"
    "cl_notified ?c = cl_notified c" "cl_connections ?c = cl_connections c @ [new]" "cl_attempts ?c = (cl_attempts c)[a := v]"
    by (simp_all add: attempt_dialed_def set_attempt_def Let_def new_def g v_def)
  have n: "cl_attempts ?c ! b = (if b = a then v else cl_attempts c ! b)" for b
    using c(2) by (simp add: s nth_list_update)
  have v: "at_progress v = Hello ?k" "at_generation v = at_generation (cl_attempts c ! a)"
    "at_settled v = at_settled (cl_attempts c ! a)" "at_cancelled v = at_cancelled (cl_attempts c ! a)"
    by (simp_all add: v_def)
  have same: "at_progress (cl_attempts ?c ! b) = (if b = a then Hello ?k else at_progress (cl_attempts c ! b))"
    "at_generation (cl_attempts ?c ! b) = at_generation (cl_attempts c ! b)"
    "at_settled (cl_attempts ?c ! b) = at_settled (cl_attempts c ! b)"
    "at_cancelled (cl_attempts ?c ! b) = at_cancelled (cl_attempts c ! b)" for b
    by (cases "b = a"; simp add: n v)+
  have old: "cl_connections ?c ! k = cl_connections c ! k" if "k < ?k" for k using that by (simp add: s nth_append)
  have k: "cl_connections ?c ! ?k = new" by (simp add: s)
  show ?thesis
  proof (rule client_okI)
    have "serial_of a \<notin> set (map co_generation (cl_connections c))"
    proof
      assume "serial_of a \<in> set (map co_generation (cl_connections c))"
      then obtain b where "b < length (cl_attempts c)" "serial_of a = serial_of b" "at_progress (cl_attempts c ! b) \<noteq> Dialing"
        using ok(1) unfolding gens_ok_def by auto
      with serial_of_eq [of a b] c(2,3) few show False by auto
    qed
    moreover have "\<exists>b < length (cl_attempts c). co_generation x = serial_of b \<and> at_progress (cl_attempts ?c ! b) \<noteq> Dialing"
      if "x \<in> set (cl_connections ?c)" for x
    proof (cases "x = new")
      case True
      with c(2) show ?thesis by (intro exI [of _ a]) (simp add: same new_def)
    next
      case False
      with that have "x \<in> set (cl_connections c)" by (simp add: s)
      with ok(1) obtain b where "b < length (cl_attempts c)" "co_generation x = serial_of b" "at_progress (cl_attempts c ! b) \<noteq> Dialing"
        unfolding gens_ok_def by blast
      then show ?thesis by (intro exI [of _ b]) (simp add: same)
    qed
    ultimately show "gens_ok ?c" using ok(1) unfolding gens_ok_def by (simp add: s(1,5,9) same new_def)
    have "at_progress (cl_attempts ?c ! b) \<noteq> Returned \<and> (\<forall>p. at_progress (cl_attempts ?c ! b) \<noteq> Publishing p)"
      if "cl_connecting c = Some b" for b
      using ok(2) that unfolding attempts_ok_def same by (cases "b = a") simp_all
    then show "attempts_ok ?c" using ok(2) unfolding attempts_ok_def s(1-4) same(3,4) by blast
    show "hello_ok ?c" unfolding hello_ok_def
    proof (intro conjI allI impI, unfold s(1))
      fix b k assume b: "b < length (cl_attempts c)" "at_progress (cl_attempts ?c ! b) = Hello k"
      have "b = a \<and> k = ?k \<or> b \<noteq> a \<and> at_progress (cl_attempts c ! b) = Hello k" using b(2) by (simp add: same split: if_splits)
      then have *: "b = a \<and> k = ?k \<or> k < ?k \<and> co_generation (cl_connections c ! k) = serial_of b
          \<and> \<not> co_closed (cl_connections c ! k) \<and> co_profile (cl_connections c ! k) = None"
        using ok(3) b(1) unfolding hello_ok_def by blast
      from * show "k < length (cl_connections ?c)" by (auto simp: s(9))
      from * old k show "co_generation (cl_connections ?c ! k) = serial_of b" by (auto simp: new_def)
      from * old k show "\<not> co_closed (cl_connections ?c ! k)" by (auto simp: new_def)
      from * old k show "co_profile (cl_connections ?c ! k) = None" by (auto simp: new_def)
    next
      fix b d k assume b: "b < length (cl_attempts c)" "d < length (cl_attempts c)" "at_progress (cl_attempts ?c ! b) = Hello k"
        "at_progress (cl_attempts ?c ! d) = Hello k"
      have ne: "at_progress (cl_attempts c ! x) \<noteq> Hello ?k" if "x < length (cl_attempts c)" for x
        using ok(3) that unfolding hello_ok_def by blast
      have "b = d" if "b \<noteq> a" "d \<noteq> a" using ok(3) b that unfolding hello_ok_def same by auto
      with b ne show "b = d" unfolding same by (metis attempt_progress.inject(1))
    qed
    show "installed_ok ?c" using ok(4) old unfolding installed_ok_def s(2,4,5) by (auto simp: s(9))
    show "connections_ok ?c" unfolding connections_ok_def
    proof (intro allI impI)
      fix k assume "k < length (cl_connections ?c)"
      then have "k < ?k \<or> k = ?k" by (simp add: s(9) less_Suc_eq)
      then consider "k < ?k" | "k = ?k" by blast
      then show "co_closed (cl_connections ?c ! k) \<or> in_use k ?c"
      proof cases
        case 1
        with ok(5) have "co_closed (cl_connections c ! k) \<or> in_use k c" unfolding connections_ok_def by blast
        moreover have "in_use k ?c" if "in_use k c"
          using that c(3) unfolding in_use_def s(1,2) same by (metis attempt_progress.distinct(1))
        ultimately show ?thesis using old [OF 1] by auto
      next
        case 2
        then show ?thesis using c(2) unfolding in_use_def s(1,2) same by auto
      qed
    qed
    have "answered_well ?c call" if "answered_well c call" for call
      using that unfolding answered_well_def by (rule state_well_mono) (simp_all add: s(1,9) nth_append)
    with ok(6) show "calls_ok ?c" unfolding calls_ok_def s by blast
    show "published_ok ?c"
      by (rule published_mono [OF ok(7) s(7,8)]) (auto simp: announced_def s(1,9) same split: if_splits)
  qed
qed

lemma ends_ok:
  assumes c: "client_ok c" "k < length (cl_connections c)"
  shows "client_ok (c\<lparr>cl_connections := (cl_connections c)[k := (cl_connections c ! k)\<lparr>co_done := True\<rparr>]\<rparr>)"
proof -
  note ok = client_okD [OF c(1)]
  define xs where "xs = (cl_connections c)[k := (cl_connections c ! k)\<lparr>co_done := True\<rparr>]"
  let ?c = "c\<lparr>cl_connections := xs\<rparr>"
  have g: "length xs = length (cl_connections c)" "co_generation (xs ! j) = co_generation (cl_connections c ! j)"
    "co_profile (xs ! j) = co_profile (cl_connections c ! j)" "co_closed (xs ! j) = co_closed (cl_connections c ! j)"
    "co_done (cl_connections c ! j) \<Longrightarrow> co_done (xs ! j)" for j
    using c(2) by (cases "j = k"; simp add: xs_def)+
  have s: "cl_attempts ?c = cl_attempts c" "cl_connection ?c = cl_connection c" "cl_connecting ?c = cl_connecting c"
    "cl_closed ?c = cl_closed c" "cl_generation ?c = cl_generation c" "cl_calls ?c = cl_calls c" "cl_published ?c = cl_published c"
    "cl_notified ?c = cl_notified c" "cl_connections ?c = xs"
    by simp_all
  have gens: "map co_generation xs = map co_generation (cl_connections c)"
    by (rule nth_equalityI) (simp_all add: g)
  have "client_ok ?c"
  proof (rule client_okI)
    show "gens_ok ?c" by (rule gens_ok_attempt [OF ok(1)]) (simp_all add: gens)
    show "attempts_ok ?c" using ok(2) unfolding attempts_ok_def s .
    show "hello_ok ?c" using ok(3) unfolding hello_ok_def s g .
    show "installed_ok ?c" using ok(4) unfolding installed_ok_def s g .
    show "connections_ok ?c" using ok(5) unfolding connections_ok_def in_use_def s g .
    have "answered_well ?c call" if "answered_well c call" for call
      using that unfolding answered_well_def by (rule state_well_mono) (simp_all add: g)
    with ok(6) show "calls_ok ?c" unfolding calls_ok_def s by blast
    have "announced ?c x p = announced c x p" for x p
      unfolding announced_def set_conv_nth by (auto simp: g)
    then show "published_ok ?c" using ok(7) by (elim published_mono) (simp_all add: s)
  qed
  then show ?thesis by (simp add: xs_def)
qed

lemma install_ok:
  assumes c: "client_ok c" "cl_connecting c = Some a" "at_progress (cl_attempts c ! a) = Hello k"
    and v: "at_generation v = at_generation (cl_attempts c ! a)" "at_progress v \<in> {Returned, Publishing profile}"
      "at_settled v \<noteq> None"
    and x: "x = (cl_connections c ! k)\<lparr>co_profile := Some profile\<rparr>"
  shows "client_ok (set_attempt a v (c\<lparr>cl_connecting := None, cl_connection := Some k,
    cl_connections := (cl_connections c)[k := x]\<rparr>))"
proof -
  note ok = client_okD [OF c(1)]
  let ?c = "set_attempt a v (c\<lparr>cl_connecting := None, cl_connection := Some k, cl_connections := (cl_connections c)[k := x]\<rparr>)"
  have a: "a < length (cl_attempts c)" "Suc a = length (cl_attempts c)" "cl_connection c = None" "\<not> cl_closed c"
    using ok(2) c(2) by (auto simp: attempts_ok_def)
  have k: "k < length (cl_connections c)" "co_generation (cl_connections c ! k) = serial_of a"
    "\<not> co_closed (cl_connections c ! k)" "co_profile (cl_connections c ! k) = None"
    using ok(3) a(1) c(3) unfolding hello_ok_def by blast+
  have s: "length (cl_attempts ?c) = length (cl_attempts c)" "cl_connection ?c = Some k" "cl_connecting ?c = None"
    "cl_closed ?c = cl_closed c" "cl_generation ?c = cl_generation c" "cl_calls ?c = cl_calls c" "cl_published ?c = cl_published c"
    "cl_notified ?c = cl_notified c" "cl_connections ?c = (cl_connections c)[k := x]"
    "length (cl_connections ?c) = length (cl_connections c)"
    by (simp_all add: set_attempt_def)
  have n: "cl_attempts ?c ! b = (if b = a then v else cl_attempts c ! b)" for b
    using a(1) by (simp add: set_attempt_def nth_list_update)
  have g: "co_generation (cl_connections ?c ! j) = co_generation (cl_connections c ! j)"
    "co_closed (cl_connections ?c ! j) = co_closed (cl_connections c ! j)"
    "co_done (cl_connections ?c ! j) = co_done (cl_connections c ! j)"
    "co_profile (cl_connections ?c ! j) = (if j = k then Some profile else co_profile (cl_connections c ! j))" for j
    unfolding s(9) using k(1) by (cases "j = k"; simp add: x)+
  have hello: "at_progress (cl_attempts ?c ! b) = Hello j \<longleftrightarrow> b \<noteq> a \<and> at_progress (cl_attempts c ! b) = Hello j" for b j
    using v(2) by (auto simp: n)
  have others: "j \<noteq> k" if "b < length (cl_attempts c)" "b \<noteq> a" "at_progress (cl_attempts c ! b) = Hello j" for b j
    using ok(3) a(1) c(3) that unfolding hello_ok_def by blast
  have gens: "map co_generation (cl_connections ?c) = map co_generation (cl_connections c)"
    by (rule nth_equalityI) (simp_all add: s(10) g)
  have an: "announced ?c y p" if "announced c y p" for y p
  proof -
    from that obtain j where "j < length (cl_connections c)" "co_generation (cl_connections c ! j) = y"
      "co_profile (cl_connections c ! j) = Some p" unfolding announced_def by (metis in_set_conv_nth)
    moreover from this have "j \<noteq> k" using k(4) by auto
    ultimately have "cl_connections ?c ! j \<in> set (cl_connections ?c)" "co_generation (cl_connections ?c ! j) = y"
      "co_profile (cl_connections ?c ! j) = Some p" by (simp_all add: g s(10))
    then show ?thesis unfolding announced_def by blast
  qed
  have new: "announced ?c (serial_of a) profile"
  proof -
    have "cl_connections ?c ! k \<in> set (cl_connections ?c)" "co_generation (cl_connections ?c ! k) = serial_of a"
      "co_profile (cl_connections ?c ! k) = Some profile" using k by (simp_all add: g s(10))
    then show ?thesis unfolding announced_def by blast
  qed
  show ?thesis
  proof (rule client_okI)
    show "gens_ok ?c" by (rule gens_ok_attempt [OF ok(1) s(1,5) gens]) (use v in \<open>auto simp: n\<close>)
    have "at_settled (cl_attempts ?c ! b) \<noteq> None" if "b < length (cl_attempts c)" for b
    proof (cases "b = a")
      case True
      with v(3) show ?thesis by (simp add: n)
    next
      case False
      with ok(2) that c(2) have "at_settled (cl_attempts c ! b) \<noteq> None" unfolding attempts_ok_def by (metis option.inject)
      with False show ?thesis by (simp add: n)
    qed
    then show "attempts_ok ?c" unfolding attempts_ok_def s(1,3) by blast
    show "hello_ok ?c" using ok(3) others unfolding hello_ok_def s(1,10) hello g by metis
    have "cl_generation c = serial_of a" using ok(1) a(2) by (simp add: gens_ok_def serial_of_def del: of_nat_Suc)
    then show "installed_ok ?c" using k a(4) unfolding installed_ok_def s(2,4,5,10) g by simp
    show "connections_ok ?c" unfolding connections_ok_def s(10) g
    proof (intro allI impI)
      fix j assume "j < length (cl_connections c)"
      with ok(5) have "co_closed (cl_connections c ! j) \<or> in_use j c" unfolding connections_ok_def by blast
      moreover have "in_use j ?c" if j: "in_use j c"
      proof (cases "j = k")
        case True
        then show ?thesis by (simp add: in_use_def s(2))
      next
        case False
        with j a(3) obtain b where "b < length (cl_attempts c)" "at_progress (cl_attempts c ! b) = Hello j"
          unfolding in_use_def by auto
        moreover from this c(3) False have "b \<noteq> a" by auto
        ultimately show ?thesis unfolding in_use_def s(1) hello by blast
      qed
      ultimately show "co_closed (cl_connections c ! j) \<or> in_use j ?c" by blast
    qed
    have "answered_well ?c call" if "answered_well c call" for call
      using that unfolding answered_well_def by (rule state_well_mono) (simp_all add: s(1,10) g)
    with ok(6) show "calls_ok ?c" unfolding calls_ok_def s by blast
    have "a = b \<and> p = profile \<or> at_progress (cl_attempts c ! b) = Publishing p"
      if "at_progress (cl_attempts ?c ! b) = Publishing p" for b p
      using that v(2) by (auto simp: n split: if_splits)
    then show "published_ok ?c"
      by (intro published_mono [OF ok(7) s(7,8)]) (use an new s(1) in \<open>auto\<close>)
  qed
qed

section \<open>Every action\<close>

lemma ready_section_ok:
  assumes c: "client_ok c" and few: "Suc (length (cl_attempts c)) < 2 ^ 64"
    and r: "ready_section expected waited c = (st, c')"
  shows "client_ok c' \<and> state_well c' expected st \<and> cl_calls c' = cl_calls c"
proof -
  note ok = client_okD [OF c]
  have refused: "expected \<in> {None, Some (cl_generation c)}" if "\<not> generation_refused expected c"
    using that by (auto simp: generation_refused_def split: option.splits)
  have inst: "k < length (cl_connections c)" "co_generation (cl_connections c ! k) = cl_generation c"
    "co_profile (cl_connections c ! k) \<noteq> None" if "cl_connection c = Some k" for k
    using ok(4) that unfolding installed_ok_def by blast+
  note d = ready_section_def [of expected waited c, unfolded r, symmetric]
  let ?c = "c\<lparr>cl_connection := None\<rparr>"
  let ?d = "close_old (cl_connection c) ?c"
  have s: "cl_calls ?d = cl_calls c" "cl_attempts ?d = cl_attempts c" "cl_connecting ?d = cl_connecting c"
    "cl_connection ?d = None" "cl_closed ?d = cl_closed c"
    by (simp_all add: close_old_def close_connection_def split: option.split)
  have comm: "close_old (cl_connection c) (start_attempt ?c) = start_attempt ?d"
    by (simp add: close_old_def close_connection_def start_attempt_def Let_def split: option.split)
  have dok: "client_ok ?d" by (rule close_old_ok [OF detach_ok [OF c]])
  show ?thesis
  proof (cases "cl_closed c \<or> generation_refused expected c")
    case True
    with d have "c' = c" "st = Answered (Inl ShutDown) \<or> st = Answered (Inl ConnectionChanged)" by (auto split: if_splits)
    with c show ?thesis by auto
  next
    case False
    then have go: "\<not> cl_closed c" "expected \<in> {None, Some (cl_generation c)}" using refused by simp_all
    show ?thesis
    proof (cases "\<exists>k. cl_connection c = Some k \<and> (waited \<or> \<not> isDone k c)")
      case True
      then obtain k where k: "cl_connection c = Some k" "waited \<or> \<not> isDone k c" by blast
      with d False have "c' = c" "isDone k c \<and> st = Dropping k ClosedDuringSetup \<or> st = Answered (Inr (k, cl_generation c))"
        by (auto simp: Let_def split: if_splits)
      with inst [OF k(1)] c go show ?thesis by (auto simp: isDone_def)
    next
      case gone: False
      then have live: "(case cl_connection c of Some k \<Rightarrow> if isDone k c then None else Some k | None \<Rightarrow> None) = None"
        by (auto split: option.split)
      show ?thesis
      proof (cases waited)
        case True
        with gone have "cl_connection c = None" by auto
        with d False True have "c' = c" "st = Answered (Inl ClosedDuringSetup)" by (simp_all add: Let_def)
        with c show ?thesis by simp
      next
        case first: False
        show ?thesis
        proof (cases "cl_connecting c")
          case None
          with d False first live have "st = WaitingFor (length (cl_attempts c))" "c' = start_attempt ?d"
            unfolding comm [symmetric] by (simp_all add: Let_def start_attempt_def)
          moreover have "client_ok (start_attempt ?d)"
            by (rule start_attempt_ok [OF dok]) (use None go few s in simp_all)
          ultimately show ?thesis using s by (simp add: start_attempt_def Let_def)
        next
          case (Some a)
          with d False first live have "st = WaitingFor a" "c' = ?d" by (simp_all add: Let_def)
          moreover have "a < length (cl_attempts c)" using ok(2) Some by (auto simp: attempts_ok_def)
          ultimately show ?thesis using dok s by simp
        qed
      qed
    qed
  qed
qed

lemma drop_ok:
  assumes c: "client_ok c" "k < length (cl_connections c)" "co_profile (cl_connections c ! k) \<noteq> None"
  shows "client_ok (drop_connection k c)"
proof (cases "cl_connection c = Some k")
  case True
  with close_old_ok [OF detach_ok [OF c(1)]] show ?thesis by (simp add: drop_connection_def close_old_def)
next
  case False
  have "at_progress (cl_attempts c ! a) \<noteq> Hello k" if "a < length (cl_attempts c)" for a
    using client_okD(3) [OF c(1), unfolded hello_ok_def, THEN conjunct1] c(3) that by auto
  with False have "\<not> in_use k c" by (simp add: in_use_def)
  then have "client_but (Some k) c" using c(1) unfolding client_but_def client_ok_def connections_ok_def by auto
  from close_old_ok [OF this] False show ?thesis by (simp add: drop_connection_def close_old_def)
qed

lemma disconnect_ok:
  assumes "client_ok c" shows "client_ok (disconnect shutdown c)"
proof -
  define d where "d = close_old (cl_connection c) (c\<lparr>cl_connection := None\<rparr>)"
  have d: "client_ok d" "cl_connection d = None" "cl_connecting d = cl_connecting c" "cl_attempts d = cl_attempts c"
    using close_old_ok [OF detach_ok [OF assms]]
    by (simp_all add: d_def close_old_def close_connection_def split: option.split)
  let ?err = "Some (if cl_closed c \<or> shutdown then ShutDown else ConnectionReset)"
  define e where "e = (case cl_connecting c of None \<Rightarrow> d | Some a \<Rightarrow>
    set_attempt a ((cl_attempts d ! a)\<lparr>at_settled := Some ?err, at_cancelled := True\<rparr>) (d\<lparr>cl_connecting := None\<rparr>))"
  have e: "client_ok e" "cl_connection e = None" "cl_connecting e = None"
    using d retire_ok [OF d(1) _ refl] by (auto simp: e_def set_attempt_def split: option.split)
  have "disconnect shutdown c = e\<lparr>cl_closed := cl_closed c \<or> shutdown\<rparr>"
    by (simp add: disconnect_def Let_def e_def d_def set_attempt_def close_old_def close_connection_def split: option.split)
  with shutdown_ok [OF e] show ?thesis by simp
qed

lemma connect_section_ok:
  assumes c: "client_ok c" "a < length (cl_attempts c)"
    and K: "case K of None \<Rightarrow> at_progress (cl_attempts c ! a) = Dialing \<and> (\<exists>err. outcome = Inl err)
      | Some k \<Rightarrow> at_progress (cl_attempts c ! a) = Hello k"
  shows "client_ok (connect_section notify a K outcome c)"
proof -
  have K': "K = Some k \<longleftrightarrow> at_progress (cl_attempts c ! a) = Hello k" for k
    using K by (auto split: option.splits)
  let ?v = "cl_attempts c ! a"
  show ?thesis
  proof (cases "cl_connecting c = Some a")
    case False
    have "at_settled ?v \<noteq> None" using client_okD(2) [OF c(1)] c(2) False unfolding attempts_ok_def by blast
    then have "client_but K (set_attempt a (?v\<lparr>at_progress := Returned, at_cancelled := True\<rparr>) (c\<lparr>cl_connecting := cl_connecting c\<rparr>))"
      by (intro finish_ok [OF c]) (simp_all add: False K')
    from close_old_ok [OF this] False show ?thesis by (simp add: connect_section_def Let_def)
  next
    case True
    show ?thesis
    proof (cases outcome)
      case (Inl err)
      have "client_but K (set_attempt a (?v\<lparr>at_progress := Returned, at_settled := Some (Some err), at_cancelled := True\<rparr>)
          (c\<lparr>cl_connecting := None\<rparr>))"
        by (intro finish_ok [OF c]) (simp_all add: True K')
      from close_old_ok [OF this] True Inl show ?thesis by (simp add: connect_section_def Let_def)
    next
      case (Inr profile)
      with K obtain k where k: "K = Some k" by (cases K) auto
      with K' have "at_progress ?v = Hello k" by blast
      from install_ok [OF c(1) True this, of
          "?v\<lparr>at_progress := (if notify then Publishing profile else Returned), at_settled := Some None, at_cancelled := \<not> notify\<rparr>"
          profile, OF _ _ _ refl] k True Inr
      show ?thesis by (simp add: connect_section_def Let_def)
    qed
  qed
qed

lemma publish_act_ok:
  assumes c: "client_ok c" "a < length (cl_attempts c)" "at_progress (cl_attempts c ! a) = Publishing p"
  shows "client_ok (publishProfile (at_generation (cl_attempts c ! a)) p
    (set_attempt a ((cl_attempts c ! a)\<lparr>at_progress := Returned, at_cancelled := True\<rparr>) c))"
proof -
  note ok = client_okD [OF c(1)]
  let ?v = "(cl_attempts c ! a)\<lparr>at_progress := Returned, at_cancelled := True\<rparr>"
  have con: "cl_connecting c \<noteq> Some a" using ok(2) c(3) unfolding attempts_ok_def by blast
  have "at_settled (cl_attempts c ! a) \<noteq> None" using ok(2) c(2) con unfolding attempts_ok_def by blast
  then have "client_but None (set_attempt a ?v (c\<lparr>cl_connecting := cl_connecting c\<rparr>))"
    by (intro finish_ok [OF c(1,2)]) (simp_all add: con c(3))
  then have "client_ok (set_attempt a ?v c)" by simp
  moreover have "announced (set_attempt a ?v c) (at_generation (cl_attempts c ! a)) p"
    using ok(1,7) c(2,3) unfolding published_ok_def gens_ok_def announced_def set_attempt_def by simp
  ultimately show ?thesis by (rule publish_ok)
qed

lemma connect_section_attempts [simp]: "length (cl_attempts (connect_section notify a K outcome c)) = length (cl_attempts c)"
  by (simp add: connect_section_def Let_def close_old_def close_connection_def set_attempt_def split: option.split sum.split)

lemma ready_section_attempts:
  "length (cl_attempts (snd (ready_section expected waited c))) \<in> {length (cl_attempts c), Suc (length (cl_attempts c))}"
  by (simp add: ready_section_def Let_def close_old_def close_connection_def start_attempt_def split: option.split)

lemma attempts_grow:
  assumes "client_act notify act c = Some c'"
  shows "length (cl_attempts c) \<le> length (cl_attempts c')"
    "(\<nexists>i. act = ReadySection i) \<Longrightarrow> length (cl_attempts c') = length (cl_attempts c)"
proof -
  have other: "length (cl_attempts c') = length (cl_attempts c)" if "\<nexists>i. act = ReadySection i"
    using assms that
    by (cases act) (auto simp: set_ready_def drop_connection_def close_connection_def attempt_dialed_def set_attempt_def
        publishProfile_def disconnect_def close_old_def Let_def
        split: option.splits ready_state.splits attempt_progress.splits sum.splits prod.splits if_splits)
  then show "(\<nexists>i. act = ReadySection i) \<Longrightarrow> length (cl_attempts c') = length (cl_attempts c)" .
  show "length (cl_attempts c) \<le> length (cl_attempts c')"
  proof (cases "\<exists>i. act = ReadySection i")
    case False
    with other show ?thesis by simp
  next
    case True
    then obtain i where "act = ReadySection i" by blast
    with assms obtain waited where "set_ready i (fst (ready_section (rd_expected (cl_calls c ! i)) waited c))
        (snd (ready_section (rd_expected (cl_calls c ! i)) waited c)) = c'"
      by (auto simp: split_def Let_def split: option.splits ready_state.splits)
    with ready_section_attempts [of "rd_expected (cl_calls c ! i)" waited c] show ?thesis by (auto simp: set_ready_def)
  qed
qed

lemma ready_of_Some: "ready_of i c = Some st \<Longrightarrow> i < length (cl_calls c) \<and> rd_state (cl_calls c ! i) = st"
  by (auto simp: ready_of_def split: if_splits)

lemma progress_of_Some: "progress_of a c = Some p \<Longrightarrow> a < length (cl_attempts c) \<and> at_progress (cl_attempts c ! a) = p"
  by (auto simp: progress_of_def split: if_splits)

lemma client_act_ok:
  assumes c: "client_ok c" and few: "Suc (length (cl_attempts c)) < 2 ^ 64" and act: "client_act notify act c = Some c'"
  shows "client_ok c'"
proof -
  note ok = client_okD [OF c]
  have well: "state_well c (rd_expected (cl_calls c ! i)) st" if "ready_of i c = Some st" for i st
    using ok(6) ready_of_Some [OF that] unfolding calls_ok_def answered_well_def by auto
  show ?thesis
  proof (cases act)
    case (Ask expected)
    with act ok(6) show ?thesis by (auto simp: answered_well_def calls_ok_def intro!: client_ok_calls [OF c])
  next
    case (ReadySection i)
    with act obtain waited st d where r: "ready_section (rd_expected (cl_calls c ! i)) waited c = (st, d)" "c' = set_ready i st d"
      by (auto simp: Let_def split: option.splits ready_state.splits prod.splits)
    from ready_section_ok [OF c few r(1)] r(2) show ?thesis by (auto intro: client_ok_set_ready)
  next
    case (ReadyWoken i)
    with act obtain err where "c' = set_ready i (ready_woken err) c"
      by (auto split: option.splits ready_state.splits)
    with c show ?thesis by (auto simp: ready_woken_def intro!: client_ok_set_ready split: option.split)
  next
    case (ReadyContext i)
    with act c show ?thesis by (auto split: option.splits ready_state.splits intro!: client_ok_set_ready)
  next
    case (ReadyDrop i)
    with act obtain k err where k: "ready_of i c = Some (Dropping k err)" "c' = set_ready i (Answered (Inl err)) (drop_connection k c)"
      by (auto split: option.splits ready_state.splits)
    from well [OF k(1)] have "client_ok (drop_connection k c)" by (intro drop_ok [OF c]) simp_all
    with k(2) show ?thesis by (auto intro: client_ok_set_ready)
  next
    case (Drop i)
    with act obtain k g where k: "ready_of i c = Some (Answered (Inr (k, g)))" "c' = drop_connection k c"
      by (auto split: option.splits ready_state.splits sum.splits if_splits)
    from well [OF k(1)] show ?thesis unfolding k(2) by (intro drop_ok [OF c]) simp_all
  next
    case (Dialed a)
    with act have "progress_of a c = Some Dialing" "c' = attempt_dialed a c"
      by (auto split: option.splits attempt_progress.splits)
    with progress_of_Some [OF this(1)] dialed_ok [OF c] few show ?thesis by simp
  next
    case (DialFailed a err)
    with act have "progress_of a c = Some Dialing" "c' = connect_section notify a None (Inl err) c"
      by (auto split: option.splits attempt_progress.splits)
    with progress_of_Some [OF this(1)] show ?thesis by (auto intro: connect_section_ok [OF c])
  next
    case (HelloEnds a answer)
    with act obtain k where "progress_of a c = Some (Hello k)" "c' = connect_section notify a (Some k) (initialize answer) c"
      by (auto split: option.splits attempt_progress.splits)
    with progress_of_Some [OF this(1)] show ?thesis by (auto intro: connect_section_ok [OF c])
  next
    case (SetupEnds a err)
    with act obtain k where "progress_of a c = Some (Hello k)" "c' = connect_section notify a (Some k) (Inl err) c"
      by (auto split: option.splits attempt_progress.splits)
    with progress_of_Some [OF this(1)] show ?thesis by (auto intro: connect_section_ok [OF c])
  next
    case (Publish a)
    with act obtain p where p: "progress_of a c = Some (Publishing p)"
      "c' = publishProfile (at_generation (cl_attempts c ! a)) p
        (set_attempt a ((cl_attempts c ! a)\<lparr>at_progress := Returned, at_cancelled := True\<rparr>) c)"
      by (auto split: option.splits attempt_progress.splits)
    from progress_of_Some [OF p(1)] show ?thesis unfolding p(2) by (intro publish_act_ok [OF c]) simp_all
  next
    case (Disconnect shutdown)
    with act disconnect_ok [OF c] show ?thesis by auto
  next
    case (ConnectionEnds k)
    with act ends_ok [OF c] show ?thesis by (auto split: if_splits)
  qed
qed

lemma client_reach_ok: "client_reach notify c \<Longrightarrow> Suc (length (cl_attempts c)) < 2 ^ 64 \<Longrightarrow> client_ok c"
proof (induction rule: client_reach.induct)
  case start
  show ?case by (rule new_client_ok)
next
  case (act c a c')
  from attempts_grow(1) [OF act.hyps(2)] act.prems have "Suc (length (cl_attempts c)) < 2 ^ 64" by simp
  with act show ?case using client_act_ok by blast
qed

end
