(* ===== verification/PiClientSafety.thy ===== *)
theory PiClientSafety
  imports PiClientInv
begin

text \<open>What the invariant of the shared connection means to its users: which connection a request gets, and that every
  request gets an answer.\<close>

lemma client_run_reach: "client_reach notify c \<Longrightarrow> client_run notify as c = Some c' \<Longrightarrow> client_reach notify c'"
  by (induction as arbitrary: c) (auto split: option.splits intro: client_reach.act)

definition wit_hello :: hello_response where
  "wit_hello = \<lparr>he_ProtocolVersion = 1, he_RuntimeID = ''r'', he_Version = ''1'', he_Capabilities = [(''sessions'', 1), (''providers'', 1)]\<rparr>"

definition wit_acts :: "client_action list" where
  "wit_acts = [Ask None, Ask None, ReadySection 0, ReadySection 1, Dialed 0, HelloEnds 0 (Inr wit_hello), Publish 0,
     ReadyWoken 0, ReadySection 0, Disconnect False, Ask (Some 1), ReadySection 2, Ask None, ReadySection 3]"

definition wit_client :: PiClient where
  "wit_client = (case client_run True wit_acts new_client of Some c \<Rightarrow> c | None \<Rightarrow> new_client)"

lemma wit_client_reach: "client_reach True wit_client"
proof -
  have "client_run True wit_acts new_client = Some wit_client" by code_simp
  from client_run_reach [OF client_reach.start this] show ?thesis .
qed

lemma wit_client_facts:
  "length (cl_attempts wit_client) = 2" "length (cl_calls wit_client) = 4" "cl_connecting wit_client = Some 1"
  "rd_state (cl_calls wit_client ! 0) = Answered (Inr (0, 1))" "rd_state (cl_calls wit_client ! 1) = WaitingFor 0"
  "rd_state (cl_calls wit_client ! 2) = Answered (Inl ConnectionChanged)" "rd_state (cl_calls wit_client ! 3) = WaitingFor 1"
  "map fst (cl_published wit_client) = [1]" "length (cl_connections wit_client) = 1"
  "co_closed (cl_connections wit_client ! 0)"
  by code_simp+

section \<open>The connection a request gets\<close>

text \<open>C5: whatever requests, setups, resets, drops and shutdowns interleave: the connection handed out is the newest one
  and completely set up, not closed by the client, and there is none once the client was shut down or while another
  is being set up; a setup overtaken by a reset never installs its connection. No connection leaks: one that is not
  closed is installed or still being set up. A request got a connection that was set up and has the generation told to
  it, which identifies the connection, and a request bound to a generation got no other. Profiles are published in the
  order of the generations, none twice, each as the connection announced it. Up to \<open>2 ^ 64\<close> attempts.\<close>

theorem one_current_connection:
  assumes "client_reach notify c" "Suc (length (cl_attempts c)) < 2 ^ 64"
  shows "(\<forall>k. cl_connection c = Some k \<longrightarrow> k < length (cl_connections c)
        \<and> co_generation (cl_connections c ! k) = cl_generation c \<and> co_profile (cl_connections c ! k) \<noteq> None
        \<and> \<not> co_closed (cl_connections c ! k) \<and> \<not> cl_closed c \<and> cl_connecting c = None)
    \<and> (cl_closed c \<longrightarrow> cl_connecting c = None)
    \<and> (\<forall>k < length (cl_connections c). \<not> co_closed (cl_connections c ! k) \<longrightarrow> cl_connection c = Some k
        \<or> (\<exists>a < length (cl_attempts c). at_progress (cl_attempts c ! a) = Hello k))
    \<and> distinct (map co_generation (cl_connections c))
    \<and> (\<forall>call \<in> set (cl_calls c). \<forall>k g. rd_state call = Answered (Inr (k, g)) \<longrightarrow>
        k < length (cl_connections c) \<and> co_generation (cl_connections c ! k) = g
        \<and> co_profile (cl_connections c ! k) \<noteq> None \<and> rd_expected call \<in> {None, Some g})
    \<and> sorted_wrt (<) (map fst (cl_published c)) \<and> (\<forall>(g, p) \<in> set (cl_published c). announced c g p)"
proof -
  note ok = client_okD [OF client_reach_ok [OF assms]]
  have con: "cl_connection c = None \<and> \<not> cl_closed c" if "cl_connecting c = Some a" for a
    using ok(2) that unfolding attempts_ok_def by blast
  have "cl_connecting c = None" if "cl_connection c = Some k" for k
    using con that by (cases "cl_connecting c") auto
  moreover have "cl_connecting c = None" if "cl_closed c" using con that by (cases "cl_connecting c") auto
  moreover have "k < length (cl_connections c) \<and> co_generation (cl_connections c ! k) = g
      \<and> co_profile (cl_connections c ! k) \<noteq> None \<and> rd_expected call \<in> {None, Some g}"
    if "call \<in> set (cl_calls c)" "rd_state call = Answered (Inr (k, g))" for call k g
  proof -
    from ok(6) that(1) have "state_well c (rd_expected call) (rd_state call)" unfolding calls_ok_def answered_well_def by blast
    then show ?thesis by (simp add: that(2))
  qed
  ultimately show ?thesis
    using ok(1,4,5,7) unfolding gens_ok_def installed_ok_def connections_ok_def in_use_def published_ok_def by (intro conjI) blast+
qed

theorem one_current_connection_witness:
  "rd_state (cl_calls wit_client ! 0) = Answered (Inr (0, 1)) \<and> co_generation (cl_connections wit_client ! 0) = 1
    \<and> map fst (cl_published wit_client) = [1]"
proof -
  have "cl_calls wit_client ! 0 \<in> set (cl_calls wit_client)" using wit_client_facts(2) by (intro nth_mem) simp
  then show ?thesis
    using one_current_connection [OF wit_client_reach] wit_client_facts(1,4,8) by auto
qed

section \<open>Every request is answered\<close>

fun ready_rank :: "ready_state \<Rightarrow> nat" where
  "ready_rank (Entering waited) = (if waited then 2 else 4)"
| "ready_rank (WaitingFor a) = 3"
| "ready_rank (Dropping k err) = 1"
| "ready_rank (Answered v) = 0"

definition own_actions :: "nat \<Rightarrow> client_action set" where
  "own_actions i = {ReadySection i, ReadyWoken i, ReadyDrop i, ReadyContext i}"

lemma ready_section_rank: "ready_rank (fst (ready_section expected waited c)) < ready_rank (Entering waited)"
  by (simp add: ready_section_def Let_def split: option.split)

lemma ready_section_calls: "cl_calls (snd (ready_section expected waited c)) = cl_calls c"
  by (simp add: ready_section_def Let_def close_old_def close_connection_def start_attempt_def split: option.split)

lemma connect_section_calls: "cl_calls (connect_section notify a K outcome c) = cl_calls c"
  by (simp add: connect_section_def Let_def close_old_def close_connection_def set_attempt_def split: option.split sum.split)

lemma set_ready_nth:
  "i < length (cl_calls c) \<Longrightarrow> rd_state (cl_calls (set_ready i st c) ! j) = (if j = i then st else rd_state (cl_calls c ! j))"
  by (cases "j = i") (simp_all add: set_ready_def)

lemma ready_action_rank:
  assumes "client_act notify act c = Some c'" "act \<in> own_actions i"
  shows "i < length (cl_calls c) \<and> (\<exists>st. ready_rank st < ready_rank (rd_state (cl_calls c ! i))
    \<and> cl_calls c' = cl_calls (set_ready i st c))"
proof -
  consider "act = ReadySection i" | "act = ReadyWoken i" | "act = ReadyDrop i" | "act = ReadyContext i"
    using assms(2) by (auto simp: own_actions_def)
  then show ?thesis
  proof cases
    case 1
    with assms(1) obtain waited where w: "ready_of i c = Some (Entering waited)"
      "c' = set_ready i (fst (ready_section (rd_expected (cl_calls c ! i)) waited c))
        (snd (ready_section (rd_expected (cl_calls c ! i)) waited c))"
      by (auto simp: split_def Let_def split: option.splits ready_state.splits)
    then have "cl_calls c' = cl_calls (set_ready i (fst (ready_section (rd_expected (cl_calls c ! i)) waited c)) c)"
      by (simp add: set_ready_def ready_section_calls)
    with ready_of_Some [OF w(1)] ready_section_rank [of "rd_expected (cl_calls c ! i)" waited c] show ?thesis by metis
  next
    case 2
    with assms(1) obtain a err where w: "ready_of i c = Some (WaitingFor a)" "c' = set_ready i (ready_woken err) c"
      by (auto split: option.splits ready_state.splits)
    with ready_of_Some [OF w(1)] show ?thesis by (auto simp: ready_woken_def intro!: exI [of _ "ready_woken err"] split: option.split)
  next
    case 3
    with assms(1) obtain k err where w: "ready_of i c = Some (Dropping k err)"
      "c' = set_ready i (Answered (Inl err)) (drop_connection k c)"
      by (auto split: option.splits ready_state.splits)
    with ready_of_Some [OF w(1)] show ?thesis
      by (auto simp: set_ready_def drop_connection_def close_connection_def intro!: exI [of _ "Answered (Inl err)"])
  next
    case 4
    with assms(1) obtain st where w: "ready_of i c = Some st" "ready_rank st > 0" "c' = set_ready i (Answered (Inl ContextEnded)) c"
      by (auto split: option.splits ready_state.splits if_splits)
    with ready_of_Some [OF w(1)] show ?thesis by (auto intro!: exI [of _ "Answered (Inl ContextEnded)"])
  qed
qed

lemma other_action_calls:
  assumes "client_act notify act c = Some c'" "\<nexists>i. act \<in> own_actions i"
  shows "\<exists>new. cl_calls c' = cl_calls c @ new"
  using assms
  by (cases act) (auto simp: own_actions_def drop_connection_def close_connection_def attempt_dialed_def set_attempt_def
      publishProfile_def disconnect_def close_old_def connect_section_calls Let_def
      split: option.splits ready_state.splits attempt_progress.splits sum.splits prod.splits if_splits)

lemma ready_rank_falls:
  assumes "client_act notify act c = Some c'" "i < length (cl_calls c)"
  shows "ready_rank (rd_state (cl_calls c' ! i)) \<le> ready_rank (rd_state (cl_calls c ! i))"
    "act \<in> own_actions i \<Longrightarrow> ready_rank (rd_state (cl_calls c' ! i)) < ready_rank (rd_state (cl_calls c ! i))"
proof -
  show "ready_rank (rd_state (cl_calls c' ! i)) \<le> ready_rank (rd_state (cl_calls c ! i))"
  proof (cases "\<exists>j. act \<in> own_actions j")
    case True
    then obtain j where "act \<in> own_actions j" ..
    from ready_action_rank [OF assms(1) this] show ?thesis by (auto simp: set_ready_nth)
  next
    case False
    from other_action_calls [OF assms(1) False] assms(2) show ?thesis by (auto simp: nth_append)
  qed
  show "ready_rank (rd_state (cl_calls c' ! i)) < ready_rank (rd_state (cl_calls c ! i))" if "act \<in> own_actions i"
    using ready_action_rank [OF assms(1) that] by (auto simp: set_ready_nth)
qed

text \<open>C28: no request for the connection waits for ever. One that has no answer yet can move on at once, or it waits for
  the setup that is running, which can end at any moment with its error; a reset or a shutdown wakes every waiting
  request. And each request takes at most four steps of its own to its answer, whatever the others do.\<close>

theorem ready_always_answers:
  assumes "client_reach notify c" "Suc (length (cl_attempts c)) < 2 ^ 64" "i < length (cl_calls c)"
  shows "(ready_rank (rd_state (cl_calls c ! i)) = 0 \<or> (\<exists>act \<in> own_actions i - {ReadyContext i}. client_act notify act c \<noteq> None)
      \<or> (\<exists>a. rd_state (cl_calls c ! i) = WaitingFor a \<and> cl_connecting c = Some a
           \<and> (client_act notify (DialFailed a err) c \<noteq> None \<or> client_act notify (SetupEnds a err) c \<noteq> None)))
    \<and> (\<forall>a shutdown. rd_state (cl_calls c ! i) = WaitingFor a \<longrightarrow> client_act notify (ReadyWoken i) (disconnect shutdown c) \<noteq> None)
    \<and> (\<forall>act c'. client_act notify act c = Some c' \<longrightarrow>
        ready_rank (rd_state (cl_calls c' ! i)) + (if act \<in> own_actions i then 1 else 0) \<le> ready_rank (rd_state (cl_calls c ! i)))
    \<and> ready_rank (rd_state (cl_calls c ! i)) \<le> 4"
proof (intro conjI allI impI)
  have ok: "client_ok c" by (rule client_reach_ok [OF assms(1,2)])
  note pieces = client_okD [OF ok]
  have ready: "ready_of i c = Some (rd_state (cl_calls c ! i))" using assms(3) by (simp add: ready_of_def)
  show "ready_rank (rd_state (cl_calls c ! i)) = 0 \<or> (\<exists>act \<in> own_actions i - {ReadyContext i}. client_act notify act c \<noteq> None)
      \<or> (\<exists>a. rd_state (cl_calls c ! i) = WaitingFor a \<and> cl_connecting c = Some a
           \<and> (client_act notify (DialFailed a err) c \<noteq> None \<or> client_act notify (SetupEnds a err) c \<noteq> None))"
  proof (cases "rd_state (cl_calls c ! i)")
    case (Entering waited)
    with ready have "client_act notify (ReadySection i) c \<noteq> None" by (simp add: split_def Let_def)
    then show ?thesis unfolding own_actions_def by blast
  next
    case (Dropping k e)
    with ready have "client_act notify (ReadyDrop i) c \<noteq> None" by simp
    then show ?thesis unfolding own_actions_def by blast
  next
    case (WaitingFor a)
    have a: "a < length (cl_attempts c)"
      using pieces(6) nth_mem [OF assms(3)] WaitingFor unfolding calls_ok_def answered_well_def by fastforce
    show ?thesis
    proof (cases "at_settled (cl_attempts c ! a)")
      case None
      with pieces(2) a have con: "cl_connecting c = Some a" unfolding attempts_ok_def by blast
      with pieces(2) have "at_progress (cl_attempts c ! a) \<noteq> Returned" "\<forall>p. at_progress (cl_attempts c ! a) \<noteq> Publishing p"
        unfolding attempts_ok_def by blast+
      then have "client_act notify (DialFailed a err) c \<noteq> None \<or> client_act notify (SetupEnds a err) c \<noteq> None"
        using a by (cases "at_progress (cl_attempts c ! a)") (simp_all add: progress_of_def)
      with con WaitingFor show ?thesis by blast
    next
      case (Some e)
      with ready WaitingFor have "client_act notify (ReadyWoken i) c \<noteq> None" by simp
      then show ?thesis unfolding own_actions_def by blast
    qed
  qed simp
  show "client_act notify (ReadyWoken i) (disconnect shutdown c) \<noteq> None" if w: "rd_state (cl_calls c ! i) = WaitingFor a" for a shutdown
  proof -
    have calls: "cl_calls (disconnect shutdown c) = cl_calls c" "cl_connecting (disconnect shutdown c) = None"
      "length (cl_attempts (disconnect shutdown c)) = length (cl_attempts c)"
      by (simp_all add: disconnect_def Let_def close_old_def close_connection_def set_attempt_def split: option.split)
    have "a < length (cl_attempts c)"
      using pieces(6) nth_mem [OF assms(3)] w unfolding calls_ok_def answered_well_def by fastforce
    then have "at_settled (cl_attempts (disconnect shutdown c) ! a) \<noteq> None"
      using client_okD(2) [OF disconnect_ok [OF ok]] calls unfolding attempts_ok_def by (metis option.distinct(1))
    then show ?thesis using w assms(3) calls by (auto simp: ready_of_def)
  qed
  show "ready_rank (rd_state (cl_calls c' ! i)) + (if act \<in> own_actions i then 1 else 0) \<le> ready_rank (rd_state (cl_calls c ! i))"
    if "client_act notify act c = Some c'" for act c'
    using ready_rank_falls [OF that assms(3)] by auto
  show "ready_rank (rd_state (cl_calls c ! i)) \<le> 4" by (cases "rd_state (cl_calls c ! i)") simp_all
qed

theorem ready_always_answers_witness:
  "client_act True (ReadyWoken 3) (disconnect True wit_client) \<noteq> None"
  using ready_always_answers [OF wit_client_reach, of 3] wit_client_facts(1,2,7) by simp

end
