(* ===== verification/PiRpc.thy ===== *)
theory PiRpc
  imports Prelude "HOL-Library.Word"
begin

text \<open>
  The request matching of the connection to the Pi host, the \<open>piRPC\<close> of
  \<open>internal/controller/pi_client.go\<close>. Calls run concurrently; one reader takes the frames of the socket in
  their order. A call registers its reply channel under a fresh serial number, writes its request and waits for the
  reply, the end of its context or the end of the connection; the reader takes a reply's registration out, delivers
  the snapshot of a loaded session to the events, and sends the reply into the channel, which has room for one.

  An action is a critical section or a wait that ended; \<open>None\<close> is an action that is not enabled. The
  reader is split where its lock is released. \<open>encoding/json\<close> and the events are arguments (\<open>rpc_env\<close>).
  The frames read so far and the outcome of every call are kept as history.
\<close>

record piReply =
  rep_ID :: "64 word"
  rep_Result :: string
  rep_Error :: "(int \<times> string) option"
  rep_Method :: string
  rep_Params :: string

text \<open>The channel of a registration is named by the number of its call.\<close>

record piPending =
  pend_call :: nat
  pend_method :: string
  pend_sessionID :: string

record pi_snapshot =
  sn_SessionId :: string
  sn_Messages :: "string list"
  sn_Commands :: string
  sn_RunID :: string

datatype pi_event =
    ReplayMessage string string | CommandsUpdate string string | RunUpdate string string | SessionEvent string
  | ExtensionEvent string string

record rpc_env =
  re_snapshot :: "string \<Rightarrow> pi_snapshot option"
  re_history :: "string \<Rightarrow> (string \<times> string list) option"
  re_events :: bool
  re_accepts :: "nat \<Rightarrow> pi_event \<Rightarrow> bool"

datatype call_outcome = Waiting | WriteFailed | Cancelled | ConnectionClosed | Received nat piReply

record rpc_call =
  rc_id :: "64 word"
  rc_method :: string
  rc_sessionID :: string
  rc_outcome :: call_outcome

record piRPC =
  rpc_serial :: "64 word"
  rpc_pending :: "(64 word \<times> piPending) list"
  rpc_done :: bool
  rpc_channels :: "(nat \<times> nat \<times> piReply) list"
  rpc_sending :: "(piPending \<times> piReply) option"
  rpc_calls :: "rpc_call list"
  rpc_frames :: "piReply list"
  rpc_log :: "pi_event list"

definition new_rpc :: piRPC where
  "new_rpc = \<lparr>rpc_serial = 0, rpc_pending = [], rpc_done = False, rpc_channels = [], rpc_sending = None, rpc_calls = [],
     rpc_frames = [], rpc_log = []\<rparr>"

section \<open>Calls\<close>

definition call_begin :: "string \<Rightarrow> string \<Rightarrow> piRPC \<Rightarrow> piRPC" where
  "call_begin method sessionID r =
     (let i = rpc_serial r + 1;
          p = \<lparr>pend_call = length (rpc_calls r), pend_method = method, pend_sessionID = sessionID\<rparr>
      in r\<lparr>rpc_serial := i, rpc_pending := put i p (rpc_pending r),
           rpc_calls := rpc_calls r @ [\<lparr>rc_id = i, rc_method = method, rc_sessionID = sessionID, rc_outcome = Waiting\<rparr>]\<rparr>)"

text \<open>The end of a call, with the deferred removal of its registration.\<close>

definition call_leave :: "nat \<Rightarrow> call_outcome \<Rightarrow> piRPC \<Rightarrow> piRPC" where
  "call_leave c outcome r =
     r\<lparr>rpc_calls := (rpc_calls r)[c := (rpc_calls r ! c)\<lparr>rc_outcome := outcome\<rparr>],
       rpc_pending := del (rc_id (rpc_calls r ! c)) (rpc_pending r)\<rparr>"

definition call_waits :: "nat \<Rightarrow> piRPC \<Rightarrow> bool" where
  "call_waits c r \<longleftrightarrow> c < length (rpc_calls r) \<and> rc_outcome (rpc_calls r ! c) = Waiting"

text \<open>What \<open>call\<close> returns of the reply it received: the error, or the decoded result.\<close>

datatype call_error = RequestError int string | BadResult

definition call_value :: "(string \<Rightarrow> 'a option) \<Rightarrow> piReply \<Rightarrow> call_error + 'a" where
  "call_value decode reply =
     (case rep_Error reply of
        Some (code, message) \<Rightarrow> Inl (RequestError code message)
      | None \<Rightarrow> (case decode (rep_Result reply) of None \<Rightarrow> Inl BadResult | Some v \<Rightarrow> Inr v))"

section \<open>The reader\<close>

definition read_return :: "piRPC \<Rightarrow> piRPC" where
  "read_return r = r\<lparr>rpc_done := True, rpc_sending := None\<rparr>"

text \<open>Deliveries stop at the first event that is refused.\<close>

fun deliver :: "rpc_env \<Rightarrow> pi_event list \<Rightarrow> piRPC \<Rightarrow> bool \<times> piRPC" where
  "deliver env [] r = (True, r)"
| "deliver env (e # es) r =
     (if re_accepts env (length (rpc_log r)) e then deliver env es (r\<lparr>rpc_log := rpc_log r @ [e]\<rparr>)
      else (False, r\<lparr>rpc_log := rpc_log r @ [e]\<rparr>))"

definition deliver_or_return :: "rpc_env \<Rightarrow> pi_event list \<Rightarrow> piRPC \<Rightarrow> piRPC" where
  "deliver_or_return env es r = (let (ok, r) = deliver env es r in if ok then r else read_return r)"

definition read_notification :: "rpc_env \<Rightarrow> piReply \<Rightarrow> piRPC \<Rightarrow> piRPC" where
  "read_notification env reply r =
     (if \<not> re_events env then r
      else if rep_Method reply = ''session.history'' then
        (case re_history env (rep_Params reply) of
           None \<Rightarrow> read_return r
         | Some (sessionID, messages) \<Rightarrow> deliver_or_return env (map (ReplayMessage sessionID) messages) r)
      else if rep_Method reply = ''session.event'' then deliver_or_return env [SessionEvent (rep_Params reply)] r
      else deliver_or_return env [ExtensionEvent (rep_Method reply) (rep_Params reply)] r)"

definition read_reply :: "rpc_env \<Rightarrow> piReply \<Rightarrow> piRPC \<Rightarrow> piRPC" where
  "read_reply env reply r =
     (let r = r\<lparr>rpc_frames := rpc_frames r @ [reply]\<rparr> in
      if rep_ID reply \<noteq> 0 then
        (let found = get (rpc_pending r) (rep_ID reply);
             r = r\<lparr>rpc_pending := del (rep_ID reply) (rpc_pending r)\<rparr>
         in case found of None \<Rightarrow> r | Some p \<Rightarrow> r\<lparr>rpc_sending := Some (p, reply)\<rparr>)
      else read_notification env reply r)"

definition snapshot_methods :: "string list" where
  "snapshot_methods = [''session.load'', ''session.create'', ''session.fork'']"

definition snapshot_events :: "string \<Rightarrow> pi_snapshot \<Rightarrow> pi_event list" where
  "snapshot_events sessionID snapshot =
     (let i = (if sn_SessionId snapshot = [] then sessionID else sn_SessionId snapshot)
      in map (ReplayMessage i) (sn_Messages snapshot)
         @ [CommandsUpdate i (sn_Commands snapshot), RunUpdate i (sn_RunID snapshot)])"

definition send_reply :: "piPending \<Rightarrow> piReply \<Rightarrow> piRPC \<Rightarrow> piRPC" where
  "send_reply p reply r =
     r\<lparr>rpc_channels := put (pend_call p) (length (rpc_frames r) - 1, reply) (rpc_channels r), rpc_sending := None\<rparr>"

definition read_send :: "rpc_env \<Rightarrow> piPending \<Rightarrow> piReply \<Rightarrow> piRPC \<Rightarrow> piRPC" where
  "read_send env p reply r =
     (if rep_Error reply = None \<and> re_events env \<and> pend_method p \<in> set snapshot_methods then
        (case re_snapshot env (rep_Result reply) of
           None \<Rightarrow> read_return r
         | Some snapshot \<Rightarrow>
             (let (ok, r) = deliver env (snapshot_events (pend_sessionID p) snapshot) r
              in if ok then send_reply p reply r else read_return r))
      else send_reply p reply r)"

section \<open>Runs\<close>

datatype rpc_action =
    Begin string string | EndWrite nat | EndContext nat | EndClosed nat | EndReply nat
  | ReadFrame piReply | SendReply | ReadEnds

fun rpc_act :: "rpc_env \<Rightarrow> rpc_action \<Rightarrow> piRPC \<Rightarrow> piRPC option" where
  "rpc_act env (Begin method sessionID) r = Some (call_begin method sessionID r)"
| "rpc_act env (EndWrite c) r = (if call_waits c r then Some (call_leave c WriteFailed r) else None)"
| "rpc_act env (EndContext c) r = (if call_waits c r then Some (call_leave c Cancelled r) else None)"
| "rpc_act env (EndClosed c) r =
     (if call_waits c r \<and> rpc_done r then Some (call_leave c ConnectionClosed r) else None)"
| "rpc_act env (EndReply c) r =
     (if call_waits c r
      then (case get (rpc_channels r) c of
              None \<Rightarrow> None
            | Some (k, reply) \<Rightarrow> Some (call_leave c (Received k reply) (r\<lparr>rpc_channels := del c (rpc_channels r)\<rparr>)))
      else None)"
| "rpc_act env (ReadFrame reply) r =
     (if rpc_done r \<or> rpc_sending r \<noteq> None then None else Some (read_reply env reply r))"
| "rpc_act env SendReply r =
     (case rpc_sending r of
        None \<Rightarrow> None
      | Some (p, reply) \<Rightarrow> if get (rpc_channels r) (pend_call p) \<noteq> None then None else Some (read_send env p reply r))"
| "rpc_act env ReadEnds r = (if rpc_done r \<or> rpc_sending r \<noteq> None then None else Some (read_return r))"

fun rpc_run :: "rpc_env \<Rightarrow> rpc_action list \<Rightarrow> piRPC \<Rightarrow> piRPC option" where
  "rpc_run env [] r = Some r"
| "rpc_run env (a # as) r = (case rpc_act env a r of None \<Rightarrow> None | Some r \<Rightarrow> rpc_run env as r)"

inductive rpc_reach :: "rpc_env \<Rightarrow> piRPC \<Rightarrow> bool" for env where
  start: "rpc_reach env new_rpc"
| act: "rpc_reach env r \<Longrightarrow> rpc_act env a r = Some r' \<Longrightarrow> rpc_reach env r'"

end
