(* ===== verification/PiRpcSafety.thy ===== *)
theory PiRpcSafety
  imports PiRpc Serials
begin

text \<open>
  The request matching of the Pi connection after any interleaving of its actions: an invariant of the reachable
  states, every call gets its own reply and no other, and no call or registration is left behind.
\<close>

section \<open>The invariant\<close>

definition snapshot_seen :: "rpc_env \<Rightarrow> pi_event list \<Rightarrow> rpc_call \<Rightarrow> piReply \<Rightarrow> bool" where
  "snapshot_seen env log call reply \<longleftrightarrow>
     (rep_Error reply = None \<and> re_events env \<and> rc_method call \<in> set snapshot_methods \<longrightarrow>
        (\<exists>snapshot before after. re_snapshot env (rep_Result reply) = Some snapshot
           \<and> log = before @ snapshot_events (rc_sessionID call) snapshot @ after))"

definition serials_ok :: "piRPC \<Rightarrow> bool" where
  "serials_ok r \<longleftrightarrow> rpc_serial r = word_of_nat (length (rpc_calls r))
     \<and> (\<forall>c < length (rpc_calls r). rc_id (rpc_calls r ! c) = serial_of c)"

definition registered_by :: "piRPC \<Rightarrow> piPending \<Rightarrow> bool" where
  "registered_by r p \<longleftrightarrow> pend_call p < length (rpc_calls r) \<and> pend_method p = rc_method (rpc_calls r ! pend_call p)
     \<and> pend_sessionID p = rc_sessionID (rpc_calls r ! pend_call p)"

definition pending_ok :: "piRPC \<Rightarrow> bool" where
  "pending_ok r \<longleftrightarrow> (\<forall>i p. get (rpc_pending r) i = Some p \<longrightarrow> registered_by r p \<and> i = serial_of (pend_call p)
     \<and> rc_outcome (rpc_calls r ! pend_call p) = Waiting \<and> get (rpc_channels r) (pend_call p) = None)"

definition sending_ok :: "piRPC \<Rightarrow> bool" where
  "sending_ok r \<longleftrightarrow> (\<forall>p reply. rpc_sending r = Some (p, reply) \<longrightarrow> registered_by r p
     \<and> rep_ID reply = serial_of (pend_call p) \<and> rpc_frames r \<noteq> [] \<and> last (rpc_frames r) = reply
     \<and> get (rpc_channels r) (pend_call p) = None \<and> get (rpc_pending r) (serial_of (pend_call p)) = None
     \<and> (\<forall>k x. rc_outcome (rpc_calls r ! pend_call p) \<noteq> Received k x))"

definition replied :: "piRPC \<Rightarrow> nat \<Rightarrow> nat \<Rightarrow> piReply \<Rightarrow> bool" where
  "replied r c k reply \<longleftrightarrow> c < length (rpc_calls r)
     \<and> (get (rpc_channels r) c = Some (k, reply) \<or> rc_outcome (rpc_calls r ! c) = Received k reply)"

definition reply_ok :: "rpc_env \<Rightarrow> piRPC \<Rightarrow> nat \<Rightarrow> nat \<Rightarrow> piReply \<Rightarrow> bool" where
  "reply_ok env r c k reply \<longleftrightarrow> k < length (rpc_frames r) \<and> rpc_frames r ! k = reply
     \<and> rep_ID reply = serial_of c \<and> get (rpc_pending r) (serial_of c) = None
     \<and> snapshot_seen env (rpc_log r) (rpc_calls r ! c) reply"

definition replies_ok :: "rpc_env \<Rightarrow> piRPC \<Rightarrow> bool" where
  "replies_ok env r \<longleftrightarrow> (\<forall>c k reply. replied r c k reply \<longrightarrow> reply_ok env r c k reply)"

definition channels_ok :: "piRPC \<Rightarrow> bool" where
  "channels_ok r \<longleftrightarrow> (\<forall>c v. get (rpc_channels r) c = Some v \<longrightarrow> c < length (rpc_calls r)
     \<and> (\<forall>k x. rc_outcome (rpc_calls r ! c) \<noteq> Received k x))"

definition rpc_ok :: "rpc_env \<Rightarrow> piRPC \<Rightarrow> bool" where
  "rpc_ok env r \<longleftrightarrow> serials_ok r \<and> pending_ok r \<and> sending_ok r \<and> replies_ok env r \<and> channels_ok r"

lemmas rpc_invs = serials_ok_def pending_ok_def sending_ok_def channels_ok_def registered_by_def

lemma rpc_frame [simp]:
  "serials_ok (r\<lparr>rpc_pending := x_pending\<rparr>) = serials_ok r"
  "serials_ok (r\<lparr>rpc_done := x_done\<rparr>) = serials_ok r"
  "serials_ok (r\<lparr>rpc_channels := x_channels\<rparr>) = serials_ok r"
  "serials_ok (r\<lparr>rpc_sending := x_sending\<rparr>) = serials_ok r"
  "serials_ok (r\<lparr>rpc_frames := x_frames\<rparr>) = serials_ok r"
  "serials_ok (r\<lparr>rpc_log := x_log\<rparr>) = serials_ok r"
  "pending_ok (r\<lparr>rpc_done := x_done\<rparr>) = pending_ok r"
  "pending_ok (r\<lparr>rpc_sending := x_sending\<rparr>) = pending_ok r"
  "pending_ok (r\<lparr>rpc_frames := x_frames\<rparr>) = pending_ok r"
  "pending_ok (r\<lparr>rpc_log := x_log\<rparr>) = pending_ok r"
  "sending_ok (r\<lparr>rpc_done := x_done\<rparr>) = sending_ok r"
  "sending_ok (r\<lparr>rpc_log := x_log\<rparr>) = sending_ok r"
  "channels_ok (r\<lparr>rpc_pending := x_pending\<rparr>) = channels_ok r"
  "channels_ok (r\<lparr>rpc_done := x_done\<rparr>) = channels_ok r"
  "channels_ok (r\<lparr>rpc_sending := x_sending\<rparr>) = channels_ok r"
  "channels_ok (r\<lparr>rpc_frames := x_frames\<rparr>) = channels_ok r"
  "channels_ok (r\<lparr>rpc_log := x_log\<rparr>) = channels_ok r"
  "registered_by (r\<lparr>rpc_pending := x_pending\<rparr>) p = registered_by r p"
  "registered_by (r\<lparr>rpc_done := x_done\<rparr>) p = registered_by r p"
  "registered_by (r\<lparr>rpc_channels := x_channels\<rparr>) p = registered_by r p"
  "registered_by (r\<lparr>rpc_sending := x_sending\<rparr>) p = registered_by r p"
  "registered_by (r\<lparr>rpc_frames := x_frames\<rparr>) p = registered_by r p"
  "registered_by (r\<lparr>rpc_log := x_log\<rparr>) p = registered_by r p"
  by (simp_all add: rpc_invs)

lemma replies_ok_step:
  assumes "replies_ok env r" "\<And>c k x. replied r' c k x \<Longrightarrow> replied r c k x"
    "\<And>c k x. replied r c k x \<Longrightarrow> reply_ok env r c k x \<Longrightarrow> reply_ok env r' c k x"
  shows "replies_ok env r'"
  using assms unfolding replies_ok_def by blast

lemma snapshot_seen_more: "snapshot_seen env log call reply \<Longrightarrow> snapshot_seen env (log @ es) call reply"
  unfolding snapshot_seen_def by (metis append_assoc)

lemma snapshot_seen_outcome [simp]: "snapshot_seen env log (call\<lparr>rc_outcome := x\<rparr>) reply = snapshot_seen env log call reply"
  by (simp add: snapshot_seen_def)

lemma rpc_ok_log:
  assumes "rpc_ok env r" shows "rpc_ok env (r\<lparr>rpc_log := rpc_log r @ es\<rparr>)"
proof -
  have "replies_ok env (r\<lparr>rpc_log := rpc_log r @ es\<rparr>)"
    by (rule replies_ok_step [of env r])
      (use assms snapshot_seen_more in \<open>auto simp: rpc_ok_def replied_def reply_ok_def\<close>)
  with assms show ?thesis unfolding rpc_ok_def by simp
qed

lemma rpc_ok_return:
  assumes "rpc_ok env r" shows "rpc_ok env (read_return r)"
proof -
  have "replies_ok env (read_return r)"
    by (rule replies_ok_step [of env r])
      (use assms in \<open>auto simp: rpc_ok_def replied_def reply_ok_def read_return_def\<close>)
  with assms show ?thesis unfolding rpc_ok_def by (simp add: read_return_def sending_ok_def)
qed

lemma rpc_ok_frame:
  assumes "rpc_ok env r" "rpc_sending r = None" shows "rpc_ok env (r\<lparr>rpc_frames := rpc_frames r @ [reply]\<rparr>)"
proof -
  have "replies_ok env (r\<lparr>rpc_frames := rpc_frames r @ [reply]\<rparr>)"
    by (rule replies_ok_step [of env r])
      (use assms in \<open>auto simp: rpc_ok_def replied_def reply_ok_def nth_append\<close>)
  with assms show ?thesis unfolding rpc_ok_def by (simp add: sending_ok_def)
qed

lemma rpc_ok_unregister:
  assumes "rpc_ok env r" "rpc_sending r = None" shows "rpc_ok env (r\<lparr>rpc_pending := del i (rpc_pending r)\<rparr>)"
proof -
  have "replies_ok env (r\<lparr>rpc_pending := del i (rpc_pending r)\<rparr>)"
    by (rule replies_ok_step [of env r])
      (use assms in \<open>auto simp: rpc_ok_def replied_def reply_ok_def\<close>)
  with assms show ?thesis unfolding rpc_ok_def by (simp add: pending_ok_def sending_ok_def)
qed

lemma deliver_spec:
  "deliver env es r = (ok, r') \<Longrightarrow> \<exists>ds. r' = r\<lparr>rpc_log := rpc_log r @ ds\<rparr> \<and> (ok \<longrightarrow> ds = es)"
proof (induction es arbitrary: r)
  case (Cons e es)
  show ?case
  proof (cases "re_accepts env (length (rpc_log r)) e")
    case True
    with Cons obtain ds where "r' = (r\<lparr>rpc_log := rpc_log r @ [e]\<rparr>)\<lparr>rpc_log := rpc_log (r\<lparr>rpc_log := rpc_log r @ [e]\<rparr>) @ ds\<rparr>"
      "ok \<longrightarrow> ds = es" by fastforce
    then show ?thesis by (intro exI [of _ "e # ds"]) simp
  next
    case False
    with Cons.prems show ?thesis by (intro exI [of _ "[e]"]) auto
  qed
qed (auto intro: exI [of _ "[]"])

lemma rpc_ok_deliver: "rpc_ok env r \<Longrightarrow> rpc_ok env (deliver_or_return env es r)"
  using deliver_spec [of env es r] rpc_ok_log rpc_ok_return
  by (cases "deliver env es r") (fastforce simp: deliver_or_return_def)

lemma rpc_ok_notification: "rpc_ok env r \<Longrightarrow> rpc_ok env (read_notification env reply r)"
  using rpc_ok_deliver rpc_ok_return by (auto simp: read_notification_def split: option.splits)

lemma rpc_ok_reply:
  assumes "rpc_ok env r" "rpc_sending r = None" "length (rpc_calls r) < 2 ^ 64"
  shows "rpc_ok env (read_reply env reply r)"
proof -
  define s where "s = r\<lparr>rpc_frames := rpc_frames r @ [reply]\<rparr>"
  have s: "rpc_ok env s" "last (rpc_frames s) = reply" "rpc_frames s \<noteq> []" "rpc_sending s = None"
    using rpc_ok_frame [OF assms(1,2)] assms(2) by (simp_all add: s_def)
  show ?thesis
  proof (cases "rep_ID reply = 0")
    case True
    with rpc_ok_notification [OF s(1)] show ?thesis by (simp add: read_reply_def s_def Let_def)
  next
    case False
    define t where "t = s\<lparr>rpc_pending := del (rep_ID reply) (rpc_pending s)\<rparr>"
    have t: "rpc_ok env t" using s(1,4) unfolding t_def by (rule rpc_ok_unregister)
    show ?thesis
    proof (cases "get (rpc_pending s) (rep_ID reply)")
      case None
      with False t show ?thesis by (simp add: read_reply_def s_def t_def Let_def)
    next
      case (Some p)
      with s(1) have p: "registered_by s p" "rep_ID reply = serial_of (pend_call p)"
        "rc_outcome (rpc_calls s ! pend_call p) = Waiting" "get (rpc_channels s) (pend_call p) = None"
        unfolding rpc_ok_def pending_ok_def by blast+
      have "replies_ok env (t\<lparr>rpc_sending := Some (p, reply)\<rparr>)"
        by (rule replies_ok_step [of env t]) (use t in \<open>auto simp: rpc_ok_def replied_def reply_ok_def\<close>)
      then have "rpc_ok env (t\<lparr>rpc_sending := Some (p, reply)\<rparr>)"
        using t p s(2,3) unfolding rpc_ok_def t_def by (simp add: sending_ok_def)
      with False Some show ?thesis by (simp add: read_reply_def s_def t_def Let_def)
    qed
  qed
qed

lemma rpc_ok_send_reply:
  assumes "rpc_ok env r" "rpc_sending r = Some (p, reply)" "snapshot_seen env (rpc_log r) (rpc_calls r ! pend_call p) reply"
    "length (rpc_calls r) < 2 ^ 64"
  shows "rpc_ok env (send_reply p reply r)"
proof -
  have p: "registered_by r p" "rep_ID reply = serial_of (pend_call p)" "rpc_frames r \<noteq> []" "last (rpc_frames r) = reply"
    "get (rpc_channels r) (pend_call p) = None" "get (rpc_pending r) (serial_of (pend_call p)) = None"
    "\<And>k x. rc_outcome (rpc_calls r ! pend_call p) \<noteq> Received k x"
    using assms(1,2) unfolding rpc_ok_def sending_ok_def by blast+
  have last: "rpc_frames r ! (length (rpc_frames r) - 1) = reply" using p(3,4) by (simp add: last_conv_nth)
  have "pending_ok (send_reply p reply r)"
    unfolding pending_ok_def
  proof (intro allI impI)
    fix i q assume "get (rpc_pending (send_reply p reply r)) i = Some q"
    then have q: "get (rpc_pending r) i = Some q" by (simp add: send_reply_def)
    with assms(1) have "registered_by r q" "i = serial_of (pend_call q)" "rc_outcome (rpc_calls r ! pend_call q) = Waiting"
      "get (rpc_channels r) (pend_call q) = None"
      unfolding rpc_ok_def pending_ok_def by blast+
    moreover have "pend_call q \<noteq> pend_call p" using calculation(2) q p(6) by auto
    ultimately show "registered_by (send_reply p reply r) q \<and> i = serial_of (pend_call q)
      \<and> rc_outcome (rpc_calls (send_reply p reply r) ! pend_call q) = Waiting
      \<and> get (rpc_channels (send_reply p reply r)) (pend_call q) = None"
      by (simp add: send_reply_def registered_by_def)
  qed
  moreover have "replies_ok env (send_reply p reply r)"
    unfolding replies_ok_def
  proof (intro allI impI)
    fix c k x assume "replied (send_reply p reply r) c k x"
    then consider "replied r c k x" | "c = pend_call p" "k = length (rpc_frames r) - 1" "x = reply"
      by (auto simp: replied_def send_reply_def split: if_splits)
    then show "reply_ok env (send_reply p reply r) c k x"
    proof cases
      case 1
      with assms(1) have "reply_ok env r c k x" unfolding rpc_ok_def replies_ok_def by blast
      then show ?thesis by (simp add: reply_ok_def send_reply_def)
    next
      case 2
      with p last assms(3) show ?thesis by (simp add: reply_ok_def send_reply_def)
    qed
  qed
  moreover have "channels_ok (send_reply p reply r)"
    using assms(1) p unfolding rpc_ok_def channels_ok_def send_reply_def registered_by_def by auto
  ultimately show ?thesis
    using assms(1) unfolding rpc_ok_def by (simp add: serials_ok_def sending_ok_def send_reply_def)
qed

lemma rpc_ok_send:
  assumes "rpc_ok env r" "rpc_sending r = Some (p, reply)" "length (rpc_calls r) < 2 ^ 64"
  shows "rpc_ok env (read_send env p reply r)"
proof (cases "rep_Error reply = None \<and> re_events env \<and> pend_method p \<in> set snapshot_methods")
  case True
  show ?thesis
  proof (cases "re_snapshot env (rep_Result reply)")
    case None
    with True rpc_ok_return [OF assms(1)] show ?thesis by (simp add: read_send_def)
  next
    case (Some snapshot)
    obtain ok r' where d: "deliver env (snapshot_events (pend_sessionID p) snapshot) r = (ok, r')" by force
    from deliver_spec [OF d] obtain ds where ds: "r' = r\<lparr>rpc_log := rpc_log r @ ds\<rparr>"
      "ok \<longrightarrow> ds = snapshot_events (pend_sessionID p) snapshot" by blast
    have r': "rpc_ok env r'" unfolding ds(1) by (rule rpc_ok_log [OF assms(1)])
    have reg: "registered_by r p" using assms(1,2) unfolding rpc_ok_def sending_ok_def by blast
    show ?thesis
    proof (cases ok)
      case ok: True
      have "snapshot_seen env (rpc_log r') (rpc_calls r' ! pend_call p) reply"
        using reg ds ok Some unfolding snapshot_seen_def registered_by_def by (metis append_Nil2 piRPC.select_convs(6,8) piRPC.surjective piRPC.update_convs(8))
      from rpc_ok_send_reply [OF r' _ this] assms(2,3) ds(1) True Some d ok show ?thesis by (simp add: read_send_def)
    next
      case False
      with True Some d rpc_ok_return [OF r'] show ?thesis by (simp add: read_send_def)
    qed
  qed
next
  case False
  have "registered_by r p" using assms(1,2) unfolding rpc_ok_def sending_ok_def by blast
  with False have "snapshot_seen env (rpc_log r) (rpc_calls r ! pend_call p) reply"
    by (auto simp: snapshot_seen_def registered_by_def)
  from rpc_ok_send_reply [OF assms(1,2) this assms(3)] False show ?thesis by (auto simp: read_send_def)
qed

lemma rpc_ok_begin:
  assumes ok: "rpc_ok env r" and few: "Suc (length (rpc_calls r)) < 2 ^ 64"
  shows "rpc_ok env (call_begin method sessionID r)"
proof -
  let ?n = "length (rpc_calls r)" and ?r = "call_begin method sessionID r"
  have i: "rpc_serial r + 1 = serial_of ?n" using ok by (simp add: rpc_ok_def serials_ok_def serial_of_def)
  define call where "call = \<lparr>rc_id = serial_of ?n, rc_method = method, rc_sessionID = sessionID, rc_outcome = Waiting\<rparr>"
  have c: "rpc_calls ?r = rpc_calls r @ [call]" "rpc_channels ?r = rpc_channels r" "rpc_frames ?r = rpc_frames r"
    "rpc_log ?r = rpc_log r" "rpc_sending ?r = rpc_sending r" "rpc_serial ?r = serial_of ?n"
    "rpc_pending ?r = put (serial_of ?n) \<lparr>pend_call = ?n, pend_method = method, pend_sessionID = sessionID\<rparr> (rpc_pending r)"
    by (simp_all add: call_begin_def call_def Let_def i)
  have fresh: "serial_of c \<noteq> serial_of ?n" if "c < ?n" for c
    using that few serial_of_eq [of c ?n] by simp
  have chan: "get (rpc_channels r) ?n = None"
    using ok unfolding rpc_ok_def channels_ok_def by (metis less_irrefl not_None_eq)
  have reg: "registered_by r p \<Longrightarrow> registered_by ?r p" for p by (simp add: registered_by_def c nth_append)
  have old: "rpc_calls ?r ! c = rpc_calls r ! c" if "c < ?n" for c using that by (simp add: c nth_append)
  have "rc_id (rpc_calls ?r ! d) = serial_of d" if "d < length (rpc_calls ?r)" for d
  proof (cases "d = ?n")
    case True
    then show ?thesis by (simp add: c call_def)
  next
    case False
    with that have "d < ?n" by (simp add: c)
    with ok old show ?thesis by (simp add: rpc_ok_def serials_ok_def)
  qed
  moreover have "rpc_serial ?r = word_of_nat (length (rpc_calls ?r))" unfolding c(1,6) serial_of_def by simp
  ultimately have "serials_ok ?r" unfolding serials_ok_def by blast
  moreover have "pending_ok ?r"
    unfolding pending_ok_def
  proof (intro allI impI)
    fix k p assume "get (rpc_pending ?r) k = Some p"
    then consider "get (rpc_pending r) k = Some p"
      | "k = serial_of ?n" "p = \<lparr>pend_call = ?n, pend_method = method, pend_sessionID = sessionID\<rparr>" unfolding c(7) get_put by (cases "k = serial_of ?n") simp_all
    then show "registered_by ?r p \<and> k = serial_of (pend_call p) \<and> rc_outcome (rpc_calls ?r ! pend_call p) = Waiting
      \<and> get (rpc_channels ?r) (pend_call p) = None"
    proof cases
      case 1
      with ok have "registered_by r p" "k = serial_of (pend_call p)" "rc_outcome (rpc_calls r ! pend_call p) = Waiting"
        "get (rpc_channels r) (pend_call p) = None" unfolding rpc_ok_def pending_ok_def by blast+
      with reg old show ?thesis by (simp add: registered_by_def c(2))
    next
      case 2
      with chan show ?thesis by (simp add: registered_by_def c call_def)
    qed
  qed
  moreover have "sending_ok ?r"
    unfolding sending_ok_def
  proof (intro allI impI)
    fix p reply assume "rpc_sending ?r = Some (p, reply)"
    then have "registered_by r p \<and> rep_ID reply = serial_of (pend_call p) \<and> rpc_frames r \<noteq> [] \<and> last (rpc_frames r) = reply
     \<and> get (rpc_channels r) (pend_call p) = None \<and> get (rpc_pending r) (serial_of (pend_call p)) = None
     \<and> (\<forall>k x. rc_outcome (rpc_calls r ! pend_call p) \<noteq> Received k x)"
      using ok unfolding rpc_ok_def sending_ok_def c by blast
    moreover from this have "pend_call p < ?n" by (simp add: registered_by_def)
    ultimately show "registered_by ?r p \<and> rep_ID reply = serial_of (pend_call p) \<and> rpc_frames ?r \<noteq> [] \<and> last (rpc_frames ?r) = reply
     \<and> get (rpc_channels ?r) (pend_call p) = None \<and> get (rpc_pending ?r) (serial_of (pend_call p)) = None
     \<and> (\<forall>k x. rc_outcome (rpc_calls ?r ! pend_call p) \<noteq> Received k x)"
      using reg fresh by (simp add: c nth_append)
  qed
  moreover have "replies_ok env ?r"
  proof (rule replies_ok_step [of env r])
    show "replies_ok env r" using ok by (simp add: rpc_ok_def)
    show "replied r c k x" if "replied ?r c k x" for c k x
      using that chan by (auto simp: replied_def c nth_append call_def less_Suc_eq split: if_splits)
    show "reply_ok env ?r c k x" if "replied r c k x" "reply_ok env r c k x" for c k x
      using that fresh by (simp add: replied_def reply_ok_def c nth_append)
  qed
  moreover have "channels_ok ?r"
    using ok unfolding rpc_ok_def channels_ok_def by (simp add: c nth_append less_Suc_eq)
  ultimately show ?thesis by (simp add: rpc_ok_def)
qed

lemma rpc_ok_leave:
  assumes ok: "rpc_ok env r" and waits: "call_waits c r" and few: "length (rpc_calls r) < 2 ^ 64"
    and outcome: "\<And>k x. outcome = Received k x \<Longrightarrow> get (rpc_channels r) c = Some (k, x)"
    and chans: "chans = (case outcome of Received k x \<Rightarrow> del c (rpc_channels r) | _ \<Rightarrow> rpc_channels r)"
  shows "rpc_ok env (call_leave c outcome (r\<lparr>rpc_channels := chans\<rparr>))"
proof -
  let ?r = "call_leave c outcome (r\<lparr>rpc_channels := chans\<rparr>)"
  have c: "c < length (rpc_calls r)" "rc_outcome (rpc_calls r ! c) = Waiting" using waits by (simp_all add: call_waits_def)
  have i: "rc_id (rpc_calls r ! c) = serial_of c" using ok c(1) by (simp add: rpc_ok_def serials_ok_def)
  have s: "rpc_calls ?r = (rpc_calls r)[c := (rpc_calls r ! c)\<lparr>rc_outcome := outcome\<rparr>]" "rpc_channels ?r = chans"
    "rpc_frames ?r = rpc_frames r" "rpc_log ?r = rpc_log r" "rpc_sending ?r = rpc_sending r" "rpc_serial ?r = rpc_serial r"
    "rpc_pending ?r = del (serial_of c) (rpc_pending r)"
    by (simp_all add: call_leave_def i)
  have sub: "get chans d = Some v \<Longrightarrow> get (rpc_channels r) d = Some v" for d v
    by (cases outcome) (auto simp: chans split: if_splits)
  have subn: "get (rpc_channels r) d = None \<Longrightarrow> get chans d = None" for d
    by (cases outcome) (auto simp: chans)
  have reg: "registered_by r p \<Longrightarrow> registered_by ?r p" for p
    by (cases "pend_call p = c") (auto simp: registered_by_def s)
  have ne: "serial_of d \<noteq> serial_of c" if "d < length (rpc_calls r)" "d \<noteq> c" for d
    using that few c(1) serial_of_eq [of d c] by simp
  have "rc_id (rpc_calls ?r ! d) = serial_of d" if "d < length (rpc_calls ?r)" for d
    using that ok i by (cases "d = c") (simp_all add: s rpc_ok_def serials_ok_def)
  moreover have "rpc_serial ?r = word_of_nat (length (rpc_calls ?r))" using ok by (simp add: s rpc_ok_def serials_ok_def)
  ultimately have "serials_ok ?r" by (simp add: serials_ok_def)
  moreover have "pending_ok ?r"
    unfolding pending_ok_def
  proof (intro allI impI)
    fix k p assume "get (rpc_pending ?r) k = Some p"
    then have k: "k \<noteq> serial_of c" "get (rpc_pending r) k = Some p" by (auto simp: s split: if_splits)
    with ok have p: "registered_by r p" "k = serial_of (pend_call p)" "rc_outcome (rpc_calls r ! pend_call p) = Waiting"
        "get (rpc_channels r) (pend_call p) = None" unfolding rpc_ok_def pending_ok_def by blast+
    with k have "pend_call p \<noteq> c" by auto
    with p reg subn show "registered_by ?r p \<and> k = serial_of (pend_call p) \<and> rc_outcome (rpc_calls ?r ! pend_call p) = Waiting
      \<and> get (rpc_channels ?r) (pend_call p) = None"
      by (simp add: s)
  qed
  moreover have "sending_ok ?r"
    unfolding sending_ok_def
  proof (intro allI impI)
    fix p reply assume "rpc_sending ?r = Some (p, reply)"
    then have p: "registered_by r p" "rep_ID reply = serial_of (pend_call p)" "rpc_frames r \<noteq> []" "last (rpc_frames r) = reply"
     "get (rpc_channels r) (pend_call p) = None" "get (rpc_pending r) (serial_of (pend_call p)) = None"
     "\<And>k x. rc_outcome (rpc_calls r ! pend_call p) \<noteq> Received k x"
      using ok unfolding rpc_ok_def sending_ok_def s by blast+
    have "rc_outcome (rpc_calls ?r ! pend_call p) \<noteq> Received k x" for k x
      using p(5,7) outcome c(1) by (cases "pend_call p = c") (auto simp: s)
    with p reg subn show "registered_by ?r p \<and> rep_ID reply = serial_of (pend_call p) \<and> rpc_frames ?r \<noteq> [] \<and> last (rpc_frames ?r) = reply
     \<and> get (rpc_channels ?r) (pend_call p) = None \<and> get (rpc_pending ?r) (serial_of (pend_call p)) = None
     \<and> (\<forall>k x. rc_outcome (rpc_calls ?r ! pend_call p) \<noteq> Received k x)"
      by (simp add: s)
  qed
  moreover have "replies_ok env ?r"
  proof (rule replies_ok_step [of env r])
    show "replies_ok env r" using ok by (simp add: rpc_ok_def)
    show "replied r d k x" if "replied ?r d k x" for d k x
      using that sub outcome by (cases "d = c") (auto simp: replied_def s)
    show "reply_ok env ?r d k x" if "replied r d k x" "reply_ok env r d k x" for d k x
      using that by (cases "d = c") (auto simp: replied_def reply_ok_def s)
  qed
  moreover have "channels_ok ?r"
    unfolding channels_ok_def
  proof (intro allI impI)
    fix d v assume d: "get (rpc_channels ?r) d = Some v"
    then have "get (rpc_channels r) d = Some v" using sub by (simp add: s)
    with ok have "d < length (rpc_calls r)" "\<And>k x. rc_outcome (rpc_calls r ! d) \<noteq> Received k x"
      unfolding rpc_ok_def channels_ok_def by blast+
    moreover have "outcome \<noteq> Received k x" if "d = c" for k x 
    proof
      assume "outcome = Received k x"
      then have "chans = del c (rpc_channels r)" by (simp add: chans)
      with d that show False unfolding s(2) by simp
    qed
    ultimately show "d < length (rpc_calls ?r) \<and> (\<forall>k x. rc_outcome (rpc_calls ?r ! d) \<noteq> Received k x)"
      by (cases "d = c") (auto simp: s)
  qed
  ultimately show ?thesis by (simp add: rpc_ok_def)
qed

lemma deliver_calls: "rpc_calls (snd (deliver env es r)) = rpc_calls r"
  using deliver_spec [of env es r] by (cases "deliver env es r") fastforce

lemma reader_calls [simp]:
  "rpc_calls (read_return r) = rpc_calls r"
  "rpc_calls (deliver_or_return env es r) = rpc_calls r"
  "rpc_calls (read_notification env reply r) = rpc_calls r"
  "rpc_calls (read_reply env reply r) = rpc_calls r"
  "rpc_calls (send_reply p reply r) = rpc_calls r"
  "rpc_calls (read_send env p reply r) = rpc_calls r"
proof -
  show ret: "rpc_calls (read_return r) = rpc_calls r" for r by (simp add: read_return_def)
  show delivered: "rpc_calls (deliver_or_return env es r) = rpc_calls r" for es r
    using deliver_calls [of env es r] by (cases "deliver env es r") (simp add: deliver_or_return_def ret)
  show notified: "rpc_calls (read_notification env reply r) = rpc_calls r" for r
    by (simp add: read_notification_def ret delivered split: option.splits)
  show "rpc_calls (read_reply env reply r) = rpc_calls r"
    by (simp add: read_reply_def Let_def notified split: option.splits)
  show send: "rpc_calls (send_reply p reply r) = rpc_calls r" for r by (simp add: send_reply_def)
  show "rpc_calls (read_send env p reply r) = rpc_calls r"
  proof (cases "re_snapshot env (rep_Result reply)")
    case None
    then show ?thesis by (simp add: read_send_def send ret)
  next
    case (Some snapshot)
    with deliver_calls [of env "snapshot_events (pend_sessionID p) snapshot" r] show ?thesis
      by (cases "deliver env (snapshot_events (pend_sessionID p) snapshot) r") (simp add: read_send_def send ret)
  qed
qed

lemma call_leave_length [simp]: "length (rpc_calls (call_leave c outcome r)) = length (rpc_calls r)"
  by (simp add: call_leave_def)

lemma calls_grow: "rpc_act env a r = Some r' \<Longrightarrow> length (rpc_calls r) \<le> length (rpc_calls r')"
  by (cases a) (auto simp: call_begin_def Let_def split: if_splits option.splits)

lemma rpc_ok_act:
  assumes "rpc_ok env r" "rpc_act env a r = Some r'" "length (rpc_calls r') < 2 ^ 64"
  shows "rpc_ok env r'"
proof -
  have few: "length (rpc_calls r) < 2 ^ 64" using calls_grow [OF assms(2)] assms(3) by simp
  have leave: "rpc_ok env (call_leave c outcome r)" if "call_waits c r" "\<And>k x. outcome \<noteq> Received k x" for c outcome
    using rpc_ok_leave [OF assms(1) that(1) few, of outcome "rpc_channels r"] that(2) by (cases outcome) auto
  show ?thesis
  proof (cases a)
    case (Begin m sid)
    with assms rpc_ok_begin [OF assms(1)] show ?thesis by (auto simp: call_begin_def Let_def)
  next
    case (EndWrite c)
    with assms leave show ?thesis by (auto split: if_splits)
  next
    case (EndContext c)
    with assms leave show ?thesis by (auto split: if_splits)
  next
    case (EndClosed c)
    with assms leave show ?thesis by (auto split: if_splits)
  next
    case (EndReply c)
    with assms(2) obtain k reply where "call_waits c r" "get (rpc_channels r) c = Some (k, reply)"
      "r' = call_leave c (Received k reply) (r\<lparr>rpc_channels := del c (rpc_channels r)\<rparr>)"
      by (auto split: if_splits option.splits)
    with rpc_ok_leave [OF assms(1) this(1) few, of "Received k reply"] show ?thesis by simp
  next
    case (ReadFrame reply)
    with assms(2) have "rpc_sending r = None" "r' = read_reply env reply r" by (cases "rpc_sending r"; simp split: if_splits)+
    with rpc_ok_reply [OF assms(1) _ few] show ?thesis by simp
  next
    case SendReply
    with assms rpc_ok_send [OF assms(1) _ few] show ?thesis by (auto split: if_splits option.splits)
  next
    case ReadEnds
    with assms rpc_ok_return show ?thesis by (auto split: if_splits)
  qed
qed

lemma rpc_reach_ok:
  assumes "rpc_reach env r" "length (rpc_calls r) < 2 ^ 64" shows "rpc_ok env r"
  using assms
proof (induction rule: rpc_reach.induct)
  case start
  show ?case by (simp add: new_rpc_def rpc_ok_def rpc_invs replies_ok_def replied_def)
next
  case (act r a r')
  with calls_grow [OF act.hyps(2)] rpc_ok_act [OF _ act.hyps(2)] show ?case by simp
qed

section \<open>Which reply a call receives\<close>

text \<open>C6: a call that received a reply received a frame the connection really read, with the call's own id, and no
  other call received that frame. When the call loaded, created or forked a session, the messages, commands and run of
  the returned snapshot had been delivered to the events, together and in order, before the call got its reply. This
  holds after any interleaving of calls, cancellations, failed writes, frames and refused events, as long as fewer than
  \<open>2 ^ 64\<close> calls were made.\<close>

theorem replies_matched:
  assumes "rpc_reach env r" "length (rpc_calls r) < 2 ^ 64"
    "c < length (rpc_calls r)" "rc_outcome (rpc_calls r ! c) = Received k reply"
  shows "k < length (rpc_frames r) \<and> rpc_frames r ! k = reply \<and> rep_ID reply = rc_id (rpc_calls r ! c)
    \<and> snapshot_seen env (rpc_log r) (rpc_calls r ! c) reply
    \<and> (\<forall>d < length (rpc_calls r). \<forall>x. rc_outcome (rpc_calls r ! d) = Received k x \<longrightarrow> d = c)"
proof -
  note ok = rpc_reach_ok [OF assms(1,2)]
  have reply_ok: "reply_ok env r d k x" if "d < length (rpc_calls r)" "rc_outcome (rpc_calls r ! d) = Received k x" for d x
    using ok that unfolding rpc_ok_def replies_ok_def replied_def by blast
  have "d = c" if d: "d < length (rpc_calls r)" "rc_outcome (rpc_calls r ! d) = Received k x" for d x
    using reply_ok [OF d] reply_ok [OF assms(3,4)] d(1) assms(2,3) serial_of_eq [of c d] by (auto simp: reply_ok_def)
  moreover have "rc_id (rpc_calls r ! c) = serial_of c" using ok assms(3) by (simp add: rpc_ok_def serials_ok_def)
  ultimately show ?thesis using reply_ok [OF assms(3,4)] by (auto simp: reply_ok_def)
qed

definition wit_env :: rpc_env where
  "wit_env = \<lparr>re_snapshot = (\<lambda>x. Some \<lparr>sn_SessionId = [], sn_Messages = [''hi''], sn_Commands = ''c'', sn_RunID = []\<rparr>),
     re_history = (\<lambda>x. None), re_events = True, re_accepts = (\<lambda>n e. True)\<rparr>"

definition wit_reply :: "64 word \<Rightarrow> piReply" where
  "wit_reply i = \<lparr>rep_ID = i, rep_Result = ''{}'', rep_Error = None, rep_Method = [], rep_Params = []\<rparr>"

definition wit_actions :: "rpc_action list" where
  "wit_actions = [Begin ''session.list'' [], Begin ''session.load'' ''s'', ReadFrame (wit_reply 2), SendReply, EndReply 1]"

definition wit_run :: piRPC where
  "wit_run = (case rpc_run wit_env wit_actions new_rpc of Some r \<Rightarrow> r | None \<Rightarrow> new_rpc)"

lemma rpc_run_reach: "rpc_reach env r \<Longrightarrow> rpc_run env as r = Some r' \<Longrightarrow> rpc_reach env r'"
  by (induction as arbitrary: r) (auto split: option.splits intro: rpc_reach.act)

lemma wit_run: "rpc_run wit_env wit_actions new_rpc = Some wit_run"
  by code_simp

lemma wit_run_reach: "rpc_reach wit_env wit_run"
  using rpc_run_reach [OF rpc_reach.start wit_run] .

lemma wit_run_calls: "length (rpc_calls wit_run) = 2" "rc_outcome (rpc_calls wit_run ! 1) = Received 0 (wit_reply 2)"
  by code_simp+

theorem replies_matched_witness: "rep_ID (wit_reply 2) = rc_id (rpc_calls wit_run ! 1)"
  using replies_matched [OF wit_run_reach, of 1 0 "wit_reply 2"] wit_run_calls by simp

section \<open>No call is left waiting\<close>

lemma call_leave_waits:
  assumes "call_waits c r" "outcome \<noteq> Waiting"
  shows "call_waits d (call_leave c outcome r) \<longleftrightarrow> call_waits d r \<and> d \<noteq> c"
  using assms by (cases "d = c") (auto simp: call_waits_def call_leave_def)

lemma close_waiting:
  assumes "rpc_done r" "distinct cs" "\<forall>c \<in> set cs. call_waits c r"
  shows "\<exists>r'. rpc_run env (map EndClosed cs) r = Some r' \<and> length (rpc_calls r') = length (rpc_calls r)
    \<and> (\<forall>d. call_waits d r' \<longleftrightarrow> call_waits d r \<and> d \<notin> set cs)"
  using assms
proof (induction cs arbitrary: r)
  case (Cons c cs)
  define s where "s = call_leave c ConnectionClosed r"
  have c: "call_waits c r" using Cons.prems by simp
  have s: "call_waits d s \<longleftrightarrow> call_waits d r \<and> d \<noteq> c" for d
    unfolding s_def by (rule call_leave_waits [OF c]) simp
  have "rpc_done s" using Cons.prems(1) by (simp add: s_def call_leave_def)
  moreover have "\<forall>d \<in> set cs. call_waits d s" using Cons.prems s by auto
  ultimately obtain r' where "rpc_run env (map EndClosed cs) s = Some r'" "length (rpc_calls r') = length (rpc_calls s)"
    "\<forall>d. call_waits d r' \<longleftrightarrow> call_waits d s \<and> d \<notin> set cs"
    using Cons.IH [of s] Cons.prems(2) by auto
  with s c Cons.prems(1) show ?case by (auto simp: s_def)
qed simp

text \<open>C29: the reader is never blocked by a call: when it has a reply to send, the channel of its registration is
  empty, so the send happens at once, even when the call has gone. No registration outlives its call: every
  registration belongs to a call that is still waiting. And no call waits on a closed connection for ever: once the
  reader has returned, all waiting calls can leave, and then nobody waits and nothing is registered.\<close>

theorem no_call_left_waiting:
  assumes "rpc_reach env r" "length (rpc_calls r) < 2 ^ 64"
  shows "(rpc_sending r \<noteq> None \<longrightarrow> rpc_act env SendReply r \<noteq> None)
    \<and> (\<forall>i p. get (rpc_pending r) i = Some p \<longrightarrow> call_waits (pend_call p) r \<and> rc_id (rpc_calls r ! pend_call p) = i)
    \<and> (rpc_done r \<longrightarrow> (\<exists>r'. rpc_run env (map EndClosed (filter (\<lambda>c. call_waits c r) [0..<length (rpc_calls r)])) r = Some r'
         \<and> (\<forall>c. \<not> call_waits c r') \<and> (\<forall>i. get (rpc_pending r') i = None)))"
proof (intro conjI impI allI)
  have pending: "call_waits (pend_call p) s" if "rpc_reach env s" "length (rpc_calls s) < 2 ^ 64" "get (rpc_pending s) i = Some p"
    for s i p
    using rpc_reach_ok [OF that(1,2)] that(3) unfolding rpc_ok_def pending_ok_def registered_by_def call_waits_def by blast
  note ok = rpc_reach_ok [OF assms]
  show "rpc_act env SendReply r \<noteq> None" if "rpc_sending r \<noteq> None"
    using ok that unfolding rpc_ok_def sending_ok_def by auto
  show "call_waits (pend_call p) r" if "get (rpc_pending r) i = Some p" for i p
    using pending [OF assms that] .
  show "rc_id (rpc_calls r ! pend_call p) = i" if "get (rpc_pending r) i = Some p" for i p
    using ok that unfolding rpc_ok_def pending_ok_def registered_by_def serials_ok_def by auto
  let ?cs = "filter (\<lambda>c. call_waits c r) [0..<length (rpc_calls r)]"
  assume over: "rpc_done r"
  have "distinct ?cs" "\<forall>c \<in> set ?cs. call_waits c r" by simp_all
  from close_waiting [OF over this, of env] obtain r' where r': "rpc_run env (map EndClosed ?cs) r = Some r'" "length (rpc_calls r') = length (rpc_calls r)"
    "\<forall>d. call_waits d r' \<longleftrightarrow> call_waits d r \<and> d \<notin> set ?cs"
    by blast
  have none: "\<not> call_waits c r'" for c
  proof
    assume c: "call_waits c r'"
    with r'(3) have "call_waits c r" "c \<notin> set ?cs" by blast+
    moreover from this have "c < length (rpc_calls r)" by (simp add: call_waits_def)
    ultimately show False by simp
  qed
  have "get (rpc_pending r') i = None" for i
    using pending [OF rpc_run_reach [OF assms(1) r'(1)], of i] r'(2) assms(2) none by (metis not_None_eq)
  with r'(1) none show "\<exists>r'. rpc_run env (map EndClosed ?cs) r = Some r' \<and> (\<forall>c. \<not> call_waits c r')
      \<and> (\<forall>i. get (rpc_pending r') i = None)" by blast
qed

definition wit_closed :: piRPC where
  "wit_closed = (case rpc_run wit_env [ReadEnds] wit_run of Some r \<Rightarrow> r | None \<Rightarrow> new_rpc)"

lemma wit_closed_reach: "rpc_reach wit_env wit_closed"
proof -
  have "rpc_run wit_env [ReadEnds] wit_run = Some wit_closed" by code_simp
  from rpc_run_reach [OF wit_run_reach this] show ?thesis .
qed

lemma wit_closed_calls: "length (rpc_calls wit_closed) = 2" "rpc_done wit_closed" "call_waits 0 wit_closed" "\<not> call_waits 1 wit_closed"
  by code_simp+

theorem no_call_left_waiting_witness:
  "call_waits 0 wit_closed \<and> (\<exists>r'. rpc_run wit_env [EndClosed 0] wit_closed = Some r' \<and> (\<forall>c. \<not> call_waits c r'))"
  using no_call_left_waiting [OF wit_closed_reach] wit_closed_calls by (auto simp: upt_rec)

end
