(* ===== verification/PathSafety.thy ===== *)
theory PathSafety
  imports PathPolicy
begin

text \<open>
  What the path policy guarantees: containment is a prefix of components, the roots are exactly the accepted
  mounts without redundancy, and every resolved path stays inside them.
\<close>

section \<open>Components\<close>

definition name_ok :: "string \<Rightarrow> bool" where
  "name_ok w \<longleftrightarrow> w \<noteq> [] \<and> w \<noteq> ''.'' \<and> w \<noteq> ''..'' \<and> slash \<notin> set w"

lemma set_tl: "set (tl xs) \<subseteq> set xs"
  by (cases xs) auto

lemma clean_steps_ok:
  "\<forall>w \<in> set ws. slash \<notin> set w \<Longrightarrow> \<forall>w \<in> set acc. name_ok w \<Longrightarrow> \<forall>w \<in> set (foldl clean_step acc ws). name_ok w"
proof (induction ws arbitrary: acc)
  case (Cons w ws)
  have "\<forall>u \<in> set (clean_step acc w). name_ok u"
    using Cons.prems set_tl [of acc] by (auto simp: name_ok_def)
  with Cons show ?case by simp
qed simp

lemma parts_ok: "w \<in> set (parts p) \<Longrightarrow> name_ok w"
  using clean_steps_ok [of "Split slash p" "[]"] Split_parts_no_sep [of _ slash p] by (auto simp: parts_def)

lemma clean_keeps: "\<forall>w \<in> set ws. name_ok w \<Longrightarrow> foldl clean_step acc ws = rev ws @ acc"
  by (induction ws arbitrary: acc) (auto simp: name_ok_def)

lemma parts_rooted: "\<forall>w \<in> set ws. name_ok w \<Longrightarrow> parts (rooted ws) = ws"
proof (cases ws)
  case Nil
  then show ?thesis by (simp add: parts_def rooted_def)
next
  case (Cons w us)
  moreover assume "\<forall>w \<in> set ws. name_ok w"
  ultimately show ?thesis
    using Split_join [of ws] clean_keeps [of ws "[]"] by (simp add: parts_def rooted_def name_ok_def)
qed

lemma IsAbs_rooted [simp]: "IsAbs (rooted ws)"
  by (simp add: IsAbs_def rooted_def)

lemma parts_Clean [simp]: "parts (Clean p) = parts p"
  unfolding Clean_def by (rule parts_rooted) (blast intro: parts_ok)

lemma IsAbs_Clean [simp]: "IsAbs (Clean p)"
  by (simp add: Clean_def)

lemma Clean_idem [simp]: "Clean (Clean p) = Clean p"
  by (simp add: Clean_def [of "Clean p"]) (simp add: Clean_def)

lemma Clean_eq_iff: "Clean p = Clean q \<longleftrightarrow> parts p = parts q"
  by (metis Clean_def parts_Clean)

section \<open>Containment is a prefix of the components\<close>

lemma strip_common_spec:
  "strip_common bs ts = (xs, ys) \<Longrightarrow>
     \<exists>cs. bs = cs @ xs \<and> ts = cs @ ys \<and> (xs \<noteq> [] \<longrightarrow> ys \<noteq> [] \<longrightarrow> hd xs \<noteq> hd ys)"
proof (induction bs ts rule: strip_common.induct)
  case (1 b bs t ts)
  show ?case
  proof (cases "b = t")
    case True
    with 1 obtain cs where "bs = cs @ xs" "ts = cs @ ys" "xs \<noteq> [] \<longrightarrow> ys \<noteq> [] \<longrightarrow> hd xs \<noteq> hd ys" by auto
    with True show ?thesis by (intro exI [of _ "b # cs"]) simp
  qed (use 1 in auto)
qed auto

lemma relative_down:
  assumes "ys \<noteq> []" "\<forall>w \<in> set ys. name_ok w"
  shows "join_parts ys \<noteq> ''..''" "\<not> HasPrefix (join_parts ys) ''../''" "\<not> IsAbs (join_parts ys)"
proof -
  have s: "Split slash (join_parts ys) = ys" using assms by (intro Split_join) (auto simp: name_ok_def)
  have hd: "name_ok (hd ys)" using assms by (cases ys) auto
  show "join_parts ys \<noteq> ''..''"
  proof
    assume "join_parts ys = ''..''"
    then have "ys = [''..'']" using s Split_no_sep [of slash "''..''"] by (simp add: slash_def)
    with hd show False by (simp add: name_ok_def)
  qed
  show "\<not> HasPrefix (join_parts ys) ''../''"
  proof
    assume "HasPrefix (join_parts ys) ''../''"
    then obtain t where "join_parts ys = ''..'' @ slash # t" by (auto simp: HasPrefix_iff slash_def)
    moreover have "slash \<notin> set ''..''" by (simp add: slash_def)
    ultimately have "ys = ''..'' # Split slash t" using s Split_append [of slash "''..''" t] by simp
    with hd show False by (simp add: name_ok_def)
  qed
  show "\<not> IsAbs (join_parts ys)"
  proof
    assume "IsAbs (join_parts ys)"
    then obtain t where "join_parts ys = slash # t" by (cases "join_parts ys") (auto simp: IsAbs_def)
    then have "ys = [] # Split slash t" using s by simp
    with hd show False by (simp add: name_ok_def)
  qed
qed

lemma relative_up:
  "join_parts (''..'' # ws) = ''..'' \<or> HasPrefix (join_parts (''..'' # ws)) ''../''"
  "join_parts (''..'' # ws) \<noteq> ''.''"
  by (cases ws; simp add: HasPrefix_def slash_def)+

lemma Within_iff:
  assumes "IsAbs root" "IsAbs candidate"
  shows "Within root candidate \<longleftrightarrow> (\<exists>rest. parts candidate = parts root @ rest)"
proof (cases "parts candidate = parts root")
  case True
  with assms show ?thesis by (simp add: Within_def Rel_def Clean_eq_iff)
next
  case False
  obtain xs ys where xy: "strip_common (parts root) (parts candidate) = (xs, ys)" by force
  from strip_common_spec [OF xy] obtain cs where cs: "parts root = cs @ xs" "parts candidate = cs @ ys"
    "xs \<noteq> [] \<longrightarrow> ys \<noteq> [] \<longrightarrow> hd xs \<noteq> hd ys" by blast
  have rel: "Rel root candidate = Some (join_parts (replicate (length xs) ''..'' @ ys))"
    using assms False xy by (simp add: Rel_def Clean_eq_iff)
  show ?thesis
  proof (cases xs)
    case Nil
    with cs False have "ys \<noteq> []" by auto
    moreover have "\<forall>w \<in> set ys. name_ok w" using cs(2) parts_ok [of _ candidate] by auto
    ultimately show ?thesis using rel Nil cs relative_down [of ys] by (simp add: Within_def)
  next
    case (Cons x us)
    have "\<not> Within root candidate"
      using rel relative_up [of "replicate (length us) ''..'' @ ys"] Cons by (auto simp: Within_def)
    moreover have "parts candidate \<noteq> parts root @ rest" for rest using cs Cons by auto
    ultimately show ?thesis by blast
  qed
qed

lemma Within_refl: "IsAbs p \<Longrightarrow> Within p p"
  by (simp add: Within_iff)

lemma Within_trans: "IsAbs p \<Longrightarrow> IsAbs q \<Longrightarrow> IsAbs r \<Longrightarrow> Within p q \<Longrightarrow> Within q r \<Longrightarrow> Within p r"
  by (auto simp: Within_iff)

lemma Within_comparable:
  "IsAbs p \<Longrightarrow> IsAbs q \<Longrightarrow> IsAbs r \<Longrightarrow> Within p r \<Longrightarrow> Within q r \<Longrightarrow> Within p q \<or> Within q p"
  unfolding Within_iff by (metis append_eq_append_conv2)

section \<open>The roots\<close>

text \<open>What the operating system is relied on for: the resolution of an absolute path is a clean absolute path.\<close>

definition evaluates_clean :: "path_env \<Rightarrow> bool" where
  "evaluates_clean env \<longleftrightarrow> (\<forall>p q. IsAbs p \<longrightarrow> EvalSymlinks env p = Real q \<longrightarrow> IsAbs q \<and> Clean q = q)"

lemma admissible_clean:
  "evaluates_clean env \<Longrightarrow> admissible_root env excl c = Some r \<Longrightarrow> IsAbs r \<and> Clean r = r"
proof -
  assume env: "evaluates_clean env" and "admissible_root env excl c = Some r"
  then have "EvalSymlinks env (Clean c) = Real r"
    by (auto simp: admissible_root_def Let_def split: if_splits evaluated.splits)
  with env show ?thesis unfolding evaluates_clean_def using IsAbs_Clean by blast
qed

lemma admissible_outside: "admissible_root env True c = Some r \<Longrightarrow> \<not> overlapsExcluded r"
  by (auto simp: admissible_root_def Let_def split: if_splits evaluated.splits)

lemma clean_parts_inj: "Clean p = p \<Longrightarrow> Clean q = q \<Longrightarrow> parts p = parts q \<Longrightarrow> p = q"
  by (metis Clean_eq_iff)

text \<open>A strict ancestor is a shorter text.\<close>

lemma join_longer: "rest \<noteq> [] \<Longrightarrow> \<forall>w \<in> set rest. w \<noteq> [] \<Longrightarrow> length (join_parts ws) < length (join_parts (ws @ rest))"
proof (induction "[slash]" ws rule: join_with.induct)
  case 1
  then show ?case by (cases rest; cases "tl rest") auto
next
  case (2 w)
  then show ?case by (cases rest) auto
qed auto

lemma Within_length:
  assumes "IsAbs p" "IsAbs q" "Clean p = p" "Clean q = q" "Within p q" "length q \<le> length p"
  shows "p = q"
proof -
  obtain rest where r: "parts q = parts p @ rest" using assms by (auto simp: Within_iff)
  have "rest = []"
  proof (rule ccontr)
    assume ne: "rest \<noteq> []"
    have "\<forall>w \<in> set rest. w \<noteq> []" using r parts_ok [of _ q] by (auto simp: name_ok_def)
    from join_longer [OF ne this, of "parts p"] have "length (Clean p) < length (Clean q)"
      by (simp add: Clean_def rooted_def r)
    with assms(3,4,6) show False by simp
  qed
  with r assms(3,4) show ?thesis by (auto intro: clean_parts_inj)
qed

definition apart :: "string list \<Rightarrow> bool" where
  "apart roots \<longleftrightarrow> (\<forall>r \<in> set roots. \<forall>s \<in> set roots. Within r s \<longrightarrow> r = s)"

lemma drop_covered_spec:
  assumes "\<forall>r \<in> set filtered \<union> set roots. IsAbs r \<and> Clean r = r" "apart filtered"
    "sorted (map length roots)" "\<forall>f \<in> set filtered. \<forall>r \<in> set roots. length f \<le> length r"
  shows "set (drop_covered filtered roots) \<subseteq> set filtered \<union> set roots \<and> apart (drop_covered filtered roots)
    \<and> (\<forall>r \<in> set filtered \<union> set roots. \<exists>p \<in> set (drop_covered filtered roots). Within p r)"
  using assms
proof (induction roots arbitrary: filtered)
  case Nil
  then show ?case using Within_refl by auto
next
  case (Cons root roots)
  show ?case
  proof (cases "\<exists>parent \<in> set filtered. Within parent root")
    case True
    then obtain parent where parent: "parent \<in> set filtered" "Within parent root" by blast
    have ih: "set (drop_covered filtered roots) \<subseteq> set filtered \<union> set roots \<and> apart (drop_covered filtered roots)
      \<and> (\<forall>r \<in> set filtered \<union> set roots. \<exists>p \<in> set (drop_covered filtered roots). Within p r)"
      using Cons.prems by (intro Cons.IH) auto
    then obtain p where p: "p \<in> set (drop_covered filtered roots)" "Within p parent" using parent(1) by blast
    have "p \<in> set filtered \<union> set roots" using ih p(1) by blast
    then have "Within p root" using Within_trans [OF _ _ _ p(2) parent(2)] Cons.prems(1) parent(1) by auto
    moreover have "drop_covered filtered (root # roots) = drop_covered filtered roots"
      using True by (auto simp: list_ex_iff)
    ultimately show ?thesis using ih p(1) by auto
  next
    case False
    have eq: "drop_covered filtered (root # roots) = drop_covered (filtered @ [root]) roots"
      using False by (auto simp: list_ex_iff)
    have "apart (filtered @ [root])"
    proof -
      have "r = root" if "r \<in> set filtered" "Within root r" for r
        using that Cons.prems(1,4) Within_length [of root r] by auto
      with False Cons.prems(2) show ?thesis by (auto simp: apart_def)
    qed
    with Cons.prems have "set (drop_covered (filtered @ [root]) roots) \<subseteq> set (filtered @ [root]) \<union> set roots
      \<and> apart (drop_covered (filtered @ [root]) roots)
      \<and> (\<forall>r \<in> set (filtered @ [root]) \<union> set roots. \<exists>p \<in> set (drop_covered (filtered @ [root]) roots). Within p r)"
      by (intro Cons.IH) auto
    then show ?thesis unfolding eq by auto
  qed
qed

lemma policy_spec:
  fixes env paths excl
  defines "found \<equiv> set (List.map_filter (admissible_root env excl) paths)"
  assumes "evaluates_clean env"
  shows "set (NewPathPolicy env paths excl) \<subseteq> found" "apart (NewPathPolicy env paths excl)"
    "\<forall>r \<in> found. \<exists>p \<in> set (NewPathPolicy env paths excl). Within p r"
    "\<forall>r \<in> set (NewPathPolicy env paths excl). IsAbs r \<and> Clean r = r"
proof -
  let ?roots = "sort_key length (sort (remdups (List.map_filter (admissible_root env excl) paths)))"
  have clean: "\<forall>r \<in> found. IsAbs r \<and> Clean r = r"
    using admissible_clean [OF assms(2)] by (auto simp: found_def List.map_filter_def)
  have set: "set ?roots = found" by (simp add: found_def)
  have "apart []" by (simp add: apart_def)
  with clean set drop_covered_spec [of "[]" ?roots]
  have spec: "set (drop_covered [] ?roots) \<subseteq> found \<and> apart (drop_covered [] ?roots)
      \<and> (\<forall>r \<in> found. \<exists>p \<in> set (drop_covered [] ?roots). Within p r)"
    by simp
  then show "set (NewPathPolicy env paths excl) \<subseteq> found" "apart (NewPathPolicy env paths excl)"
    "\<forall>r \<in> found. \<exists>p \<in> set (NewPathPolicy env paths excl). Within p r"
    by (simp_all add: NewPathPolicy_def)
  with clean show "\<forall>r \<in> set (NewPathPolicy env paths excl). IsAbs r \<and> Clean r = r" by blast
qed

lemma policy_admissible:
  assumes "evaluates_clean env" "r \<in> set (NewPathPolicy env paths excl)"
  shows "\<exists>c \<in> set paths. admissible_root env excl c = Some r"
proof -
  have "r \<in> set (List.map_filter (admissible_root env excl) paths)"
    using policy_spec(1) [OF assms(1), where excl = excl and paths = paths] assms(2) by blast
  then show ?thesis by (force simp: List.map_filter_def)
qed

text \<open>The roots of a policy are exactly what the accepted mounts cover, without redundancy: a path lies
  within some root if and only if it lies within the resolution of some accepted mount; no root lies within
  another; and, with the system excluded, no root is the root directory, contains a system directory or
  lies in one, however the mounts are named or linked.\<close>

theorem policy_roots_exact:
  assumes "evaluates_clean env"
  shows "(IsAbs p \<longrightarrow>
           ((\<exists>root \<in> set (NewPathPolicy env paths excl). Within root p)
            \<longleftrightarrow> (\<exists>c \<in> set paths. \<exists>r. admissible_root env excl c = Some r \<and> Within r p)))
    \<and> (\<forall>r \<in> set (NewPathPolicy env paths excl). \<forall>s \<in> set (NewPathPolicy env paths excl). Within r s \<longrightarrow> r = s)
    \<and> (excl \<longrightarrow> (\<forall>r \<in> set (NewPathPolicy env paths excl). r \<noteq> ''/''
         \<and> (\<forall>system \<in> set (tl excludedMountPaths). \<not> Within system r \<and> \<not> Within r system)))"
proof -
  note spec = policy_spec [OF assms, where excl = excl and paths = paths]
  have found: "r \<in> set (List.map_filter (admissible_root env excl) paths)
      \<longleftrightarrow> (\<exists>c \<in> set paths. admissible_root env excl c = Some r)" for r
    by (force simp: List.map_filter_def)
  have "Within q p" if "IsAbs p" "q \<in> set (NewPathPolicy env paths excl)" "Within q r" "Within r p"
    "admissible_root env excl c = Some r" for q r c
    using Within_trans [OF _ _ that(1,3,4)] spec(4) that(2) admissible_clean [OF assms that(5)] by blast
  then have "IsAbs p \<longrightarrow>
      ((\<exists>root \<in> set (NewPathPolicy env paths excl). Within root p)
       \<longleftrightarrow> (\<exists>c \<in> set paths. \<exists>r. admissible_root env excl c = Some r \<and> Within r p))"
    using spec(1,3) found by (metis subset_iff)
  moreover have "\<not> overlapsExcluded r" if "excl" "r \<in> set (NewPathPolicy env paths excl)" for r
    using policy_admissible [OF assms that(2)] that(1) admissible_outside by auto
  ultimately show ?thesis
    using spec(2) by (simp add: apart_def overlapsExcluded_def list_ex_iff)
qed

section \<open>Resolution stays inside\<close>

lemma climb_spec:
  assumes "climb env ws suffix = Inr (ancestor, below)"
  shows "\<exists>up down. rev ws = up @ down \<and> below = down @ suffix \<and> ancestor = rooted up \<and> Lstat env ancestor = Present
    \<and> (\<forall>k \<in> {Suc 0..length down}. Lstat env (rooted (up @ take k down)) = Gone)"
  using assms
proof (induction env ws suffix rule: climb.induct)
  case (1 env suffix)
  then show ?case by (auto split: lstated.splits intro!: exI [of _ "[]"])
next
  case (2 env w ws suffix)
  show ?case
  proof (cases "Lstat env (rooted (rev (w # ws)))")
    case Present
    with 2 show ?thesis by (intro exI [of _ "rev (w # ws)"] exI [of _ "[]"]) auto
  next
    case Gone
    with 2 obtain up down where ih: "rev ws = up @ down" "below = down @ w # suffix" "ancestor = rooted up"
      "Lstat env ancestor = Present" "\<forall>k \<in> {Suc 0..length down}. Lstat env (rooted (up @ take k down)) = lstated.Gone"
      by auto
    have "Lstat env (rooted (up @ take k (down @ [w]))) = lstated.Gone" if "k \<in> {Suc 0..length (down @ [w])}" for k
    proof (cases "k \<le> length down")
      case True
      with that ih(5) show ?thesis by simp
    next
      case False
      with that have "take k (down @ [w]) = down @ [w]" by simp
      with Gone ih(1) show ?thesis by simp
    qed
    with ih show ?thesis by (intro exI [of _ up] exI [of _ "down @ [w]"]) simp
  next
    case LstatFailed
    with 2 show ?thesis by simp
  qed
qed

lemma Split_ne: "Split slash (w @ slash # s) = Split slash w @ Split slash s"
proof (induction w)
  case (Cons c w)
  then show ?case by (cases "Split slash w") (auto split: list.splits)
qed simp

lemma parts_Join:
  assumes "IsAbs p" "\<forall>w \<in> set ws. name_ok w"
  shows "parts (join_parts (p # ws)) = parts p @ ws"
proof (cases ws)
  case (Cons w us)
  have "Split slash (join_parts (p # ws)) = Split slash p @ Split slash (join_parts ws)"
    using Cons by (simp add: Split_ne)
  also have "Split slash (join_parts ws) = ws" using Cons assms(2) by (intro Split_join) (auto simp: name_ok_def)
  finally show ?thesis using clean_keeps [OF assms(2)] by (simp add: parts_def)
qed simp

lemma Resolve_cases:
  assumes "Resolve env roots candidate directory missing = Inr r"
  obtains (existing) "EvalSymlinks env (Clean candidate) = Real r" "assertUnderMount roots r" "IsAbs candidate"
      "directory \<Longrightarrow> StatDir env r = Some True"
  | (leaf) up down q isDir where "EvalSymlinks env (Clean candidate) = Missing" "missing" "IsAbs candidate"
      "parts candidate = up @ down" "Lstat env (rooted up) = Present"
      "\<forall>k \<in> {Suc 0..length down}. Lstat env (rooted (up @ take k down)) = Gone"
      "EvalSymlinks env (rooted up) = Real q" "assertUnderMount roots q" "StatDir env q = Some isDir"
      "down \<noteq> [] \<or> directory \<Longrightarrow> isDir" "r = Join q down"
proof -
  have abs: "IsAbs candidate" using assms by (auto simp: Resolve_def split: if_splits)
  show thesis
  proof (cases "EvalSymlinks env (Clean candidate)")
    case (Real q)
    with assms abs show thesis by (intro existing) (auto simp: Resolve_def split: if_splits)
  next
    case Missing
    then obtain ancestor below where c: "climb env (rev (parts candidate)) [] = Inr (ancestor, below)" "missing"
      using assms abs by (auto simp: Resolve_def split: if_splits sum.splits)
    from climb_spec [OF c(1)] obtain up where up: "parts candidate = up @ below" "ancestor = rooted up"
      "Lstat env ancestor = Present" "\<forall>k \<in> {Suc 0..length below}. Lstat env (rooted (up @ take k below)) = Gone"
      by auto
    obtain q isDir where "EvalSymlinks env ancestor = Real q" "assertUnderMount roots q" "StatDir env q = Some isDir"
      "\<not> (below \<noteq> [] \<and> \<not> isDir \<or> directory \<and> below = [] \<and> \<not> isDir)" "r = Join q below"
      using assms abs Missing c by (auto simp: Resolve_def split: if_splits evaluated.splits option.splits)
    with up Missing c abs show thesis by (intro leaf [of up below q isDir]) auto
  next
    case EvalFailed
    with assms abs show thesis by (simp add: Resolve_def)
  qed
qed

text \<open>C34: What a path resolves to is a clean absolute path within a root of the policy, so never within a
  system directory: for an existing path it is the resolution of the path through its symbolic links, a
  directory where one is asked for; for a missing one it is the resolution of its nearest existing ancestor,
  a directory, followed by the names below it, none of which exist.\<close>

theorem resolved_path_inside:
  assumes "evaluates_clean env" "Resolve env (NewPathPolicy env paths True) candidate directory missing = Inr r"
  shows "IsAbs r \<and> Clean r = r \<and> (\<exists>root \<in> set (NewPathPolicy env paths True). Within root r)
    \<and> (\<forall>system \<in> set (tl excludedMountPaths). \<not> Within system r)
    \<and> (EvalSymlinks env (Clean candidate) = Real r \<and> (directory \<longrightarrow> StatDir env r = Some True)
       \<or> missing \<and> (\<exists>up down q. parts candidate = up @ down \<and> EvalSymlinks env (rooted up) = Real q
            \<and> (down \<noteq> [] \<longrightarrow> StatDir env q = Some True) \<and> parts r = parts q @ down
            \<and> (\<forall>k \<in> {Suc 0..length down}. Lstat env (rooted (up @ take k down)) = Gone)))"
proof -
  note spec = policy_spec [OF assms(1), where excl = True and paths = paths]
  have outside: "\<not> Within system r" if "root \<in> set (NewPathPolicy env paths True)" "Within root r" "IsAbs r"
    "system \<in> set (tl excludedMountPaths)" for root system
  proof
    assume "Within system r"
    moreover have "IsAbs system" using that(4) by (auto simp: excludedMountPaths_def IsAbs_def slash_def)
    moreover have "IsAbs root" using spec(4) that(1) by blast
    ultimately have "Within system root \<or> Within root system" using Within_comparable that(2,3) by blast
    moreover have "\<not> overlapsExcluded root"
      using policy_admissible [OF assms(1) that(1)] admissible_outside by blast
    ultimately show False using that(4) by (auto simp: overlapsExcluded_def list_ex_iff)
  qed
  from assms(2) show ?thesis
  proof (cases rule: Resolve_cases)
    case existing
    then have "IsAbs r \<and> Clean r = r" using assms(1) IsAbs_Clean unfolding evaluates_clean_def by blast
    with existing outside show ?thesis by (auto simp: assertUnderMount_def list_ex_iff)
  next
    case (leaf up down q isDir)
    have q: "IsAbs q" using leaf(7) assms(1) IsAbs_rooted unfolding evaluates_clean_def by blast
    have "\<forall>w \<in> set down. name_ok w" using leaf(4) parts_ok [of _ candidate] by auto
    from parts_Join [OF q this] have r: "parts r = parts q @ down" by (simp add: leaf(11) Join_def)
    have ra: "IsAbs r" "Clean r = r" by (simp_all add: leaf(11) Join_def)
    obtain root where root: "root \<in> set (NewPathPolicy env paths True)" "Within root q"
      using leaf(8) by (auto simp: assertUnderMount_def list_ex_iff)
    have "Within q r" using q ra(1) r by (auto simp: Within_iff)
    with root have "Within root r" using Within_trans [OF _ q ra(1) root(2)] spec(4) by blast
    with root ra r leaf outside show ?thesis by (metis (full_types))
  qed
qed

definition demo_env :: path_env where
  "demo_env = \<lparr>EvalSymlinks = (\<lambda>p. if p = ''/srv'' then Real ''/srv'' else Missing), StatDir = (\<lambda>p. Some (p = ''/srv'')),
     Lstat = (\<lambda>p. if p = ''/srv'' then Present else Gone)\<rparr>"

lemma demo_parts: "parts ''/srv'' = [''srv'']" "parts ''/srv/../srv/./n'' = [''srv'', ''n'']"
  by (simp_all add: parts_def slash_def)

lemma demo_clean: "evaluates_clean demo_env"
  by (auto simp: evaluates_clean_def demo_env_def IsAbs_def slash_def Clean_def demo_parts rooted_def split: if_splits)

lemma demo_outside: "\<not> overlapsExcluded ''/srv''"
proof -
  have "IsAbs ''/srv''" "\<forall>e \<in> set (tl excludedMountPaths). IsAbs e \<and> parts e \<noteq> [] \<and> hd (parts e) \<noteq> ''srv''"
    by (simp_all add: excludedMountPaths_def IsAbs_def slash_def parts_def)
  then have "\<not> Within e ''/srv'' \<and> \<not> Within ''/srv'' e" if "e \<in> set (tl excludedMountPaths)" for e
    using that by (cases "parts e") (auto simp: Within_iff demo_parts Cons_eq_append_conv)
  then show ?thesis by (auto simp: overlapsExcluded_def list_ex_iff)
qed

lemma demo_policy: "NewPathPolicy demo_env [''/srv''] True = [''/srv'']"
proof -
  have "admissible_root demo_env True ''/srv'' = Some ''/srv''"
    using demo_outside by (simp add: admissible_root_def IsAbs_def slash_def Clean_def demo_parts rooted_def demo_env_def)
  then show ?thesis by (simp add: NewPathPolicy_def List.map_filter_def)
qed

theorem policy_roots_exact_witness:
  "(\<exists>root \<in> set (NewPathPolicy demo_env [''/srv''] True). Within root ''/srv/../srv/./n'')"
proof -
  have "IsAbs ''/srv/../srv/./n''" "Within ''/srv'' ''/srv/../srv/./n''"
    by (simp_all add: IsAbs_def slash_def Within_iff demo_parts)
  with policy_roots_exact [OF demo_clean, of "''/srv/../srv/./n''" "[''/srv'']" True] demo_policy show ?thesis
    by auto
qed

lemma demo_resolve: "Resolve demo_env (NewPathPolicy demo_env [''/srv''] True) ''/srv/../srv/./n'' False True = Inr ''/srv/n''"
proof -
  have "parts ''/srv/n'' = [''srv'', ''n'']" by (simp add: parts_def slash_def)
  then show ?thesis
    unfolding demo_policy
    by (simp add: Resolve_def IsAbs_def slash_def Clean_def demo_parts rooted_def demo_env_def assertUnderMount_def
        Within_iff Join_def)
qed

theorem resolved_path_inside_witness:
  "Resolve demo_env (NewPathPolicy demo_env [''/srv''] True) ''/srv/../srv/./n'' False True = Inr ''/srv/n''
   \<and> (\<exists>root \<in> set (NewPathPolicy demo_env [''/srv''] True). Within root ''/srv/n'')"
  using resolved_path_inside [OF demo_clean demo_resolve] demo_resolve by blast

section \<open>Mount names\<close>

text \<open>The kernel writes some characters of a mount point, the backslash among them, as three octal digits.\<close>

fun encode_mount :: "(char \<Rightarrow> bool) \<Rightarrow> string \<Rightarrow> string" where
  "encode_mount special [] = []"
| "encode_mount special (x # s) =
     (if special x
      then [CHR 0x5C, char_of (48 + of_char x div 64 :: nat), char_of (48 + of_char x div 8 mod 8 :: nat),
            char_of (48 + of_char x mod 8 :: nat)]
      else [x]) @ encode_mount special s"

lemma octal_char: "k < 8 \<Longrightarrow> octal_digit (char_of (48 + k)) \<and> (of_char (char_of (48 + k)) :: nat) = 48 + k" for k :: nat
  by (simp add: octal_digit_def less_eq_char_def)

lemma octal_value: "m div 64 * 64 + m div 8 mod 8 * 8 + m mod 8 = m" for m :: nat
proof -
  have "m div 64 = m div 8 div 8" by (simp flip: div_mult2_eq)
  then show ?thesis using div_mult_mod_eq [of m 8] div_mult_mod_eq [of "m div 8" 8] by linarith
qed

lemma parse_octal_char:
  "parse_octal (char_of (48 + of_char x div 64 :: nat)) (char_of (48 + of_char x div 8 mod 8 :: nat))
     (char_of (48 + of_char x mod 8 :: nat)) = Some x"
proof -
  let ?n = "of_char x :: nat"
  have n: "?n < 256" by simp
  have d1: "?n div 64 < 8" by (rule less_mult_imp_div_less) (use n in linarith)
  have d2: "?n div 8 mod 8 < 8" and d3: "?n mod 8 < 8" by simp_all
  note o = octal_char [OF d1] octal_char [OF d2] octal_char [OF d3]
  have "?n div 64 * 64 + ?n div 8 mod 8 * 8 + ?n mod 8 = ?n" by (rule octal_value)
  with n o show ?thesis by (simp add: parse_octal_def Let_def)
qed

lemma decode_encode_mount:
  assumes "special (CHR 0x5C)" "\<not> containsNUL s"
  shows "decodeMountPath (encode_mount special s) = Some s"
proof -
  have "decode_mount (encode_mount special s) = Some s"
    using assms(1) parse_octal_char by (induction s) auto
  with assms(2) show ?thesis by (simp add: decodeMountPath_def)
qed

end
