(* ===== verification/ProjectSplit.thy ===== *)
theory ProjectSplit
  imports Projects PathSafety "HOL-Library.Sublist" "HOL-Library.Multiset"
begin

text \<open>
  Bringing stored projects to the current form: the loops that look for free names end, and splitting legacy
  projects of several roots loses and doubles none of them.
\<close>

section \<open>The loops end\<close>

lemma decimal_inject: "decimal m = decimal n \<longleftrightarrow> m = n"
  by (metis decimal_value)

lemma first_free_steps:
  assumes "k \<le> n" "candidate n \<notin> set taken" "\<forall>j \<in> {k..<n}. candidate j \<in> set taken"
  shows "first_free candidate taken k = Some (candidate n)"
  using assms
proof (induction "n - k" arbitrary: k)
  case 0
  then have "k = n" by simp
  with 0 show ?case by (simp add: first_free.simps)
next
  case (Suc d)
  then have "k < n" by simp
  then have "candidate k \<in> set taken" using Suc.prems(3) by simp
  moreover have "first_free candidate taken (Suc k) = Some (candidate n)"
    by (rule Suc.hyps(1)) (use Suc \<open>k < n\<close> in auto)
  ultimately show ?case by (simp add: first_free.simps [of _ _ k])
qed

lemma first_free_found:
  assumes "inj_on candidate {k..k + length taken}"
  shows "\<exists>n \<in> {k..k + length taken}. first_free candidate taken k = Some (candidate n) \<and> candidate n \<notin> set taken
    \<and> (\<forall>j \<in> {k..<n}. candidate j \<in> set taken)"
proof -
  have "\<not> candidate ` {k..k + length taken} \<subseteq> set taken"
  proof
    assume "candidate ` {k..k + length taken} \<subseteq> set taken"
    then have "card {k..k + length taken} \<le> card (set taken)"
      using card_inj_on_le [OF assms] by simp
    with card_length [of taken] show False by simp
  qed
  then have ex: "\<exists>n. n \<in> {k..k + length taken} \<and> candidate n \<notin> set taken" by blast
  define n where "n = (LEAST n. n \<in> {k..k + length taken} \<and> candidate n \<notin> set taken)"
  have n: "n \<in> {k..k + length taken}" "candidate n \<notin> set taken"
    using LeastI_ex [OF ex] unfolding n_def by blast+
  have before: "\<forall>j \<in> {k..<n}. candidate j \<in> set taken"
  proof (intro ballI)
    fix j assume j: "j \<in> {k..<n}"
    then have "j < (LEAST n. n \<in> {k..k + length taken} \<and> candidate n \<notin> set taken)" by (simp add: n_def)
    from not_less_Least [OF this] j n(1) show "candidate j \<in> set taken" by auto
  qed
  from first_free_steps [OF _ n(2) before] n before show ?thesis by auto
qed

lemma first_free_sound: "first_free candidate taken k = Some s \<Longrightarrow> s \<notin> set taken"
  by (erule first_free.raw_induct [where P = "\<lambda>_ taken _ s. s \<notin> set taken", rotated]) (auto split: if_splits)

lemma inj_slug: "inj_on (slug_candidate base) A"
  by (auto simp: inj_on_def slug_candidate_def decimal_inject)

lemma inj_name: "inj_on (name_candidate base) A"
  by (auto simp: inj_on_def name_candidate_def decimal_inject)

lemma uniqueSlug_found: "\<exists>s. uniqueSlug base taken = Some s"
  using first_free_found [OF inj_slug, of 2 taken base] by (auto simp: uniqueSlug_def)

lemma uniqueSlug_fresh: "uniqueSlug base taken = Some s \<Longrightarrow> s \<notin> set taken"
  by (auto simp: uniqueSlug_def split: if_splits dest: first_free_sound)

lemma uniqueProjectName_found: "\<exists>s. uniqueProjectName base projects = Some s"
  using first_free_found [OF inj_name] by (fastforce simp: uniqueProjectName_def Let_def)

lemma ensure_slugs_returns: "ensure_slugs taken ps \<noteq> None"
proof (induction ps arbitrary: taken)
  case (Cons p ps)
  obtain s where "uniqueSlug (slugify (pj_Name p)) taken = Some s" using uniqueSlug_found by blast
  with Cons [of "pj_Slug p # taken"] Cons [of "s # taken"] show ?case by auto
qed simp

lemma ensure_slugs_found: "\<exists>r. ensure_slugs taken ps = Some r"
  using ensure_slugs_returns [of taken ps] by blast

text \<open>What is relied on of the digest: for one source and root, few suffixes do not collide.\<close>

definition digests_spread :: "(string \<Rightarrow> 8 word list) \<Rightarrow> nat \<Rightarrow> bool" where
  "digests_spread sha256 n \<longleftrightarrow> (\<forall>source dir. inj_on (legacy_id sha256 source dir) {0..n})"

lemma digests_spread_mono: "digests_spread sha256 n \<Longrightarrow> m \<le> n \<Longrightarrow> digests_spread sha256 m"
  unfolding digests_spread_def by (meson atLeastatMost_subset_iff inj_on_subset order_refl)

lemma add_extras_found:
  "digests_spread sha256 (length taken + length extras) \<Longrightarrow> \<exists>r. add_extras sha256 extras taken projects mappings = Some r"
proof (induction extras arbitrary: taken projects mappings)
  case (Cons e extras)
  obtain dir source migrating where e: "e = (dir, source, migrating)" by (cases e)
  obtain name where name: "uniqueProjectName (Base dir) projects = Some name" using uniqueProjectName_found by blast
  have "inj_on (legacy_id sha256 (pj_ID (pp_Project source)) dir) {0..0 + length taken}"
    using digests_spread_mono [OF Cons.prems, of "length taken"] by (simp add: digests_spread_def)
  from first_free_found [OF this] obtain i where
    i: "uniqueLegacyProjectID sha256 (pj_ID (pp_Project source)) dir taken = Some i"
    by (auto simp: uniqueLegacyProjectID_def)
  have "\<exists>r. add_extras sha256 extras (i # taken) ps ms = Some r" for ps ms
    using Cons by simp
  with e name i show ?case by simp
qed simp

definition entry_roots :: "persistedProject \<Rightarrow> string list" where
  "entry_roots e = (if pj_Roots (pp_Project e) = [] \<and> pp_Path e \<noteq> [] then [pp_Path e] else pj_Roots (pp_Project e))"

lemma claim_roots_length: "claim_roots directory claimed roots = Inr (cs, m) \<Longrightarrow> length cs \<le> length roots"
  by (induction roots arbitrary: claimed cs m) (fastforce split: sum.splits if_splits)+

lemma split_entry_length:
  "split_entry directory e s = Inr s' \<Longrightarrow> length (sp_extras s') \<le> length (sp_extras s) + length (entry_roots e)"
  by (auto simp: split_entry_def entry_roots_def Let_def dest!: claim_roots_length split: if_splits sum.splits list.splits)

lemma split_entries_length:
  "split_entries directory es s = Inr s' \<Longrightarrow>
     length (sp_extras s') \<le> length (sp_extras s) + sum_list (map (length \<circ> entry_roots) es)"
proof (induction es arbitrary: s)
  case (Cons e es)
  then obtain s1 where s1: "split_entry directory e s = Inr s1" "split_entries directory es s1 = Inr s'"
    by (auto split: sum.splits)
  from split_entry_length [OF s1(1)] Cons.IH [OF s1(2)] show ?case by simp
qed simp

definition registry_size :: "persistedProject list \<Rightarrow> nat" where
  "registry_size es = length es + sum_list (map (length \<circ> entry_roots) es)"

text \<open>Every loop of the registry that looks for a free name ends. A slug is the wanted one or that with the
  least free suffix, at most one more than there are slugs; and bringing stored projects to the current form ends
  whatever they are, provided that among as many digests as there are stored projects and roots none collide.\<close>

theorem project_names_found:
  assumes "digests_spread sha256 (registry_size entries)"
  shows "normalized directory sha256 entries \<noteq> Inl Hangs
    \<and> (\<exists>slug. uniqueSlug base taken = Some slug \<and> slug \<notin> set taken
         \<and> (slug = base \<or> base \<in> set taken \<and> (\<exists>n \<in> {2..length taken + 2}. slug = slug_candidate base n
              \<and> set (map (slug_candidate base) [2..<n]) \<subseteq> set taken)))"
proof
  show "normalized directory sha256 entries \<noteq> Inl Hangs"
  proof (cases "split_entries directory entries
      \<lparr>sp_projects = [], sp_mappings = [], sp_extras = [], sp_claimed = [], sp_migrated = False\<rparr>")
    case (Inr s)
    let ?ids = "filter (\<lambda>i. i \<noteq> []) (map (pj_ID \<circ> pp_Project) entries)"
    have "length (sp_extras s) \<le> sum_list (map (length \<circ> entry_roots) entries)" "length ?ids \<le> length entries"
      using split_entries_length [OF Inr]
        order_trans [OF length_filter_le [of "\<lambda>i. i \<noteq> []" "map (pj_ID \<circ> pp_Project) entries"], of "length entries"]
      by (simp, simp only: length_map)
    then have "digests_spread sha256 (length ?ids + length (sp_extras s))"
      unfolding registry_size_def [symmetric] by (intro digests_spread_mono [OF assms]) (unfold registry_size_def, rule add_mono)
    from add_extras_found [OF this] obtain ps ms where
      a: "add_extras sha256 (sp_extras s) ?ids (sp_projects s) (sp_mappings s) = Some (ps, ms)" by fastforce
    obtain qs c where "ensureSlugs ps = Some (qs, c)" using ensure_slugs_found [of "[]" ps] by (fastforce simp: ensureSlugs_def)
    with a show ?thesis by (simp add: normalized_def Inr)
  qed (simp add: normalized_def)
  show "\<exists>slug. uniqueSlug base taken = Some slug \<and> slug \<notin> set taken
         \<and> (slug = base \<or> base \<in> set taken \<and> (\<exists>n \<in> {2..length taken + 2}. slug = slug_candidate base n
              \<and> set (map (slug_candidate base) [2..<n]) \<subseteq> set taken))"
  proof (cases "base \<in> set taken")
    case True
    from first_free_found [OF inj_slug, of 2 taken base] obtain n where
      "n \<in> {2..2 + length taken}" "first_free (slug_candidate base) taken 2 = Some (slug_candidate base n)"
      "slug_candidate base n \<notin> set taken" "\<forall>j \<in> {2..<n}. slug_candidate base j \<in> set taken" by blast
    with True show ?thesis by (auto simp: uniqueSlug_def)
  qed (simp add: uniqueSlug_def)
qed

section \<open>Splitting keeps every root\<close>

definition claims ::
  "(string \<Rightarrow> path_error + string) \<Rightarrow> string list \<Rightarrow> string list \<Rightarrow> string list \<Rightarrow> bool \<Rightarrow> bool" where
  "claims directory claimed roots cs m \<longleftrightarrow>
     distinct cs \<and> set cs \<inter> set claimed = {}
     \<and> set cs \<union> set claimed = {c. \<exists>r \<in> set roots. directory r = Inr c} \<union> set claimed
     \<and> (\<forall>r \<in> set roots. \<exists>c. directory r = Inr c) \<and> (\<not> m \<longrightarrow> cs = roots)"

lemma claims_old: "claims directory claimed roots cs m \<Longrightarrow> directory r = Inr c \<Longrightarrow> c \<in> set claimed
    \<Longrightarrow> claims directory claimed (r # roots) cs True"
  unfolding claims_def by auto

lemma claims_new:
  assumes "claims directory (c # claimed) roots cs m" "directory r = Inr c" "c \<notin> set claimed"
  shows "claims directory claimed (r # roots) (c # cs) (m \<or> c \<noteq> r)"
proof -
  have a: "distinct cs" "set cs \<inter> insert c (set claimed) = {}"
    "set cs \<union> insert c (set claimed) = {c. \<exists>r \<in> set roots. directory r = Inr c} \<union> insert c (set claimed)"
    "\<forall>r \<in> set roots. \<exists>c. directory r = Inr c" "\<not> m \<longrightarrow> cs = roots"
    using assms(1) by (simp_all add: claims_def)
  have "{x. \<exists>q \<in> set (r # roots). directory q = Inr x} = insert c {x. \<exists>q \<in> set roots. directory q = Inr x}"
    using assms(2) by auto
  moreover have "set cs \<union> insert c (set claimed) = insert c {c. \<exists>r \<in> set roots. directory r = Inr c} \<union> set claimed"
    using a(3) by simp
  ultimately show ?thesis using a assms(2,3) unfolding claims_def by simp
qed

lemma claim_roots_claims: "claim_roots directory claimed roots = Inr (cs, m) \<Longrightarrow> claims directory claimed roots cs m"
proof (induction roots arbitrary: claimed cs m)
  case (Cons r roots)
  then obtain c where c: "directory r = Inr c" by (auto split: sum.splits)
  show ?case
  proof (cases "c \<in> set claimed")
    case True
    with Cons.prems c obtain m' where "claim_roots directory claimed roots = Inr (cs, m')" "m = True"
      by (auto split: sum.splits)
    with claims_old [OF Cons.IH c True] show ?thesis by simp
  next
    case False
    with Cons.prems c obtain cs' m' where "claim_roots directory (c # claimed) roots = Inr (cs', m')" "cs = c # cs'"
      "m = (m' \<or> c \<noteq> r)" by (auto split: sum.splits)
    with claims_new [OF Cons.IH c False] show ?thesis by simp
  qed
qed (simp add: claims_def)

lemma claim_roots_spec:
  assumes "claim_roots directory claimed roots = Inr (cs, m)"
  shows "distinct cs" "set cs \<inter> set claimed = {}"
    "set cs \<union> set claimed = {c. \<exists>r \<in> set roots. directory r = Inr c} \<union> set claimed"
    "\<forall>r \<in> set roots. \<exists>c. directory r = Inr c"
    "\<not> m \<Longrightarrow> cs = roots"
  using claim_roots_claims [OF assms] unfolding claims_def by blast+

definition from_entry :: "(string \<Rightarrow> path_error + string) \<Rightarrow> persistedProject list \<Rightarrow> string \<Rightarrow> string \<Rightarrow> bool" where
  "from_entry directory es i c \<longleftrightarrow> (\<exists>e \<in> set es. pj_ID (pp_Project e) = i \<and> (\<exists>r \<in> set (entry_roots e). directory r = Inr c))"

lemma from_entry_append: "from_entry directory es i c \<Longrightarrow> from_entry directory (es @ fs) i c"
  by (auto simp: from_entry_def)

definition sp_roots :: "split_state \<Rightarrow> string list" where
  "sp_roots s = concat (map pj_Roots (sp_projects s)) @ map fst (sp_extras s)"

definition kept_project :: "persistedProject list \<Rightarrow> Project \<Rightarrow> bool" where
  "kept_project es p \<longleftrightarrow> (\<exists>e \<in> set es. p = (pp_Project e)\<lparr>pj_Roots := pj_Roots p, pj_Slug := pj_Slug p\<rparr>)"

definition split_inv :: "(string \<Rightarrow> path_error + string) \<Rightarrow> persistedProject list \<Rightarrow> split_state \<Rightarrow> bool" where
  "split_inv directory es s \<longleftrightarrow>
     distinct (sp_claimed s) \<and> mset (sp_roots s) = mset (sp_claimed s)
     \<and> set (sp_claimed s) = {c. \<exists>e \<in> set es. \<exists>r \<in> set (entry_roots e). directory r = Inr c}
     \<and> (\<forall>p \<in> set (sp_projects s). length (pj_Roots p) = 1 \<and> kept_project es p)
     \<and> subseq (map pj_ID (sp_projects s)) (map (pj_ID \<circ> pp_Project) es)
     \<and> (\<forall>m \<in> set (sp_mappings s). SourceProjectID m = TargetProjectID m \<and> from_entry directory es (SourceProjectID m) (MigratedRoot m)
          \<and> (\<exists>p \<in> set (sp_projects s). pj_ID p = TargetProjectID m \<and> pj_Roots p = [MigratedRoot m]))
     \<and> (\<forall>(c, e, migrating) \<in> set (sp_extras s). migrating \<and> from_entry directory es (pj_ID (pp_Project e)) c)"

lemma split_entry_inv:
  assumes "split_entry directory e s = Inr s'" "split_inv directory es s" "pj_ID (pp_Project e) \<noteq> []"
  shows "split_inv directory (es @ [e]) s'"
proof (cases "entry_roots e = []")
  case True
  then have "sp_claimed s' = sp_claimed s" "sp_projects s' = sp_projects s" "sp_extras s' = sp_extras s"
    "sp_mappings s' = sp_mappings s"
    using assms(1) by (auto simp: split_entry_def entry_roots_def Let_def split: if_splits)
  then have same: "sp_roots s' = sp_roots s" by (simp add: sp_roots_def)
  have "{c. \<exists>f \<in> set (es @ [e]). \<exists>r \<in> set (entry_roots f). directory r = Inr c}
      = {c. \<exists>f \<in> set es. \<exists>r \<in> set (entry_roots f). directory r = Inr c}"
    using True by auto
  moreover have "\<And>i c. from_entry directory (es @ [e]) i c = from_entry directory es i c"
    using True by (auto simp: from_entry_def)
  moreover have "\<And>p. kept_project es p \<Longrightarrow> kept_project (es @ [e]) p" by (auto simp: kept_project_def)
  moreover have "subseq xs (map f es) \<Longrightarrow> subseq xs (map f (es @ [e]))" for xs :: "string list" and f
    by (simp add: subseq_rev_drop_many)
  ultimately show ?thesis
    using assms(2) same \<open>sp_claimed s' = sp_claimed s\<close> \<open>sp_projects s' = sp_projects s\<close>
      \<open>sp_extras s' = sp_extras s\<close> \<open>sp_mappings s' = sp_mappings s\<close>
    unfolding split_inv_def by (auto simp del: map_append)
next
  case False
  define i where "i = pj_ID (pp_Project e)"
  obtain cs m where cl: "claim_roots directory (sp_claimed s) (entry_roots e) = Inr (cs, m)"
    using assms(1,3) False by (auto simp: split_entry_def entry_roots_def Let_def split: if_splits sum.splits)
  note cs = claim_roots_spec [OF cl]
  have claimed: "sp_claimed s' = rev cs @ sp_claimed s"
    using assms(1,3) False cl by (auto simp: split_entry_def entry_roots_def Let_def split: if_splits list.splits)
  have rest: "sp_projects s' = sp_projects s @ (case cs of [] \<Rightarrow> [] | c # _ \<Rightarrow> [(pp_Project e)\<lparr>pj_Roots := [c]\<rparr>])"
    "sp_extras s' = sp_extras s @ (case cs of [] \<Rightarrow> [] | c # extras \<Rightarrow> map (\<lambda>x. (x, e, extras \<noteq> [])) extras)"
    "sp_mappings s' = sp_mappings s @ (case cs of [] \<Rightarrow> [] | c # extras \<Rightarrow>
        if extras \<noteq> [] then [\<lparr>SourceProjectID = i, MigratedRoot = c, TargetProjectID = i\<rparr>] else [])"
    using assms(1,3) False cl by (auto simp: split_entry_def entry_roots_def Let_def i_def split: if_splits list.splits)
  have cse: "from_entry directory (es @ [e]) i c" if "c \<in> set cs" for c
    using that cs(2,3) by (auto simp: from_entry_def i_def)
  have inv: "distinct (sp_claimed s)" "mset (sp_roots s) = mset (sp_claimed s)"
    "set (sp_claimed s) = {c. \<exists>e \<in> set es. \<exists>r \<in> set (entry_roots e). directory r = Inr c}"
    "\<And>p. p \<in> set (sp_projects s) \<Longrightarrow> length (pj_Roots p) = 1 \<and> kept_project es p"
    "subseq (map pj_ID (sp_projects s)) (map (pj_ID \<circ> pp_Project) es)"
    "\<And>m. m \<in> set (sp_mappings s) \<Longrightarrow> SourceProjectID m = TargetProjectID m \<and> from_entry directory es (SourceProjectID m) (MigratedRoot m)
          \<and> (\<exists>p \<in> set (sp_projects s). pj_ID p = TargetProjectID m \<and> pj_Roots p = [MigratedRoot m])"
    "\<And>c e g. (c, e, g) \<in> set (sp_extras s) \<Longrightarrow> g \<and> from_entry directory es (pj_ID (pp_Project e)) c"
    using assms(2) unfolding split_inv_def by blast+
  have "distinct (sp_claimed s')" using claimed cs(1,2) inv(1) by auto
  moreover have "mset (sp_roots s') = mset (sp_claimed s')"
    using inv(2) by (cases cs) (simp_all add: sp_roots_def rest claimed comp_def ac_simps)
  moreover have "set (sp_claimed s') = {c. \<exists>e \<in> set (es @ [e]). \<exists>r \<in> set (entry_roots e). directory r = Inr c}"
  proof -
    have "set (sp_claimed s') = set cs \<union> set (sp_claimed s)" using claimed by simp
    also have "\<dots> = {c. \<exists>r \<in> set (entry_roots e). directory r = Inr c} \<union> set (sp_claimed s)" by (rule cs(3))
    finally show ?thesis unfolding inv(3) by auto
  qed
  moreover have "\<forall>p \<in> set (sp_projects s'). length (pj_Roots p) = 1 \<and> kept_project (es @ [e]) p"
    using inv(4) by (cases cs) (auto simp: rest kept_project_def)
  moreover have "subseq (map pj_ID (sp_projects s')) (map (pj_ID \<circ> pp_Project) (es @ [e]))"
    using inv(5) by (cases cs) (auto simp: rest intro: subseq_drop_many list_emb_append_mono subseq_rev_drop_many)
  moreover have "\<forall>m \<in> set (sp_mappings s'). SourceProjectID m = TargetProjectID m
      \<and> from_entry directory (es @ [e]) (SourceProjectID m) (MigratedRoot m)
      \<and> (\<exists>p \<in> set (sp_projects s'). pj_ID p = TargetProjectID m \<and> pj_Roots p = [MigratedRoot m])"
  proof
    fix m assume "m \<in> set (sp_mappings s')"
    then consider (old) "m \<in> set (sp_mappings s)"
      | (new) c where "m = \<lparr>SourceProjectID = i, MigratedRoot = c, TargetProjectID = i\<rparr>" "c \<in> set cs"
          "(pp_Project e)\<lparr>pj_Roots := [c]\<rparr> \<in> set (sp_projects s')"
      by (cases cs) (auto simp: rest split: if_splits)
    then show "SourceProjectID m = TargetProjectID m \<and> from_entry directory (es @ [e]) (SourceProjectID m) (MigratedRoot m)
      \<and> (\<exists>p \<in> set (sp_projects s'). pj_ID p = TargetProjectID m \<and> pj_Roots p = [MigratedRoot m])"
    proof cases
      case old
      with inv(6) [OF old] from_entry_append show ?thesis unfolding rest(1) by (metis UnI1 set_append)
    next
      case new
      with cse show ?thesis by (auto simp: i_def intro!: bexI [OF _ new(3)])
    qed
  qed
  moreover have "\<forall>(c, f, g) \<in> set (sp_extras s'). g \<and> from_entry directory (es @ [e]) (pj_ID (pp_Project f)) c"
  proof (clarify)
    fix c f g assume "(c, f, g) \<in> set (sp_extras s')"
    then consider "(c, f, g) \<in> set (sp_extras s)" | "f = e" "g" "c \<in> set cs" by (cases cs) (auto simp: rest)
    then show "g \<and> from_entry directory (es @ [e]) (pj_ID (pp_Project f)) c"
      by cases (use inv(7) from_entry_append in blast, use cse i_def in blast)
  qed
  ultimately show ?thesis unfolding split_inv_def by blast
qed

lemma split_entries_inv:
  assumes "split_entries directory fs s = Inr s'" "split_inv directory es s" "\<forall>e \<in> set fs. pj_ID (pp_Project e) \<noteq> []"
  shows "split_inv directory (es @ fs) s'"
  using assms
proof (induction fs arbitrary: es s)
  case (Cons e fs)
  then obtain s1 where s1: "split_entry directory e s = Inr s1" "split_entries directory fs s1 = Inr s'"
    by (auto split: sum.splits)
  from Cons.IH [OF s1(2) split_entry_inv [OF s1(1) Cons.prems(2)]] Cons.prems(3) show ?case by simp
qed simp

lemma subseq_set: "subseq xs ys \<Longrightarrow> set xs \<subseteq> set ys"
  by (induction rule: list_emb.induct) auto

lemma subseq_distinct: "subseq xs ys \<Longrightarrow> distinct ys \<longrightarrow> set xs \<subseteq> set ys \<and> distinct xs"
  by (induction rule: list_emb.induct) auto

lemma first_free_member: "first_free candidate taken k = Some s \<Longrightarrow> \<exists>n. s = candidate n"
  by (erule first_free.raw_induct [where P = "\<lambda>candidate _ _ s. \<exists>n. s = candidate n", rotated]) (auto split: if_splits)

lemma add_extras_spec:
  assumes "add_extras sha256 extras taken ps ms = Some (qs, ns)"
  shows "\<exists>ids names. length ids = length extras \<and> length names = length extras \<and> distinct ids \<and> [] \<notin> set ids \<and> set ids \<inter> set taken = {}
    \<and> qs = ps @ map (\<lambda>((i, name), c, e, g). extra_project i name c (pp_Project e)) (zip (zip ids names) extras)
    \<and> ns = ms @ map (\<lambda>(i, c, e, g). \<lparr>SourceProjectID = pj_ID (pp_Project e), MigratedRoot = c, TargetProjectID = i\<rparr>)
              (filter (\<lambda>(i, c, e, g). g) (zip ids extras))"
  using assms
proof (induction extras arbitrary: taken ps ms)
  case (Cons x extras)
  obtain c e g where x: "x = (c, e, g)" by (cases x)
  from Cons.prems x obtain name i where i: "uniqueLegacyProjectID sha256 (pj_ID (pp_Project e)) c taken = Some i"
    and a: "add_extras sha256 extras (i # taken) (ps @ [extra_project i name c (pp_Project e)])
       (ms @ (if g then [\<lparr>SourceProjectID = pj_ID (pp_Project e), MigratedRoot = c, TargetProjectID = i\<rparr>] else [])) = Some (qs, ns)"
    by (auto split: option.splits)
  have "i \<notin> set taken" using i first_free_sound by (simp add: uniqueLegacyProjectID_def)
  have "i \<noteq> []" using i by (auto simp: uniqueLegacyProjectID_def legacy_id_def New_def Let_def dest: first_free_member)
  with Cons.IH [OF a] obtain ids names where "length ids = length extras" "length names = length extras" "distinct ids" "[] \<notin> set ids"
    "i \<notin> set ids" "set ids \<inter> set taken = {}"
    "qs = (ps @ [extra_project i name c (pp_Project e)]) @ map (\<lambda>((i, name), c, e, g). extra_project i name c (pp_Project e)) (zip (zip ids names) extras)"
    "ns = (ms @ (if g then [\<lparr>SourceProjectID = pj_ID (pp_Project e), MigratedRoot = c, TargetProjectID = i\<rparr>] else []))
       @ map (\<lambda>(i, c, e, g). \<lparr>SourceProjectID = pj_ID (pp_Project e), MigratedRoot = c, TargetProjectID = i\<rparr>)
              (filter (\<lambda>(i, c, e, g). g) (zip ids extras))" by auto
  with x \<open>i \<notin> set taken\<close> \<open>i \<noteq> []\<close> show ?case by (intro exI [of _ "i # ids"] exI [of _ "name # names"]) simp
qed simp

lemma ensure_slugs_spec:
  assumes "ensure_slugs taken ps = Some (qs, changed)"
  shows "map (\<lambda>p. p\<lparr>pj_Slug := []\<rparr>) qs = map (\<lambda>p. p\<lparr>pj_Slug := []\<rparr>) ps \<and> distinct (map pj_Slug qs)
    \<and> set (map pj_Slug qs) \<inter> set taken = {} \<and> [] \<notin> set (map pj_Slug qs) \<and> (\<not> changed \<longrightarrow> qs = ps)"
  using assms
proof (induction ps arbitrary: taken qs changed)
  case (Cons p ps)
  show ?case
  proof (cases "pj_Slug p \<noteq> [] \<and> pj_Slug p \<notin> set taken")
    case True
    with Cons.prems obtain rs where r: "ensure_slugs (pj_Slug p # taken) ps = Some (rs, changed)" "qs = p # rs" by auto
    with Cons.IH [OF r(1)] True show ?thesis by auto
  next
    case False
    with Cons.prems obtain s rs c where r: "uniqueSlug (slugify (pj_Name p)) taken = Some s"
      "ensure_slugs (s # taken) ps = Some (rs, c)" "qs = p\<lparr>pj_Slug := s\<rparr> # rs" changed
      by (auto split: option.splits if_splits)
    have "slugify n \<noteq> []" for n by (simp add: slugify_def Let_def)
    then have "uniqueSlug (slugify n) t = Some s \<Longrightarrow> s \<noteq> []" for n t
      by (metis append_is_Nil_conv first_free_member option.inject slug_candidate_def uniqueSlug_def)
    with Cons.IH [OF r(2)] r uniqueSlug_fresh [OF r(1)] show ?thesis by auto
  qed
qed simp

definition split_start :: split_state where
  "split_start = \<lparr>sp_projects = [], sp_mappings = [], sp_extras = [], sp_claimed = [], sp_migrated = False\<rparr>"

lemma split_inv_start: "split_inv directory [] split_start"
  by (simp add: split_inv_def split_start_def sp_roots_def)

lemma normalized_parts:
  assumes "normalized directory sha256 entries = Inr (ps, maps, migrated)"
  obtains s qs changed where "split_entries directory entries split_start = Inr s"
    "add_extras sha256 (sp_extras s) (filter (\<lambda>i. i \<noteq> []) (map (pj_ID \<circ> pp_Project) entries)) (sp_projects s) (sp_mappings s)
       = Some (qs, maps)"
    "ensure_slugs [] qs = Some (ps, changed)"
  using assms unfolding normalized_def split_start_def [symmetric] ensureSlugs_def
  by (simp split: sum.splits option.splits prod.splits)

lemma same_but_slug: "p\<lparr>pj_Slug := []\<rparr> = q\<lparr>pj_Slug := []\<rparr> \<Longrightarrow> p = q\<lparr>pj_Slug := pj_Slug p\<rparr>"
  by (cases p; cases q) simp

abbreviation unslugged :: "Project \<Rightarrow> Project" where
  "unslugged p \<equiv> p\<lparr>pj_Slug := []\<rparr>"

lemma same_fields:
  assumes "map unslugged ps = map unslugged qs"
  shows "map pj_ID ps = map pj_ID qs" "map pj_Roots ps = map pj_Roots qs"
    "p \<in> set ps \<Longrightarrow> \<exists>q \<in> set qs. p = q\<lparr>pj_Slug := pj_Slug p\<rparr>"
    "q \<in> set qs \<Longrightarrow> \<exists>p \<in> set ps. p = q\<lparr>pj_Slug := pj_Slug p\<rparr>"
proof -
  show "map pj_ID ps = map pj_ID qs" using arg_cong [OF assms, of "map pj_ID"] by (simp add: comp_def)
  show "map pj_Roots ps = map pj_Roots qs" using arg_cong [OF assms, of "map pj_Roots"] by (simp add: comp_def)
  have sets: "unslugged ` set ps = unslugged ` set qs" using arg_cong [OF assms, of set] by simp
  show "\<exists>q \<in> set qs. p = q\<lparr>pj_Slug := pj_Slug p\<rparr>" if "p \<in> set ps"
  proof -
    have "unslugged p \<in> unslugged ` set qs" using that sets by blast
    then obtain q where "q \<in> set qs" "unslugged p = unslugged q" by blast
    with same_but_slug show ?thesis by blast
  qed
  show "\<exists>p \<in> set ps. p = q\<lparr>pj_Slug := pj_Slug p\<rparr>" if "q \<in> set qs"
  proof -
    have "unslugged q \<in> unslugged ` set ps" using that sets by blast
    then obtain p where "p \<in> set ps" "unslugged p = unslugged q" by (metis imageE)
    with same_but_slug show ?thesis by blast
  qed
qed

abbreviation added :: "string list \<Rightarrow> string list \<Rightarrow> (string \<times> persistedProject \<times> bool) list \<Rightarrow> Project list" where
  "added ids names extras \<equiv>
     map (\<lambda>((i, name), c, e, g). extra_project i name c (pp_Project e)) (zip (zip ids names) extras)"

lemma added_fields:
  assumes "length ids = length extras" "length names = length extras"
  shows "concat (map pj_Roots (added ids names extras)) = map fst extras" "map pj_ID (added ids names extras) = ids"
    "\<forall>p \<in> set (added ids names extras). length (pj_Roots p) = 1"
  using assms
proof (induction extras arbitrary: ids names)
  case (Cons x extras)
  { case 1 with Cons.IH(1) show ?case by (cases ids; cases names; cases x) (simp_all add: extra_project_def) }
  { case 2 with Cons.IH(2) show ?case by (cases ids; cases names; cases x) (simp_all add: extra_project_def) }
  { case 3 with Cons.IH(3) show ?case by (cases ids; cases names; cases x) (simp_all add: extra_project_def) }
qed simp_all

lemma zip_zip_first: "((i, n), x) \<in> set (zip (zip ids ns) xs) \<Longrightarrow> (i, x) \<in> set (zip ids xs)"
  by (auto simp: in_set_zip)

lemma zip_zip_named:
  assumes "(i, x) \<in> set (zip ids xs)" "length ns = length xs"
  shows "\<exists>n. ((i, n), x) \<in> set (zip (zip ids ns) xs)"
proof -
  obtain k where "k < length ids" "k < length xs" "ids ! k = i" "xs ! k = x" using assms(1) by (auto simp: in_set_zip)
  then have "((i, ns ! k), x) = zip (zip ids ns) xs ! k" "k < length (zip (zip ids ns) xs)" using assms(2) by auto
  then show ?thesis by (metis nth_mem)
qed

lemma kept_reslugged:
  assumes "kept_project es q" shows "kept_project es (q\<lparr>pj_Slug := s\<rparr>)"
proof -
  obtain e where e: "e \<in> set es" "q = (pp_Project e)\<lparr>pj_Roots := pj_Roots q, pj_Slug := pj_Slug q\<rparr>"
    using assms by (auto simp: kept_project_def)
  have "q\<lparr>pj_Slug := s\<rparr> = (pp_Project e)\<lparr>pj_Roots := pj_Roots q, pj_Slug := s\<rparr>" by (subst e(2)) simp
  with e(1) show ?thesis by (auto simp: kept_project_def)
qed

definition stored_ids :: "persistedProject list \<Rightarrow> string list" where
  "stored_ids entries = map (pj_ID \<circ> pp_Project) entries"

lemma normalized_facts:
  assumes "normalized directory sha256 entries = Inr (ps, maps, migrated)" "[] \<notin> set (stored_ids entries)"
  shows "distinct (concat (map pj_Roots ps))" "list_all (\<lambda>p. length (pj_Roots p) = 1) ps"
    "set (concat (map pj_Roots ps)) = {c. \<exists>e \<in> set entries. \<exists>r \<in> set (entry_roots e). directory r = Inr c}"
    "distinct (stored_ids entries) \<Longrightarrow> distinct (map pj_ID ps)"
    "list_all (\<lambda>p. kept_project entries p \<or> pj_ID p \<notin> set (stored_ids entries)
         \<and> (\<exists>m \<in> set maps. TargetProjectID m = pj_ID p \<and> pj_Roots p = [MigratedRoot m])) ps"
    "list_all (\<lambda>m. from_entry directory entries (SourceProjectID m) (MigratedRoot m)
         \<and> (\<exists>p \<in> set ps. pj_ID p = TargetProjectID m \<and> pj_Roots p = [MigratedRoot m])) maps"
    "distinct (map pj_Slug ps)" "[] \<notin> set (map pj_Slug ps)" "[] \<notin> set (map pj_ID ps)"
proof -
  obtain s qs changed where s: "split_entries directory entries split_start = Inr s"
    and a: "add_extras sha256 (sp_extras s) (filter (\<lambda>i. i \<noteq> []) (map (pj_ID \<circ> pp_Project) entries)) (sp_projects s) (sp_mappings s)
       = Some (qs, maps)"
    and e: "ensure_slugs [] qs = Some (ps, changed)"
    using assms(1) by (rule normalized_parts)
  have ids: "filter (\<lambda>i. i \<noteq> []) (map (pj_ID \<circ> pp_Project) entries) = stored_ids entries"
    using assms(2) by (auto simp: stored_ids_def intro!: filter_True)
  have "\<forall>e \<in> set entries. pj_ID (pp_Project e) \<noteq> []" using assms(2) unfolding stored_ids_def by (metis comp_apply image_eqI set_map)
  from split_entries_inv [OF s split_inv_start this] have inv: "split_inv directory entries s" by simp
  have slugs: "map pj_ID ps = map pj_ID qs" "map pj_Roots ps = map pj_Roots qs"
    "\<And>p. p \<in> set ps \<Longrightarrow> \<exists>q \<in> set qs. p = q\<lparr>pj_Slug := pj_Slug p\<rparr>"
    "\<And>q. q \<in> set qs \<Longrightarrow> \<exists>p \<in> set ps. p = q\<lparr>pj_Slug := pj_Slug p\<rparr>"
    using same_fields [of ps qs] ensure_slugs_spec [OF e] by blast+
  from add_extras_spec [OF a, unfolded ids] obtain ids names where
    n: "length ids = length (sp_extras s)" "length names = length (sp_extras s)" "distinct ids" "[] \<notin> set ids"
    "set ids \<inter> set (stored_ids entries) = {}" and
    qs: "qs = sp_projects s @ map (\<lambda>((i, name), c, e, g). extra_project i name c (pp_Project e)) (zip (zip ids names) (sp_extras s))"
    and ms: "maps = sp_mappings s
       @ map (\<lambda>(i, c, e, g). \<lparr>SourceProjectID = pj_ID (pp_Project e), MigratedRoot = c, TargetProjectID = i\<rparr>)
           (filter (\<lambda>(i, c, e, g). g) (zip ids (sp_extras s)))" by blast
  note af = added_fields [OF n(1,2)]
  have iv: "distinct (sp_claimed s)" "mset (sp_roots s) = mset (sp_claimed s)"
    "set (sp_claimed s) = {c. \<exists>e \<in> set entries. \<exists>r \<in> set (entry_roots e). directory r = Inr c}"
    "\<And>p. p \<in> set (sp_projects s) \<Longrightarrow> length (pj_Roots p) = 1 \<and> kept_project entries p"
    "subseq (map pj_ID (sp_projects s)) (stored_ids entries)"
    "\<And>m. m \<in> set (sp_mappings s) \<Longrightarrow> SourceProjectID m = TargetProjectID m \<and> from_entry directory entries (SourceProjectID m) (MigratedRoot m)
          \<and> (\<exists>p \<in> set (sp_projects s). pj_ID p = TargetProjectID m \<and> pj_Roots p = [MigratedRoot m])"
    "\<And>c e g. (c, e, g) \<in> set (sp_extras s) \<Longrightarrow> g \<and> from_entry directory entries (pj_ID (pp_Project e)) c"
    using inv unfolding split_inv_def stored_ids_def by blast+
  have roots: "concat (map pj_Roots ps) = sp_roots s"
    unfolding slugs(2) qs by (simp only: map_append concat_append af(1) sp_roots_def)
  have d: "distinct (sp_roots s)" "set (sp_roots s) = set (sp_claimed s)"
    using iv(1) mset_eq_imp_distinct_iff [OF iv(2)] mset_eq_setD [OF iv(2)] by simp_all
  have ids_eq: "map pj_ID ps = map pj_ID (sp_projects s) @ ids" unfolding slugs(1) qs by (simp only: map_append af(2))
  have "set (map pj_ID (sp_projects s)) \<subseteq> set (stored_ids entries)"
    by (rule subseq_set [OF iv(5)])
  then have sub: "set (map pj_ID (sp_projects s)) \<inter> set ids = {}" "[] \<notin> set (map pj_ID (sp_projects s))"
    using n(5) assms(2) by blast+
  have one: "length (pj_Roots p) = 1" if pin: "p \<in> set ps" for p
  proof -
    obtain q where "q \<in> set qs" "p = q\<lparr>pj_Slug := pj_Slug p\<rparr>" using slugs(3) [OF pin] by blast
    then have "pj_Roots p = pj_Roots q" by (metis Project.select_convs(3) Project.surjective Project.update_convs(4))
    with \<open>q \<in> set qs\<close> iv(4) af(3) show ?thesis unfolding qs by auto
  qed
  have member: "((i, name), c, e, g) \<in> set (zip (zip ids names) (sp_extras s)) \<Longrightarrow>
      (c, e, g) \<in> set (sp_extras s) \<and> i \<in> set ids
      \<and> \<lparr>SourceProjectID = pj_ID (pp_Project e), MigratedRoot = c, TargetProjectID = i\<rparr> \<in> set maps" for i name c e g
  proof -
    assume z: "((i, name), c, e, g) \<in> set (zip (zip ids names) (sp_extras s))"
    note z' = zip_zip_first [OF z]
    have "(c, e, g) \<in> set (sp_extras s)" "i \<in> set ids" using z' by (blast dest: set_zip_rightD set_zip_leftD)+
    moreover have "g" using iv(7) calculation(1) by blast
    ultimately show ?thesis using z' unfolding ms by force
  qed
  have four: "kept_project entries p \<or> pj_ID p \<notin> set (stored_ids entries)
      \<and> (\<exists>m \<in> set maps. TargetProjectID m = pj_ID p \<and> pj_Roots p = [MigratedRoot m])" if pin: "p \<in> set ps" for p
  proof -
    obtain q where q: "q \<in> set qs" "p = q\<lparr>pj_Slug := pj_Slug p\<rparr>" using slugs(3) [OF pin] by blast
    consider "q \<in> set (sp_projects s)" | i name c e g where "((i, name), c, e, g) \<in> set (zip (zip ids names) (sp_extras s))"
        "q = extra_project i name c (pp_Project e)" using q(1) unfolding qs by auto
    then show ?thesis
    proof cases
      case 1
      with iv(4) q(2) kept_reslugged show ?thesis by metis
    next
      case (2 i name c e g)
      from 2(2) q(2) have p: "pj_ID p = i" "pj_Roots p = [c]"
        by (metis extra_project_def Project.select_convs(1) Project.surjective Project.update_convs(4),
            metis extra_project_def Project.select_convs(3) Project.surjective Project.update_convs(4))
      from member [OF 2(1)] n(5) p show ?thesis by force
    qed
  qed
  have five: "from_entry directory entries (SourceProjectID m) (MigratedRoot m)
      \<and> (\<exists>p \<in> set ps. pj_ID p = TargetProjectID m \<and> pj_Roots p = [MigratedRoot m])" if "m \<in> set maps" for m
  proof -
    have "from_entry directory entries (SourceProjectID m) (MigratedRoot m)
        \<and> (\<exists>q \<in> set qs. pj_ID q = TargetProjectID m \<and> pj_Roots q = [MigratedRoot m])"
    proof (cases "m \<in> set (sp_mappings s)")
      case True
      from iv(6) [OF this] show ?thesis unfolding qs by auto
    next
      case False
      with that obtain i c e g where z: "(i, c, e, g) \<in> set (zip ids (sp_extras s))"
        and m: "m = \<lparr>SourceProjectID = pj_ID (pp_Project e), MigratedRoot = c, TargetProjectID = i\<rparr>" unfolding ms by auto
      from zip_zip_named [OF z n(2)] obtain name where z3: "((i, name), c, e, g) \<in> set (zip (zip ids names) (sp_extras s))" ..
      then have "extra_project i name c (pp_Project e) \<in> set qs" unfolding qs by force
      with iv(7) member [OF z3] m show ?thesis by (force simp: extra_project_def)
    qed
    then obtain q where q: "from_entry directory entries (SourceProjectID m) (MigratedRoot m)" "q \<in> set qs"
      "pj_ID q = TargetProjectID m" "pj_Roots q = [MigratedRoot m]" by blast
    from slugs(4) [OF q(2)] obtain p where "p \<in> set ps" "p = q\<lparr>pj_Slug := pj_Slug p\<rparr>" by blast
    with q show ?thesis by (metis Project.select_convs(1,3) Project.surjective Project.update_convs(4))
  qed
  show "distinct (concat (map pj_Roots ps))" unfolding roots by (rule d)
  show "set (concat (map pj_Roots ps)) = {c. \<exists>e \<in> set entries. \<exists>r \<in> set (entry_roots e). directory r = Inr c}"
    unfolding roots d(2) by (rule iv(3))
  show "distinct (map pj_ID ps)" if "distinct (stored_ids entries)"
    using subseq_distinct [OF iv(5)] that sub n(3) unfolding ids_eq by (simp only: distinct_append)
  show "[] \<notin> set (map pj_ID ps)" unfolding ids_eq using sub(2) n(4) by simp
  show "distinct (map pj_Slug ps)" "[] \<notin> set (map pj_Slug ps)" using ensure_slugs_spec [OF e] by blast+
  show "list_all (\<lambda>p. length (pj_Roots p) = 1) ps" using one by (simp add: list_all_iff)
  show "list_all (\<lambda>p. kept_project entries p \<or> pj_ID p \<notin> set (stored_ids entries)
      \<and> (\<exists>m \<in> set maps. TargetProjectID m = pj_ID p \<and> pj_Roots p = [MigratedRoot m])) ps"
    unfolding list_all_iff using four by blast
  show "list_all (\<lambda>m. from_entry directory entries (SourceProjectID m) (MigratedRoot m)
      \<and> (\<exists>p \<in> set ps. pj_ID p = TargetProjectID m \<and> pj_Roots p = [MigratedRoot m])) maps"
    unfolding list_all_iff using five by blast
qed

text \<open>C35: When stored projects are brought to the current form, no root is lost, doubled or given to a stranger:
  the roots of the resulting projects are exactly the resolved roots of the stored ones, each the only root of one
  project; the identifiers stay distinct; each project is a stored one, but for its root and slug, or was
  added under a new identifier for a root the recorded mapping gives to it; and every mapping names a stored project,
  a root of it and the project that has this root now.\<close>

theorem split_keeps_every_root:
  assumes "normalized directory sha256 entries = Inr (ps, maps, migrated)"
    and "[] \<notin> set (stored_ids entries)" "distinct (stored_ids entries)"
  shows "distinct (concat (map pj_Roots ps)) \<and> list_all (\<lambda>p. length (pj_Roots p) = 1) ps
    \<and> set (concat (map pj_Roots ps)) = {c. \<exists>e \<in> set entries. \<exists>r \<in> set (entry_roots e). directory r = Inr c}
    \<and> distinct (map pj_ID ps)
    \<and> list_all (\<lambda>p. kept_project entries p \<or> pj_ID p \<notin> set (stored_ids entries)
         \<and> (\<exists>m \<in> set maps. TargetProjectID m = pj_ID p \<and> pj_Roots p = [MigratedRoot m])) ps
    \<and> list_all (\<lambda>m. from_entry directory entries (SourceProjectID m) (MigratedRoot m)
         \<and> (\<exists>p \<in> set ps. pj_ID p = TargetProjectID m \<and> pj_Roots p = [MigratedRoot m])) maps"
proof -
  note f = normalized_facts [OF assms(1,2)]
  show ?thesis by (intro conjI f(1-3) f(4) [OF assms(3)] f(5,6))
qed

section \<open>A legacy project of two roots\<close>

definition last_byte_digest :: "string \<Rightarrow> 8 word list" where
  "last_byte_digest s = replicate 15 0 @ [word_of_nat (of_char (last s))]"

lemma last_byte_digests_spread: "digests_spread last_byte_digest 3"
proof -
  have d: "legacy_id last_byte_digest source dir k = New (replicate 15 0 @ [word_of_nat (48 + k)])" if "k \<in> {0..3}" for source dir k
    using that by (simp add: legacy_id_def last_byte_digest_def decimal.simps)
  have "distinct (map (\<lambda>k. New (replicate 15 0 @ [word_of_nat (48 + k)])) [0..<4])" by code_simp
  then have i: "inj_on (\<lambda>k. New (replicate 15 0 @ [word_of_nat (48 + k)])) {0..3}"
    by (simp add: distinct_map atLeast0_lessThan_Suc_eq_insert_0 inj_on_def)
  show ?thesis unfolding digests_spread_def
  proof (intro allI)
    fix source dir
    show "inj_on (legacy_id last_byte_digest source dir) {0..3}"
      using i d unfolding inj_on_def by simp
  qed
qed

definition legacy_project :: persistedProject where
  "legacy_project = \<lparr>pp_Project = \<lparr>pj_ID = ''p'', pj_Name = ''Both'', pj_Roots = [''/srv/a'', ''/srv/b''], pj_Slug = [], pj_LastOpened = 5,
     pj_Icon = ''code'', pj_Closed = False\<rparr>, pp_Path = []\<rparr>"

definition split_projects :: "Project list" where
  "split_projects =
     [\<lparr>pj_ID = ''p'', pj_Name = ''Both'', pj_Roots = [''/srv/a''], pj_Slug = ''both'', pj_LastOpened = 5, pj_Icon = ''code'',
       pj_Closed = False\<rparr>,
      \<lparr>pj_ID = ''00000000-0000-4000-8000-000000000030'', pj_Name = ''b'', pj_Roots = [''/srv/b''], pj_Slug = ''b'',
       pj_LastOpened = 5, pj_Icon = ''code'', pj_Closed = False\<rparr>]"

definition split_mappings :: "ProjectRootMigration list" where
  "split_mappings =
     [\<lparr>SourceProjectID = ''p'', MigratedRoot = ''/srv/a'', TargetProjectID = ''p''\<rparr>,
      \<lparr>SourceProjectID = ''p'', MigratedRoot = ''/srv/b'', TargetProjectID = ''00000000-0000-4000-8000-000000000030''\<rparr>]"

lemma legacy_split: "normalized Inr last_byte_digest [legacy_project] = Inr (split_projects, split_mappings, True)"
  by code_simp

lemma project_names_found_witness:
  "normalized Inr last_byte_digest [legacy_project] \<noteq> Inl Hangs
    \<and> (\<exists>slug. uniqueSlug ''a'' [''a'', ''a-2''] = Some slug \<and> slug \<notin> {''a'', ''a-2''})"
proof -
  have "digests_spread last_byte_digest (registry_size [legacy_project])"
    using last_byte_digests_spread by (simp add: registry_size_def entry_roots_def legacy_project_def numeral_3_eq_3)
  from project_names_found [OF this, of Inr "''a''" "[''a'', ''a-2'']"] show ?thesis by auto
qed

lemma split_keeps_every_root_witness:
  "distinct (map pj_ID split_projects) \<and> set (concat (map pj_Roots split_projects)) = {''/srv/a'', ''/srv/b''}"
proof -
  have "[] \<notin> set (stored_ids [legacy_project])" "distinct (stored_ids [legacy_project])"
    by (simp_all add: stored_ids_def legacy_project_def)
  from split_keeps_every_root [OF legacy_split this] show ?thesis
    by (auto simp: entry_roots_def legacy_project_def)
qed

end
