(* ===== verification/ProjectSafety.thy ===== *)
theory ProjectSafety
  imports ProjectSplit
begin

text \<open>
  The registry of projects in use: the current form is a fixed point of the migration, the registry stays well
  formed through every call, and the directories of sessions lie inside their project's root.
\<close>

section \<open>The current form is stable\<close>

definition current :: "(string \<Rightarrow> path_error + string) \<Rightarrow> Project list \<Rightarrow> bool" where
  "current directory ps \<longleftrightarrow>
     list_all (\<lambda>p. pj_ID p \<noteq> [] \<and> pj_Slug p \<noteq> []) ps
     \<and> list_all (\<lambda>p. length (pj_Roots p) = 1 \<and> directory (pj_Roots p ! 0) = Inr (pj_Roots p ! 0)) ps
     \<and> distinct (concat (map pj_Roots ps)) \<and> distinct (map pj_Slug ps)"

lemma split_current:
  assumes "list_all (\<lambda>p. pj_ID p \<noteq> [] \<and> length (pj_Roots p) = 1 \<and> directory (pj_Roots p ! 0) = Inr (pj_Roots p ! 0)) ps"
    and "distinct (concat (map pj_Roots ps))" "set (concat (map pj_Roots ps)) \<inter> set (sp_claimed s) = {}"
  shows "split_entries directory (map (\<lambda>p. \<lparr>pp_Project = p, pp_Path = []\<rparr>) ps) s =
    Inr (s\<lparr>sp_projects := sp_projects s @ ps, sp_claimed := rev (concat (map pj_Roots ps)) @ sp_claimed s\<rparr>)"
  using assms
proof (induction ps arbitrary: s)
  case (Cons p ps)
  obtain r where r: "pj_Roots p = [r]" "directory r = Inr r" "pj_ID p \<noteq> []" "r \<notin> set (sp_claimed s)"
    using Cons.prems by (cases "pj_Roots p") auto
  then have "p\<lparr>pj_Roots := [r]\<rparr> = p" by (cases p) simp
  with r have "split_entry directory \<lparr>pp_Project = p, pp_Path = []\<rparr> s =
      Inr (s\<lparr>sp_projects := sp_projects s @ [p], sp_claimed := r # sp_claimed s\<rparr>)"
    by (simp add: split_entry_def Let_def)
  moreover have "split_entries directory (map (\<lambda>p. \<lparr>pp_Project = p, pp_Path = []\<rparr>) ps)
      (s\<lparr>sp_projects := sp_projects s @ [p], sp_claimed := r # sp_claimed s\<rparr>) =
      Inr (s\<lparr>sp_projects := sp_projects s @ p # ps, sp_claimed := rev (concat (map pj_Roots ps)) @ r # sp_claimed s\<rparr>)"
    using Cons.prems r by (subst Cons.IH) auto
  ultimately show ?case using r by simp
qed simp

lemma ensure_slugs_current:
  "distinct (map pj_Slug ps) \<Longrightarrow> [] \<notin> set (map pj_Slug ps) \<Longrightarrow> set (map pj_Slug ps) \<inter> set taken = {} \<Longrightarrow>
     ensure_slugs taken ps = Some (ps, False)"
  by (induction ps arbitrary: taken) auto

lemma normalized_current:
  assumes "current directory ps"
  shows "normalized directory sha256 (the (persisted ps)) = Inr (ps, [], False)"
proof -
  have "split_entries directory (the (persisted ps)) split_start =
      Inr (split_start\<lparr>sp_projects := ps, sp_claimed := rev (concat (map pj_Roots ps))\<rparr>)"
    using assms split_current [of directory ps split_start]
    by (simp add: persisted_def current_def list_all_iff split_start_def)
  moreover have "ensure_slugs [] ps = Some (ps, False)"
    using assms by (intro ensure_slugs_current) (auto simp: current_def list_all_iff)
  ultimately show ?thesis
    unfolding normalized_def split_start_def [symmetric] ensureSlugs_def by (simp add: split_start_def)
qed

text \<open>What a successful reading gives is in the current form, if directories resolve to themselves.\<close>

definition settles :: "(string \<Rightarrow> path_error + string) \<Rightarrow> bool" where
  "settles directory \<longleftrightarrow> (\<forall>r c. directory r = Inr c \<longrightarrow> directory c = Inr c \<and> c \<noteq> [])"

lemma normalized_is_current:
  assumes "normalized directory sha256 entries = Inr (ps, maps, migrated)"
    and "[] \<notin> set (stored_ids entries)" "settles directory"
  shows "current directory ps"
proof -
  note f = normalized_facts [OF assms(1,2)]
  have "directory (pj_Roots p ! 0) = Inr (pj_Roots p ! 0)" if p: "p \<in> set ps" for p
  proof -
    have "pj_Roots p ! 0 \<in> set (pj_Roots p)" using f(2) p by (auto simp: list_all_iff)
    then have "pj_Roots p ! 0 \<in> set (concat (map pj_Roots ps))" using p by auto
    then obtain r where "directory r = Inr (pj_Roots p ! 0)" unfolding f(3) by blast
    with assms(3) show ?thesis unfolding settles_def by blast
  qed
  moreover have "list_all (\<lambda>p. pj_ID p \<noteq> [] \<and> pj_Slug p \<noteq> []) ps"
    using f(8,9) unfolding list_all_iff by (metis image_eqI set_map)
  ultimately show ?thesis using f(1,2,7) by (simp add: current_def list_all_iff)
qed

lemma split_entry_unchanged:
  assumes "split_entry directory e s = Inr s'" "\<not> sp_migrated s'" "\<not> sp_migrated s \<Longrightarrow> sp_mappings s = [] \<and> sp_extras s = []"
  shows "\<not> sp_migrated s \<and> sp_mappings s' = [] \<and> sp_extras s' = []"
  using assms
  by (auto simp: split_entry_def Let_def dest!: claim_roots_length split: if_splits sum.splits list.splits)

lemma split_entries_unchanged:
  "split_entries directory es s = Inr s' \<Longrightarrow> \<not> sp_migrated s' \<Longrightarrow>
     (\<not> sp_migrated s \<Longrightarrow> sp_mappings s = [] \<and> sp_extras s = []) \<Longrightarrow>
     \<not> sp_migrated s \<and> sp_mappings s' = [] \<and> sp_extras s' = []"
proof (induction es arbitrary: s)
  case (Cons e es)
  then obtain s1 where s1: "split_entry directory e s = Inr s1" "split_entries directory es s1 = Inr s'"
    by (auto split: sum.splits)
  from split_entry_unchanged [OF s1(1) _ Cons.prems(3)]
  have "\<not> sp_migrated s1 \<Longrightarrow> \<not> sp_migrated s \<and> sp_mappings s1 = [] \<and> sp_extras s1 = []" .
  with Cons.IH [OF s1(2) Cons.prems(2)] show ?case by blast
qed auto

lemma normalized_unchanged:
  assumes "normalized directory sha256 entries = Inr (ps, maps, False)"
  shows "maps = []"
proof -
  obtain s qs where s: "split_entries directory entries split_start = Inr s" "\<not> sp_migrated s"
    "add_extras sha256 (sp_extras s) (filter (\<lambda>i. i \<noteq> []) (map (pj_ID \<circ> pp_Project) entries)) (sp_projects s) (sp_mappings s)
       = Some (qs, maps)"
    using assms unfolding normalized_def split_start_def [symmetric]
    by (simp split: sum.splits option.splits prod.splits)
  from split_entries_unchanged [OF s(1,2)] s(3) show ?thesis by (simp add: split_start_def)
qed

section \<open>The file\<close>

lemma near_write_weaken:
  assumes "near_write c strict p fs0 new fs" "\<And>v. strict v \<Longrightarrow> lax v"
  shows "near_write c lax p fs0 new fs"
proof -
  have "Decode c strict raw \<noteq> None \<Longrightarrow> Decode c lax raw \<noteq> None" for raw
    using assms(2) by (auto simp: Decode_def split: option.splits if_splits)
  with assms(1) show ?thesis unfolding near_write_def by blast
qed

lemma Decode_weaken:
  "(\<And>v. strict v \<Longrightarrow> lax v) \<Longrightarrow> Decode c strict raw \<noteq> None \<Longrightarrow> Decode c lax raw = Decode c strict raw"
  by (auto simp: Decode_def split: option.splits if_splits)

lemma current_valid: "validateCurrentProjects v \<Longrightarrow> validateProjects v"
  by (simp add: validateCurrentProjects_def)

definition projects_now :: "projects_env \<Rightarrow> filesys \<Rightarrow> persistedProject list option loaded" where
  "projects_now pe fs = load_now (pe_codec pe) validateProjects (pe_file pe) fs"

interpretation project_file: durable_store "projects_now pe" "projects_write pe" "\<lambda>ps. Loaded (persisted ps)"
  "\<lambda>ps. exact (pe_codec pe) (persisted ps)" for pe
proof unfold_locales
  fix v w w' assume ex: "exact (pe_codec pe) (persisted v)" and wr: "projects_write pe v w = (True, w')"
  from Write_nodes [OF wr [unfolded projects_write_def]] obtain s m where
    s: "marshal (pe_codec pe) (persisted v) = Some s" "length (s @ [newline]) \<le> maxJSONBytes"
      "Decode (pe_codec pe) validateCurrentProjects (s @ [newline]) \<noteq> None"
    and n: "get (files w') (pe_file pe) = Some \<lparr>content = s @ [newline], fmode = m, regular = True\<rparr>" by blast
  have "Decode (pe_codec pe) validateProjects (s @ [newline]) = Some (persisted v)"
    using exact_Decode [OF ex s(1) s(3)] Decode_weaken [OF current_valid s(3)] by simp
  from load_now_written [OF n s(2) this] show "projects_now pe (files w') = Loaded (persisted v)"
    by (simp add: projects_now_def)
next
  fix v w ok w' assume ex: "exact (pe_codec pe) (persisted v)" and wr: "projects_write pe v w = (ok, w')"
  from Write_nodes [OF wr [unfolded projects_write_def]]
  show "passes (\<lambda>fs. projects_now pe fs = projects_now pe (files w) \<or> projects_now pe fs = Loaded (persisted v)) w w'"
  proof (elim disjE exE conjE)
    fix s m assume s: "marshal (pe_codec pe) (persisted v) = Some s" "length (s @ [newline]) \<le> maxJSONBytes"
      "Decode (pe_codec pe) validateCurrentProjects (s @ [newline]) \<noteq> None" and
      ps: "passes (near_write (pe_codec pe) validateCurrentProjects (pe_file pe) (files w)
             \<lparr>content = s @ [newline], fmode = m, regular = True\<rparr>) w w'"
    have d: "Decode (pe_codec pe) validateProjects (s @ [newline]) = Some (persisted v)"
      using exact_Decode [OF ex s(1) s(3)] Decode_weaken [OF current_valid s(3)] by simp
    show ?thesis unfolding projects_now_def
      by (rule passes_mono [OF ps]) (rule near_write_load [OF near_write_weaken [OF _ current_valid] s(2) d])
  qed (simp add: passes_def)
qed

text \<open>What is relied on of \<open>filepath.EvalSymlinks\<close>, next to its results being clean: they evaluate to themselves.\<close>

definition evaluates_once :: "path_env \<Rightarrow> bool" where
  "evaluates_once env \<longleftrightarrow> evaluates_clean env \<and> (\<forall>p c. EvalSymlinks env (Clean p) = Real c \<longrightarrow> EvalSymlinks env c = Real c)"

lemma Directory_existing:
  "Directory env policy r = Inr c \<Longrightarrow> EvalSymlinks env (Clean r) = Real c \<and> assertUnderMount policy c \<and> StatDir env c = Some True"
  unfolding Directory_def by (auto simp: Resolve_def split: if_splits evaluated.splits)

lemma clean_nonempty:
  assumes "evaluates_clean env" "EvalSymlinks env (Clean p) = Real c"
  shows "IsAbs c \<and> Clean c = c \<and> c \<noteq> []"
proof -
  have "IsAbs c \<and> Clean c = c" using assms IsAbs_Clean unfolding evaluates_clean_def by blast
  then show ?thesis by (auto simp: IsAbs_def)
qed

lemma directory_settles:
  assumes "evaluates_once (pe_env pe)" shows "settles (project_directory pe)"
  unfolding settles_def project_directory_def
proof (intro allI impI)
  fix r c assume "Directory (pe_env pe) (pe_policy pe) r = Inr c"
  from Directory_existing [OF this]
  have e: "EvalSymlinks (pe_env pe) (Clean r) = Real c" "assertUnderMount (pe_policy pe) c" "StatDir (pe_env pe) c = Some True"
    by auto
  have "EvalSymlinks (pe_env pe) c = Real c" "IsAbs c" "Clean c = c" "c \<noteq> []"
    using assms e(1) clean_nonempty by (auto simp: evaluates_once_def)
  with e show "Directory (pe_env pe) (pe_policy pe) c = Inr c \<and> c \<noteq> []"
    by (simp add: Directory_def Resolve_def)
qed

lemma load_now_valid: "load_now c validate p fs = Loaded v \<Longrightarrow> validate v"
  by (auto simp: load_now_def decode_read_def Decode_def split: option.splits read_result.splits if_splits)

lemma Read_valid: "Read c validate p w = (Loaded v, w') \<Longrightarrow> validate v"
  by (auto simp: Read_def Decode_def Let_def split: option.splits read_result.splits if_splits prod.splits)

lemma valid_ids: "validateProjects v \<Longrightarrow> [] \<notin> set (stored_ids (the v))"
  by (auto simp: validateProjects_def stored_ids_def list_all_iff split: option.splits)

lemma readNormalized_calm:
  "faults w = [] \<Longrightarrow> readNormalized pe w =
     (case projects_now pe (files w) of
        Unreadable \<Rightarrow> Inl ProjectsUnreadable
      | Absent \<Rightarrow> normalized (project_directory pe) (pe_sha256 pe) []
      | Loaded v \<Rightarrow> normalized (project_directory pe) (pe_sha256 pe) (the v), w)"
  by (simp add: readNormalized_def Read_no_faults projects_now_def split: loaded.splits)


section \<open>The registry\<close>

definition registered :: "Project list \<Rightarrow> bool" where
  "registered ps \<longleftrightarrow>
     [] \<notin> set (map pj_ID ps) \<and> [] \<notin> set (map pj_Slug ps) \<and> distinct (map pj_Slug ps)
     \<and> (\<forall>roots \<in> set (map pj_Roots ps). \<exists>dir. roots = [dir] \<and> dir \<noteq> []) \<and> distinct (concat (map pj_Roots ps))"

lemma registered_update:
  assumes "registered ps" "k < length ps" "pj_ID p = pj_ID (ps ! k)" "pj_Slug p = pj_Slug (ps ! k)" "pj_Roots p = pj_Roots (ps ! k)"
  shows "registered (ps[k := p])"
proof -
  have "map pj_ID (ps[k := p]) = map pj_ID ps" "map pj_Slug (ps[k := p]) = map pj_Slug ps"
    "map pj_Roots (ps[k := p]) = map pj_Roots ps"
    using assms(2-5) by (simp_all add: map_update list_update_same_conv [THEN iffD2])
  with assms(1) show ?thesis unfolding registered_def by simp
qed

lemma readNormalized_registered:
  assumes "readNormalized pe w = (Inr (ps, maps, migrated), w')" "evaluates_clean (pe_env pe)"
  shows "registered ps"
proof -
  obtain entries where n: "normalized (project_directory pe) (pe_sha256 pe) entries = Inr (ps, maps, migrated)"
    "[] \<notin> set (stored_ids entries)"
    using assms(1) Read_valid [of "pe_codec pe" validateProjects "pe_file pe" w] valid_ids
    by (force simp: readNormalized_def stored_ids_def split: loaded.splits prod.splits)
  note f = normalized_facts [OF n]
  have "\<exists>dir. roots = [dir] \<and> dir \<noteq> []" if r: "roots \<in> set (map pj_Roots ps)" for roots
  proof -
    obtain p where p: "p \<in> set ps" "roots = pj_Roots p" using r by auto
    then obtain dir where d: "roots = [dir]" using f(2) by (auto simp: list_all_iff length_Suc_conv)
    with p have "dir \<in> set (pj_Roots p)" by (metis list.set_intros(1))
    with p(1) have "dir \<in> set (concat (map pj_Roots ps))" by auto
    then obtain q where "project_directory pe q = Inr dir" unfolding f(3) by blast
    from clean_nonempty [OF assms(2) conjunct1 [OF Directory_existing [OF this [unfolded project_directory_def]]]] d
    show ?thesis by simp
  qed
  with f(1,7,8,9) show ?thesis unfolding registered_def by blast
qed

lemma projects_load_ok:
  assumes "projects_load pe s w = (r, s', w')" "registered (ps_projects s)" "evaluates_clean (pe_env pe)"
  shows "registered (ps_projects s') \<and> (\<forall>ps. r = Inr ps \<longrightarrow> ps_projects s' = ps \<and> registered ps)"
proof (cases "ps_loaded s")
  case False
  obtain n w1 where n: "readNormalized pe w = (n, w1)" by force
  show ?thesis
  proof (cases n)
    case (Inr t)
    obtain ps maps g where t: "t = (ps, maps, g)" by (cases t)
    with n Inr have reg: "registered ps" using readNormalized_registered [OF _ assms(3)] by blast
    obtain ok w2 where o: "projects_write pe ps w1 = (ok, w2)" by force
    show ?thesis using assms(1,2) False n Inr t reg o
      by (cases g; cases ok) (auto simp: projects_load_def projects_save_def)
  qed (use assms(1,2) False n in \<open>auto simp: projects_load_def\<close>)
qed (use assms(1,2) in \<open>auto simp: projects_load_def\<close>)

lemma save_project_ok:
  "save_project pe ps p s w = (r, s', w') \<Longrightarrow> registered ps \<Longrightarrow> registered (ps_projects s) \<Longrightarrow> registered (ps_projects s')"
  by (auto simp: save_project_def projects_save_def split: prod.splits if_splits)

lemma finishMutation_projects: "finishMutation q = (r, s', w') \<Longrightarrow> ps_projects s' = ps_projects (fst (snd q))"
  by (auto simp: finishMutation_def split: prod.splits sum.splits)

lemma projectIndex_less: "projectIndex i ps = Some k \<Longrightarrow> k < length ps"
  by (induction ps arbitrary: k) (auto split: if_splits)

lemma root_index_less: "root_index dir ps = Inr (Some k) \<Longrightarrow> k < length ps"
  by (induction ps arbitrary: k) (auto split: if_splits sum.splits)

lemma root_index_none: "root_index dir ps = Inr None \<Longrightarrow> [dir] \<notin> set (map pj_Roots ps)"
proof (induction ps)
  case (Cons p ps)
  then obtain known where k: "Root p = Inr known" "known \<noteq> dir" "root_index dir ps = Inr None"
    by (auto split: sum.splits if_splits)
  then have "pj_Roots p \<noteq> [dir]" by (auto simp: Root_def split: if_splits)
  with Cons.IH [OF k(3)] show ?case by simp
qed simp

lemma registered_append:
  assumes "registered ps" "[dir] \<notin> set (map pj_Roots ps)" "dir \<noteq> []" "pj_Roots p = [dir]" "pj_ID p \<noteq> []"
    "pj_Slug p \<noteq> []" "pj_Slug p \<notin> set (map pj_Slug ps)"
  shows "registered (ps @ [p])"
proof -
  have "dir \<notin> set (concat (map pj_Roots ps))"
  proof
    assume "dir \<in> set (concat (map pj_Roots ps))"
    then obtain roots where "roots \<in> set (map pj_Roots ps)" "dir \<in> set roots" by auto
    with assms(1,2) show False unfolding registered_def by fastforce
  qed
  with assms show ?thesis unfolding registered_def by auto
qed

lemma uniqueSlug_nonempty: "uniqueSlug (slugify n) taken = Some s \<Longrightarrow> s \<noteq> []"
  by (auto simp: uniqueSlug_def slug_candidate_def slugify_def Let_def split: if_splits dest!: first_free_member)

lemma OpenProject_ok:
  assumes "OpenProject pe bytes now path s w = (r, s', w')" "registered (ps_projects s)" "evaluates_clean (pe_env pe)"
  shows "registered (ps_projects s')"
proof (cases "project_directory pe path")
  case (Inr dir)
  have dir: "dir \<noteq> []"
    using clean_nonempty [OF assms(3) conjunct1 [OF Directory_existing [OF Inr [unfolded project_directory_def]]]] by simp
  obtain l s1 w1 where l: "projects_load pe s w = (l, s1, w1)" by (cases "projects_load pe s w")
  note ok = projects_load_ok [OF l assms(2,3)]
  show ?thesis
  proof (cases l)
    case (Inr ps)
    with ok have ps: "registered ps" "ps_projects s1 = ps" by simp_all
    show ?thesis
    proof (cases "root_index dir ps")
      case (Inr found)
      show ?thesis
      proof (cases found)
        case None
        obtain slug where slug: "uniqueSlug (slugify (Base dir)) (map pj_Slug ps) = Some slug" using uniqueSlug_found by blast
        define p where "p = new_project bytes dir slug now"
        have "registered (ps @ [p])"
          using ps(1) root_index_none dir uniqueSlug_nonempty [OF slug] uniqueSlug_fresh [OF slug] Inr None
          by (intro registered_append [of ps dir]) (auto simp: p_def new_project_def New_def Let_def)
        moreover have "finishMutation (save_project pe (ps @ [p]) p s1 w1) = (r, s', w')"
          using assms(1) \<open>project_directory pe path = Inr dir\<close> l \<open>l = Inr ps\<close> Inr None slug
          by (simp add: OpenProject_def p_def Let_def)
        ultimately show ?thesis
          using save_project_ok [of pe "ps @ [p]" p s1 w1] ps by (metis finishMutation_projects prod.collapse)
      next
        case (Some k)
        define p where "p = (ps ! k)\<lparr>pj_Closed := False, pj_LastOpened := now\<rparr>"
        have "registered (ps[k := p])"
          by (rule registered_update [OF ps(1)]) (use root_index_less Inr Some in \<open>auto simp: p_def\<close>)
        moreover have "finishMutation (save_project pe (ps[k := p]) p s1 w1) = (r, s', w')"
          using assms(1) \<open>project_directory pe path = Inr dir\<close> l \<open>l = Inr ps\<close> Inr Some
          by (simp add: OpenProject_def p_def Let_def)
        ultimately show ?thesis
          using save_project_ok [of pe "ps[k := p]" p s1 w1] ps by (metis finishMutation_projects prod.collapse)
      qed
    qed (use assms(1) ok l Inr \<open>project_directory pe path = Inr dir\<close> in \<open>auto simp: OpenProject_def finishMutation_def\<close>)
  qed (use assms(1) ok l \<open>project_directory pe path = Inr dir\<close> in \<open>auto simp: OpenProject_def finishMutation_def\<close>)
qed (use assms(1,2) in \<open>auto simp: OpenProject_def finishMutation_def\<close>)

lemma change_project_ok:
  assumes "change_project pe i f s w = (r, s', w')" "registered (ps_projects s)" "evaluates_clean (pe_env pe)"
    and "\<And>p q. f p = Inr q \<Longrightarrow> pj_ID q = pj_ID p \<and> pj_Slug q = pj_Slug p \<and> pj_Roots q = pj_Roots p"
  shows "registered (ps_projects s')"
proof -
  obtain l s1 w1 where l: "projects_load pe s w = (l, s1, w1)" by (cases "projects_load pe s w")
  note ok = projects_load_ok [OF l assms(2,3)]
  show ?thesis
  proof (cases "\<exists>ps k p. l = Inr ps \<and> projectIndex i ps = Some k \<and> f (ps ! k) = Inr p")
    case True
    then obtain ps k p where c: "l = Inr ps" "projectIndex i ps = Some k" "f (ps ! k) = Inr p" by blast
    with ok have ps: "registered ps" "ps_projects s1 = ps" by simp_all
    have "registered (ps[k := p])"
      by (rule registered_update [OF ps(1)]) (use projectIndex_less c assms(4) in auto)
    moreover have "finishMutation (save_project pe (ps[k := p]) p s1 w1) = (r, s', w')"
      using assms(1) l c by (simp add: change_project_def)
    ultimately show ?thesis
      using save_project_ok [of pe "ps[k := p]" p s1 w1] ps by (metis finishMutation_projects prod.collapse)
  next
    case False
    with assms(1) l ok show ?thesis
      by (auto simp: change_project_def finishMutation_def split: sum.splits option.splits)
  qed
qed

datatype project_call =
    CallList bool | CallGet string | CallOpen "8 word list" int string | CallUpdate string "string option" "string option" int
  | CallClose string | CallCWD string string | CallRoot string string | CallProjectRoot string
  | CallCoordinate "ProjectRootMigration list \<Rightarrow> world \<Rightarrow> bool \<times> world"

fun project_step :: "projects_env \<Rightarrow> project_call \<Rightarrow> projects \<Rightarrow> world \<Rightarrow> projects" where
  "project_step pe (CallList closed) s w = fst (snd (ListProjects pe closed s w))"
| "project_step pe (CallGet i) s w = fst (snd (GetProject pe i s w))"
| "project_step pe (CallOpen bytes now path) s w = fst (snd (OpenProject pe bytes now path s w))"
| "project_step pe (CallUpdate i name icon now) s w = fst (snd (UpdateProject pe i name icon now s w))"
| "project_step pe (CallClose i) s w = fst (snd (CloseProject pe i s w))"
| "project_step pe (CallCWD i cwd) s w = fst (snd (AssertCWD pe i cwd s w))"
| "project_step pe (CallRoot i dir) s w = fst (snd (AssertRoot pe i dir s w))"
| "project_step pe (CallProjectRoot i) s w = fst (snd (ProjectRoot pe i s w))"
| "project_step pe (CallCoordinate migrate) s w = fst (snd (CoordinateLegacyMigration pe migrate s w))"

text \<open>The states of a run: each call meets its own world, file system and policy.\<close>

inductive registry_reach :: "projects \<Rightarrow> bool" where
  start: "registry_reach NewProjects"
| call: "registry_reach s \<Longrightarrow> evaluates_clean (pe_env pe) \<Longrightarrow> registry_reach (project_step pe c s w)"

lemma GetProject_load: "GetProject pe i s w = (r, s', w') \<Longrightarrow> \<exists>l. projects_load pe s w = (l, s', w')"
  by (auto simp: GetProject_def split: prod.splits sum.splits option.splits)

lemma ListProjects_load: "ListProjects pe closed s w = (r, s', w') \<Longrightarrow> \<exists>l. projects_load pe s w = (l, s', w')"
  by (auto simp: ListProjects_def split: prod.splits sum.splits)

lemma AssertCWD_get: "AssertCWD pe i cwd s w = (r, s', w') \<Longrightarrow> \<exists>p. GetProject pe i s w = (p, s', w')"
  by (auto simp: AssertCWD_def split: prod.splits sum.splits)

lemma AssertRoot_get: "AssertRoot pe i cwd s w = (r, s', w') \<Longrightarrow> \<exists>p. GetProject pe i s w = (p, s', w')"
  by (auto simp: AssertRoot_def split: prod.splits sum.splits if_splits)

lemma ProjectRoot_get: "ProjectRoot pe i s w = (r, s', w') \<Longrightarrow> \<exists>p. GetProject pe i s w = (p, s', w')"
  by (auto simp: ProjectRoot_def split: prod.splits sum.splits)

lemma updated_project_keeps:
  "updated_project name icon now p = Inr q \<Longrightarrow> pj_ID q = pj_ID p \<and> pj_Slug q = pj_Slug p \<and> pj_Roots q = pj_Roots p"
  by (auto simp: updated_project_def Let_def split: option.splits if_splits)

lemma Coordinate_ok:
  assumes "CoordinateLegacyMigration pe migrate s w = (r, s', w')" "registered (ps_projects s)" "evaluates_clean (pe_env pe)"
  shows "registered (ps_projects s')"
proof -
  obtain n w1 where n: "readNormalized pe w = (n, w1)" by force
  show ?thesis
  proof (cases n)
    case (Inr t)
    obtain ps maps g where t: "t = (ps, maps, g)" by (cases t)
    with n Inr have reg: "registered ps" using readNormalized_registered [OF _ assms(3)] by blast
    obtain ok w2 where o: "(if maps \<noteq> [] then migrate maps w1 else (True, w1)) = (ok, w2)" by force
    obtain ok' w3 where o': "projects_write pe ps w2 = (ok', w3)" by force
    show ?thesis using assms(1,2) n Inr t reg o o'
      by (cases g; cases ok') (auto simp: CoordinateLegacyMigration_def projects_save_def split: if_splits)
  qed (use assms(1,2) n in \<open>auto simp: CoordinateLegacyMigration_def split: if_splits\<close>)
qed

lemma project_step_ok:
  assumes "registered (ps_projects s)" "evaluates_clean (pe_env pe)"
  shows "registered (ps_projects (project_step pe c s w))"
proof -
  note load = projects_load_ok [OF _ assms, THEN conjunct1]
  have get: "GetProject pe i s w = (r, s', w') \<Longrightarrow> registered (ps_projects s')" for i r s' w'
    using GetProject_load load by blast
  show ?thesis
  proof (cases c)
    case (CallList closed)
    obtain r s' w' where "ListProjects pe closed s w = (r, s', w')" by (cases "ListProjects pe closed s w")
    with ListProjects_load load CallList show ?thesis by fastforce
  next
    case (CallGet i)
    obtain r s' w' where "GetProject pe i s w = (r, s', w')" by (cases "GetProject pe i s w")
    with get CallGet show ?thesis by simp
  next
    case (CallOpen bytes now path)
    obtain r s' w' where "OpenProject pe bytes now path s w = (r, s', w')" by (cases "OpenProject pe bytes now path s w")
    with OpenProject_ok [OF this assms] CallOpen show ?thesis by simp
  next
    case (CallUpdate i name icon now)
    obtain r s' w' where c: "change_project pe i (updated_project name icon now) s w = (r, s', w')"
      by (cases "change_project pe i (updated_project name icon now) s w")
    with change_project_ok [OF c assms updated_project_keeps] CallUpdate assms(1) show ?thesis
      by (simp add: UpdateProject_def)
  next
    case (CallClose i)
    obtain r s' w' where c: "change_project pe i (\<lambda>p. Inr (p\<lparr>pj_Closed := True\<rparr>)) s w = (r, s', w')"
      by (cases "change_project pe i (\<lambda>p. Inr (p\<lparr>pj_Closed := True\<rparr>)) s w")
    have "registered (ps_projects s')" by (rule change_project_ok [OF c assms]) auto
    with c CallClose show ?thesis by (simp add: CloseProject_def)
  next
    case (CallCWD i cwd)
    obtain r s' w' where "AssertCWD pe i cwd s w = (r, s', w')" by (cases "AssertCWD pe i cwd s w")
    with AssertCWD_get get CallCWD show ?thesis by fastforce
  next
    case (CallRoot i dir)
    obtain r s' w' where "AssertRoot pe i dir s w = (r, s', w')" by (cases "AssertRoot pe i dir s w")
    with AssertRoot_get get CallRoot show ?thesis by fastforce
  next
    case (CallProjectRoot i)
    obtain r s' w' where "ProjectRoot pe i s w = (r, s', w')" by (cases "ProjectRoot pe i s w")
    with ProjectRoot_get get CallProjectRoot show ?thesis by fastforce
  next
    case (CallCoordinate migrate)
    obtain r s' w' where "CoordinateLegacyMigration pe migrate s w = (r, s', w')"
      by (cases "CoordinateLegacyMigration pe migrate s w")
    with Coordinate_ok [OF this assms] CallCoordinate show ?thesis by simp
  qed
qed

text \<open>C37: Whatever is stored, and however calls, failing system calls and changes of the file system alternate,
  every project in memory has an identifier, a slug no other project has, and exactly one root, a canonical
  path no other project has.\<close>

theorem registry_well_formed:
  assumes "registry_reach s"
  shows "registered (ps_projects s)"
  using assms
proof induction
  case start
  show ?case by (simp add: registered_def NewProjects_def)
next
  case (call s pe c w)
  then show ?case by (intro project_step_ok)
qed

lemma latest_project_spec:
  "latest_project i found ps = Some p \<Longrightarrow> (\<And>q. found = Some q \<Longrightarrow> pj_ID q = i) \<Longrightarrow>
     pj_ID p = i \<and> (p \<in> set ps \<or> found = Some p)"
proof (induction ps arbitrary: found)
  case (Cons q ps)
  define found' where "found' = (if pj_ID q = i \<and> (case found of None \<Rightarrow> True | Some r \<Rightarrow> pj_LastOpened q > pj_LastOpened r)
    then Some q else found)"
  have "latest_project i found' ps = Some p" using Cons.prems(1) by (simp add: found'_def)
  moreover have "found' = Some r \<Longrightarrow> pj_ID r = i" for r
    using Cons.prems(2) by (auto simp: found'_def split: if_splits)
  ultimately have "pj_ID p = i" "p \<in> set ps \<or> found' = Some p" using Cons.IH by blast+
  then show ?case by (auto simp: found'_def split: if_splits)
qed simp

lemma GetProject_found:
  assumes "GetProject pe i s w = (Inr p, s', w')" shows "p \<in> set (ps_projects s') \<and> pj_ID p = i"
  using assms latest_project_spec [of i None "ps_projects s'" p]
  by (auto simp: GetProject_def split: prod.splits sum.splits option.splits)

text \<open>C38: A directory a session may start in is a clean, existing directory within the only root of the project
  it was asked for, and within a root of the path policy; a root accepted for a project is that project's root
  itself.\<close>

theorem session_directory_inside:
  assumes "evaluates_clean (pe_env pe)"
    and "AssertCWD pe i cwd s w = (Inr d, s1, w1)" "AssertRoot pe i dir s w = (Inr r, s2, w2)"
  shows "IsAbs d \<and> Clean d = d \<and> StatDir (pe_env pe) d = Some True \<and> assertUnderMount (pe_policy pe) d
    \<and> (\<exists>p \<in> set (ps_projects s1). pj_ID p = i \<and> pj_Roots p = [pj_Roots p ! 0] \<and> Within (pj_Roots p ! 0) d)
    \<and> (\<exists>p \<in> set (ps_projects s2). pj_ID p = i \<and> pj_Roots p = [r])"
proof -
  have Root: "Root p = Inr x \<Longrightarrow> pj_Roots p = [x]" for p x
    by (cases "pj_Roots p") (auto simp: Root_def split: if_splits)
  obtain p x q where g: "GetProject pe i s w = (Inr p, s1, w1)" "project_directory pe q = Inr d" "Root p = Inr x" "Within x d"
    using assms(2) by (auto simp: AssertCWD_def split: prod.splits sum.splits if_splits)
  note e = Directory_existing [OF g(2) [unfolded project_directory_def]]
  obtain p' x' where g': "GetProject pe i s w = (Inr p', s2, w2)" "Root p' = Inr x'" "x' = r"
    using assms(3) by (auto simp: AssertRoot_def split: prod.splits sum.splits if_splits)
  have "\<exists>p \<in> set (ps_projects s1). pj_ID p = i \<and> pj_Roots p = [pj_Roots p ! 0] \<and> Within (pj_Roots p ! 0) d"
    using GetProject_found [OF g(1)] Root [OF g(3)] g(4) by (intro bexI [of _ p]) auto
  moreover have "\<exists>p \<in> set (ps_projects s2). pj_ID p = i \<and> pj_Roots p = [r]"
    using GetProject_found [OF g'(1)] Root [OF g'(2)] g'(3) by (intro bexI [of _ p']) auto
  ultimately show ?thesis using clean_nonempty [OF assms(1) conjunct1 [OF e]] e by simp
qed

section \<open>A registry with two projects\<close>

definition demo_env :: path_env where
  "demo_env = \<lparr>EvalSymlinks = (\<lambda>p. Real (Clean p)), StatDir = (\<lambda>p. Some True), Lstat = (\<lambda>p. Present)\<rparr>"

definition demo_registry_codec :: "persistedProject list option codec" where
  "demo_registry_codec =
     \<lparr>marshal = (\<lambda>v. if v = persisted split_projects then Some ''s'' else None),
      unmarshal = (\<lambda>raw. if raw = ''s'' @ [newline] then Some (persisted split_projects)
        else if raw = ''l'' @ [newline] then Some (Some [legacy_project]) else None)\<rparr>"

definition demo_registry :: projects_env where
  "demo_registry = \<lparr>pe_codec = demo_registry_codec, pe_file = demo_path, pe_temps = (''1'', ''2''), pe_env = demo_env,
     pe_policy = [''/srv''], pe_sha256 = last_byte_digest\<rparr>"

definition legacy_world :: world where
  "legacy_world = \<lparr>files = [(demo_path, \<lparr>content = ''l'' @ [newline], fmode = 420, regular = True\<rparr>)],
     faults = [], trail = []\<rparr>"

lemma demo_env_once: "evaluates_once demo_env"
  by (simp add: evaluates_once_def evaluates_clean_def demo_env_def)

lemma demo_registry_exact: "exact (pe_codec demo_registry) (persisted ps)"
  by (simp add: exact_def demo_registry_def demo_registry_codec_def)

lemma demo_roots_trimmed: "TrimSpace ''/srv/a'' \<noteq> []" "TrimSpace ''/srv/b'' \<noteq> []"
  by (simp_all add: TrimSpace_def space_seg_def is_space_def)

lemma legacy_world_projects: "projects_now demo_registry (files legacy_world) = Loaded (Some [legacy_project])"
  by (simp add: projects_now_def load_now_def read_now_def decode_read_def Decode_def demo_registry_def demo_registry_codec_def
      legacy_world_def maxJSONBytes_def newline_def validateProjects_def legacy_project_def projectIcons_def demo_roots_trimmed)

lemma demo_split:
  "normalized (project_directory demo_registry) last_byte_digest [legacy_project] = Inr (split_projects, split_mappings, True)"
  by code_simp

lemma legacy_read: "readNormalized demo_registry legacy_world = (Inr (split_projects, split_mappings, True), legacy_world)"
proof -
  have "faults legacy_world = []" "pe_sha256 demo_registry = last_byte_digest"
    by (simp_all add: legacy_world_def demo_registry_def)
  then show ?thesis using demo_split legacy_world_projects by (simp add: readNormalized_calm)
qed

lemma demo_coordination:
  "\<exists>w'. CoordinateLegacyMigration demo_registry (\<lambda>_ w. (True, w)) NewProjects legacy_world
       = (None, NewProjects\<lparr>ps_projects := split_projects, ps_loaded := True\<rparr>, w') \<and> faults w' = []"
proof -
  let ?v = "persisted split_projects"
  have d: "Decode (pe_codec demo_registry) validateCurrentProjects (''s'' @ [newline]) \<noteq> None"
    by (simp add: Decode_def demo_registry_def demo_registry_codec_def validateCurrentProjects_def validateProjects_def
        persisted_def split_projects_def projectIcons_def demo_roots_trimmed)
  have m: "marshal (pe_codec demo_registry) ?v = Some ''s''" and c: "faults legacy_world = []"
    by (simp_all add: demo_registry_def demo_registry_codec_def legacy_world_def)
  have l: "length (''s'' @ [newline]) \<le> maxJSONBytes" by (simp add: maxJSONBytes_def)
  obtain w' where "projects_write demo_registry split_projects legacy_world = (True, w')" "faults w' = []"
    using Write_calm [OF c m l d] unfolding projects_write_def by blast
  then show ?thesis
    by (simp add: CoordinateLegacyMigration_def NewProjects_def legacy_read projects_save_def)
qed


definition demo_projects :: projects where
  "demo_projects = NewProjects\<lparr>ps_projects := split_projects, ps_loaded := True\<rparr>"

lemma demo_coordinated: "project_step demo_registry (CallCoordinate (\<lambda>_ w. (True, w))) NewProjects legacy_world = demo_projects"
  using demo_coordination by (auto simp: demo_projects_def)

lemma registry_well_formed_witness: "registered (ps_projects demo_projects) \<and> ps_projects demo_projects = split_projects"
proof -
  have "evaluates_clean (pe_env demo_registry)"
    using demo_env_once by (simp add: evaluates_once_def demo_registry_def)
  from registry_reach.call [OF registry_reach.start this, of "CallCoordinate (\<lambda>_ w. (True, w))" legacy_world]
  have "registry_reach demo_projects" unfolding demo_coordinated .
  from registry_well_formed [OF this] show ?thesis by (simp add: demo_projects_def)
qed

lemma session_directory_inside_witness:
  "Clean ''/srv/a/x'' = ''/srv/a/x'' \<and> assertUnderMount [''/srv''] ''/srv/a/x''
    \<and> (\<exists>p \<in> set (ps_projects demo_projects). pj_ID p = ''p'' \<and> pj_Roots p = [pj_Roots p ! 0] \<and> Within (pj_Roots p ! 0) ''/srv/a/x'')"
proof -
  have clean: "evaluates_clean (pe_env demo_registry)"
    using demo_env_once by (simp add: evaluates_once_def demo_registry_def)
  have paths: "Clean ''/srv/a/./x'' = ''/srv/a/x''" "Clean ''/srv/a/'' = ''/srv/a''" "Clean ''/srv/a/x'' = ''/srv/a/x''"
    "Clean ''/srv/a'' = ''/srv/a''" "Within ''/srv'' ''/srv/a/x''" "Within ''/srv/a'' ''/srv/a/x''" "Within ''/srv'' ''/srv/a''"
    by code_simp+
  then have dirs: "project_directory demo_registry ''/srv/a/./x'' = Inr ''/srv/a/x''"
    "project_directory demo_registry ''/srv/a/'' = Inr ''/srv/a''"
    by (simp_all add: project_directory_def Directory_def Resolve_def demo_registry_def demo_env_def IsAbs_def slash_def
        assertUnderMount_def)
  have g: "GetProject demo_registry ''p'' demo_projects legacy_world = (Inr (split_projects ! 0), demo_projects, legacy_world)"
    by (simp add: GetProject_def projects_load_def demo_projects_def NewProjects_def split_projects_def)
  have t: "TrimSpace ''/srv/a/./x'' \<noteq> []" by (simp add: TrimSpace_def space_seg_def is_space_def)
  have r: "Root (split_projects ! 0) = Inr ''/srv/a''" by (simp add: Root_def split_projects_def)
  have "AssertCWD demo_registry ''p'' ''/srv/a/./x'' demo_projects legacy_world = (Inr ''/srv/a/x'', demo_projects, legacy_world)"
    "AssertRoot demo_registry ''p'' ''/srv/a/'' demo_projects legacy_world = (Inr ''/srv/a'', demo_projects, legacy_world)"
    using g t r dirs paths(6) by (simp_all add: AssertCWD_def AssertRoot_def)
  from session_directory_inside [OF clean this] show ?thesis by (simp add: demo_registry_def)
qed

end
