(* ===== verification/GitDiff.thy ===== *)
theory GitDiff
  imports PathPolicy
begin

text \<open>
  Reading a repository's changes, commits and branches, \<open>internal/workspace/git_diff.go\<close>, and the runner
  of \<open>git_exec.go\<close>. Git itself is the environment: \<open>gw_run\<close> gives what the k-th process does on its
  arguments, and the calls made are recorded. Whether the request's context has ended is read from the
  environment too. The fixed environment variables and the \<open>-c\<close> settings of every call are left out of
  the recorded arguments.
\<close>

record git_process =
  gp_exited_ok :: bool
  gp_stdout :: string
  gp_stderr :: string
  gp_timed_out :: bool

record gitResult =
  gr_ok :: bool
  gr_out :: string
  gr_err :: string
  gr_failure :: string

record git_world =
  gw_run :: "nat \<Rightarrow> string list \<Rightarrow> git_process"
  gw_ended :: "nat \<Rightarrow> bool"
  gw_calls :: "string list list"

definition gitOutputLimit :: nat where "gitOutputLimit = 1024 * 1024"
definition gitPreviewMaxBytes :: nat where "gitPreviewMaxBytes = 1024 * 1024"
definition gitBranchLimit :: nat where "gitBranchLimit = 200"

definition runGit :: "string list \<Rightarrow> nat \<Rightarrow> git_world \<Rightarrow> gitResult \<times> git_world" where
  "runGit args limit w =
     (let p = gw_run w (length (gw_calls w)) args;
          r = (if length (gp_stdout p) > limit \<or> length (gp_stderr p) > 64 * 1024
               then \<lparr>gr_ok = False, gr_out = [], gr_err = ''Git command exceeded its output limit'', gr_failure = ''output-limit''\<rparr>
               else if gp_timed_out p
               then \<lparr>gr_ok = False, gr_out = [], gr_err = ''Git command timed out'', gr_failure = ''timeout''\<rparr>
               else \<lparr>gr_ok = gp_exited_ok p, gr_out = gp_stdout p, gr_err = TrimSpace (gp_stderr p), gr_failure = []\<rparr>)
      in (r, w\<lparr>gw_calls := gw_calls w @ [args]\<rparr>))"

definition ended :: "git_world \<Rightarrow> bool" where
  "ended w \<longleftrightarrow> gw_ended w (length (gw_calls w))"

record GitDiffScope =
  scope_Kind :: string
  scope_SHA :: string
  scope_BaseRef :: string

record GitFileChange =
  fc_Path :: string
  fc_OriginalPath :: string
  fc_Status :: string
  fc_Counts :: "(int \<times> int) option"

record diffRange =
  dr_prefix :: "string list"
  dr_revisions :: "string list"
  dr_untracked :: bool
  dr_originalRef :: string
  dr_modifiedRef :: string
  dr_comparisonID :: string

datatype git_error =
    GitEnded | HeadUnresolved | BranchUnresolved | UnknownBranch | SymbolicBranch | NotACommit | UnbornHead
  | CompareFailed | NoMergeBase | UnsupportedScope | UnknownCommit string | ChangesUnread | UntrackedUnread
  | LogUnavailable | BranchesUnavailable | PathEscapes | PathInvalid | NotAFile | Panicked

section \<open>References\<close>

definition NUL :: char where "NUL = CHR 0x00"
definition tab :: char where "tab = CHR 0x09"

definition gitOIDPattern :: "string \<Rightarrow> bool" where
  "gitOIDPattern s \<longleftrightarrow> 4 \<le> length s \<and> length s \<le> 64 \<and> list_all is_hex s"

definition fullGitOID :: "string \<Rightarrow> bool" where
  "fullGitOID value \<longleftrightarrow> (length value = 40 \<or> length value = 64) \<and> gitOIDPattern value"

definition resolveCommit :: "string \<Rightarrow> git_world \<Rightarrow> string \<times> git_world" where
  "resolveCommit ref w =
     (let (r, w) = runGit [''rev-parse'', ''--verify'', ''--quiet'', ''--end-of-options'', ref @ ''^{commit}''] gitOutputLimit w
      in (if gr_ok r then TrimSpace (gr_out r) else [], w))"

definition unbornHead :: "git_world \<Rightarrow> bool \<times> git_world" where
  "unbornHead w =
     (let (head, w) = runGit [''symbolic-ref'', ''--quiet'', ''HEAD''] gitOutputLimit w;
          ref = TrimSpace (gr_out head)
      in if \<not> gr_ok head \<or> \<not> HasPrefix ref ''refs/heads/'' then (False, w)
         else
           (let (refs, w) = runGit [''for-each-ref'', ''--format=%(refname)'', ''--'', ref] gitOutputLimit w in
            if \<not> gr_ok refs then (False, w)
            else (\<not> list_ex (\<lambda>candidate. candidate = ref) (Split (CHR 0x0A) (TrimSpace (gr_out refs))), w)))"

definition ref_prefixes :: "string list" where
  "ref_prefixes = [''refs/heads/'', ''refs/remotes/'']"

definition branchRef :: "string \<Rightarrow> bool" where
  "branchRef ref \<longleftrightarrow>
     \<not> (length ref > 1024 \<or> containsNUL ref)
     \<and> list_ex (\<lambda>prefix. HasPrefix ref prefix \<and> length ref > length prefix) ref_prefixes"

text \<open>\<open>plainGitText\<close>: controls and invisible or direction-changing runes are dropped; \<open>strings.Map\<close> writes
  a byte that is not UTF-8 as U+FFFD.\<close>

definition hidden_rune :: "nat \<Rightarrow> bool" where
  "hidden_rune r \<longleftrightarrow> r \<le> 0x1F \<or> 0x7F \<le> r \<and> r \<le> 0x9F \<or> 0x200B \<le> r \<and> r \<le> 0x200F
     \<or> 0x202A \<le> r \<and> r \<le> 0x202E \<or> 0x2066 \<le> r \<and> r \<le> 0x2069 \<or> r = 0x61C \<or> r = 0xFEFF \<or> r = 0xAD"

definition plainGitText :: "string \<Rightarrow> string" where
  "plainGitText value =
     concat (map (\<lambda>(r, b). if hidden_rune r then []
                     else if r = rune_error \<and> length b = 1 then [CHR 0xEF, CHR 0xBF, CHR 0xBD] else b) (runes value))"

definition branchDisplayName :: "string \<Rightarrow> string" where
  "branchDisplayName ref =
     (case find (HasPrefix ref) ref_prefixes of
        None \<Rightarrow> plainGitText ref | Some prefix \<Rightarrow> plainGitText (drop (length prefix) ref))"

definition TrimSuffix :: "string \<Rightarrow> string \<Rightarrow> string" where
  "TrimSuffix s suf =
     (if length suf \<le> length s \<and> drop (length s - length suf) s = suf then take (length s - length suf) s else s)"

fun branch_line :: "string \<Rightarrow> string list \<Rightarrow> git_error + string" where
  "branch_line ref [] = Inl UnknownBranch"
| "branch_line ref (line # lines) =
     (let fields = Split NUL line in
      if length fields \<noteq> 4 \<or> fields ! 0 \<noteq> ref then branch_line ref lines
      else if fields ! 1 \<noteq> [] then Inl SymbolicBranch
      else if fields ! 3 \<noteq> ''commit'' \<or> \<not> fullGitOID (fields ! 2) then Inl NotACommit
      else Inr (fields ! 2))"

definition resolveBranchRef :: "string \<Rightarrow> git_world \<Rightarrow> (git_error + string) \<times> git_world" where
  "resolveBranchRef ref w =
     (if \<not> branchRef ref then (Inl UnknownBranch, w)
      else
        (let (r, w) = runGit [''for-each-ref'', ''--count=2'', ''--sort=refname'',
               ''--format=%(refname)%00%(symref)%00%(objectname)%00%(objecttype)'', ''--'', ref] gitOutputLimit w
         in if \<not> gr_ok r then (Inl (if ended w then GitEnded else BranchUnresolved), w)
            else (branch_line ref (Split (CHR 0x0A) (TrimSuffix (gr_out r) [CHR 0x0A])), w)))"

section \<open>Ranges\<close>

definition no_range :: diffRange where
  "no_range = \<lparr>dr_prefix = [], dr_revisions = [], dr_untracked = False, dr_originalRef = [], dr_modifiedRef = [],
     dr_comparisonID = []\<rparr>"

definition range_uncommitted :: "git_world \<Rightarrow> (git_error + diffRange) \<times> git_world" where
  "range_uncommitted w =
     (let (head, w) = resolveCommit ''HEAD'' w in
      if head = [] then
        (if ended w then (Inl GitEnded, w)
         else (let (unborn, w) = unbornHead w in
               if unborn then (Inr (no_range\<lparr>dr_prefix := [''diff'', ''--cached''], dr_untracked := True\<rparr>), w)
               else (Inl HeadUnresolved, w)))
      else (Inr (no_range\<lparr>dr_prefix := [''diff''], dr_revisions := [head], dr_untracked := True, dr_originalRef := head\<rparr>), w))"

definition range_branch :: "string \<Rightarrow> git_world \<Rightarrow> (git_error + diffRange) \<times> git_world" where
  "range_branch baseRef w =
     (let (head, w) = resolveCommit ''HEAD'' w in
      if head = [] then
        (if ended w then (Inl GitEnded, w)
         else (let (unborn, w) = unbornHead w in (Inl (if unborn then UnbornHead else HeadUnresolved), w)))
      else
        (case resolveBranchRef baseRef w of
           (Inl e, w) \<Rightarrow> (Inl e, w)
         | (Inr base, w) \<Rightarrow>
             (let (merged, w) = runGit [''merge-base'', ''--end-of-options'', base, head] gitOutputLimit w;
                  mergeBase = TrimSpace (gr_out merged)
              in if \<not> gr_ok merged then
                   (if ended w then (Inl GitEnded, w)
                    else if gr_failure merged \<noteq> [] \<or> gr_err merged \<noteq> [] then (Inl CompareFailed, w)
                    else (Inl NoMergeBase, w))
                 else if \<not> fullGitOID mergeBase then (Inl CompareFailed, w)
                 else (Inr (no_range\<lparr>dr_prefix := [''diff''], dr_revisions := [mergeBase, head],
                              dr_originalRef := mergeBase, dr_modifiedRef := head,
                              dr_comparisonID := mergeBase @ ''..'' @ head\<rparr>), w))))"

definition range_commit :: "GitDiffScope \<Rightarrow> git_world \<Rightarrow> (git_error + diffRange) \<times> git_world" where
  "range_commit scope w =
     (let requested = (if scope_Kind scope = ''pinned'' then scope_BaseRef scope else scope_SHA scope) in
      if scope_Kind scope \<noteq> ''commit'' \<and> scope_Kind scope \<noteq> ''pinned'' \<or> \<not> gitOIDPattern requested
      then (Inl UnsupportedScope, w)
      else
        (let (resolved, w) = resolveCommit requested w in
         if resolved = [] then (Inl (UnknownCommit requested), w)
         else if scope_Kind scope = ''pinned''
         then (Inr (no_range\<lparr>dr_prefix := [''diff''], dr_revisions := [resolved], dr_untracked := True,
                      dr_originalRef := resolved\<rparr>), w)
         else
           (let (parent, w) = resolveCommit (resolved @ ''^'') w in
            if parent = []
            then (Inr (no_range\<lparr>dr_prefix := [''show'', ''--format=''], dr_revisions := [resolved],
                         dr_modifiedRef := resolved\<rparr>), w)
            else (Inr (no_range\<lparr>dr_prefix := [''diff''], dr_revisions := [parent, resolved], dr_originalRef := parent,
                         dr_modifiedRef := resolved\<rparr>), w))))"

definition resolveDiffRange :: "GitDiffScope \<Rightarrow> git_world \<Rightarrow> (git_error + diffRange) \<times> git_world" where
  "resolveDiffRange scope w =
     (if scope_Kind scope = [] \<or> scope_Kind scope = ''uncommitted'' then range_uncommitted w
      else if scope_Kind scope = ''branch'' then range_branch (scope_BaseRef scope) w
      else range_commit scope w)"

definition changedArgs :: "diffRange \<Rightarrow> string \<Rightarrow> string list" where
  "changedArgs r mode_arg =
     dr_prefix r @ [''--no-ext-diff'', ''--no-textconv'', ''--find-renames'', mode_arg, ''-z'', ''--end-of-options'']
     @ dr_revisions r @ [''--'']"

section \<open>Parsing\<close>

text \<open>\<open>strconv.Atoi\<close> on 64 bits.\<close>

definition parse_int :: "string \<Rightarrow> int option" where
  "parse_int s =
     (let (neg, digits) = (case s of [] \<Rightarrow> (False, [])
            | c # r \<Rightarrow> if c = CHR ''-'' then (True, r) else if c = CHR ''+'' then (False, r) else (False, s));
          n = foldl (\<lambda>n c. 10 * n + (of_char c - 48)) 0 digits :: nat
      in if digits = [] \<or> \<not> list_all is_digit digits then None
         else if neg then (if n \<le> 2 ^ 63 then Some (- int n) else None)
         else if n < 2 ^ 63 then Some (int n) else None)"

type_synonym counts = "(string \<times> int \<times> int) list"

fun parse_numstat :: "counts \<Rightarrow> string list \<Rightarrow> counts" where
  "parse_numstat acc [] = acc"
| "parse_numstat acc (record # rest) =
     (let parts = Split tab record in
      if length parts < 3 then parse_numstat acc rest
      else
        (case (parse_int (parts ! 0), parse_int (parts ! 1)) of
           (Some added, Some removed) \<Rightarrow>
             (let name = join_with [tab] (drop 2 parts) in
              if name = [] then
                (case rest of
                   old # new # rest \<Rightarrow>
                     parse_numstat (if new = [] then acc else put new (added, removed) acc) rest
                 | _ \<Rightarrow> parse_numstat acc rest)
              else parse_numstat (put name (added, removed) acc) rest)
         | _ \<Rightarrow> parse_numstat acc rest))"

definition parseNumstat :: "string \<Rightarrow> counts" where
  "parseNumstat output = parse_numstat [] (Split NUL output)"

definition change_status :: "string \<Rightarrow> string" where
  "change_status code =
     (if hd code \<in> {CHR ''A'', CHR ''C''} then ''added''
      else if hd code = CHR ''D'' then ''deleted'' else if hd code = CHR ''R'' then ''renamed'' else ''modified'')"

text \<open>The name of a record and the records after it: after the tab, or the next record.\<close>

definition record_name :: "string \<Rightarrow> string list \<Rightarrow> string \<times> string \<times> string list" where
  "record_name record rest =
     (if tab \<in> set record
      then (takeWhile (\<lambda>c. c \<noteq> tab) record, tl (dropWhile (\<lambda>c. c \<noteq> tab) record), rest)
      else (case rest of [] \<Rightarrow> (record, [], []) | name # rest \<Rightarrow> (record, name, rest)))"

definition renamed_record :: "string \<Rightarrow> string \<Rightarrow> string list \<Rightarrow> string \<times> string \<times> string list" where
  "renamed_record code name rest =
     (if HasPrefix code ''R'' \<or> HasPrefix code ''C''
      then (case rest of [] \<Rightarrow> ([], name, []) | new # rest \<Rightarrow> (name, new, rest))
      else ([], name, rest))"

lemma record_name_shorter: "record_name r rest = (code, name, rest') \<Longrightarrow> length rest' \<le> length rest"
  by (auto simp: record_name_def split: if_splits list.splits)

lemma renamed_record_shorter: "renamed_record code name rest = (old, name', rest') \<Longrightarrow> length rest' \<le> length rest"
  by (auto simp: renamed_record_def split: if_splits list.splits)

text \<open>\<open>parseNameStatus\<close>; \<open>None\<close> is the panic of \<open>code[0]\<close> on a record that begins with a tab.\<close>

function parse_name_status :: "counts \<Rightarrow> string list \<Rightarrow> GitFileChange list option" where
  "parse_name_status counts [] = Some []"
| "parse_name_status counts (record # rest) =
     (if record = [] then parse_name_status counts rest
      else
        (case record_name record rest of
           (code, name, rest1) \<Rightarrow>
             (case renamed_record code name rest1 of
                (old, name, rest2) \<Rightarrow>
                  if name = [] then parse_name_status counts rest2
                  else if code = [] then None
                  else map_option (\<lambda>changes. \<lparr>fc_Path = name, fc_OriginalPath = old, fc_Status = change_status code,
                          fc_Counts = get counts name\<rparr> # changes) (parse_name_status counts rest2))))"
  by pat_completeness auto
termination
  by (relation "measure (length \<circ> snd)")
     (auto dest!: record_name_shorter [OF sym] renamed_record_shorter [OF sym])

definition parseNameStatus :: "string \<Rightarrow> counts \<Rightarrow> GitFileChange list option" where
  "parseNameStatus output counts = parse_name_status counts (Split NUL output)"

section \<open>Changes\<close>

definition lineCount :: "string \<Rightarrow> nat" where
  "lineCount s =
     (if s = [] then 0
      else length (filter (\<lambda>c. c = CHR 0x0A) s) + (if last s = CHR 0x0A then 0 else 1))"

record filePreview =
  fp_content :: string
  fp_issue :: string

text \<open>The untracked files; \<open>worktree\<close> previews a file of the working tree (an error is \<open>None\<close>), and only
  the first 64 are counted.\<close>

fun untracked_changes :: "(string \<Rightarrow> filePreview option) \<Rightarrow> nat \<Rightarrow> string list \<Rightarrow> GitFileChange list" where
  "untracked_changes worktree counted [] = []"
| "untracked_changes worktree counted (name # names) =
     (if name = [] then untracked_changes worktree counted names
      else
        (let counts = (if counted < 64
               then (case worktree name of
                       Some p \<Rightarrow> if fp_issue p = [] then Some (int (lineCount (fp_content p)), 0) else None
                     | None \<Rightarrow> None)
               else None)
         in \<lparr>fc_Path = name, fc_OriginalPath = [], fc_Status = ''untracked'', fc_Counts = counts\<rparr>
            # untracked_changes worktree (Suc counted) names))"

text \<open>\<open>changes\<close>. Two changes have one path where a file was removed from the index and kept in the
  working tree; their order is left by a stable sort here, while \<open>sort.Slice\<close> may exchange them.\<close>

definition git_changes ::
  "(string \<Rightarrow> filePreview option) \<Rightarrow> GitDiffScope \<Rightarrow> git_world \<Rightarrow>
     (git_error + GitFileChange list \<times> string) \<times> git_world" where
  "git_changes worktree scope w =
     (case resolveDiffRange scope w of
        (Inl e, w) \<Rightarrow> (Inl e, w)
      | (Inr r, w) \<Rightarrow>
          (let (countsResult, w) = runGit (changedArgs r ''--numstat'') gitOutputLimit w;
               (tracked, w) = runGit (changedArgs r ''--name-status'') gitOutputLimit w
           in if \<not> gr_ok countsResult \<or> \<not> gr_ok tracked then (Inl ChangesUnread, w)
              else
                (case parseNameStatus (gr_out tracked) (parseNumstat (gr_out countsResult)) of
                   None \<Rightarrow> (Inl Panicked, w)
                 | Some result \<Rightarrow>
                     if \<not> dr_untracked r then (Inr (sort_key fc_Path result, dr_comparisonID r), w)
                     else
                       (let (others, w) = runGit [''ls-files'', ''-z'', ''--others'', ''--exclude-standard''] gitOutputLimit w in
                        if \<not> gr_ok others then (Inl UntrackedUnread, w)
                        else (Inr (sort_key fc_Path (result @ untracked_changes worktree 0 (Split NUL (gr_out others))),
                                   dr_comparisonID r), w)))))"

section \<open>Previews\<close>

record GitDiffFile =
  df_Original :: string
  df_Modified :: string
  df_OriginalPath :: string
  df_ComparisonID :: string
  df_Unavailable :: bool
  df_Binary :: bool
  df_TooLarge :: bool
  df_Message :: string

definition issue :: "string \<Rightarrow> filePreview" where
  "issue name = \<lparr>fp_content = [], fp_issue = name\<rparr>"

definition readBlobPreview :: "string \<Rightarrow> string \<Rightarrow> git_world \<Rightarrow> filePreview \<times> git_world" where
  "readBlobPreview ref name w =
     (let (entry, w) = runGit [''ls-tree'', ''--full-tree'', ''-l'', ''-z'', ''--end-of-options'', ref, ''--'',
            '':(literal)'' @ name] gitOutputLimit w
      in if \<not> gr_ok entry then (issue ''unavailable'', w)
         else if gr_out entry = [] then (issue ''missing'', w)
         else
           (let metadata = takeWhile (\<lambda>c. c \<noteq> tab) (gr_out entry);
                entryName = tl (dropWhile (\<lambda>c. c \<noteq> tab) (gr_out entry));
                fields = Fields metadata
            in if length fields \<noteq> 4 \<or> fields ! 1 \<noteq> ''blob'' \<or> entryName \<noteq> name @ [NUL] then (issue ''unavailable'', w)
               else
                 (case parse_int (fields ! 3) of
                    None \<Rightarrow> (issue ''unavailable'', w)
                  | Some n \<Rightarrow>
                      if n < 0 then (issue ''unavailable'', w)
                      else if n > int gitPreviewMaxBytes then (issue ''tooLarge'', w)
                      else
                        (let (shown, w) = runGit [''cat-file'', ''blob'', fields ! 2] gitPreviewMaxBytes w in
                         if gr_failure shown = ''output-limit'' then (issue ''tooLarge'', w)
                         else if \<not> gr_ok shown then (issue ''unavailable'', w)
                         else if NUL \<in> set (gr_out shown) then (issue ''binary'', w)
                         else (\<lparr>fp_content = gr_out shown, fp_issue = []\<rparr>, w)))))"

definition unavailableDiff :: "filePreview \<Rightarrow> string \<Rightarrow> string \<Rightarrow> GitDiffFile" where
  "unavailableDiff preview originalPath comparisonID =
     (let r = \<lparr>df_Original = [], df_Modified = [], df_OriginalPath = originalPath, df_ComparisonID = comparisonID,
                df_Unavailable = True, df_Binary = False, df_TooLarge = False, df_Message = []\<rparr>
      in if fp_issue preview = ''binary'' then r\<lparr>df_Binary := True, df_Message := ''Binary files cannot be previewed''\<rparr>
         else if fp_issue preview = ''tooLarge'' then r\<lparr>df_TooLarge := True, df_Message := ''File is too large to preview''\<rparr>
         else if fp_issue preview = ''missing'' then r\<lparr>df_Message := ''File does not exist''\<rparr>
         else r\<lparr>df_Message := ''File is unavailable for preview''\<rparr>)"

definition shown_diff :: "string \<Rightarrow> string \<Rightarrow> string \<Rightarrow> string \<Rightarrow> GitDiffFile" where
  "shown_diff original modified originalPath comparisonID =
     \<lparr>df_Original = original, df_Modified = modified, df_OriginalPath = originalPath, df_ComparisonID = comparisonID,
      df_Unavailable = False, df_Binary = False, df_TooLarge = False, df_Message = []\<rparr>"

text \<open>\<open>relativePathInRoot\<close> of \<open>files.go\<close>; a relative path is joined to the root and cleaned.\<close>

definition relativePathInRoot :: "string \<Rightarrow> string \<Rightarrow> git_error + string" where
  "relativePathInRoot root path =
     (if containsNUL path then Inl PathInvalid
      else
        (let candidate = (if IsAbs path then Clean path else Clean (root @ slash # path)) in
         if \<not> Within root candidate then Inl PathEscapes
         else (case Rel root candidate of
                 None \<Rightarrow> Inl NotAFile
               | Some relative \<Rightarrow> if relative = ''.'' then Inl NotAFile else Inr relative)))"

text \<open>The original side: the renamed-from path, and its preview.\<close>

definition diff_original ::
  "string \<Rightarrow> string \<Rightarrow> diffRange \<Rightarrow> git_world \<Rightarrow> (git_error + string \<times> filePreview) \<times> git_world" where
  "diff_original root name r w =
     (if dr_originalRef r = [] then (Inr ([], issue ''missing''), w)
      else
        (let (changed, w) = runGit (changedArgs r ''--name-status'') gitOutputLimit w in
         if \<not> gr_ok changed then (Inr ([], issue ''unavailable''), w)
         else
           (case parseNameStatus (gr_out changed) [] of
              None \<Rightarrow> (Inl Panicked, w)
            | Some changes \<Rightarrow>
                (let originalPath = (case find (\<lambda>c. fc_Path c = name \<and> fc_OriginalPath c \<noteq> []) changes of
                       None \<Rightarrow> [] | Some c \<Rightarrow> fc_OriginalPath c);
                     originalName = (if originalPath = [] then name else originalPath)
                 in case relativePathInRoot root originalName of
                      Inl e \<Rightarrow> (Inl e, w)
                    | Inr _ \<Rightarrow>
                        (let (original, w) = readBlobPreview (dr_originalRef r) originalName w
                         in (Inr (originalPath, original), w))))))"

text \<open>\<open>DiffFile\<close> in an admitted repository \<open>root\<close>; \<open>worktree\<close> is \<open>readWorktreePreview\<close>, its only error an
  escape from the root.\<close>

definition DiffFile ::
  "(string \<Rightarrow> filePreview option) \<Rightarrow> string \<Rightarrow> string \<Rightarrow> GitDiffScope \<Rightarrow> git_world \<Rightarrow>
     (git_error + GitDiffFile) \<times> git_world" where
  "DiffFile worktree root requested scope w =
     (case resolveDiffRange scope w of
        (Inl e, w) \<Rightarrow> (Inl e, w)
      | (Inr r, w) \<Rightarrow>
          (case relativePathInRoot root requested of
             Inl e \<Rightarrow> (Inl e, w)
           | Inr name \<Rightarrow>
               (case diff_original root name r w of
                  (Inl e, w) \<Rightarrow> (Inl e, w)
                | (Inr (originalPath, original), w) \<Rightarrow>
                    if fp_issue original \<noteq> [] \<and> fp_issue original \<noteq> ''missing''
                    then (Inr (unavailableDiff original originalPath (dr_comparisonID r)), w)
                    else
                      (case (if dr_modifiedRef r \<noteq> []
                             then (let (m, w) = readBlobPreview (dr_modifiedRef r) name w in (Some m, w))
                             else (worktree name, w)) of
                         (None, w) \<Rightarrow> (Inl PathEscapes, w)
                       | (Some modified, w) \<Rightarrow>
                           if fp_issue modified = ''missing'' then
                             (if fp_issue original = ''missing''
                              then (Inr (unavailableDiff modified originalPath (dr_comparisonID r)), w)
                              else (Inr (shown_diff (fp_content original) [] originalPath (dr_comparisonID r)), w))
                           else if fp_issue modified \<noteq> []
                           then (Inr (unavailableDiff modified originalPath (dr_comparisonID r)), w)
                           else (Inr (shown_diff (fp_content original) (fp_content modified) originalPath
                                        (dr_comparisonID r)), w)))))"

section \<open>Commits and branches\<close>

record GitCommit =
  gc_SHA :: string
  gc_ShortSHA :: string
  gc_Subject :: string
  gc_Author :: string
  gc_CommittedAt :: string

definition commit_line :: "string \<Rightarrow> GitCommit option" where
  "commit_line line =
     (let parts = Split NUL line in
      if length parts \<ge> 5 \<and> parts ! 0 \<noteq> [] \<and> parts ! 1 \<noteq> []
      then Some \<lparr>gc_SHA = parts ! 0, gc_ShortSHA = parts ! 1, gc_Subject = plainGitText (join_with [NUL] (drop 4 parts)),
                 gc_Author = plainGitText (parts ! 3), gc_CommittedAt = parts ! 2\<rparr>
      else None)"

definition ListCommits :: "git_world \<Rightarrow> (git_error + GitCommit list) \<times> git_world" where
  "ListCommits w =
     (let (log, w) = runGit [''log'', ''--max-count=200'', ''--format=%H%x00%h%x00%cI%x00%an%x00%s'', ''--''] gitOutputLimit w in
      if \<not> gr_ok log then
        (if ended w then (Inl GitEnded, w)
         else (let (unborn, w) = unbornHead w in if unborn then (Inr [], w) else (Inl LogUnavailable, w)))
      else (Inr (List.map_filter commit_line (Split (CHR 0x0A) (TrimSpace (gr_out log)))), w))"

record GitBranch =
  gb_Ref :: string
  gb_Name :: string

fun branch_lines :: "GitBranch list \<Rightarrow> bool \<Rightarrow> string list \<Rightarrow> GitBranch list \<times> bool" where
  "branch_lines found truncated [] = (found, truncated)"
| "branch_lines found truncated (line # lines) =
     (let fields = Split NUL line in
      if length fields \<noteq> 3 \<or> \<not> branchRef (fields ! 0) \<or> fields ! 1 \<noteq> [] \<or> fields ! 2 \<noteq> ''commit''
      then branch_lines found truncated lines
      else if length found = gitBranchLimit then (found, True)
      else branch_lines (found @ [\<lparr>gb_Ref = fields ! 0, gb_Name = branchDisplayName (fields ! 0)\<rparr>]) truncated lines)"

definition ListBranches :: "git_world \<Rightarrow> (git_error + GitBranch list \<times> bool) \<times> git_world" where
  "ListBranches w =
     (let (r, w) = runGit [''for-each-ref'', ''--count=201'', ''--sort=refname'',
            ''--format=%(refname)%00%(symref)%00%(objecttype)'', ''--'', ''refs/heads'', ''refs/remotes''] gitOutputLimit w
      in if \<not> gr_ok r then (Inl (if ended w then GitEnded else BranchesUnavailable), w)
         else
           (let records = Split (CHR 0x0A) (TrimSuffix (gr_out r) [CHR 0x0A])
            in (Inr (branch_lines [] (length records > gitBranchLimit) records), w)))"

end
