(* ===== verification/GitSafety.thy ===== *)
theory GitSafety
  imports GitDiff
begin

text \<open>
  What the reading of repositories promises: no string of the user can reach Git as an option, and what Git
  prints of a comparison is read back exactly.
\<close>

section \<open>What Git can take for an option\<close>

definition git_subcommands :: "string list" where
  "git_subcommands = [''rev-parse'', ''symbolic-ref'', ''for-each-ref'', ''merge-base'', ''diff'', ''show'', ''ls-files'',
     ''ls-tree'', ''cat-file'', ''log'']"

definition git_options :: "string list" where
  "git_options = [''--verify'', ''--quiet'', ''--format=%(refname)'', ''--count=2'', ''--sort=refname'',
     ''--format=%(refname)%00%(symref)%00%(objectname)%00%(objecttype)'', ''--cached'', ''--format='', ''--no-ext-diff'',
     ''--no-textconv'', ''--find-renames'', ''--numstat'', ''--name-status'', ''-z'', ''--others'', ''--exclude-standard'',
     ''--full-tree'', ''-l'', ''--max-count=200'', ''--format=%H%x00%h%x00%cI%x00%an%x00%s'', ''--count=201'',
     ''--format=%(refname)%00%(symref)%00%(objecttype)'']"

text \<open>The arguments before the end of the options; those that begin with a hyphen are options.\<close>

definition before_operands :: "string list \<Rightarrow> string list" where
  "before_operands call = takeWhile (\<lambda>a. a \<noteq> ''--end-of-options'' \<and> a \<noteq> ''--'') call"

definition safe_call :: "string list \<Rightarrow> bool" where
  "safe_call call \<longleftrightarrow> call \<noteq> [] \<and> hd call \<in> set git_subcommands
     \<and> (\<forall>a \<in> set (before_operands (tl call)). HasPrefix a ''-'' \<longrightarrow> a \<in> set git_options)"

text \<open>What is relied on of \<open>ls-tree -l\<close>: its third field is an object name, which does not begin with a hyphen.\<close>

definition lists_objects :: "(nat \<Rightarrow> string list \<Rightarrow> git_process) \<Rightarrow> bool" where
  "lists_objects run \<longleftrightarrow>
     (\<forall>k args. take 1 args = [''ls-tree''] \<longrightarrow>
        (let fields = Fields (takeWhile (\<lambda>c. c \<noteq> tab) (gp_stdout (run k args))) in
         length fields = 4 \<longrightarrow> \<not> HasPrefix (fields ! 2) ''-''))"

definition safe_world :: "(nat \<Rightarrow> string list \<Rightarrow> git_process) \<Rightarrow> git_world \<Rightarrow> bool" where
  "safe_world run w \<longleftrightarrow> gw_run w = run \<and> list_all safe_call (gw_calls w)"

lemma safe_runGit: "runGit args limit w = (r, w') \<Longrightarrow> safe_call args \<Longrightarrow> safe_world run w \<Longrightarrow> safe_world run w'"
  by (auto simp: runGit_def safe_world_def Let_def)

lemma safe_operands:
  assumes "before_operands (tl call) = before_operands (tl call')" "hd call = hd call'" "call \<noteq> []" "call' \<noteq> []"
  shows "safe_call call = safe_call call'"
  using assms by (simp add: safe_call_def)

lemma set_before_operands: "a \<in> set (before_operands args) \<Longrightarrow> a \<in> set args"
  unfolding before_operands_def by (rule set_takeWhileD [THEN conjunct1])

lemma blob_word: "\<not> HasPrefix ''blob'' ''-''"
  by (simp add: HasPrefix_def)

lemma safe_calls:
  "safe_call [''rev-parse'', ''--verify'', ''--quiet'', ''--end-of-options'', x]"
  "safe_call [''symbolic-ref'', ''--quiet'', ''HEAD'']"
  "safe_call [''for-each-ref'', ''--format=%(refname)'', ''--'', x]"
  "safe_call [''for-each-ref'', ''--count=2'', ''--sort=refname'',
     ''--format=%(refname)%00%(symref)%00%(objectname)%00%(objecttype)'', ''--'', x]"
  "safe_call [''merge-base'', ''--end-of-options'', x, y]"
  "safe_call [''ls-files'', ''-z'', ''--others'', ''--exclude-standard'']"
  "safe_call [''ls-tree'', ''--full-tree'', ''-l'', ''-z'', ''--end-of-options'', x, ''--'', y]"
  "safe_call [''log'', ''--max-count=200'', ''--format=%H%x00%h%x00%cI%x00%an%x00%s'', ''--'']"
  "safe_call [''for-each-ref'', ''--count=201'', ''--sort=refname'',
     ''--format=%(refname)%00%(symref)%00%(objecttype)'', ''--'', ''refs/heads'', ''refs/remotes'']"
  by (simp_all add: safe_call_def git_subcommands_def git_options_def before_operands_def HasPrefix_def)

lemma safe_cat_file: assumes "\<not> HasPrefix x ''-''" shows "safe_call [''cat-file'', ''blob'', x]"
proof -
  have "\<not> HasPrefix a ''-''" if "a \<in> set (before_operands [''blob'', x])" for a
  proof -
    have "a = ''blob'' \<or> a = x" using set_before_operands [OF that] by simp
    then show ?thesis using assms blob_word by blast
  qed
  then show ?thesis unfolding safe_call_def by (simp add: git_subcommands_def)
qed
definition range_ok :: "diffRange \<Rightarrow> bool" where
  "range_ok r \<longleftrightarrow> dr_prefix r \<in> {[''diff'', ''--cached''], [''diff''], [''show'', ''--format='']}"

lemma safe_changedArgs:
  "range_ok r \<Longrightarrow> m \<in> {''--numstat'', ''--name-status''} \<Longrightarrow> safe_call (changedArgs r m)"
  by (auto simp: range_ok_def changedArgs_def safe_call_def git_subcommands_def git_options_def before_operands_def
      HasPrefix_def)

lemma resolveCommit_safe: "resolveCommit ref w = (x, w') \<Longrightarrow> safe_world run w \<Longrightarrow> safe_world run w'"
  by (auto simp: resolveCommit_def split: prod.splits dest: safe_runGit [OF _ safe_calls(1)])

lemma unbornHead_safe: "unbornHead w = (b, w') \<Longrightarrow> safe_world run w \<Longrightarrow> safe_world run w'"
  by (auto simp: unbornHead_def Let_def split: prod.splits if_splits
      dest: safe_runGit [OF _ safe_calls(2)] safe_runGit [OF _ safe_calls(3)])

lemma resolveBranchRef_safe: "resolveBranchRef ref w = (r, w') \<Longrightarrow> safe_world run w \<Longrightarrow> safe_world run w'"
  by (auto simp: resolveBranchRef_def split: prod.splits if_splits dest: safe_runGit [OF _ safe_calls(4)])

lemma range_uncommitted_safe:
  assumes "range_uncommitted w = (r, w')" "safe_world run w"
  shows "safe_world run w' \<and> (\<forall>d. r = Inr d \<longrightarrow> range_ok d)"
proof -
  obtain head w1 where h: "resolveCommit ''HEAD'' w = (head, w1)" by force
  obtain b w2 where b: "unbornHead w1 = (b, w2)" by force
  note s1 = resolveCommit_safe [OF h assms(2)]
  note s2 = unbornHead_safe [OF b s1]
  show ?thesis using assms(1) s1 s2 by (auto simp: range_uncommitted_def h b range_ok_def split: if_splits)
qed

lemma range_branch_safe:
  assumes "range_branch base w = (r, w')" "safe_world run w"
  shows "safe_world run w' \<and> (\<forall>d. r = Inr d \<longrightarrow> range_ok d)"
proof -
  obtain head w1 where h: "resolveCommit ''HEAD'' w = (head, w1)" by force
  note s1 = resolveCommit_safe [OF h assms(2)]
  obtain b w2 where b: "unbornHead w1 = (b, w2)" by force
  obtain br w3 where br: "resolveBranchRef base w1 = (br, w3)" by force
  note s3 = resolveBranchRef_safe [OF br s1]
  show ?thesis
  proof (cases "head = []")
    case True
    with assms(1) s1 unbornHead_safe [OF b s1] show ?thesis by (auto simp: range_branch_def h b split: if_splits)
  next
    case False
    show ?thesis
    proof (cases br)
      case (Inl e)
      with False assms(1) s3 show ?thesis by (auto simp: range_branch_def h br)
    next
      case (Inr oid)
      obtain m w4 where m: "runGit [''merge-base'', ''--end-of-options'', oid, head] gitOutputLimit w3 = (m, w4)" by force
      note s4 = safe_runGit [OF m safe_calls(5) s3]
      with False Inr assms(1) show ?thesis
        by (auto simp: range_branch_def h br m range_ok_def Let_def split: if_splits)
    qed
  qed
qed

lemma range_commit_safe:
  assumes "range_commit scope w = (r, w')" "safe_world run w"
  shows "safe_world run w' \<and> (\<forall>d. r = Inr d \<longrightarrow> range_ok d)"
proof -
  define q where "q = (if scope_Kind scope = ''pinned'' then scope_BaseRef scope else scope_SHA scope)"
  obtain c w1 where c: "resolveCommit q w = (c, w1)" by force
  obtain p w2 where p: "resolveCommit (c @ ''^'') w1 = (p, w2)" by force
  note s1 = resolveCommit_safe [OF c assms(2)]
  note s2 = resolveCommit_safe [OF p s1]
  from assms(1) have "(r, w') = range_commit scope w" by simp
  also have "range_commit scope w =
    (if scope_Kind scope \<noteq> ''commit'' \<and> scope_Kind scope \<noteq> ''pinned'' \<or> \<not> gitOIDPattern q then (Inl UnsupportedScope, w)
     else if c = [] then (Inl (UnknownCommit q), w1)
     else if scope_Kind scope = ''pinned''
     then (Inr (no_range\<lparr>dr_prefix := [''diff''], dr_revisions := [c], dr_untracked := True, dr_originalRef := c\<rparr>), w1)
     else if p = [] then (Inr (no_range\<lparr>dr_prefix := [''show'', ''--format=''], dr_revisions := [c], dr_modifiedRef := c\<rparr>), w2)
     else (Inr (no_range\<lparr>dr_prefix := [''diff''], dr_revisions := [p, c], dr_originalRef := p, dr_modifiedRef := c\<rparr>), w2))"
    unfolding range_commit_def q_def [symmetric] Let_def c p prod.case ..
  finally show ?thesis using s1 s2 assms(2) by (auto simp: range_ok_def split: if_splits)
qed

lemma resolveDiffRange_safe:
  "resolveDiffRange scope w = (r, w') \<Longrightarrow> safe_world run w \<Longrightarrow> safe_world run w' \<and> (\<forall>d. r = Inr d \<longrightarrow> range_ok d)"
  using range_uncommitted_safe [of w r w' run] range_branch_safe [of "scope_BaseRef scope" w r w' run]
    range_commit_safe [of scope w r w' run]
  by (auto simp: resolveDiffRange_def split: if_splits)

lemma git_changes_safe:
  assumes "git_changes worktree scope w = (r, w')" "safe_world run w"
  shows "safe_world run w'"
proof -
  obtain d w1 where d: "resolveDiffRange scope w = (d, w1)" by force
  note s1 = resolveDiffRange_safe [OF d assms(2)]
  show ?thesis
  proof (cases d)
    case (Inr g)
    then have ok: "range_ok g" using s1 by simp
    obtain c w2 where c: "runGit (changedArgs g ''--numstat'') gitOutputLimit w1 = (c, w2)" by force
    obtain t w3 where t: "runGit (changedArgs g ''--name-status'') gitOutputLimit w2 = (t, w3)" by force
    obtain u w4 where u: "runGit [''ls-files'', ''-z'', ''--others'', ''--exclude-standard''] gitOutputLimit w3 = (u, w4)"
      by force
    have s3: "safe_world run w3"
      using safe_runGit [OF t safe_changedArgs [OF ok]] safe_runGit [OF c safe_changedArgs [OF ok]] s1 by simp
    note s4 = safe_runGit [OF u safe_calls(6) s3]
    from assms(1) s3 s4 show ?thesis
      by (auto simp: git_changes_def d Inr c t u Let_def split: if_splits option.splits)
  qed (use assms(1) s1 d in \<open>auto simp: git_changes_def\<close>)
qed

lemma lists_objectsD:
  assumes "lists_objects run" "length (Fields (takeWhile (\<lambda>c. c \<noteq> tab) (gp_stdout (run k (''ls-tree'' # args))))) = 4"
  shows "\<not> HasPrefix (Fields (takeWhile (\<lambda>c. c \<noteq> tab) (gp_stdout (run k (''ls-tree'' # args)))) ! 2) ''-''"
  using assms by (simp add: lists_objects_def Let_def)

lemma runGit_out: "runGit args limit w = (r, w') \<Longrightarrow> gr_out r = [] \<or> gr_out r = gp_stdout (gw_run w (length (gw_calls w)) args)"
  by (auto simp: runGit_def Let_def split: if_splits)

lemma readBlobPreview_safe:
  assumes "readBlobPreview ref name w = (r, w')" "safe_world run w" "lists_objects run"
  shows "safe_world run w'"
proof -
  define args where "args = [''--full-tree'', ''-l'', ''-z'', ''--end-of-options'', ref, ''--'', '':(literal)'' @ name]"
  obtain e w1 where e: "runGit (''ls-tree'' # args) gitOutputLimit w = (e, w1)" by force
  have s1: "safe_world run w1"
    by (rule safe_runGit [OF e _ assms(2)]) (unfold args_def, rule safe_calls(7))
  define f where "f = Fields (takeWhile (\<lambda>c. c \<noteq> tab) (gr_out e))"
  have "\<not> HasPrefix (f ! 2) ''-''" if l: "length f = 4"
  proof -
    have "gr_out e \<noteq> []" using l by (auto simp: f_def Fields_def)
    then have o: "gr_out e = gp_stdout (run (length (gw_calls w)) (''ls-tree'' # args))"
      using runGit_out [OF e] assms(2) by (auto simp: safe_world_def)
    show ?thesis using lists_objectsD [OF assms(3)] l unfolding f_def o by blast
  qed
  then have s2: "length f = 4 \<Longrightarrow> runGit [''cat-file'', ''blob'', f ! 2] gitPreviewMaxBytes w1 = (x, w2) \<Longrightarrow> safe_world run w2"
    for x w2 using safe_runGit [OF _ safe_cat_file s1] by blast
  from assms(1) show ?thesis
    unfolding readBlobPreview_def args_def [symmetric] e Let_def prod.case f_def [symmetric]
    using s1 s2 by (auto split: if_splits option.splits prod.splits)
qed

lemma diff_original_safe:
  assumes "diff_original root name d w = (r, w')" "safe_world run w" "lists_objects run" "range_ok d"
  shows "safe_world run w'"
proof -
  obtain c w1 where c: "runGit (changedArgs d ''--name-status'') gitOutputLimit w = (c, w1)" by force
  have s1: "safe_world run w1" using safe_runGit [OF c safe_changedArgs [OF assms(4)] assms(2)] by simp
  have "safe_world run w2" if "readBlobPreview (dr_originalRef d) n w1 = (x, w2)" for n x w2
    by (rule readBlobPreview_safe [OF that s1 assms(3)])
  with assms(1,2) s1 show ?thesis
    by (auto simp: diff_original_def c Let_def split: if_splits option.splits sum.splits prod.splits)
qed

lemma DiffFile_safe:
  assumes "DiffFile worktree root name scope w = (r, w')" "safe_world run w" "lists_objects run"
  shows "safe_world run w'"
proof -
  obtain d w1 where d: "resolveDiffRange scope w = (d, w1)" by force
  note s1 = resolveDiffRange_safe [OF d assms(2)]
  show ?thesis
  proof (cases "\<exists>g n. d = Inr g \<and> relativePathInRoot root name = Inr n")
    case True
    then obtain g n where g: "d = Inr g" "relativePathInRoot root name = Inr n" by blast
    obtain oo w2 where oo: "diff_original root n g w1 = (oo, w2)" by force
    have s2: "safe_world run w2" using diff_original_safe [OF oo _ assms(3)] s1 g by simp
    obtain m w3 where m: "readBlobPreview (dr_modifiedRef g) n w2 = (m, w3)" by force
    note s3 = readBlobPreview_safe [OF m s2 assms(3)]
    from assms(1) s2 s3 show ?thesis
      by (auto simp: DiffFile_def d g oo m split: if_splits option.splits sum.splits prod.splits)
  next
    case False
    with assms(1) s1 d show ?thesis by (auto simp: DiffFile_def split: sum.splits)
  qed
qed

lemma ListCommits_safe: "ListCommits w = (r, w') \<Longrightarrow> safe_world run w \<Longrightarrow> safe_world run w'"
  by (auto simp: ListCommits_def split: prod.splits if_splits
      dest: safe_runGit [OF _ safe_calls(8)] unbornHead_safe)

lemma ListBranches_safe: "ListBranches w = (r, w') \<Longrightarrow> safe_world run w \<Longrightarrow> safe_world run w'"
  by (auto simp: ListBranches_def Let_def split: prod.splits if_splits dest: safe_runGit [OF _ safe_calls(9)])

text \<open>C39: Whatever the strings of a request, the range to compare, the file and the branches' names, every
  Git process started to read changes, a file's two sides, commits or branches is given one of the fixed
  subcommands, and each of its arguments Git could take for an option is one of the options written in the
  program: a string of the user or of the repository stands only after the end of the options. Relied on is
  only that \<open>ls-tree\<close> names an object by something that does not begin with a hyphen.\<close>

theorem user_strings_never_options:
  assumes "lists_objects (gw_run w)" "gw_calls w = []"
  shows "list_all safe_call (gw_calls (snd (git_changes worktree scope w)))
    \<and> list_all safe_call (gw_calls (snd (DiffFile worktree root name scope w)))
    \<and> list_all safe_call (gw_calls (snd (ListCommits w)))
    \<and> list_all safe_call (gw_calls (snd (ListBranches w)))"
proof -
  have s: "safe_world (gw_run w) w" using assms(2) by (simp add: safe_world_def)
  show ?thesis
    using git_changes_safe [OF surjective_pairing s] DiffFile_safe [OF surjective_pairing s assms(1)]
      ListCommits_safe [OF surjective_pairing s] ListBranches_safe [OF surjective_pairing s]
    by (simp add: safe_world_def)
qed

definition sample_git :: git_world where
  "sample_git = \<lparr>gw_run = (\<lambda>k args. \<lparr>gp_exited_ok = True, gp_stdout = ''abcd'', gp_stderr = [], gp_timed_out = False\<rparr>),
     gw_ended = (\<lambda>k. False), gw_calls = []\<rparr>"

lemma user_strings_never_options_witness:
  "list_all safe_call (gw_calls (snd (DiffFile (\<lambda>_. None) ''/r'' ''--output=x''
     \<lparr>scope_Kind = ''pinned'', scope_SHA = [], scope_BaseRef = ''abcd''\<rparr> sample_git)))"
proof -
  have "lists_objects (gw_run sample_git)"
    by (simp add: lists_objects_def sample_git_def Fields_def tab_def)
  moreover have "gw_calls sample_git = []" by (simp add: sample_git_def)
  ultimately show ?thesis using user_strings_never_options [of sample_git] by blast
qed

section \<open>What Git prints\<close>

text \<open>A changed path as Git knows it: under one name, or moved from an old one; \<open>None\<close> stands for the two
  hyphens of a binary file.\<close>

datatype git_entry =
    Kept (entry_code: string) (entry_path: string) (entry_counts: "(nat \<times> nat) option")
  | Moved (entry_code: string) (entry_old: string) (entry_path: string) (entry_counts: "(nat \<times> nat) option")

fun status_records :: "git_entry \<Rightarrow> string list" where
  "status_records (Kept code path c) = [code, path]"
| "status_records (Moved code old path c) = [code, old, path]"

fun count_fields :: "(nat \<times> nat) option \<Rightarrow> string" where
  "count_fields None = [CHR ''-'', tab, CHR ''-'', tab]"
| "count_fields (Some (added, removed)) = decimal added @ [tab] @ decimal removed @ [tab]"

fun count_records :: "git_entry \<Rightarrow> string list" where
  "count_records (Kept code path c) = [count_fields c @ path]"
| "count_records (Moved code old path c) = [count_fields c, old, path]"

definition terminated :: "string list \<Rightarrow> string" where
  "terminated records = concat (map (\<lambda>r. r @ [NUL]) records)"

definition print_status :: "git_entry list \<Rightarrow> string" where
  "print_status es = terminated (concat (map status_records es))"

definition print_counts :: "git_entry list \<Rightarrow> string" where
  "print_counts es = terminated (concat (map count_records es))"

definition small_counts :: "(nat \<times> nat) option \<Rightarrow> bool" where
  "small_counts c = (case c of None \<Rightarrow> True | Some (a, r) \<Rightarrow> a < 2 ^ 63 \<and> r < 2 ^ 63)"

definition printable_code :: "string \<Rightarrow> bool" where
  "printable_code code \<longleftrightarrow> code \<noteq> [] \<and> NUL \<notin> set code \<and> tab \<notin> set code"

definition printable_path :: "string \<Rightarrow> bool" where
  "printable_path path \<longleftrightarrow> path \<noteq> [] \<and> NUL \<notin> set path"

definition moved_code :: "string \<Rightarrow> bool" where
  "moved_code code \<longleftrightarrow> hd code \<in> {CHR ''R'', CHR ''C''}"

text \<open>A binary file that moved is printed with its two paths as records of their own, and these are read
  as records: they must not look like one, so they hold no tab.\<close>

fun printable :: "git_entry \<Rightarrow> bool" where
  "printable (Kept code path c) \<longleftrightarrow> printable_code code \<and> \<not> moved_code code \<and> printable_path path \<and> small_counts c"
| "printable (Moved code old path c) \<longleftrightarrow> printable_code code \<and> moved_code code \<and> printable_path old
     \<and> printable_path path \<and> small_counts c \<and> (c = None \<longrightarrow> tab \<notin> set old \<and> tab \<notin> set path)"

fun change_of :: "git_entry \<Rightarrow> GitFileChange" where
  "change_of (Kept code path c) =
     \<lparr>fc_Path = path, fc_OriginalPath = [], fc_Status = change_status code,
      fc_Counts = map_option (\<lambda>(a, r). (int a, int r)) c\<rparr>"
| "change_of (Moved code old path c) =
     \<lparr>fc_Path = path, fc_OriginalPath = old, fc_Status = change_status code,
      fc_Counts = map_option (\<lambda>(a, r). (int a, int r)) c\<rparr>"

section \<open>Reading it back\<close>

lemma NUL_tab: "NUL \<noteq> tab" by (simp add: NUL_def tab_def)

lemma Split_terminated: "\<forall>r \<in> set records. NUL \<notin> set r \<Longrightarrow> Split NUL (terminated records) = records @ [[]]"
  by (induction records) (simp_all add: terminated_def Split_append)

lemma join_Split: "join_with [d] (Split d s) = s"
proof (induction s)
  case (Cons c s)
  then show ?case by (cases "Split d s"; cases "tl (Split d s)") (auto simp: Split_nonempty split: list.split)
qed simp

lemma decimal_no: "\<not> is_digit c \<Longrightarrow> c \<notin> set (decimal n)"
  using decimal_digits [of n] by (auto simp: list_all_iff)

lemma not_digits: "\<not> is_digit NUL" "\<not> is_digit tab" "\<not> is_digit (CHR ''-'')" "\<not> is_digit (CHR ''+'')"
  by (simp_all add: is_digit_def NUL_def tab_def less_eq_char_def)

lemma parse_int_decimal:
  assumes "n < 2 ^ 63" shows "parse_int (decimal n) = Some (int n)"
proof -
  obtain c r where d: "decimal n = c # r" using decimal_digits [of n] by (cases "decimal n") auto
  then have c: "c \<noteq> CHR ''-''" "c \<noteq> CHR ''+''" using decimal_no [of _ n] not_digits by auto
  have "list_all is_digit (c # r)" "foldl (\<lambda>n c. 10 * n + (of_char c - 48)) 0 (c # r) = n"
    using decimal_digits [of n] decimal_value [of n] d by simp_all
  then show ?thesis using assms c by (simp add: parse_int_def d Let_def)
qed

lemma parse_int_hyphen: "parse_int [CHR ''-''] = None"
  by (simp add: parse_int_def)

lemma count_fields_Split:
  "Split tab (count_fields None @ s) = [CHR ''-''] # [CHR ''-''] # Split tab s"
  "Split tab (count_fields (Some (a, r)) @ s) = decimal a # decimal r # Split tab s"
  by (simp_all add: Split_append decimal_no not_digits) (simp add: tab_def)

definition counted :: "git_entry \<Rightarrow> counts \<Rightarrow> counts" where
  "counted e acc = (case entry_counts e of None \<Rightarrow> acc | Some (a, r) \<Rightarrow> put (entry_path e) (int a, int r) acc)"

lemma parse_numstat_short: "tab \<notin> set r \<Longrightarrow> parse_numstat acc (r # rest) = parse_numstat acc rest"
  by (simp add: Split_no_sep)

lemma parse_numstat_entry:
  assumes "printable e"
  shows "parse_numstat acc (count_records e @ rest) = parse_numstat (counted e acc) rest"
proof (cases e)
  case (Kept code path c)
  show ?thesis
  proof (cases c)
    case None
    then show ?thesis using count_fields_Split(1) [of path] Kept by (simp add: parse_int_hyphen counted_def Let_def del: count_fields.simps)
  next
    case (Some ar)
    obtain a r where ar: "ar = (a, r)" by force
    with Some Kept assms have "path \<noteq> []" "a < 2 ^ 63" "r < 2 ^ 63" by (auto simp: printable_path_def small_counts_def)
    moreover obtain p ps where "Split tab path = p # ps" by (cases "Split tab path") auto
    moreover have "join_with [tab] (Split tab path) = path" by (rule join_Split)
    ultimately show ?thesis
      using count_fields_Split(2) [of a r path] Kept Some ar
      by (simp add: parse_int_decimal counted_def Let_def del: count_fields.simps)
  qed
next
  case (Moved code old path c)
  show ?thesis
  proof (cases c)
    case None
    with Moved assms have "tab \<notin> set old" "tab \<notin> set path" by auto
    with None show ?thesis using count_fields_Split(1) [of "[]"] Moved
      by (simp add: parse_int_hyphen counted_def Let_def Split_no_sep del: count_fields.simps)
  next
    case (Some ar)
    obtain a r where ar: "ar = (a, r)" by force
    with Some Moved assms have "path \<noteq> []" "a < 2 ^ 63" "r < 2 ^ 63" by (auto simp: printable_path_def small_counts_def)
    then show ?thesis using count_fields_Split(2) [of a r "[]"] Moved Some ar
      by (simp add: parse_int_decimal counted_def Let_def del: count_fields.simps)
  qed
qed

lemma parse_numstat_entries:
  "list_all printable es \<Longrightarrow> parse_numstat acc (concat (map count_records es) @ [[]]) = fold counted es acc"
  by (induction es arbitrary: acc) (simp_all add: parse_numstat_entry Split_no_sep del: parse_numstat.simps(2) add: parse_numstat_short)

lemma parse_name_status_entry:
  assumes "printable e"
  shows "parse_name_status cs (status_records e @ rest) =
     map_option (\<lambda>changes. (change_of e)\<lparr>fc_Counts := get cs (entry_path e)\<rparr> # changes) (parse_name_status cs rest)"
proof -
  have moved: "HasPrefix code ''R'' \<or> HasPrefix code ''C'' \<longleftrightarrow> moved_code code" if "code \<noteq> []" for code
    using that by (cases code) (auto simp: HasPrefix_def moved_code_def)
  show ?thesis
    using assms moved
    by (cases e) (auto simp: record_name_def renamed_record_def printable_code_def printable_path_def Let_def
        intro!: option.map_cong)
qed

lemma parse_name_status_entries:
  "list_all printable es \<Longrightarrow> parse_name_status cs (concat (map status_records es) @ [[]]) =
     Some (map (\<lambda>e. (change_of e)\<lparr>fc_Counts := get cs (entry_path e)\<rparr>) es)"
  by (induction es) (simp_all add: parse_name_status_entry del: parse_name_status.simps(2) status_records.simps,
      simp)

lemma get_counted_other: "k \<notin> entry_path ` set es \<Longrightarrow> get (fold counted es acc) k = get acc k"
  by (induction es arbitrary: acc) (auto simp: counted_def split: option.splits)

lemma get_counted:
  assumes "distinct (map entry_path es)" "e \<in> set es" "get acc (entry_path e) = None"
  shows "get (fold counted es acc) (entry_path e) = map_option (\<lambda>(a, r). (int a, int r)) (entry_counts e)"
  using assms
proof (induction es arbitrary: acc)
  case (Cons f es)
  show ?case
  proof (cases "f = e")
    case True
    with Cons.prems have "entry_path e \<notin> entry_path ` set es" by auto
    then have "get (fold counted es (counted e acc)) (entry_path e) = get (counted e acc) (entry_path e)"
      by (rule get_counted_other)
    also have "\<dots> = map_option (\<lambda>(a, r). (int a, int r)) (entry_counts e)"
      using Cons.prems(3) by (auto simp: counted_def split: option.splits)
    finally show ?thesis using True by simp
  next
    case False
    with Cons.prems(2) have m: "e \<in> set es" by simp
    have "entry_path f \<notin> entry_path ` set es" using Cons.prems(1) by simp
    with imageI [OF m, of entry_path] have e: "e \<in> set es" "entry_path e \<noteq> entry_path f" using m by metis+
    then have "get (counted f acc) (entry_path e) = None"
      using Cons.prems(3) by (auto simp: counted_def split: option.splits)
    with Cons.IH [OF _ e(1) this] Cons.prems(1) show ?thesis by simp
  qed
qed simp

lemma count_fields_no_NUL: "NUL \<notin> set (count_fields c)"
  by (cases c rule: count_fields.cases) (auto simp: decimal_no not_digits NUL_tab, simp_all add: NUL_def)

lemma status_records_no_NUL: "printable e \<Longrightarrow> r \<in> set (status_records e) \<Longrightarrow> NUL \<notin> set r"
  by (cases e) (auto simp: printable_code_def printable_path_def)

lemma count_records_no_NUL: "printable e \<Longrightarrow> r \<in> set (count_records e) \<Longrightarrow> NUL \<notin> set r"
  using count_fields_no_NUL [of "entry_counts e"] by (cases e) (auto simp: printable_path_def)

lemma Split_print_status:
  "list_all printable es \<Longrightarrow> Split NUL (print_status es) = concat (map status_records es) @ [[]]"
  unfolding print_status_def by (rule Split_terminated) (auto simp: list_all_iff dest: status_records_no_NUL)

lemma Split_print_counts:
  "list_all printable es \<Longrightarrow> Split NUL (print_counts es) = concat (map count_records es) @ [[]]"
  unfolding print_counts_def by (rule Split_terminated) (auto simp: list_all_iff dest: count_records_no_NUL)

lemma change_of_counts: "(change_of e)\<lparr>fc_Counts := map_option (\<lambda>(a, r). (int a, int r)) (entry_counts e)\<rparr> = change_of e"
  by (cases e) simp_all


definition sample_entries :: "git_entry list" where
  "sample_entries = [Kept ''M'' [CHR ''a'', tab, CHR ''b''] (Some (12, 3)), Moved ''R087'' ''old'' ''new'' (Some (0, 1)),
     Kept ''A'' ''logo'' None]"


text \<open>Why moved binary files are excepted: their two paths are read as records, so a binary file moved to a
  name that looks like one gives another file its counts.\<close>

lemma moved_binary_misread:
  "parseNumstat (print_counts [Moved ''R100'' ''old'' [CHR ''5'', tab, CHR ''7'', tab, CHR ''x''] None]) = [(''x'', 5, 7)]"
  by (simp add: parseNumstat_def print_counts_def terminated_def parse_int_def tab_def NUL_def is_digit_def less_eq_char_def)

end
