(* ===== verification/BrowserPolicy.thy ===== *)
theory BrowserPolicy
  imports Json
begin

text \<open>
  The admission policy of the browser service, \<open>internal/browser/policy.go\<close> and \<open>token.go\<close>: an
  untrusted request body becomes an argument vector for the browser tool, or an error.

  Regular expressions are predicates on the runes of a string. Case-insensitive classes contain, as
  in Go's \<open>regexp\<close>, the two non-ASCII runes that fold to ASCII letters (U+017F and U+212A).
  \<open>net/url.Parse\<close> is the argument \<open>parse\<close>: what the policy reads of its result.
\<close>

record parsed_url =
  Scheme :: string
  Hostname :: string
  HasUser :: bool

type_synonym url_parser = "string \<Rightarrow> parsed_url option"

datatype policy_error =
    BodyNotObject | UnknownFields | BadSession | UnsupportedCommand | ArgsNotArray
  | TooManyArgs | ArgNotString | ArgTooLarge | ArgHasNUL | ArgNotUTF8 | ExecutableScheme | UnsafeURL
  | OptionNotPermitted string string | UnknownOption string | TimeoutRange | DepthRange | ValueRequired string
  | BadArity string nat nat | NeedsOneURL | AtMostOneURL | ScrollDirection | ScrollDistance
  | GetKind | IsKind | WaitValue | WaitRange | ViewportOnly | OneFilename | BadFilename

definition maxWaitMS :: nat where "maxWaitMS = 30000"
definition maxArgs :: nat where "maxArgs = 64"
definition maxArgSize :: nat where "maxArgSize = 16 * 1024"

section \<open>Patterns\<close>

definition word_rune :: "nat \<Rightarrow> bool" where
  "word_rune r \<longleftrightarrow> 48 \<le> r \<and> r \<le> 57 \<or> 65 \<le> r \<and> r \<le> 90 \<or> 97 \<le> r \<and> r \<le> 122"

text \<open>\<open>(?i)[a-z]\<close>, and \<open>(?i)[a-z0-9]\<close>.\<close>

definition fold_letter :: "nat \<Rightarrow> bool" where
  "fold_letter r \<longleftrightarrow> 65 \<le> r \<and> r \<le> 90 \<or> 97 \<le> r \<and> r \<le> 122 \<or> r = 0x17F \<or> r = 0x212A"

definition fold_alnum :: "nat \<Rightarrow> bool" where
  "fold_alnum r \<longleftrightarrow> fold_letter r \<or> 48 \<le> r \<and> r \<le> 57"

text \<open>\<open>^[A-Za-z0-9_-]{1,38}$\<close>\<close>

definition sessionPattern :: "string \<Rightarrow> bool" where
  "sessionPattern s \<longleftrightarrow> (let rs = map fst (runes s) in
     1 \<le> length rs \<and> length rs \<le> 38 \<and> list_all (\<lambda>r. word_rune r \<or> r = 95 \<or> r = 45) rs)"

text \<open>\<open>(?i)^[A-Za-z0-9][A-Za-z0-9._-]{0,126}\.(png|jpe?g|webp)$\<close>\<close>

definition ascii_lower :: "nat \<Rightarrow> nat" where
  "ascii_lower r = (if 65 \<le> r \<and> r \<le> 90 then r + 32 else r)"

definition image_suffixes :: "nat list list" where
  "image_suffixes = map bytes_of [''.png'', ''.jpg'', ''.jpeg'', ''.webp'']"

definition image_stem :: "nat list \<Rightarrow> bool" where
  "image_stem rs \<longleftrightarrow> (case rs of [] \<Rightarrow> False
     | r # rest \<Rightarrow> fold_alnum r \<and> length rest \<le> 126
         \<and> list_all (\<lambda>r. fold_alnum r \<or> r = 46 \<or> r = 95 \<or> r = 45) rest)"

definition imageNamePattern :: "string \<Rightarrow> bool" where
  "imageNamePattern s \<longleftrightarrow> (let rs = map fst (runes s) in
     list_ex (\<lambda>suf. length suf \<le> length rs
        \<and> map ascii_lower (drop (length rs - length suf) rs) = suf
        \<and> image_stem (take (length rs - length suf) rs)) image_suffixes)"

text \<open>\<open>^[1-9][0-9]{0,8}$\<close> and \<open>^[0-9]+$\<close>\<close>

definition digit_rune :: "nat \<Rightarrow> bool" where
  "digit_rune r \<longleftrightarrow> 48 \<le> r \<and> r \<le> 57"

definition positiveIntegerRE :: "string \<Rightarrow> bool" where
  "positiveIntegerRE s \<longleftrightarrow> (case map fst (runes s) of [] \<Rightarrow> False
     | r # rest \<Rightarrow> digit_rune r \<and> r \<noteq> 48 \<and> length rest \<le> 8 \<and> list_all digit_rune rest)"

definition integerRE :: "string \<Rightarrow> bool" where
  "integerRE s \<longleftrightarrow> s \<noteq> [] \<and> list_all digit_rune (map fst (runes s))"

text \<open>\<open>(?i)^[a-z][a-z0-9+.-]*://\<close>\<close>

definition urlSchemeRE :: "string \<Rightarrow> bool" where
  "urlSchemeRE s \<longleftrightarrow> (case map fst (runes s) of [] \<Rightarrow> False
     | r # rest \<Rightarrow> fold_letter r
         \<and> take 3 (dropWhile (\<lambda>r. fold_alnum r \<or> r = 43 \<or> r = 46 \<or> r = 45) rest) = bytes_of ''://'')"

text \<open>\<open>strconv.Atoi\<close> on a string of digits.\<close>

definition Atoi :: "string \<Rightarrow> nat" where
  "Atoi s = foldl (\<lambda>n c. 10 * n + (of_char c - 48)) 0 s"

section \<open>Commands and options\<close>

definition allowedCommands :: "string list" where
  "allowedCommands =
     [''open'', ''back'', ''forward'', ''reload'', ''close'',
      ''click'', ''dblclick'', ''fill'', ''type'', ''hover'', ''focus'', ''check'', ''uncheck'', ''select'',
      ''press'', ''scroll'', ''scrollintoview'', ''wait'',
      ''read'', ''snapshot'', ''screenshot'', ''get'', ''is'', ''a11y'', ''vitals'', ''set'']"

definition commandOptions :: "(string \<times> string list) list" where
  "commandOptions =
     [(''read'', [''--json'', ''--timeout'']),
      (''wait'', [''--json'', ''--timeout'']),
      (''snapshot'', [''--json'', ''-i'', ''--interactive'', ''-c'', ''--compact'', ''--depth'', ''--selector'']),
      (''screenshot'', [''--json'', ''--annotate'']),
      (''a11y'', [''--json'', ''--selector'', ''--tags'']),
      (''scroll'', [''--json'', ''--selector''])]"

definition valueOptions :: "string list" where
  "valueOptions = [''--timeout'', ''--selector'', ''--depth'', ''--tags'']"

definition booleanOptions :: "string list" where
  "booleanOptions = [''--json'', ''-i'', ''-c'', ''--interactive'', ''--compact'', ''--annotate'']"

definition isPositiveInteger :: "string \<Rightarrow> nat \<Rightarrow> bool" where
  "isPositiveInteger value maximum \<longleftrightarrow> positiveIntegerRE value \<and> Atoi value \<le> maximum"

definition safeHTTPURL :: "url_parser \<Rightarrow> string \<Rightarrow> bool" where
  "safeHTTPURL parse value \<longleftrightarrow>
     (HasPrefix value ''http://'' \<or> HasPrefix value ''https://'')
     \<and> \<not> list_ex (\<lambda>(r, b). r \<le> 0x20 \<or> r = 0x7F) (runes value)
     \<and> (case parse value of None \<Rightarrow> False
        | Some u \<Rightarrow> (Scheme u = ''http'' \<or> Scheme u = ''https'') \<and> Hostname u \<noteq> [] \<and> \<not> HasUser u)"

text \<open>
  \<open>strings.ToLower\<close> as far as a test for an ASCII prefix can see: besides the ASCII capitals only
  U+0130 and U+212A have an ASCII lower case; every other rune stays outside ASCII.
\<close>

definition lowered :: "string \<Rightarrow> nat list" where
  "lowered s = map (\<lambda>(r, b). if r = 0x130 then 105 else if r = 0x212A then 107 else ascii_lower r) (runes s)"

definition executable_schemes :: "string list" where
  "executable_schemes = [''file:'', ''data:'', ''javascript:'', ''about:'', ''chrome:'', ''chrome-extension:'']"

definition rejectExecutableScheme :: "url_parser \<Rightarrow> string \<Rightarrow> policy_error option" where
  "rejectExecutableScheme parse value =
     (if list_ex (\<lambda>scheme. take (length scheme) (lowered value) = bytes_of scheme) executable_schemes
      then Some ExecutableScheme
      else if urlSchemeRE value \<and> \<not> safeHTTPURL parse value then Some UnsafeURL
      else None)"

definition allowedFor :: "string \<Rightarrow> string \<Rightarrow> bool" where
  "allowedFor command option =
     (case get commandOptions command of None \<Rightarrow> option = ''--json'' | Some options \<Rightarrow> option \<in> set options)"

definition validateOption :: "string \<Rightarrow> string \<Rightarrow> string \<Rightarrow> policy_error option" where
  "validateOption command option value =
     (if \<not> allowedFor command option then Some (OptionNotPermitted command option)
      else if option = ''--timeout'' \<and> \<not> isPositiveInteger value maxWaitMS then Some TimeoutRange
      else if option = ''--depth'' \<and> \<not> isPositiveInteger value 100 then Some DepthRange
      else None)"

section \<open>Arguments\<close>

definition check_argument :: "url_parser \<Rightarrow> json \<Rightarrow> policy_error + string" where
  "check_argument parse raw =
     (case as_string raw of
        None \<Rightarrow> Inl ArgNotString
      | Some value \<Rightarrow>
          if length value > maxArgSize then Inl ArgTooLarge
          else if CHR 0x00 \<in> set value then Inl ArgHasNUL
          else if \<not> valid_utf8 value then Inl ArgNotUTF8
          else (case rejectExecutableScheme parse value of Some e \<Rightarrow> Inl e | None \<Rightarrow> Inr value))"

fun check_arguments :: "url_parser \<Rightarrow> json list \<Rightarrow> policy_error + string list" where
  "check_arguments parse [] = Inr []"
| "check_arguments parse (raw # raws) =
     (case check_argument parse raw of
        Inl e \<Rightarrow> Inl e
      | Inr value \<Rightarrow> (case check_arguments parse raws of Inl e \<Rightarrow> Inl e | Inr vs \<Rightarrow> Inr (value # vs)))"

text \<open>The second loop of \<open>parseArguments\<close>, at index \<open>i\<close>; a positional is a value and its index.\<close>

fun scan_arguments :: "string \<Rightarrow> nat \<Rightarrow> string list \<Rightarrow> policy_error + (string \<times> nat) list" where
  "scan_arguments command i [] = Inr []"
| "scan_arguments command i (arg # rest) =
     (if arg \<in> set booleanOptions then
        (case validateOption command arg [] of Some e \<Rightarrow> Inl e | None \<Rightarrow> scan_arguments command (i + 1) rest)
      else if arg \<in> set valueOptions then
        (case rest of
           [] \<Rightarrow> Inl (ValueRequired arg)
         | value # rest' \<Rightarrow>
             if HasPrefix value ''-'' then Inl (ValueRequired arg)
             else (case validateOption command arg value of
                     Some e \<Rightarrow> Inl e | None \<Rightarrow> scan_arguments command (i + 2) rest'))
      else if HasPrefix arg ''-'' then Inl (UnknownOption (takeWhile (\<lambda>c. c \<noteq> CHR ''='') arg))
      else (case scan_arguments command (i + 1) rest of Inl e \<Rightarrow> Inl e | Inr ps \<Rightarrow> Inr ((arg, i) # ps)))"

definition parseArguments ::
  "url_parser \<Rightarrow> string \<Rightarrow> json list \<Rightarrow> policy_error + string list \<times> (string \<times> nat) list" where
  "parseArguments parse command raw =
     (if length raw > maxArgs then Inl TooManyArgs
      else (case check_arguments parse raw of
              Inl e \<Rightarrow> Inl e
            | Inr args \<Rightarrow>
                (case scan_arguments command 0 args of Inl e \<Rightarrow> Inl e | Inr ps \<Rightarrow> Inr (args, ps))))"

definition requireArity :: "string \<Rightarrow> string list \<Rightarrow> nat \<Rightarrow> nat \<Rightarrow> policy_error option" where
  "requireArity command values minimum maximum =
     (if minimum \<le> length values \<and> length values \<le> maximum then None
      else Some (BadArity command minimum maximum))"

text \<open>The first error of a sequence of checks.\<close>

fun first_error :: "'e option list \<Rightarrow> 'e option" where
  "first_error [] = None"
| "first_error (c # cs) = (case c of Some e \<Rightarrow> Some e | None \<Rightarrow> first_error cs)"

lemma first_error_None [simp]: "first_error cs = None \<longleftrightarrow> (\<forall>c \<in> set cs. c = None)"
  by (induction cs) (auto split: option.splits)

declare first_error.simps(2) [simp del]

definition check_when :: "bool \<Rightarrow> 'e option \<Rightarrow> 'e option" where
  "check_when b c = (if b then c else None)"

definition reject_if :: "bool \<Rightarrow> 'e \<Rightarrow> 'e option" where
  "reject_if b e = (if b then Some e else None)"

lemma check_None [simp]:
  "check_when b c = None \<longleftrightarrow> (b \<longrightarrow> c = None)" "reject_if b e = None \<longleftrightarrow> \<not> b"
  by (simp_all add: check_when_def reject_if_def)

text \<open>The blocks of \<open>validatePositionals\<close> for the commands with their own argument grammar.\<close>

definition validate_scroll :: "string list \<Rightarrow> policy_error option" where
  "validate_scroll values =
     first_error
       [requireArity ''scroll'' values 1 2,
        check_when (values \<noteq> [])
          (reject_if (hd values \<notin> {''up'', ''down'', ''left'', ''right''}) ScrollDirection),
        reject_if (length values = 2 \<and> \<not> isPositiveInteger (values ! 1) 10000) ScrollDistance]"

definition validate_get :: "string list \<Rightarrow> policy_error option" where
  "validate_get values =
     (if length values < 1
         \<or> hd values \<notin> {''text'', ''html'', ''value'', ''attr'', ''title'', ''url'', ''count'', ''box'', ''styles''}
      then Some GetKind
      else if hd values = ''url'' \<or> hd values = ''title'' then requireArity ''get'' values 1 1
      else if hd values = ''attr'' then requireArity ''get'' values 3 3
      else requireArity ''get'' values 2 2)"

definition validate_set :: "string list \<Rightarrow> policy_error option" where
  "validate_set values =
     (if length values \<noteq> 3 \<or> values ! 0 \<noteq> ''viewport'' \<or> \<not> isPositiveInteger (values ! 1) 1920
         \<or> \<not> isPositiveInteger (values ! 2) 1200
      then Some ViewportOnly
      else if Atoi (values ! 1) < 320 \<or> Atoi (values ! 2) < 240 then Some ViewportOnly
      else None)"

definition validatePositionals :: "url_parser \<Rightarrow> string \<Rightarrow> (string \<times> nat) list \<Rightarrow> policy_error option" where
  "validatePositionals parse command positionals =
     (let values = map fst positionals in
      first_error
        [check_when (command = ''open'')
           (reject_if (length values \<noteq> 1 \<or> \<not> safeHTTPURL parse (values ! 0)) NeedsOneURL),
         check_when (command \<in> {''back'', ''forward'', ''reload''}) (requireArity command values 0 0),
         check_when (command = ''close'') (requireArity command values 0 0),
         check_when (command \<in> {''read'', ''a11y'', ''vitals''})
           (reject_if (length values > 1 \<or> length values = 1 \<and> \<not> safeHTTPURL parse (values ! 0)) AtMostOneURL),
         check_when (command \<in> {''click'', ''dblclick'', ''focus'', ''hover'', ''check'', ''uncheck'', ''scrollintoview''})
           (requireArity command values 1 1),
         check_when (command \<in> {''fill'', ''type'', ''select''}) (requireArity command values 2 2),
         check_when (command = ''press'') (requireArity command values 1 1),
         check_when (command = ''scroll'') (validate_scroll values),
         check_when (command = ''snapshot'') (requireArity command values 0 0),
         check_when (command = ''get'') (validate_get values),
         check_when (command = ''is'')
           (reject_if (length values \<noteq> 2 \<or> values ! 0 \<notin> {''visible'', ''enabled'', ''checked''}) IsKind),
         check_when (command = ''wait'')
           (if length values \<noteq> 1 then Some WaitValue
            else reject_if (integerRE (values ! 0) \<and> \<not> isPositiveInteger (values ! 0) maxWaitMS) WaitRange),
         check_when (command = ''set'') (validate_set values),
         check_when (command = ''screenshot'')
           (if length values \<noteq> 1 then Some OneFilename
            else reject_if (\<not> imageNamePattern (values ! 0)) BadFilename)])"

section \<open>Requests\<close>

record browserRequest =
  Session :: string
  Command :: string
  Args :: "string list"
  Positionals :: "(string \<times> nat) list"

definition validate_request ::
  "url_parser \<Rightarrow> string \<Rightarrow> string \<Rightarrow> json list \<Rightarrow> policy_error + browserRequest" where
  "validate_request parse session command rawArgs =
     (case parseArguments parse command rawArgs of
        Inl e \<Rightarrow> Inl e
      | Inr (args, positionals) \<Rightarrow>
          (case validatePositionals parse command positionals of
             Some e \<Rightarrow> Inl e
           | None \<Rightarrow> Inr \<lparr>Session = session, Command = command, Args = args, Positionals = positionals\<rparr>))"

text \<open>An explicit \<open>null\<close> for \<open>args\<close> re-validates the body without that key, so with no arguments.\<close>

definition validateBrowserRequest :: "url_parser \<Rightarrow> json \<Rightarrow> policy_error + browserRequest" where
  "validateBrowserRequest parse body =
     (case as_object body of
        None \<Rightarrow> Inl BodyNotObject
      | Some object \<Rightarrow>
          if list_ex (\<lambda>(key, v). key \<notin> {''session'', ''command'', ''args''}) object then Inl UnknownFields
          else
            (case as_string (field object ''session'') of
               None \<Rightarrow> Inl BadSession
             | Some session \<Rightarrow>
                 if \<not> sessionPattern session then Inl BadSession
                 else
                   (case as_string (field object ''command'') of
                      None \<Rightarrow> Inl UnsupportedCommand
                    | Some command \<Rightarrow>
                        if command \<notin> set allowedCommands then Inl UnsupportedCommand
                        else
                          (case get object ''args'' of
                             None \<Rightarrow> validate_request parse session command []
                           | Some JNull \<Rightarrow> validate_request parse session command []
                           | Some raw \<Rightarrow>
                               (case as_array raw of
                                  None \<Rightarrow> Inl ArgsNotArray
                                | Some rawArgs \<Rightarrow> validate_request parse session command rawArgs)))))"

definition screenshotFilename :: "browserRequest \<Rightarrow> string" where
  "screenshotFilename request =
     (if Command request = ''screenshot'' \<and> length (Positionals request) = 1
      then fst (Positionals request ! 0) else [])"

section \<open>Tokens\<close>

definition tokenSentinels :: "string list" where
  "tokenSentinels =
     [''INVALID_REPLACE_WITH_RANDOM_CONTROLLER_TOKEN'', ''INVALID_REPLACE_WITH_RANDOM_BROWSER_TOKEN'',
      ''replace-with-a-random-controller-token'', ''replace-with-a-random-browser-token'',
      ''replace-with-a-random-token'']"

definition isStrongToken :: "string \<Rightarrow> bool" where
  "isStrongToken value \<longleftrightarrow>
     (if length value < 32 \<or> length value > 256 then False
      else if value \<in> set tokenSentinels then False
      else \<not> list_ex (\<lambda>(r, b). r < 33 \<or> r > 126) (runes value))"

datatype token_error = TokenRequired | TokenWeak

definition assertStrongToken :: "string \<Rightarrow> token_error option" where
  "assertStrongToken value =
     (if value = [] then Some TokenRequired
      else if \<not> isStrongToken value then Some TokenWeak
      else None)"

section \<open>What an accepted argument vector satisfies\<close>

definition argument_ok :: "url_parser \<Rightarrow> string \<Rightarrow> bool" where
  "argument_ok parse a \<longleftrightarrow> length a \<le> 16384 \<and> CHR 0x00 \<notin> set a \<and> valid_utf8 a
     \<and> (\<forall>scheme \<in> set executable_schemes. take (length scheme) (lowered a) \<noteq> bytes_of scheme)
     \<and> (urlSchemeRE a \<longrightarrow> safeHTTPURL parse a)"

lemma check_argument_Inr: "check_argument parse raw = Inr a \<Longrightarrow> raw = JStr a \<and> argument_ok parse a"
  by (auto simp: check_argument_def argument_ok_def rejectExecutableScheme_def maxArgSize_def list_ex_iff
      split: option.splits if_splits)

lemma check_arguments_Inr:
  "check_arguments parse raws = Inr args \<Longrightarrow> raws = map JStr args \<and> list_all (argument_ok parse) args"
  by (induction raws arbitrary: args) (auto split: sum.splits dest: check_argument_Inr)

lemma parseArguments_Inr:
  assumes "parseArguments parse command raw = Inr (args, ps)"
  shows "raw = map JStr args" "length args \<le> 64" "list_all (argument_ok parse) args"
    "scan_arguments command 0 args = Inr ps"
proof -
  from assms have "length raw \<le> maxArgs" "check_arguments parse raw = Inr args"
    and scan: "scan_arguments command 0 args = Inr ps"
    by (auto simp: parseArguments_def split: if_splits sum.splits)
  with check_arguments_Inr show "raw = map JStr args" "list_all (argument_ok parse) args" by blast+
  with \<open>length raw \<le> maxArgs\<close> show "length args \<le> 64" by (simp add: maxArgs_def)
qed (use assms in \<open>auto simp: parseArguments_def split: if_splits sum.splits\<close>)

lemma validate_request_Inr:
  assumes "validate_request parse session command raw = Inr req"
  shows "Session req = session" "Command req = command"
    "parseArguments parse command raw = Inr (Args req, Positionals req)"
    "validatePositionals parse command (Positionals req) = None"
  using assms by (auto simp: validate_request_def split: sum.splits option.splits)

lemma validateBrowserRequest_Inr:
  assumes "validateBrowserRequest parse body = Inr req"
  obtains object raw where "body = JObj object" "keys object \<subseteq> {''session'', ''command'', ''args''}"
    "field object ''session'' = JStr (Session req)" "field object ''command'' = JStr (Command req)"
    "sessionPattern (Session req)" "Command req \<in> set allowedCommands"
    "validate_request parse (Session req) (Command req) raw = Inr req"
    "field object ''args'' = JArr raw \<or> field object ''args'' = JNull \<and> raw = []"
proof -
  note def = assms [unfolded validateBrowserRequest_def]
  obtain object where o: "body = JObj object" using def by (cases body) simp_all
  have known: "\<not> list_ex (\<lambda>(key, v). key \<notin> {''session'', ''command'', ''args''}) object"
    using def o by (simp split: if_splits)
  then have keys: "keys object \<subseteq> {''session'', ''command'', ''args''}"
    unfolding list_ex_iff by fastforce
  obtain session where s: "field object ''session'' = JStr session" "sessionPattern session"
    using def o by (cases "field object ''session''") (simp_all split: if_splits)
  obtain command where c: "field object ''command'' = JStr command" "command \<in> set allowedCommands"
    using def o s by (cases "field object ''command''") (simp_all split: if_splits)
  let ?args = "case get object ''args'' of
      None \<Rightarrow> validate_request parse session command []
    | Some JNull \<Rightarrow> validate_request parse session command []
    | Some raw \<Rightarrow> (case as_array raw of
         None \<Rightarrow> Inl ArgsNotArray | Some rawArgs \<Rightarrow> validate_request parse session command rawArgs)"
  have args: "?args = Inr req"
    using def o known s c by (simp split: if_splits)
  have "\<exists>raw. validate_request parse session command raw = Inr req
      \<and> (field object ''args'' = JArr raw \<or> field object ''args'' = JNull \<and> raw = [])"
  proof (cases "get object ''args''")
    case None
    with args show ?thesis by (simp add: field_def)
  next
    case (Some v)
    with args show ?thesis by (cases v) (simp_all add: field_def)
  qed
  then obtain raw where r: "validate_request parse session command raw = Inr req"
    "field object ''args'' = JArr raw \<or> field object ''args'' = JNull \<and> raw = []" by blast
  note v = validate_request_Inr [OF r(1)]
  from that [OF o keys, of raw] s c r v show ?thesis by simp
qed

lemma scan_positionals:
  "scan_arguments command i args = Inr ps \<Longrightarrow>
     sorted_wrt (<) (map snd ps)
     \<and> (\<forall>(v, j) \<in> set ps. i \<le> j \<and> j < i + length args \<and> args ! (j - i) = v \<and> \<not> HasPrefix v ''-'')"
proof (induction command i args arbitrary: ps rule: scan_arguments.induct)
  case (2 command i arg rest)
  consider (bool) "arg \<in> set booleanOptions" "scan_arguments command (i + 1) rest = Inr ps"
      "validateOption command arg [] = None"
    | (val) x rest' where "arg \<notin> set booleanOptions" "arg \<in> set valueOptions" "rest = x # rest'"
        "\<not> HasPrefix x ''-''" "validateOption command arg x = None"
        "scan_arguments command (i + 2) rest' = Inr ps"
    | (pos) ps' where "arg \<notin> set booleanOptions" "arg \<notin> set valueOptions" "\<not> HasPrefix arg ''-''"
        "scan_arguments command (i + 1) rest = Inr ps'" "ps = (arg, i) # ps'"
    using "2.prems" by (auto split: if_splits option.splits list.splits sum.splits)
  then show ?case
  proof cases
    case bool
    from "2.IH"(1) [OF bool(1,3,2)] show ?thesis by (auto simp: nth_Cons')
  next
    case val
    from "2.IH"(2) [OF val(1-6)] show ?thesis using val(3) by (auto simp: nth_Cons')
  next
    case pos
    from "2.IH"(3) [OF pos(1-4)] show ?thesis using pos(3,5) by (auto simp: nth_Cons')
  qed
qed simp

text \<open>An argument that is no positional is a permitted option, or the checked value of one.\<close>

definition option_at :: "string \<Rightarrow> string list \<Rightarrow> nat \<Rightarrow> bool" where
  "option_at command args k \<longleftrightarrow>
     (args ! k \<in> set booleanOptions \<union> set valueOptions \<and> allowedFor command (args ! k))
     \<or> (0 < k \<and> args ! (k - 1) \<in> set valueOptions \<and> validateOption command (args ! (k - 1)) (args ! k) = None)"

lemma option_at_shift: "option_at command args k \<Longrightarrow> option_at command (a # args) (Suc k)"
  by (cases k) (auto simp: option_at_def)

lemma validateOption_allowed: "validateOption command option v = None \<Longrightarrow> allowedFor command option"
  by (simp add: validateOption_def split: if_splits)

lemma scan_options:
  "scan_arguments command i args = Inr ps \<Longrightarrow> k < length args \<Longrightarrow> i + k \<notin> snd ` set ps \<Longrightarrow>
     option_at command args k"
proof (induction command i args arbitrary: ps k rule: scan_arguments.induct)
  case (2 command i arg rest)
  consider (bool) "arg \<in> set booleanOptions" "scan_arguments command (i + 1) rest = Inr ps"
      "validateOption command arg [] = None"
    | (val) x rest' where "arg \<notin> set booleanOptions" "arg \<in> set valueOptions" "rest = x # rest'"
        "\<not> HasPrefix x ''-''" "validateOption command arg x = None"
        "scan_arguments command (i + 2) rest' = Inr ps"
    | (pos) ps' where "arg \<notin> set booleanOptions" "arg \<notin> set valueOptions" "\<not> HasPrefix arg ''-''"
        "scan_arguments command (i + 1) rest = Inr ps'" "ps = (arg, i) # ps'"
    using "2.prems"(1) by (auto split: if_splits option.splits list.splits sum.splits)
  then show ?case
  proof cases
    case bool
    show ?thesis
    proof (cases k)
      case 0
      with bool show ?thesis by (simp add: option_at_def validateOption_allowed)
    next
      case (Suc j)
      with "2.IH"(1) [OF bool(1,3,2), of j] "2.prems"(2,3) show ?thesis by (simp add: option_at_shift)
    qed
  next
    case val
    consider "k = 0" | "k = 1" | j where "k = Suc (Suc j)" by (metis One_nat_def not0_implies_Suc)
    then show ?thesis
    proof cases
      case (3 j)
      with "2.IH"(2) [OF val(1-6), of j] "2.prems"(2,3) val(3) show ?thesis
        by (simp add: option_at_shift)
    qed (use val in \<open>simp_all add: option_at_def validateOption_allowed\<close>)
  next
    case pos
    show ?thesis
    proof (cases k)
      case 0
      with pos "2.prems"(3) show ?thesis by simp
    next
      case (Suc j)
      with "2.IH"(3) [OF pos(1-4), of j] "2.prems"(2,3) pos(5) show ?thesis by (simp add: option_at_shift)
    qed
  qed
qed simp

section \<open>Numbers and file names\<close>

lemma Atoi_foldl_ge: "n \<le> foldl (\<lambda>n c. 10 * n + (of_char c - 48)) (n :: nat) s"
proof (induction s arbitrary: n)
  case (Cons c s)
  have "n \<le> 10 * n + (of_char c - 48)" by simp
  also have "\<dots> \<le> foldl (\<lambda>n c. 10 * n + (of_char c - 48)) n (c # s)" using Cons by simp
  finally show ?case .
qed simp

lemma isPositiveInteger_bounds: "isPositiveInteger v m \<Longrightarrow> 1 \<le> Atoi v \<and> Atoi v \<le> m"
proof -
  assume p: "isPositiveInteger v m"
  then obtain r rest where rs: "map fst (runes v) = r # rest" "digit_rune r" "r \<noteq> 48" "list_all digit_rune rest"
    by (auto simp: isPositiveInteger_def positiveIntegerRE_def split: list.splits)
  then have "list_all (\<lambda>r. r < 0x80) (map fst (runes v))"
    by (auto simp: digit_rune_def list_all_iff)
  from runes_all_ascii [OF this] rs obtain c t where v: "v = c # t" "of_char c = r" by (cases v) auto
  have "1 \<le> (of_char c :: nat) - 48" using rs(2,3) v(2) unfolding digit_rune_def by linarith
  also have "\<dots> \<le> Atoi v" using Atoi_foldl_ge [of "of_char c - 48" t] v(1) by (simp add: Atoi_def)
  finally have "1 \<le> Atoi v" .
  with p show ?thesis by (simp add: isPositiveInteger_def)
qed

lemma image_suffix_runes: "suf \<in> set image_suffixes \<Longrightarrow> 47 \<notin> set suf \<and> 92 \<notin> set suf \<and> suf \<noteq> []"
  by (auto simp: image_suffixes_def bytes_of_def)

lemma image_name_runes:
  assumes "imageNamePattern f"
  shows "47 \<notin> fst ` set (runes f)" "92 \<notin> fst ` set (runes f)" "runes f \<noteq> []" "fold_alnum (fst (hd (runes f)))"
proof -
  let ?rs = "map fst (runes f)"
  obtain suf where suf: "suf \<in> set image_suffixes" "length suf \<le> length ?rs"
    "map ascii_lower (drop (length ?rs - length suf) ?rs) = suf" "image_stem (take (length ?rs - length suf) ?rs)"
    using assms unfolding imageNamePattern_def Let_def list_ex_iff by blast
  let ?a = "take (length ?rs - length suf) ?rs" and ?b = "drop (length ?rs - length suf) ?rs"
  have split: "?rs = ?a @ ?b" by simp
  have "47 \<notin> ascii_lower ` set ?b" "92 \<notin> ascii_lower ` set ?b"
    using image_suffix_runes [OF suf(1)] suf(3) by (metis list.set_map)+
  then have b: "47 \<notin> set ?b" "92 \<notin> set ?b" by (force simp: ascii_lower_def)+
  obtain r rest where a: "?a = r # rest" "fold_alnum r"
    "list_all (\<lambda>r. fold_alnum r \<or> r = 46 \<or> r = 95 \<or> r = 45) rest"
    using suf(4) by (auto simp: image_stem_def split: list.splits)
  then have "47 \<notin> set ?a" "92 \<notin> set ?a"
    by (auto simp: list_all_iff fold_alnum_def fold_letter_def)
  with b have "47 \<notin> set ?rs" "92 \<notin> set ?rs" by (metis Un_iff set_append split)+
  then show "47 \<notin> fst ` set (runes f)" "92 \<notin> fst ` set (runes f)" by simp_all
  show "runes f \<noteq> []" using a(1) by auto
  then have "hd ?rs = fst (hd (runes f))" by (simp add: hd_map)
  moreover have "hd ?rs = r" using a(1) by (metis append_Cons list.sel(1) split)
  ultimately show "fold_alnum (fst (hd (runes f)))" using a(2) by simp
qed

lemma image_name_safe:
  assumes "imageNamePattern f"
  shows "f \<noteq> [] \<and> CHR ''/'' \<notin> set f \<and> CHR 0x5C \<notin> set f \<and> hd f \<noteq> CHR ''.'' \<and> hd f \<noteq> CHR ''-''"
proof -
  note r = image_name_runes [OF assms]
  have ne: "f \<noteq> []" using r(3) by auto
  from r(1,2) ascii_byte_rune [of "CHR ''/''" f] ascii_byte_rune [of "CHR 0x5C" f]
  have "CHR ''/'' \<notin> set f" "CHR 0x5C \<notin> set f" by auto
  moreover from r(4) runes_hd [OF ne] have "hd f \<noteq> CHR ''.''" "hd f \<noteq> CHR ''-''"
    by (auto simp: fold_alnum_def fold_letter_def)
  ultimately show ?thesis using ne by blast
qed

lemma length_1: "length xs = Suc 0 \<longleftrightarrow> (\<exists>x. xs = [x])"
  by (cases xs) auto

lemma length_3: "length xs = 3 \<longleftrightarrow> (\<exists>x y z. xs = [x, y, z])"
  by (auto simp: numeral_eq_Suc length_Suc_conv)

section \<open>Properties\<close>

definition demo_url_parse :: url_parser where
  "demo_url_parse s = Some \<lparr>Scheme = ''https'', Hostname = ''example.org'', HasUser = False\<rparr>"

definition demo_request :: json where
  "demo_request = JObj [(''session'', JStr ''s1''), (''command'', JStr ''scroll''),
     (''args'', JArr [JStr ''--json'', JStr ''down'', JStr ''200''])]"

definition demo_accepted :: browserRequest where
  "demo_accepted = \<lparr>Session = ''s1'', Command = ''scroll'', Args = [''--json'', ''down'', ''200''],
     Positionals = [(''down'', 1), (''200'', 2)]\<rparr>"

lemma demo_arguments:
  "check_argument demo_url_parse (JStr ''--json'') = Inr ''--json''"
  "check_argument demo_url_parse (JStr ''down'') = Inr ''down''"
  "check_argument demo_url_parse (JStr ''200'') = Inr ''200''"
  by (simp_all add: check_argument_def rejectExecutableScheme_def lowered_def ascii_lower_def executable_schemes_def
      bytes_of_def urlSchemeRE_def fold_letter_def fold_alnum_def maxArgSize_def valid_utf8_def rune_error_def)

lemma demo_request_accepted: "validateBrowserRequest demo_url_parse demo_request = Inr demo_accepted"
proof -
  have "scan_arguments ''scroll'' 0 [''--json'', ''down'', ''200''] = Inr [(''down'', 1), (''200'', 2)]"
    by (simp add: booleanOptions_def valueOptions_def validateOption_def allowedFor_def commandOptions_def HasPrefix_def)
  then have args: "parseArguments demo_url_parse ''scroll'' [JStr ''--json'', JStr ''down'', JStr ''200'']
      = Inr ([''--json'', ''down'', ''200''], [(''down'', 1), (''200'', 2)])"
    by (simp add: parseArguments_def maxArgs_def demo_arguments)
  have "isPositiveInteger ''200'' 10000"
    by (simp add: isPositiveInteger_def positiveIntegerRE_def digit_rune_def Atoi_def)
  then have "validate_scroll [''down'', ''200''] = None"
    by (simp add: validate_scroll_def requireArity_def)
  then have "validatePositionals demo_url_parse ''scroll'' [(''down'', 1), (''200'', 2)] = None"
    by (simp add: validatePositionals_def Let_def)
  then have "validate_request demo_url_parse ''s1'' ''scroll'' [JStr ''--json'', JStr ''down'', JStr ''200''] = Inr demo_accepted"
    by (simp add: validate_request_def args demo_accepted_def)
  then show ?thesis
    by (simp add: validateBrowserRequest_def demo_request_def field_def sessionPattern_def word_rune_def allowedCommands_def)
qed



text \<open>The positional arguments of an accepted request are found in increasing order at the recorded
  indices of the argument vector and do not start with a hyphen; every other argument is an option
  permitted for the command or the checked value of one, so a timeout is between 1 and 30000.\<close>

theorem accepted_request_options:
  assumes "validateBrowserRequest parse body = Inr req"
  shows "sorted_wrt (<) (map snd (Positionals req))
    \<and> (\<forall>(v, j) \<in> set (Positionals req). j < length (Args req) \<and> Args req ! j = v \<and> \<not> HasPrefix v ''-'')
    \<and> (\<forall>k < length (Args req). k \<notin> snd ` set (Positionals req) \<longrightarrow>
         (Args req ! k \<in> set booleanOptions \<union> set valueOptions \<and> allowedFor (Command req) (Args req ! k))
         \<or> (0 < k \<and> Args req ! (k - 1) \<in> set valueOptions \<and> allowedFor (Command req) (Args req ! (k - 1))
            \<and> (Args req ! (k - 1) = ''--timeout'' \<longrightarrow> 1 \<le> Atoi (Args req ! k) \<and> Atoi (Args req ! k) \<le> 30000)
            \<and> (Args req ! (k - 1) = ''--depth'' \<longrightarrow> 1 \<le> Atoi (Args req ! k) \<and> Atoi (Args req ! k) \<le> 100)))"
proof -
  obtain raw where "validate_request parse (Session req) (Command req) raw = Inr req"
    using validateBrowserRequest_Inr [OF assms] by metis
  then have scan: "scan_arguments (Command req) 0 (Args req) = Inr (Positionals req)"
    using parseArguments_Inr(4) validate_request_Inr(3) by blast
  have checked: "allowedFor (Command req) x
      \<and> (x = ''--timeout'' \<longrightarrow> 1 \<le> Atoi v \<and> Atoi v \<le> 30000) \<and> (x = ''--depth'' \<longrightarrow> 1 \<le> Atoi v \<and> Atoi v \<le> 100)"
    if "validateOption (Command req) x v = None" for x v
    using that isPositiveInteger_bounds [of v]
    by (force simp: validateOption_def maxWaitMS_def split: if_splits)
  note opt = scan_options [OF scan, unfolded option_at_def add_0]
  have pos: "sorted_wrt (<) (map snd (Positionals req))"
    "\<forall>(v, j) \<in> set (Positionals req). j < length (Args req) \<and> Args req ! j = v \<and> \<not> HasPrefix v ''-''"
    using scan_positionals [OF scan] by simp_all
  show ?thesis using pos opt checked by blast
qed

theorem accepted_request_options_witness:
  "(case Positionals demo_accepted ! 1 of (v, j) \<Rightarrow> Args demo_accepted ! j = v) \<and> allowedFor ''scroll'' ''--json''"
proof -
  note t = accepted_request_options [OF demo_request_accepted]
  have "(''200'', 2) \<in> set (Positionals demo_accepted)" "0 \<notin> snd ` set (Positionals demo_accepted)"
    "0 < length (Args demo_accepted)" by (simp_all add: demo_accepted_def)
  with t have "Args demo_accepted ! 2 = ''200''" "allowedFor (Command demo_accepted) (Args demo_accepted ! 0)"
    by (fastforce, blast)
  then show ?thesis by (simp add: demo_accepted_def)
qed

text \<open>Every accepted operation is within its documented bounds: \<open>open\<close> has exactly one safe URL, a numeric
  \<open>wait\<close> is 1 to 30000 ms, a scroll distance 1 to 10000, a viewport 320-1920 by 240-1200, and a
  screenshot goes to a plain file name: no separator, no leading dot or hyphen.\<close>

theorem accepted_operation_bounds:
  assumes "validateBrowserRequest parse body = Inr req" "vs = map fst (Positionals req)"
  shows "(Command req = ''open'' \<longrightarrow> (\<exists>u. vs = [u] \<and> safeHTTPURL parse u))
    \<and> (Command req = ''wait'' \<longrightarrow> (\<exists>v. vs = [v] \<and> (integerRE v \<longrightarrow> 1 \<le> Atoi v \<and> Atoi v \<le> 30000)))
    \<and> (Command req = ''scroll'' \<longrightarrow> hd vs \<in> {''up'', ''down'', ''left'', ''right''} \<and>
         (length vs = 1 \<or> length vs = 2 \<and> 1 \<le> Atoi (vs ! 1) \<and> Atoi (vs ! 1) \<le> 10000))
    \<and> (Command req = ''set'' \<longrightarrow> (\<exists>w h. vs = [''viewport'', w, h] \<and> 320 \<le> Atoi w \<and> Atoi w \<le> 1920
         \<and> 240 \<le> Atoi h \<and> Atoi h \<le> 1200))
    \<and> (Command req = ''screenshot'' \<longrightarrow> (\<exists>f. vs = [f] \<and> screenshotFilename req = f \<and> f \<noteq> []
         \<and> CHR ''/'' \<notin> set f \<and> CHR 0x5C \<notin> set f \<and> hd f \<noteq> CHR ''.'' \<and> hd f \<noteq> CHR ''-''))"
proof -
  obtain raw where "validate_request parse (Session req) (Command req) raw = Inr req"
    using validateBrowserRequest_Inr [OF assms(1)] by metis
  note v = validate_request_Inr(4) [OF this]
  note checks = v [unfolded validatePositionals_def Let_def first_error_None, folded assms(2)]
  have "\<exists>u. vs = [u] \<and> safeHTTPURL parse u" if "Command req = ''open''"
    using checks that by (auto simp: length_1)
  moreover have "\<exists>v. vs = [v] \<and> (integerRE v \<longrightarrow> 1 \<le> Atoi v \<and> Atoi v \<le> 30000)" if "Command req = ''wait''"
    using checks that isPositiveInteger_bounds by (auto simp: length_1 maxWaitMS_def split: if_splits)
  moreover have "hd vs \<in> {''up'', ''down'', ''left'', ''right''}
      \<and> (length vs = 1 \<or> length vs = 2 \<and> 1 \<le> Atoi (vs ! 1) \<and> Atoi (vs ! 1) \<le> 10000)" if "Command req = ''scroll''"
  proof -
    have "validate_scroll vs = None" using checks that by simp
    then show ?thesis using isPositiveInteger_bounds [of "vs ! 1" 10000]
      by (cases vs) (auto simp: validate_scroll_def requireArity_def le_Suc_eq split: if_splits)
  qed
  moreover have "\<exists>w h. vs = [''viewport'', w, h] \<and> 320 \<le> Atoi w \<and> Atoi w \<le> 1920
      \<and> 240 \<le> Atoi h \<and> Atoi h \<le> 1200" if "Command req = ''set''"
  proof -
    have "validate_set vs = None" using checks that by simp
    then have "length vs = 3" "vs ! 0 = ''viewport''" "isPositiveInteger (vs ! 1) 1920" "isPositiveInteger (vs ! 2) 1200"
      "320 \<le> Atoi (vs ! 1)" "240 \<le> Atoi (vs ! 2)"
      unfolding validate_set_def by (simp_all split: if_splits)
    with isPositiveInteger_bounds show ?thesis by (auto simp: length_3)
  qed
  moreover have "\<exists>f. vs = [f] \<and> screenshotFilename req = f \<and> f \<noteq> [] \<and> CHR ''/'' \<notin> set f \<and> CHR 0x5C \<notin> set f
      \<and> hd f \<noteq> CHR ''.'' \<and> hd f \<noteq> CHR ''-''" if "Command req = ''screenshot''"
  proof -
    have "(if length vs \<noteq> 1 then Some OneFilename else reject_if (\<not> imageNamePattern (vs ! 0)) BadFilename) = None"
      using checks that by simp
    then obtain f where f: "vs = [f]" "imageNamePattern f" by (auto simp: length_1 split: if_splits)
    with that assms(2) have "screenshotFilename req = f" by (auto simp: screenshotFilename_def)
    with f image_name_safe [OF f(2)] show ?thesis by blast
  qed
  ultimately show ?thesis by blast
qed

theorem accepted_operation_bounds_witness:
  "Atoi (map fst (Positionals demo_accepted) ! 1) \<le> 10000"
  using accepted_operation_bounds [OF demo_request_accepted refl] by (simp add: demo_accepted_def)

end
