(* ===== verification/BrowserPanels.thy ===== *)
theory BrowserPanels
  imports BrowserPolicy Identity Persist
begin

text \<open>
  The browser panels of the controller: \<open>internal/controller/browser_panels.go\<close>, the journal of the
  sessions it owns (\<open>browser_panel_ownership.go\<close>) and the renewal of their leases
  (\<open>browser_panel_leases.go\<close>).

  A call to the browser service is made without the mutex: what comes before it and what comes after are
  separate functions, and its outcome is an argument. A retry timer is a flag; since a timer that was
  stopped may already have fired, \<open>retryClose\<close> is a step that may be taken at any time. Random draws are
  arguments. Durations are nanoseconds.
\<close>

record browserPanel =
  bp_clientKey :: string
  bp_projectID :: string
  bp_closing :: bool
  bp_retry :: bool
  bp_retryDelay :: int
  bp_orphan :: bool

record browserPanelOwnership =
  own_Version :: int
  own_IDs :: "string list"

record panel_store =
  ps_codec :: "browserPanelOwnership codec"
  ps_file :: path
  ps_temps :: "string \<times> string"

record browser_panels =
  bps_panels :: "(string \<times> browserPanel) list"
  bps_draining :: bool
  bps_store :: "panel_store option"
  bps_disk :: world

definition maxBrowserPanels :: nat where "maxBrowserPanels = 16"
definition maxBrowserPanelBody :: nat where "maxBrowserPanelBody = 512 * 1024"
definition maxBrowserPanelURLBytes :: nat where "maxBrowserPanelURLBytes = 2048"
definition maxBrowserPanelText :: nat where "maxBrowserPanelText = 8 * 1024"
definition maxBrowserPanelRequest :: nat where "maxBrowserPanelRequest = 16 * 1024"

datatype panel_error =
    PanelProject | PanelShutdown | PanelLimit | PanelUnavailable | PanelSearching
  | OwnershipUnsaved | OwnershipUnreadable
  | ActionMalformed | ActionURL | ActionRef | ActionText | ActionViewport | ActionUnsupported
  | CallUnavailable | CallInvalid | CallArtifact | CallRejected string | CallFailed nat

section \<open>Patterns and texts\<close>

definition browserPanelIDPattern :: "string \<Rightarrow> bool" where
  "browserPanelIDPattern s \<longleftrightarrow> take 2 s = ''b-'' \<and> hex_string 18 (drop 2 s)"

definition name_char :: "char \<Rightarrow> bool" where
  "name_char c \<longleftrightarrow> is_alnum c \<or> c = CHR ''_'' \<or> c = CHR ''-''"

definition browserSnapshotRef :: "string \<Rightarrow> bool" where
  "browserSnapshotRef s \<longleftrightarrow> (case s of [] \<Rightarrow> False
     | c # r \<Rightarrow> c = CHR ''@'' \<and> 1 \<le> length r \<and> length r \<le> 128 \<and> list_all name_char r)"

text \<open>\<open>^/v1/artifacts/[A-Za-z0-9_-]{1,38}/[A-Za-z0-9][A-Za-z0-9._-]{0,126}\.(?:png|jpe?g|webp)$\<close>\<close>

definition artifact_stem :: "string \<Rightarrow> bool" where
  "artifact_stem s \<longleftrightarrow> (case s of [] \<Rightarrow> False
     | c # r \<Rightarrow> is_alnum c \<and> length r \<le> 126 \<and> list_all (\<lambda>c. name_char c \<or> c = CHR ''.'') r)"

definition artifact_name :: "string \<Rightarrow> bool" where
  "artifact_name s \<longleftrightarrow>
     list_ex (\<lambda>suf. length suf \<le> length s \<and> drop (length s - length suf) s = suf
        \<and> artifact_stem (take (length s - length suf) s)) [''.png'', ''.jpg'', ''.jpeg'', ''.webp'']"

definition browserArtifactURLPath :: "string \<Rightarrow> bool" where
  "browserArtifactURLPath s \<longleftrightarrow>
     HasPrefix s ''/v1/artifacts/'' \<and>
     (let rest = drop (length ''/v1/artifacts/'') s;
          session = takeWhile (\<lambda>c. c \<noteq> CHR ''/'') rest
      in 1 \<le> length session \<and> length session \<le> 38 \<and> list_all name_char session
         \<and> take 1 (drop (length session) rest) = ''/''
         \<and> artifact_name (drop (length session + 1) rest))"

definition boundedText :: "string \<Rightarrow> nat \<Rightarrow> bool" where
  "boundedText value limit \<longleftrightarrow> valid_utf8 value \<and> length value \<le> limit \<and> \<not> containsNUL value"

definition allBoundedText :: "string list \<Rightarrow> nat \<Rightarrow> bool" where
  "allBoundedText values limit \<longleftrightarrow> list_all (\<lambda>value. boundedText value limit) values"

definition safeBrowserPanelURL :: "url_parser \<Rightarrow> string \<Rightarrow> bool" where
  "safeBrowserPanelURL parse value \<longleftrightarrow>
     (if \<not> boundedText value maxBrowserPanelURLBytes \<or> list_ex (\<lambda>(r, b). r \<le> 0x20 \<or> r = 0x7F) (runes value)
      then False
      else (case parse value of None \<Rightarrow> False
            | Some u \<Rightarrow> (Scheme u = ''http'' \<or> Scheme u = ''https'') \<and> Hostname u \<noteq> [] \<and> \<not> HasUser u))"

section \<open>The journal\<close>

fun owned_ids_ok :: "string set \<Rightarrow> string list \<Rightarrow> bool" where
  "owned_ids_ok seen [] = True"
| "owned_ids_ok seen (i # ids) = (browserPanelIDPattern i \<and> i \<notin> seen \<and> owned_ids_ok (insert i seen) ids)"

definition validateBrowserPanelOwnership :: "browserPanelOwnership \<Rightarrow> bool" where
  "validateBrowserPanelOwnership value \<longleftrightarrow>
     \<not> (own_Version value \<noteq> 1 \<or> length (own_IDs value) > maxBrowserPanels) \<and> owned_ids_ok {} (own_IDs value)"

definition saveOwnership :: "browser_panels \<Rightarrow> panel_error option \<times> browser_panels" where
  "saveOwnership s =
     (case bps_store s of
        None \<Rightarrow> (None, s)
      | Some st \<Rightarrow>
          (let ids = sort (map fst (bps_panels s));
               (ok, w) = Write (ps_codec st) validateBrowserPanelOwnership (ps_file st)
                 (fst (ps_temps st)) (snd (ps_temps st)) \<lparr>own_Version = 1, own_IDs = ids\<rparr> (bps_disk s)
           in (if ok then None else Some OwnershipUnsaved, s\<lparr>bps_disk := w\<rparr>)))"

definition NewBrowserPanels :: "world \<Rightarrow> browser_panels" where
  "NewBrowserPanels w = \<lparr>bps_panels = [], bps_draining = False, bps_store = None, bps_disk = w\<rparr>"

definition orphan_panel :: browserPanel where
  "orphan_panel = \<lparr>bp_clientKey = [], bp_projectID = [], bp_closing = False, bp_retry = False,
     bp_retryDelay = 0, bp_orphan = True\<rparr>"

fun put_orphans :: "string list \<Rightarrow> (string \<times> browserPanel) list \<Rightarrow> (string \<times> browserPanel) list" where
  "put_orphans [] m = m"
| "put_orphans (i # ids) m = put_orphans ids (put i orphan_panel m)"

definition NewPersistentBrowserPanels :: "panel_store \<Rightarrow> world \<Rightarrow> panel_error + browser_panels" where
  "NewPersistentBrowserPanels st w =
     (let (raw, w) = ReadFile (ps_file st) w;
          p = (NewBrowserPanels w)\<lparr>bps_store := Some st\<rparr>
      in case raw of
           NotExist \<Rightarrow> if get (files w) (backup_path (ps_file st)) = None then Inr p else Inl OwnershipUnreadable
         | ReadFailed \<Rightarrow> Inl OwnershipUnreadable
         | ReadBytes bytes m \<Rightarrow>
             (case Decode (ps_codec st) validateBrowserPanelOwnership bytes of
                None \<Rightarrow> Inl OwnershipUnreadable
              | Some ownership \<Rightarrow> Inr (p\<lparr>bps_panels := put_orphans (own_IDs ownership) (bps_panels p)\<rparr>)))"

section \<open>Opening\<close>

definition panel_id :: "8 word list \<Rightarrow> string" where
  "panel_id bytes = ''b-'' @ take 18 (filter (\<lambda>c. c \<noteq> CHR ''-'') (New bytes))"

text \<open>The loop that draws identifiers until one is not in use; with no draw left it is still searching.\<close>

fun fresh_panel :: "8 word list list \<Rightarrow> (string \<times> browserPanel) list \<Rightarrow> string option" where
  "fresh_panel [] panels = None"
| "fresh_panel (bytes # draws) panels =
     (if get panels (panel_id bytes) \<noteq> None then fresh_panel draws panels else Some (panel_id bytes))"

definition Open_panel :: "8 word list list \<Rightarrow> string \<Rightarrow> string \<Rightarrow> browser_panels \<Rightarrow> (panel_error + string) \<times> browser_panels" where
  "Open_panel draws client project s =
     (if project = [] \<or> length project > 128 \<or> containsNUL project then (Inl PanelProject, s)
      else if bps_draining s then (Inl PanelShutdown, s)
      else if length (bps_panels s) \<ge> maxBrowserPanels then (Inl PanelLimit, s)
      else
        (case fresh_panel draws (bps_panels s) of
           None \<Rightarrow> (Inl PanelSearching, s)
         | Some i \<Rightarrow>
             (let panel = \<lparr>bp_clientKey = client, bp_projectID = project, bp_closing = False, bp_retry = False,
                    bp_retryDelay = 0, bp_orphan = False\<rparr>;
                  (e, s) = saveOwnership (s\<lparr>bps_panels := put i panel (bps_panels s)\<rparr>)
              in case e of
                   Some err \<Rightarrow> (Inl err, s\<lparr>bps_panels := del i (bps_panels s)\<rparr>)
                 | None \<Rightarrow> (Inr i, s))))"

section \<open>Closing\<close>

definition owned :: "string \<Rightarrow> string \<Rightarrow> browser_panels \<Rightarrow> bool" where
  "owned client i s \<longleftrightarrow> browserPanelIDPattern i \<and>
     (case get (bps_panels s) i of
        None \<Rightarrow> False
      | Some p \<Rightarrow> \<not> bps_draining s \<and> \<not> bp_orphan p \<and> bp_clientKey p = client \<and> \<not> bp_closing p \<and> \<not> bp_retry p)"

text \<open>Whether a remote close is to be made, or an error.\<close>

definition beginClose :: "string \<Rightarrow> string \<Rightarrow> browser_panels \<Rightarrow> (panel_error + bool) \<times> browser_panels" where
  "beginClose client i s =
     (if \<not> browserPanelIDPattern i then (Inl PanelUnavailable, s)
      else
        (case get (bps_panels s) i of
           None \<Rightarrow> (Inr False, s)
         | Some p \<Rightarrow>
             if bp_orphan p \<or> bp_clientKey p \<noteq> client \<or> bp_closing p then (Inl PanelUnavailable, s)
             else (Inr True, s\<lparr>bps_panels := put i (p\<lparr>bp_retry := False, bp_closing := True\<rparr>) (bps_panels s)\<rparr>)))"

definition next_delay :: "int \<Rightarrow> int" where
  "next_delay d = min (30 * 1000000000) (max 1000000000 (d * 2))"

definition finishClose :: "string \<Rightarrow> bool \<Rightarrow> browser_panels \<Rightarrow> panel_error option \<times> browser_panels" where
  "finishClose i closed s =
     (case get (bps_panels s) i of
        None \<Rightarrow> (None, s)
      | Some p \<Rightarrow>
          (let (e, s) = (if closed then saveOwnership (s\<lparr>bps_panels := del i (bps_panels s)\<rparr>) else (None, s)) in
           if closed \<and> e = None then (None, s)
           else
             (let p = p\<lparr>bp_closing := False\<rparr>;
                  p = (if bps_draining s then p
                       else p\<lparr>bp_retryDelay := next_delay (bp_retryDelay p), bp_retry := True\<rparr>)
              in (e, s\<lparr>bps_panels := put i p (bps_panels s)\<rparr>))))"

text \<open>\<open>Close\<close> with the outcome of the remote call.\<close>

definition Close_panel :: "string \<Rightarrow> string \<Rightarrow> panel_error option \<Rightarrow> browser_panels \<Rightarrow> panel_error option \<times> browser_panels" where
  "Close_panel client i outcome s =
     (case beginClose client i s of
        (Inl e, s) \<Rightarrow> (Some e, s)
      | (Inr False, s) \<Rightarrow> (None, s)
      | (Inr True, s) \<Rightarrow>
          (case finishClose i (outcome = None) s of
             (e, s) \<Rightarrow> (if outcome \<noteq> None then outcome else e, s)))"

text \<open>The first critical section of \<open>closeMatching\<close>: the panels to close, now marked.\<close>

definition mark_closing :: "(browserPanel \<Rightarrow> bool) \<Rightarrow> browser_panels \<Rightarrow> string list \<times> browser_panels" where
  "mark_closing P s =
     (map fst (filter (\<lambda>(i, p). P p \<and> \<not> bp_closing p) (bps_panels s)),
      s\<lparr>bps_panels := map (\<lambda>(i, p). (i, if P p \<and> \<not> bp_closing p then p\<lparr>bp_closing := True\<rparr> else p)) (bps_panels s)\<rparr>)"

fun finish_each :: "(string \<Rightarrow> bool) \<Rightarrow> string list \<Rightarrow> browser_panels \<Rightarrow> browser_panels" where
  "finish_each closed [] s = s"
| "finish_each closed (i # ids) s = finish_each closed ids (snd (finishClose i (closed i) s))"

text \<open>\<open>closeMatching\<close> undisturbed: \<open>closed\<close> tells which remote closes succeed before the context ends.\<close>

definition closeMatching :: "(browserPanel \<Rightarrow> bool) \<Rightarrow> (string \<Rightarrow> bool) \<Rightarrow> browser_panels \<Rightarrow> browser_panels" where
  "closeMatching P closed s = (let (ids, s) = mark_closing P s in finish_each closed ids s)"

definition Release_panel_client :: "string \<Rightarrow> (string \<Rightarrow> bool) \<Rightarrow> browser_panels \<Rightarrow> browser_panels" where
  "Release_panel_client client closed s = closeMatching (\<lambda>p. bp_clientKey p = client) closed s"

definition ReleaseProject :: "string \<Rightarrow> (string \<Rightarrow> bool) \<Rightarrow> browser_panels \<Rightarrow> browser_panels" where
  "ReleaseProject project closed s = closeMatching (\<lambda>p. bp_projectID p = project) closed s"

definition begin_drain :: "browser_panels \<Rightarrow> browser_panels" where
  "begin_drain s = s\<lparr>bps_draining := True, bps_panels := map (\<lambda>(i, p). (i, p\<lparr>bp_retry := False\<rparr>)) (bps_panels s)\<rparr>"

definition CloseAll_panels :: "(string \<Rightarrow> bool) \<Rightarrow> browser_panels \<Rightarrow> browser_panels" where
  "CloseAll_panels closed s = closeMatching (\<lambda>p. True) closed (begin_drain s)"

definition ResumeCleanup :: "(string \<Rightarrow> bool) \<Rightarrow> browser_panels \<Rightarrow> browser_panels" where
  "ResumeCleanup closed s = closeMatching bp_orphan closed s"

text \<open>The timer of a failed close: whether to call, with the panel marked.\<close>

definition begin_retry :: "string \<Rightarrow> browser_panels \<Rightarrow> bool \<times> browser_panels" where
  "begin_retry i s =
     (case get (bps_panels s) i of
        None \<Rightarrow> (False, s)
      | Some p \<Rightarrow>
          if bps_draining s \<or> bp_closing p then (False, s)
          else (True, s\<lparr>bps_panels := put i (p\<lparr>bp_closing := True, bp_retry := False\<rparr>) (bps_panels s)\<rparr>))"

definition retryClose :: "string \<Rightarrow> bool \<Rightarrow> browser_panels \<Rightarrow> browser_panels" where
  "retryClose i closed s = (case begin_retry i s of (False, s) \<Rightarrow> s | (True, s) \<Rightarrow> snd (finishClose i closed s))"

text \<open>The sessions whose leases \<open>renewPanelLeases\<close> renews.\<close>

definition renewPanelLeases :: "browser_panels \<Rightarrow> string list" where
  "renewPanelLeases s =
     (if bps_draining s then []
      else map fst (filter (\<lambda>(i, p). \<not> bp_orphan p \<and> \<not> bp_closing p \<and> \<not> bp_retry p) (bps_panels s)))"

section \<open>Commands\<close>

definition int_field :: "(string \<times> json) list \<Rightarrow> string \<Rightarrow> int option" where
  "int_field m k = (case field m k of JInt i \<Rightarrow> Some i | _ \<Rightarrow> None)"

text \<open>\<open>browserPanelCommand\<close>; \<open>bytes\<close> are the random bytes of a screenshot's name.\<close>

definition browserPanelCommand :: "url_parser \<Rightarrow> 8 word list \<Rightarrow> json \<Rightarrow> panel_error + string \<times> string list" where
  "browserPanelCommand parse bytes value =
     (case as_object value of
        None \<Rightarrow> Inl ActionMalformed
      | Some action \<Rightarrow>
          if action = [] then Inl ActionMalformed
          else
            (case as_string (field action ''type'') of
               None \<Rightarrow> Inl ActionMalformed
             | Some typeName \<Rightarrow>
                 if typeName \<in> {''back'', ''forward'', ''reload'', ''snapshot''} then
                   (if length action \<noteq> 1 then Inl ActionMalformed else Inr (typeName, []))
                 else if typeName = ''screenshot'' then
                   (if length action \<noteq> 1 then Inl ActionMalformed
                    else Inr (''screenshot'', [''panel-'' @ New bytes @ ''.png'']))
                 else if typeName = ''open'' then
                   (case as_string (field action ''url'') of
                      None \<Rightarrow> Inl ActionURL
                    | Some url \<Rightarrow>
                        if length action \<noteq> 2 \<or> \<not> safeBrowserPanelURL parse url then Inl ActionURL
                        else Inr (''open'', [url]))
                 else if typeName = ''click'' then
                   (case as_string (field action ''ref'') of
                      None \<Rightarrow> Inl ActionRef
                    | Some ref \<Rightarrow>
                        if length action \<noteq> 2 \<or> \<not> browserSnapshotRef ref then Inl ActionRef
                        else Inr (''click'', [ref]))
                 else if typeName = ''fill'' then
                   (case (as_string (field action ''ref''), as_string (field action ''text'')) of
                      (Some ref, Some t) \<Rightarrow>
                        if length action \<noteq> 3 \<or> \<not> browserSnapshotRef ref \<or> \<not> boundedText t maxBrowserPanelText
                        then Inl ActionText else Inr (''fill'', [ref, t])
                    | _ \<Rightarrow> Inl ActionText)
                 else if typeName = ''viewport'' then
                   (case (int_field action ''width'', int_field action ''height'') of
                      (Some w, Some h) \<Rightarrow>
                        if length action \<noteq> 3 \<or> w < 320 \<or> w > 1920 \<or> h < 240 \<or> h > 1200 then Inl ActionViewport
                        else Inr (''set'', [''viewport'', decimal (nat w), decimal (nat h)])
                    | _ \<Rightarrow> Inl ActionViewport)
                 else Inl ActionUnsupported))"

section \<open>Calling the browser service\<close>

text \<open>The body \<open>call\<close> sends; a \<open>nil\<close> slice is \<open>null\<close>.\<close>

definition call_body :: "string \<Rightarrow> string \<Rightarrow> string list \<Rightarrow> json" where
  "call_body session command args =
     JObj [(''session'', JStr session), (''command'', JStr command),
           (''args'', if args = [] then JNull else JArr (map JStr args))]"

record browserPanelResult =
  pr_Output :: string
  pr_ScreenshotURL :: string

text \<open>What \<open>parseBrowserPanelResult\<close> and \<open>browserPanelFailure\<close> read of an answer.\<close>

record panel_answer =
  pa_Outcome :: string
  pa_Command :: string
  pa_Code :: int
  pa_Stdout :: string
  pa_Stderr :: string
  pa_Artifact :: "(string \<times> string) option"

record panel_decoders =
  decode_answer :: "string \<Rightarrow> panel_answer option"
  decode_failure :: "string \<Rightarrow> (string list \<times> string list) option"

definition parseBrowserPanelResult ::
  "panel_decoders \<Rightarrow> string \<Rightarrow> string \<Rightarrow> string \<Rightarrow> panel_error + browserPanelResult" where
  "parseBrowserPanelResult dec body session command =
     (case decode_answer dec body of
        None \<Rightarrow> Inl CallInvalid
      | Some r \<Rightarrow>
          if pa_Outcome r \<noteq> ''completed'' \<or> pa_Command r \<noteq> command \<or> pa_Code r \<noteq> 0
             \<or> \<not> boundedText (pa_Stdout r) maxBrowserPanelBody \<or> \<not> boundedText (pa_Stderr r) maxBrowserPanelBody
          then Inl CallInvalid
          else
            (let output = TrimSpace (TrimSpace (pa_Stdout r) @ [CHR 0x0A] @ TrimSpace (pa_Stderr r)) in
             case pa_Artifact r of
               None \<Rightarrow> Inr \<lparr>pr_Output = output, pr_ScreenshotURL = []\<rparr>
             | Some (owner, url) \<Rightarrow>
                 if owner \<noteq> session \<or> \<not> HasPrefix url (''/v1/artifacts/'' @ session @ ''/'')
                    \<or> \<not> browserArtifactURLPath url \<or> list_ex (\<lambda>c. c \<in> {CHR ''?'', CHR ''#'', CHR 0x5C}) url
                 then Inl CallArtifact
                 else Inr \<lparr>pr_Output = output, pr_ScreenshotURL = url\<rparr>))"

definition browserPanelFailure :: "panel_decoders \<Rightarrow> string \<Rightarrow> nat \<Rightarrow> panel_error" where
  "browserPanelFailure dec body status =
     (case decode_failure dec body of
        None \<Rightarrow> CallFailed status
      | Some (warnings, hints) \<Rightarrow>
          (let parts = warnings @ hints in
           if parts \<noteq> [] \<and> allBoundedText parts maxBrowserPanelText then CallRejected (join_with '' '' parts)
           else CallFailed status))"

text \<open>\<open>strongToken\<close> of \<open>auth.go\<close>.\<close>

definition strongToken :: "string \<Rightarrow> bool" where
  "strongToken value \<longleftrightarrow>
     \<not> (length value < 32 \<or> length value > 256 \<or> HasPrefix value ''INVALID_REPLACE_WITH_RANDOM_''
        \<or> HasPrefix value ''replace-with-a-random-'')
     \<and> list_all (\<lambda>c. \<not> ((of_char c :: nat) < 0x21 \<or> (of_char c :: nat) > 0x7E)) value"

text \<open>\<open>call\<close>; the request could not be made or sent, its answer could not be read, or a status and body.\<close>

datatype http_answer = NotSent | NotRead | Answered nat string

definition call ::
  "panel_decoders \<Rightarrow> bool \<times> string \<Rightarrow> http_answer \<Rightarrow> string \<Rightarrow> string \<Rightarrow> panel_error + browserPanelResult" where
  "call dec auth answer session command =
     (if fst auth \<and> \<not> strongToken (snd auth) then Inl PanelUnavailable
      else
        (case answer of
           NotSent \<Rightarrow> Inl CallUnavailable
         | NotRead \<Rightarrow> Inl CallInvalid
         | Answered status body \<Rightarrow>
             if length body > maxBrowserPanelBody then Inl CallInvalid
             else if status \<noteq> 200 then Inl (browserPanelFailure dec body status)
             else parseBrowserPanelResult dec body session command))"

text \<open>\<open>command\<close>: what is sent and what comes of it.\<close>

definition panel_command ::
  "url_parser \<Rightarrow> 8 word list \<Rightarrow> panel_decoders \<Rightarrow> bool \<times> string \<Rightarrow> (json \<Rightarrow> http_answer) \<Rightarrow>
     string \<Rightarrow> string \<Rightarrow> json \<Rightarrow> browser_panels \<Rightarrow> panel_error + browserPanelResult" where
  "panel_command parse bytes dec auth send client i action s =
     (if \<not> owned client i s then Inl PanelUnavailable
      else
        (case browserPanelCommand parse bytes action of
           Inl e \<Rightarrow> Inl e
         | Inr (command, args) \<Rightarrow> call dec auth (send (call_body i command args)) i command))"

section \<open>Requests of the client\<close>

text \<open>The decoders of the three panel requests, on the length of the raw text and its decoding.\<close>

definition decodeBrowserPanelOpen :: "nat \<Rightarrow> json option \<Rightarrow> string option" where
  "decodeBrowserPanelOpen len raw =
     (if len > maxBrowserPanelRequest then None
      else (case raw of
              Some (JObj object) \<Rightarrow>
                if length object \<noteq> 1 then None
                else (case as_string (field object ''projectId'') of
                        None \<Rightarrow> None | Some t \<Rightarrow> if t = [] then None else Some t)
            | _ \<Rightarrow> None))"

definition decodeBrowserPanelCommand :: "nat \<Rightarrow> json option \<Rightarrow> (string \<times> (string \<times> json) list) option" where
  "decodeBrowserPanelCommand len raw =
     (if len > maxBrowserPanelRequest then None
      else (case raw of
              Some (JObj object) \<Rightarrow>
                if length object \<noteq> 2 then None
                else (case (as_string (field object ''panelId''), as_object (field object ''action'')) of
                        (Some i, Some action) \<Rightarrow> if i = [] then None else Some (i, action)
                      | _ \<Rightarrow> None)
            | _ \<Rightarrow> None))"

definition decodeBrowserPanelClose :: "nat \<Rightarrow> json option \<Rightarrow> string option" where
  "decodeBrowserPanelClose len raw =
     (if len > 512 then None
      else (case raw of
              Some (JObj object) \<Rightarrow>
                if length object \<noteq> 1 then None
                else (case as_string (field object ''panelId'') of
                        None \<Rightarrow> None | Some t \<Rightarrow> if t = [] then None else Some t)
            | _ \<Rightarrow> None))"

end
