(* ===== verification/PanelJournal.thy ===== *)
theory PanelJournal
  imports BrowserPanels
begin

text \<open>
  The journal of the browser panels: what it holds at every moment, the critical sections of the panels as
  steps with crashes between and within them, and that no session handed out is lost from it.
\<close>

section \<open>What the journal holds\<close>

definition owned_ids :: "string list \<Rightarrow> browserPanelOwnership" where
  "owned_ids ids = \<lparr>own_Version = 1, own_IDs = ids\<rparr>"

definition own_now :: "panel_store \<Rightarrow> filesys \<Rightarrow> string list option" where
  "own_now st fs =
     map_option own_IDs (journal_now (ps_codec st) validateBrowserPanelOwnership (ps_file st) (owned_ids []) fs)"

definition own_write :: "panel_store \<Rightarrow> string list \<Rightarrow> world \<Rightarrow> bool \<times> world" where
  "own_write st ids w = Write (ps_codec st) validateBrowserPanelOwnership (ps_file st)
     (fst (ps_temps st)) (snd (ps_temps st)) (owned_ids ids) w"

interpretation panel_file: durable_store "own_now st" "own_write st" Some "\<lambda>ids. exact (ps_codec st) (owned_ids ids)" for st
  using durable_store_view [OF journal.durable_store_axioms,
      of "map_option own_IDs" "ps_codec st" validateBrowserPanelOwnership "ps_file st" "owned_ids []"
        "fst (ps_temps st)" "snd (ps_temps st)" owned_ids]
  by (simp add: own_now_def [abs_def] own_write_def [abs_def]) (simp add: owned_ids_def)

lemma saveOwnership_write:
  "bps_store s = Some st \<Longrightarrow> saveOwnership s =
     (case own_write st (sort (map fst (bps_panels s))) (bps_disk s) of
        (ok, w) \<Rightarrow> (if ok then None else Some OwnershipUnsaved, s\<lparr>bps_disk := w\<rparr>))"
  by (simp add: saveOwnership_def own_write_def owned_ids_def Let_def)

text \<open>Loading: the panels are those of the journal, each an orphan.\<close>

lemma keys_put_orphans: "keys (put_orphans ids m) = keys m \<union> set ids"
  by (induction ids arbitrary: m) auto

lemma get_put_orphans:
  "get (put_orphans ids m) i = (if i \<in> set ids then Some orphan_panel else get m i)"
  by (induction ids arbitrary: m) auto

lemma unique_put_orphans: "unique_keys m \<Longrightarrow> unique_keys (put_orphans ids m)"
  by (induction ids arbitrary: m) auto

lemma NewPersistent_panels:
  assumes "NewPersistentBrowserPanels st w = Inr s"
  obtains ids where "own_now st (files w) = Some ids" "bps_panels s = put_orphans ids []" "bps_store s = Some st"
    "files (bps_disk s) = files w" "bps_draining s = False"
proof -
  obtain raw w1 where r: "ReadFile (ps_file st) w = (raw, w1)" by force
  note fr = ReadFile_frame [OF r]
  show thesis
  proof (cases raw)
    case NotExist
    then have "get (files w) (backup_path (ps_file st)) = None" "s = (NewBrowserPanels w1)\<lparr>bps_store := Some st\<rparr>"
      using assms r fr by (auto simp: NewPersistentBrowserPanels_def split: if_splits)
    moreover have "read_now (ps_file st) (files w) = read_result.NotExist"
      using r NotExist by (auto dest: ReadFile_missing)
    ultimately show thesis
      using fr by (intro that [of "[]"])
        (simp_all add: own_now_def journal_now_def owned_ids_def NewBrowserPanels_def read_now_def)
  next
    case (ReadBytes bytes m)
    then obtain v where "Decode (ps_codec st) validateBrowserPanelOwnership bytes = Some v"
      "s = (NewBrowserPanels w1)\<lparr>bps_store := Some st, bps_panels := put_orphans (own_IDs v) []\<rparr>"
      using assms r by (auto simp: NewPersistentBrowserPanels_def NewBrowserPanels_def Let_def split: option.splits)
    moreover have "read_now (ps_file st) (files w) = read_result.ReadBytes bytes m"
      using r ReadBytes by (auto dest: ReadFile_now)
    ultimately show thesis
      using fr by (intro that [of "own_IDs v"]) (simp_all add: own_now_def journal_now_def NewBrowserPanels_def)
  qed (use assms r in \<open>simp add: NewPersistentBrowserPanels_def\<close>)
qed

lemma NewPersistent_calm:
  assumes "faults w = []" "own_now st (files w) = Some ids"
  shows "\<exists>s. NewPersistentBrowserPanels st w = Inr s"
proof (cases "read_now (ps_file st) (files w)")
  case NotExist
  with assms have "read_now (backup_path (ps_file st)) (files w) = read_result.NotExist"
    by (simp add: own_now_def journal_now_def split: if_splits)
  then have "get (files w) (backup_path (ps_file st)) = None" by (simp add: read_now_def split: option.splits if_splits)
  with NotExist assms(1) show ?thesis by (simp add: NewPersistentBrowserPanels_def ReadFile_no_faults)
qed (use assms in \<open>auto simp: NewPersistentBrowserPanels_def ReadFile_no_faults own_now_def journal_now_def\<close>)

section \<open>The life of the panels\<close>

definition quiet :: "browser_panels \<Rightarrow> browser_panels" where
  "quiet s = s\<lparr>bps_disk := (bps_disk s)\<lparr>trail := []\<rparr>\<rparr>"

text \<open>
  One critical section from a state with an empty trail, with the sessions in use before and after:
  an opened panel's session is in use until a close of it has succeeded.
\<close>

inductive panel_work :: "browser_panels \<Rightarrow> string set \<Rightarrow> browser_panels \<Rightarrow> string set \<Rightarrow> bool" where
  Opened: "Open_panel draws c p (quiet s) = (Inr i, s') \<Longrightarrow> panel_work s A s' (insert i A)"
| Refused: "Open_panel draws c p (quiet s) = (Inl e, s') \<Longrightarrow> panel_work s A s' A"
| CloseBegun: "panel_work s A (snd (beginClose c i (quiet s))) A"
| CloseFailed: "panel_work s A (snd (finishClose i False (quiet s))) A"
| CloseDone: "panel_work s A (snd (finishClose i True (quiet s))) (A - {i})"
| Marked: "panel_work s A (snd (mark_closing P (quiet s))) A"
| Drained: "panel_work s A (begin_drain (quiet s)) A"
| Retried: "panel_work s A (snd (begin_retry i (quiet s))) A"

text \<open>Work, and a crash in the middle of it followed by a start on what the disk held at that moment.\<close>

inductive panel_step :: "panel_store \<Rightarrow> browser_panels \<times> string set \<Rightarrow> browser_panels \<times> string set \<Rightarrow> bool"
  for st where
  Worked: "panel_work s A s' A' \<Longrightarrow> panel_step st (s, A) (s', A')"
| Crashed: "panel_work s A s' A' \<Longrightarrow> files w \<in> insert (files (bps_disk s')) (set (trail (bps_disk s'))) \<Longrightarrow>
     NewPersistentBrowserPanels st w = Inr s2 \<Longrightarrow> panel_step st (s, A) (s2, A \<inter> A')"

definition recorded_at :: "panel_store \<Rightarrow> string set \<Rightarrow> filesys \<Rightarrow> bool" where
  "recorded_at st A fs \<longleftrightarrow> (\<exists>ids. own_now st fs = Some ids \<and> A \<subseteq> set ids)"

definition panels_ok :: "panel_store \<Rightarrow> browser_panels \<times> string set \<Rightarrow> bool" where
  "panels_ok st = (\<lambda>(s, A). bps_store s = Some st \<and> A \<subseteq> keys (bps_panels s) \<and> recorded_at st A (files (bps_disk s)))"

lemma recorded_at_mono: "recorded_at st A fs \<Longrightarrow> B \<subseteq> A \<Longrightarrow> recorded_at st B fs"
  by (auto simp: recorded_at_def)

text \<open>Saving: every file system on the way records what both the old and the new panels contain.\<close>

lemma save_recorded:
  assumes ex: "\<forall>ids. exact (ps_codec st) (owned_ids ids)"
    and s: "bps_store s = Some st" "saveOwnership s = (e, s')"
    and old: "recorded_at st A (files (bps_disk s))" and new: "A \<subseteq> keys (bps_panels s)"
    and empty: "trail (bps_disk s) = []"
  shows "\<forall>fs \<in> insert (files (bps_disk s')) (set (trail (bps_disk s'))). recorded_at st A fs"
    "e = None \<Longrightarrow> own_now st (files (bps_disk s')) = Some (sort (map fst (bps_panels s)))"
    "bps_panels s' = bps_panels s" "bps_store s' = Some st" "bps_draining s' = bps_draining s"
proof -
  obtain ok w where w: "own_write st (sort (map fst (bps_panels s))) (bps_disk s) = (ok, w)" by force
  with s have s': "s' = s\<lparr>bps_disk := w\<rparr>" "e = (if ok then None else Some OwnershipUnsaved)"
    by (simp_all add: saveOwnership_write)
  have ex': "exact (ps_codec st) (owned_ids (sort (map fst (bps_panels s))))" using ex by blast
  have "recorded_at st A fs" if "own_now st fs = own_now st (files (bps_disk s))
      \<or> own_now st fs = Some (sort (map fst (bps_panels s)))" for fs
    using that old new by (auto simp: recorded_at_def)
  with panel_file.save_final [OF ex' w] panel_file.save_crash [OF ex' w empty]
  show "\<forall>fs \<in> insert (files (bps_disk s')) (set (trail (bps_disk s'))). recorded_at st A fs"
    by (auto simp: s')
  show "e = None \<Longrightarrow> own_now st (files (bps_disk s')) = Some (sort (map fst (bps_panels s)))"
    using panel_file.save_ok [OF ex', of "bps_disk s" w] w by (simp add: s' split: if_splits)
qed (use s in \<open>auto simp: saveOwnership_write split: prod.splits\<close>)

lemma quiet_fields [simp]:
  "bps_panels (quiet s) = bps_panels s" "bps_store (quiet s) = bps_store s" "bps_draining (quiet s) = bps_draining s"
  "files (bps_disk (quiet s)) = files (bps_disk s)" "trail (bps_disk (quiet s)) = []"
  by (simp_all add: quiet_def)

text \<open>A section that writes nothing and loses no panel.\<close>

lemma still_ok:
  assumes "panels_ok st (s, A)" "bps_store s' = bps_store s" "keys (bps_panels s) \<subseteq> keys (bps_panels s')"
    "bps_disk s' = bps_disk (quiet s)" "B \<subseteq> A"
  shows "panels_ok st (s', B) \<and> (\<forall>fs \<in> insert (files (bps_disk s')) (set (trail (bps_disk s'))). recorded_at st B fs)"
proof -
  have "recorded_at st B (files (bps_disk s))" using assms(1,5) by (auto simp: panels_ok_def intro: recorded_at_mono)
  moreover have "B \<subseteq> keys (bps_panels s')"
    using assms(1,3,5) by (simp add: panels_ok_def) (meson subset_trans)
  ultimately show ?thesis using assms(1,2,4) by (simp add: panels_ok_def)
qed

lemma finishClose_ok:
  assumes ex: "\<forall>ids. exact (ps_codec st) (owned_ids ids)" and ok: "panels_ok st (s, A)"
    and s': "s' = snd (finishClose i closed (quiet s))" and B: "B = (if closed then A - {i} else A)"
  shows "panels_ok st (s', B) \<and> (\<forall>fs \<in> insert (files (bps_disk s')) (set (trail (bps_disk s'))). recorded_at st B fs)"
proof (cases "get (bps_panels s) i")
  case None
  then have "s' = quiet s" by (simp add: s' finishClose_def)
  then show ?thesis by (intro still_ok [OF ok]) (auto simp: B)
next
  case (Some p)
  show ?thesis
  proof (cases closed)
    case False
    then show ?thesis
      by (intro still_ok [OF ok]) (use Some in \<open>auto simp: s' B finishClose_def Let_def\<close>)
  next
    case True
    let ?q = "quiet s\<lparr>bps_panels := del i (bps_panels s)\<rparr>"
    obtain e s1 where e: "saveOwnership ?q = (e, s1)" by force
    have B': "B = A - {i}" using B True by simp
    have "recorded_at st B (files (bps_disk ?q))" "B \<subseteq> keys (bps_panels ?q)" "bps_store ?q = Some st"
      "trail (bps_disk ?q) = []"
      using ok by (auto simp: panels_ok_def B' intro: recorded_at_mono)
    note saved = save_recorded [OF ex this(3) e this(1,2,4)]
    have "bps_disk s' = bps_disk s1 \<and> bps_store s' = bps_store s1 \<and> keys (bps_panels s1) \<subseteq> keys (bps_panels s')"
      using Some True e saved(3) by (auto simp: s' finishClose_def Let_def)
    with saved B' ok show ?thesis by (auto simp: panels_ok_def)
  qed
qed

lemma Open_ok:
  assumes ex: "\<forall>ids. exact (ps_codec st) (owned_ids ids)" and ok: "panels_ok st (s, A)"
    and opened: "Open_panel draws c p (quiet s) = (r, s')"
  shows "panels_ok st (s', case r of Inr i \<Rightarrow> insert i A | Inl e \<Rightarrow> A)
    \<and> (\<forall>fs \<in> insert (files (bps_disk s')) (set (trail (bps_disk s'))). recorded_at st A fs)"
proof (cases "s' = quiet s \<and> (\<exists>e. r = Inl e)")
  case True
  with ok still_ok [OF ok, of s' A] show ?thesis by auto
next
  case False
  then obtain i panel e s1 where i: "fresh_panel draws (bps_panels s) = Some i"
    and e: "saveOwnership (quiet s\<lparr>bps_panels := put i panel (bps_panels s)\<rparr>) = (e, s1)"
    and r: "r = (case e of None \<Rightarrow> Inr i | Some err \<Rightarrow> Inl err)"
    and s': "s' = (case e of None \<Rightarrow> s1 | Some err \<Rightarrow> s1\<lparr>bps_panels := del i (bps_panels s1)\<rparr>)"
    using opened by (auto simp: Open_panel_def Let_def split: if_splits option.splits prod.splits)
  let ?q = "quiet s\<lparr>bps_panels := put i panel (bps_panels s)\<rparr>"
  have fresh: "i \<notin> keys (bps_panels s)"
    using i by (induction draws) (auto simp: get_None_iff split: if_splits)
  have "recorded_at st A (files (bps_disk ?q))" "A \<subseteq> keys (bps_panels ?q)" "bps_store ?q = Some st"
    "trail (bps_disk ?q) = []"
    using ok by (auto simp: panels_ok_def)
  note saved = save_recorded [OF ex this(3) e this(1,2,4)]
  have A: "A \<subseteq> keys (bps_panels s)" using ok by (simp add: panels_ok_def)
  show ?thesis
  proof (cases e)
    case None
    have "recorded_at st (insert i A) (files (bps_disk s1))"
      using saved(2) [OF None] A by (auto simp: recorded_at_def)
    with None saved A show ?thesis by (auto simp: panels_ok_def r s')
  next
    case (Some err)
    with saved A fresh show ?thesis by (auto simp: panels_ok_def r s')
  qed
qed

lemma begin_store [simp]:
  "bps_store (snd (beginClose c i s)) = bps_store s" "bps_disk (snd (beginClose c i s)) = bps_disk s"
  "keys (bps_panels (snd (beginClose c i s))) \<supseteq> keys (bps_panels s)"
  "bps_store (snd (begin_retry i s)) = bps_store s" "bps_disk (snd (begin_retry i s)) = bps_disk s"
  "keys (bps_panels (snd (begin_retry i s))) \<supseteq> keys (bps_panels s)"
  "bps_store (snd (mark_closing P s)) = bps_store s" "bps_disk (snd (mark_closing P s)) = bps_disk s"
  "keys (bps_panels (snd (mark_closing P s))) = keys (bps_panels s)"
  "bps_store (begin_drain s) = bps_store s" "bps_disk (begin_drain s) = bps_disk s"
  "keys (bps_panels (begin_drain s)) = keys (bps_panels s)"
  by (auto simp: beginClose_def begin_retry_def mark_closing_def begin_drain_def image_image case_prod_beta
      split: option.splits)

lemma panel_work_ok:
  assumes "panel_work s A s' A'" and ex: "\<forall>ids. exact (ps_codec st) (owned_ids ids)" and ok: "panels_ok st (s, A)"
  shows "panels_ok st (s', A')
    \<and> (\<forall>fs \<in> insert (files (bps_disk s')) (set (trail (bps_disk s'))). recorded_at st (A \<inter> A') fs)"
  using assms(1)
proof cases
  case (Opened draws c p i)
  with Open_ok [OF ex ok, of draws c p "Inr i" s'] show ?thesis by (simp add: Int_absorb2 subset_insertI)
next
  case (Refused draws c p e)
  with Open_ok [OF ex ok, of draws c p "Inl e" s'] show ?thesis by simp
next
  case (CloseFailed i)
  with finishClose_ok [OF ex ok CloseFailed(1), of A] show ?thesis by simp
next
  case (CloseDone i)
  moreover have "A \<inter> (A - {i}) = A - {i}" by blast
  ultimately show ?thesis using finishClose_ok [OF ex ok CloseDone(1), of "A - {i}"] by simp
next
  case (CloseBegun c i)
  with still_ok [OF ok, of s' A] begin_store(3) [of "quiet s" c i] show ?thesis by simp
next
  case (Retried i)
  with still_ok [OF ok, of s' A] begin_store(6) [of "quiet s" i] show ?thesis by simp
qed (use still_ok [OF ok, of s' A] in \<open>simp_all\<close>)

lemma restart_ok:
  assumes "recorded_at st A (files w)" "NewPersistentBrowserPanels st w = Inr s"
  shows "panels_ok st (s, A)" "\<forall>i \<in> A. get (bps_panels s) i = Some orphan_panel"
proof -
  obtain ids where i: "own_now st (files w) = Some ids" "bps_panels s = put_orphans ids []" "bps_store s = Some st"
    "files (bps_disk s) = files w"
    using NewPersistent_panels [OF assms(2)] by metis
  with assms(1) show "panels_ok st (s, A)" "\<forall>i \<in> A. get (bps_panels s) i = Some orphan_panel"
    by (auto simp: panels_ok_def recorded_at_def keys_put_orphans get_put_orphans)
qed

lemma panel_step_ok:
  assumes "panel_step st c c'" "\<forall>ids. exact (ps_codec st) (owned_ids ids)" "panels_ok st c"
  shows "panels_ok st c'"
  using assms
proof (induction rule: panel_step.induct)
  case (Crashed s A s' A' w s2)
  with panel_work_ok [OF Crashed(1)] have "recorded_at st (A \<inter> A') (files w)" by blast
  then show ?case by (rule restart_ok [OF _ Crashed(3)])
qed (auto dest: panel_work_ok)

lemma panel_steps_ok:
  assumes "(panel_step st)\<^sup>*\<^sup>* c c'" "\<forall>ids. exact (ps_codec st) (owned_ids ids)" "panels_ok st c"
  shows "panels_ok st c'"
  using assms by (induction rule: rtranclp_induct) (auto intro: panel_step_ok)

lemma started_ok: "NewPersistentBrowserPanels st w = Inr s \<Longrightarrow> panels_ok st (s, {})"
  by (auto simp: panels_ok_def recorded_at_def elim!: NewPersistent_panels)

text \<open>C32: No browser session handed out is forgotten. Start the controller, let clients open and close
  panels in any order, let remote closes and writes of the journal fail, let timers fire, shut down, crash
  in the middle of any section and start again, any number of times: whenever the controller crashes, the
  journal on disk decodes and lists every session that was handed out and not yet closed, so that the next
  start succeeds when the disk can be read, and its clean-up closes each of them.\<close>

theorem no_panel_forgotten:
  assumes "\<forall>ids. exact (ps_codec st) (owned_ids ids)"
    and "NewPersistentBrowserPanels st w0 = Inr s0" "(panel_step st)\<^sup>*\<^sup>* (s0, {}) (s, A)"
    and "panel_work s A s' A'" "files w \<in> insert (files (bps_disk s')) (set (trail (bps_disk s')))"
  shows "(faults w = [] \<longrightarrow> (\<exists>s2. NewPersistentBrowserPanels st w = Inr s2))
    \<and> (\<forall>s2. NewPersistentBrowserPanels st w = Inr s2 \<longrightarrow>
         A \<inter> A' \<subseteq> set (fst (mark_closing bp_orphan s2))
       \<and> (\<forall>i c draws p. i \<in> A \<inter> A' \<longrightarrow> \<not> owned c i s2 \<and> fst (Open_panel draws c p s2) \<noteq> Inr i))"
proof -
  have ok: "panels_ok st (s, A)" by (rule panel_steps_ok [OF assms(3,1) started_ok [OF assms(2)]])
  then have rec: "recorded_at st (A \<inter> A') (files w)" using panel_work_ok [OF assms(4,1)] assms(5) by blast
  have "A \<inter> A' \<subseteq> set (fst (mark_closing bp_orphan s2)) \<and> (\<forall>i \<in> A \<inter> A'. get (bps_panels s2) i = Some orphan_panel)"
    if s2: "NewPersistentBrowserPanels st w = Inr s2" for s2
    using restart_ok(2) [OF rec s2]
    by (auto simp: mark_closing_def orphan_panel_def dest!: map_of_SomeD intro!: image_eqI)
  moreover have "fst (Open_panel draws c p s2) \<noteq> Inr i" if "get (bps_panels s2) i = Some orphan_panel" for i c p draws s2
  proof -
    have "fresh_panel draws (bps_panels s2) \<noteq> Some i"
      using that by (induction draws) auto
    then show ?thesis by (auto simp: Open_panel_def Let_def split: option.splits prod.splits)
  qed
  ultimately show ?thesis
    using NewPersistent_calm [of w st] rec by (auto simp: recorded_at_def owned_def orphan_panel_def)
qed

lemma panel_id_pattern:
  assumes "length bytes = 16"
  shows "browserPanelIDPattern (panel_id bytes)"
proof -
  have "hex_string 32 (EncodeToString (uuid_bytes bytes))"
    using Encode_hex [of "uuid_bytes bytes"] assms by (simp add: uuid_bytes_def)
  then show ?thesis
    by (auto simp: browserPanelIDPattern_def panel_id_def New_without_hyphens [OF assms] hex_string_def list_all_iff
        dest: in_set_takeD)
qed

definition demo_panel_id :: string where
  "demo_panel_id = panel_id (replicate 16 0)"

definition demo_panel_store :: panel_store where
  "demo_panel_store = \<lparr>ps_codec =
     \<lparr>marshal = (\<lambda>v. if v = owned_ids [] then Some ''0'' else if v = owned_ids [demo_panel_id] then Some ''1'' else None),
      unmarshal = (\<lambda>s. if s = ''0'' @ [newline] then Some (owned_ids [])
                     else if s = ''1'' @ [newline] then Some (owned_ids [demo_panel_id]) else None)\<rparr>,
     ps_file = demo_path, ps_temps = (''1'', ''2'')\<rparr>"

definition demo_panels :: browser_panels where
  "demo_panels = (NewBrowserPanels \<lparr>files = [], faults = [], trail = []\<rparr>)\<lparr>bps_store := Some demo_panel_store\<rparr>"

lemma demo_panel_exact: "exact (ps_codec demo_panel_store) (owned_ids ids)"
  by (simp add: exact_def demo_panel_store_def owned_ids_def newline_def)

lemma demo_started: "NewPersistentBrowserPanels demo_panel_store \<lparr>files = [], faults = [], trail = []\<rparr> = Inr demo_panels"
  by (simp add: NewPersistentBrowserPanels_def demo_panels_def ReadFile_no_faults read_now_def Let_def)

lemma demo_panel_valid: "validateBrowserPanelOwnership (owned_ids [demo_panel_id])"
  using panel_id_pattern [of "replicate 16 0"]
  by (simp add: validateBrowserPanelOwnership_def owned_ids_def maxBrowserPanels_def demo_panel_id_def)

lemma demo_open:
  "\<exists>s. Open_panel [replicate 16 0] ''c'' ''p'' (quiet demo_panels) = (Inr demo_panel_id, s)"
proof -
  let ?c = "ps_codec demo_panel_store"
  have m: "marshal ?c (owned_ids [demo_panel_id]) = Some ''1''" by (simp add: demo_panel_store_def owned_ids_def)
  have "Decode ?c validateBrowserPanelOwnership (''1'' @ [newline]) \<noteq> None"
    using demo_panel_valid by (simp add: Decode_def demo_panel_store_def)
  from Write_calm [OF _ m _ this, of "\<lparr>files = [], faults = [], trail = []\<rparr>" demo_path "''1''" "''2''"]
  obtain w where w: "Write ?c validateBrowserPanelOwnership demo_path ''1'' ''2'' (owned_ids [demo_panel_id])
      \<lparr>files = [], faults = [], trail = []\<rparr> = (True, w)" by (auto simp: maxJSONBytes_def)
  have q: "quiet demo_panels = demo_panels" by (simp add: quiet_def demo_panels_def NewBrowserPanels_def)
  show ?thesis
    unfolding q using w
    by (simp add: Open_panel_def saveOwnership_write own_write_def demo_panels_def NewBrowserPanels_def
        containsNUL_def maxBrowserPanels_def demo_panel_id_def Let_def demo_panel_store_def)
qed

theorem no_panel_forgotten_witness:
  "\<exists>s s2. Open_panel [replicate 16 0] ''c'' ''p'' (quiet demo_panels) = (Inr demo_panel_id, s)
     \<and> NewPersistentBrowserPanels demo_panel_store \<lparr>files = files (bps_disk s), faults = [], trail = []\<rparr> = Inr s2
     \<and> demo_panel_id \<in> set (fst (mark_closing bp_orphan s2))"
proof -
  obtain s where s: "Open_panel [replicate 16 0] ''c'' ''p'' (quiet demo_panels) = (Inr demo_panel_id, s)"
    using demo_open by blast
  let ?t = "snd (finishClose demo_panel_id False (quiet s))"
  let ?w = "\<lparr>files = files (bps_disk s), faults = [], trail = []\<rparr>"
  have steps: "(panel_step demo_panel_store)\<^sup>*\<^sup>* (demo_panels, {}) (s, {demo_panel_id})"
    by (intro r_into_rtranclp Worked Opened [OF s])
  have work: "panel_work s {demo_panel_id} ?t {demo_panel_id}" by (rule CloseFailed)
  have "files (bps_disk ?t) = files (bps_disk s)"
    by (simp add: finishClose_def Let_def split: option.splits)
  then have "files ?w \<in> insert (files (bps_disk ?t)) (set (trail (bps_disk ?t)))" by simp
  from no_panel_forgotten [OF _ demo_started steps work this] s show ?thesis
    by (fastforce simp: demo_panel_exact)
qed

end
