(* ===== verification/PanelCommands.thy ===== *)
theory PanelCommands
  imports PanelJournal
begin

text \<open>
  The commands of the browser panels against the policy of the browser service: the two components
  validate the same requests, one before sending and one on receipt.
\<close>

section \<open>Commands and the policy of the browser service\<close>

lemma ascii_fst_runes: "ascii s \<Longrightarrow> map fst (runes s) = bytes_of s"
  by (simp add: runes_of_ascii bytes_of_def comp_def)

lemma ascii_append [simp]: "ascii (s @ t) \<longleftrightarrow> ascii s \<and> ascii t"
  by (auto simp: ascii_def)

lemma ascii_Cons: "ascii (c # s) \<longleftrightarrow> (of_char c :: nat) < 0x80 \<and> ascii s"
  by (auto simp: ascii_def)

lemma name_char_ascii: "list_all name_char s \<Longrightarrow> ascii s"
  by (auto simp: ascii_def list_all_iff name_char_def is_alnum_def is_digit_def is_lower_def is_upper_def less_eq_char_def)

lemma hex_ascii: "list_all is_hex s \<Longrightarrow> ascii s"
  by (auto simp: ascii_def list_all_iff is_hex_def is_digit_def less_eq_char_def)

lemma hex_word: "is_hex c \<Longrightarrow> word_rune (of_char c)"
  by (auto simp: is_hex_def is_digit_def word_rune_def less_eq_char_def)

lemma panel_session:
  assumes "browserPanelIDPattern i"
  shows "sessionPattern i"
proof -
  have i: "i = ''b-'' @ drop 2 i" using assms append_take_drop_id [of 2 i] by (simp add: browserPanelIDPattern_def)
  then obtain h where h: "i = ''b-'' @ h" "length h = 18" "list_all is_hex h"
    using assms by (auto simp: browserPanelIDPattern_def hex_string_def)
  then have "ascii i" using hex_ascii by (simp add: ascii_Cons)
  from ascii_fst_runes [OF this] h show ?thesis
    by (auto simp: sessionPattern_def bytes_of_def list_all_iff word_rune_def [of 98] dest: hex_word)
qed

text \<open>An argument that does not look like an option or a URL with a scheme passes the argument checks.\<close>

definition plain_argument :: "url_parser \<Rightarrow> string \<Rightarrow> bool" where
  "plain_argument parse v \<longleftrightarrow> boundedText v maxArgSize \<and> \<not> HasPrefix v ''-'' \<and> rejectExecutableScheme parse v = None"

lemma check_plain:
  "boundedText v maxArgSize \<Longrightarrow> check_argument parse (JStr v) =
     (case rejectExecutableScheme parse v of Some e \<Rightarrow> Inl e | None \<Rightarrow> Inr v)"
  by (simp add: check_argument_def boundedText_def containsNUL_iff)

lemma check_plains:
  "\<forall>v \<in> set vs. plain_argument parse v \<Longrightarrow> check_arguments parse (map JStr vs) = Inr vs"
  by (induction vs) (simp_all add: check_plain plain_argument_def)

lemma options_dashed: "v \<in> set booleanOptions \<union> set valueOptions \<Longrightarrow> HasPrefix v ''-''"
  by (auto simp: booleanOptions_def valueOptions_def HasPrefix_def)

lemma scan_plains:
  "\<forall>v \<in> set vs. \<not> HasPrefix v ''-'' \<Longrightarrow> scan_arguments command i vs = Inr (zip vs [i..<i + length vs])"
proof (induction vs arbitrary: i)
  case (Cons v vs)
  have "v \<notin> set booleanOptions" "v \<notin> set valueOptions" using Cons.prems options_dashed [of v] by auto
  moreover have "zip (v # vs) [i..<i + length (v # vs)] = (v, i) # zip vs [Suc i..<Suc i + length vs]"
    by (simp add: upt_conv_Cons del: upt_Suc)
  ultimately show ?case using Cons.prems Cons.IH [of "Suc i"] by (simp del: upt_Suc)
qed simp

lemma admitted_plain:
  assumes "sessionPattern session" "command \<in> set allowedCommands" "\<forall>v \<in> set vs. plain_argument parse v"
    "length vs \<le> maxArgs"
  shows "validateBrowserRequest parse (call_body session command vs) =
    (case validatePositionals parse command (zip vs [0..<length vs]) of
       Some e \<Rightarrow> Inl e
     | None \<Rightarrow> Inr \<lparr>Session = session, Command = command, Args = vs, Positionals = zip vs [0..<length vs]\<rparr>)"
proof -
  have "parseArguments parse command (map JStr vs) = Inr (vs, zip vs [0..<length vs])"
    using assms(3,4) check_plains [OF assms(3)] scan_plains [of vs command 0]
    by (simp add: parseArguments_def plain_argument_def)
  with assms(1,2) show ?thesis
    by (cases "vs = []")
       (auto simp: validateBrowserRequest_def call_body_def field_def validate_request_def split: option.split)
qed

lemma executable_heads: "scheme \<in> set executable_schemes \<Longrightarrow> \<exists>x xs. bytes_of scheme = x # xs \<and> x \<in> {102, 100, 106, 97, 99}"
  by (auto simp: executable_schemes_def bytes_of_def)

lemma no_executable:
  assumes "lowered v = x # xs" "x \<notin> {102, 100, 106, 97, 99}"
  shows "rejectExecutableScheme parse v = (if urlSchemeRE v \<and> \<not> safeHTTPURL parse v then Some UnsafeURL else None)"
proof -
  have "take (length scheme) (lowered v) \<noteq> bytes_of scheme" if s: "scheme \<in> set executable_schemes" for scheme
  proof -
    obtain y ys where "bytes_of scheme = y # ys" "y \<in> {102, 100, 106, 97, 99}" using executable_heads [OF s] by blast
    moreover from this have "scheme \<noteq> []" by (auto simp: bytes_of_def)
    ultimately show ?thesis using assms by (cases scheme) auto
  qed
  then show ?thesis by (auto simp: rejectExecutableScheme_def list_ex_iff)
qed

lemma lowered_Cons: "(of_char c :: nat) < 0x80 \<Longrightarrow> lowered (c # s) = ascii_lower (of_char c) # lowered s"
  by (simp add: lowered_def)

lemma ref_plain: "browserSnapshotRef r \<Longrightarrow> plain_argument parse r"
proof -
  assume "browserSnapshotRef r"
  then obtain s where s: "r = CHR ''@'' # s" "length s \<le> 128" "list_all name_char s"
    by (auto simp: browserSnapshotRef_def split: list.splits)
  have "ascii r" using s name_char_ascii by (simp add: ascii_Cons)
  moreover have "\<not> containsNUL r"
    using s(1,3) by (auto simp: containsNUL_iff list_all_iff name_char_def is_alnum_def is_digit_def is_lower_def is_upper_def less_eq_char_def)
  moreover have "rejectExecutableScheme parse r = None"
    by (subst no_executable [of _ 64 "lowered s"]) (simp_all add: s(1) lowered_Cons ascii_lower_def urlSchemeRE_def fold_letter_def)
  ultimately show ?thesis using s ascii_valid_utf8 by (auto simp: plain_argument_def boundedText_def maxArgSize_def HasPrefix_def)
qed

text \<open>A word of letters, digits, dots and hyphens has no scheme.\<close>

lemma word_plain:
  assumes "v = c # s" "(of_char c :: nat) \<in> {48..57} \<union> {112, 118}" "length v \<le> maxArgSize"
    "list_all (\<lambda>c. is_alnum c \<or> c = CHR ''-'' \<or> c = CHR ''.'') s"
  shows "plain_argument parse v"
proof -
  have s: "ascii s" "CHR 0x00 \<notin> set s"
    using assms(4) by (auto simp: ascii_def list_all_iff is_alnum_def is_digit_def is_lower_def is_upper_def less_eq_char_def)
  have asc: "ascii v" using assms(1,2) s by (auto simp: ascii_Cons)
  have "list_all (\<lambda>r. fold_alnum r \<or> r = 43 \<or> r = 46 \<or> r = 45) (bytes_of s)"
    using assms(4) by (auto simp: bytes_of_def list_all_iff is_alnum_def is_digit_def is_lower_def is_upper_def less_eq_char_def
        fold_alnum_def fold_letter_def)
  then have drop: "dropWhile (\<lambda>r. fold_alnum r \<or> r = 43 \<or> r = 46 \<or> r = 45) (bytes_of s) = []"
    by (simp add: list_all_iff)
  have runes: "map fst (runes v) = of_char c # bytes_of s"
    using ascii_fst_runes [OF asc] assms(1) by (simp add: bytes_of_def)
  have "\<not> urlSchemeRE v" unfolding urlSchemeRE_def runes list.case drop by (simp add: bytes_of_def)
  moreover have "ascii_lower (of_char c) \<notin> {102, 100, 106, 97, 99}" "(of_char c :: nat) < 0x80"
    using assms(2) by (auto simp: ascii_lower_def)
  ultimately have "rejectExecutableScheme parse v = None"
    using no_executable [of v "ascii_lower (of_char c)" "lowered s" parse] assms(1) by (simp add: lowered_Cons)
  moreover have "c \<noteq> CHR ''-''" "c \<noteq> CHR 0x00" using assms(2) by auto
  ultimately show ?thesis
    using asc s assms(1,3) ascii_valid_utf8 by (auto simp: plain_argument_def boundedText_def HasPrefix_def containsNUL_iff)
qed

section \<open>Numbers and names\<close>

lemma Atoi_decimal: "Atoi (decimal n) = n"
  by (simp add: Atoi_def decimal_value)

lemma digit_byte: "is_digit c \<Longrightarrow> digit_rune (of_char c)"
  by (auto simp: is_digit_def digit_rune_def less_eq_char_def)

lemma decimal_positive:
  assumes "0 < n" "n < 10 ^ 9"
  shows "isPositiveInteger (decimal n) m \<longleftrightarrow> n \<le> m"
proof -
  obtain c s where c: "decimal n = c # s" using decimal_digits [of n] by (cases "decimal n") auto
  have "c \<noteq> CHR ''0''" using decimal_head [OF assms(1)] c by simp
  moreover have "length s \<le> 8" using decimal_length [OF assms(2)] c by simp
  moreover have "is_digit c" "list_all is_digit s" using decimal_digits [of n] c by auto
  moreover have "(of_char c :: nat) = 48 \<longleftrightarrow> c = CHR ''0''"
    by (auto intro: of_char_eqI)
  ultimately have "positiveIntegerRE (decimal n)"
    using ascii_fst_runes [OF decimal_ascii, of n] c
    by (auto simp: positiveIntegerRE_def bytes_of_def list_all_iff digit_byte)
  then show ?thesis by (simp add: isPositiveInteger_def Atoi_decimal)
qed

lemma command_cases:
  assumes "browserPanelCommand parse bytes action = Inr (command, args)"
  obtains (bare) "command \<in> {''back'', ''forward'', ''reload'', ''snapshot''}" "args = []"
  | (screenshot) "command = ''screenshot''" "args = [''panel-'' @ New bytes @ ''.png'']"
  | (navigate) url where "command = ''open''" "args = [url]" "safeBrowserPanelURL parse url"
  | (click) r where "command = ''click''" "args = [r]" "browserSnapshotRef r"
  | (fill) r t where "command = ''fill''" "args = [r, t]" "browserSnapshotRef r" "boundedText t maxBrowserPanelText"
  | (viewport) w h where "command = ''set''" "args = [''viewport'', decimal w, decimal h]"
      "320 \<le> w" "w \<le> 1920" "240 \<le> h" "h \<le> 1200"
proof -
  obtain m ty where m: "action = JObj m" "m \<noteq> []" "field m ''type'' = JStr ty"
    using assms by (auto simp: browserPanelCommand_def split: option.splits if_splits)
  note eq = assms [unfolded m(1) browserPanelCommand_def as_object.simps option.case m(3) as_string.simps if_not_P [OF m(2)]]
  consider "ty \<in> {''back'', ''forward'', ''reload'', ''snapshot''}" | "ty = ''screenshot''" | "ty = ''open''"
    | "ty = ''click''" | "ty = ''fill''" | "ty = ''viewport''"
    using eq by (auto split: if_splits)
  then show thesis
  proof cases
    case 1 with eq show thesis by (intro bare) (auto split: if_splits)
  next
    case 2 with eq show thesis by (intro screenshot) (auto split: if_splits)
  next
    case 3
    then have "\<exists>url. command = ''open'' \<and> args = [url] \<and> safeBrowserPanelURL parse url"
      using eq by (auto split: if_splits option.splits)
    then show thesis using navigate by blast
  next
    case 4
    then have "\<exists>r. command = ''click'' \<and> args = [r] \<and> browserSnapshotRef r"
      using eq by (auto split: if_splits option.splits)
    then show thesis using click by blast
  next
    case 5
    then have "\<exists>r t. command = ''fill'' \<and> args = [r, t] \<and> browserSnapshotRef r \<and> boundedText t maxBrowserPanelText"
      using eq by (auto split: if_splits option.splits)
    then show thesis using fill by blast
  next
    case 6
    then obtain w h where wh: "int_field m ''width'' = Some w" "int_field m ''height'' = Some h"
      using eq by (auto split: option.splits)
    with 6 eq have "320 \<le> w \<and> w \<le> 1920 \<and> 240 \<le> h \<and> h \<le> 1200 \<and> command = ''set''
        \<and> args = [''viewport'', decimal (nat w), decimal (nat h)]"
      by (auto split: if_splits)
    then show thesis by (intro viewport [of "nat w" "nat h"]) auto
  qed
qed

lemma safe_url_admitted:
  assumes "safeHTTPURL parse url" "boundedText url maxArgSize"
  shows "plain_argument parse url"
proof -
  obtain t where t: "url = CHR ''h'' # t" using assms(1) by (auto simp: safeHTTPURL_def HasPrefix_iff)
  then have "rejectExecutableScheme parse url = None"
    using no_executable [of url 104 "lowered t" parse] assms(1) by (simp add: lowered_Cons ascii_lower_def)
  with t assms(2) show ?thesis by (simp add: plain_argument_def HasPrefix_def)
qed

lemma safe_panel_url:
  assumes "safeBrowserPanelURL parse url"
  shows "safeHTTPURL parse url \<longleftrightarrow> HasPrefix url ''http://'' \<or> HasPrefix url ''https://''"
  using assms by (auto simp: safeBrowserPanelURL_def safeHTTPURL_def split: if_splits option.splits)

lemma positionals_bare:
  "command \<in> {''back'', ''forward'', ''reload'', ''snapshot'', ''close''} \<Longrightarrow> validatePositionals parse command [] = None"
  by (auto simp: validatePositionals_def requireArity_def Let_def)

lemma positionals_of:
  "safeHTTPURL parse url \<Longrightarrow> validatePositionals parse ''open'' [(url, 0)] = None"
  "imageNamePattern v \<Longrightarrow> validatePositionals parse ''screenshot'' [(v, 0)] = None"
  "validatePositionals parse ''click'' [(r, 0)] = None"
  "validatePositionals parse ''fill'' [(r, 0), (t, 1)] = None"
  by (simp_all add: validatePositionals_def requireArity_def Let_def)

lemma positionals_viewport:
  assumes "320 \<le> w" "w \<le> 1920" "240 \<le> h" "h \<le> 1200"
  shows "validatePositionals parse ''set'' [(''viewport'', 0), (decimal w, 1), (decimal h, 2)] = None"
proof -
  have "isPositiveInteger (decimal w) 1920" "isPositiveInteger (decimal h) 1200"
    using assms by (simp_all add: decimal_positive)
  with assms show ?thesis
    by (simp add: validatePositionals_def validate_set_def Atoi_decimal Let_def)
qed

lemma positionals_open:
  "validatePositionals parse ''open'' ps = None \<Longrightarrow> length ps = 1 \<and> safeHTTPURL parse (map fst ps ! 0)"
  by (simp add: validatePositionals_def Let_def)

lemma positionals_fill: "validatePositionals parse ''fill'' ps = None \<Longrightarrow> length ps = 2"
  by (simp add: validatePositionals_def Let_def requireArity_def split: if_splits)

lemma admitted_url:
  assumes "validateBrowserRequest parse (call_body i ''open'' [url]) = Inr r"
  shows "safeHTTPURL parse url"
proof -
  obtain ps where "parseArguments parse ''open'' [JStr url] = Inr ([url], ps)" "validatePositionals parse ''open'' ps = None"
    using assms by (auto simp: validateBrowserRequest_def call_body_def field_def validate_request_def parseArguments_def
        check_argument_def split: if_splits sum.splits option.splits)
  moreover from this have "ps = [] \<or> ps = [(url, 0)]"
    by (auto simp: parseArguments_def split: if_splits sum.splits option.splits)
  ultimately show ?thesis using positionals_open [of parse ps] by auto
qed

lemma admitted_text:
  assumes "validateBrowserRequest parse (call_body i ''fill'' [r, t]) = Inr q" "\<not> HasPrefix r ''-''"
  shows "\<not> HasPrefix t ''-'' \<and> rejectExecutableScheme parse t = None"
proof -
  obtain ps where "check_arguments parse [JStr r, JStr t] = Inr [r, t]" "scan_arguments ''fill'' 0 [r, t] = Inr ps"
    "validatePositionals parse ''fill'' ps = None"
    using assms by (auto simp: validateBrowserRequest_def call_body_def field_def validate_request_def parseArguments_def
        check_argument_def split: if_splits sum.splits option.splits)
  moreover from this have "length ps = 2" using positionals_fill by blast
  moreover have "r \<notin> set booleanOptions" "r \<notin> set valueOptions" using assms(2) options_dashed [of r] by auto
  ultimately show ?thesis
    using assms(2) by (auto simp: check_argument_def split: if_splits sum.splits option.splits)
qed

lemma New_chars: "length bytes = 16 \<Longrightarrow> list_all (\<lambda>c. is_hex c \<or> c = CHR ''-'') (New bytes) \<and> length (New bytes) = 36"
proof -
  assume l: "length bytes = 16"
  obtain a b c d e where e: "EncodeToString (uuid_bytes bytes) = a @ b @ c @ d @ e"
    "New bytes = a @ ''-'' @ b @ ''-'' @ c @ ''-'' @ d @ ''-'' @ e"
    "length a = 8" "length b = 4" "length c = 4" "length d = 4" "length e = 12" using New_groups [OF l] by metis
  have "list_all is_hex (a @ b @ c @ d @ e)" using Encode_hex [of "uuid_bytes bytes"] by (simp add: hex_string_def e(1))
  with e show ?thesis by (auto simp: list_all_iff)
qed

lemma hex_alnum: "is_hex c \<Longrightarrow> is_alnum c"
  by (auto simp: is_hex_def is_alnum_def is_lower_def less_eq_char_def)

lemma hex_fold: "is_hex c \<Longrightarrow> fold_alnum (of_char c)"
  by (auto simp: is_hex_def is_digit_def fold_alnum_def fold_letter_def less_eq_char_def)

lemma png_name:
  assumes "map fst (runes v) = stem @ bytes_of ''.png''" "image_stem stem"
  shows "imageNamePattern v"
proof -
  have "bytes_of ''.png'' \<in> set image_suffixes" by (simp add: image_suffixes_def)
  moreover have "map ascii_lower (bytes_of ''.png'') = bytes_of ''.png''" by (simp add: bytes_of_def ascii_lower_def)
  ultimately show ?thesis
    using assms(2) unfolding imageNamePattern_def assms(1) Let_def list_ex_iff
    by (intro bexI [of _ "bytes_of ''.png''"]) simp_all
qed

lemma screenshot_name:
  assumes "length bytes = 16"
  shows "imageNamePattern (''panel-'' @ New bytes @ ''.png'')" "plain_argument parse (''panel-'' @ New bytes @ ''.png'')"
proof -
  note n = New_chars [OF assms]
  have asc: "ascii (New bytes)" using n by (auto simp: ascii_def list_all_iff is_hex_def is_digit_def less_eq_char_def)
  then have "ascii (''panel-'' @ New bytes @ ''.png'')" by (simp add: ascii_Cons) (simp add: ascii_def)
  from ascii_fst_runes [OF this] have r: "map fst (runes (''panel-'' @ New bytes @ ''.png'')) =
      bytes_of ''panel-'' @ bytes_of (New bytes) @ bytes_of ''.png''" by (simp add: bytes_of_def)
  have "list_all (\<lambda>r. fold_alnum r \<or> r = 45) (bytes_of (New bytes))" using n by (auto simp: bytes_of_def list_all_iff hex_fold)
  then have "image_stem (bytes_of ''panel-'' @ bytes_of (New bytes))"
    using n by (auto simp: image_stem_def bytes_of_def list_all_iff fold_alnum_def fold_letter_def)
  moreover have "length (bytes_of (New bytes)) = 36" using n by (simp add: bytes_of_def)
  ultimately show "imageNamePattern (''panel-'' @ New bytes @ ''.png'')"
    by (intro png_name [of _ "bytes_of ''panel-'' @ bytes_of (New bytes)"]) (unfold r append_assoc, rule refl)
  show "plain_argument parse (''panel-'' @ New bytes @ ''.png'')"
    by (rule word_plain [of _ "CHR ''p''" "''anel-'' @ New bytes @ ''.png''"])
      (use n in \<open>auto simp: maxArgSize_def list_all_iff hex_alnum is_alnum_def [of "CHR ''a''"] is_alnum_def [of "CHR ''n''"]
        is_alnum_def [of "CHR ''e''"] is_alnum_def [of "CHR ''l''"] is_alnum_def [of "CHR ''p''"] is_alnum_def [of "CHR ''g''"]
        is_lower_def less_eq_char_def\<close>)
qed

lemma decimal_plain: "n < 10 ^ 9 \<Longrightarrow> plain_argument parse (decimal n)"
proof -
  assume n: "n < 10 ^ 9"
  obtain c s where c: "decimal n = c # s" using decimal_digits [of n] by (cases "decimal n") auto
  have "length (decimal n) \<le> 9" by (rule decimal_length [OF n]) simp
  moreover have "is_digit c" "list_all is_digit s" using decimal_digits [of n] c by auto
  ultimately show ?thesis
    by (intro word_plain [OF c]) (auto simp: maxArgSize_def list_all_iff is_alnum_def is_digit_def less_eq_char_def)
qed

lemma viewport_plain: "plain_argument parse ''viewport''"
  by (rule word_plain [of _ "CHR ''v''" "''iewport''"]) (auto simp: maxArgSize_def is_alnum_def is_lower_def less_eq_char_def)

text \<open>An admitted command, with its arguments and the positionals the policy finds.\<close>

definition accepted :: "url_parser \<Rightarrow> string \<Rightarrow> string \<Rightarrow> string list \<Rightarrow> bool" where
  "accepted parse i command args \<longleftrightarrow>
     (\<exists>ps. validateBrowserRequest parse (call_body i command args) =
        Inr \<lparr>Session = i, Command = command, Args = args, Positionals = ps\<rparr>)"

lemma acceptedI:
  assumes "browserPanelIDPattern i" "command \<in> set allowedCommands" "\<forall>v \<in> set args. plain_argument parse v"
    "length args \<le> 64" "validatePositionals parse command (zip args [0..<length args]) = None"
  shows "accepted parse i command args"
  using admitted_plain [OF panel_session [OF assms(1)] assms(2,3)] assms(4,5) by (simp add: accepted_def maxArgs_def)

lemma accepted_bare:
  assumes "browserPanelIDPattern i" "command \<in> {''back'', ''forward'', ''reload'', ''snapshot'', ''close''}"
  shows "accepted parse i command []"
  using assms(2) positionals_bare [OF assms(2)] by (intro acceptedI [OF assms(1)]) (auto simp: allowedCommands_def)

lemma accepted_open:
  assumes "browserPanelIDPattern i" "safeBrowserPanelURL parse url"
  shows "accepted parse i ''open'' [url] \<longleftrightarrow> HasPrefix url ''http://'' \<or> HasPrefix url ''https://''"
proof -
  have "boundedText url maxArgSize"
    using assms(2) by (auto simp: safeBrowserPanelURL_def boundedText_def maxBrowserPanelURLBytes_def
        maxArgSize_def split: if_splits)
  then have "accepted parse i ''open'' [url]" if "safeHTTPURL parse url"
    using safe_url_admitted [OF that] that
    by (intro acceptedI [OF assms(1)]) (simp_all add: allowedCommands_def positionals_of)
  with safe_panel_url [OF assms(2)] admitted_url [of parse i url] show ?thesis by (auto simp: accepted_def)
qed

lemma accepted_fill:
  assumes "browserPanelIDPattern i" "browserSnapshotRef r" "boundedText t maxBrowserPanelText"
  shows "accepted parse i ''fill'' [r, t] \<longleftrightarrow> \<not> HasPrefix t ''-'' \<and> rejectExecutableScheme parse t = None"
proof -
  have r: "plain_argument parse r" by (rule ref_plain [OF assms(2)])
  have "accepted parse i ''fill'' [r, t]" if "\<not> HasPrefix t ''-''" "rejectExecutableScheme parse t = None"
    using r assms(3) that positionals_of(4) [of parse r t]
    by (intro acceptedI [OF assms(1)])
      (simp_all add: allowedCommands_def plain_argument_def boundedText_def maxBrowserPanelText_def maxArgSize_def upt_rec)
  moreover have "\<not> HasPrefix r ''-''" using r by (simp add: plain_argument_def)
  ultimately show ?thesis using admitted_text [of parse i r t] by (auto simp: accepted_def)
qed

lemma accepted_viewport:
  assumes "browserPanelIDPattern i" "320 \<le> w" "w \<le> 1920" "240 \<le> h" "h \<le> 1200"
  shows "accepted parse i ''set'' [''viewport'', decimal w, decimal h]"
  using viewport_plain [of parse] decimal_plain [of w parse] decimal_plain [of h parse] assms
    positionals_viewport [OF assms(2-), of parse]
  by (intro acceptedI [OF assms(1)]) (simp_all add: allowedCommands_def upt_rec numeral_2_eq_2)

lemma accepted_screenshot:
  assumes "browserPanelIDPattern i" "length bytes = 16"
  shows "accepted parse i ''screenshot'' [''panel-'' @ New bytes @ ''.png'']"
  using screenshot_name [OF assms(2)]
  by (intro acceptedI [OF assms(1)]) (simp_all add: allowedCommands_def positionals_of)

text \<open>C33: The controller asks the browser service for nothing it refuses, but for two kinds of request. Every
  command built from a client's action is admitted by the service's policy as it is (with the session, the
  command and exactly its arguments), except a URL whose scheme is not written in lower case, and a text to
  fill in that begins with a hyphen or has the form of a URL the policy forbids; those are refused. Closing
  a panel is always admitted.\<close>

theorem panel_command_admitted:
  assumes "browserPanelIDPattern i" "length bytes = 16"
    and "browserPanelCommand parse bytes action = Inr (command, args)"
  shows "((\<exists>ps. validateBrowserRequest parse (call_body i command args) =
             Inr \<lparr>Session = i, Command = command, Args = args, Positionals = ps\<rparr>)
       \<longleftrightarrow> (command = ''open'' \<longrightarrow> HasPrefix (args ! 0) ''http://'' \<or> HasPrefix (args ! 0) ''https://'')
         \<and> (command = ''fill'' \<longrightarrow> \<not> HasPrefix (args ! 1) ''-'' \<and> rejectExecutableScheme parse (args ! 1) = None))
    \<and> (\<exists>ps. validateBrowserRequest parse (call_body i ''close'' []) =
             Inr \<lparr>Session = i, Command = ''close'', Args = [], Positionals = ps\<rparr>)"
  unfolding accepted_def [symmetric]
proof
  show "accepted parse i ''close'' []" by (rule accepted_bare [OF assms(1)]) simp
  note acc = accepted_bare [OF assms(1), of _ parse] accepted_open [OF assms(1), of parse] accepted_fill [OF assms(1), of _ _ parse]
    accepted_viewport [OF assms(1), of _ _ parse] accepted_screenshot [OF assms(1,2), of parse]
  from assms(3) show "accepted parse i command args \<longleftrightarrow>
      (command = ''open'' \<longrightarrow> HasPrefix (args ! 0) ''http://'' \<or> HasPrefix (args ! 0) ''https://'')
      \<and> (command = ''fill'' \<longrightarrow> \<not> HasPrefix (args ! 1) ''-'' \<and> rejectExecutableScheme parse (args ! 1) = None)"
  proof (cases rule: command_cases)
    case bare
    then have "command \<noteq> ''open''" "command \<noteq> ''fill''" by auto
    moreover have "accepted parse i command args"
      unfolding bare(2) using bare(1) by (intro acc(1)) (elim insertE emptyE; simp)
    ultimately show ?thesis by simp
  next
    case screenshot
    with acc(5) show ?thesis by simp
  next
    case (navigate url)
    with acc(2) [of url] show ?thesis by simp
  next
    case (fill r t)
    with acc(3) [of r t] show ?thesis by simp
  next
    case (viewport w h)
    with acc(4) [of w h] show ?thesis by simp
  next
    case (click r)
    have "accepted parse i ''click'' [r]"
      using ref_plain [OF click(3), of parse]
      by (intro acceptedI [OF assms(1)]) (simp_all add: allowedCommands_def positionals_of)
    with click show ?thesis by simp
  qed
qed

definition demo_dash_fill :: json where
  "demo_dash_fill = JObj [(''type'', JStr ''fill''), (''ref'', JStr ''@e1''), (''text'', JStr ''-5'')]"

text \<open>Filling in a negative number passes the controller and is refused by the service.\<close>

lemma panel_command_admitted_witness:
  "browserPanelCommand (\<lambda>_. None) (replicate 16 0) demo_dash_fill = Inr (''fill'', [''@e1'', ''-5''])
   \<and> (\<nexists>ps. validateBrowserRequest (\<lambda>_. None) (call_body (panel_id (replicate 16 0)) ''fill'' [''@e1'', ''-5'']) =
        Inr \<lparr>Session = panel_id (replicate 16 0), Command = ''fill'', Args = [''@e1'', ''-5''], Positionals = ps\<rparr>)"
proof -
  have "valid_utf8 ''-5''" by (rule ascii_valid_utf8) (simp add: ascii_def)
  then have b: "browserPanelCommand (\<lambda>_. None) (replicate 16 0) demo_dash_fill = Inr (''fill'', [''@e1'', ''-5''])"
    by (simp add: browserPanelCommand_def demo_dash_fill_def field_def browserSnapshotRef_def boundedText_def
        containsNUL_iff maxBrowserPanelText_def name_char_def is_alnum_def is_lower_def is_digit_def less_eq_char_def)
  from panel_command_admitted [OF panel_id_pattern [of "replicate 16 0"] _ b] b show ?thesis
    by (simp add: HasPrefix_def)
qed

end
