(* ===== verification/Replay.thy ===== *)
theory Replay
  imports Prelude
begin

text \<open>
  The replay cache of \<open>internal/controller/replay.go\<close>: a retried request of a client returns the
  result of its first execution.

  \<open>Run\<close> has two critical sections around the call of \<open>execute\<close>, modelled as \<open>run_begin\<close> and
  \<open>run_finish\<close>; what other goroutines do in between is any sequence of the operations
  (\<open>cache_step\<close>). A \<open>*replayResult\<close> is an index into \<open>results\<close>: the entry and every waiter hold
  the same cell, so dropping it from the entry does not take it from the waiters.
  \<open>Acknowledge\<close>, \<open>Retain\<close> and \<open>ClearClient\<close> are one critical section each.
\<close>

type_synonym client = string
type_synonym request_id = string

record replay_result =
  res_done :: bool
  res_value :: string
  res_err :: "string option"

record replay_entry =
  fingerprint :: string
  result :: "nat option"
  settled :: bool
  weight :: nat

record replay_namespace =
  requests :: "(request_id \<times> replay_entry) list"
  ns_weight :: int

record replay_cache =
  results :: "replay_result list"
  clients :: "(client \<times> replay_namespace) list"
  maxRequests :: nat
  maxWeight :: int

definition NewReplayCache :: replay_cache where
  "NewReplayCache = \<lparr>results = [], clients = [], maxRequests = 512, maxWeight = 16 * 1024 * 1024\<rparr>"

definition empty_namespace :: replay_namespace where
  "empty_namespace = \<lparr>requests = [], ns_weight = 0\<rparr>"

datatype replay_error = Reused request_id | Exceeded request_id | Full client

datatype run_step =
    RunError replay_error
  | RunWait nat
  | RunExecute nat

text \<open>\<open>Run\<close> up to the first unlock: refuse, wait for the shared result, or execute.\<close>

definition run_begin ::
  "replay_cache \<Rightarrow> client \<Rightarrow> request_id \<Rightarrow> string \<Rightarrow> run_step \<times> replay_cache" where
  "run_begin c client id' fp =
     (let ns = (case get (clients c) client of None \<Rightarrow> empty_namespace | Some ns \<Rightarrow> ns);
          c1 = (case get (clients c) client of
                  None \<Rightarrow> c\<lparr>clients := put client ns (clients c)\<rparr>
                | Some _ \<Rightarrow> c)
      in case get (requests ns) id' of
           Some existing \<Rightarrow>
             if fingerprint existing \<noteq> fp then (RunError (Reused id'), c1)
             else (case result existing of
                     None \<Rightarrow> (RunError (Exceeded id'), c1)
                   | Some ref \<Rightarrow> (RunWait ref, c1))
         | None \<Rightarrow>
             if maxRequests c \<le> length (requests ns) then (RunError (Full client), c1)
             else
               (let ref = length (results c);
                    entry = \<lparr>fingerprint = fp, result = Some ref, settled = False, weight = 0\<rparr>
                in (RunExecute ref,
                    c1\<lparr>results := results c @ [\<lparr>res_done = False, res_value = [], res_err = None\<rparr>],
                       clients := put client (ns\<lparr>requests := put id' entry (requests ns)\<rparr>) (clients c1)\<rparr>)))"

text \<open>A waiter returns once the shared result is closed (its context may end the wait before).\<close>

definition run_wait :: "replay_cache \<Rightarrow> nat \<Rightarrow> (string \<times> string option) option" where
  "run_wait c ref =
     (let r = results c ! ref in if res_done r then Some (res_value r, res_err r) else None)"

text \<open>\<open>Run\<close> after \<open>execute\<close> returned \<open>value, err\<close>.\<close>

definition settle_entry :: "int \<Rightarrow> nat \<Rightarrow> replay_namespace \<Rightarrow> request_id \<Rightarrow> replay_entry \<Rightarrow> replay_namespace" where
  "settle_entry limit w ns id' entry =
     (if ns_weight ns + int w > limit
      then ns\<lparr>requests := put id' (entry\<lparr>settled := True, result := None\<rparr>) (requests ns)\<rparr>
      else ns\<lparr>requests := put id' (entry\<lparr>settled := True, weight := w\<rparr>) (requests ns),
             ns_weight := ns_weight ns + int w\<rparr>)"

definition run_finish ::
  "replay_cache \<Rightarrow> client \<Rightarrow> request_id \<Rightarrow> nat \<Rightarrow> string \<Rightarrow> string option \<Rightarrow>
     (string \<times> string option) \<times> replay_cache" where
  "run_finish c client id' ref value err =
     (let c1 = c\<lparr>results := (results c)[ref := \<lparr>res_done = True, res_value = value, res_err = err\<rparr>]\<rparr>;
          w = (if err = None then length value else 1)
      in ((value, err),
          case get (clients c) client of
            None \<Rightarrow> c1
          | Some ns \<Rightarrow>
              (case get (requests ns) id' of
                 None \<Rightarrow> c1
               | Some entry \<Rightarrow>
                   c1\<lparr>clients := put client (settle_entry (maxWeight c) w ns id' entry) (clients c)\<rparr>)))"

fun ack_ids :: "replay_namespace \<Rightarrow> request_id list \<Rightarrow> replay_namespace" where
  "ack_ids ns [] = ns"
| "ack_ids ns (i # is) =
     (case get (requests ns) i of
        Some entry \<Rightarrow>
          if settled entry
          then ack_ids (ns\<lparr>requests := del i (requests ns),
                          ns_weight := ns_weight ns - int (weight entry)\<rparr>) is
          else ack_ids ns is
      | None \<Rightarrow> ack_ids ns is)"

definition Acknowledge :: "replay_cache \<Rightarrow> client \<Rightarrow> request_id list \<Rightarrow> replay_cache" where
  "Acknowledge c client ids =
     (case get (clients c) client of
        None \<Rightarrow> c
      | Some ns \<Rightarrow> c\<lparr>clients := put client (ack_ids ns ids) (clients c)\<rparr>)"

text \<open>
  \<open>Retain\<close> visits the entries of the map in any order and drops the settled ones that are not
  kept: the same as acknowledging, in that order, the ids that are not in \<open>ids\<close>.
\<close>

definition Retain :: "replay_cache \<Rightarrow> client \<Rightarrow> request_id list \<Rightarrow> replay_cache" where
  "Retain c client ids =
     (case get (clients c) client of
        None \<Rightarrow> c
      | Some ns \<Rightarrow>
          c\<lparr>clients := put client
              (ack_ids ns (filter (\<lambda>i. i \<notin> set ids) (map fst (requests ns)))) (clients c)\<rparr>)"

definition ClearClient :: "replay_cache \<Rightarrow> client \<Rightarrow> bool \<times> replay_cache" where
  "ClearClient c client =
     (case get (clients c) client of
        None \<Rightarrow> (True, c)
      | Some ns \<Rightarrow>
          if list_ex (\<lambda>(i, entry). \<not> settled entry) (requests ns) then (False, c)
          else (True, c\<lparr>clients := del client (clients c)\<rparr>))"

lemmas replay_ops [op_defs] =
  run_begin_def run_wait_def run_finish_def settle_entry_def Acknowledge_def Retain_def ClearClient_def

section \<open>The cache in operation\<close>

definition entry_at :: "replay_cache \<Rightarrow> client \<Rightarrow> request_id \<Rightarrow> replay_entry option" where
  "entry_at c client i =
     (case get (clients c) client of None \<Rightarrow> None | Some ns \<Rightarrow> get (requests ns) i)"

text \<open>
  The system: the cache, the executions in flight (client, request and result cell), and for each
  request how often it was executed and how often its entry was dropped.
\<close>

record replay_system =
  cache :: replay_cache
  flights :: "(client \<times> request_id \<times> nat) list"
  executed :: "client \<times> request_id \<Rightarrow> nat"
  released :: "client \<times> request_id \<Rightarrow> nat"

definition init_system :: replay_system where
  "init_system = \<lparr>cache = NewReplayCache, flights = [], executed = (\<lambda>_. 0), released = (\<lambda>_. 0)\<rparr>"

definition drop_to :: "replay_system \<Rightarrow> replay_cache \<Rightarrow> replay_system" where
  "drop_to s c' = s\<lparr>cache := c', released := (\<lambda>(cl, i).
     released s (cl, i) + (if entry_at (cache s) cl i \<noteq> None \<and> entry_at c' cl i = None then 1 else 0))\<rparr>"

inductive cache_step :: "replay_system \<Rightarrow> replay_system \<Rightarrow> bool" where
  execute: "run_begin (cache s) cl i fp = (RunExecute ref, c') \<Longrightarrow>
     cache_step s (s\<lparr>cache := c', flights := (cl, i, ref) # flights s,
       executed := (executed s)((cl, i) := Suc (executed s (cl, i)))\<rparr>)"
| refuse: "run_begin (cache s) cl i fp = (RunError e, c') \<Longrightarrow> cache_step s (s\<lparr>cache := c'\<rparr>)"
| await: "run_begin (cache s) cl i fp = (RunWait ref, c') \<Longrightarrow> cache_step s (s\<lparr>cache := c'\<rparr>)"
| finish: "(cl, i, ref) \<in> set (flights s) \<Longrightarrow>
     run_finish (cache s) cl i ref v err = (out, c') \<Longrightarrow>
     cache_step s (s\<lparr>cache := c', flights := remove1 (cl, i, ref) (flights s)\<rparr>)"
| acknowledge: "cache_step s (drop_to s (Acknowledge (cache s) cl ids))"
| retain: "cache_step s (drop_to s (Retain (cache s) cl ids))"
| clear: "ClearClient (cache s) cl = (ok, c') \<Longrightarrow> cache_step s (drop_to s c')"

inductive cache_reach :: "replay_system \<Rightarrow> bool" where
  start: "cache_reach init_system"
| step: "cache_reach s \<Longrightarrow> cache_step s t \<Longrightarrow> cache_reach t"

section \<open>The invariant\<close>

interpretation ns_ledger: ledger requests ns_weight "\<lambda>e. int (weight e)"
  by unfold_locales simp

definition ns_inv :: "replay_cache \<Rightarrow> replay_namespace \<Rightarrow> bool" where
  "ns_inv c ns \<longleftrightarrow> ns_ledger.balanced ns \<and> ns_weight ns \<le> maxWeight c
     \<and> length (requests ns) \<le> maxRequests c"

definition entry_inv :: "replay_cache \<Rightarrow> replay_entry \<Rightarrow> bool" where
  "entry_inv c e \<longleftrightarrow>
     (result e = None \<longrightarrow> settled e \<and> weight e = 0)
     \<and> (\<not> settled e \<longrightarrow> weight e = 0)
     \<and> (\<forall>r. result e = Some r \<longrightarrow> r < length (results c) \<and> (res_done (results c ! r) \<longleftrightarrow> settled e))"

definition flights_inv :: "replay_cache \<Rightarrow> (client \<times> request_id \<times> nat) list \<Rightarrow> bool" where
  "flights_inv c F \<longleftrightarrow> distinct F
     \<and> (\<forall>cl i r. (cl, i, r) \<in> set F \<longleftrightarrow>
          (\<exists>e. entry_at c cl i = Some e \<and> \<not> settled e \<and> result e = Some r))"

definition refs_inv :: "replay_cache \<Rightarrow> bool" where
  "refs_inv c \<longleftrightarrow> (\<forall>cl i e cl' i' e' r. entry_at c cl i = Some e \<longrightarrow> entry_at c cl' i' = Some e' \<longrightarrow>
     result e = Some r \<longrightarrow> result e' = Some r \<longrightarrow> cl = cl' \<and> i = i')"

definition cache_inv :: "replay_cache \<Rightarrow> (client \<times> request_id \<times> nat) list \<Rightarrow> bool" where
  "cache_inv c F \<longleftrightarrow> unique_keys (clients c) \<and> 0 \<le> maxWeight c
     \<and> (\<forall>cl ns. get (clients c) cl = Some ns \<longrightarrow> ns_inv c ns)
     \<and> (\<forall>cl i e. entry_at c cl i = Some e \<longrightarrow> entry_inv c e)
     \<and> refs_inv c \<and> flights_inv c F"

lemmas replay_inv_defs [inv_defs] = ns_inv_def entry_inv_def flights_inv_def refs_inv_def cache_inv_def

lemma entry_at_put [simp]:
  "entry_at (c\<lparr>clients := put cl ns m\<rparr>) cl' i =
     (if cl' = cl then get (requests ns) i else entry_at (c\<lparr>clients := m\<rparr>) cl' i)"
  by (simp add: entry_at_def)

lemma entry_at_same [simp]: "entry_at (c\<lparr>clients := clients c\<rparr>) = entry_at c"
  by (simp add: entry_at_def fun_eq_iff)

lemma entry_at_results [simp]: "entry_at (c\<lparr>results := rs\<rparr>) = entry_at c"
  by (simp add: entry_at_def fun_eq_iff)

lemma ns_inv_cong:
  "maxWeight c' = maxWeight c \<Longrightarrow> maxRequests c' = maxRequests c \<Longrightarrow> ns_inv c' ns = ns_inv c ns"
  by (simp add: ns_inv_def)

text \<open>The entry sits at \<open>put\<close> for the executing request; everything else is as before.\<close>

lemma run_begin_cases:
  assumes "run_begin c cl i fp = (st, c')"
  obtains (fresh) ns where "st = RunExecute (length (results c))"
      "entry_at c cl i = None" "ns = (case get (clients c) cl of None \<Rightarrow> empty_namespace | Some n \<Rightarrow> n)"
      "length (requests ns) < maxRequests c"
      "c' = c\<lparr>results := results c @ [\<lparr>res_done = False, res_value = [], res_err = None\<rparr>],
              clients := put cl (ns\<lparr>requests := put i
                 \<lparr>fingerprint = fp, result = Some (length (results c)), settled = False, weight = 0\<rparr>
                 (requests ns)\<rparr>) (clients c)\<rparr>"
  | (other) "\<And>ref. st \<noteq> RunExecute ref"
      "c' = (if get (clients c) cl = None then c\<lparr>clients := put cl empty_namespace (clients c)\<rparr> else c)"
  using assms
  by (auto simp: run_begin_def Let_def entry_at_def empty_namespace_def
           split: option.splits if_splits)

lemma cache_inv_new_namespace:
  assumes "cache_inv c F" "get (clients c) cl = None"
  shows "cache_inv (c\<lparr>clients := put cl empty_namespace (clients c)\<rparr>) F"
proof -
  let ?c = "c\<lparr>clients := put cl empty_namespace (clients c)\<rparr>"
  have same: "entry_at ?c = entry_at c"
    using assms(2) by (auto simp: fun_eq_iff entry_at_def empty_namespace_def)
  have "ns_inv ?c empty_namespace"
    using assms(1)
    by (simp add: ns_inv_def ns_ledger.balanced_def empty_namespace_def cache_inv_def)
  then show ?thesis
    using assms(1) same
    by (auto simp: cache_inv_def refs_inv_def flights_inv_def entry_inv_def ns_inv_def)
qed

lemma cache_inv_execute:
  assumes inv: "cache_inv c F" and run: "run_begin c cl i fp = (RunExecute ref, c')"
  shows "cache_inv c' ((cl, i, ref) # F)"
  using run
proof (cases rule: run_begin_cases)
  case (fresh ns)
  let ?e = "\<lparr>fingerprint = fp, result = Some (length (results c)), settled = False, weight = 0\<rparr>"
  let ?ns = "ns\<lparr>requests := put i ?e (requests ns)\<rparr>"
  from fresh(1) have ref: "ref = length (results c)" by simp
  have nsi: "ns_inv c ns"
  proof (cases "get (clients c) cl")
    case None
    with inv fresh(3) show ?thesis
      by (simp add: cache_inv_def ns_inv_def ns_ledger.balanced_def empty_namespace_def)
  next
    case (Some n)
    with inv fresh(3) show ?thesis by (simp add: cache_inv_def)
  qed
  have none: "get (requests ns) i = None"
    using fresh(2,3) by (auto simp: entry_at_def empty_namespace_def split: option.splits)
  have bal: "ns_ledger.balanced ?ns"
    by (rule ns_ledger.balanced_insert [of ns i _ ?e])
       (use nsi none in \<open>simp_all add: ns_inv_def\<close>)
  have "ns_inv c' ?ns"
    using nsi bal none fresh(4,5) by (simp add: ns_inv_def get_None_iff)
  have at: "entry_at c' cl' i' = (if cl' = cl \<and> i' = i then Some ?e else entry_at c cl' i')" for cl' i'
    using fresh(3,5) by (auto simp: entry_at_def empty_namespace_def split: option.splits)
  have old: "r < length (results c)" if "entry_at c cl' i' = Some e" "result e = Some r" for cl' i' e r
    using inv that by (auto simp: cache_inv_def entry_inv_def)
  have res: "results c' = results c @ [\<lparr>res_done = False, res_value = [], res_err = None\<rparr>]"
    using fresh(5) by simp
  have ent: "entry_inv c' e" if e: "entry_at c' cl' i' = Some e" for cl' i' e
  proof (cases "cl' = cl \<and> i' = i")
    case True
    with e have "e = ?e" by (simp add: at)
    then show ?thesis by (simp add: entry_inv_def res)
  next
    case False
    with e have "entry_at c cl' i' = Some e" by (auto simp: at)
    with inv have "entry_inv c e" by (auto simp: cache_inv_def)
    then show ?thesis by (auto simp: entry_inv_def res nth_append)
  qed
  have refs: "refs_inv c'"
    using inv unfolding refs_inv_def at
    by (auto simp: cache_inv_def refs_inv_def dest: old split: if_splits)
  have nof: "(cl, i, r) \<notin> set F" for r
    using inv fresh(2) by (auto simp: cache_inv_def flights_inv_def)
  have fl: "flights_inv c' ((cl, i, ref) # F)"
    using inv nof ref unfolding flights_inv_def at
    by (auto simp: cache_inv_def flights_inv_def split: if_splits)
  have nss: "ns_inv c' n" if "get (clients c') cl' = Some n" for cl' n
    using inv that \<open>ns_inv c' ?ns\<close> fresh(5)
    by (auto simp: cache_inv_def ns_inv_def split: if_splits)
  from inv fresh(5) ent refs fl nss show ?thesis by (auto simp: cache_inv_def)
next
  case other
  then show ?thesis by blast
qed

lemma cache_inv_no_execute:
  assumes "cache_inv c F" "run_begin c cl i fp = (st, c')" "\<And>ref. st \<noteq> RunExecute ref"
  shows "cache_inv c' F \<and> entry_at c' = entry_at c \<and> results c' = results c"
  using assms(2)
proof (cases rule: run_begin_cases)
  case fresh
  then show ?thesis using assms(3) by blast
next
  case other
  then show ?thesis
    using assms(1) cache_inv_new_namespace [OF assms(1)]
    by (auto simp: fun_eq_iff entry_at_def empty_namespace_def)
qed

lemma settle_entry_inv:
  assumes "ns_inv c ns" "get (requests ns) i = Some e" "weight e = 0"
  shows "ns_inv c (settle_entry (maxWeight c) w ns i e)"
proof -
  have key: "i \<in> keys (requests ns)" using assms(2) by (rule get_Some_key)
  have "ns_ledger.balanced (settle_entry (maxWeight c) w ns i e)"
  proof (cases "ns_weight ns + int w > maxWeight c")
    case True
    show ?thesis
      by (rule ns_ledger.balanced_replace [of ns i e _ "e\<lparr>settled := True, result := None\<rparr>"])
         (use assms True in \<open>simp_all add: ns_inv_def settle_entry_def\<close>)
  next
    case False
    show ?thesis
      by (rule ns_ledger.balanced_replace [of ns i e _ "e\<lparr>settled := True, weight := w\<rparr>"])
         (use assms False in \<open>simp_all add: ns_inv_def settle_entry_def\<close>)
  qed
  then show ?thesis using assms key by (auto simp: ns_inv_def settle_entry_def)
qed

lemma settle_entry_at:
  "get (requests (settle_entry m w ns i e)) j =
     (if j = i then Some (if ns_weight ns + int w > m then e\<lparr>settled := True, result := None\<rparr>
                          else e\<lparr>settled := True, weight := w\<rparr>)
      else get (requests ns) j)"
  by (simp add: settle_entry_def)

lemma cache_inv_ns: "cache_inv c F \<Longrightarrow> get (clients c) cl = Some ns \<Longrightarrow> ns_inv c ns"
  by (simp add: cache_inv_def)

text \<open>
  An execution in flight still owns its entry and its cell: the second critical section of
  \<open>Run\<close>, which holds pointers to both, finds them unchanged under the same client and id.
\<close>

lemma flight_owns_entry:
  assumes "cache_inv c F" "(cl, i, ref) \<in> set F"
  obtains ns e where "get (clients c) cl = Some ns" "get (requests ns) i = Some e"
    "\<not> settled e" "result e = Some ref" "weight e = 0" "ref < length (results c)"
    "\<not> res_done (results c ! ref)"
proof -
  from assms obtain e where e: "entry_at c cl i = Some e" "\<not> settled e" "result e = Some ref"
    by (auto simp: cache_inv_def flights_inv_def)
  with assms(1) have ent: "entry_inv c e" by (auto simp: cache_inv_def)
  from e(1) obtain ns where ns: "get (clients c) cl = Some ns" "get (requests ns) i = Some e"
    by (auto simp: entry_at_def split: option.splits)
  from ent e have "weight e = 0" "ref < length (results c)" "\<not> res_done (results c ! ref)"
    by (auto simp: entry_inv_def)
  with ns e show ?thesis by (auto intro: that)
qed

lemma cache_inv_finish:
  assumes inv: "cache_inv c F" and fl: "(cl, i, ref) \<in> set F"
    and run: "run_finish c cl i ref v err = (out, c')"
  shows "cache_inv c' (remove1 (cl, i, ref) F)"
proof -
  obtain ns e where own: "get (clients c) cl = Some ns" "get (requests ns) i = Some e"
    "\<not> settled e" "result e = Some ref" "weight e = 0" "ref < length (results c)"
    using flight_owns_entry [OF inv fl] by metis
  define w where "w = (if err = None then length v else 1)"
  let ?ns = "settle_entry (maxWeight c) w ns i e"
  let ?e = "if ns_weight ns + int w > maxWeight c then e\<lparr>settled := True, result := None\<rparr>
            else e\<lparr>settled := True, weight := w\<rparr>"
  from run own w_def have c': "c' = c\<lparr>results := (results c)[ref := \<lparr>res_done = True, res_value = v, res_err = err\<rparr>],
      clients := put cl ?ns (clients c)\<rparr>"
    by (simp add: run_finish_def Let_def)
  have at: "entry_at c' cl' i' = (if cl' = cl \<and> i' = i then Some ?e else entry_at c cl' i')" for cl' i'
    using own unfolding c' by (simp add: entry_at_def settle_entry_at)
  have eat: "entry_at c cl i = Some e" using own by (simp add: entry_at_def)
  have other: "r \<noteq> ref" if "entry_at c cl' i' = Some e'" "result e' = Some r" "\<not> (cl' = cl \<and> i' = i)" for cl' i' e' r
    using inv eat own(4) that unfolding cache_inv_def refs_inv_def by blast
  have ent: "entry_inv c' e'" if "entry_at c' cl' i' = Some e'" for cl' i' e'
  proof (cases "cl' = cl \<and> i' = i")
    case True
    with that own show ?thesis unfolding at by (auto simp: entry_inv_def c' split: if_splits)
  next
    case False
    with that have old: "entry_at c cl' i' = Some e'" by (simp add: at split: if_splits)
    with inv have "entry_inv c e'" by (auto simp: cache_inv_def)
    with other [OF old _ False] show ?thesis by (auto simp: entry_inv_def c')
  qed
  have refs: "refs_inv c'"
    unfolding refs_inv_def at using inv other eat own(4)
    by (auto simp: cache_inv_def refs_inv_def split: if_splits)
  have dist: "distinct F" using inv by (simp add: cache_inv_def flights_inv_def)
  have unref: "(cl, i, r) \<in> set F \<longleftrightarrow> r = ref" for r
    using inv eat own by (auto simp: cache_inv_def flights_inv_def)
  have flights: "flights_inv c' (remove1 (cl, i, ref) F)"
    using inv dist unref unfolding flights_inv_def at
    by (auto simp: cache_inv_def flights_inv_def set_remove1_eq split: if_splits)
  have "ns_inv c ?ns"
    using inv own by (intro settle_entry_inv) (auto simp: cache_inv_def)
  then have nss: "ns_inv c' n" if "get (clients c') cl' = Some n" for cl' n
    using inv that by (auto simp: cache_inv_def ns_inv_def c' split: if_splits)
  from inv ent refs flights nss show ?thesis by (auto simp: cache_inv_def c')
qed

lemma ack_ids_inv: "ns_inv c ns \<Longrightarrow> ns_inv c (ack_ids ns is)"
proof (induction ns "is" rule: ack_ids.induct)
  case (2 ns i "is")
  show ?case
  proof (cases "get (requests ns) i")
    case None
    then show ?thesis using 2 by simp
  next
    case (Some e)
    let ?ns = "ns\<lparr>requests := del i (requests ns), ns_weight := ns_weight ns - int (weight e)\<rparr>"
    have "ns_ledger.balanced ?ns"
      by (rule ns_ledger.balanced_remove [of ns i e]) (use 2 Some in \<open>simp_all add: ns_inv_def\<close>)
    then have "ns_inv c ?ns"
      using "2.prems" by (auto simp: ns_inv_def intro: order_trans [OF length_del_le])
    then show ?thesis using 2 Some by (cases "settled e") simp_all
  qed
qed simp

lemma ack_ids_at:
  "get (requests (ack_ids ns is)) j =
     (case get (requests ns) j of
        Some e \<Rightarrow> if settled e \<and> j \<in> set is then None else Some e
      | None \<Rightarrow> None)"
  by (induction ns "is" rule: ack_ids.induct) (auto split: option.splits)

text \<open>Any operation that only drops settled entries keeps the invariant.\<close>

lemma cache_inv_drop:
  assumes inv: "cache_inv c F"
    and "results c' = results c" "maxWeight c' = maxWeight c" "maxRequests c' = maxRequests c"
    and "unique_keys (clients c')"
    and "\<And>cl n. get (clients c') cl = Some n \<Longrightarrow> ns_inv c n"
    and at: "\<And>cl i. entry_at c' cl i = entry_at c cl i
           \<or> entry_at c' cl i = None \<and> (\<forall>e. entry_at c cl i = Some e \<longrightarrow> settled e)"
  shows "cache_inv c' F"
proof -
  have sub: "entry_at c cl i = Some e" if "entry_at c' cl i = Some e" for cl i e
    using at [of cl i] that by auto
  have un: "entry_at c' cl i = Some e" if "entry_at c cl i = Some e" "\<not> settled e" for cl i e
    using at [of cl i] that by auto
  have "flights_inv c' F"
    using inv sub un unfolding cache_inv_def flights_inv_def by metis
  moreover have "refs_inv c'"
    using inv sub unfolding cache_inv_def refs_inv_def by metis
  moreover have "entry_inv c' e" if "entry_at c' cl i = Some e" for cl i e
    using inv sub [OF that] assms(2) by (auto simp: cache_inv_def entry_inv_def)
  ultimately show ?thesis
    using assms ns_inv_cong [of c' c] by (simp add: cache_inv_def)
qed

lemma cache_inv_ack_ns:
  assumes "cache_inv c F" "get (clients c) cl = Some ns"
  shows "cache_inv (c\<lparr>clients := put cl (ack_ids ns is) (clients c)\<rparr>) F"
proof (rule cache_inv_drop [OF assms(1)])
  fix cl' n
  assume "get (clients (c\<lparr>clients := put cl (ack_ids ns is) (clients c)\<rparr>)) cl' = Some n"
  then show "ns_inv c n"
    using assms by (auto simp: cache_inv_def intro: ack_ids_inv split: if_splits)
next
  fix cl' i
  show "entry_at (c\<lparr>clients := put cl (ack_ids ns is) (clients c)\<rparr>) cl' i = entry_at c cl' i
      \<or> entry_at (c\<lparr>clients := put cl (ack_ids ns is) (clients c)\<rparr>) cl' i = None
        \<and> (\<forall>e. entry_at c cl' i = Some e \<longrightarrow> settled e)"
    using assms(2) by (auto simp: entry_at_def ack_ids_at split: option.splits)
qed (use assms(1) in \<open>simp_all add: cache_inv_def\<close>)

lemma cache_inv_Acknowledge: "cache_inv c F \<Longrightarrow> cache_inv (Acknowledge c cl ids) F"
  by (auto simp: Acknowledge_def cache_inv_ack_ns split: option.splits)

lemma cache_inv_Retain: "cache_inv c F \<Longrightarrow> cache_inv (Retain c cl ids) F"
  by (auto simp: Retain_def cache_inv_ack_ns split: option.splits)

lemma cache_inv_ClearClient:
  assumes inv: "cache_inv c F" and run: "ClearClient c cl = (ok, c')"
  shows "cache_inv c' F"
proof (cases "c' = c")
  case True
  with inv show ?thesis by simp
next
  case False
  with run obtain ns where ns: "get (clients c) cl = Some ns"
    and all: "\<forall>(i, e) \<in> set (requests ns). settled e"
    and c': "c' = c\<lparr>clients := del cl (clients c)\<rparr>"
    by (auto simp: ClearClient_def list_ex_iff split: option.splits if_splits)
  have "entry_at c' cl' i = entry_at c cl' i
      \<or> entry_at c' cl' i = None \<and> (\<forall>e. entry_at c cl' i = Some e \<longrightarrow> settled e)" for cl' i
    using ns all by (auto simp: entry_at_def c' dest: map_of_SomeD)
  then show ?thesis
    by (rule cache_inv_drop [OF inv, rotated -1])
       (use inv in \<open>auto simp: cache_inv_def c' split: if_splits\<close>)
qed

section \<open>Reachable states\<close>

inductive_cases cache_stepE: "cache_step s t"

lemma drop_to_simps [simp]:
  "cache (drop_to s c) = c" "flights (drop_to s c) = flights s" "executed (drop_to s c) = executed s"
  by (simp_all add: drop_to_def)

lemma cache_step_inv: "cache_step s t \<Longrightarrow> cache_inv (cache s) (flights s) \<Longrightarrow> cache_inv (cache t) (flights t)"
proof (induction rule: cache_step.induct)
  case (execute s cl i fp ref c')
  then show ?case by (simp add: cache_inv_execute)
next
  case (refuse s cl i fp e c')
  then show ?case using cache_inv_no_execute [of "cache s" "flights s" cl i fp "RunError e" c'] by simp
next
  case (await s cl i fp ref c')
  then show ?case using cache_inv_no_execute [of "cache s" "flights s" cl i fp "RunWait ref" c'] by simp
next
  case (finish cl i ref s v err out c')
  then show ?case by (simp add: cache_inv_finish)
qed (simp_all add: cache_inv_Acknowledge cache_inv_Retain cache_inv_ClearClient)

lemma cache_inv_init: "cache_inv (cache init_system) (flights init_system)"
  by (simp add: init_system_def NewReplayCache_def cache_inv_def refs_inv_def flights_inv_def entry_at_def)

lemma cache_reach_inv: "cache_reach s \<Longrightarrow> cache_inv (cache s) (flights s)"
  by (induction rule: cache_reach.induct) (auto intro: cache_inv_init cache_step_inv)

lemma run_begin_limits [frame_simps]:
  "run_begin c cl i fp = (st, c') \<Longrightarrow> maxWeight c' = maxWeight c \<and> maxRequests c' = maxRequests c"
  by (auto simp: run_begin_def Let_def split: option.splits if_splits)

lemma run_finish_limits [frame_simps]:
  "run_finish c cl i r v e = (out, c') \<Longrightarrow> maxWeight c' = maxWeight c \<and> maxRequests c' = maxRequests c"
  by (auto simp: run_finish_def Let_def split: option.splits)

lemma drop_limits [frame_simps]:
  "maxWeight (Acknowledge c cl ids) = maxWeight c" "maxRequests (Acknowledge c cl ids) = maxRequests c"
  "maxWeight (Retain c cl ids) = maxWeight c" "maxRequests (Retain c cl ids) = maxRequests c"
  "ClearClient c cl = (ok, c') \<Longrightarrow> maxWeight c' = maxWeight c \<and> maxRequests c' = maxRequests c"
  by (auto simp: Acknowledge_def Retain_def ClearClient_def split: option.splits if_splits)

lemma cache_step_limits:
  "cache_step s t \<Longrightarrow> maxWeight (cache t) = maxWeight (cache s) \<and> maxRequests (cache t) = maxRequests (cache s)"
  by (induction rule: cache_step.induct) (auto simp: frame_simps dest: run_begin_limits run_finish_limits)

lemma cache_reach_limits:
  "cache_reach s \<Longrightarrow> maxWeight (cache s) = 16 * 1024 * 1024 \<and> maxRequests (cache s) = 512"
  by (induction rule: cache_reach.induct)
     (auto simp: cache_step_limits init_system_def NewReplayCache_def)

text \<open>Presence of an entry across the steps.\<close>

lemma drop_entry_subset:
  "entry_at (Acknowledge c cl ids) cl' i = Some e \<Longrightarrow> entry_at c cl' i = Some e"
  "entry_at (Retain c cl ids) cl' i = Some e \<Longrightarrow> entry_at c cl' i = Some e"
  "ClearClient c cl = (ok, c') \<Longrightarrow> entry_at c' cl' i = Some e \<Longrightarrow> entry_at c cl' i = Some e"
  by (auto simp: Acknowledge_def Retain_def ClearClient_def entry_at_def ack_ids_at
           split: option.splits if_splits)

lemma execute_presence:
  assumes "run_begin c cl i fp = (RunExecute ref, c')"
  shows "entry_at c cl i = None" "(entry_at c' cl' i' = None) = (entry_at c cl' i' = None \<and> (cl', i') \<noteq> (cl, i))"
  using assms
  by (auto elim!: run_begin_cases simp: entry_at_def empty_namespace_def split: option.splits if_splits)

lemma finish_presence:
  assumes "cache_inv c F" "(cl, i, ref) \<in> set F" "run_finish c cl i ref v err = (out, c')"
  shows "(entry_at c' cl' i' = None) = (entry_at c cl' i' = None)"
proof -
  obtain ns e where "get (clients c) cl = Some ns" "get (requests ns) i = Some e"
    using flight_owns_entry [OF assms(1,2)] by metis
  with assms(3) show ?thesis
    by (cases "cl' = cl") (auto simp: run_finish_def Let_def entry_at_def settle_entry_at split: if_splits)
qed

definition counts_ok :: "replay_system \<Rightarrow> bool" where
  "counts_ok s \<longleftrightarrow> (\<forall>cl i. executed s (cl, i) =
     released s (cl, i) + (if entry_at (cache s) cl i = None then 0 else 1))"

lemma counts_drop:
  assumes "counts_ok s" "\<And>cl i e. entry_at c' cl i = Some e \<Longrightarrow> entry_at (cache s) cl i = Some e"
  shows "counts_ok (drop_to s c')"
  using assms by (force simp: counts_ok_def drop_to_def)

lemma counts_same:
  assumes "counts_ok s" "\<And>cl i. (entry_at c' cl i = None) = (entry_at (cache s) cl i = None)"
    and "cache t = c'" "executed t = executed s" "released t = released s"
  shows "counts_ok t"
  using assms by (simp add: counts_ok_def)

lemma cache_step_counts:
  "cache_step s t \<Longrightarrow> cache_inv (cache s) (flights s) \<Longrightarrow> counts_ok s \<Longrightarrow> counts_ok t"
proof (induction rule: cache_step.induct)
  case (execute s cl i fp ref c')
  then show ?case using execute_presence [OF execute(1)] by (auto simp: counts_ok_def)
next
  case (refuse s cl i fp e c')
  then show ?case
    using cache_inv_no_execute [OF refuse(2,1)] by (intro counts_same [OF refuse(3), of c']) auto
next
  case (await s cl i fp ref c')
  then show ?case
    using cache_inv_no_execute [OF await(2,1)] by (intro counts_same [OF await(3), of c']) auto
next
  case (finish cl i ref s v err out c')
  show ?case
    by (rule counts_same [OF finish(4), of c']) (use finish_presence [OF finish(3,1,2)] in simp_all)
qed (auto intro!: counts_drop dest: drop_entry_subset)

lemma counts_init: "counts_ok init_system"
  by (simp add: counts_ok_def init_system_def NewReplayCache_def entry_at_def)

lemma cache_reach_counts: "cache_reach s \<Longrightarrow> counts_ok s"
  by (induction rule: cache_reach.induct)
     (auto intro: counts_init cache_step_counts dest: cache_reach_inv)

text \<open>A closed cell is never written again.\<close>

lemma execute_results:
  assumes "run_begin c cl i fp = (RunExecute ref, c')"
  shows "results c' = results c @ [\<lparr>res_done = False, res_value = [], res_err = None\<rparr>]"
  using assms by (cases rule: run_begin_cases) auto

lemma finish_results:
  "run_finish c cl i ref v err = (out, c') \<Longrightarrow>
     results c' = (results c)[ref := \<lparr>res_done = True, res_value = v, res_err = err\<rparr>]"
  by (auto simp: run_finish_def Let_def split: option.splits)

lemma drop_results:
  "results (Acknowledge c cl ids) = results c" "results (Retain c cl ids) = results c"
  "ClearClient c cl = (ok, c') \<Longrightarrow> results c' = results c"
  by (auto simp: Acknowledge_def Retain_def ClearClient_def split: option.splits if_splits)

lemma run_wait_step:
  assumes "cache_step s t" "cache_inv (cache s) (flights s)"
    and "ref < length (results (cache s))" "run_wait (cache s) ref = Some out"
  shows "ref < length (results (cache t)) \<and> run_wait (cache t) ref = Some out"
  using assms
proof (induction rule: cache_step.induct)
  case (execute s cl i fp ref' c')
  then show ?case by (simp add: run_wait_def execute_results [OF execute(1)] nth_append)
next
  case (refuse s cl i fp e c')
  then show ?case using cache_inv_no_execute [OF refuse(2,1)] by (simp add: run_wait_def)
next
  case (await s cl i fp ref' c')
  then show ?case using cache_inv_no_execute [OF await(2,1)] by (simp add: run_wait_def)
next
  case (finish cl i ref' s v err out' c')
  from flight_owns_entry [OF finish(3,1)] have "\<not> res_done (results (cache s) ! ref')" by metis
  with finish(5) have "ref \<noteq> ref'" by (auto simp: run_wait_def Let_def)
  with finish(4,5) show ?case by (simp add: run_wait_def finish_results [OF finish(2)])
qed (simp_all add: run_wait_def drop_results)

lemma cache_reach_steps: "cache_step\<^sup>*\<^sup>* s t \<Longrightarrow> cache_reach s \<Longrightarrow> cache_reach t"
  by (induction rule: rtranclp_induct) (auto intro: cache_reach.step)

lemma unsettled_in_flight:
  assumes "cache_inv c F" "entry_at c cl i = Some e" "\<not> settled e"
  shows "\<exists>ref. (cl, i, ref) \<in> set F"
proof -
  from assms have "entry_inv c e" by (auto simp: cache_inv_def)
  with assms(3) obtain ref where "result e = Some ref" by (auto simp: entry_inv_def)
  with assms show ?thesis by (auto simp: cache_inv_def flights_inv_def)
qed

lemma flight_unsettled:
  "cache_inv c F \<Longrightarrow> (cl, i, ref) \<in> set F \<Longrightarrow> \<exists>e. entry_at c cl i = Some e \<and> \<not> settled e"
  by (auto simp: cache_inv_def flights_inv_def)

section \<open>Sample run\<close>

text \<open>One request of client \<open>c\<close> executing, then settled; used to exhibit the properties.\<close>

definition demo_flight :: replay_system where
  "demo_flight = init_system
     \<lparr>cache := snd (run_begin NewReplayCache ''c'' ''1'' ''f''), flights := [(''c'', ''1'', 0)],
      executed := (\<lambda>_. 0)((''c'', ''1'') := 1)\<rparr>"

definition demo_settled :: replay_system where
  "demo_settled = demo_flight
     \<lparr>cache := snd (run_finish (cache demo_flight) ''c'' ''1'' 0 ''ok'' None), flights := []\<rparr>"

lemma demo_flight_reach: "cache_reach demo_flight"
proof -
  have "run_begin (cache init_system) ''c'' ''1'' ''f''
      = (RunExecute 0, snd (run_begin NewReplayCache ''c'' ''1'' ''f''))"
    by (simp add: init_system_def run_begin_def NewReplayCache_def empty_namespace_def)
  from cache_reach.step [OF cache_reach.start cache_step.execute [OF this]] show ?thesis
    by (simp add: demo_flight_def init_system_def)
qed

lemma demo_step: "cache_step demo_flight demo_settled"
proof -
  have "run_finish (cache demo_flight) ''c'' ''1'' 0 ''ok'' None
      = ((''ok'', None), snd (run_finish (cache demo_flight) ''c'' ''1'' 0 ''ok'' None))"
    by (simp add: run_finish_def Let_def)
  from cache_step.finish [OF _ this] show ?thesis
    by (simp add: demo_settled_def) (simp add: demo_flight_def)
qed

lemma demo_settled_reach: "cache_reach demo_settled"
  using demo_flight_reach demo_step by (rule cache_reach.step)

lemma demo_evals:
  "run_wait (cache demo_settled) 0 = Some (''ok'', None)"
  "length (results (cache demo_settled)) = 1"
  "get (clients (cache demo_settled)) ''c'' = Some
     \<lparr>requests = [(''1'', \<lparr>fingerprint = ''f'', result = Some 0, settled = True, weight = 2\<rparr>)], ns_weight = 2\<rparr>"
  by (simp_all add: demo_settled_def demo_flight_def init_system_def NewReplayCache_def
      empty_namespace_def run_begin_def run_finish_def settle_entry_def run_wait_def)

section \<open>Properties\<close>

text \<open>C1: A request is executed at most once per retention: over every interleaving of \<open>Run\<close>,
  \<open>Acknowledge\<close>, \<open>Retain\<close> and \<open>ClearClient\<close>, the number of executions of a request id is the number
  of times its entry was dropped, plus one while its entry is in the cache.\<close>

theorem replay_at_most_once:
  assumes "cache_reach s"
  shows "executed s (cl, i) = released s (cl, i) + (if entry_at (cache s) cl i = None then 0 else 1)"
  using cache_reach_counts [OF assms] by (simp add: counts_ok_def)

theorem replay_at_most_once_witness:
  "executed demo_settled (''c'', ''1'') = 1 \<and> released demo_settled (''c'', ''1'') = 0"
  using replay_at_most_once [OF demo_settled_reach, of "''c''" "''1''"]
  by (simp add: entry_at_def demo_evals) (simp add: demo_settled_def demo_flight_def init_system_def)

text \<open>C11: The retained weight of a client is the sum of the weights of its settled results and never
  exceeds 16 MiB, and a client never has more than 512 requests, in every reachable state.\<close>

theorem replay_bounded:
  assumes "cache_reach s" "get (clients (cache s)) cl = Some ns"
  shows "ns_weight ns = (\<Sum>(i, e)\<leftarrow>requests ns. int (weight e)) \<and> ns_weight ns \<le> 16 * 1024 * 1024
    \<and> length (requests ns) \<le> 512 \<and> distinct (map fst (requests ns))"
  using cache_inv_ns [OF cache_reach_inv [OF assms(1)] assms(2)] cache_reach_limits [OF assms(1)]
  by (simp add: ns_inv_def ns_ledger.balanced_def total_def unique_keys_def)

theorem replay_bounded_witness:
  "\<exists>ns. get (clients (cache demo_settled)) ''c'' = Some ns \<and> ns_weight ns = 2
     \<and> (\<Sum>(i, e)\<leftarrow>requests ns. int (weight e)) = 2"
  using replay_bounded [OF demo_settled_reach demo_evals(3)] demo_evals(3) by auto

text \<open>The result a finished execution returns is the one every waiter and every retry that shares
  its cell is given, whatever happens to the cache afterwards.\<close>

theorem replay_result_stable:
  assumes "cache_reach s" "(cl, i, ref) \<in> set (flights s)"
    and "run_finish (cache s) cl i ref v err = (out, c')"
    and "cache_step\<^sup>*\<^sup>* (s\<lparr>cache := c', flights := remove1 (cl, i, ref) (flights s)\<rparr>) t"
  shows "out = (v, err) \<and> run_wait (cache t) ref = Some (v, err)"
proof -
  let ?s = "s\<lparr>cache := c', flights := remove1 (cl, i, ref) (flights s)\<rparr>"
  from assms(1-3) have reach: "cache_reach ?s" by (auto intro: cache_reach.step cache_step.finish)
  have len: "ref < length (results (cache s))"
    using flight_owns_entry [OF cache_reach_inv [OF assms(1)] assms(2)] by metis
  have out: "out = (v, err)" using assms(3) by (simp add: run_finish_def Let_def)
  from assms(4) have "cache_reach t \<and> ref < length (results (cache t)) \<and> run_wait (cache t) ref = Some (v, err)"
  proof (induction rule: rtranclp_induct)
    case base
    show ?case using reach len by (simp add: run_wait_def finish_results [OF assms(3)])
  next
    case (step t u)
    then show ?case
      using run_wait_step [OF step(2) cache_reach_inv] by (auto intro: cache_reach.step)
  qed
  with out show ?thesis by blast
qed

theorem replay_result_stable_witness:
  "run_wait (cache demo_settled) 0 = Some (''ok'', None)"
proof -
  have run: "run_finish (cache demo_flight) ''c'' ''1'' 0 ''ok'' None = ((''ok'', None), cache demo_settled)"
    by (simp add: demo_settled_def run_finish_def Let_def)
  have fl: "(''c'', ''1'', 0) \<in> set (flights demo_flight)" by (simp add: demo_flight_def)
  from replay_result_stable [OF demo_flight_reach fl run rtranclp.rtrancl_refl]
  show ?thesis by simp
qed

text \<open>A client's namespace is cleared exactly when none of its requests is executing; an execution
  in flight keeps its entry, unsettled and with its own result cell.\<close>

theorem replay_clear_iff_idle:
  assumes "cache_reach s"
  shows "fst (ClearClient (cache s) cl) \<longleftrightarrow> (\<forall>i ref. (cl, i, ref) \<notin> set (flights s))"
proof -
  note inv = cache_reach_inv [OF assms]
  show ?thesis
  proof (cases "get (clients (cache s)) cl")
    case None
    then show ?thesis
      using flight_unsettled [OF inv, of cl] by (auto simp: ClearClient_def entry_at_def)
  next
    case (Some ns)
    with inv have uk: "unique_keys (requests ns)"
      by (simp add: cache_inv_def ns_inv_def ns_ledger.balanced_def)
    have at: "entry_at (cache s) cl i = get (requests ns) i" for i using Some by (simp add: entry_at_def)
    have "fst (ClearClient (cache s) cl) \<longleftrightarrow> (\<forall>i e. get (requests ns) i = Some e \<longrightarrow> settled e)"
      using Some get_in_set [OF uk] by (auto simp: ClearClient_def list_ex_iff)
    also have "\<dots> \<longleftrightarrow> (\<forall>i ref. (cl, i, ref) \<notin> set (flights s))"
      using unsettled_in_flight [OF inv] flight_unsettled [OF inv] at by metis
    finally show ?thesis .
  qed
qed

theorem replay_clear_iff_idle_witness:
  "\<not> fst (ClearClient (cache demo_flight) ''c'') \<and> fst (ClearClient (cache demo_settled) ''c'')"
  using replay_clear_iff_idle [OF demo_flight_reach, of "''c''"]
    replay_clear_iff_idle [OF demo_settled_reach, of "''c''"]
  by (auto simp: demo_flight_def demo_settled_def)

end
