(* ===== verification/Schedules.thy ===== *)
theory Schedules
  imports Json Identity Persist "HOL-Library.List_Lexorder"
begin

text \<open>
  Scheduled prompts, \<open>internal/controller/schedules.go\<close>: the jobs of every project, their runs, the
  ledger of handled mutations, and the worker that starts due jobs. All of the component's methods run
  under its mutex, so each is one step on the record \<open>schedules\<close>; the goroutine of a run takes the
  mutex twice, in \<open>admitted\<close> and in \<open>finish_run\<close>, and is two kinds of steps. The durable part is one
  file, written through \<open>Persist\<close>.

  Times are nanoseconds since Go's zero time, which is 0. Cron expressions
  (\<open>github.com/robfig/cron\<close>), the time-zone database, SHA-256, the project root check and the
  encodings of \<open>encoding/json\<close> are the fields of \<open>sched_env\<close>. Map iteration orders, clock readings and
  fresh identifiers are arguments.
\<close>

type_synonym time = int

record WireModel =
  model_MetadataComplete :: "bool option"
  model_ID :: string
  model_Name :: string
  model_Provider :: string
  model_ContextWindow :: "int option"
  model_MaxTokens :: "int option"
  model_Reasoning :: "bool option"
  model_ThinkingLevels :: "string list"
  model_Input :: "string list"
  model_Cost :: json
  model_Available :: bool
  model_Hidden :: bool

record ScheduleRun =
  run_ID :: string
  run_SessionID :: string
  run_StartedAt :: time
  run_FinishedAt :: "time option"
  run_Status :: string
  run_Error :: string

record Schedule =
  job_ID :: string
  job_ProjectID :: string
  job_Root :: string
  job_Prompt :: string
  job_Cron :: string
  job_Timezone :: string
  job_Model :: "WireModel option"
  job_Paused :: bool
  job_NextRun :: time
  job_Runs :: "ScheduleRun list"

text \<open>A recorded result is raw JSON, kept as its value: \<open>MarshalIndent\<close> rewrites its white space.
  A \<open>nil\<close> raw message, which \<open>json.Valid\<close> rejects, is \<open>None\<close>.\<close>

record scheduleOperation =
  so_Key :: string
  so_Fingerprint :: string
  so_Result :: "json option"

record scheduleDisk =
  sd_Version :: int
  sd_Jobs :: "(string \<times> Schedule) list option"
  sd_Operations :: "scheduleOperation list"

record sched_env =
  ParseStandard :: "string \<Rightarrow> (time \<Rightarrow> time) option"
  LoadLocation :: "string \<Rightarrow> bool"
  sha256_hex :: "string \<Rightarrow> string"
  encode_params :: "(string \<times> json) list \<Rightarrow> string"
  decode_model :: "json \<Rightarrow> WireModel option"
  encode_job :: "Schedule \<Rightarrow> json option"
  decode_job :: "json \<Rightarrow> Schedule option"
  validateRoot :: "(string \<Rightarrow> string \<Rightarrow> string option) option"
  disk_codec :: "scheduleDisk codec"
  decode_legacy :: "string \<Rightarrow> (string \<times> Schedule) list option option"
  store_file :: path
  store_temps :: "string \<times> string"

datatype sched_error =
    SchProjectRequired | SchClosed | SchInvalidMutation | SchMutationReused | SchBadResult
  | SchRootRejected | SchInvalidModel | SchUnknownProjectSchedule | SchStopBeforeEdit | SchInvalidField
  | SchInvalidPaused | SchInvalidPrompt | SchFiveFields | SchInvalidTimezone | SchCronRejected
  | SchNoOccurrence | SchTooMany | SchMarshalFailed | SchWriteFailed | SchConcurrency | SchRunning
  | SchUnknown | SchStopBeforeDelete | SchUnknownOperation | SchInvalidStore | SchMissingPrimary

text \<open>The goroutine of a run: the job as it was claimed, the run, and whether its context is cancelled.\<close>

record flight =
  fl_job :: Schedule
  fl_run :: ScheduleRun
  fl_cancelled :: bool

record schedules =
  sched_jobs :: "(string \<times> Schedule) list"
  sched_operations :: "scheduleOperation list"
  sched_operation :: "scheduleOperation option"
  sched_method :: string
  sched_failures :: "(string \<times> time) list"
  sched_lastError :: string
  sched_compiled :: "(string \<times> string \<times> (time \<Rightarrow> time)) list"
  sched_running :: "(string \<times> flight) list"
  sched_pending :: "(string \<times> ScheduleRun) list"
  sched_started :: bool
  sched_closed :: bool
  sched_disk :: world

section \<open>Occurrences and validation\<close>

definition cron_spec :: "string \<Rightarrow> string \<Rightarrow> string" where
  "cron_spec zone cron = ''CRON_TZ='' @ zone @ '' '' @ cron"

definition scheduleNext :: "sched_env \<Rightarrow> Schedule \<Rightarrow> time \<Rightarrow> sched_error + time" where
  "scheduleNext env job now =
     (if length (Fields (job_Cron job)) \<noteq> 5 \<or> length (job_Cron job) > 512 then Inl SchFiveFields
      else
        (let zone = (if job_Timezone job = [] then ''UTC'' else job_Timezone job) in
         if ContainsAny zone [CHR '' '', CHR 0x09, CHR 0x0D, CHR 0x0A] then Inl SchInvalidTimezone
         else if \<not> LoadLocation env zone then Inl SchInvalidTimezone
         else
           (case ParseStandard env (cron_spec zone (job_Cron job)) of
              None \<Rightarrow> Inl SchCronRejected
            | Some spec \<Rightarrow> if spec now = 0 then Inl SchNoOccurrence else Inr (spec now))))"

definition valid_job :: "sched_env \<Rightarrow> time \<Rightarrow> string \<times> Schedule \<Rightarrow> bool" where
  "valid_job env now = (\<lambda>(jid, j).
     \<not> (jid \<noteq> job_ID j \<or> jid = [] \<or> job_ProjectID j = [] \<or> job_Root j = [] \<or> TrimSpace (job_Prompt j) = []
        \<or> length (job_Prompt j) > 64 * 1024 \<or> containsNUL (job_Prompt j) \<or> length (job_Runs j) > 100)
     \<and> (\<exists>t. scheduleNext env j now = Inr t))"

definition validateSchedules :: "sched_env \<Rightarrow> time \<Rightarrow> (string \<times> Schedule) list option \<Rightarrow> bool" where
  "validateSchedules env now jobs =
     (case jobs of
        None \<Rightarrow> False
      | Some m \<Rightarrow> \<not> length m > 1000 \<and> list_all (valid_job env now) m)"

section \<open>Saving\<close>

datatype write_result = WriteJob Schedule | WriteNothing

definition ok_result :: json where
  "ok_result = JObj [(''ok'', JBool True)]"

text \<open>The ledger with the operation of the request being handled; the last 512 are kept.\<close>

definition with_operation ::
  "sched_env \<Rightarrow> write_result \<Rightarrow> schedules \<Rightarrow> scheduleOperation list option" where
  "with_operation env result s =
     (case sched_operation s of
        None \<Rightarrow> Some (sched_operations s)
      | Some op \<Rightarrow>
          (let raw =
             (if sched_method s \<noteq> ''schedule.create'' \<and> sched_method s \<noteq> ''schedule.update'' then Some ok_result
              else (case result of WriteJob j \<Rightarrow> encode_job env j | WriteNothing \<Rightarrow> Some JNull))
           in map_option (\<lambda>v. last_n 512 (sched_operations s @ [op\<lparr>so_Result := Some v\<rparr>])) raw))"

definition write_schedules ::
  "sched_env \<Rightarrow> write_result \<Rightarrow> schedules \<Rightarrow> sched_error option \<times> schedules" where
  "write_schedules env result s =
     (if length (sched_jobs s) > 1000 then (Some SchTooMany, s)
      else
        (case with_operation env result s of
           None \<Rightarrow> (Some SchMarshalFailed, s)
         | Some ops \<Rightarrow>
             (let (ok, w) = Write (disk_codec env) (\<lambda>_. True) (store_file env)
                (fst (store_temps env)) (snd (store_temps env))
                \<lparr>sd_Version = 1, sd_Jobs = Some (sched_jobs s), sd_Operations = ops\<rparr> (sched_disk s) in
              if ok then (None, s\<lparr>sched_disk := w, sched_operations := ops\<rparr>)
              else (Some SchWriteFailed, s\<lparr>sched_disk := w\<rparr>))))"

definition save_schedule :: "sched_env \<Rightarrow> Schedule \<Rightarrow> schedules \<Rightarrow> sched_error option \<times> schedules" where
  "save_schedule env job s =
     (let previous = get (sched_jobs s) (job_ID job);
          (e, s') = write_schedules env (WriteJob job) (s\<lparr>sched_jobs := put (job_ID job) job (sched_jobs s)\<rparr>)
      in case e of
           None \<Rightarrow> (None, s')
         | Some err \<Rightarrow>
             (Some err, s'\<lparr>sched_jobs :=
                (case previous of
                   Some p \<Rightarrow> put (job_ID job) p (sched_jobs s')
                 | None \<Rightarrow> del (job_ID job) (sched_jobs s'))\<rparr>))"

section \<open>Loading\<close>

definition interrupt_run :: "time \<Rightarrow> ScheduleRun \<Rightarrow> ScheduleRun" where
  "interrupt_run now r =
     (if run_Status r = ''running''
      then r\<lparr>run_Status := ''interrupted'',
             run_Error := ''Pixie restarted; inspect the session before retrying'',
             run_FinishedAt := Some now\<rparr>
      else r)"

definition has_running :: "Schedule \<Rightarrow> bool" where
  "has_running j \<longleftrightarrow> list_ex (\<lambda>r. run_Status r = ''running'') (job_Runs j)"

definition interrupt_job :: "time \<Rightarrow> Schedule \<Rightarrow> Schedule" where
  "interrupt_job now j =
     j\<lparr>job_Runs := map (interrupt_run now) (job_Runs j), job_Paused := job_Paused j \<or> has_running j\<rparr>"

definition load_schedules ::
  "sched_env \<Rightarrow> time \<Rightarrow> world \<Rightarrow>
     (sched_error + (string \<times> Schedule) list \<times> scheduleOperation list) \<times> world" where
  "load_schedules env now w =
     (let (raw, w) = ReadFile (store_file env) w in
      case raw of
        ReadBytes bytes m \<Rightarrow>
          (case unmarshal (disk_codec env) bytes of
             None \<Rightarrow> (Inl SchInvalidStore, w)
           | Some disk \<Rightarrow>
               (let loaded =
                  (if sd_Version disk = 1
                   then (if sd_Jobs disk = None \<or> length (sd_Operations disk) > 512 then None
                         else if list_all (\<lambda>op. \<not> (so_Key op = [] \<or> so_Fingerprint op = [] \<or> so_Result op = None))
                                   (sd_Operations disk)
                         then Some (sd_Jobs disk, sd_Operations disk) else None)
                   else map_option (\<lambda>jobs. (jobs, [])) (decode_legacy env bytes))
                in case loaded of
                     None \<Rightarrow> (Inl SchInvalidStore, w)
                   | Some (jobs, ops) \<Rightarrow>
                       if validateSchedules env now jobs then (Inr (the jobs, ops), w)
                       else (Inl SchInvalidStore, w)))
      | ReadFailed \<Rightarrow> (Inl SchInvalidStore, w)
      | NotExist \<Rightarrow>
          (if get (files w) (backup_path (store_file env)) \<noteq> None then (Inl SchMissingPrimary, w)
           else (Inr ([], []), w)))"

definition NewSchedules :: "sched_env \<Rightarrow> time \<Rightarrow> world \<Rightarrow> sched_error + schedules" where
  "NewSchedules env now w =
     (case load_schedules env now w of
        (Inl e, w) \<Rightarrow> Inl e
      | (Inr (jobs, ops), w) \<Rightarrow>
          (let s = \<lparr>sched_jobs = map (\<lambda>(jid, j). (jid, interrupt_job now j)) jobs, sched_operations = ops,
                    sched_operation = None, sched_method = [], sched_failures = [], sched_lastError = [],
                    sched_compiled = [], sched_running = [], sched_pending = [], sched_started = False,
                    sched_closed = False, sched_disk = w\<rparr>
           in if list_ex (\<lambda>(jid, j). has_running j) jobs
              then (case write_schedules env WriteNothing s of (Some e, s) \<Rightarrow> Inl e | (None, s) \<Rightarrow> Inr s)
              else Inr s))"

section \<open>Runs\<close>

text \<open>\<open>next\<close>: the parsed expression is kept per job, under the zone and expression it was parsed from.
  An unknown job has the empty key, which no zone and expression have.\<close>

definition next_run :: "sched_env \<Rightarrow> Schedule \<Rightarrow> time \<Rightarrow> schedules \<Rightarrow> (sched_error + time) \<times> schedules" where
  "next_run env job now s =
     (let job = (if job_Timezone job = [] then job\<lparr>job_Timezone := ''UTC''\<rparr> else job);
          key = job_Timezone job @ '' '' @ job_Cron job;
          cached = get (sched_compiled s) (job_ID job)
      in case cached of
           Some (k, spec) \<Rightarrow>
             if k = key then (Inr (spec now), s)
             else
               (case scheduleNext env job now of
                  Inl e \<Rightarrow> (Inl e, s)
                | Inr t \<Rightarrow>
                    (case ParseStandard env (cron_spec (job_Timezone job) (job_Cron job)) of
                       None \<Rightarrow> (Inl SchCronRejected, s)
                     | Some spec \<Rightarrow>
                         (Inr (spec now), s\<lparr>sched_compiled := put (job_ID job) (key, spec) (sched_compiled s)\<rparr>)))
         | None \<Rightarrow>
             (case scheduleNext env job now of
                Inl e \<Rightarrow> (Inl e, s)
              | Inr t \<Rightarrow>
                  (case ParseStandard env (cron_spec (job_Timezone job) (job_Cron job)) of
                     None \<Rightarrow> (Inl SchCronRejected, s)
                   | Some spec \<Rightarrow>
                       (Inr (spec now), s\<lparr>sched_compiled := put (job_ID job) (key, spec) (sched_compiled s)\<rparr>))))"

definition backoff :: time where "backoff = 30 * 1000000000"

definition failed :: "string \<Rightarrow> time \<Rightarrow> sched_error option \<Rightarrow> schedules \<Rightarrow> schedules" where
  "failed jid now err s =
     (case err of
        None \<Rightarrow>
          (let failures = del jid (sched_failures s) in
           s\<lparr>sched_failures := failures, sched_lastError := (if failures = [] then [] else sched_lastError s)\<rparr>)
      | Some e \<Rightarrow>
          s\<lparr>sched_failures := put jid (now + backoff) (sched_failures s),
            sched_lastError := ''A schedule could not be saved or started. Check application storage and schedule configuration.''\<rparr>)"

definition Health :: "schedules \<Rightarrow> string" where
  "Health s = sched_lastError s"

text \<open>A missing map entry reads as the zero value.\<close>

definition zero_job :: Schedule where
  "zero_job = \<lparr>job_ID = [], job_ProjectID = [], job_Root = [], job_Prompt = [], job_Cron = [], job_Timezone = [],
     job_Model = None, job_Paused = False, job_NextRun = 0, job_Runs = []\<rparr>"

definition the_job :: "string \<Rightarrow> schedules \<Rightarrow> Schedule" where
  "the_job jid s = (case get (sched_jobs s) jid of None \<Rightarrow> zero_job | Some j \<Rightarrow> j)"

definition failure_time :: "string \<Rightarrow> schedules \<Rightarrow> time" where
  "failure_time jid s = (case get (sched_failures s) jid of None \<Rightarrow> 0 | Some t \<Rightarrow> t)"

definition Start :: "schedules \<Rightarrow> schedules" where
  "Start s = (if sched_started s \<or> sched_closed s then s else s\<lparr>sched_started := True\<rparr>)"

definition cancel_flight :: "flight \<Rightarrow> flight" where
  "cancel_flight f = f\<lparr>fl_cancelled := True\<rparr>"

definition Close_schedules :: "schedules \<Rightarrow> schedules" where
  "Close_schedules s =
     (if sched_closed s then s
      else s\<lparr>sched_closed := True, sched_running := map (\<lambda>(jid, f). (jid, cancel_flight f)) (sched_running s)\<rparr>)"

definition replace_run :: "ScheduleRun \<Rightarrow> Schedule \<Rightarrow> Schedule" where
  "replace_run run job = job\<lparr>job_Runs := map (\<lambda>r. if run_ID r = run_ID run then run else r) (job_Runs job)\<rparr>"

definition finishLocked ::
  "sched_env \<Rightarrow> string \<Rightarrow> ScheduleRun \<Rightarrow> schedules \<Rightarrow> sched_error option \<times> schedules" where
  "finishLocked env jid run s =
     (case save_schedule env (replace_run run (the_job jid s)) s of
        (Some e, s) \<Rightarrow> (Some e, s)
      | (None, s) \<Rightarrow>
          (None, s\<lparr>sched_running := del jid (sched_running s), sched_pending := del jid (sched_pending s)\<rparr>))"

definition claimed_run :: "string \<Rightarrow> time \<Rightarrow> ScheduleRun" where
  "claimed_run fresh now = \<lparr>run_ID = fresh, run_SessionID = [], run_StartedAt = now, run_FinishedAt = None,
     run_Status = ''running'', run_Error = []\<rparr>"

definition claim_job :: "ScheduleRun \<Rightarrow> time \<Rightarrow> Schedule \<Rightarrow> Schedule" where
  "claim_job run next_time j = j\<lparr>job_NextRun := next_time, job_Runs := take 100 (run # job_Runs j)\<rparr>"

text \<open>\<open>startLocked\<close>: the occurrence is saved as running before its goroutine exists.\<close>

definition startLocked ::
  "sched_env \<Rightarrow> string \<Rightarrow> time \<Rightarrow> string \<Rightarrow> schedules \<Rightarrow> sched_error option \<times> schedules" where
  "startLocked env jid now fresh s =
     (if sched_closed s then (Some SchClosed, s)
      else if length (sched_running s) \<ge> 8 then (Some SchConcurrency, s)
      else if get (sched_running s) jid \<noteq> None then (Some SchRunning, s)
      else
        (let j = the_job jid s in
         if job_ID j = [] then (Some SchUnknown, s)
         else
           (case next_run env j now s of
              (Inl e, s) \<Rightarrow> (Some e, s)
            | (Inr t, s) \<Rightarrow>
                (let run = claimed_run fresh now; j = claim_job run t j in
                 case save_schedule env j s of
                   (Some e, s) \<Rightarrow> (Some e, s)
                 | (None, s) \<Rightarrow>
                     (None, s\<lparr>sched_running :=
                        put jid \<lparr>fl_job = j, fl_run = run, fl_cancelled = False\<rparr> (sched_running s)\<rparr>)))))"

fun retry_pending :: "sched_env \<Rightarrow> time \<Rightarrow> string list \<Rightarrow> schedules \<Rightarrow> schedules" where
  "retry_pending env now [] s = s"
| "retry_pending env now (jid # ids) s =
     (case get (sched_pending s) jid of
        None \<Rightarrow> retry_pending env now ids s
      | Some run \<Rightarrow>
          if now < failure_time jid s then retry_pending env now ids s
          else (let (e, s) = finishLocked env jid run s in retry_pending env now ids (failed jid now e s)))"

definition is_due :: "string \<Rightarrow> time \<Rightarrow> schedules \<Rightarrow> bool" where
  "is_due jid now s \<longleftrightarrow>
     (case get (sched_jobs s) jid of
        None \<Rightarrow> False
      | Some j \<Rightarrow> \<not> job_Paused j \<and> \<not> now < job_NextRun j \<and> get (sched_running s) jid = None
                  \<and> \<not> now < failure_time jid s)"

fun start_due :: "sched_env \<Rightarrow> time \<Rightarrow> (string \<Rightarrow> string) \<Rightarrow> string list \<Rightarrow> schedules \<Rightarrow> schedules" where
  "start_due env now fresh [] s = s"
| "start_due env now fresh (jid # ids) s =
     (if length (sched_running s) \<ge> 8 then s
      else if is_due jid now s
      then (let (e, s) = startLocked env jid now (fresh jid) s in
            start_due env now fresh ids (failed jid now e s))
      else start_due env now fresh ids s)"

text \<open>\<open>tick\<close>: the orders are those in which the two maps are visited.\<close>

definition tick ::
  "sched_env \<Rightarrow> time \<Rightarrow> (string \<Rightarrow> string) \<Rightarrow> string list \<Rightarrow> string list \<Rightarrow> schedules \<Rightarrow> schedules" where
  "tick env now fresh pending_order job_order s =
     (if sched_closed s then s
      else start_due env now fresh job_order (retry_pending env now pending_order s))"

section \<open>The goroutine of a run\<close>

datatype run_error = Canceled | RunError string

definition run_error_text :: "run_error \<Rightarrow> string" where
  "run_error_text e = (case e of Canceled \<Rightarrow> ''context canceled'' | RunError t \<Rightarrow> t)"

text \<open>What the goroutine checks before it calls the runner.\<close>

definition run_refused :: "sched_env \<Rightarrow> bool \<Rightarrow> flight \<Rightarrow> run_error option" where
  "run_refused env has_runner f =
     (if \<not> has_runner then Some (RunError ''schedule runner is unavailable'')
      else
        (case validateRoot env of
           None \<Rightarrow> None
         | Some validate \<Rightarrow>
             (case validate (job_ProjectID (fl_job f)) (job_Root (fl_job f)) of
                None \<Rightarrow> Some (RunError ''project root rejected'')
              | Some r \<Rightarrow> None)))"

definition set_session :: "string \<Rightarrow> string \<Rightarrow> Schedule \<Rightarrow> Schedule" where
  "set_session runID session job = job\<lparr>job_Runs :=
     map (\<lambda>r. if run_ID r = runID then r\<lparr>run_SessionID := session\<rparr> else r) (job_Runs job)\<rparr>"

definition admitted ::
  "sched_env \<Rightarrow> string \<Rightarrow> string \<Rightarrow> schedules \<Rightarrow> sched_error option \<times> schedules" where
  "admitted env jid session s =
     (case get (sched_running s) jid of
        None \<Rightarrow> (Some SchUnknown, s)
      | Some f \<Rightarrow>
          (case save_schedule env (set_session (run_ID (fl_run f)) session (the_job jid s)) s of
             (Some e, s) \<Rightarrow> (Some e, s)
           | (None, s) \<Rightarrow>
               (None, s\<lparr>sched_running :=
                  put jid (f\<lparr>fl_run := (fl_run f)\<lparr>run_SessionID := session\<rparr>\<rparr>) (sched_running s)\<rparr>)))"

definition finished_run :: "flight \<Rightarrow> run_error option \<Rightarrow> time \<Rightarrow> ScheduleRun" where
  "finished_run f err now =
     (let run = (fl_run f)\<lparr>run_FinishedAt := Some now, run_Status := ''completed''\<rparr>;
          run = (case err of None \<Rightarrow> run
                 | Some e \<Rightarrow> run\<lparr>run_Status := ''failed'', run_Error := run_error_text e\<rparr>)
      in if fl_cancelled f \<or> err = Some Canceled then run\<lparr>run_Status := ''interrupted''\<rparr> else run)"

text \<open>The end of the goroutine: a run that cannot be saved stays pending for the next tick.\<close>

definition finish_run ::
  "sched_env \<Rightarrow> string \<Rightarrow> run_error option \<Rightarrow> time \<Rightarrow> time \<Rightarrow> schedules \<Rightarrow> schedules" where
  "finish_run env jid err now later s =
     (case get (sched_running s) jid of
        None \<Rightarrow> s
      | Some f \<Rightarrow>
          (let run = finished_run f err now in
           case finishLocked env jid run s of
             (None, s) \<Rightarrow> s
           | (Some e, s) \<Rightarrow> failed jid later (Some e) (s\<lparr>sched_pending := put jid run (sched_pending s)\<rparr>)))"

section \<open>The runner\<close>

record SessionSettlement =
  StopReason :: string
  ErrorMessage :: string

text \<open>
  \<open>runSchedule\<close> of the session manager, over what its calls answer: the created session, whether the
  run is cancelled after admission, \<open>Prompt\<close>, \<open>entry\<close>, and the wait for the prompt to end (\<open>None\<close> when
  the cancellation came first). The first component says whether \<open>Prompt\<close> was called.
\<close>

record runner_calls =
  rc_created :: "run_error + string"
  rc_cancelled :: bool
  rc_prompt :: "run_error option"
  rc_entry :: "run_error option"
  rc_settled :: "SessionSettlement option option"

definition settlement_error :: "SessionSettlement option \<Rightarrow> run_error option" where
  "settlement_error settlement =
     (case settlement of
        None \<Rightarrow> None
      | Some t \<Rightarrow>
          if StopReason t \<in> {''aborted'', ''cancelled'', ''canceled''} then Some Canceled
          else if StopReason t = ''error'' then Some (RunError (ErrorMessage t))
          else None)"

definition runSchedule ::
  "sched_env \<Rightarrow> string \<Rightarrow> runner_calls \<Rightarrow> schedules \<Rightarrow> bool \<times> run_error option \<times> schedules" where
  "runSchedule env jid calls s =
     (case rc_created calls of
        Inl e \<Rightarrow> (False, Some e, s)
      | Inr session \<Rightarrow>
          if session = [] then (False, Some (RunError ''scheduled session has no ID''), s)
          else
            (case admitted env jid session s of
               (Some e, s) \<Rightarrow> (False, Some (RunError ''the run could not be recorded''), s)
             | (None, s) \<Rightarrow>
                 if rc_cancelled calls then (False, Some Canceled, s)
                 else
                   (case rc_prompt calls of
                      Some e \<Rightarrow> (True, Some e, s)
                    | None \<Rightarrow>
                        (case rc_entry calls of
                           Some e \<Rightarrow> (True, Some e, s)
                         | None \<Rightarrow>
                             (case rc_settled calls of
                                None \<Rightarrow> (True, Some Canceled, s)
                              | Some settlement \<Rightarrow> (True, settlement_error settlement, s))))))"

section \<open>Requests\<close>

record queueRequestIdentity =
  ri_Key :: string
  ri_Fingerprint :: string

type_synonym params = "(string \<times> json) list"

datatype sched_value = JobList "Schedule list" | JobValue Schedule | JsonValue json

text \<open>The identity of a mutation: the caller's, or the one derived from \<open>mutationId\<close>.\<close>

definition mutation_identity ::
  "sched_env \<Rightarrow> queueRequestIdentity \<Rightarrow> string \<Rightarrow> string \<Rightarrow> params \<Rightarrow> sched_error + queueRequestIdentity" where
  "mutation_identity env caller meth projectID p =
     (let key = textValue (field p ''mutationId'') in
      if key = [] then Inr caller
      else if length key > 128 \<or> containsNUL key then Inl SchInvalidMutation
      else Inr \<lparr>ri_Key = sha256_hex env (projectID @ [CHR 0x00] @ key),
                 ri_Fingerprint = sha256_hex env (meth @ [CHR 0x00] @ encode_params env p)\<rparr>)"

definition is_save_method :: "string \<Rightarrow> bool" where
  "is_save_method meth \<longleftrightarrow> meth = ''schedule.create'' \<or> meth = ''schedule.update''"

text \<open>The answer recorded for an identity, if it was handled before.\<close>

definition recorded ::
  "sched_env \<Rightarrow> string \<Rightarrow> queueRequestIdentity \<Rightarrow> scheduleOperation list \<Rightarrow> (sched_error + sched_value) option" where
  "recorded env meth identity ops =
     (case find (\<lambda>op. so_Key op = ri_Key identity) ops of
        None \<Rightarrow> None
      | Some op \<Rightarrow>
          Some (if so_Fingerprint op \<noteq> ri_Fingerprint identity then Inl SchMutationReused
                else (case so_Result op of
                        None \<Rightarrow> Inl SchBadResult
                      | Some v \<Rightarrow>
                          if is_save_method meth
                          then (case decode_job env v of None \<Rightarrow> Inl SchBadResult | Some j \<Rightarrow> Inr (JobValue j))
                          else Inr (JsonValue v))))"

definition new_job :: "sched_env \<Rightarrow> string \<Rightarrow> params \<Rightarrow> string \<Rightarrow> sched_error + Schedule" where
  "new_job env projectID p fresh =
     (let asked = textValue (field p ''root'') in
      case (case validateRoot env of None \<Rightarrow> Some asked | Some validate \<Rightarrow> validate projectID asked) of
        None \<Rightarrow> Inl SchRootRejected
      | Some root \<Rightarrow>
          (let j = \<lparr>job_ID = fresh, job_ProjectID = projectID, job_Root = root,
                job_Prompt = textValue (field p ''prompt''), job_Cron = textValue (field p ''cron''),
                job_Timezone = textValue (field p ''timezone''), job_Model = None, job_Paused = False,
                job_NextRun = 0, job_Runs = []\<rparr>
           in case get p ''model'' of
                None \<Rightarrow> Inr j
              | Some model \<Rightarrow>
                  (case decode_model env model of
                     None \<Rightarrow> Inl SchInvalidModel
                   | Some m \<Rightarrow> if model_ID m = [] \<or> model_Provider m = [] then Inl SchInvalidModel
                              else Inr (j\<lparr>job_Model := Some m\<rparr>))))"

text \<open>An optional text parameter over the current value.\<close>

definition text_param :: "params \<Rightarrow> string \<Rightarrow> string \<Rightarrow> string option" where
  "text_param p k current = (case get p k of None \<Rightarrow> Some current | Some v \<Rightarrow> as_string v)"

definition edit_job :: "params \<Rightarrow> Schedule \<Rightarrow> sched_error + Schedule" where
  "edit_job p j =
     (case (text_param p ''cron'' (job_Cron j), text_param p ''timezone'' (job_Timezone j),
            text_param p ''prompt'' (job_Prompt j)) of
        (Some c, Some z, Some t) \<Rightarrow>
          (let j = j\<lparr>job_Cron := c, job_Timezone := z, job_Prompt := t\<rparr> in
           case get p ''paused'' of
             None \<Rightarrow> Inr j
           | Some (JBool b) \<Rightarrow> Inr (j\<lparr>job_Paused := b\<rparr>)
           | Some _ \<Rightarrow> Inl SchInvalidPaused)
      | _ \<Rightarrow> Inl SchInvalidField)"

definition put_job :: "sched_env \<Rightarrow> time \<Rightarrow> Schedule \<Rightarrow> schedules \<Rightarrow> (sched_error + sched_value) \<times> schedules" where
  "put_job env now j s =
     (let j = (if job_Timezone j = [] then j\<lparr>job_Timezone := ''UTC''\<rparr> else j) in
      if TrimSpace (job_Prompt j) = [] \<or> length (job_Prompt j) > 64 * 1024 \<or> containsNUL (job_Prompt j)
      then (Inl SchInvalidPrompt, s)
      else
        (case next_run env j now s of
           (Inl e, s) \<Rightarrow> (Inl e, s)
         | (Inr t, s) \<Rightarrow>
             (let j = j\<lparr>job_NextRun := t\<rparr> in
              case save_schedule env j s of
                (Some e, s) \<Rightarrow> (Inl e, s)
              | (None, s) \<Rightarrow> (Inr (JobValue j), s))))"

definition acked :: "sched_error option \<Rightarrow> sched_error + sched_value" where
  "acked e = (case e of None \<Rightarrow> Inr (JsonValue ok_result) | Some err \<Rightarrow> Inl err)"

definition delete_job :: "sched_env \<Rightarrow> string \<Rightarrow> Schedule \<Rightarrow> schedules \<Rightarrow> (sched_error + sched_value) \<times> schedules" where
  "delete_job env jid j s =
     (if get (sched_running s) jid \<noteq> None then (Inl SchStopBeforeDelete, s)
      else
        (case write_schedules env WriteNothing (s\<lparr>sched_jobs := del jid (sched_jobs s)\<rparr>) of
           (Some e, s) \<Rightarrow> (Inl e, s\<lparr>sched_jobs := put jid j (sched_jobs s)\<rparr>)
         | (None, s) \<Rightarrow>
             (let failures = del jid (sched_failures s) in
              (acked None,
               s\<lparr>sched_compiled := del jid (sched_compiled s), sched_failures := failures,
                 sched_lastError := (if failures = [] then [] else sched_lastError s)\<rparr>))))"

definition stop_job :: "sched_env \<Rightarrow> string \<Rightarrow> schedules \<Rightarrow> (sched_error + sched_value) \<times> schedules" where
  "stop_job env jid s =
     (case write_schedules env WriteNothing s of
        (Some e, s) \<Rightarrow> (Inl e, s)
      | (None, s) \<Rightarrow>
          (case get (sched_running s) jid of
             None \<Rightarrow> (acked None, s)
           | Some f \<Rightarrow> (acked None, s\<lparr>sched_running := put jid (cancel_flight f) (sched_running s)\<rparr>)))"

text \<open>A mutation whose identity is new, from the lookup of the job on.\<close>

definition mutate ::
  "sched_env \<Rightarrow> time \<Rightarrow> string \<Rightarrow> string \<Rightarrow> string \<Rightarrow> params \<Rightarrow> schedules \<Rightarrow>
     (sched_error + sched_value) \<times> schedules" where
  "mutate env now fresh meth projectID p s =
     (let jid = textValue (field p ''scheduleId''); current = the_job jid s in
      if meth = ''schedule.create''
      then (case new_job env projectID p fresh of Inl e \<Rightarrow> (Inl e, s) | Inr j \<Rightarrow> put_job env now j s)
      else if job_ID current = [] \<or> job_ProjectID current \<noteq> projectID then (Inl SchUnknownProjectSchedule, s)
      else if meth = ''schedule.update''
      then (if get (sched_running s) jid \<noteq> None
               \<and> list_ex (\<lambda>k. get p k \<noteq> None) [''cron'', ''timezone'', ''prompt'']
            then (Inl SchStopBeforeEdit, s)
            else (case edit_job p current of Inl e \<Rightarrow> (Inl e, s) | Inr j \<Rightarrow> put_job env now j s))
      else if meth = ''schedule.delete'' then delete_job env jid current s
      else if meth = ''schedule.runNow''
      then (let (e, s) = startLocked env jid now fresh s in (acked e, s))
      else if meth = ''schedule.stop'' then stop_job env jid s
      else (Inl SchUnknownOperation, s))"

text \<open>The deferred reset of the pending operation runs on every path after it is set.\<close>

definition end_operation :: "schedules \<Rightarrow> schedules" where
  "end_operation s = s\<lparr>sched_operation := None, sched_method := []\<rparr>"

definition Handle ::
  "sched_env \<Rightarrow> time \<Rightarrow> string \<Rightarrow> queueRequestIdentity \<Rightarrow> string \<Rightarrow> params \<Rightarrow> schedules \<Rightarrow>
     (sched_error + sched_value) \<times> schedules" where
  "Handle env now fresh caller meth p s =
     (let projectID = textValue (field p ''projectId'') in
      if projectID = [] then (Inl SchProjectRequired, s)
      else if sched_closed s then (Inl SchClosed, s)
      else if meth = ''schedule.list''
      then (Inr (JobList (sort_key (\<lambda>j. map of_char (job_ID j) :: nat list)
              (filter (\<lambda>j. job_ProjectID j = projectID) (map snd (sched_jobs s))))), s)
      else
        (case mutation_identity env caller meth projectID p of
           Inl e \<Rightarrow> (Inl e, s)
         | Inr identity \<Rightarrow>
             if ri_Key identity = [] then mutate env now fresh meth projectID p s
             else
               (case recorded env meth identity (sched_operations s) of
                  Some answer \<Rightarrow> (answer, s)
                | None \<Rightarrow>
                    (let (res, s) = mutate env now fresh meth projectID p
                        (s\<lparr>sched_operation := Some \<lparr>so_Key = ri_Key identity,
                              so_Fingerprint = ri_Fingerprint identity, so_Result = None\<rparr>,
                           sched_method := meth\<rparr>)
                     in (res, end_operation s)))))"

lemmas schedule_ops [op_defs] =
  write_schedules_def save_schedule_def next_run_def failed_def finishLocked_def startLocked_def
  admitted_def finish_run_def put_job_def delete_job_def stop_job_def mutate_def Handle_def

end
