(* ===== verification/ScheduleSafety.thy ===== *)
theory ScheduleSafety
  imports Schedules
begin

text \<open>
  What the scheduler promises: its bounds hold in every reachable state, an occurrence is durable before
  its prompt is sent, a restart pauses an unfinished run instead of repeating it, a repeated mutation
  returns the recorded answer, a failed request changes nothing, and a tick attends to every due job.
\<close>

section \<open>What the steps change\<close>

lemma length_with_operation:
  "with_operation env res s = Some ops \<Longrightarrow> length (sched_operations s) \<le> 512 \<Longrightarrow> length ops \<le> 512"
  by (auto simp: with_operation_def Let_def split: option.splits)

lemma with_operation_jobs [simp]:
  "with_operation env res (s\<lparr>sched_jobs := x\<rparr>) = with_operation env res s"
  by (cases "sched_operation s") (simp_all add: with_operation_def)

lemma write_shape:
  assumes "write_schedules env res s = (e, s')"
  obtains (kept) w err where "e = Some err" "s' = s\<lparr>sched_disk := w\<rparr>"
  | (written) w ops where "e = None" "s' = s\<lparr>sched_disk := w, sched_operations := ops\<rparr>"
      "with_operation env res s = Some ops" "length (sched_jobs s) \<le> 1000"
      "Write (disk_codec env) (\<lambda>_. True) (store_file env) (fst (store_temps env)) (snd (store_temps env))
         \<lparr>sd_Version = 1, sd_Jobs = Some (sched_jobs s), sd_Operations = ops\<rparr> (sched_disk s) = (True, w)"
proof -
  obtain err where "(\<exists>w. e = Some err \<and> s' = s\<lparr>sched_disk := w\<rparr>) \<or> (\<exists>w ops. e = None
      \<and> s' = s\<lparr>sched_disk := w, sched_operations := ops\<rparr> \<and> with_operation env res s = Some ops
      \<and> length (sched_jobs s) \<le> 1000
      \<and> Write (disk_codec env) (\<lambda>_. True) (store_file env) (fst (store_temps env)) (snd (store_temps env))
         \<lparr>sd_Version = 1, sd_Jobs = Some (sched_jobs s), sd_Operations = ops\<rparr> (sched_disk s) = (True, w))"
  proof (cases "length (sched_jobs s) > 1000 \<or> with_operation env res s = None")
    case True
    then have "s' = s\<lparr>sched_disk := sched_disk s\<rparr> \<and> e \<noteq> None"
      using assms by (auto simp: write_schedules_def split: if_splits)
    with that show ?thesis by blast
  next
    case False
    then obtain ops where ops: "with_operation env res s = Some ops" by auto
    with False assms that show ?thesis
      by (auto simp: write_schedules_def split: prod.splits if_splits)
  qed
  with kept written show ?thesis by metis
qed

definition saved :: "sched_env \<Rightarrow> (string \<times> Schedule) list \<Rightarrow> scheduleOperation list \<Rightarrow> world \<Rightarrow> world \<Rightarrow> bool" where
  "saved env jobs ops w w' \<longleftrightarrow>
     Write (disk_codec env) (\<lambda>_. True) (store_file env) (fst (store_temps env)) (snd (store_temps env))
       \<lparr>sd_Version = 1, sd_Jobs = Some jobs, sd_Operations = ops\<rparr> w = (True, w')"

lemma save_shape:
  assumes "save_schedule env job s = (e, s')"
  obtains (kept) w err where "e = Some err" "s' = s\<lparr>sched_disk := w\<rparr>"
  | (written) w ops where "e = None"
      "s' = s\<lparr>sched_jobs := put (job_ID job) job (sched_jobs s), sched_disk := w, sched_operations := ops\<rparr>"
      "with_operation env (WriteJob job) s = Some ops" "length (put (job_ID job) job (sched_jobs s)) \<le> 1000"
      "saved env (put (job_ID job) job (sched_jobs s)) ops (sched_disk s) w"
proof -
  let ?s = "s\<lparr>sched_jobs := put (job_ID job) job (sched_jobs s)\<rparr>"
  obtain e1 s1 where w: "write_schedules env (WriteJob job) ?s = (e1, s1)" by force
  then show ?thesis
  proof (cases rule: write_shape)
    case (kept w err)
    with w assms have "e = Some err" "s' = s\<lparr>sched_disk := w\<rparr>"
      by (auto simp: save_schedule_def Let_def split: option.splits)
    then show ?thesis by (rule that(1))
  next
    case (written w ops)
    with w assms have es: "e = None" "s' = s1" by (auto simp: save_schedule_def)
    show ?thesis
      by (rule that(2) [where w = w and ops = ops]) (use es written in \<open>simp_all add: saved_def\<close>)
  qed
qed


text \<open>Every job is kept under its own identifier, with a bounded history; at most eight goroutines run,
  each for a job whose record says so; a run waits to be saved only while its goroutine holds its place.\<close>

definition claims :: "(string \<times> Schedule) list \<Rightarrow> string \<Rightarrow> flight \<Rightarrow> bool" where
  "claims jobs jid f \<longleftrightarrow> (\<exists>j. get jobs jid = Some j \<and>
     (\<exists>r \<in> set (job_Runs j). run_ID r = run_ID (fl_run f) \<and> run_Status r = ''running''))"

definition job_ok :: "string \<Rightarrow> Schedule \<Rightarrow> bool" where
  "job_ok jid j \<longleftrightarrow> job_ID j = jid \<and> jid \<noteq> [] \<and> length (job_Runs j) \<le> 100"

definition sched_ok :: "schedules \<Rightarrow> bool" where
  "sched_ok s \<longleftrightarrow>
     unique_keys (sched_jobs s) \<and> length (sched_jobs s) \<le> 1000 \<and>
     (\<forall>jid j. get (sched_jobs s) jid = Some j \<longrightarrow> job_ok jid j) \<and>
     length (sched_operations s) \<le> 512 \<and>
     unique_keys (sched_running s) \<and> length (sched_running s) \<le> 8 \<and>
     (\<forall>jid f. get (sched_running s) jid = Some f \<longrightarrow> claims (sched_jobs s) jid f) \<and>
     (\<forall>jid r. get (sched_pending s) jid = Some r \<longrightarrow> get (sched_running s) jid \<noteq> None)"

lemma sched_ok_disk [simp]: "sched_ok (s\<lparr>sched_disk := w\<rparr>) = sched_ok s"
  by (simp add: sched_ok_def)

lemma sched_ok_compiled [simp]: "sched_ok (s\<lparr>sched_compiled := w\<rparr>) = sched_ok s"
  by (simp add: sched_ok_def)

lemma sched_ok_operation [simp]:
  "sched_ok (s\<lparr>sched_operation := x, sched_method := y\<rparr>) = sched_ok s"
  by (simp add: sched_ok_def)

lemma sched_ok_failures [simp]:
  "sched_ok (s\<lparr>sched_failures := x, sched_lastError := y\<rparr>) = sched_ok s"
  by (simp add: sched_ok_def)

lemma claims_put:
  "claims jobs k f \<Longrightarrow> (k = jid \<Longrightarrow> claims [(jid, j)] jid f) \<Longrightarrow> claims (put jid j jobs) k f"
  by (auto simp: claims_def)

lemma save_ok:
  assumes "sched_ok s" "save_schedule env job s = (e, s')" "job_ok (job_ID job) job"
    and "\<And>f. get (sched_running s) (job_ID job) = Some f \<Longrightarrow> claims [(job_ID job, job)] (job_ID job) f"
  shows "sched_ok s'"
  using assms(2)
proof (cases rule: save_shape)
  case (kept w err)
  with assms(1) show ?thesis by simp
next
  case (written w ops)
  have "\<forall>jid f. get (sched_running s) jid = Some f \<longrightarrow> claims (put (job_ID job) job (sched_jobs s)) jid f"
    using assms(1,4) by (auto simp: sched_ok_def intro!: claims_put)
  moreover have "length ops \<le> 512"
    using length_with_operation [OF written(3)] assms(1) by (simp add: sched_ok_def)
  ultimately show ?thesis
    using assms(1,3) written(2,4) by (simp add: sched_ok_def)
qed

lemma write_ok:
  assumes "sched_ok s" "write_schedules env res s = (e, s')"
  shows "sched_ok s'"
  using assms(2)
proof (cases rule: write_shape)
  case (written w ops)
  with length_with_operation [OF written(3)] assms(1) show ?thesis by (simp add: sched_ok_def)
qed (use assms(1) in simp)

lemma next_run_shape:
  "next_run env job now s = (res, s') \<Longrightarrow> \<exists>c. s' = s\<lparr>sched_compiled := c\<rparr>"
  by (auto simp: next_run_def Let_def split: option.splits sum.splits if_splits prod.splits
      intro: exI [of _ "sched_compiled s"])

lemma failed_ok [simp]: "sched_ok (failed jid now e s) = sched_ok s"
  by (simp add: failed_def Let_def split: option.splits)

lemma replace_run_ok:
  "job_ok jid (replace_run run j) = job_ok jid j" "job_ID (replace_run run j) = job_ID j"
  by (simp_all add: job_ok_def replace_run_def)

lemma the_job_Some: "get (sched_jobs s) jid = Some j \<Longrightarrow> the_job jid s = j"
  by (simp add: the_job_def)

text \<open>Saving the end of a run removes its claim, so the place of its goroutine goes in the same step.\<close>

lemma finishLocked_ok:
  assumes ok: "sched_ok s" and run: "get (sched_running s) jid = Some f"
    and fin: "finishLocked env jid run s = (e, s')"
  shows "sched_ok s'"
proof -
  from ok run obtain j where j: "get (sched_jobs s) jid = Some j" "job_ok jid j"
    by (force simp: sched_ok_def claims_def)
  let ?j = "replace_run run j"
  obtain e1 s1 where sv: "save_schedule env ?j s = (e1, s1)" by force
  have jid: "job_ID j = jid" using j(2) by (simp add: job_ok_def)
  from sv show ?thesis
  proof (cases rule: save_shape)
    case (kept w err)
    with fin sv ok show ?thesis by (auto simp: finishLocked_def the_job_Some [OF j(1)])
  next
    case (written w ops)
    then have s': "s' = s1\<lparr>sched_running := del jid (sched_running s1), sched_pending := del jid (sched_pending s1)\<rparr>"
      using fin sv by (simp add: finishLocked_def the_job_Some [OF j(1)])
    have "length ops \<le> 512" using length_with_operation [OF written(3)] ok by (simp add: sched_ok_def)
    moreover have "length (del jid (sched_running s)) \<le> 8"
      using ok length_del_le [of jid "sched_running s"] by (simp add: sched_ok_def del: length_del_le)
    moreover have "\<forall>k g. k \<noteq> jid \<longrightarrow> get (sched_running s) k = Some g \<longrightarrow> claims (put jid ?j (sched_jobs s)) k g"
      using ok by (auto simp: sched_ok_def intro!: claims_put)
    ultimately show ?thesis
      using ok j written(2,4) unfolding s' by (simp add: sched_ok_def jid replace_run_ok)
  qed
qed


lemma running_put_ok:
  assumes "sched_ok s" "claims (sched_jobs s) jid f"
    and "get (sched_running s) jid = None \<Longrightarrow> length (sched_running s) < 8"
  shows "sched_ok (s\<lparr>sched_running := put jid f (sched_running s)\<rparr>)"
proof -
  have "length (put jid f (sched_running s)) \<le> 8"
  proof (cases "get (sched_running s) jid")
    case None
    with assms(3) show ?thesis by (simp add: get_None_iff)
  next
    case (Some g)
    with assms(1) get_Some_key [OF Some] show ?thesis by (simp add: sched_ok_def)
  qed
  with assms(1,2) show ?thesis by (simp add: sched_ok_def)
qed

lemma startLocked_cases:
  assumes "startLocked env jid now fresh s = (e, s')"
  obtains (refused) err c w where "e = Some err" "s' = s\<lparr>sched_compiled := c, sched_disk := w\<rparr>"
  | (claimed) j t c w ops where "e = None" "\<not> sched_closed s" "length (sched_running s) < 8"
      "get (sched_running s) jid = None" "the_job jid s = j" "job_ID j \<noteq> []"
      "next_run env j now s = (Inr t, s\<lparr>sched_compiled := c\<rparr>)"
      "save_schedule env (claim_job (claimed_run fresh now) t j) (s\<lparr>sched_compiled := c\<rparr>) =
         (None, s\<lparr>sched_compiled := c, sched_jobs := put (job_ID j) (claim_job (claimed_run fresh now) t j) (sched_jobs s),
                sched_disk := w, sched_operations := ops\<rparr>)"
      "with_operation env (WriteJob (claim_job (claimed_run fresh now) t j)) s = Some ops"
      "saved env (put (job_ID j) (claim_job (claimed_run fresh now) t j) (sched_jobs s)) ops (sched_disk s) w"
      "s' = s\<lparr>sched_compiled := c, sched_jobs := put (job_ID j) (claim_job (claimed_run fresh now) t j) (sched_jobs s),
             sched_disk := w, sched_operations := ops, sched_running :=
             put jid \<lparr>fl_job = claim_job (claimed_run fresh now) t j, fl_run = claimed_run fresh now,
                       fl_cancelled = False\<rparr> (sched_running s)\<rparr>"
proof (cases "sched_closed s \<or> length (sched_running s) \<ge> 8 \<or> get (sched_running s) jid \<noteq> None \<or> job_ID (the_job jid s) = []")
  case True
  then have "\<exists>err. e = Some err \<and> s' = s\<lparr>sched_compiled := sched_compiled s, sched_disk := sched_disk s\<rparr>"
    using assms by (auto simp: startLocked_def Let_def split: if_splits)
  with refused show ?thesis by blast
next
  case False
  let ?j = "the_job jid s"
  obtain res s1 where nx: "next_run env ?j now s = (res, s1)" by force
  from next_run_shape [OF nx] obtain c where s1: "s1 = s\<lparr>sched_compiled := c\<rparr>" by blast
  show ?thesis
  proof (cases res)
    case (Inl err)
    with False assms nx s1 have "e = Some err \<and> s' = s\<lparr>sched_compiled := c, sched_disk := sched_disk s\<rparr>"
      by (auto simp: startLocked_def Let_def)
    with refused show ?thesis by blast
  next
    case (Inr t)
    let ?k = "claim_job (claimed_run fresh now) t ?j"
    have ik: "job_ID ?k = job_ID ?j" by (simp add: claim_job_def)
    obtain e2 s2 where sv: "save_schedule env ?k s1 = (e2, s2)" by force
    from sv show ?thesis
    proof (cases rule: save_shape)
      case (kept w err)
      with False assms nx Inr sv s1 have "e = Some err \<and> s' = s\<lparr>sched_compiled := c, sched_disk := w\<rparr>"
        by (auto simp: startLocked_def Let_def)
      with refused show ?thesis by blast
    next
      case (written w ops)
      have "with_operation env (WriteJob ?k) s1 = with_operation env (WriteJob ?k) s"
        by (cases "sched_operation s") (simp_all add: with_operation_def s1)
      moreover from False assms nx Inr sv written(1,2) s1 have "e = None"
        "s' = s2\<lparr>sched_running := put jid \<lparr>fl_job = ?k, fl_run = claimed_run fresh now, fl_cancelled = False\<rparr> (sched_running s2)\<rparr>"
        by (auto simp: startLocked_def Let_def)
      ultimately show ?thesis
        using claimed [where j = ?j and t = t and c = c and w = w and ops = ops] False nx Inr sv written s1 by (simp add: ik)
    qed
  qed
qed

lemma startLocked_ok:
  assumes ok: "sched_ok s" and st: "startLocked env jid now fresh s = (e, s')"
  shows "sched_ok s'"
  using st
proof (cases rule: startLocked_cases)
  case (refused err c w)
  with ok show ?thesis by simp
next
  case (claimed j t c w ops)
  let ?k = "claim_job (claimed_run fresh now) t j"
  have j: "get (sched_jobs s) jid = Some j" "job_ID j = jid" "jid \<noteq> []"
    using ok claimed(5,6) by (auto simp: sched_ok_def the_job_def zero_job_def job_ok_def split: option.splits)
  have k: "job_ok jid ?k" "job_ID ?k = jid" using j by (simp_all add: job_ok_def claim_job_def)
  have "sched_ok (s\<lparr>sched_compiled := c, sched_jobs := put (job_ID j) ?k (sched_jobs s), sched_disk := w, sched_operations := ops\<rparr>)"
    by (rule save_ok [OF _ claimed(8)]) (use ok j k claimed(4) in simp_all)
  moreover have "claims [(jid, ?k)] jid \<lparr>fl_job = ?k, fl_run = claimed_run fresh now, fl_cancelled = False\<rparr>"
    by (simp add: claims_def claim_job_def claimed_run_def take_Cons')
  then have "claims (put (job_ID j) ?k (sched_jobs s)) jid \<lparr>fl_job = ?k, fl_run = claimed_run fresh now, fl_cancelled = False\<rparr>"
    using j(2) by (simp add: claims_def)
  ultimately show ?thesis
    using claimed(3) running_put_ok [where jid = jid and f = "\<lparr>fl_job = ?k, fl_run = claimed_run fresh now, fl_cancelled = False\<rparr>"]
    unfolding claimed(11) by fastforce
qed

lemma start_due_ok: "sched_ok s \<Longrightarrow> sched_ok (start_due env now fresh jids s)"
proof (induction jids arbitrary: s)
  case (Cons jid jids)
  obtain e s' where st: "startLocked env jid now (fresh jid) s = (e, s')" by force
  with startLocked_ok [OF Cons.prems st] Cons show ?case by simp
qed simp

lemma retry_pending_ok: "sched_ok s \<Longrightarrow> sched_ok (retry_pending env now jids s)"
proof (induction jids arbitrary: s)
  case (Cons jid jids)
  show ?case
  proof (cases "get (sched_pending s) jid")
    case (Some run)
    with Cons.prems obtain f where f: "get (sched_running s) jid = Some f" by (force simp: sched_ok_def)
    obtain e s' where "finishLocked env jid run s = (e, s')" by force
    with finishLocked_ok [OF Cons.prems f this] Cons Some show ?thesis by simp
  qed (simp add: Cons)
qed simp

lemma tick_ok: "sched_ok s \<Longrightarrow> sched_ok (tick env now fresh pend order s)"
  by (simp add: tick_def start_due_ok retry_pending_ok)

lemma running_job:
  assumes "sched_ok s" "get (sched_running s) jid = Some f"
  obtains j r where "get (sched_jobs s) jid = Some j" "job_ok jid j" "the_job jid s = j"
    "r \<in> set (job_Runs j)" "run_ID r = run_ID (fl_run f)" "run_Status r = ''running''"
  using assms by (force simp: sched_ok_def claims_def the_job_def)

lemma admitted_ok:
  assumes ok: "sched_ok s"
  shows "sched_ok (snd (admitted env jid session s))"
proof (cases "get (sched_running s) jid")
  case (Some f)
  obtain j r where j: "get (sched_jobs s) jid = Some j" "job_ok jid j" "the_job jid s = j"
    and r: "r \<in> set (job_Runs j)" "run_ID r = run_ID (fl_run f)" "run_Status r = ''running''"
    using running_job [OF ok Some] by blast
  let ?j = "set_session (run_ID (fl_run f)) session j"
  let ?f = "f\<lparr>fl_run := (fl_run f)\<lparr>run_SessionID := session\<rparr>\<rparr>"
  have jid: "job_ID ?j = jid" "job_ok jid ?j" using j(2) by (simp_all add: job_ok_def set_session_def)
  have cl: "claims [(jid, ?j)] jid g" if "run_ID (fl_run g) = run_ID (fl_run f)" for g
  proof -
    have "r\<lparr>run_SessionID := session\<rparr> \<in> set (job_Runs ?j)"
      using r by (auto simp: set_session_def)
    then show ?thesis using r that by (auto simp: claims_def intro!: bexI [of _ "r\<lparr>run_SessionID := session\<rparr>"])
  qed
  obtain e s1 where sv: "save_schedule env ?j s = (e, s1)" by force
  have ok1: "sched_ok s1"
    by (rule save_ok [OF ok sv]) (use jid cl Some in auto)
  have adm: "admitted env jid session s = (case e of Some err \<Rightarrow> (Some err, s1)
      | None \<Rightarrow> (None, s1\<lparr>sched_running := put jid ?f (sched_running s1)\<rparr>))"
    by (simp add: admitted_def Some j(3) sv split: option.splits)
  from sv show ?thesis
  proof (cases rule: save_shape)
    case (written w ops)
    have "claims (sched_jobs s1) jid ?f" using cl [of ?f] by (simp add: written(2) claims_def jid(1))
    moreover have "sched_running s1 = sched_running s" by (simp add: written(2))
    ultimately have "sched_ok (s1\<lparr>sched_running := put jid ?f (sched_running s1)\<rparr>)"
      using running_put_ok [OF ok1, of jid ?f] Some by simp
    then show ?thesis unfolding adm by (simp add: written(1))
  qed (use ok ok1 in \<open>simp add: adm\<close>)
qed (simp add: admitted_def ok)

lemma finish_run_ok:
  assumes ok: "sched_ok s"
  shows "sched_ok (finish_run env jid err now later s)"
proof (cases "get (sched_running s) jid")
  case (Some f)
  obtain e s1 where fin: "finishLocked env jid (finished_run f err now) s = (e, s1)" by force
  from finishLocked_ok [OF ok Some fin] have ok1: "sched_ok s1" .
  have "get (sched_running s1) jid \<noteq> None" if "e \<noteq> None"
  proof -
    obtain e2 s2 where "save_schedule env (replace_run (finished_run f err now) (the_job jid s)) s = (e2, s2)" by force
    with fin that show ?thesis
      by (auto simp: finishLocked_def Some elim: save_shape split: option.splits)
  qed
  with ok1 have "e \<noteq> None \<Longrightarrow> sched_ok (s1\<lparr>sched_pending := put jid r (sched_pending s1)\<rparr>)" for r
    by (simp add: sched_ok_def)
  with ok1 Some fin show ?thesis by (auto simp: finish_run_def Let_def split: option.splits)
qed (simp add: finish_run_def ok)

lemma put_job_ok:
  assumes ok: "sched_ok s" and put: "put_job env now j s = (res, s')" and jok: "job_ok (job_ID j) j"
    and cl: "\<And>f. get (sched_running s) (job_ID j) = Some f \<Longrightarrow> claims [(job_ID j, j)] (job_ID j) f"
  shows "sched_ok s'"
proof -
  let ?j = "if job_Timezone j = [] then j\<lparr>job_Timezone := ''UTC''\<rparr> else j"
  obtain r1 s1 where nx: "next_run env ?j now s = (r1, s1)" by force
  from next_run_shape [OF nx] obtain c where s1: "s1 = s\<lparr>sched_compiled := c\<rparr>" by blast
  show ?thesis
  proof (cases r1)
    case (Inl e)
    then have "s' = s \<or> s' = s1" using put nx by (auto simp: put_job_def Let_def split: if_splits)
    with ok s1 show ?thesis by auto
  next
    case (Inr t)
    let ?k = "?j\<lparr>job_NextRun := t\<rparr>"
    obtain e s2 where sv: "save_schedule env ?k s1 = (e, s2)" by force
    have kid: "job_ID ?k = job_ID j" "job_Runs ?k = job_Runs j" by simp_all
    have "sched_ok s1" "sched_running s1 = sched_running s" using ok s1 by simp_all
    then have "sched_ok s2"
      using save_ok [OF _ sv, unfolded job_ok_def claims_def kid] jok cl by (simp add: job_ok_def claims_def kid)
    moreover have "s' = s \<or> s' = s2"
      using put nx Inr sv by (auto simp: put_job_def Let_def split: if_splits option.splits)
    ultimately show ?thesis using ok by auto
  qed
qed

lemma delete_job_ok:
  assumes ok: "sched_ok s" and del: "delete_job env jid j s = (res, s')"
    and j: "get (sched_jobs s) jid = Some j"
  shows "sched_ok s'"
proof (cases "get (sched_running s) jid")
  case None
  let ?s = "s\<lparr>sched_jobs := del jid (sched_jobs s)\<rparr>"
  have okd: "sched_ok ?s"
  proof -
    have "length (del jid (sched_jobs s)) \<le> 1000"
      using ok length_delete_le [of jid "sched_jobs s"] unfolding sched_ok_def by linarith
    moreover have "claims (del jid (sched_jobs s)) k f" if "get (sched_running s) k = Some f" for k f
      using ok None that by (auto simp: sched_ok_def claims_def)
    ultimately show ?thesis using ok by (simp add: sched_ok_def)
  qed
  obtain e s1 where wr: "write_schedules env WriteNothing ?s = (e, s1)" by force
  from wr show ?thesis
  proof (cases rule: write_shape)
    case (kept w err)
    have "get (del jid (sched_jobs s)) jid = None" by simp
    then have "length (put jid j (del jid (sched_jobs s))) = Suc (length (del jid (sched_jobs s)))"
      by (simp add: get_None_iff)
    moreover have "length (del jid (sched_jobs s)) < length (sched_jobs s)"
      by (rule length_del_Some [OF j])
    ultimately have "sched_ok (s\<lparr>sched_disk := w, sched_jobs := put jid j (del jid (sched_jobs s))\<rparr>)"
      using ok j None by (auto simp: sched_ok_def claims_def)
    moreover have "s' = s\<lparr>sched_disk := w, sched_jobs := put jid j (del jid (sched_jobs s))\<rparr>"
      using del None wr kept by (simp add: delete_job_def)
    ultimately show ?thesis by simp
  next
    case (written w ops)
    from write_ok [OF okd wr] show ?thesis
      using del None wr written(1) by (auto simp: delete_job_def Let_def sched_ok_def)
  qed
qed (use assms in \<open>auto simp: delete_job_def\<close>)


lemma stop_job_ok:
  assumes ok: "sched_ok s" and st: "stop_job env jid s = (res, s')"
  shows "sched_ok s'"
proof -
  obtain e s1 where wr: "write_schedules env WriteNothing s = (e, s1)" by force
  have ok1: "sched_ok s1" by (rule write_ok [OF ok wr])
  have "sched_ok (s1\<lparr>sched_running := put jid (cancel_flight f) (sched_running s1)\<rparr>)"
    if f: "get (sched_running s1) jid = Some f" for f
  proof (rule running_put_ok [OF ok1])
    show "claims (sched_jobs s1) jid (cancel_flight f)"
      using ok1 f by (force simp: sched_ok_def claims_def cancel_flight_def)
  qed (use f in simp)
  with ok1 st wr show ?thesis by (auto simp: stop_job_def split: option.splits)
qed

lemma the_job_get: "sched_ok s \<Longrightarrow> job_ID (the_job jid s) \<noteq> [] \<Longrightarrow>
    get (sched_jobs s) jid = Some (the_job jid s) \<and> job_ok jid (the_job jid s)"
  by (auto simp: the_job_def sched_ok_def zero_job_def split: option.splits)

lemma edit_job_keeps: "edit_job p j = Inr k \<Longrightarrow> job_ID k = job_ID j \<and> job_Runs k = job_Runs j"
  by (auto simp: edit_job_def Let_def split: option.splits json.splits)

lemma new_job_fresh: "new_job env projectID p fresh = Inr j \<Longrightarrow> job_ID j = fresh \<and> job_Runs j = []"
  by (auto simp: new_job_def Let_def split: option.splits if_splits)

lemma mutate_ok:
  assumes ok: "sched_ok s" and run: "mutate env now fresh meth projectID p s = (res, s')"
    and fresh: "fresh \<noteq> []" "get (sched_jobs s) fresh = None"
  shows "sched_ok s'"
proof -
  let ?jid = "textValue (field p ''scheduleId'')" and ?j = "the_job (textValue (field p ''scheduleId'')) s"
  show ?thesis
  proof (cases "meth = ''schedule.create''")
    case True
    show ?thesis
    proof (cases "new_job env projectID p fresh")
      case (Inr j)
      have nf: "get (sched_running s) fresh = None"
        by (rule ccontr) (use running_job [OF ok, of fresh] fresh(2) in auto)
      show ?thesis
        by (rule put_job_ok [OF ok, of env now j res])
          (use run True Inr new_job_fresh [OF Inr] fresh nf in \<open>auto simp: mutate_def job_ok_def\<close>)
    qed (use ok run True in \<open>auto simp: mutate_def\<close>)
  next
    case nc: False
    show ?thesis
    proof (cases "job_ID ?j = [] \<or> job_ProjectID ?j \<noteq> projectID")
      case True
      with nc run ok show ?thesis by (simp add: mutate_def Let_def)
    next
      case False
      with the_job_get [OF ok] have j: "get (sched_jobs s) ?jid = Some ?j" "job_ok ?jid ?j" by blast+
      have upd: "sched_ok s'" if "edit_job p ?j = Inr k" "put_job env now k s = (res, s')" for k
      proof (rule put_job_ok [OF ok that(2)])
        have k: "job_ID k = ?jid" "job_Runs k = job_Runs ?j"
          using edit_job_keeps [OF that(1)] j(2) by (simp_all add: job_ok_def)
        then show "job_ok (job_ID k) k" using j(2) by (simp add: job_ok_def)
        fix f assume "get (sched_running s) (job_ID k) = Some f"
        then have "get (sched_running s) ?jid = Some f" by (simp add: k)
        from running_job [OF ok this] k show "claims [(job_ID k, k)] (job_ID k) f"
          by (auto simp: claims_def)
      qed
      obtain e s1 where st: "startLocked env ?jid now fresh s = (e, s1)" by force
      from run nc False st have "s' = s \<or> s' = s1 \<or> (\<exists>k. edit_job p ?j = Inr k \<and> put_job env now k s = (res, s'))
          \<or> delete_job env ?jid ?j s = (res, s') \<or> stop_job env ?jid s = (res, s')"
        unfolding mutate_def Let_def by (auto split: if_splits sum.splits)
      then show ?thesis
        using ok upd startLocked_ok [OF ok st] stop_job_ok [OF ok] delete_job_ok [OF ok _ j(1)] by blast
    qed
  qed
qed

lemma end_operation_ok [simp]: "sched_ok (end_operation s) = sched_ok s"
  by (simp add: end_operation_def)

lemma Handle_ok:
  assumes ok: "sched_ok s" and run: "Handle env now fresh caller meth p s = (res, s')"
    and fresh: "fresh \<noteq> []" "get (sched_jobs s) fresh = None"
  shows "sched_ok s'"
proof -
  let ?P = "textValue (field p ''projectId'')"
  let ?s = "\<lambda>i. s\<lparr>sched_operation := Some \<lparr>so_Key = ri_Key i, so_Fingerprint = ri_Fingerprint i, so_Result = None\<rparr>,
       sched_method := meth\<rparr>"
  obtain r1 s1 where m1: "mutate env now fresh meth ?P p s = (r1, s1)" by force
  have ok1: "sched_ok s1" by (rule mutate_ok [OF ok m1 fresh])
  have ok2: "sched_ok s2" if "mutate env now fresh meth ?P p (?s i) = (r2, s2)" for i r2 s2
    by (rule mutate_ok [OF _ that]) (use ok fresh in simp_all)
  show ?thesis
    using run ok ok1 m1
    by (auto simp: Handle_def Let_def split: if_splits sum.splits option.splits prod.splits dest: ok2)
qed

section \<open>Reachable states\<close>

text \<open>A goroutine is live while its job is running and its end is not waiting to be saved.\<close>

definition live :: "string \<Rightarrow> schedules \<Rightarrow> bool" where
  "live jid s \<longleftrightarrow> get (sched_running s) jid \<noteq> None \<and> get (sched_pending s) jid = None"

inductive schedule_step :: "sched_env \<Rightarrow> schedules \<Rightarrow> schedules \<Rightarrow> bool" for env where
  Ticked: "schedule_step env s (tick env now fresh pending_order job_order s)"
| Requested: "Handle env now fresh caller meth p s = (res, s') \<Longrightarrow> fresh \<noteq> [] \<Longrightarrow>
    get (sched_jobs s) fresh = None \<Longrightarrow> schedule_step env s s'"
| Admitted: "live jid s \<Longrightarrow> schedule_step env s (snd (admitted env jid session s))"
| Finished: "live jid s \<Longrightarrow> schedule_step env s (finish_run env jid err now later s)"
| Started: "schedule_step env s (Start s)"
| Closed: "schedule_step env s (Close_schedules s)"

text \<open>Decoding a JSON object gives a Go map, whose keys are distinct.\<close>

definition decodes_maps :: "sched_env \<Rightarrow> bool" where
  "decodes_maps env \<longleftrightarrow>
     (\<forall>bytes d m. unmarshal (disk_codec env) bytes = Some d \<longrightarrow> sd_Jobs d = Some m \<longrightarrow> unique_keys m)
     \<and> (\<forall>bytes m. decode_legacy env bytes = Some (Some m) \<longrightarrow> unique_keys m)"

lemma Close_ok: "sched_ok s \<Longrightarrow> sched_ok (Close_schedules s)"
proof (cases "sched_closed s")
  case False
  assume ok: "sched_ok s"
  have keys: "map fst (map (\<lambda>(jid, f). (jid, cancel_flight f)) m) = map fst m" for m :: "(string \<times> flight) list"
    by (simp add: case_prod_beta)
  have g: "get (map (\<lambda>(jid, f). (jid, cancel_flight f)) (sched_running s)) jid =
      map_option cancel_flight (get (sched_running s) jid)" for jid
    by (simp add: map_of_map)
  have "claims jobs jid (cancel_flight f) = claims jobs jid f" for jobs jid f
    by (simp add: claims_def cancel_flight_def)
  with ok show ?thesis using False keys [of "sched_running s"]
    by (auto simp: Close_schedules_def sched_ok_def g unique_keys_def simp del: map_map)
qed (simp add: Close_schedules_def)

lemma step_ok: "schedule_step env s s' \<Longrightarrow> sched_ok s \<Longrightarrow> sched_ok s'"
proof (induction rule: schedule_step.induct)
  case (Started s)
  then show ?case by (simp add: Start_def sched_ok_def)
qed (auto intro: tick_ok Handle_ok admitted_ok finish_run_ok Close_ok)

lemma load_cases:
  assumes "load_schedules env now w = (Inr (jobs, ops), w')"
  shows "validateSchedules env now (Some jobs)" "length ops \<le> 512" "decodes_maps env \<Longrightarrow> unique_keys jobs"
    "files w' = files w"
proof -
  obtain raw w1 where r: "ReadFile (store_file env) w = (raw, w1)" by force
  have fr: "files w1 = files w" using ReadFile_frame [OF r] by simp
  have "validateSchedules env now (Some jobs) \<and> length ops \<le> 512 \<and> (decodes_maps env \<longrightarrow> unique_keys jobs)
      \<and> files w' = files w"
  proof (cases raw)
    case NotExist
    with assms r fr show ?thesis
      by (auto simp: load_schedules_def validateSchedules_def split: if_splits)
  next
    case ReadFailed
    with assms r show ?thesis by (simp add: load_schedules_def)
  next
    case (ReadBytes bytes m)
    obtain disk where d: "unmarshal (disk_codec env) bytes = Some disk"
      using assms r ReadBytes by (auto simp: load_schedules_def split: option.splits)
    show ?thesis
      using assms r ReadBytes d fr
      by (auto simp: load_schedules_def Let_def validateSchedules_def decodes_maps_def
          split: option.splits if_splits)
  qed
  then show "validateSchedules env now (Some jobs)" "length ops \<le> 512"
    "decodes_maps env \<Longrightarrow> unique_keys jobs" "files w' = files w" by blast+
qed

lemma interrupt_job_keeps: "job_ID (interrupt_job now j) = job_ID j" "length (job_Runs (interrupt_job now j)) = length (job_Runs j)"
  by (simp_all add: interrupt_job_def)

lemma get_map_job: "get (map (\<lambda>(jid, j). (jid, h j)) m) jid = map_option h (get m jid)"
  by (induction m) auto

lemma New_state:
  assumes "NewSchedules env now w = Inr s"
  obtains jobs ops w1 where "load_schedules env now w = (Inr (jobs, ops), w1)"
    "sched_jobs s = map (\<lambda>(jid, j). (jid, interrupt_job now j)) jobs" "sched_operations s = ops"
    "sched_operation s = None" "sched_running s = []" "sched_pending s = []"
proof -
  obtain jobs ops w1 where ld: "load_schedules env now w = (Inr (jobs, ops), w1)"
    using assms by (auto simp: NewSchedules_def split: prod.splits sum.splits)
  let ?s = "\<lparr>sched_jobs = map (\<lambda>(jid, j). (jid, interrupt_job now j)) jobs, sched_operations = ops,
                    sched_operation = None, sched_method = [], sched_failures = [], sched_lastError = [],
                    sched_compiled = [], sched_running = [], sched_pending = [], sched_started = False,
                    sched_closed = False, sched_disk = w1\<rparr>"
  show ?thesis
  proof (cases "list_ex (\<lambda>(jid, j). has_running j) jobs")
    case True
    obtain e s1 where wr: "write_schedules env WriteNothing ?s = (e, s1)" by force
    then show ?thesis
    proof (cases rule: write_shape)
      case (kept w2 err)
      with assms ld True wr show ?thesis by (simp add: NewSchedules_def)
    next
      case (written w2 ops2)
      have "ops2 = ops" using written(3) by (simp add: with_operation_def)
      moreover have "s = s1" using assms ld True wr written(1) by (simp add: NewSchedules_def)
      ultimately show ?thesis using that [OF ld] written(2) by simp
    qed
  next
    case False
    then have "s = ?s" using assms ld by (simp add: NewSchedules_def)
    with that [OF ld] show ?thesis by simp
  qed
qed

lemma New_ok:
  assumes "NewSchedules env now w = Inr s" "decodes_maps env"
  shows "sched_ok s"
proof -
  obtain jobs ops w1 where n: "load_schedules env now w = (Inr (jobs, ops), w1)"
    "sched_jobs s = map (\<lambda>(jid, j). (jid, interrupt_job now j)) jobs" "sched_operations s = ops"
    "sched_operation s = None" "sched_running s = []" "sched_pending s = []"
    by (rule New_state [OF assms(1)])
  note ld = load_cases [OF n(1)]
  have "job_ok jid (interrupt_job now j)" if "get jobs jid = Some j" for jid j
    using ld(1) map_of_SomeD [OF that]
    by (force simp: validateSchedules_def list_all_iff valid_job_def job_ok_def interrupt_job_keeps)
  moreover have "length jobs \<le> 1000" using ld(1) by (simp add: validateSchedules_def)
  moreover have "unique_keys (sched_jobs s)"
    using ld(3) [OF assms(2)] by (simp add: n(2) unique_keys_def comp_def case_prod_beta)
  ultimately show ?thesis using ld(2) n by (auto simp: sched_ok_def get_map_job)
qed

lemma reachable_ok:
  assumes "NewSchedules env now w = Inr s0" "decodes_maps env" "(schedule_step env)\<^sup>*\<^sup>* s0 s"
  shows "sched_ok s"
  using assms(3) by (induction rule: rtranclp_induct) (auto intro: step_ok New_ok [OF assms(1,2)])

section \<open>Durable claims and restarts\<close>

lemma saved_read_back:
  assumes "saved env jobs ops w w'"
    and "exact (disk_codec env) \<lparr>sd_Version = 1, sd_Jobs = Some jobs, sd_Operations = ops\<rparr>"
  shows "\<exists>bytes m. read_now (store_file env) (files w') = ReadBytes bytes m
    \<and> unmarshal (disk_codec env) bytes = Some \<lparr>sd_Version = 1, sd_Jobs = Some jobs, sd_Operations = ops\<rparr>"
proof -
  from Write_nodes [OF assms(1) [unfolded saved_def]] obtain s m where
    s: "marshal (disk_codec env) \<lparr>sd_Version = 1, sd_Jobs = Some jobs, sd_Operations = ops\<rparr> = Some s"
      "length (s @ [newline]) \<le> maxJSONBytes"
      "get (files w') (store_file env) = Some \<lparr>content = s @ [newline], fmode = m, regular = True\<rparr>"
    by blast
  with assms(2) show ?thesis by (auto simp: read_now_def exact_def)
qed

lemma load_written:
  assumes "faults w = []" "read_now (store_file env) (files w) = ReadBytes bytes m"
    and "unmarshal (disk_codec env) bytes = Some \<lparr>sd_Version = 1, sd_Jobs = Some jobs, sd_Operations = ops\<rparr>"
    and "load_schedules env now w = (Inr (jobs', ops'), w')"
  shows "jobs' = jobs \<and> ops' = ops"
  using assms(4)
  by (auto simp: load_schedules_def ReadFile_no_faults [OF assms(1)] assms(2,3) split: if_splits)

lemma interrupted_job:
  "has_running j \<Longrightarrow> job_Paused (interrupt_job now j)"
  "\<not> has_running (interrupt_job now j)"
  by (auto simp: interrupt_job_def has_running_def list_ex_iff interrupt_run_def)

lemma New_pauses:
  assumes "NewSchedules env now w = Inr s" "load_schedules env now w = (Inr (jobs, ops), w1)"
    and "get jobs jid = Some j" "has_running j"
  shows "get (sched_jobs s) jid = Some (interrupt_job now j) \<and> \<not> is_due jid t s"
proof -
  have "sched_jobs s = map (\<lambda>(jid, j). (jid, interrupt_job now j)) jobs"
    by (rule New_state [OF assms(1)]) (use assms(2) in simp)
  with assms(3,4) show ?thesis by (simp add: get_map_job is_due_def interrupted_job)
qed

text \<open>C24: In every state reachable from a loaded one, by ticks, requests, admissions and ends of runs,
  starts and closes in any order: at most eight goroutines, each for a job whose record shows its run as
  running; at most a thousand jobs with at most a hundred runs; at most 512 recorded operations; and a
  run waiting to be saved holds its place.\<close>

theorem schedules_bounded:
  assumes "NewSchedules env now w = Inr s0" "decodes_maps env" "(schedule_step env)\<^sup>*\<^sup>* s0 s"
  shows "length (sched_running s) \<le> 8 \<and> length (sched_jobs s) \<le> 1000 \<and> length (sched_operations s) \<le> 512
    \<and> (\<forall>jid j. get (sched_jobs s) jid = Some j \<longrightarrow> job_ID j = jid \<and> length (job_Runs j) \<le> 100)
    \<and> (\<forall>jid f. get (sched_running s) jid = Some f \<longrightarrow> (\<exists>j r. get (sched_jobs s) jid = Some j
         \<and> r \<in> set (job_Runs j) \<and> run_ID r = run_ID (fl_run f) \<and> run_Status r = ''running''))
    \<and> (\<forall>jid r. get (sched_pending s) jid = Some r \<longrightarrow> get (sched_running s) jid \<noteq> None)"
  using reachable_ok [OF assms] unfolding sched_ok_def job_ok_def claims_def by blast


section \<open>Failed requests\<close>

text \<open>The state a refused request must leave as it was: jobs, ledger, goroutines and unsaved runs.\<close>

definition same_schedules :: "schedules \<Rightarrow> schedules \<Rightarrow> bool" where
  "same_schedules s s' \<longleftrightarrow>
     get (sched_jobs s') = get (sched_jobs s) \<and> sched_operations s' = sched_operations s
     \<and> sched_running s' = sched_running s \<and> sched_pending s' = sched_pending s \<and> sched_closed s' = sched_closed s"

lemma same_refl [simp]: "same_schedules s s"
  by (simp add: same_schedules_def)

lemma put_job_error: "put_job env now j s = (Inl e, s') \<Longrightarrow> same_schedules s s'"
proof -
  assume put: "put_job env now j s = (Inl e, s')"
  let ?j = "if job_Timezone j = [] then j\<lparr>job_Timezone := ''UTC''\<rparr> else j"
  obtain r1 s1 where nx: "next_run env ?j now s = (r1, s1)" by force
  from next_run_shape [OF nx] obtain c where s1: "s1 = s\<lparr>sched_compiled := c\<rparr>" by blast
  show ?thesis
  proof (cases r1)
    case (Inl e)
    then have "s' = s \<or> s' = s1" using put nx by (auto simp: put_job_def Let_def split: if_splits)
    with s1 show ?thesis by (auto simp: same_schedules_def)
  next
    case (Inr t)
    obtain e2 s2 where sv: "save_schedule env (?j\<lparr>job_NextRun := t\<rparr>) s1 = (e2, s2)" by force
    with put nx Inr have "s' = s \<or> e2 \<noteq> None \<and> s' = s2"
      by (auto simp: put_job_def Let_def split: if_splits option.splits)
    with sv s1 show ?thesis by (auto simp: same_schedules_def elim: save_shape)
  qed
qed

lemma startLocked_error: "startLocked env jid now fresh s = (Some e, s') \<Longrightarrow> same_schedules s s'"
  by (auto elim!: startLocked_cases simp: same_schedules_def)

lemma stop_job_error: "stop_job env jid s = (Inl e, s') \<Longrightarrow> same_schedules s s'"
  by (auto simp: stop_job_def acked_def same_schedules_def split: prod.splits option.splits elim!: write_shape)

lemma delete_job_error:
  "delete_job env jid j s = (Inl e, s') \<Longrightarrow> get (sched_jobs s) jid = Some j \<Longrightarrow> same_schedules s s'"
  by (auto simp: delete_job_def acked_def same_schedules_def Let_def fun_eq_iff
      split: prod.splits option.splits if_splits elim!: write_shape)

lemma mutate_error:
  assumes ok: "sched_ok s" and run: "mutate env now fresh meth projectID p s = (Inl e, s')"
  shows "same_schedules s s'"
proof -
  let ?jid = "textValue (field p ''scheduleId'')"
  let ?j = "the_job ?jid s"
  obtain r s1 where st: "startLocked env ?jid now fresh s = (r, s1)" by force
  from run st have "s' = s \<or> (\<exists>k. put_job env now k s = (Inl e, s')) \<or> r = Some e \<and> s' = s1
      \<or> (job_ID ?j \<noteq> [] \<and> delete_job env ?jid ?j s = (Inl e, s')) \<or> stop_job env ?jid s = (Inl e, s')"
    unfolding mutate_def Let_def acked_def by (auto split: if_splits sum.splits option.splits)
  then show ?thesis
    using put_job_error startLocked_error st delete_job_error the_job_get [OF ok] stop_job_error same_refl by metis
qed

text \<open>C26: A request that reports an error, a failed save included, leaves the jobs, the ledger, the running
  goroutines and the unsaved runs as they were.\<close>

theorem Handle_error_rolls_back:
  assumes ok: "sched_ok s" and run: "Handle env now fresh caller meth p s = (Inl e, s')"
  shows "get (sched_jobs s') = get (sched_jobs s) \<and> sched_operations s' = sched_operations s
    \<and> sched_running s' = sched_running s \<and> sched_pending s' = sched_pending s \<and> sched_closed s' = sched_closed s"
proof -
  let ?P = "textValue (field p ''projectId'')"
  let ?s = "\<lambda>i. s\<lparr>sched_operation := Some \<lparr>so_Key = ri_Key i, so_Fingerprint = ri_Fingerprint i, so_Result = None\<rparr>,
       sched_method := meth\<rparr>"
  obtain r1 s1 where m1: "mutate env now fresh meth ?P p s = (r1, s1)" by force
  have "sched_ok (?s i)" for i using ok by simp
  from mutate_error [OF this] have op: "same_schedules s (end_operation s2)"
    if "mutate env now fresh meth ?P p (?s i) = (Inl e, s2)" for i s2
    using that by (force simp: same_schedules_def end_operation_def)
  have "same_schedules s s'"
    using run m1 mutate_error [OF ok, of env now fresh meth ?P p e s1]
    by (auto simp: Handle_def Let_def split: if_splits sum.splits option.splits prod.splits dest: op)
  then show ?thesis by (simp add: same_schedules_def)
qed

section \<open>Repeated requests\<close>

lemma with_operation_Some:
  assumes "with_operation env res s = Some ops" "sched_operation s = Some op"
  shows "\<exists>x. ops = last_n 512 (sched_operations s @ [op\<lparr>so_Result := Some x\<rparr>])
    \<and> (if is_save_method (sched_method s)
       then (case res of WriteJob j \<Rightarrow> encode_job env j | WriteNothing \<Rightarrow> Some JNull) = Some x else x = ok_result)"
  using assms by (auto simp: with_operation_def is_save_method_def Let_def split: if_splits)

text \<open>The answer \<open>v\<close> is recorded with the operation of the request.\<close>

definition answered :: "sched_env \<Rightarrow> scheduleOperation \<Rightarrow> string \<Rightarrow> sched_value \<Rightarrow> schedules \<Rightarrow> schedules \<Rightarrow> bool" where
  "answered env op meth v s s' \<longleftrightarrow> sched_closed s' = sched_closed s
    \<and> (\<exists>x. sched_operations s' = last_n 512 (sched_operations s @ [op\<lparr>so_Result := Some x\<rparr>])
       \<and> (if is_save_method meth then \<exists>j. encode_job env j = Some x \<and> v = JobValue j
          else x = ok_result \<and> v = JsonValue ok_result))"

lemma write_answers:
  assumes "write_schedules env res s = (None, s')" "sched_operation s = Some op" "\<not> is_save_method (sched_method s)"
  shows "sched_closed s' = sched_closed s \<and> sched_running s' = sched_running s
    \<and> sched_operations s' = last_n 512 (sched_operations s @ [op\<lparr>so_Result := Some ok_result\<rparr>])"
  using assms(1)
proof (cases rule: write_shape)
  case (written w ops)
  with with_operation_Some [OF written(3) assms(2)] assms(3) show ?thesis by auto
qed simp

lemma put_job_answers:
  assumes put: "put_job env now j s = (Inr v, s')"
    and op: "sched_operation s = Some op" "is_save_method (sched_method s)" "meth = sched_method s"
  shows "answered env op meth v s s'"
proof -
  let ?j = "if job_Timezone j = [] then j\<lparr>job_Timezone := ''UTC''\<rparr> else j"
  obtain r1 s1 where nx: "next_run env ?j now s = (r1, s1)" by force
  from next_run_shape [OF nx] obtain c where s1: "s1 = s\<lparr>sched_compiled := c\<rparr>" by blast
  obtain t where t: "r1 = Inr t" using put nx by (cases r1) (auto simp: put_job_def Let_def split: if_splits)
  let ?k = "?j\<lparr>job_NextRun := t\<rparr>"
  obtain e2 s2 where sv: "save_schedule env ?k s1 = (e2, s2)" by force
  with put nx t have res: "e2 = None" "s' = s2" "v = JobValue ?k"
    by (auto simp: put_job_def Let_def split: if_splits option.splits)
  from sv show ?thesis
  proof (cases rule: save_shape)
    case (written w ops)
    have "sched_operation s1 = Some op" "is_save_method (sched_method s1)" using op s1 by simp_all
    with with_operation_Some [OF written(3)] obtain x where
      "ops = last_n 512 (sched_operations s1 @ [op\<lparr>so_Result := Some x\<rparr>])" "encode_job env ?k = Some x" by force
    then have "sched_operations s' = last_n 512 (sched_operations s @ [op\<lparr>so_Result := Some x\<rparr>])"
      "encode_job env ?k = Some x" "sched_closed s' = sched_closed s"
      using res(2) written(2) s1 by simp_all
    then show ?thesis unfolding answered_def res(3) using op by auto
  qed (use res in simp)
qed

lemma start_answers:
  assumes "startLocked env jid now fresh s = (None, s')" "sched_operation s = Some op"
    and "\<not> is_save_method (sched_method s)"
  shows "answered env op (sched_method s) (JsonValue ok_result) s s'"
  using assms(1)
proof (cases rule: startLocked_cases)
  case (claimed j t c w ops)
  with with_operation_Some [OF claimed(9) assms(2)] assms(3) show ?thesis by (auto simp: answered_def)
qed simp

lemma mutate_answers:
  assumes run: "mutate env now fresh meth projectID p s = (Inr v, s')"
    and op: "sched_operation s = Some op" "sched_method s = meth"
  shows "answered env op meth v s s'"
proof -
  let ?jid = "textValue (field p ''scheduleId'')"
  let ?j = "the_job ?jid s"
  obtain r s1 where st: "startLocked env ?jid now fresh s = (r, s1)" by force
  have not_save: "\<not> is_save_method ''schedule.delete''" "\<not> is_save_method ''schedule.runNow''"
    "\<not> is_save_method ''schedule.stop''" by (simp_all add: is_save_method_def)
  from run st have "(is_save_method meth \<and> (\<exists>k. put_job env now k s = (Inr v, s')))
      \<or> (meth = ''schedule.runNow'' \<and> r = None \<and> s' = s1 \<and> v = JsonValue ok_result)
      \<or> (meth = ''schedule.delete'' \<and> delete_job env ?jid ?j s = (Inr v, s'))
      \<or> (meth = ''schedule.stop'' \<and> stop_job env ?jid s = (Inr v, s'))"
    unfolding mutate_def Let_def acked_def is_save_method_def by (auto split: if_splits sum.splits option.splits)
  then show ?thesis
  proof (elim disjE conjE exE)
    fix k assume "is_save_method meth" "put_job env now k s = (Inr v, s')"
    then show ?thesis using put_job_answers op by blast
  next
    assume "meth = ''schedule.runNow''" "r = None" "s' = s1" "v = JsonValue ok_result"
    then show ?thesis using start_answers [of env ?jid now fresh s s1 op] st op not_save by simp
  next
    assume m: "meth = ''schedule.delete''" and d: "delete_job env ?jid ?j s = (Inr v, s')"
    obtain e s2 where wr: "write_schedules env WriteNothing (s\<lparr>sched_jobs := del ?jid (sched_jobs s)\<rparr>) = (e, s2)" by force
    with d have "e = None" "v = JsonValue ok_result" "sched_operations s' = sched_operations s2" "sched_closed s' = sched_closed s2"
      by (auto simp: delete_job_def acked_def Let_def split: if_splits option.splits)
    with write_answers [of env WriteNothing _ s2 op] wr op m not_save show ?thesis by (simp add: answered_def)
  next
    assume m: "meth = ''schedule.stop''" and d: "stop_job env ?jid s = (Inr v, s')"
    obtain e s2 where wr: "write_schedules env WriteNothing s = (e, s2)" by force
    with d have "e = None" "v = JsonValue ok_result" "sched_operations s' = sched_operations s2" "sched_closed s' = sched_closed s2"
      by (auto simp: stop_job_def acked_def split: option.splits)
    with write_answers [of env WriteNothing s s2 op] wr op m not_save show ?thesis by (simp add: answered_def)
  qed
qed

lemma find_last_n_new:
  assumes "find P xs = None" "P y" "0 < n"
  shows "find P (last_n n (xs @ [y])) = Some y"
proof -
  obtain k where k: "n = Suc k" using assms(3) by (cases n) auto
  have "last_n n (xs @ [y]) = last_n k xs @ [y]" by (simp add: last_n_def k Suc_diff_le)
  moreover have "find P (ys @ [y]) = Some y" if "find P ys = None" for ys
    using that assms(2) by (induction ys) (auto split: if_splits)
  moreover have "find P (last_n k xs) = None"
    using assms(1) set_last_n [of k xs] by (auto simp: find_None_iff)
  ultimately show ?thesis by simp
qed

lemma recorded_answer:
  assumes "answered env \<lparr>so_Key = ri_Key i, so_Fingerprint = ri_Fingerprint i, so_Result = r\<rparr> meth v s s'"
    and "recorded env meth i (sched_operations s) = None"
    and "\<And>j x. encode_job env j = Some x \<Longrightarrow> decode_job env x = Some j"
  shows "recorded env meth i (sched_operations s') = Some (Inr v)"
proof -
  have none: "find (\<lambda>op. so_Key op = ri_Key i) (sched_operations s) = None"
    using assms(2) by (simp add: recorded_def split: option.splits)
  from assms(1) obtain x where x: "sched_operations s' =
      last_n 512 (sched_operations s @ [\<lparr>so_Key = ri_Key i, so_Fingerprint = ri_Fingerprint i, so_Result = Some x\<rparr>])"
    "if is_save_method meth then \<exists>j. encode_job env j = Some x \<and> v = JobValue j else x = ok_result \<and> v = JsonValue ok_result"
    by (auto simp: answered_def)
  show ?thesis
    unfolding recorded_def x(1) using x(2) assms(3)
    by (subst find_last_n_new [OF none]) (auto split: if_splits)
qed

lemma Handle_known:
  assumes "\<not> sched_closed s" "meth \<noteq> ''schedule.list''" "textValue (field p ''projectId'') \<noteq> []"
    and "mutation_identity env caller meth (textValue (field p ''projectId'')) p = Inr i" "ri_Key i \<noteq> []"
    and "recorded env meth i (sched_operations s) = Some answer"
  shows "Handle env now fresh caller meth p s = (answer, s)"
  using assms by (simp add: Handle_def)

text \<open>A mutation is performed once per identity: sent again at any time after it succeeded, the same
  request returns the recorded answer and changes nothing.\<close>

theorem schedule_mutation_once:
  assumes run: "Handle env now fresh caller meth p s = (Inr v, s')"
    and meth: "meth \<noteq> ''schedule.list''"
    and i: "mutation_identity env caller meth (textValue (field p ''projectId'')) p = Inr i" "ri_Key i \<noteq> []"
    and codec: "\<And>j x. encode_job env j = Some x \<Longrightarrow> decode_job env x = Some j"
  shows "Handle env later fresh' caller meth p s' = (Inr v, s')"
proof -
  let ?P = "textValue (field p ''projectId'')"
  have open_: "?P \<noteq> []" "\<not> sched_closed s" using run by (auto simp: Handle_def Let_def split: if_splits)
  let ?op = "\<lparr>so_Key = ri_Key i, so_Fingerprint = ri_Fingerprint i, so_Result = None\<rparr>"
  let ?s = "s\<lparr>sched_operation := Some ?op, sched_method := meth\<rparr>"
  have "\<not> sched_closed s' \<and> recorded env meth i (sched_operations s') = Some (Inr v)"
  proof (cases "recorded env meth i (sched_operations s)")
    case (Some answer)
    with run Handle_known [OF open_(2) meth open_(1) i Some] open_ show ?thesis by simp
  next
    case None
    obtain r s1 where m: "mutate env now fresh meth ?P p ?s = (r, s1)" by force
    with run open_ meth i None have r: "r = Inr v" "s' = end_operation s1" by (simp_all add: Handle_def)
    from mutate_answers [OF m [unfolded r]] have ans: "answered env ?op meth v ?s s1" by simp
    have "recorded env meth i (sched_operations s1) = Some (Inr v)"
      by (rule recorded_answer [OF ans _ codec]) (use None in simp_all)
    then show ?thesis using ans open_ by (simp add: r(2) end_operation_def answered_def)
  qed
  then show ?thesis using Handle_known meth i open_(1) by blast
qed

section \<open>Due jobs\<close>

definition attended :: "time \<Rightarrow> string \<Rightarrow> schedules \<Rightarrow> bool" where
  "attended now jid s \<longleftrightarrow> length (sched_running s) \<ge> 8 \<or> get (sched_running s) jid \<noteq> None
     \<or> failure_time jid s = now + backoff"

lemma failure_time_failed:
  "failure_time k (failed jid now e s) =
     (if k = jid then (case e of None \<Rightarrow> 0 | Some x \<Rightarrow> now + backoff) else failure_time k s)"
  by (simp add: failure_time_def failed_def Let_def split: option.splits)

lemma failed_frame [simp]:
  "sched_running (failed jid now e s) = sched_running s" "sched_jobs (failed jid now e s) = sched_jobs s"
  by (simp_all add: failed_def Let_def split: option.splits)

text \<open>Starting one job: what becomes of it, and that nothing else changes.\<close>

lemma start_one:
  assumes ok: "sched_ok s" and st: "startLocked env jid now fresh s = (e, s1)"
  shows "attended now jid (failed jid now e s1)"
    and "k \<noteq> jid \<Longrightarrow> is_due k now (failed jid now e s1) = is_due k now s"
    and "attended now k s \<Longrightarrow> k \<noteq> jid \<Longrightarrow> attended now k (failed jid now e s1)"
proof -
  have "(case e of None \<Rightarrow> get (sched_running s1) jid \<noteq> None | Some x \<Rightarrow> True)
      \<and> length (sched_running s) \<le> length (sched_running s1) \<and> sched_failures s1 = sched_failures s
      \<and> (k \<noteq> jid \<longrightarrow> get (sched_running s1) k = get (sched_running s) k \<and> get (sched_jobs s1) k = get (sched_jobs s) k)"
    using st
  proof (cases rule: startLocked_cases)
    case (claimed j t c w ops)
    have "job_ID j = jid" using the_job_get [OF ok, of jid] claimed(5,6) by (simp add: job_ok_def)
    with claimed show ?thesis by (simp add: get_None_iff)
  qed simp
  then have "e = None \<Longrightarrow> get (sched_running s1) jid \<noteq> None"
    and fr: "length (sched_running s) \<le> length (sched_running s1)" "sched_failures s1 = sched_failures s"
      "k \<noteq> jid \<Longrightarrow> get (sched_running s1) k = get (sched_running s) k \<and> get (sched_jobs s1) k = get (sched_jobs s) k"
    by (cases e; simp)+
  then show "attended now jid (failed jid now e s1)"
    by (cases e) (simp_all add: attended_def failure_time_failed)
  have ft: "k \<noteq> jid \<Longrightarrow> failure_time k (failed jid now e s1) = failure_time k s"
    by (simp add: failure_time_failed) (simp add: failure_time_def fr(2))
  show "is_due k now (failed jid now e s1) = is_due k now s" if "k \<noteq> jid"
    using fr(3) ft that by (cases "get (sched_jobs s) k") (simp_all add: is_due_def)
  show "attended now k (failed jid now e s1)" if "attended now k s" "k \<noteq> jid"
    using fr ft that by (auto simp: attended_def)
qed

lemma start_due_keeps:
  "sched_ok s \<Longrightarrow> attended now k s \<Longrightarrow> attended now k (start_due env now fresh jids s)"
proof (induction jids arbitrary: s)
  case (Cons jid jids)
  show ?case
  proof (cases "length (sched_running s) \<ge> 8 \<or> \<not> is_due jid now s")
    case True
    with Cons show ?thesis by (cases "length (sched_running s) \<ge> 8") simp_all
  next
    case False
    obtain e s1 where st: "startLocked env jid now (fresh jid) s = (e, s1)" by force
    have ok1: "sched_ok (failed jid now e s1)" using startLocked_ok [OF Cons.prems(1) st] by simp
    have "attended now k (failed jid now e s1)"
      using start_one [OF Cons.prems(1) st] Cons.prems(2) by (cases "k = jid") blast+
    from Cons.IH [OF ok1 this] False st show ?thesis by simp
  qed
qed simp

lemma start_due_attends:
  "sched_ok s \<Longrightarrow> k \<in> set jids \<Longrightarrow> is_due k now s \<Longrightarrow> attended now k (start_due env now fresh jids s)"
proof (induction jids arbitrary: s)
  case (Cons jid jids)
  show ?case
  proof (cases "length (sched_running s) \<ge> 8")
    case True
    then show ?thesis by (simp add: attended_def)
  next
    case few: False
    show ?thesis
    proof (cases "is_due jid now s")
      case True
      obtain e s1 where st: "startLocked env jid now (fresh jid) s = (e, s1)" by force
      have ok1: "sched_ok (failed jid now e s1)" using startLocked_ok [OF Cons.prems(1) st] by simp
      note one = start_one [OF Cons.prems(1) st]
      have "attended now k (start_due env now fresh jids (failed jid now e s1))"
      proof (cases "k = jid")
        case True
        with start_due_keeps [OF ok1] one(1) show ?thesis by blast
      next
        case False
        with Cons.IH [OF ok1] one(2) Cons.prems show ?thesis by simp
      qed
      with few True st show ?thesis by simp
    next
      case False
      with few Cons show ?thesis by auto
    qed
  qed
qed simp


section \<open>Witnesses\<close>

definition demo_job :: Schedule where
  "demo_job = \<lparr>job_ID = ''a'', job_ProjectID = ''p'', job_Root = ''/r'', job_Prompt = ''x'', job_Cron = ''* * * * *'',
     job_Timezone = ''UTC'', job_Model = None, job_Paused = False, job_NextRun = 10, job_Runs = []\<rparr>"

definition demo_claimed :: Schedule where
  "demo_claimed = claim_job (claimed_run ''r'' 100) 160 demo_job"

definition demo_disk :: "Schedule \<Rightarrow> scheduleDisk" where
  "demo_disk j = \<lparr>sd_Version = 1, sd_Jobs = Some [(''a'', j)], sd_Operations = []\<rparr>"

definition demo_disk_codec :: "scheduleDisk codec" where
  "demo_disk_codec =
     \<lparr>marshal = (\<lambda>d. if d = demo_disk demo_claimed then Some ''1''
                     else if d = demo_disk (interrupt_job 200 demo_claimed) then Some ''2'' else None),
      unmarshal = (\<lambda>s. if s = ''1'' @ [newline] then Some (demo_disk demo_claimed)
                       else if s = ''2'' @ [newline] then Some (demo_disk (interrupt_job 200 demo_claimed)) else None)\<rparr>"

definition demo_sched_env :: sched_env where
  "demo_sched_env = \<lparr>ParseStandard = (\<lambda>_. Some (\<lambda>t. t + 60)), LoadLocation = (\<lambda>_. True), sha256_hex = (\<lambda>s. s),
     encode_params = (\<lambda>_. ''e''), decode_model = (\<lambda>_. None), encode_job = (\<lambda>_. None), decode_job = (\<lambda>_. None),
     validateRoot = None, disk_codec = demo_disk_codec, decode_legacy = (\<lambda>_. None), store_file = demo_path,
     store_temps = (''1'', ''2'')\<rparr>"

definition demo_schedules :: schedules where
  "demo_schedules = \<lparr>sched_jobs = [(''a'', demo_job)], sched_operations = [], sched_operation = None, sched_method = [],
     sched_failures = [], sched_lastError = [], sched_compiled = [], sched_running = [], sched_pending = [],
     sched_started = True, sched_closed = False, sched_disk = \<lparr>files = [], faults = [], trail = []\<rparr>\<rparr>"

lemma demo_cron: "length (Fields ''* * * * *'') = 5"
  by (simp add: Fields_def space_seg_def is_space_def)

lemma demo_sched_ok: "sched_ok demo_schedules"
  by (simp add: sched_ok_def demo_schedules_def job_ok_def demo_job_def unique_keys_def)

lemma demo_next: "next_run demo_sched_env demo_job 100 demo_schedules =
    (Inr 160, demo_schedules\<lparr>sched_compiled := [(''a'', ''UTC * * * * *'', \<lambda>t. t + 60)]\<rparr>)"
  by (simp add: next_run_def demo_schedules_def demo_job_def scheduleNext_def demo_sched_env_def demo_cron ContainsAny_def)

lemma demo_start:
  obtains s' where "startLocked demo_sched_env ''a'' 100 ''r'' demo_schedules = (None, s')"
    "sched_jobs s' = [(''a'', demo_claimed)]" "sched_operations s' = []" "faults (sched_disk s') = []"
proof -
  have enc: "marshal (disk_codec demo_sched_env) (demo_disk demo_claimed) = Some ''1''"
    "length (''1'' @ [newline]) \<le> maxJSONBytes"
    "Decode (disk_codec demo_sched_env) (\<lambda>_. True) (''1'' @ [newline]) \<noteq> None"
    by (simp_all add: demo_sched_env_def demo_disk_codec_def maxJSONBytes_def Decode_def)
  have calm: "faults (sched_disk demo_schedules) = []" by (simp add: demo_schedules_def)
  obtain w' where w': "Write (disk_codec demo_sched_env) (\<lambda>_. True) (store_file demo_sched_env)
      (fst (store_temps demo_sched_env)) (snd (store_temps demo_sched_env)) (demo_disk demo_claimed)
      (sched_disk demo_schedules) = (True, w')" "faults w' = []"
    using Write_calm [OF calm enc] by blast
  have job: "the_job ''a'' demo_schedules = demo_job" "job_ID demo_claimed = ''a''" "job_ID demo_job = ''a''"
    by (simp_all add: the_job_def demo_schedules_def demo_claimed_def claim_job_def demo_job_def)
  let ?s = "demo_schedules\<lparr>sched_compiled := [(''a'', ''UTC * * * * *'', \<lambda>t. t + 60)]\<rparr>"
  have sv: "save_schedule demo_sched_env demo_claimed ?s =
      (None, ?s\<lparr>sched_jobs := [(''a'', demo_claimed)], sched_disk := w', sched_operations := []\<rparr>)"
    using w' job by (simp add: save_schedule_def write_schedules_def with_operation_def demo_schedules_def demo_disk_def)
  have "startLocked demo_sched_env ''a'' 100 ''r'' demo_schedules =
      (None, ?s\<lparr>sched_jobs := [(''a'', demo_claimed)], sched_disk := w', sched_operations := [],
        sched_running := [(''a'', \<lparr>fl_job = demo_claimed, fl_run = claimed_run ''r'' 100, fl_cancelled = False\<rparr>)]\<rparr>)"
  proof -
    have "\<not> sched_closed demo_schedules" "sched_running demo_schedules = []"
      by (simp_all add: demo_schedules_def)
    with sv show ?thesis
      by (simp add: startLocked_def job demo_next Let_def demo_claimed_def [symmetric])
  qed
  with that w'(2) show ?thesis by simp
qed

lemma demo_valid: "validateSchedules demo_sched_env 200 (Some [(''a'', demo_claimed)])"
  by (simp add: validateSchedules_def valid_job_def demo_claimed_def claim_job_def demo_job_def scheduleNext_def
      demo_sched_env_def demo_cron ContainsAny_def containsNUL_iff TrimSpace_def space_seg_def is_space_def)

lemma demo_exacts: "exact (disk_codec demo_sched_env) (demo_disk demo_claimed)"
  by (simp add: exact_def demo_sched_env_def demo_disk_codec_def)

lemma demo_restart:
  assumes "read_now demo_path (files w) = ReadBytes (''1'' @ [newline]) m" "faults w = []"
  obtains s where "NewSchedules demo_sched_env 200 w = Inr s"
proof -
  let ?e = "demo_sched_env" and ?j = "interrupt_job 200 demo_claimed"
  have ne: "demo_disk ?j \<noteq> demo_disk demo_claimed"
    by (simp add: demo_disk_def interrupt_job_def demo_claimed_def claim_job_def demo_job_def claimed_run_def interrupt_run_def)
  have enc: "marshal (disk_codec ?e) (demo_disk ?j) = Some ''2''" "length (''2'' @ [newline]) \<le> maxJSONBytes"
    "Decode (disk_codec ?e) (\<lambda>_. True) (''2'' @ [newline]) \<noteq> None"
    using ne by (simp_all add: demo_sched_env_def demo_disk_codec_def maxJSONBytes_def Decode_def)
  obtain w' where w': "Write (disk_codec ?e) (\<lambda>_. True) (store_file ?e) (fst (store_temps ?e)) (snd (store_temps ?e))
      (demo_disk ?j) w = (True, w')"
    using Write_calm [OF assms(2) enc] by blast
  have un: "unmarshal (disk_codec ?e) (''1'' @ [newline]) = Some (demo_disk demo_claimed)" "store_file ?e = demo_path"
    by (simp_all add: demo_sched_env_def demo_disk_codec_def)
  have "load_schedules ?e 200 w = (Inr ([(''a'', demo_claimed)], []), w)"
    unfolding load_schedules_def ReadFile_no_faults [OF assms(2)] un(2) assms(1)
    using demo_valid un(1) by (simp add: demo_disk_def)
  moreover have "has_running demo_claimed"
    by (simp add: demo_claimed_def has_running_def claim_job_def claimed_run_def)
  ultimately obtain s where "NewSchedules ?e 200 w = Inr s"
    using w' by (simp add: NewSchedules_def write_schedules_def with_operation_def demo_disk_def)
  then show ?thesis by (rule that)
qed


theorem schedules_bounded_witness:
  "\<exists>s0. NewSchedules demo_sched_env 5 \<lparr>files = [], faults = [], trail = []\<rparr> = Inr s0
     \<and> length (sched_running (Start s0)) \<le> 8"
proof -
  have un: "decodes_maps demo_sched_env"
    by (auto simp: decodes_maps_def demo_sched_env_def demo_disk_codec_def demo_disk_def unique_keys_def split: if_splits)
  obtain s0 where s0: "NewSchedules demo_sched_env 5 \<lparr>files = [], faults = [], trail = []\<rparr> = Inr s0"
    by (simp add: NewSchedules_def load_schedules_def ReadFile_no_faults read_now_def)
  have "(schedule_step demo_sched_env)\<^sup>*\<^sup>* s0 (Start s0)" by (rule r_into_rtranclp) (rule Started)
  from schedules_bounded [OF s0 un this] s0 show ?thesis by blast
qed

theorem Handle_error_rolls_back_witness:
  "get (sched_jobs (snd (Handle demo_sched_env 100 ''n'' \<lparr>ri_Key = [], ri_Fingerprint = []\<rparr> ''schedule.pause''
      [(''projectId'', JStr ''p''), (''scheduleId'', JStr ''a'')] demo_schedules))) ''a'' = Some demo_job"
proof -
  have run: "Handle demo_sched_env 100 ''n'' \<lparr>ri_Key = [], ri_Fingerprint = []\<rparr> ''schedule.pause''
      [(''projectId'', JStr ''p''), (''scheduleId'', JStr ''a'')] demo_schedules = (Inl SchUnknownOperation, demo_schedules)"
    by (simp add: Handle_def mutate_def field_def mutation_identity_def demo_schedules_def the_job_def demo_job_def Let_def)
  from Handle_error_rolls_back [OF demo_sched_ok run] show ?thesis
    by (simp add: run) (simp add: demo_schedules_def)
qed

definition demo_answered :: schedules where
  "demo_answered = demo_schedules\<lparr>sched_operations :=
     [\<lparr>so_Key = ''k'', so_Fingerprint = ''f'', so_Result = Some ok_result\<rparr>]\<rparr>"

theorem schedule_mutation_once_witness:
  "Handle demo_sched_env 200 ''m'' \<lparr>ri_Key = ''k'', ri_Fingerprint = ''f''\<rparr> ''schedule.stop''
      [(''projectId'', JStr ''p''), (''scheduleId'', JStr ''a'')] demo_answered = (Inr (JsonValue ok_result), demo_answered)"
proof -
  let ?p = "[(''projectId'', JStr ''p''), (''scheduleId'', JStr ''a'')]"
  let ?i = "\<lparr>ri_Key = ''k'', ri_Fingerprint = ''f''\<rparr>"
  have i: "mutation_identity demo_sched_env ?i ''schedule.stop'' (textValue (field ?p ''projectId'')) ?p = Inr ?i"
    by (simp add: mutation_identity_def field_def)
  have run: "Handle demo_sched_env 100 ''n'' ?i ''schedule.stop'' ?p demo_answered = (Inr (JsonValue ok_result), demo_answered)"
    using i by (simp add: Handle_def recorded_def is_save_method_def field_def demo_answered_def demo_schedules_def)
  show ?thesis
    by (rule schedule_mutation_once [OF run _ i]) (simp_all add: demo_sched_env_def)
qed


text \<open>A cached expression is not asked for its zero answer: unlike \<open>scheduleNext\<close>, the next occurrence of
  an expression that has none is the zero time, at which the job is always due.\<close>

lemma cached_next_unchecked:
  assumes "get (sched_compiled s) (job_ID j) = Some (job_Timezone j @ '' '' @ job_Cron j, spec)"
    and "job_Timezone j \<noteq> []" "spec now = 0"
  shows "next_run env j now s = (Inr 0, s)"
  using assms by (simp add: next_run_def)

end
