(* ===== verification/AppViews.thy ===== *)
theory AppViews
  imports Attachments
begin

text \<open>
  The views of MCP Apps, \<open>internal/controller/app_view_lifetime.go\<close>: what a browser may do through a
  sandboxed view, for how long, and how much. Every method runs under one mutex and is one step here.

  Views are objects that outlive their registration: a revoked view is still held by the operations
  running on it. So \<open>av_heap\<close> is the store of view objects by address, \<open>av_views\<close> maps identifiers to
  addresses, and an operation object is told apart by its serial number. Cancelling a context sets a
  flag. Times are nanoseconds; clock readings are arguments. Tickets to be deleted in the browser
  service are results.
\<close>

record AppAttachment =
  app_ToolName :: string
  app_ExtensionName :: string
  app_ResourceURI :: string

record appViewOperation =
  aop_serial :: nat
  aop_cancelled :: bool

record appViewBinding =
  vb_projectID :: string
  vb_sessionID :: string
  vb_toolCallID :: string
  vb_clientKey :: string
  vb_attachment :: AppAttachment
  vb_html :: string
  vb_contentPending :: bool
  vb_leaseUntil :: int
  vb_cancelled :: bool
  vb_operations :: "(string \<times> appViewOperation) list"

type_synonym operation_key = "string \<times> string"

record app_views =
  av_views :: "(string \<times> nat) list"
  av_heap :: "(nat \<times> appViewBinding) list"
  av_serial :: nat
  av_earlyCancels :: "operation_key set"
  av_earlyCancelOrder :: "operation_key list"
  av_activeOperations :: int
  av_openingViews :: nat
  av_contentBytes :: int
  av_maxContentBytes :: int
  av_viewLease :: int
  av_closed :: bool

definition maxAppViews :: nat where "maxAppViews = 64"
definition maxAppViewOperations :: nat where "maxAppViewOperations = 4"
definition maxAppOperations :: int where "maxAppOperations = 16"
definition maxEarlyAppOperationCancels :: nat where "maxEarlyAppOperationCancels = 256"
definition maxAppViewTicketLifetime :: int where "maxAppViewTicketLifetime = (5 * 60 + 10) * 1000000000"
definition maxAppViewContentChunkBytes :: nat where "maxAppViewContentChunkBytes = 128 * 1024"
definition maxAppViewRetainedHTMLBytes :: int where "maxAppViewRetainedHTMLBytes = 16 * 1024 * 1024"
definition appViewLeaseDuration :: int where "appViewLeaseDuration = 90 * 1000000000"

datatype view_error =
    ViewInvalid | ViewExpiry | ViewShutdown | ViewTooMany | ViewCapacity | ViewReused | ViewMismatch | ViewUnknown
  | ContentInvalid | ContentGone | ContentOffset | LeaseExpired
  | OperationInvalid | OperationCanceled | OperationReused | OperationLimit | OperationsLimit
  | OpenUnavailable | OpenOrigin | OpenPolicy | OpenRejected

section \<open>Names\<close>

definition requiredIdentifier :: "json \<Rightarrow> string option" where
  "requiredIdentifier value =
     (case as_string value of
        None \<Rightarrow> None
      | Some t \<Rightarrow> if TrimSpace t = [] \<or> containsNUL t then None else Some t)"

definition appIdentifier :: "json \<Rightarrow> string option" where
  "appIdentifier value =
     (case requiredIdentifier value of None \<Rightarrow> None | Some t \<Rightarrow> if length t > 1024 then None else Some t)"

definition appViewTicketPattern :: "string \<Rightarrow> bool" where
  "appViewTicketPattern s \<longleftrightarrow> hex_string 64 s"

definition clientKeyPattern :: "string \<Rightarrow> bool" where
  "clientKeyPattern s \<longleftrightarrow>
     1 \<le> length s \<and> length s \<le> 128 \<and> list_all (\<lambda>c. is_alnum c \<or> c = CHR ''_'' \<or> c = CHR ''-'') s"

definition NewAppViews :: app_views where
  "NewAppViews = \<lparr>av_views = [], av_heap = [], av_serial = 0, av_earlyCancels = {}, av_earlyCancelOrder = [],
     av_activeOperations = 0, av_openingViews = 0, av_contentBytes = 0,
     av_maxContentBytes = maxAppViewRetainedHTMLBytes, av_viewLease = appViewLeaseDuration, av_closed = False\<rparr>"

section \<open>Views\<close>

definition view_of :: "app_views \<Rightarrow> string \<Rightarrow> appViewBinding option" where
  "view_of s viewID = Option.bind (get (av_views s) viewID) (get (av_heap s))"

definition view_lease :: "app_views \<Rightarrow> int" where
  "view_lease s = (if av_viewLease s \<le> 0 then appViewLeaseDuration else av_viewLease s)"

definition matches :: "string \<Rightarrow> string \<Rightarrow> string \<Rightarrow> string \<Rightarrow> appViewBinding \<Rightarrow> bool" where
  "matches project session tool client v \<longleftrightarrow>
     vb_projectID v = project \<and> vb_sessionID v = session \<and> vb_toolCallID v = tool \<and> vb_clientKey v = client"

definition set_view :: "nat \<Rightarrow> appViewBinding \<Rightarrow> app_views \<Rightarrow> app_views" where
  "set_view a v s = s\<lparr>av_heap := put a v (av_heap s)\<rparr>"

definition registerView ::
  "int \<Rightarrow> int \<Rightarrow> string \<Rightarrow> string \<Rightarrow> string \<Rightarrow> string \<Rightarrow> string \<Rightarrow> AppAttachment \<Rightarrow> string \<Rightarrow> int \<Rightarrow> app_views \<Rightarrow>
     view_error option \<times> app_views" where
  "registerView now later viewID project session tool client attachment html expiresAt s =
     (if \<not> appViewTicketPattern viewID \<or> \<not> clientKeyPattern client then (Some ViewInvalid, s)
      else if \<not> expiresAt > now \<or> expiresAt > now + maxAppViewTicketLifetime then (Some ViewExpiry, s)
      else if list_ex (\<lambda>t. appIdentifier (JStr t) = None) [project, session, tool] then (Some ViewInvalid, s)
      else if av_closed s then (Some ViewShutdown, s)
      else if length (av_views s) \<ge> maxAppViews then (Some ViewTooMany, s)
      else if int (length html) > av_maxContentBytes s - av_contentBytes s then (Some ViewCapacity, s)
      else if get (av_views s) viewID \<noteq> None then (Some ViewReused, s)
      else
        (let view = \<lparr>vb_projectID = project, vb_sessionID = session, vb_toolCallID = tool, vb_clientKey = client,
               vb_attachment = attachment, vb_html = html, vb_contentPending = (html \<noteq> []),
               vb_leaseUntil = later + view_lease s, vb_cancelled = False, vb_operations = []\<rparr>
         in (None, s\<lparr>av_views := put viewID (av_serial s) (av_views s),
                     av_heap := put (av_serial s) view (av_heap s), av_serial := Suc (av_serial s),
                     av_contentBytes := av_contentBytes s + int (length html)\<rparr>)))"

record appViewContentChunk =
  chunk_Offset :: nat
  chunk_Data :: string
  chunk_NextOffset :: nat

definition Content ::
  "string \<Rightarrow> string \<Rightarrow> string \<Rightarrow> string \<Rightarrow> string \<Rightarrow> int \<Rightarrow> app_views \<Rightarrow>
     (view_error + appViewContentChunk) \<times> app_views" where
  "Content viewID project session tool client offset s =
     (if \<not> appViewTicketPattern viewID \<or> offset < 0 then (Inl ContentInvalid, s)
      else
        (case get (av_views s) viewID of
           None \<Rightarrow> (Inl ViewMismatch, s)
         | Some a \<Rightarrow>
             (case get (av_heap s) a of
                None \<Rightarrow> (Inl ViewMismatch, s)
              | Some v \<Rightarrow>
                  if \<not> matches project session tool client v then (Inl ViewMismatch, s)
                  else if \<not> vb_contentPending v then (Inl ContentGone, s)
                  else if offset \<ge> int (length (vb_html v)) \<and> \<not> (offset = 0 \<and> vb_html v = [])
                  then (Inl ContentOffset, s)
                  else
                    (let from = nat offset;
                         stop = min (from + maxAppViewContentChunkBytes) (length (vb_html v));
                         chunk = take (stop - from) (drop from (vb_html v));
                         answer = \<lparr>chunk_Offset = from, chunk_Data = b64 (bytes_of chunk), chunk_NextOffset = stop\<rparr>
                     in (Inr answer,
                         if stop = length (vb_html v)
                         then set_view a (v\<lparr>vb_html := [], vb_contentPending := False\<rparr>)
                                (s\<lparr>av_contentBytes := av_contentBytes s - int (length (vb_html v))\<rparr>)
                         else s)))))"

definition KeepAlive ::
  "int \<Rightarrow> string \<Rightarrow> string \<Rightarrow> string \<Rightarrow> string \<Rightarrow> string \<Rightarrow> app_views \<Rightarrow> view_error option \<times> app_views" where
  "KeepAlive now viewID project session tool client s =
     (if \<not> appViewTicketPattern viewID then (Some ViewInvalid, s)
      else
        (case get (av_views s) viewID of
           None \<Rightarrow> (Some ViewMismatch, s)
         | Some a \<Rightarrow>
             (case get (av_heap s) a of
                None \<Rightarrow> (Some ViewMismatch, s)
              | Some v \<Rightarrow>
                  if \<not> matches project session tool client v then (Some ViewMismatch, s)
                  else if \<not> now < vb_leaseUntil v then (Some LeaseExpired, s)
                  else (None, set_view a (v\<lparr>vb_leaseUntil := now + view_lease s\<rparr>) s))))"

section \<open>Early cancellations\<close>

definition addEarlyCancelLocked :: "operation_key \<Rightarrow> app_views \<Rightarrow> app_views" where
  "addEarlyCancelLocked key s =
     (if key \<in> av_earlyCancels s then s
      else
        (let s = (if length (av_earlyCancelOrder s) \<ge> maxEarlyAppOperationCancels
                  then s\<lparr>av_earlyCancels := av_earlyCancels s - {hd (av_earlyCancelOrder s)},
                         av_earlyCancelOrder := tl (av_earlyCancelOrder s)\<rparr>
                  else s)
         in s\<lparr>av_earlyCancels := insert key (av_earlyCancels s),
              av_earlyCancelOrder := av_earlyCancelOrder s @ [key]\<rparr>))"

definition consumeEarlyCancelLocked :: "operation_key \<Rightarrow> app_views \<Rightarrow> bool \<times> app_views" where
  "consumeEarlyCancelLocked key s =
     (if key \<notin> av_earlyCancels s then (False, s)
      else (True, s\<lparr>av_earlyCancels := av_earlyCancels s - {key},
                    av_earlyCancelOrder := remove1 key (av_earlyCancelOrder s)\<rparr>))"

definition removeEarlyCancelsForViewLocked :: "string \<Rightarrow> app_views \<Rightarrow> app_views" where
  "removeEarlyCancelsForViewLocked viewID s =
     s\<lparr>av_earlyCancels := av_earlyCancels s - {key \<in> set (av_earlyCancelOrder s). fst key = viewID},
       av_earlyCancelOrder := filter (\<lambda>key. fst key \<noteq> viewID) (av_earlyCancelOrder s)\<rparr>"

section \<open>Revocation\<close>

definition revokeViewLocked :: "string \<Rightarrow> nat \<Rightarrow> appViewBinding \<Rightarrow> app_views \<Rightarrow> app_views" where
  "revokeViewLocked viewID a v s =
     removeEarlyCancelsForViewLocked viewID
       (set_view a (v\<lparr>vb_html := [], vb_contentPending := False\<rparr>)
          (s\<lparr>av_views := del viewID (av_views s),
             av_contentBytes := av_contentBytes s - (if vb_contentPending v then int (length (vb_html v)) else 0)\<rparr>))"

text \<open>\<open>cancelView\<close>: the view's context and those of its operations.\<close>

definition cancel_op :: "appViewOperation \<Rightarrow> appViewOperation" where
  "cancel_op opn = opn\<lparr>aop_cancelled := True\<rparr>"

definition cancelView :: "nat \<Rightarrow> app_views \<Rightarrow> app_views" where
  "cancelView a s =
     (case get (av_heap s) a of
        None \<Rightarrow> s
      | Some v \<Rightarrow> set_view a (v\<lparr>vb_cancelled := True,
                               vb_operations := map (\<lambda>(k, opn). (k, cancel_op opn)) (vb_operations v)\<rparr>) s)"

definition revoke :: "string \<Rightarrow> nat \<Rightarrow> app_views \<Rightarrow> app_views" where
  "revoke viewID a s =
     (case get (av_heap s) a of None \<Rightarrow> s | Some v \<Rightarrow> cancelView a (revokeViewLocked viewID a v s))"

definition revokeView :: "string \<Rightarrow> string \<Rightarrow> app_views \<Rightarrow> (view_error + appViewBinding) \<times> app_views" where
  "revokeView viewID client s =
     (if \<not> appViewTicketPattern viewID then (Inl ViewInvalid, s)
      else
        (case get (av_views s) viewID of
           None \<Rightarrow> (Inl ViewUnknown, s)
         | Some a \<Rightarrow>
             (case get (av_heap s) a of
                None \<Rightarrow> (Inl ViewUnknown, s)
              | Some v \<Rightarrow> if client \<noteq> [] \<and> vb_clientKey v \<noteq> client then (Inl ViewUnknown, s)
                         else (Inr v, revoke viewID a s))))"

text \<open>The lease timer of the view object \<open>expected\<close>; the result is the ticket to delete.\<close>

definition expireView :: "int \<Rightarrow> string \<Rightarrow> nat \<Rightarrow> app_views \<Rightarrow> string option \<times> app_views" where
  "expireView now viewID expected s =
     (if get (av_views s) viewID \<noteq> Some expected then (None, s)
      else
        (case get (av_heap s) expected of
           None \<Rightarrow> (None, s)
         | Some v \<Rightarrow> if vb_leaseUntil v - now > 0 then (None, s) else (Some viewID, revoke viewID expected s)))"

fun revoke_each :: "(string \<times> nat) list \<Rightarrow> app_views \<Rightarrow> app_views" where
  "revoke_each [] s = s"
| "revoke_each ((viewID, a) # vs) s = revoke_each vs (revoke viewID a s)"

definition matching :: "(appViewBinding \<Rightarrow> bool) \<Rightarrow> app_views \<Rightarrow> (string \<times> nat) list" where
  "matching P s = filter (\<lambda>(viewID, a). case get (av_heap s) a of None \<Rightarrow> False | Some v \<Rightarrow> P v) (av_views s)"

definition revokeMatching :: "(appViewBinding \<Rightarrow> bool) \<Rightarrow> bool \<Rightarrow> app_views \<Rightarrow> string list \<times> app_views" where
  "revokeMatching P closeRegistry s =
     (let s = (if closeRegistry then s\<lparr>av_closed := True\<rparr> else s)
      in (map fst (matching P s), revoke_each (matching P s) s))"

definition ReleaseClient :: "string \<Rightarrow> app_views \<Rightarrow> string list \<times> app_views" where
  "ReleaseClient client s = revokeMatching (\<lambda>v. vb_clientKey v = client) False s"

definition CloseAll :: "app_views \<Rightarrow> string list \<times> app_views" where
  "CloseAll s = revokeMatching (\<lambda>v. True) True s"

section \<open>Operations of a view\<close>

definition finishOperation :: "nat \<Rightarrow> string \<Rightarrow> nat \<Rightarrow> app_views \<Rightarrow> app_views" where
  "finishOperation a operationID serial s =
     (case get (av_heap s) a of
        None \<Rightarrow> s
      | Some v \<Rightarrow>
          (case get (vb_operations v) operationID of
             None \<Rightarrow> s
           | Some opn \<Rightarrow>
               if aop_serial opn = serial
               then set_view a (v\<lparr>vb_operations := del operationID (vb_operations v)\<rparr>)
                      (s\<lparr>av_activeOperations := av_activeOperations s - 1\<rparr>)
               else s))"

text \<open>\<open>beginOperation\<close>: \<open>dead\<close> and \<open>late\<close> say whether the request's context has ended before the call and
  at its last check. The result names the view object and the operation.\<close>

definition beginOperation ::
  "bool \<Rightarrow> bool \<Rightarrow> string \<Rightarrow> string \<Rightarrow> string \<Rightarrow> string \<Rightarrow> string \<Rightarrow> string \<Rightarrow> app_views \<Rightarrow>
     (view_error + nat \<times> nat) \<times> app_views" where
  "beginOperation dead late viewID operationID project session tool client s =
     (if \<not> appViewTicketPattern viewID then (Inl ViewInvalid, s)
      else if appIdentifier (JStr operationID) = None then (Inl OperationInvalid, s)
      else if dead then (Inl OperationCanceled, s)
      else
        (case get (av_views s) viewID of
           None \<Rightarrow> (Inl ViewMismatch, s)
         | Some a \<Rightarrow>
             (case get (av_heap s) a of
                None \<Rightarrow> (Inl ViewMismatch, s)
              | Some v \<Rightarrow>
                  if \<not> matches project session tool client v then (Inl ViewMismatch, s)
                  else
                    (case consumeEarlyCancelLocked (viewID, operationID) s of
                       (True, s) \<Rightarrow> (Inl OperationCanceled, s)
                     | (False, s) \<Rightarrow>
                         if get (vb_operations v) operationID \<noteq> None then (Inl OperationReused, s)
                         else if length (vb_operations v) \<ge> maxAppViewOperations then (Inl OperationLimit, s)
                         else if av_activeOperations s \<ge> maxAppOperations then (Inl OperationsLimit, s)
                         else
                           (let serial = av_serial s;
                                started = set_view a
                                  (v\<lparr>vb_operations := put operationID \<lparr>aop_serial = serial, aop_cancelled = False\<rparr>
                                       (vb_operations v)\<rparr>)
                                  (s\<lparr>av_serial := Suc serial, av_activeOperations := av_activeOperations s + 1\<rparr>)
                            in if late then (Inl OperationCanceled, finishOperation a operationID serial started)
                               else (Inr (a, serial), started))))))"

definition CancelOperation :: "string \<Rightarrow> string \<Rightarrow> string \<Rightarrow> app_views \<Rightarrow> view_error option \<times> app_views" where
  "CancelOperation viewID operationID client s =
     (if \<not> appViewTicketPattern viewID then (Some ViewInvalid, s)
      else if appIdentifier (JStr operationID) = None then (Some OperationInvalid, s)
      else
        (case get (av_views s) viewID of
           None \<Rightarrow> (Some ViewUnknown, s)
         | Some a \<Rightarrow>
             (case get (av_heap s) a of
                None \<Rightarrow> (Some ViewUnknown, s)
              | Some v \<Rightarrow>
                  if vb_clientKey v \<noteq> client then (Some ViewUnknown, s)
                  else
                    (case get (vb_operations v) operationID of
                       None \<Rightarrow> (None, addEarlyCancelLocked (viewID, operationID) s)
                     | Some opn \<Rightarrow>
                         (None, set_view a (v\<lparr>vb_operations := put operationID (cancel_op opn) (vb_operations v)\<rparr>) s)))))"

section \<open>Reservations and calls\<close>

definition reserveView :: "app_views \<Rightarrow> view_error option \<times> app_views" where
  "reserveView s =
     (if av_closed s then (Some ViewShutdown, s)
      else if length (av_views s) + av_openingViews s \<ge> maxAppViews then (Some ViewTooMany, s)
      else (None, s\<lparr>av_openingViews := Suc (av_openingViews s)\<rparr>))"

definition releaseViewReservation :: "app_views \<Rightarrow> app_views" where
  "releaseViewReservation s = (if av_openingViews s > 0 then s\<lparr>av_openingViews := av_openingViews s - 1\<rparr> else s)"

text \<open>\<open>ReadResource\<close> and \<open>CallTool\<close>: \<open>call\<close> is the session's call with the view's attachment, and what
  else happens to the views while it runs.\<close>

definition with_view_operation ::
  "(AppAttachment \<Rightarrow> app_views \<Rightarrow> (view_error + 'r) \<times> app_views) \<Rightarrow> bool \<Rightarrow> bool \<Rightarrow>
     string \<Rightarrow> string \<Rightarrow> string \<Rightarrow> string \<Rightarrow> string \<Rightarrow> string \<Rightarrow> app_views \<Rightarrow> (view_error + 'r) \<times> app_views" where
  "with_view_operation call dead late viewID operationID project session tool client s =
     (case beginOperation dead late viewID operationID project session tool client s of
        (Inl e, s) \<Rightarrow> (Inl e, s)
      | (Inr (a, serial), s) \<Rightarrow>
          (case get (av_heap s) a of
             None \<Rightarrow> (Inl ViewMismatch, s)
           | Some v \<Rightarrow> (let (r, s) = call (vb_attachment v) s in (r, finishOperation a operationID serial s))))"

lemmas view_ops [op_defs] =
  registerView_def Content_def KeepAlive_def revokeView_def expireView_def beginOperation_def CancelOperation_def
  finishOperation_def reserveView_def releaseViewReservation_def

end
