(* ===== verification/AppViewSafety.thy ===== *)
theory AppViewSafety
  imports AppViews
begin

text \<open>
  What \<open>AppViews\<close> guarantees: the ledgers of held bytes and running operations, the invariant of every step
  and of the reachable states, what revoking views does, and the reading of a page by its client
  (\<open>src/chat/tools/apps/mcp-app-client.ts\<close> of the web UI) over \<open>Content\<close>.
\<close>

section \<open>The ledgers and the invariant\<close>

interpretation held: ledger av_heap av_contentBytes "\<lambda>v. int (length (vb_html v))"
  by unfold_locales simp

interpretation active: ledger av_heap av_activeOperations "\<lambda>v. int (length (vb_operations v))"
  by unfold_locales simp

definition dead_view :: "appViewBinding \<Rightarrow> bool" where
  "dead_view v \<longleftrightarrow> vb_cancelled v \<and> vb_html v = [] \<and> \<not> vb_contentPending v
     \<and> (\<forall>k opn. get (vb_operations v) k = Some opn \<longrightarrow> aop_cancelled opn)"

definition view_ok :: "appViewBinding \<Rightarrow> bool" where
  "view_ok v \<longleftrightarrow> length (vb_operations v) \<le> maxAppViewOperations \<and> unique_keys (vb_operations v)
     \<and> (vb_contentPending v \<longleftrightarrow> vb_html v \<noteq> [])"

definition registered :: "nat \<Rightarrow> app_views \<Rightarrow> bool" where
  "registered a s \<longleftrightarrow> (\<exists>viewID. get (av_views s) viewID = Some a)"

definition views_ok :: "app_views \<Rightarrow> bool" where
  "views_ok s \<longleftrightarrow> held.balanced s \<and> active.balanced s
     \<and> av_contentBytes s \<le> av_maxContentBytes s \<and> av_activeOperations s \<le> maxAppOperations
     \<and> length (av_views s) \<le> maxAppViews \<and> unique_keys (av_views s)
     \<and> (\<forall>i j a. get (av_views s) i = Some a \<longrightarrow> get (av_views s) j = Some a \<longrightarrow> i = j)
     \<and> (\<forall>i a. get (av_views s) i = Some a \<longrightarrow> get (av_heap s) a \<noteq> None)
     \<and> (\<forall>a v. get (av_heap s) a = Some v \<longrightarrow> a < av_serial s \<and> view_ok v \<and> (registered a s \<or> dead_view v))
     \<and> distinct (av_earlyCancelOrder s) \<and> set (av_earlyCancelOrder s) = av_earlyCancels s
     \<and> length (av_earlyCancelOrder s) \<le> maxEarlyAppOperationCancels
     \<and> (\<forall>k \<in> av_earlyCancels s. get (av_views s) (fst k) \<noteq> None)"

lemma registered_view: "views_ok s \<Longrightarrow> get (av_views s) i = Some a \<Longrightarrow> get (av_heap s) a \<noteq> None"
  unfolding views_ok_def by blast

lemma views_ok_new: "views_ok NewAppViews"
  by (simp add: views_ok_def NewAppViews_def held.balanced_def active.balanced_def maxAppViews_def
      maxAppViewRetainedHTMLBytes_def maxAppOperations_def maxEarlyAppOperationCancels_def registered_def)

text \<open>A step that replaces one view object by another, keeping the registration.\<close>

lemma replace_view_ok:
  assumes ok: "views_ok s" and v: "get (av_heap s) a = Some v"
    and heap: "av_heap s' = put a v' (av_heap s)"
    and bytes: "av_contentBytes s' = av_contentBytes s - int (length (vb_html v)) + int (length (vb_html v'))"
    and ops: "av_activeOperations s' = av_activeOperations s - int (length (vb_operations v)) + int (length (vb_operations v'))"
    and limits: "av_contentBytes s' \<le> av_maxContentBytes s" "av_activeOperations s' \<le> maxAppOperations"
    and v': "view_ok v'" "registered a s \<or> dead_view v'"
    and same: "av_views s' = av_views s" "av_serial s \<le> av_serial s'" "av_maxContentBytes s' = av_maxContentBytes s"
      "av_earlyCancels s' = av_earlyCancels s" "av_earlyCancelOrder s' = av_earlyCancelOrder s"
  shows "views_ok s'"
proof -
  have "held.balanced s'" using held.balanced_replace [OF _ v heap bytes] ok by (simp add: views_ok_def)
  moreover have "active.balanced s'" using active.balanced_replace [OF _ v heap ops] ok by (simp add: views_ok_def)
  moreover have "a < av_serial s'" using ok v same(2) by (fastforce simp: views_ok_def)
  ultimately show ?thesis
    using ok limits v' v unfolding views_ok_def heap same registered_def
    by (auto simp: less_le_trans [OF _ same(2)])
qed

lemma set_view_fields [simp]:
  "av_views (set_view a v s) = av_views s" "av_heap (set_view a v s) = put a v (av_heap s)"
  "av_serial (set_view a v s) = av_serial s" "av_earlyCancels (set_view a v s) = av_earlyCancels s"
  "av_earlyCancelOrder (set_view a v s) = av_earlyCancelOrder s" "av_contentBytes (set_view a v s) = av_contentBytes s"
  "av_activeOperations (set_view a v s) = av_activeOperations s" "av_maxContentBytes (set_view a v s) = av_maxContentBytes s"
  "av_closed (set_view a v s) = av_closed s" "av_openingViews (set_view a v s) = av_openingViews s"
  "av_viewLease (set_view a v s) = av_viewLease s"
  by (simp_all add: set_view_def)

lemma view_address: "views_ok s \<Longrightarrow> get (av_heap s) a = Some v \<Longrightarrow> a < av_serial s"
  unfolding views_ok_def by blast

lemma view_facts:
  assumes "views_ok s" "get (av_heap s) a = Some v"
  shows "view_ok v" "registered a s \<or> dead_view v" "int (length (vb_html v)) \<le> av_contentBytes s"
    "int (length (vb_operations v)) \<le> av_activeOperations s"
  using assms held.balanced_charge_le [of s a v] active.balanced_charge_le [of s a v]
  by (auto simp: views_ok_def)

lemma limits_ok: "views_ok s \<Longrightarrow> av_contentBytes s \<le> av_maxContentBytes s \<and> av_activeOperations s \<le> maxAppOperations"
  by (simp add: views_ok_def)

text \<open>A step on a view object that leaves its content and the number of its operations alone.\<close>

lemma touch_view_ok:
  assumes ok: "views_ok s" and v: "get (av_heap s) a = Some v"
    and v': "vb_html v' = vb_html v" "vb_contentPending v' = vb_contentPending v"
      "length (vb_operations v') = length (vb_operations v)" "unique_keys (vb_operations v')"
      "dead_view v \<Longrightarrow> dead_view v'"
  shows "views_ok (set_view a v' s)"
proof -
  have "view_ok v'" using view_facts(1) [OF ok v] v' by (simp add: view_ok_def)
  moreover have "registered a s \<or> dead_view v'" using view_facts(2) [OF ok v] v'(5) by blast
  ultimately show ?thesis
    by (intro replace_view_ok [OF ok v]) (use v' limits_ok [OF ok] in simp_all)
qed

lemma Content_ok:
  assumes ok: "views_ok s"
  shows "views_ok (snd (Content viewID project session tool client offset s))"
proof (cases "\<exists>a v. get (av_views s) viewID = Some a \<and> get (av_heap s) a = Some v \<and>
    snd (Content viewID project session tool client offset s) =
      set_view a (v\<lparr>vb_html := [], vb_contentPending := False\<rparr>)
        (s\<lparr>av_contentBytes := av_contentBytes s - int (length (vb_html v))\<rparr>)")
  case True
  then obtain a v where v: "get (av_views s) viewID = Some a" "get (av_heap s) a = Some v"
    and eq: "snd (Content viewID project session tool client offset s) =
      set_view a (v\<lparr>vb_html := [], vb_contentPending := False\<rparr>)
        (s\<lparr>av_contentBytes := av_contentBytes s - int (length (vb_html v))\<rparr>)" by blast
  have "registered a s" using v by (auto simp: registered_def)
  then show ?thesis
    unfolding eq
    by (intro replace_view_ok [OF ok v(2), where v' = "v\<lparr>vb_html := [], vb_contentPending := False\<rparr>"])
      (use view_facts [OF ok v(2)] limits_ok [OF ok] in \<open>simp_all add: view_ok_def\<close>)
next
  case False
  then have "snd (Content viewID project session tool client offset s) = s"
    by (auto simp: Content_def Let_def split: option.splits if_splits)
  with ok show ?thesis by simp
qed

lemma KeepAlive_ok:
  assumes ok: "views_ok s"
  shows "views_ok (snd (KeepAlive now viewID project session tool client s))"
proof -
  have "views_ok (set_view a (v\<lparr>vb_leaseUntil := t\<rparr>) s)" if "get (av_heap s) a = Some v" for a v t
    by (rule touch_view_ok [OF ok that]) (use view_facts [OF ok that] in \<open>auto simp: view_ok_def dead_view_def\<close>)
  with ok show ?thesis by (auto simp: KeepAlive_def split: option.splits)
qed

lemma registerView_ok:
  assumes ok: "views_ok s"
  shows "views_ok (snd (registerView now later viewID project session tool client attachment html expiresAt s))"
proof -
  let ?r = "registerView now later viewID project session tool client attachment html expiresAt s"
  show ?thesis
  proof (cases "fst ?r")
    case (Some e)
    then have "snd ?r = s" by (auto simp: registerView_def Let_def split: if_splits)
    with ok show ?thesis by simp
  next
    case None
    let ?a = "av_serial s"
    obtain view where view: "snd ?r = s\<lparr>av_views := put viewID ?a (av_views s), av_heap := put ?a view (av_heap s),
        av_serial := Suc ?a, av_contentBytes := av_contentBytes s + int (length html)\<rparr>"
      "vb_html view = html" "vb_operations view = []" "vb_contentPending view = (html \<noteq> [])"
      and guards: "length (av_views s) < maxAppViews" "int (length html) \<le> av_maxContentBytes s - av_contentBytes s"
        "get (av_views s) viewID = None"
      using None that by (auto simp: registerView_def Let_def split: if_splits)
    have fresh: "get (av_heap s) ?a = None" using ok by (cases "get (av_heap s) ?a") (auto simp: views_ok_def)
    have unused: "get (av_views s) i \<noteq> Some ?a" for i using registered_view [OF ok, of i ?a] fresh by auto
    then have unused': "\<And>i a. get (av_views s) i = Some a \<Longrightarrow> ?a \<noteq> a" by auto
    have "held.balanced (snd ?r)"
      by (rule held.balanced_insert [of s ?a _ view]) (use ok fresh view in \<open>simp_all add: views_ok_def\<close>)
    moreover have "active.balanced (snd ?r)"
      by (rule active.balanced_insert [of s ?a _ view]) (use ok fresh view in \<open>simp_all add: views_ok_def\<close>)
    moreover have "viewID \<notin> keys (av_views s)" using guards(3) by (simp add: get_None_iff)
    moreover have "a < Suc ?a \<and> view_ok v \<and> (registered a (snd ?r) \<or> dead_view v)"
      if "get (put ?a view (av_heap s)) a = Some v" for a v
    proof (cases "a = ?a")
      case True
      with that view show ?thesis
        by (auto simp: registered_def view_ok_def maxAppViewOperations_def)
    next
      case False
      with that have v: "get (av_heap s) a = Some v" by simp
      moreover have "registered a (snd ?r)" if r: "registered a s"
      proof -
        obtain i where i: "get (av_views s) i = Some a" using r by (auto simp: registered_def)
        then have "i \<noteq> viewID" using guards(3) by auto
        with i show ?thesis by (auto simp: registered_def view(1) intro!: exI [of _ i])
      qed
      ultimately show ?thesis using view_facts(1,2) [OF ok v] view_address [OF ok v] by auto
    qed
    ultimately show ?thesis
      using ok guards unused' by (simp add: views_ok_def view(1)) blast
  qed
qed

lemma early_cancels_ok:
  assumes "views_ok s" "distinct order" "set order = marks" "length order \<le> maxEarlyAppOperationCancels"
    and "\<And>k. k \<in> marks \<Longrightarrow> get (av_views s) (fst k) \<noteq> None"
  shows "views_ok (s\<lparr>av_earlyCancels := marks, av_earlyCancelOrder := order\<rparr>)"
  using assms by (simp add: views_ok_def held.balanced_def active.balanced_def registered_def)

lemma early_facts:
  assumes "views_ok s"
  shows "distinct (av_earlyCancelOrder s)" "set (av_earlyCancelOrder s) = av_earlyCancels s"
    "length (av_earlyCancelOrder s) \<le> maxEarlyAppOperationCancels"
    "\<And>k. k \<in> av_earlyCancels s \<Longrightarrow> get (av_views s) (fst k) \<noteq> None"
  using assms unfolding views_ok_def by blast+

lemma addEarlyCancel_ok:
  assumes ok: "views_ok s" and key: "get (av_views s) (fst key) \<noteq> None"
  shows "views_ok (addEarlyCancelLocked key s)"
proof -
  note ef = early_facts [OF ok]
  show ?thesis
  proof (cases "key \<in> av_earlyCancels s \<or> length (av_earlyCancelOrder s) < maxEarlyAppOperationCancels")
    case True
    have "views_ok (s\<lparr>av_earlyCancels := insert key (av_earlyCancels s),
        av_earlyCancelOrder := av_earlyCancelOrder s @ [key]\<rparr>)" if "key \<notin> av_earlyCancels s"
      using True that ef key by (intro early_cancels_ok [OF ok]) auto
    with True ok show ?thesis by (cases "key \<in> av_earlyCancels s") (simp_all add: addEarlyCancelLocked_def)
  next
    case False
    then obtain o1 os where order: "av_earlyCancelOrder s = o1 # os"
      by (cases "av_earlyCancelOrder s") (auto simp: maxEarlyAppOperationCancels_def)
    with False ef key have "views_ok (s\<lparr>av_earlyCancels := insert key (av_earlyCancels s - {o1}),
        av_earlyCancelOrder := os @ [key]\<rparr>)"
      by (intro early_cancels_ok [OF ok]) auto
    with False order show ?thesis by (simp add: addEarlyCancelLocked_def)
  qed
qed

lemma consumeEarlyCancel_ok:
  assumes ok: "views_ok s"
  shows "views_ok (snd (consumeEarlyCancelLocked key s))"
proof -
  note ef = early_facts [OF ok]
  have "length (remove1 key (av_earlyCancelOrder s)) \<le> maxEarlyAppOperationCancels"
    using ef(3) by (cases "key \<in> set (av_earlyCancelOrder s)") (simp_all add: length_remove1)
  with ef have "views_ok (s\<lparr>av_earlyCancels := av_earlyCancels s - {key},
      av_earlyCancelOrder := remove1 key (av_earlyCancelOrder s)\<rparr>)"
    by (intro early_cancels_ok [OF ok]) auto
  with ok show ?thesis by (simp add: consumeEarlyCancelLocked_def)
qed

lemma consume_False: "consumeEarlyCancelLocked key s = (False, s') \<Longrightarrow> s' = s"
  by (simp add: consumeEarlyCancelLocked_def split: if_splits)

lemma finishOperation_ok:
  assumes ok: "views_ok s"
  shows "views_ok (finishOperation a operationID serial s)"
proof (cases "\<exists>v opn. get (av_heap s) a = Some v \<and> get (vb_operations v) operationID = Some opn \<and> aop_serial opn = serial")
  case True
  then obtain v opn where v: "get (av_heap s) a = Some v" "get (vb_operations v) operationID = Some opn" "aop_serial opn = serial"
    by blast
  let ?v = "v\<lparr>vb_operations := del operationID (vb_operations v)\<rparr>"
  have un: "unique_keys (vb_operations v)" using view_facts(1) [OF ok v(1)] by (simp add: view_ok_def)
  have len: "length (del operationID (vb_operations v)) = length (vb_operations v) - 1"
    by (rule length_del_unique [OF un v(2)])
  have pos: "length (vb_operations v) \<ge> 1" using v(2) by (cases "vb_operations v") auto
  have "views_ok (set_view a ?v (s\<lparr>av_activeOperations := av_activeOperations s - 1\<rparr>))"
    by (intro replace_view_ok [OF ok v(1), where v' = ?v])
      (use view_facts [OF ok v(1)] limits_ok [OF ok] len pos un in \<open>auto simp: view_ok_def dead_view_def\<close>)
  with v show ?thesis by (simp add: finishOperation_def)
next
  case False
  then have "finishOperation a operationID serial s = s"
    by (auto simp: finishOperation_def split: option.splits)
  with ok show ?thesis by simp
qed

lemma start_operation_ok:
  assumes ok: "views_ok s" and v: "get (av_views s) viewID = Some a" "get (av_heap s) a = Some v"
    and guards: "get (vb_operations v) operationID = None" "length (vb_operations v) < maxAppViewOperations"
      "av_activeOperations s < maxAppOperations"
  shows "views_ok (set_view a (v\<lparr>vb_operations := put operationID opn (vb_operations v)\<rparr>)
     (s\<lparr>av_serial := Suc (av_serial s), av_activeOperations := av_activeOperations s + 1\<rparr>))"
proof -
  let ?v = "v\<lparr>vb_operations := put operationID opn (vb_operations v)\<rparr>"
  have "registered a s" using v by (auto simp: registered_def)
  moreover have len: "length (vb_operations ?v) = Suc (length (vb_operations v))"
    using guards(1) by (simp add: get_None_iff)
  ultimately show ?thesis
    using view_facts [OF ok v(2)] limits_ok [OF ok] guards
    by (intro replace_view_ok [OF ok v(2), where v' = ?v]) (simp_all add: view_ok_def)
qed

lemma beginOperation_ok:
  assumes ok: "views_ok s"
  shows "views_ok (snd (beginOperation dead late viewID operationID project session tool client s))"
proof (cases "appViewTicketPattern viewID \<and> appIdentifier (JStr operationID) \<noteq> None \<and> \<not> dead
    \<and> (\<exists>a v. get (av_views s) viewID = Some a \<and> get (av_heap s) a = Some v \<and> matches project session tool client v)")
  case True
  then obtain a v where v: "get (av_views s) viewID = Some a" "get (av_heap s) a = Some v"
    "matches project session tool client v" by blast
  obtain c s1 where c: "consumeEarlyCancelLocked (viewID, operationID) s = (c, s1)" by force
  have ok1: "views_ok s1" using consumeEarlyCancel_ok [OF ok, of "(viewID, operationID)"] c by simp
  show ?thesis
  proof (cases c)
    case True
    with \<open>appViewTicketPattern viewID \<and> _\<close> v c ok1 show ?thesis by (auto simp: beginOperation_def)
  next
    case False
    then have s1: "s1 = s" using consume_False c by simp
    let ?s = "set_view a (v\<lparr>vb_operations := put operationID \<lparr>aop_serial = av_serial s, aop_cancelled = False\<rparr> (vb_operations v)\<rparr>)
      (s\<lparr>av_serial := Suc (av_serial s), av_activeOperations := av_activeOperations s + 1\<rparr>)"
    have "snd (beginOperation dead late viewID operationID project session tool client s) \<in>
        {s, ?s, finishOperation a operationID (av_serial s) ?s}
        \<and> (snd (beginOperation dead late viewID operationID project session tool client s) \<noteq> s \<longrightarrow>
             get (vb_operations v) operationID = None \<and> length (vb_operations v) < maxAppViewOperations
             \<and> av_activeOperations s < maxAppOperations)"
      using True v c False by (auto simp: beginOperation_def s1 Let_def)
    with start_operation_ok [OF ok v(1,2)] finishOperation_ok ok show ?thesis by (metis insertE singletonD)
  qed
next
  case False
  then have "snd (beginOperation dead late viewID operationID project session tool client s) = s"
    by (auto simp: beginOperation_def split: option.splits)
  with ok show ?thesis by simp
qed

lemma CancelOperation_ok:
  assumes ok: "views_ok s"
  shows "views_ok (snd (CancelOperation viewID operationID client s))"
proof -
  have "views_ok (set_view a (v\<lparr>vb_operations := put operationID (cancel_op opn) (vb_operations v)\<rparr>) s)"
    if v: "get (av_heap s) a = Some v" "get (vb_operations v) operationID = Some opn" for a v opn
    by (rule touch_view_ok [OF ok v(1)])
      (use view_facts(1) [OF ok v(1)] v(2) get_Some_key [OF v(2)] in \<open>auto simp: view_ok_def dead_view_def cancel_op_def\<close>)
  with ok addEarlyCancel_ok [OF ok] show ?thesis
    by (auto simp: CancelOperation_def split: option.splits)
qed

definition dead :: "appViewBinding \<Rightarrow> appViewBinding" where
  "dead v = v\<lparr>vb_html := [], vb_contentPending := False, vb_cancelled := True,
     vb_operations := map (\<lambda>(k, opn). (k, cancel_op opn)) (vb_operations v)\<rparr>"

lemma get_map_ops: "get (map (\<lambda>(k, opn). (k, cancel_op opn)) m) k = map_option cancel_op (get m k)"
  by (induction m) auto

lemma cancel_op_cancelled [simp]: "aop_cancelled (cancel_op opn)"
  by (simp add: cancel_op_def)

lemma dead_fields [simp]:
  "vb_html (dead v) = []" "length (vb_operations (dead v)) = length (vb_operations v)"
  by (simp_all add: dead_def)

lemma dead_dead: "dead_view (dead v)"
  by (auto simp: dead_view_def dead_def get_map_ops)

lemma views_balanced: "views_ok s \<Longrightarrow> held.balanced s" "views_ok s \<Longrightarrow> active.balanced s"
  by (simp_all add: views_ok_def)

lemma dead_ok: "view_ok v \<Longrightarrow> view_ok (dead v)"
  by (auto simp: view_ok_def dead_def unique_keys_def comp_def case_prod_beta)

lemma revoke_fields:
  assumes "views_ok s" "get (av_heap s) a = Some v"
  shows "av_views (revoke viewID a s) = del viewID (av_views s)"
    "av_heap (revoke viewID a s) = put a (dead v) (av_heap s)"
    "av_contentBytes (revoke viewID a s) = av_contentBytes s - int (length (vb_html v))"
    "av_activeOperations (revoke viewID a s) = av_activeOperations s"
    "av_serial (revoke viewID a s) = av_serial s"
    "av_maxContentBytes (revoke viewID a s) = av_maxContentBytes s"
    "av_earlyCancels (revoke viewID a s) = av_earlyCancels s - {key \<in> set (av_earlyCancelOrder s). fst key = viewID}"
    "av_earlyCancelOrder (revoke viewID a s) = filter (\<lambda>key. fst key \<noteq> viewID) (av_earlyCancelOrder s)"
    "av_closed (revoke viewID a s) = av_closed s"
proof -
  have "\<not> vb_contentPending v \<Longrightarrow> vb_html v = []" using view_facts(1) [OF assms] by (simp add: view_ok_def)
  then show "av_contentBytes (revoke viewID a s) = av_contentBytes s - int (length (vb_html v))"
    using assms(2) by (auto simp: revoke_def revokeViewLocked_def removeEarlyCancelsForViewLocked_def cancelView_def)
qed (use assms(2) in \<open>simp_all add: revoke_def revokeViewLocked_def removeEarlyCancelsForViewLocked_def
       cancelView_def dead_def\<close>)

lemma views_inj: "views_ok s \<Longrightarrow> get (av_views s) i = Some a \<Longrightarrow> get (av_views s) j = Some a \<Longrightarrow> i = j"
  unfolding views_ok_def by blast

lemma revoke_ok:
  assumes ok: "views_ok s" and a: "get (av_views s) viewID = Some a"
  shows "views_ok (revoke viewID a s)"
proof -
  let ?s = "revoke viewID a s"
  obtain v where v: "get (av_heap s) a = Some v" using registered_view [OF ok a] by blast
  note f = revoke_fields [OF ok v, of viewID]
  note ef = early_facts [OF ok]
  have "held.balanced ?s"
    by (rule held.balanced_replace [OF views_balanced(1) [OF ok] v f(2)]) (simp add: f(3))
  moreover have "active.balanced ?s"
    by (rule active.balanced_replace [OF views_balanced(2) [OF ok] v f(2)]) (simp add: f(4))
  moreover have "length (av_views ?s) \<le> maxAppViews"
    using ok length_delete_le [of viewID "av_views s"] unfolding views_ok_def f by linarith
  moreover have "get (av_heap ?s) b = Some u \<Longrightarrow> b < av_serial ?s \<and> view_ok u \<and> (registered b ?s \<or> dead_view u)" for b u
  proof -
    assume u: "get (av_heap ?s) b = Some u"
    show ?thesis
    proof (cases "b = a")
      case True
      with u have "u = dead v" by (simp add: f(2))
      with True view_address [OF ok v] dead_ok [OF view_facts(1) [OF ok v]] dead_dead show ?thesis by (simp add: f(5))
    next
      case False
      with u f have h: "get (av_heap s) b = Some u" by simp
      have "registered b ?s" if r: "registered b s"
      proof -
        obtain i where i: "get (av_views s) i = Some b" using r by (auto simp: registered_def)
        with a False have "i \<noteq> viewID" by auto
        with i show ?thesis by (auto simp: registered_def f(1))
      qed
      with view_facts [OF ok h] view_address [OF ok h] f show ?thesis by auto
    qed
  qed
  moreover have "get (av_views ?s) (fst k) \<noteq> None" if "k \<in> av_earlyCancels ?s" for k
    using that ef(2) ef(4) [of k] by (auto simp: f)
  moreover have "length (av_earlyCancelOrder ?s) \<le> maxEarlyAppOperationCancels"
    unfolding f by (rule le_trans [OF length_filter_le ef(3)])
  moreover have "av_contentBytes ?s \<le> av_maxContentBytes ?s" "av_activeOperations ?s \<le> maxAppOperations"
    using limits_ok [OF ok] by (simp_all add: f)
  moreover have "unique_keys (av_views ?s)" using ok by (simp add: views_ok_def f)
  moreover have "\<forall>i j x. get (av_views ?s) i = Some x \<longrightarrow> get (av_views ?s) j = Some x \<longrightarrow> i = j"
    using views_inj [OF ok] by (auto simp: f)
  moreover have "\<forall>i x. get (av_views ?s) i = Some x \<longrightarrow> get (av_heap ?s) x \<noteq> None"
    using registered_view [OF ok] by (auto simp: f)
  moreover have "distinct (av_earlyCancelOrder ?s)" "set (av_earlyCancelOrder ?s) = av_earlyCancels ?s"
    using ef by (auto simp: f)
  ultimately show ?thesis unfolding views_ok_def by blast
qed

text \<open>Revoking several views: each of them is dead and gone, the others are as they were.\<close>

lemma revoke_each_spec:
  assumes "views_ok s" "\<forall>(i, a) \<in> set vs. get (av_views s) i = Some a" "distinct (map fst vs)"
  shows "views_ok (revoke_each vs s) \<and> av_closed (revoke_each vs s) = av_closed s
    \<and> (\<forall>i. get (av_views (revoke_each vs s)) i = (if i \<in> keys vs then None else get (av_views s) i))
    \<and> (\<forall>a. get (av_heap (revoke_each vs s)) a =
          (if a \<in> snd ` set vs then map_option dead (get (av_heap s) a) else get (av_heap s) a))"
  using assms
proof (induction vs arbitrary: s)
  case (Cons e vs)
  obtain i a where e: "e = (i, a)" by (cases e)
  with Cons.prems have a: "get (av_views s) i = Some a" by simp
  then obtain v where v: "get (av_heap s) a = Some v" using registered_view [OF Cons.prems(1)] by blast
  note f = revoke_fields [OF Cons.prems(1) v, of i]
  have rest: "\<forall>(j, b) \<in> set vs. get (av_views (revoke i a s)) j = Some b"
  proof clarify
    fix j b assume jb: "(j, b) \<in> set vs"
    then have "j \<noteq> i" using Cons.prems(3) e by force
    with jb Cons.prems(2) show "get (av_views (revoke i a s)) j = Some b" by (auto simp: f)
  qed
  have "a \<notin> snd ` set vs"
  proof
    assume "a \<in> snd ` set vs"
    then obtain j where j: "(j, a) \<in> set vs" by force
    then have "get (av_views s) j = Some a" using Cons.prems(2) by auto
    with views_inj [OF Cons.prems(1) a] have "j = i" by blast
    with j Cons.prems(3) e show False by force
  qed
  with Cons.IH [OF revoke_ok [OF Cons.prems(1) a] rest] Cons.prems(3) v show ?case
    by (auto simp: e f)
qed simp

lemma matching_registered: "views_ok s \<Longrightarrow> \<forall>(i, a) \<in> set (matching P s). get (av_views s) i = Some a"
  by (auto simp: matching_def views_ok_def get_in_set)

lemma matching_distinct: "views_ok s \<Longrightarrow> distinct (map fst (matching P s))"
  by (auto simp: matching_def views_ok_def unique_keys_def distinct_map_filter)

lemma views_ok_closed [simp]: "views_ok (s\<lparr>av_closed := b\<rparr>) = views_ok s"
  by (simp add: views_ok_def held.balanced_def active.balanced_def registered_def)

lemma revokeMatching_ok: "views_ok s \<Longrightarrow> views_ok (snd (revokeMatching P b s))"
  by (simp add: revokeMatching_def Let_def revoke_each_spec matching_registered matching_distinct)

lemma revokeView_ok: "views_ok s \<Longrightarrow> views_ok (snd (revokeView viewID client s))"
  by (auto simp: revokeView_def intro: revoke_ok split: option.splits)

lemma expireView_ok: "views_ok s \<Longrightarrow> views_ok (snd (expireView now viewID a s))"
  by (auto simp: expireView_def intro: revoke_ok split: option.splits)

lemma reserve_ok: "views_ok s \<Longrightarrow> views_ok (snd (reserveView s))" "views_ok s \<Longrightarrow> views_ok (releaseViewReservation s)"
  by (auto simp: reserveView_def releaseViewReservation_def views_ok_def held.balanced_def active.balanced_def registered_def)

inductive view_step :: "app_views \<Rightarrow> app_views \<Rightarrow> bool" where
  Register: "view_step s (snd (registerView now later i p c t k att html e s))"
| ReadContent: "view_step s (snd (Content i p c t k off s))"
| Kept: "view_step s (snd (KeepAlive now i p c t k s))"
| Expired: "view_step s (snd (expireView now i a s))"
| Begun: "view_step s (snd (beginOperation b1 b2 i opid p c t k s))"
| Finished: "view_step s (finishOperation a opid n s)"
| Canceled: "view_step s (snd (CancelOperation i opid k s))"
| Revoked: "view_step s (snd (revokeView i k s))"
| Released: "view_step s (snd (ReleaseClient k s))"
| Shut: "view_step s (snd (CloseAll s))"
| Reserved: "view_step s (snd (reserveView s))"
| Unreserved: "view_step s (releaseViewReservation s)"

lemma view_step_ok: "view_step s s' \<Longrightarrow> views_ok s \<Longrightarrow> views_ok s'"
  by (induction rule: view_step.induct)
     (auto simp: ReleaseClient_def CloseAll_def intro: registerView_ok Content_ok KeepAlive_ok expireView_ok
        beginOperation_ok finishOperation_ok CancelOperation_ok revokeView_ok revokeMatching_ok reserve_ok)

lemma reachable_views_ok: "view_step\<^sup>*\<^sup>* NewAppViews s \<Longrightarrow> views_ok s"
  by (induction rule: rtranclp_induct) (auto intro: views_ok_new view_step_ok)

section \<open>Reading an App's page\<close>

text \<open>Base64 read back: the inverse of \<open>b64\<close>; what it gives on other texts does not matter to the client,
  which encodes the result again and compares.\<close>

definition b64_value :: "char \<Rightarrow> nat" where
  "b64_value c = nat (base64Index c)"

fun unb64 :: "string \<Rightarrow> nat list option" where
  "unb64 [] = Some []"
| "unb64 (a # b # c # d # r) =
     (if d = CHR ''='' then
        (if r \<noteq> [] then None
         else if c = CHR ''='' then Some [b64_value a * 4 + b64_value b div 16]
         else Some [b64_value a * 4 + b64_value b div 16, b64_value b mod 16 * 16 + b64_value c div 4])
      else map_option (\<lambda>bs. (b64_value a * 4 + b64_value b div 16) # (b64_value b mod 16 * 16 + b64_value c div 4)
                           # (b64_value c mod 4 * 64 + b64_value d) # bs) (unb64 r))"
| "unb64 _ = None"

definition APP_CLIENT_MAX_CHUNK_BYTES :: nat where "APP_CLIENT_MAX_CHUNK_BYTES = 256 * 1024"
definition APP_CLIENT_MAX_HTML_BYTES :: nat where "APP_CLIENT_MAX_HTML_BYTES = 5 * 1024 * 1024"

definition decodeChunk :: "string \<Rightarrow> nat list option" where
  "decodeChunk data =
     (case unb64 data of
        None \<Rightarrow> None
      | Some bs \<Rightarrow> if length bs > APP_CLIENT_MAX_CHUNK_BYTES \<or> b64 bs \<noteq> data then None else Some bs)"

lemma chunk_progress: "d \<noteq> [] \<Longrightarrow> off < n \<Longrightarrow> n - (off + length d) < n - off" for off n :: nat
  by (cases d) auto

text \<open>
  The client's loop, \<open>readMcpAppHTML\<close> of \<open>mcp-app-client.ts\<close>, over any transport: \<open>request\<close> answers an
  offset with a chunk or fails, and carries the state of the other side. Its own checks bound it: the
  offset grows at every turn.
\<close>

function read_chunks ::
  "(nat \<Rightarrow> 's \<Rightarrow> appViewContentChunk option \<times> 's) \<Rightarrow> nat \<Rightarrow> nat \<Rightarrow> 's \<Rightarrow> nat list option \<times> 's" where
  "read_chunks request total_size offset s =
     (if offset < total_size then
        (case request offset s of
           (None, s) \<Rightarrow> (None, s)
         | (Some c, s) \<Rightarrow>
             (case decodeChunk (chunk_Data c) of
                None \<Rightarrow> (None, s)
              | Some d \<Rightarrow>
                  if chunk_Offset c \<noteq> offset \<or> chunk_NextOffset c \<noteq> offset + length d \<or> d = []
                     \<or> chunk_NextOffset c > total_size
                  then (None, s)
                  else (case read_chunks request total_size (chunk_NextOffset c) s of
                          (None, s) \<Rightarrow> (None, s)
                        | (Some rest, s) \<Rightarrow> (Some (d @ rest), s))))
      else (Some [], s))"
  by pat_completeness auto
termination
  by (relation "measure (\<lambda>(request, total_size, offset, s). total_size - offset)") (auto simp: chunk_progress)

text \<open>A fatal \<open>TextDecoder\<close>: it refuses malformed UTF-8 and drops a leading byte order mark.\<close>

definition without_bom :: "string \<Rightarrow> string" where
  "without_bom s = (if take 3 s = [CHR 0xEF, CHR 0xBB, CHR 0xBF] then drop 3 s else s)"

definition readMcpAppHTML ::
  "(nat \<Rightarrow> 's \<Rightarrow> appViewContentChunk option \<times> 's) \<Rightarrow> nat \<Rightarrow> 's \<Rightarrow> string option \<times> 's" where
  "readMcpAppHTML request total_size s =
     (if total_size > APP_CLIENT_MAX_HTML_BYTES then (None, s)
      else (case read_chunks request total_size 0 s of
              (None, s) \<Rightarrow> (None, s)
            | (Some bytes, s) \<Rightarrow>
                (let page = map char_of bytes in if valid_utf8 page then (Some (without_bom page), s) else (None, s))))"

text \<open>The number of requests the loop makes.\<close>

function chunk_requests :: "(nat \<Rightarrow> 's \<Rightarrow> appViewContentChunk option \<times> 's) \<Rightarrow> nat \<Rightarrow> nat \<Rightarrow> 's \<Rightarrow> nat" where
  "chunk_requests request total_size offset s =
     (if offset < total_size then
        (case request offset s of
           (None, s) \<Rightarrow> 1
         | (Some c, s) \<Rightarrow>
             (case decodeChunk (chunk_Data c) of
                None \<Rightarrow> 1
              | Some d \<Rightarrow>
                  if chunk_Offset c \<noteq> offset \<or> chunk_NextOffset c \<noteq> offset + length d \<or> d = []
                     \<or> chunk_NextOffset c > total_size
                  then 1 else Suc (chunk_requests request total_size (chunk_NextOffset c) s)))
      else 0)"
  by pat_completeness auto
termination
  by (relation "measure (\<lambda>(request, total_size, offset, s). total_size - offset)") (auto simp: chunk_progress)

declare read_chunks.simps [simp del] chunk_requests.simps [simp del] b64.simps [simp del]

lemma b64_value_char [simp]: "n < 64 \<Longrightarrow> b64_value (b64_char n) = n"
  by (simp add: b64_value_def b64_index_char)

lemma b64_char_pad: "n < 64 \<Longrightarrow> b64_char n \<noteq> CHR ''=''"
  using b64_char_digit pad_no_digit by metis

lemma sextets:
  fixes a b c :: nat
  assumes "a < 256" "b < 256" "c < 256"
  shows "a div 4 < 64" "a mod 4 * 16 < 64" "a mod 4 * 16 + b div 16 < 64" "b mod 16 * 4 < 64"
    "b mod 16 * 4 + c div 64 < 64" "c mod 64 < 64"
    "(a mod 4 * 16 + b div 16) div 16 = a mod 4" "(a mod 4 * 16 + b div 16) mod 16 = b div 16"
    "(b mod 16 * 4 + c div 64) div 4 = b mod 16" "(b mod 16 * 4 + c div 64) mod 4 = c div 64"
proof -
  have m: "b div 16 < 16" "c div 64 < 4" "a mod 4 < 4" "b mod 16 < 16" using assms by auto
  then show "a div 4 < 64" "a mod 4 * 16 < 64" "a mod 4 * 16 + b div 16 < 64" "b mod 16 * 4 < 64"
    "b mod 16 * 4 + c div 64 < 64" "c mod 64 < 64" using assms by linarith+
  show "(a mod 4 * 16 + b div 16) div 16 = a mod 4" "(a mod 4 * 16 + b div 16) mod 16 = b div 16"
    "(b mod 16 * 4 + c div 64) div 4 = b mod 16" "(b mod 16 * 4 + c div 64) mod 4 = c div 64"
    using m by simp_all
qed

lemma unb64_one: "a < 256 \<Longrightarrow> unb64 (b64 [a]) = Some [a]"
  using sextets [of a 0 0] by (simp add: b64.simps)

lemma unb64_two: "a < 256 \<Longrightarrow> b < 256 \<Longrightarrow> unb64 (b64 [a, b]) = Some [a, b]"
  using sextets(1-4) [of a b 0] sextets(7-8) [of a b 0]
  by (simp add: b64.simps b64_char_pad del: div_mult_self3 mod_mult_self3)

lemma unb64_three:
  assumes "a < 256" "b < 256" "c < 256"
  shows "unb64 (b64 (a # b # c # bs)) = map_option (\<lambda>r. a # b # c # r) (unb64 (b64 bs))"
proof -
  note s = sextets [OF assms]
  have "a div 4 * 4 + (a mod 4 * 16 + b div 16) div 16 = a"
    "(a mod 4 * 16 + b div 16) mod 16 * 16 + (b mod 16 * 4 + c div 64) div 4 = b"
    "(b mod 16 * 4 + c div 64) mod 4 * 64 + c mod 64 = c"
    unfolding s(7-10) by simp_all
  with s(1,3,5,6) show ?thesis
    by (simp only: b64.simps unb64.simps append.simps b64_value_char b64_char_pad if_False)
qed

lemma unb64_b64: "list_all (\<lambda>b. b < 256) bs \<Longrightarrow> unb64 (b64 bs) = Some bs"
  by (induction bs rule: b64.induct) (auto simp: unb64_one unb64_two unb64_three, simp add: b64.simps)

lemma bytes_of_bytes: "list_all (\<lambda>b. b < 256) (bytes_of s)"
  by (simp add: bytes_of_def list_all_iff of_char_lt_256)

lemma decodeChunk_bytes:
  "length t \<le> APP_CLIENT_MAX_CHUNK_BYTES \<Longrightarrow> decodeChunk (b64 (bytes_of t)) = Some (bytes_of t)"
  by (simp add: decodeChunk_def unb64_b64 [OF bytes_of_bytes]) (simp add: bytes_of_def)

lemma chars_of_bytes: "map char_of (bytes_of s) = s"
  by (simp add: bytes_of_def comp_def)

section \<open>Reading a page from the server\<close>

text \<open>The transport of an open view: \<open>session.appContentRead\<close> answers with \<open>Content\<close>.\<close>

definition content_request ::
  "string \<Rightarrow> string \<Rightarrow> string \<Rightarrow> string \<Rightarrow> string \<Rightarrow> nat \<Rightarrow> app_views \<Rightarrow> appViewContentChunk option \<times> app_views" where
  "content_request viewID project session tool client offset s =
     (case Content viewID project session tool client (int offset) s of
        (Inl e, s) \<Rightarrow> (None, s)
      | (Inr c, s) \<Rightarrow> (Some c, s))"

lemma requests_bounded: "chunk_requests request n offset s \<le> n - offset"
proof (induction request n offset s rule: chunk_requests.induct)
  case (1 request n offset s)
  show ?case
  proof (cases "offset < n")
    case True
    obtain r s1 where r: "request offset s = (r, s1)" by force
    show ?thesis
    proof (cases "\<exists>c d. r = Some c \<and> decodeChunk (chunk_Data c) = Some d \<and>
        \<not> (chunk_Offset c \<noteq> offset \<or> chunk_NextOffset c \<noteq> offset + length d \<or> d = [] \<or> chunk_NextOffset c > n)")
      case t: True
      then obtain c d where c: "r = Some c" "decodeChunk (chunk_Data c) = Some d"
        "\<not> (chunk_Offset c \<noteq> offset \<or> chunk_NextOffset c \<noteq> offset + length d \<or> d = [] \<or> chunk_NextOffset c > n)" by blast
      have "chunk_requests request n (chunk_NextOffset c) s1 \<le> n - chunk_NextOffset c"
        using 1 [OF True r [symmetric]] c by simp
      moreover have "chunk_NextOffset c = offset + length d" "d \<noteq> []" "chunk_NextOffset c \<le> n" using c(3) by auto
      moreover from this have "length d > 0" by simp
      moreover have "chunk_requests request n offset s = Suc (chunk_requests request n (chunk_NextOffset c) s1)"
        using True r c by (subst chunk_requests.simps) auto
      ultimately show ?thesis by linarith
    next
      case False
      then show ?thesis using True r by (subst chunk_requests.simps) (auto split: option.split)
    qed
  qed (simp add: chunk_requests.simps)
qed

definition page_chunk :: "nat \<Rightarrow> string \<Rightarrow> string" where
  "page_chunk offset html = take maxAppViewContentChunkBytes (drop offset html)"

definition taken :: "nat \<Rightarrow> appViewBinding \<Rightarrow> app_views \<Rightarrow> app_views" where
  "taken a v s = set_view a (v\<lparr>vb_html := [], vb_contentPending := False\<rparr>)
     (s\<lparr>av_contentBytes := av_contentBytes s - int (length (vb_html v))\<rparr>)"

lemma content_request_chunk:
  assumes "appViewTicketPattern viewID" "get (av_views s) viewID = Some a" "get (av_heap s) a = Some v"
    "matches project session tool client v" "vb_contentPending v" "offset < length (vb_html v)"
  shows "content_request viewID project session tool client offset s =
    (Some \<lparr>chunk_Offset = offset, chunk_Data = b64 (bytes_of (page_chunk offset (vb_html v))),
           chunk_NextOffset = offset + length (page_chunk offset (vb_html v))\<rparr>,
     if offset + length (page_chunk offset (vb_html v)) = length (vb_html v) then taken a v s else s)"
proof -
  have "min (offset + maxAppViewContentChunkBytes) (length (vb_html v)) =
      offset + length (page_chunk offset (vb_html v))"
    using assms(6) by (auto simp: page_chunk_def)
  moreover have "take (length (page_chunk offset (vb_html v))) (drop offset (vb_html v)) = page_chunk offset (vb_html v)"
    by (simp add: page_chunk_def) (metis take_all_iff length_drop min.cobounded2 take_take min_def)
  ultimately show ?thesis
    using assms by (simp add: content_request_def Content_def taken_def Let_def)
qed

lemma page_chunk_rest: "drop offset html = page_chunk offset html @ drop (offset + length (page_chunk offset html)) html"
  using append_take_drop_id [of maxAppViewContentChunkBytes "drop offset html"]
  by (cases "length html - offset \<le> maxAppViewContentChunkBytes") (auto simp: page_chunk_def min_def add.commute)

lemma bytes_append: "bytes_of (s @ t) = bytes_of s @ bytes_of t"
  by (simp add: bytes_of_def)

lemma read_chunks_page:
  assumes view: "appViewTicketPattern viewID" "get (av_views s) viewID = Some a" "get (av_heap s) a = Some v"
    "matches project session tool client v" "vb_contentPending v"
    and "offset < length (vb_html v)"
  shows "read_chunks (content_request viewID project session tool client) (length (vb_html v)) offset s =
    (Some (bytes_of (drop offset (vb_html v))), taken a v s)"
  using assms(6)
proof (induction "length (vb_html v) - offset" arbitrary: offset rule: less_induct)
  case less
  let ?h = "vb_html v" and ?c = "page_chunk offset (vb_html v)"
  have c: "?c \<noteq> []" "offset + length ?c \<le> length ?h" "length ?c \<le> APP_CLIENT_MAX_CHUNK_BYTES"
    using less.prems by (auto simp: page_chunk_def maxAppViewContentChunkBytes_def APP_CLIENT_MAX_CHUNK_BYTES_def)
  have split: "drop offset ?h = ?c @ drop (offset + length ?c) ?h"
    by (rule page_chunk_rest)
  have bytes: "length (bytes_of ?c) = length ?c" "bytes_of ?c \<noteq> []" using c(1) by (simp_all add: bytes_of_def)
  note req = content_request_chunk [OF view less.prems]
  show ?case
  proof (cases "offset + length ?c = length ?h")
    case True
    then show ?thesis
      using less.prems c bytes by (subst read_chunks.simps) (simp add: req decodeChunk_bytes read_chunks.simps split)
  next
    case False
    with c have "length ?h - (offset + length ?c) < length ?h - offset" "offset + length ?c < length ?h"
      using chunk_progress [OF c(1), of offset "length ?h"] less.prems by auto
    from less.hyps [OF this] False less.prems c bytes show ?thesis
      by (subst read_chunks.simps) (simp add: req decodeChunk_bytes split bytes_append)
  qed
qed

lemma page_served:
  assumes "appViewTicketPattern viewID" "get (av_views s) viewID = Some a" "get (av_heap s) a = Some v"
    "matches project session tool client v" "vb_contentPending v" "vb_html v \<noteq> []"
    "length (vb_html v) \<le> APP_CLIENT_MAX_HTML_BYTES" "valid_utf8 (vb_html v)"
  shows "readMcpAppHTML (content_request viewID project session tool client) (length (vb_html v)) s =
    (Some (without_bom (vb_html v)), taken a v s)"
  using read_chunks_page [OF assms(1-5), of 0] assms(6-8)
  by (simp add: readMcpAppHTML_def chars_of_bytes Let_def)

lemma content_gone:
  assumes "appViewTicketPattern viewID" "get (av_views s) viewID = Some a" "get (av_heap s) a = Some v"
    "matches project session tool client v"
  shows "content_request viewID project session tool client offset (taken a v s) = (None, taken a v s)"
  using assms by (simp add: content_request_def Content_def taken_def matches_def)

text \<open>C31: Reading an App's page comes to an end, whatever the other side answers: the client makes at most
  one request for every byte announced. And over the server it works: reading the page of an open view
  returns the HTML the view was opened with (a byte order mark before it is dropped by the decoder), and releases it on the server, where the bytes it held
  are free again and the page is not given a second time.\<close>

theorem app_page_read:
  "chunk_requests request total_size 0 t \<le> total_size \<and>
   (appViewTicketPattern viewID \<longrightarrow> get (av_views s) viewID = Some a \<longrightarrow> get (av_heap s) a = Some v \<longrightarrow>
    matches project session tool client v \<longrightarrow> vb_contentPending v \<longrightarrow> vb_html v \<noteq> [] \<longrightarrow>
    length (vb_html v) \<le> APP_CLIENT_MAX_HTML_BYTES \<longrightarrow> valid_utf8 (vb_html v) \<longrightarrow>
    (\<exists>s'. readMcpAppHTML (content_request viewID project session tool client) (length (vb_html v)) s =
         (Some (without_bom (vb_html v)), s')
       \<and> av_contentBytes s' = av_contentBytes s - int (length (vb_html v))
       \<and> (\<forall>offset. content_request viewID project session tool client offset s' = (None, s'))))"
  using requests_bounded [of request total_size 0 t] page_served [of viewID s a v project session tool client]
    content_gone [of viewID s a v project session tool client]
  by (auto simp: taken_def)

definition demo_html :: string where "demo_html = ''<html>hi</html>''"

definition demo_views :: app_views where
  "demo_views = snd (registerView 0 0 (replicate 64 (CHR ''a'')) ''p'' ''s'' ''t'' ''k''
     \<lparr>app_ToolName = ''tool'', app_ExtensionName = ''ext'', app_ResourceURI = ''ui://x''\<rparr> demo_html 1000 NewAppViews)"

lemma demo_ticket: "appViewTicketPattern (replicate 64 (CHR ''a''))"
  by (simp add: appViewTicketPattern_def hex_string_def list_all_iff is_hex_def less_eq_char_def)

lemma demo_registered:
  "get (av_views demo_views) (replicate 64 (CHR ''a'')) = Some 0"
  "\<exists>v. get (av_heap demo_views) 0 = Some v \<and> matches ''p'' ''s'' ''t'' ''k'' v \<and> vb_contentPending v
     \<and> vb_html v = demo_html \<and> vb_clientKey v = ''k'' \<and> vb_leaseUntil v = appViewLeaseDuration"
  using demo_ticket
  by (simp_all add: demo_views_def registerView_def NewAppViews_def clientKeyPattern_def appIdentifier_def
      requiredIdentifier_def containsNUL_def maxAppViewTicketLifetime_def maxAppViews_def demo_html_def
      TrimSpace_def space_seg_def is_space_def is_alnum_def is_lower_def less_eq_char_def maxAppViewRetainedHTMLBytes_def Let_def matches_def view_lease_def appViewLeaseDuration_def)

lemma app_page_read_witness:
  "fst (readMcpAppHTML (content_request (replicate 64 (CHR ''a'')) ''p'' ''s'' ''t'' ''k'') (length demo_html) demo_views)
     = Some demo_html"
proof -
  obtain v where v: "get (av_heap demo_views) 0 = Some v" "matches ''p'' ''s'' ''t'' ''k'' v" "vb_contentPending v"
    "vb_html v = demo_html" using demo_registered(2) by blast
  have "demo_html \<noteq> []" "length demo_html \<le> APP_CLIENT_MAX_HTML_BYTES" "valid_utf8 demo_html"
    by (auto simp: demo_html_def APP_CLIENT_MAX_HTML_BYTES_def ascii_def intro!: ascii_valid_utf8)
  moreover have "without_bom demo_html = demo_html" by (simp add: demo_html_def without_bom_def)
  ultimately show ?thesis
    using app_page_read [of "\<lambda>_ _. (None, ())" 0 "()" "replicate 64 (CHR ''a'')" demo_views 0 v "''p''" "''s''" "''t''" "''k''"]
    v demo_ticket demo_registered(1)
    by auto
qed

text \<open>C30: The bounds of the App views hold in every state any sequence of steps reaches: at most 64 views,
  at most 16 MiB of HTML held for them and exactly the sum of what they hold, at most 16 operations running
  and exactly the sum over the views, at most 4 on a view, and at most 256 remembered cancellations, each
  for a view that is still open. A view object that is no longer registered holds no HTML and its context
  and all its operations are cancelled.\<close>

theorem app_views_bounded:
  assumes "view_step\<^sup>*\<^sup>* NewAppViews s"
  shows "length (av_views s) \<le> maxAppViews
    \<and> av_contentBytes s \<le> av_maxContentBytes s
    \<and> av_contentBytes s = (\<Sum>(a, v) \<leftarrow> av_heap s. int (length (vb_html v)))
    \<and> av_activeOperations s \<le> maxAppOperations
    \<and> av_activeOperations s = (\<Sum>(a, v) \<leftarrow> av_heap s. int (length (vb_operations v)))
    \<and> length (av_earlyCancelOrder s) \<le> maxEarlyAppOperationCancels
    \<and> set (av_earlyCancelOrder s) = av_earlyCancels s
    \<and> (\<forall>k \<in> av_earlyCancels s. get (av_views s) (fst k) \<noteq> None)
    \<and> (\<forall>a v. get (av_heap s) a = Some v \<longrightarrow> length (vb_operations v) \<le> maxAppViewOperations
         \<and> (registered a s \<or> vb_html v = [] \<and> vb_cancelled v
              \<and> (\<forall>k opn. get (vb_operations v) k = Some opn \<longrightarrow> aop_cancelled opn)))"
proof -
  have ok: "views_ok s" by (rule reachable_views_ok [OF assms])
  have "av_contentBytes s = (\<Sum>(a, v) \<leftarrow> av_heap s. int (length (vb_html v)))"
    "av_activeOperations s = (\<Sum>(a, v) \<leftarrow> av_heap s. int (length (vb_operations v)))"
    using views_balanced [OF ok] by (simp_all add: held.balanced_def active.balanced_def total_def)
  moreover have "length (vb_operations v) \<le> maxAppViewOperations \<and> (registered a s \<or> dead_view v)"
    if "get (av_heap s) a = Some v" for a v
    using view_facts(1,2) [OF ok that] by (simp add: view_ok_def)
  moreover have "length (av_views s) \<le> maxAppViews" using ok by (simp add: views_ok_def)
  ultimately show ?thesis using limits_ok [OF ok] early_facts [OF ok] unfolding dead_view_def by blast
qed

lemma demo_reachable: "view_step\<^sup>*\<^sup>* NewAppViews demo_views"
  unfolding demo_views_def by (rule r_into_rtranclp) (rule Register)

lemma app_views_bounded_witness:
  "length (av_views demo_views) \<le> maxAppViews \<and> av_contentBytes demo_views \<le> av_maxContentBytes demo_views"
  using app_views_bounded [OF demo_reachable] by blast

text \<open>When a client is gone, nothing runs on through its views: \<open>ReleaseClient\<close> unregisters every view
  of that client and returns its ticket to be deleted, drops its HTML, and cancels its context and every
  operation on it; an operation through it is refused from then on. The views of the other clients, what
  they hold and their operations are as before.\<close>

theorem release_client_revokes:
  assumes "view_step\<^sup>*\<^sup>* NewAppViews s" "ReleaseClient client s = (tickets, s')"
    "get (av_views s) viewID = Some a" "get (av_heap s) a = Some v"
  shows "if vb_clientKey v = client
    then viewID \<in> set tickets \<and> get (av_views s') viewID = None
      \<and> (\<exists>v'. get (av_heap s') a = Some v' \<and> vb_cancelled v' \<and> vb_html v' = []
            \<and> keys (vb_operations v') = keys (vb_operations v)
            \<and> (\<forall>k opn. get (vb_operations v') k = Some opn \<longrightarrow> aop_cancelled opn))
      \<and> (\<forall>ended late opid project session tool key.
           \<exists>e. beginOperation ended late viewID opid project session tool key s' = (Inl e, s'))
    else viewID \<notin> set tickets \<and> get (av_views s') viewID = Some a \<and> get (av_heap s') a = Some v"
proof -
  have ok: "views_ok s" by (rule reachable_views_ok [OF assms(1)])
  let ?vs = "matching (\<lambda>v. vb_clientKey v = client) s"
  have t: "tickets = map fst ?vs" "s' = revoke_each ?vs s"
    using assms(2) by (auto simp: ReleaseClient_def revokeMatching_def)
  note spec = revoke_each_spec [OF ok matching_registered [OF ok] matching_distinct [OF ok], of "\<lambda>v. vb_clientKey v = client"]
  note gone = spec [unfolded t(2) [symmetric], THEN conjunct2, THEN conjunct2]
  have unique: "unique_keys (av_views s)" using ok by (simp add: views_ok_def)
  have m: "(viewID, a) \<in> set ?vs \<longleftrightarrow> vb_clientKey v = client"
    using assms(3,4) by (auto simp: matching_def get_in_set [OF unique])
  show ?thesis
  proof (cases "vb_clientKey v = client")
    case True
    with m have "(viewID, a) \<in> set ?vs" by simp
    then have k: "viewID \<in> keys ?vs" "a \<in> snd ` set ?vs" by force+
    with gone have "get (av_views s') viewID = None" "get (av_heap s') a = Some (dead v)" using assms(4) by simp_all
    moreover have "keys (vb_operations (dead v)) = keys (vb_operations v)" by (auto simp: dead_def image_comp comp_def case_prod_beta)
    ultimately show ?thesis
      using True k(1) dead_dead [of v] by (auto simp: t(1) dead_view_def beginOperation_def)
  next
    case False
    have "viewID \<notin> keys ?vs"
    proof
      assume "viewID \<in> keys ?vs"
      then obtain b where "(viewID, b) \<in> set ?vs" by force
      with matching_registered [OF ok] assms(3) m False show False by fastforce
    qed
    moreover have "a \<notin> snd ` set ?vs"
    proof
      assume "a \<in> snd ` set ?vs"
      then obtain j where j: "(j, a) \<in> set ?vs" by force
      then have "get (av_views s) j = Some a" using matching_registered [OF ok] by fastforce
      then have "j = viewID" using views_inj [OF ok _ assms(3)] by blast
      with j m False show False by simp
    qed
    ultimately show ?thesis using False gone assms(3,4) by (simp add: t(1))
  qed
qed

lemma release_client_revokes_witness:
  "replicate 64 (CHR ''a'') \<in> set (fst (ReleaseClient ''k'' demo_views)) \<and>
   get (av_views (snd (ReleaseClient ''k'' demo_views))) (replicate 64 (CHR ''a'')) = None"
proof -
  obtain v where v: "get (av_heap demo_views) 0 = Some v" "vb_clientKey v = ''k''" using demo_registered(2) by blast
  show ?thesis
    using release_client_revokes [OF demo_reachable prod.collapse [symmetric] demo_registered(1) v(1), of "''k''"] v(2)
    by simp
qed

end
