(* ===== verification/Spec2Isabelle.thy ===== *)
theory Spec2Isabelle
  imports SessionTableSafety ChatDeletionSafety PiClientSafety PiRpcSafety ProjectSafety GitSafety PathSafety PanelCommands Replay Deletions BrowserPolicy QueueActions ScheduleSafety SessionRecords Objectives AppViewSafety
begin

text \<open>
  A model of Pixie, a web front end for the Pi coding agent (Go, under \<open>src/pixie/internal\<close>), with the
  theorems that make its parts correct.

  The program. A controller serves browsers over WebSockets and drives Pi over JSON-RPC; a browser service
  drives Chromium for it. The controller keeps little state of its own, and the model is about that state:
  what is queued, scheduled, deleted, remembered, connected and shown, what of it is on disk at every moment, and what
  happens to it when a request is repeated, a call fails, a client leaves or the process dies.

  The parts, one theory each (a part's safety proofs may have a second theory), in the order of use:

  \<^item> \<open>Prelude\<close>: association lists standing for Go maps (\<open>get\<close>, \<open>put\<close>, \<open>del\<close>), list lemmas, the locale
    \<open>ledger\<close> of a counter that is the sum of charges over a map (interpreted for the replay cache and, twice,
    for the App views).
  \<^item> \<open>GoText\<close>, \<open>Json\<close>: Go strings as byte lists, UTF-8 decoding, \<open>TrimSpace\<close>, \<open>Fields\<close>, UTF-16 length; decoded
    JSON values.
  \<^item> \<open>Replay\<close>: \<open>controller/replay.go\<close>, the cache that makes client requests idempotent. \<open>Run\<close> is split at its
    critical sections (\<open>run_begin\<close>, \<open>run_wait\<close>, \<open>run_finish\<close>), and the steps of all its methods form a relation.
    A request id is executed at most once per retention, its result is stable, the retained weight and the
    number of requests are bounded, and a client is cleared exactly when it is idle.
  \<^item> \<open>Persist\<close>: \<open>persist/store.go\<close> over a file system whose every call may fail and whose every intermediate
    state is recorded (\<open>trail\<close>). A write is crash safe, is read back, and keeps a backup. The locale of
    guarded stores gives these facts to every file below.
  \<^item> \<open>Identity\<close>: identifiers and validation of names and texts.
  \<^item> \<open>Deletions\<close>: \<open>controller/session_deletions.go\<close>, refined to an abstract journal; confirmed deletions are
    final, and a lost primary fails closed.
  \<^item> \<open>ChatDeletion\<close>, \<open>SessionStores\<close>, \<open>ChatStores\<close>, \<open>ChatDeletionSafety\<close>: the deletion of a chat and its
    resumption at the next start (\<open>controller/session_lifecycle.go\<close>) over the journal, the records, the queues and
    the objectives, with the agent's own list of chats. The locale \<open>session_store\<close> states what a deletion needs of a
    store, and the three stores are its interpretations. Stopped at any moment and started again, a chat is as it
    was or completely gone.
  \<^item> \<open>SessionRecords\<close>, \<open>Objectives\<close>: the two stores of \<open>controller/session_state.go\<close>: which project a session
    belongs to, and its goal and tasks, with the migration of files of older versions.
  \<^item> \<open>Attachments\<close>: the content of prompts in \<open>controller/session_actions.go\<close>, base64 and replay markers.
  \<^item> \<open>SessionQueues\<close>, \<open>QueueActions\<close>: the queue of follow-up messages of a chat, on disk
    (\<open>controller/session_queues.go\<close>) and in motion (\<open>session_actions.go\<close> and what \<open>session_manager.go\<close> and
    \<open>session_events.go\<close> do to it): queueing, editing, dispatch, settlement, recovery and retry timers, as
    steps of a chat in any order with any failures. No message is lost or sent twice, the dispatch is durable
    before it is sent, edits act on what the client saw, mutations happen once.
  \<^item> \<open>SessionTable\<close>, \<open>SessionEviction\<close>, \<open>SessionTableSafety\<close>: the chats in memory (\<open>controller/session_manager.go\<close>,
    \<open>session_operations.go\<close>, with the parts of \<open>session_lifecycle.go\<close>, \<open>session_events.go\<close>, \<open>history.go\<close> and
    \<open>runtime.go\<close> that touch the table): who holds an entry, which browser tabs lease it, when it is evicted, and how a
    change of its life cycle excludes everything else. Every critical section is a step of \<open>table_step\<close>, in any order. A
    chat in use stays in memory, a change of the life cycle has its chat to itself, eviction keeps within 24 chats and
    8 MiB and takes no more than that needs, the oldest first, and a browser's snapshot of its tabs is taken over exactly.
  \<^item> \<open>Schedules\<close>, \<open>ScheduleSafety\<close>: \<open>controller/schedules.go\<close>, the recurring prompts. Bounds and ownership of
    runs hold in every reachable state; an occurrence is durable before it runs and is not repeated after a
    restart; failed requests change nothing; a tick attends every due job.
  \<^item> \<open>Serials\<close>, \<open>PiRpc\<close>, \<open>PiRpcSafety\<close>: one JSON-RPC connection of \<open>controller/pi_client.go\<close>, its reader and its
    calls as steps in any order: every call gets the reply with its own id, after the events sent before it, and
    none is left waiting.
  \<^item> \<open>PiClient\<close>, \<open>PiClientInv\<close>, \<open>PiClientSafety\<close>: the shared connection of the same file: attempts, resets,
    generations and agent profiles. The installed connection is the newest complete one, none leaks, a request bound
    to a generation gets no other, and every request for the connection is answered.
  \<^item> \<open>PathPolicy\<close>, \<open>PathSafety\<close>: \<open>workspace/path_policy.go\<close>, which directories are offered and what a path given by
    a user resolves to: always a clean path inside a root.
  \<^item> \<open>Projects\<close>, \<open>ProjectSplit\<close>, \<open>ProjectSafety\<close>: \<open>workspace/projects.go\<close>, the registry of projects with the
    migration of older stores; its invariant, the coordination with the disk, and where a session may start.
  \<^item> \<open>GitDiff\<close>, \<open>GitSafety\<close>: \<open>workspace/git_diff.go\<close> and \<open>git_exec.go\<close>: the arguments of every Git process (no
    text of a user is read as an option) and the parsers of its output, which read back what Git prints.
  \<^item> \<open>BrowserPolicy\<close>: \<open>browser/policy.go\<close>, what the browser service lets a request do.
  \<^item> \<open>BrowserPanels\<close>, \<open>PanelJournal\<close>, \<open>PanelCommands\<close>: \<open>controller/browser_panels.go\<close> with its ownership and
    lease files: the browser sessions behind the panels of the web interface. No session is forgotten by a crash,
    and the commands that are sent are those the browser service admits (composed with \<open>BrowserPolicy\<close>).
  \<^item> \<open>AppViews\<close>, \<open>AppViewSafety\<close>: \<open>controller/app_view_lifetime.go\<close>, the leases, operations and content of
    MCP App views, and the loop of the web interface that reads a page. Bounds hold in every reachable state,
    a client that left has nothing running, and reading a page terminates and returns it.

  Conventions. A method under a mutex is one function on the component's record, returning the answer and the
  new state; a method that releases the mutex is split there. Errors are constructors of an error datatype
  (\<open>Inl\<close>, or \<open>Some\<close> where nothing else is returned). Clock readings, random bytes and the outcome of remote
  calls are arguments. A codec argument stands for \<open>encoding/json\<close> of a stored type; theorems that need it
  assume that what is written is decoded again (\<open>exact\<close>), and their witnesses use a concrete codec. The cron
  library, \<open>url.Parse\<close> and SHA-256 are arguments too.

  Bounds and fuel. No definition has fuel: loops are structural or have a measure (the bytes left to decode or
  to read, the names already taken). The limits are those of the code, as constants named as there.

  Not modelled: the browser service (\<open>browser/service.go\<close>, artifacts, diagnostics), which is process supervision of
  Chromium and HTTP; the server, the WebSocket sessions and the MCP gateway and host, whose behaviour is that of
  network libraries; the requests of the administration pages, which forward JSON to Pi; the projection of Pi's
  events and of the transcript history into what the browser shows, a large translation of untyped JSON whose only
  contract is the shape the interface expects; of the session manager, the requests to Pi of an attachment
  and the replay of the transcript into the entry, the configuration of models and the questions and plans of a chat; the settings
  and provider logins (one stored value and dialogues with third parties); authentication (environment variables,
  HTTP origins and signed cookies); the one-off move of the stores of a project with several roots
  (\<open>controller/project-root-migration.go\<close>), of which only the split of the projects is modelled; file listings, watches and repository
  discovery of \<open>workspace\<close>, which are walks of the operating system; and the programs' command lines.
\<close>

end
